(* ===== verification/Prelude.thy ===== *)
theory Prelude
  imports Complex_Main "HOL-Library.Multiset" "HOL-Library.Signed_Division"
begin

text \<open>
  What every component of the model shares: the faults of a C++ run and the
  result type that carries them, C++ integer conversions and divisions, the
  sizes and offsets of \<^verbatim>\<open>General.h\<close>, the searches in a \<^verbatim>\<open>std::list\<close> and the
  round-robin loop of the fair queueing schedulers.

  Conventions. A value of \<open>'a res\<close> is \<open>Inr x\<close> when the C++ code returns \<open>x\<close> and
  \<open>Inl f\<close> when the run stops with the fault \<open>f\<close>. \<^verbatim>\<open>PrintError::print\<close> ends in
  \<^verbatim>\<open>throw;\<close> with no exception in flight, which calls \<^verbatim>\<open>std::terminate\<close>: it never
  returns, so it is the fault \<open>Abort\<close> and the statements after it are not
  executed. \<^verbatim>\<open>int\<close> and \<^verbatim>\<open>long\<close> are HOL's \<open>int\<close> (a signed overflow is undefined
  behaviour in C++), a conversion from \<^verbatim>\<open>long\<close> to \<^verbatim>\<open>int\<close> is written \<open>to_int32\<close>, and
  \<^verbatim>\<open>double\<close> is HOL's \<open>real\<close>. Division of integers is \<open>sdiv\<close> and \<open>smod\<close>, which
  truncate towards zero as C++ does.
\<close>

section \<open>Faults and results\<close>

datatype fault =
    Abort string            \<comment> \<open>\<^verbatim>\<open>PrintError::print\<close>, with the reporting class\<close>
  | OutOfBounds string      \<comment> \<open>an array access outside the array\<close>
  | NullDeref string        \<comment> \<open>a dereference of NULL or of \<^verbatim>\<open>end()\<close>\<close>
  | DivByZero string        \<comment> \<open>an integer division by zero\<close>
  | UseAfterFree string     \<comment> \<open>a dereference of a deleted object\<close>
  | Diverge string          \<comment> \<open>a loop that does not end\<close>
  | CppThrow string         \<comment> \<open>a \<^verbatim>\<open>throw\<close> statement with a value\<close>

type_synonym 'a res = "fault + 'a"

fun bindR :: "'a res \<Rightarrow> ('a \<Rightarrow> 'b res) \<Rightarrow> 'b res" where
  "bindR (Inl e) f = Inl e"
| "bindR (Inr x) f = f x"

lemma bindR_Inr_iff [simp]: "bindR m f = Inr y \<longleftrightarrow> (\<exists>x. m = Inr x \<and> f x = Inr y)"
  by (cases m) auto

lemma bindR_Inr_iff' [simp]: "Inr y = bindR m f \<longleftrightarrow> (\<exists>x. m = Inr x \<and> f x = Inr y)"
  by (cases m) auto

lemma bindR_Inl_iff: "bindR m f = Inl e \<longleftrightarrow> m = Inl e \<or> (\<exists>x. m = Inr x \<and> f x = Inl e)"
  by (cases m) auto

fun is_ok :: "'a res \<Rightarrow> bool" where
  "is_ok (Inl e) = False"
| "is_ok (Inr x) = True"

lemma is_ok_iff: "is_ok m \<longleftrightarrow> (\<exists>x. m = Inr x)"
  by (cases m) auto

definition run_ok :: "'a res \<Rightarrow> 'a" where
  "run_ok m = (case m of Inr x \<Rightarrow> x | Inl e \<Rightarrow> undefined)"

lemma run_ok_simps [simp]: "run_ok (Inr x) = x"
  by (simp add: run_ok_def)

text \<open>Running a list of operations stops at the first fault.\<close>

fun run_res :: "('a \<Rightarrow> 's \<Rightarrow> 's res) \<Rightarrow> 'a list \<Rightarrow> 's \<Rightarrow> 's res" where
  "run_res f [] s = Inr s"
| "run_res f (x # xs) s = bindR (f x s) (run_res f xs)"

lemma run_res_append:
  "run_res f (xs @ ys) s = bindR (run_res f xs s) (run_res f ys)"
  by (induction xs arbitrary: s) (auto split: sum.splits, metis bindR.simps sum.exhaust)

lemma run_res_invariant:
  assumes "\<And>x s s'. P s \<Longrightarrow> f x s = Inr s' \<Longrightarrow> P s'"
  shows "P s \<Longrightarrow> run_res f xs s = Inr s' \<Longrightarrow> P s'"
  by (induction xs arbitrary: s) (auto dest: assms)

text \<open>
  A loop over distinct indices whose body at \<open>i\<close> changes only what the view \<open>V\<close>
  shows at \<open>i\<close>, by \<open>g\<close>.
\<close>

lemma run_res_pointwise:
  assumes "\<And>i s s' a. f i s = Inr s' \<Longrightarrow> V s' a = (if a = i then g i (V s a) else V s a)"
    and "distinct xs" "run_res f xs s = Inr s'"
  shows "V s' a = (if a \<in> set xs then g a (V s a) else V s a)"
  using assms(2,3)
proof (induction xs arbitrary: s)
  case (Cons x xs)
  then obtain s1 where s1: "f x s = Inr s1" "run_res f xs s1 = Inr s'" by auto
  from Cons.IH [OF _ s1(2)] Cons.prems(1) assms(1) [OF s1(1)] show ?case by auto
qed simp

lemma run_res_ok:
  assumes "\<And>x s. x \<in> set xs \<Longrightarrow> \<exists>s'. f x s = Inr s'"
  shows "\<exists>s'. run_res f xs s = Inr s'"
  using assms by (induction xs arbitrary: s) (simp, fastforce)

section \<open>C++ integers and doubles\<close>

definition to_int32 :: "int \<Rightarrow> int" where
  "to_int32 x = (x + 2147483648) mod 4294967296 - 2147483648"

lemma to_int32_id: "-2147483648 \<le> x \<Longrightarrow> x < 2147483648 \<Longrightarrow> to_int32 x = x"
  by (simp add: to_int32_def)

lemma to_int32_range: "-2147483648 \<le> to_int32 x \<and> to_int32 x < 2147483648"
  by (simp add: to_int32_def pos_mod_bound add.commute less_diff_eq)

text \<open>The conversion of a \<^verbatim>\<open>double\<close> to an integer truncates towards zero.\<close>

definition trunc_double :: "real \<Rightarrow> int" where
  "trunc_double x = (if 0 \<le> x then \<lfloor>x\<rfloor> else \<lceil>x\<rceil>)"

lemma trunc_double_nonneg: "0 \<le> x \<Longrightarrow> trunc_double x = \<lfloor>x\<rfloor>"
  by (simp add: trunc_double_def)

lemma trunc_double_of_int [simp]: "trunc_double (of_int z) = z"
  by (simp add: trunc_double_def)

lemma sdiv_nonneg: "0 \<le> (a::int) \<Longrightarrow> 0 < b \<Longrightarrow> a sdiv b = a div b"
  by (auto simp: signed_divide_int_def sgn_if)

lemma smod_nonneg: "0 \<le> (a::int) \<Longrightarrow> 0 < b \<Longrightarrow> a smod b = a mod b"
  by (cases "a = 0") (auto simp: signed_modulo_int_def sgn_if minus_div_mult_eq_mod)

lemma ceil_div:
  assumes "0 < (m::int)"
  shows "(a + m - 1) div m = a div m + (if a mod m = 0 then 0 else 1)"
proof (cases "a mod m = 0")
  case True
  then have "a + m - 1 = (m - 1) + m * (a div m)" using mult_div_mod_eq [of m a] by linarith
  then have "(a + m - 1) div m = a div m + (m - 1) div m"
    using assms by (simp only: div_mult_self2)
  with assms True show ?thesis by (simp add: div_pos_pos_trivial)
next
  case False
  have "a + m - 1 = (a mod m - 1) + m * (a div m + 1)"
    using mult_div_mod_eq [of m a] by (simp add: algebra_simps)
  then have "(a + m - 1) div m = a div m + 1 + (a mod m - 1) div m"
    using assms by (simp only: div_mult_self2)
  moreover have "0 \<le> a mod m - 1" "a mod m - 1 < m"
    using False assms pos_mod_sign [of m a] pos_mod_bound [of m a] by linarith+
  ultimately show ?thesis using False by (simp add: div_pos_pos_trivial)
qed

section \<open>The constants of General.h\<close>

definition MAX_APP :: int where "MAX_APP = 8"
definition MAX_DS :: int where "MAX_DS = 32"
definition JOB_MAXSIZE :: int where "JOB_MAXSIZE = 10485760"
definition CID_OFFSET :: int where "CID_OFFSET = 1000000"
definition RID_OFFSET :: int where "RID_OFFSET = 1000"
definition SUBREQ_OFFSET :: int where "SUBREQ_OFFSET = 1"
definition LOWOFFSET_RANGE :: int where "LOWOFFSET_RANGE = 268435456"
definition MAX_DISK_OFFSET :: int where "MAX_DISK_OFFSET = 1000000000"
definition MAX_LFILE_NUM :: int where "MAX_LFILE_NUM = 1024"
definition MAX_EXT_ENTRY_NUM :: int where "MAX_EXT_ENTRY_NUM = 10000"
definition MAX_SUBREQ_SIZE :: int where "MAX_SUBREQ_SIZE = 131072"
definition MAX_RA :: int where "MAX_RA = 64"
definition RA_FLAG_INCACHE_SEILING :: int where "RA_FLAG_INCACHE_SEILING = 256"
definition VFS_SUB_ID_BASE :: int where "VFS_SUB_ID_BASE = 10"
definition LFS_SUB_ID_BASE :: int where "LFS_SUB_ID_BASE = 1"
definition DATA_HEADER_LENGTH :: int where "DATA_HEADER_LENGTH = 48"
definition METADATA_LENGTH :: int where "METADATA_LENGTH = 2048"
definition MAX_FILE :: int where "MAX_FILE = 1024"

lemmas general_h =
  MAX_APP_def MAX_DS_def JOB_MAXSIZE_def CID_OFFSET_def RID_OFFSET_def SUBREQ_OFFSET_def
  LOWOFFSET_RANGE_def MAX_DISK_OFFSET_def MAX_LFILE_NUM_def MAX_EXT_ENTRY_NUM_def
  MAX_SUBREQ_SIZE_def MAX_RA_def RA_FLAG_INCACHE_SEILING_def VFS_SUB_ID_BASE_def
  LFS_SUB_ID_BASE_def DATA_HEADER_LENGTH_def METADATA_LENGTH_def

section \<open>Searching a std::list\<close>

text \<open>
  The loop that walks a list with an iterator, takes the first element that
  satisfies a test, erases it and breaks.
\<close>

fun erase_first :: "('a \<Rightarrow> bool) \<Rightarrow> 'a list \<Rightarrow> ('a \<times> 'a list) option" where
  "erase_first P [] = None"
| "erase_first P (x # xs) =
     (if P x then Some (x, xs)
      else case erase_first P xs of None \<Rightarrow> None | Some (y, ys) \<Rightarrow> Some (y, x # ys))"

lemma erase_first_None: "erase_first P xs = None \<longleftrightarrow> (\<forall>x\<in>set xs. \<not> P x)"
  by (induction xs) (auto split: option.splits)

lemma erase_first_Some:
  "erase_first P xs = Some (y, ys) \<Longrightarrow>
     \<exists>us vs. xs = us @ y # vs \<and> ys = us @ vs \<and> P y \<and> (\<forall>x\<in>set us. \<not> P x)"
proof (induction xs arbitrary: ys)
  case (Cons x xs)
  show ?case
  proof (cases "P x")
    case True
    with Cons.prems have "x # xs = [] @ y # xs" "ys = [] @ xs" "P y" by auto
    then show ?thesis by (metis empty_iff list.set(1))
  next
    case False
    with Cons.prems obtain zs where zs: "erase_first P xs = Some (y, zs)" "ys = x # zs"
      by (auto split: option.splits)
    from Cons.IH [OF zs(1)] obtain us vs
      where "xs = us @ y # vs" "zs = us @ vs" "P y" "\<forall>x\<in>set us. \<not> P x" by blast
    with False zs(2) have "x # xs = (x # us) @ y # vs" "ys = (x # us) @ vs" "P y"
      "\<forall>z\<in>set (x # us). \<not> P z" by auto
    then show ?thesis by blast
  qed
qed simp

lemma erase_first_find:
  "map_option fst (erase_first P xs) = find P xs"
  by (induction xs) (auto split: option.splits)

lemma erase_first_mset:
  "erase_first P xs = Some (y, ys) \<Longrightarrow> mset xs = add_mset y (mset ys)"
  by (auto dest!: erase_first_Some)

lemma erase_first_sat: "erase_first P xs = Some (y, ys) \<Longrightarrow> P y"
  by (auto dest!: erase_first_Some)

lemma erase_first_set: "erase_first P xs = Some (y, ys) \<Longrightarrow> y \<in> set xs \<and> set ys \<subseteq> set xs"
  by (auto dest!: erase_first_Some)

lemma erase_first_length:
  "erase_first P xs = Some (y, ys) \<Longrightarrow> length xs = Suc (length ys)"
  by (auto dest!: erase_first_Some)

section \<open>Sums over the queues of the applications\<close>

lemma sum_queue_update:
  fixes f :: "int \<Rightarrow> 'm::comm_monoid_add"
  assumes "0 \<le> a" "a < n"
  shows "(\<Sum>i\<in>{0..<n}. (f(a := x)) i) + f a = (\<Sum>i\<in>{0..<n}. f i) + x"
proof -
  have "a \<in> {0..<n}" using assms by simp
  then have "(\<Sum>i\<in>{0..<n}. (f(a := x)) i) = x + (\<Sum>i\<in>{0..<n} - {a}. f i)"
    and "(\<Sum>i\<in>{0..<n}. f i) = f a + (\<Sum>i\<in>{0..<n} - {a}. f i)"
    by (simp_all add: sum.remove [of _ a])
  then show ?thesis by (simp add: ac_simps)
qed

section \<open>The round-robin loop of the fair queueing schedulers\<close>

text \<open>
  SFQ and SFQRC visit the application queues with a \<^verbatim>\<open>while(1)\<close> loop: the index
  wraps from \<^verbatim>\<open>appNum\<close> to 0 and the loop breaks when it meets \<^verbatim>\<open>startpos\<close> for the
  second time. \<open>f i s\<close> is what the body does at index \<open>i\<close>. \<open>None\<close> is running out
  of fuel.
\<close>

fun rr_loop :: "nat \<Rightarrow> int \<Rightarrow> int \<Rightarrow> (int \<Rightarrow> 's \<Rightarrow> 's) \<Rightarrow> int \<Rightarrow> bool \<Rightarrow> 's \<Rightarrow> 's option" where
  "rr_loop 0 startpos appNum f i firstround s = None"
| "rr_loop (Suc n) startpos appNum f i firstround s =
     (let i = (if i \<ge> appNum then 0 else i)
      in if i = startpos \<and> \<not> firstround then Some s
         else rr_loop n startpos appNum f (i + 1)
                (if i = startpos then False else firstround) (f i s))"

definition rr_order :: "int \<Rightarrow> int \<Rightarrow> int list" where
  "rr_order startpos appNum = [startpos..appNum - 1] @ [0..startpos - 1]"

lemma set_rr_order:
  "0 \<le> sp \<Longrightarrow> sp < an \<Longrightarrow> set (rr_order sp an) = {0..<an}"
  by (auto simp: rr_order_def)

lemma rr_loop_low:
  "0 \<le> i \<Longrightarrow> i \<le> sp \<Longrightarrow> sp < an \<Longrightarrow> nat (sp - i) < n \<Longrightarrow>
     rr_loop n sp an f i False s = Some (fold f [i..sp - 1] s)"
proof (induction n arbitrary: i s)
  case (Suc n)
  show ?case
  proof (cases "i = sp")
    case True
    with Suc.prems show ?thesis by simp
  next
    case False
    with Suc.prems have "rr_loop n sp an f (i + 1) False (f i s)
        = Some (fold f [i + 1..sp - 1] (f i s))" by (intro Suc.IH) auto
    with False Suc.prems show ?thesis
      by (simp add: upto_rec1 Let_def)
  qed
qed simp

lemma rr_loop_high:
  "0 \<le> sp \<Longrightarrow> sp < i \<Longrightarrow> i \<le> an \<Longrightarrow> nat (an - i) + nat sp < n \<Longrightarrow>
     rr_loop n sp an f i False s = Some (fold f ([i..an - 1] @ [0..sp - 1]) s)"
proof (induction n arbitrary: i s)
  case (Suc n)
  show ?case
  proof (cases "i = an")
    case True
    have "rr_loop (Suc n) sp an f 0 False s = Some (fold f [0..sp - 1] s)"
      using Suc.prems by (intro rr_loop_low) auto
    with True Suc.prems show ?thesis by simp
  next
    case False
    with Suc.prems have "rr_loop n sp an f (i + 1) False (f i s)
        = Some (fold f ([i + 1..an - 1] @ [0..sp - 1]) (f i s))" by (intro Suc.IH) auto
    with False Suc.prems show ?thesis
      by (simp add: upto_rec1 [of i] Let_def)
  qed
qed simp

text \<open>One round: every index below \<^verbatim>\<open>appNum\<close> is visited exactly once, and the loop ends.\<close>

lemma rr_loop_round:
  assumes "0 \<le> sp" "sp < an" "nat an < n"
  shows "rr_loop n sp an f sp True s = Some (fold f (rr_order sp an) s)"
proof -
  from assms obtain m where n: "n = Suc m" by (cases n) auto
  have "rr_loop m sp an f (sp + 1) False (f sp s)
      = Some (fold f ([sp + 1..an - 1] @ [0..sp - 1]) (f sp s))"
    using assms n by (intro rr_loop_high) auto
  with assms n show ?thesis by (simp add: rr_order_def upto_rec1 [of sp] Let_def)
qed

end
