(* ===== verification/Packets.thy ===== *)
theory Packets
  imports Prelude
begin

text \<open>
  The messages of the simulation: \<^verbatim>\<open>packet/Packets.msg\<close> declares them, OMNeT++
  generates a class with one getter and one setter per field. A record field is
  named by its getter and the inheritance of the message classes is record
  extension, so that an operation on a \<^verbatim>\<open>bPacket *\<close> applies to every packet.
  The message kinds are the codes of \<^verbatim>\<open>General.h\<close>.
\<close>

section \<open>Message kinds\<close>

datatype msg_kind =
    SELF_EVENT | LAYOUT_REQ | LAYOUT_RESP | LFILE_REQ | BLK_REQ | BLK_RESP | LFILE_RESP
  | SCH_JOB | TRC_SYN | PAGE_REQ | PAGE_RESP | PROP_SCH | DISK_REQ | DISK_RESP
  | CACHE_ACCESS | DIRTY_PAGE_EXPIRE | ALG_TIMER | TRACE_REQ | TRACE_RESP
  | PFS_W_REQ | PFS_R_REQ | PFS_W_RESP | PFS_W_DATA | PFS_W_DATA_LAST | PFS_W_FIN
  | PFS_R_DATA | PFS_R_DATA_LAST | SELF_PFS_W_REQ | SELF_PFS_R_REQ | SELF_PFS_W_RESP
  | SELF_PFS_W_DATA | SELF_PFS_W_DATA_LAST | SELF_PFS_W_FIN | SELF_PFS_R_DATA
  | SELF_PFS_R_DATA_LAST

fun kind_code :: "msg_kind \<Rightarrow> int" where
  "kind_code SELF_EVENT = 0"
| "kind_code LAYOUT_REQ = 1"
| "kind_code LAYOUT_RESP = 2"
| "kind_code LFILE_REQ = 3"
| "kind_code BLK_REQ = 4"
| "kind_code BLK_RESP = 5"
| "kind_code LFILE_RESP = 6"
| "kind_code SCH_JOB = 7"
| "kind_code TRC_SYN = 8"
| "kind_code PAGE_REQ = 9"
| "kind_code PAGE_RESP = 10"
| "kind_code PROP_SCH = 11"
| "kind_code DISK_REQ = 12"
| "kind_code DISK_RESP = 13"
| "kind_code CACHE_ACCESS = 14"
| "kind_code DIRTY_PAGE_EXPIRE = 15"
| "kind_code ALG_TIMER = 16"
| "kind_code TRACE_REQ = 17"
| "kind_code TRACE_RESP = 18"
| "kind_code PFS_W_REQ = 19"
| "kind_code PFS_R_REQ = 20"
| "kind_code PFS_W_RESP = 21"
| "kind_code PFS_W_DATA = 22"
| "kind_code PFS_W_DATA_LAST = 23"
| "kind_code PFS_W_FIN = 24"
| "kind_code PFS_R_DATA = 25"
| "kind_code PFS_R_DATA_LAST = 26"
| "kind_code SELF_PFS_W_REQ = 27"
| "kind_code SELF_PFS_R_REQ = 28"
| "kind_code SELF_PFS_W_RESP = 29"
| "kind_code SELF_PFS_W_DATA = 30"
| "kind_code SELF_PFS_W_DATA_LAST = 31"
| "kind_code SELF_PFS_W_FIN = 32"
| "kind_code SELF_PFS_R_DATA = 33"
| "kind_code SELF_PFS_R_DATA_LAST = 34"

text \<open>
  \<^verbatim>\<open>MessageKind::getMessageKindString\<close>: kinds without a case reach the default,
  which prints and returns NULL, from which \<^verbatim>\<open>std::string\<close> cannot be built.
\<close>

definition getMessageKindString :: "msg_kind \<Rightarrow> string res" where
  "getMessageKindString k =
    (case k of
      SELF_EVENT \<Rightarrow> Inr ''SELF_EVENT''
    | LAYOUT_REQ \<Rightarrow> Inr ''LAYOUT_REQ''
    | LAYOUT_RESP \<Rightarrow> Inr ''LAYOUT_RESP''
    | LFILE_REQ \<Rightarrow> Inr ''LFILE_REQ''
    | BLK_REQ \<Rightarrow> Inr ''BLK_REQ''
    | BLK_RESP \<Rightarrow> Inr ''BLK_RESP''
    | LFILE_RESP \<Rightarrow> Inr ''LFILE_RESP''
    | SCH_JOB \<Rightarrow> Inr ''SCH_JOB''
    | TRC_SYN \<Rightarrow> Inr ''TRC_SYN''
    | PAGE_REQ \<Rightarrow> Inr ''PAGE_REQ''
    | PAGE_RESP \<Rightarrow> Inr ''PAGE_RESP''
    | PROP_SCH \<Rightarrow> Inr ''PROP_SCH''
    | DISK_REQ \<Rightarrow> Inr ''DISK_REQ''
    | DISK_RESP \<Rightarrow> Inr ''DISK_RESP''
    | TRACE_REQ \<Rightarrow> Inr ''TRACE_REQ''
    | TRACE_RESP \<Rightarrow> Inr ''TRACE_RESP''
    | PFS_W_REQ \<Rightarrow> Inr ''PFS_W_REQ''
    | PFS_R_REQ \<Rightarrow> Inr ''PFS_R_REQ''
    | PFS_W_RESP \<Rightarrow> Inr ''PFS_W_RESP''
    | PFS_W_DATA \<Rightarrow> Inr ''PFS_W_DATA''
    | PFS_W_DATA_LAST \<Rightarrow> Inr ''PFS_W_DATA_LAST''
    | PFS_W_FIN \<Rightarrow> Inr ''PFS_W_FIN''
    | PFS_R_DATA \<Rightarrow> Inr ''PFS_R_DATA''
    | PFS_R_DATA_LAST \<Rightarrow> Inr ''PFS_R_DATA_LAST''
    | SELF_PFS_W_REQ \<Rightarrow> Inr ''SELF_PFS_W_REQ''
    | SELF_PFS_R_REQ \<Rightarrow> Inr ''SELF_PFS_R_REQ''
    | SELF_PFS_W_RESP \<Rightarrow> Inr ''SELF_PFS_W_RESP''
    | SELF_PFS_W_DATA \<Rightarrow> Inr ''SELF_PFS_W_DATA''
    | SELF_PFS_W_DATA_LAST \<Rightarrow> Inr ''SELF_PFS_W_DATA_LAST''
    | SELF_PFS_W_FIN \<Rightarrow> Inr ''SELF_PFS_W_FIN''
    | SELF_PFS_R_DATA \<Rightarrow> Inr ''SELF_PFS_R_DATA''
    | SELF_PFS_R_DATA_LAST \<Rightarrow> Inr ''SELF_PFS_R_DATA_LAST''
    | _ \<Rightarrow> Inl (NullDeref ''MessageKind''))"

section \<open>Packets\<close>

record bPacket =
  getKind :: msg_kind
  getByteLength :: int
  getID :: int
  getSubID :: int
  getApp :: int
  getSize :: int
  getClientID :: int
  getSubReqNum :: int

record AppRequest = bPacket +
  ar_traceFileID :: int
  ar_fileID :: int
  ar_highoffset :: int
  ar_lowoffset :: int
  ar_read :: int
  ar_totalSize :: int
  ar_sync :: int
  ar_starttime :: real
  ar_finishtime :: real
  ar_earliestsubrequestfinishtime :: real

record qPacket = bPacket +
  q_fileId :: int
  q_metadataServerID :: int
  q_dsNum :: int
  q_dsList :: "int \<Rightarrow> int"
  q_dsStripeSizes :: "int \<Rightarrow> int"
  q_risetime :: real
  q_returntime :: real

record sPacket = bPacket +
  getLengths :: "int \<Rightarrow> real"
  getAppNum :: int
  getSrc :: int
  getDst :: int

record gPacket = bPacket +
  getRisetime :: real
  getSubmittime :: real
  getInterceptiontime :: real
  getScheduletime :: real
  getArrivaltime :: real
  getDispatchtime :: real
  getFinishtime :: real
  getReturntime :: real
  getQos_delay :: real
  getFileId :: int
  getHighoffset :: int
  getLowoffset :: int
  getRead :: int
  getMeta :: int
  getDsID :: int
  getAggregateSize :: int
  getODIRECT :: int
  getTotalsubreqs :: int

record PageRequest = bPacket +
  pg_fileId :: int
  getPageStart :: int
  getPageEnd :: int
  pg_read :: bool
  getDIRECT :: bool
  getSYNC :: bool
  getPending :: bool
  pg_ODIRECT :: int

record BlkRequest = bPacket +
  blk_fileId :: int
  getBlkStart :: int
  getBlkEnd :: int
  blk_read :: bool

text \<open>The field values with which the generated constructors create a packet.\<close>

definition new_gPacket :: gPacket where
  "new_gPacket =
    \<lparr> getKind = SELF_EVENT, getByteLength = 0, getID = 0, getSubID = 0, getApp = 0, getSize = 0,
      getClientID = -1, getSubReqNum = 0,
      getRisetime = 0, getSubmittime = 0, getInterceptiontime = 0, getScheduletime = 0,
      getArrivaltime = 0, getDispatchtime = 0, getFinishtime = 0, getReturntime = 0,
      getQos_delay = 0, getFileId = 0, getHighoffset = 0, getLowoffset = 0, getRead = 0,
      getMeta = 0, getDsID = -1, getAggregateSize = 0, getODIRECT = 0, getTotalsubreqs = 1 \<rparr>"

definition new_sPacket :: sPacket where
  "new_sPacket =
    \<lparr> getKind = SELF_EVENT, getByteLength = 0, getID = 0, getSubID = 0, getApp = 0, getSize = 0,
      getClientID = -1, getSubReqNum = 0,
      getLengths = (\<lambda>_. 0), getAppNum = 0, getSrc = -1, getDst = -1 \<rparr>"

definition new_PageRequest :: PageRequest where
  "new_PageRequest =
    \<lparr> getKind = SELF_EVENT, getByteLength = 0, getID = 0, getSubID = 0, getApp = 0, getSize = 0,
      getClientID = -1, getSubReqNum = 0,
      pg_fileId = 0, getPageStart = 0, getPageEnd = 0, pg_read = False, getDIRECT = False,
      getSYNC = False, getPending = False, pg_ODIRECT = 0 \<rparr>"

definition new_BlkRequest :: BlkRequest where
  "new_BlkRequest =
    \<lparr> getKind = SELF_EVENT, getByteLength = 0, getID = 0, getSubID = 0, getApp = 0, getSize = 0,
      getClientID = -1, getSubReqNum = 0,
      blk_fileId = 0, getBlkStart = 0, getBlkEnd = 0, blk_read = False \<rparr>"

definition new_AppRequest :: AppRequest where
  "new_AppRequest =
    \<lparr> getKind = SELF_EVENT, getByteLength = 0, getID = 0, getSubID = 0, getApp = 0, getSize = 0,
      getClientID = -1, getSubReqNum = 0,
      ar_traceFileID = 0, ar_fileID = 0, ar_highoffset = 0, ar_lowoffset = 0, ar_read = 0,
      ar_totalSize = 0, ar_sync = 0, ar_starttime = 0, ar_finishtime = 0,
      ar_earliestsubrequestfinishtime = -1 \<rparr>"

definition new_qPacket :: qPacket where
  "new_qPacket =
    \<lparr> getKind = SELF_EVENT, getByteLength = 0, getID = 0, getSubID = 0, getApp = 0, getSize = 0,
      getClientID = -1, getSubReqNum = 0,
      q_fileId = -1, q_metadataServerID = 0, q_dsNum = 0, q_dsList = (\<lambda>_. 0),
      q_dsStripeSizes = (\<lambda>_. 0), q_risetime = 0, q_returntime = 0 \<rparr>"

lemmas new_packets =
  new_gPacket_def new_sPacket_def new_PageRequest_def new_BlkRequest_def new_AppRequest_def
  new_qPacket_def

text \<open>A packet for concrete runs: identity, application and size.\<close>

definition demo_pkt :: "int \<Rightarrow> int \<Rightarrow> int \<Rightarrow> gPacket" where
  "demo_pkt i a s = new_gPacket\<lparr>getID := i, getApp := a, getSize := s\<rparr>"

lemmas demo_pkt_simps = demo_pkt_def new_gPacket_def

text \<open>The packets carry the bytes from \<open>a\<close> to \<open>b\<close>, one after the other, at most \<open>limit\<close> each.\<close>

fun pieces :: "int \<Rightarrow> int \<Rightarrow> gPacket list \<Rightarrow> int \<Rightarrow> bool" where
  "pieces limit a [] b \<longleftrightarrow> a = b"
| "pieces limit a (p # ps) b \<longleftrightarrow> getLowoffset p = a \<and> 0 \<le> getSize p \<and> getSize p \<le> limit \<and>
     pieces limit (a + getSize p) ps b"

lemma pieces_append: "pieces limit a (ps @ qs) c \<longleftrightarrow> (\<exists>b. pieces limit a ps b \<and> pieces limit b qs c)"
  by (induction ps arbitrary: a) auto

text \<open>The codes are pairwise different, so a \<^verbatim>\<open>switch\<close> on them is a \<open>case\<close> on the kind.\<close>

lemma kind_code_inj: "kind_code a = kind_code b \<longleftrightarrow> a = b"
  by (cases a; cases b; simp)

end
