(* ===== verification/IQueue.thy ===== *)
theory IQueue
  imports Packets
begin

text \<open>
  \<^verbatim>\<open>scheduler/IQueue\<close>: the interface every scheduler implements. Its data members
  are the record \<open>iqueue\<close>, which the schedulers extend. The contract of the
  virtual operations is the locale \<open>scheduler\<close>: the clients (\<^verbatim>\<open>Proxy\<close>, \<^verbatim>\<open>Disk\<close>,
  \<^verbatim>\<open>VFS\<close>, \<^verbatim>\<open>PVFS2DSD\<close>) rely on packets being neither lost nor duplicated between
  \<^verbatim>\<open>pushWaitQ\<close>, \<^verbatim>\<open>dispatchNext\<close> and \<^verbatim>\<open>popOsQ\<close>. Each scheduler interprets it in its
  own theory.
\<close>

record iqueue =
  myID :: int
  degree :: int
  appNum :: int

text \<open>
  The operations that \<^verbatim>\<open>IQueue\<close> itself gives a body all report that the
  subclass does not define them.
\<close>

definition IQueue_popOsQ :: "int \<Rightarrow> 's \<Rightarrow> ('p option \<times> 's) res" where
  "IQueue_popOsQ pid s = Inl (Abort ''IQueue'')"

definition IQueue_queryJob_subid :: "int \<Rightarrow> int \<Rightarrow> 's \<Rightarrow> 'p option res" where
  "IQueue_queryJob_subid pid subid s = Inl (Abort ''IQueue'')"

definition IQueue_isEmpty :: "'s \<Rightarrow> bool res" where
  "IQueue_isEmpty s = Inl (Abort ''IQueue'')"

definition IQueue_popOsQ_subid :: "int \<Rightarrow> int \<Rightarrow> 's \<Rightarrow> ('p option \<times> 's) res" where
  "IQueue_popOsQ_subid pid subid s = Inl (Abort ''IQueue'')"

definition IQueue_propagateSPacket :: "'s \<Rightarrow> (sPacket option \<times> 's) res" where
  "IQueue_propagateSPacket s = Inl (Abort ''IQueue'')"

definition IQueue_receiveSPacket :: "sPacket \<Rightarrow> 's \<Rightarrow> 's res" where
  "IQueue_receiveSPacket pkt s = Inl (Abort ''IQueue'')"

definition IQueue_notify :: "real \<Rightarrow> 's \<Rightarrow> (real \<times> 's) res" where
  "IQueue_notify now s = Inl (Abort ''IQueue'')"

section \<open>Runs of a scheduler\<close>

text \<open>
  A client drives a scheduler with a sequence of calls. \<open>q_step\<close> performs one and
  records the packets pushed, dispatched and popped so far, oldest first.
\<close>

datatype 'p qevent = Push real 'p | Dispatch real | Pop real int

fun q_step ::
  "(real \<Rightarrow> 'p \<Rightarrow> 's \<Rightarrow> 's res) \<Rightarrow> (real \<Rightarrow> 's \<Rightarrow> ('p option \<times> 's) res) \<Rightarrow>
   (real \<Rightarrow> int \<Rightarrow> 's \<Rightarrow> ('p option \<times> 's) res) \<Rightarrow>
   'p qevent \<Rightarrow> 's \<times> 'p list \<times> 'p list \<times> 'p list \<Rightarrow>
   ('s \<times> 'p list \<times> 'p list \<times> 'p list) res" where
  "q_step push disp pop (Push now p) (s, ps, ds, cs) =
     bindR (push now p s) (\<lambda>s'. Inr (s', ps @ [p], ds, cs))"
| "q_step push disp pop (Dispatch now) (s, ps, ds, cs) =
     bindR (disp now s) (\<lambda>(r, s').
       Inr (s', ps, (case r of None \<Rightarrow> ds | Some p \<Rightarrow> ds @ [p]), cs))"
| "q_step push disp pop (Pop now i) (s, ps, ds, cs) =
     bindR (pop now i s) (\<lambda>(r, s').
       Inr (s', ps, ds, (case r of None \<Rightarrow> cs | Some p \<Rightarrow> cs @ [p])))"

fun pushes :: "'p qevent list \<Rightarrow> 'p list" where
  "pushes [] = []"
| "pushes (Push now p # es) = p # pushes es"
| "pushes (Dispatch now # es) = pushes es"
| "pushes (Pop now i # es) = pushes es"

section \<open>The contract\<close>

locale scheduler =
  fixes push :: "real \<Rightarrow> 'p \<Rightarrow> 's \<Rightarrow> 's res"
    and disp :: "real \<Rightarrow> 's \<Rightarrow> ('p option \<times> 's) res"
    and pop :: "real \<Rightarrow> int \<Rightarrow> 's \<Rightarrow> ('p option \<times> 's) res"
    and key :: "'p \<Rightarrow> 'k"
    and waiting :: "'s \<Rightarrow> 'k multiset"
    and outstanding :: "'s \<Rightarrow> 'k multiset"
    and inv :: "'s \<Rightarrow> bool"
  assumes push_law: "inv s \<Longrightarrow> push now p s = Inr s' \<Longrightarrow>
      inv s' \<and> waiting s' = add_mset (key p) (waiting s) \<and> outstanding s' = outstanding s"
    and disp_None: "inv s \<Longrightarrow> disp now s = Inr (None, s') \<Longrightarrow>
      inv s' \<and> waiting s' = waiting s \<and> outstanding s' = outstanding s"
    and disp_Some: "inv s \<Longrightarrow> disp now s = Inr (Some p, s') \<Longrightarrow>
      inv s' \<and> waiting s = add_mset (key p) (waiting s') \<and>
      outstanding s' = add_mset (key p) (outstanding s)"
    and pop_None: "inv s \<Longrightarrow> pop now i s = Inr (None, s') \<Longrightarrow>
      inv s' \<and> waiting s' = waiting s \<and> outstanding s' = outstanding s"
    and pop_Some: "inv s \<Longrightarrow> pop now i s = Inr (Some p, s') \<Longrightarrow>
      inv s' \<and> waiting s' = waiting s \<and> outstanding s = add_mset (key p) (outstanding s')"
begin

abbreviation "step \<equiv> q_step push disp pop"

definition ledger :: "'s \<Rightarrow> 's \<times> 'p list \<times> 'p list \<times> 'p list \<Rightarrow> bool" where
  "ledger s0 = (\<lambda>(s, ps, ds, cs). inv s \<and>
     waiting s + mset (map key ds) = waiting s0 + mset (map key ps) \<and>
     outstanding s + mset (map key cs) = outstanding s0 + mset (map key ds))"

lemma ledger_step:
  assumes "ledger s0 x" "step ev x = Inr x'"
  shows "ledger s0 x'"
proof -
  obtain s ps ds cs where x: "x = (s, ps, ds, cs)" by (cases x) auto
  show ?thesis
  proof (cases ev)
    case (Push now p)
    with assms(2) x obtain s' where p: "push now p s = Inr s'" "x' = (s', ps @ [p], ds, cs)" by auto
    from assms(1) x have "inv s" by (simp add: ledger_def)
    from push_law [OF this p(1)] assms(1) x p(2) show ?thesis by (auto simp: ledger_def)
  next
    case (Dispatch now)
    with assms x obtain r s' where "disp now s = Inr (r, s')" by auto
    note d = this
    from assms(1) x have i: "inv s" by (simp add: ledger_def)
    show ?thesis
    proof (cases r)
      case None
      with disp_None [OF i, of now s'] d assms x Dispatch show ?thesis by (auto simp: ledger_def)
    next
      case (Some p)
      with disp_Some [OF i, of now p s'] d assms x Dispatch show ?thesis by (auto simp: ledger_def)
    qed
  next
    case (Pop now i)
    with assms x obtain r s' where "pop now i s = Inr (r, s')" by auto
    note d = this
    from assms(1) x have k: "inv s" by (simp add: ledger_def)
    show ?thesis
    proof (cases r)
      case None
      with pop_None [OF k, of now i s'] d assms x Pop show ?thesis by (auto simp: ledger_def)
    next
      case (Some p)
      with pop_Some [OF k, of now i p s'] d assms x Pop show ?thesis by (auto simp: ledger_def)
    qed
  qed
qed

text \<open>No packet is lost or duplicated by any sequence of calls.\<close>

lemma conservation:
  assumes "inv s0" "run_res step evs (s0, [], [], []) = Inr (s, ps, ds, cs)"
  shows "inv s"
    and "waiting s + mset (map key ds) = waiting s0 + mset (map key ps)"
    and "outstanding s + mset (map key cs) = outstanding s0 + mset (map key ds)"
proof -
  have "ledger s0 (s0, [], [], [])" using assms(1) by (simp add: ledger_def)
  from run_res_invariant [where P = "ledger s0", OF ledger_step this assms(2)]
  have "ledger s0 (s, ps, ds, cs)" .
  then show "inv s"
    and "waiting s + mset (map key ds) = waiting s0 + mset (map key ps)"
    and "outstanding s + mset (map key cs) = outstanding s0 + mset (map key ds)"
    by (simp_all add: ledger_def)
qed

end

text \<open>
  A scheduler with a degree: it dispatches only while fewer than \<open>deg\<close> packets
  are outstanding, so it never has more than \<open>deg\<close> of them (\<open>deg s < 0\<close> is no
  control).
\<close>

locale bounded_scheduler = scheduler push disp pop key waiting outstanding inv
  for push :: "real \<Rightarrow> 'p \<Rightarrow> 's \<Rightarrow> 's res"
    and disp :: "real \<Rightarrow> 's \<Rightarrow> ('p option \<times> 's) res"
    and pop :: "real \<Rightarrow> int \<Rightarrow> 's \<Rightarrow> ('p option \<times> 's) res"
    and key :: "'p \<Rightarrow> 'k"
    and waiting :: "'s \<Rightarrow> 'k multiset"
    and outstanding :: "'s \<Rightarrow> 'k multiset"
    and inv :: "'s \<Rightarrow> bool" +
  fixes deg :: "'s \<Rightarrow> int"
  assumes push_deg: "inv s \<Longrightarrow> push now p s = Inr s' \<Longrightarrow> deg s' = deg s"
    and disp_deg: "inv s \<Longrightarrow> disp now s = Inr (r, s') \<Longrightarrow> deg s' = deg s"
    and pop_deg: "inv s \<Longrightarrow> pop now i s = Inr (r, s') \<Longrightarrow> deg s' = deg s"
    and disp_room: "inv s \<Longrightarrow> disp now s = Inr (Some p, s') \<Longrightarrow> 0 \<le> deg s \<Longrightarrow>
      int (size (outstanding s)) < deg s"
begin

definition bounded :: "'s \<times> 'p list \<times> 'p list \<times> 'p list \<Rightarrow> bool" where
  "bounded = (\<lambda>(s, ps, ds, cs). inv s \<and> (0 \<le> deg s \<longrightarrow> int (size (outstanding s)) \<le> deg s))"

lemma bounded_step:
  assumes "bounded x" "step ev x = Inr x'"
  shows "bounded x'"
proof -
  obtain s ps ds cs where x: "x = (s, ps, ds, cs)" by (cases x) auto
  show ?thesis
  proof (cases ev)
    case (Push now p)
    with assms(2) x obtain s' where p: "push now p s = Inr s'" "x' = (s', ps @ [p], ds, cs)" by auto
    from assms(1) x have "inv s" by (simp add: bounded_def)
    from push_law [OF this p(1)] push_deg [OF this p(1)] assms(1) x p(2)
    show ?thesis by (auto simp: bounded_def)
  next
    case (Dispatch now)
    with assms x obtain r s' where d: "disp now s = Inr (r, s')" by auto
    from assms(1) x have i: "inv s" by (simp add: bounded_def)
    show ?thesis
    proof (cases r)
      case None
      with disp_None [OF i, of now s'] disp_deg [OF i, of now r s'] d assms x Dispatch show ?thesis
        by (auto simp: bounded_def)
    next
      case (Some p)
      with disp_Some [OF i, of now p s'] disp_deg [OF i, of now r s'] disp_room [OF i, of now p s'] d assms x Dispatch
      show ?thesis by (auto simp: bounded_def)
    qed
  next
    case (Pop now i)
    with assms x obtain r s' where d: "pop now i s = Inr (r, s')" by auto
    from assms(1) x have k: "inv s" by (simp add: bounded_def)
    show ?thesis
    proof (cases r)
      case None
      with pop_None [OF k, of now i s'] pop_deg [OF k, of now i r s'] d assms x Pop show ?thesis
        by (auto simp: bounded_def)
    next
      case (Some p)
      with pop_Some [OF k, of now i p s'] pop_deg [OF k, of now i r s'] d assms x Pop show ?thesis
        by (auto simp: bounded_def)
    qed
  qed
qed

lemma degree_respected:
  assumes "inv s0" "int (size (outstanding s0)) \<le> deg s0"
    and "run_res step evs (s0, [], [], []) = Inr (s, ps, ds, cs)" and "0 \<le> deg s"
  shows "int (size (outstanding s)) \<le> deg s"
proof -
  have "bounded (s0, [], [], [])" using assms(1,2) by (simp add: bounded_def)
  from run_res_invariant [where P = bounded, OF bounded_step this assms(3)] assms(4)
  show ?thesis by (auto simp: bounded_def)
qed

end

end
