(* ===== verification/Fifo.thy ===== *)
theory Fifo
  imports IQueue
begin

text \<open>
  \<^verbatim>\<open>scheduler/FIFO\<close>: a wait queue and an outstanding queue, both \<^verbatim>\<open>std::list\<close>s,
  and a degree that bounds the outstanding queue (negative: no bound). It is
  the scheduler of the disk, the VFS, the data server daemon and the client,
  and the base class of EDF and of the queues of DTA.
\<close>

record 'p fifo = iqueue +
  waitQ :: "'p list"
  osQ :: "'p list"

definition FIFO_new :: "int \<Rightarrow> int \<Rightarrow> 'p fifo" where
  "FIFO_new pid deg = \<lparr> myID = pid, degree = deg, appNum = 0, waitQ = [], osQ = [] \<rparr>"

definition fifo_seeWaitQNext :: "('p, 'z) fifo_scheme \<Rightarrow> 'p option" where
  "fifo_seeWaitQNext q = (case waitQ q of [] \<Rightarrow> None | p # _ \<Rightarrow> Some p)"

definition fifo_seeOsQNext :: "('p, 'z) fifo_scheme \<Rightarrow> 'p option" where
  "fifo_seeOsQNext q = (case osQ q of [] \<Rightarrow> None | p # _ \<Rightarrow> Some p)"

definition fifo_pushWaitQ :: "'p \<Rightarrow> ('p, 'z) fifo_scheme \<Rightarrow> ('p, 'z) fifo_scheme" where
  "fifo_pushWaitQ p q = q\<lparr>waitQ := waitQ q @ [p]\<rparr>"

definition fifo_pushOsQ :: "'p \<Rightarrow> ('p, 'z) fifo_scheme \<Rightarrow> ('p, 'z) fifo_scheme" where
  "fifo_pushOsQ p q = q\<lparr>osQ := osQ q @ [p]\<rparr>"

definition fifo_dispatchNext :: "('p, 'z) fifo_scheme \<Rightarrow> 'p option \<times> ('p, 'z) fifo_scheme" where
  "fifo_dispatchNext q =
    (case waitQ q of
      [] \<Rightarrow> (None, q)
    | p # rest \<Rightarrow>
        if int (length (osQ q)) \<ge> degree q \<and> degree q \<ge> 0 then (None, q)
        else (Some p, q\<lparr>waitQ := rest, osQ := osQ q @ [p]\<rparr>))"

definition fifo_popOsQ ::
  "int \<Rightarrow> ('b bPacket_scheme, 'z) fifo_scheme \<Rightarrow>
   'b bPacket_scheme option \<times> ('b bPacket_scheme, 'z) fifo_scheme" where
  "fifo_popOsQ pid q =
    (case erase_first (\<lambda>p. getID p = pid) (osQ q) of
      None \<Rightarrow> (None, q)
    | Some (p, os) \<Rightarrow> (Some p, q\<lparr>osQ := os\<rparr>))"

definition fifo_popOsQ_subid ::
  "int \<Rightarrow> int \<Rightarrow> ('b bPacket_scheme, 'z) fifo_scheme \<Rightarrow>
   'b bPacket_scheme option \<times> ('b bPacket_scheme, 'z) fifo_scheme" where
  "fifo_popOsQ_subid pid subid q =
    (case erase_first (\<lambda>p. getID p = pid \<and> getSubID p = subid) (osQ q) of
      None \<Rightarrow> (None, q)
    | Some (p, os) \<Rightarrow> (Some p, q\<lparr>osQ := os\<rparr>))"

text \<open>\<^verbatim>\<open>popOsQ()\<close> dereferences \<^verbatim>\<open>begin()\<close> without a test: undefined on an empty list.\<close>

definition fifo_popOsQ_front :: "('p, 'z) fifo_scheme \<Rightarrow> ('p \<times> ('p, 'z) fifo_scheme) res" where
  "fifo_popOsQ_front q =
    (case osQ q of [] \<Rightarrow> Inl (NullDeref ''FIFO'') | p # os \<Rightarrow> Inr (p, q\<lparr>osQ := os\<rparr>))"

definition fifo_queryJob ::
  "int \<Rightarrow> ('b bPacket_scheme, 'z) fifo_scheme \<Rightarrow> 'b bPacket_scheme option" where
  "fifo_queryJob pid q = find (\<lambda>p. getID p = pid) (osQ q)"

definition fifo_queryJob_subid ::
  "int \<Rightarrow> int \<Rightarrow> ('b bPacket_scheme, 'z) fifo_scheme \<Rightarrow> 'b bPacket_scheme option" where
  "fifo_queryJob_subid pid subid q = find (\<lambda>p. getID p = pid \<and> getSubID p = subid) (osQ q)"

definition fifo_getWaitQSize :: "('p, 'z) fifo_scheme \<Rightarrow> int" where
  "fifo_getWaitQSize q = int (length (waitQ q))"

definition fifo_getOsQSize :: "('p, 'z) fifo_scheme \<Rightarrow> int" where
  "fifo_getOsQSize q = int (length (osQ q))"

definition fifo_waitQisEmpty :: "('p, 'z) fifo_scheme \<Rightarrow> bool" where
  "fifo_waitQisEmpty q \<longleftrightarrow> waitQ q = []"

definition fifo_osQisEmpty :: "('p, 'z) fifo_scheme \<Rightarrow> bool" where
  "fifo_osQisEmpty q \<longleftrightarrow> osQ q = []"

definition fifo_isEmpty :: "('p, 'z) fifo_scheme \<Rightarrow> bool" where
  "fifo_isEmpty q \<longleftrightarrow> waitQ q = [] \<and> osQ q = []"

definition fifo_propagateSPacket :: "'s \<Rightarrow> (sPacket option \<times> 's) res" where
  "fifo_propagateSPacket s = Inl (Abort ''FIFO'')"

definition fifo_receiveSPacket :: "sPacket \<Rightarrow> 's \<Rightarrow> 's res" where
  "fifo_receiveSPacket pkt s = Inl (Abort ''FIFO'')"

text \<open>
  A packet handed out by \<^verbatim>\<open>dispatchNext\<close> or \<^verbatim>\<open>queryJob\<close> is a pointer into the
  outstanding queue: what the client then sets on it, it sets on the queued
  packet. \<open>fifo_mutate_job\<close> is such a store through the pointer that
  \<^verbatim>\<open>queryJob(id)\<close> returns.
\<close>

fun mutate_first :: "('a \<Rightarrow> bool) \<Rightarrow> ('a \<Rightarrow> 'a) \<Rightarrow> 'a list \<Rightarrow> 'a list" where
  "mutate_first P f [] = []"
| "mutate_first P f (x # xs) = (if P x then f x # xs else x # mutate_first P f xs)"

definition fifo_mutate_job ::
  "int \<Rightarrow> ('b bPacket_scheme \<Rightarrow> 'b bPacket_scheme) \<Rightarrow>
   ('b bPacket_scheme, 'z) fifo_scheme \<Rightarrow> ('b bPacket_scheme, 'z) fifo_scheme" where
  "fifo_mutate_job pid f q = q\<lparr>osQ := mutate_first (\<lambda>p. getID p = pid) f (osQ q)\<rparr>"

section \<open>The contract\<close>

definition pkt_key :: "'b bPacket_scheme \<Rightarrow> int \<times> int" where
  "pkt_key p = (getID p, getSubID p)"

abbreviation "fifo_push_op \<equiv> \<lambda>(now::real) p q. Inr (fifo_pushWaitQ p q)"
abbreviation "fifo_disp_op \<equiv> \<lambda>(now::real) q. Inr (fifo_dispatchNext q)"
abbreviation "fifo_pop_op \<equiv> \<lambda>(now::real) i q. Inr (fifo_popOsQ i q)"

definition fifo_waiting :: "('b bPacket_scheme, 'z) fifo_scheme \<Rightarrow> (int \<times> int) multiset" where
  "fifo_waiting q = image_mset pkt_key (mset (waitQ q))"

definition fifo_outstanding :: "('b bPacket_scheme, 'z) fifo_scheme \<Rightarrow> (int \<times> int) multiset" where
  "fifo_outstanding q = image_mset pkt_key (mset (osQ q))"

lemma fifo_dispatch_Some:
  "fifo_dispatchNext q = (Some p, q') \<longleftrightarrow>
    (\<exists>rest. waitQ q = p # rest \<and> \<not> (int (length (osQ q)) \<ge> degree q \<and> degree q \<ge> 0) \<and>
      q' = q\<lparr>waitQ := rest, osQ := osQ q @ [p]\<rparr>)"
  by (auto simp: fifo_dispatchNext_def split: list.splits if_splits)

lemma fifo_dispatch_None:
  "fifo_dispatchNext q = (None, q') \<longleftrightarrow>
    q' = q \<and> (waitQ q = [] \<or> (int (length (osQ q)) \<ge> degree q \<and> degree q \<ge> 0))"
  by (auto simp: fifo_dispatchNext_def split: list.splits if_splits)

lemma fifo_pop_Some:
  "fifo_popOsQ i q = (Some p, q') \<longleftrightarrow>
    (\<exists>os. erase_first (\<lambda>p. getID p = i) (osQ q) = Some (p, os) \<and> q' = q\<lparr>osQ := os\<rparr>)"
  by (auto simp: fifo_popOsQ_def split: option.splits)

lemma fifo_pop_None:
  "fifo_popOsQ i q = (None, q') \<longleftrightarrow> q' = q \<and> (\<forall>p\<in>set (osQ q). getID p \<noteq> i)"
  by (auto simp: fifo_popOsQ_def erase_first_None split: option.splits
      dest!: erase_first_Some)

lemmas fifo_cases = fifo_dispatch_Some fifo_dispatch_None fifo_pop_Some fifo_pop_None

lemmas fifo_abs = fifo_waiting_def fifo_outstanding_def fifo_pushWaitQ_def

interpretation ff: bounded_scheduler fifo_push_op fifo_disp_op fifo_pop_op
  pkt_key fifo_waiting fifo_outstanding "\<lambda>_. True" degree
  by unfold_locales
    (auto simp: fifo_abs fifo_cases fifo_dispatchNext_def fifo_popOsQ_def
      dest: erase_first_mset split: list.splits if_splits option.splits)

section \<open>Properties\<close>

text \<open>The operations never fail, so a run of calls always has a result.\<close>

lemma fifo_step_ok:
  "\<exists>q' ps' ds' cs'. ff.step ev (q, ps, ds, cs) = Inr (q', ps', ds', cs') \<and>
     (\<exists>es. ds' = ds @ es \<and> waitQ q @ pushes [ev] = es @ waitQ q') \<and>
     ps' = ps @ pushes [ev]"
proof (cases ev)
  case (Push now p)
  then show ?thesis by (simp add: fifo_pushWaitQ_def)
next
  case (Dispatch now)
  then show ?thesis
    by (cases "waitQ q") (auto simp: fifo_dispatchNext_def)
next
  case (Pop now i)
  then show ?thesis
    by (cases "erase_first (\<lambda>p. getID p = i) (osQ q)") (auto simp: fifo_popOsQ_def)
qed

lemma pushes_append: "pushes (es @ fs) = pushes es @ pushes fs"
  by (induction es rule: pushes.induct) auto

lemma fifo_run_ok:
  "\<exists>q' ps' ds' cs'. run_res ff.step evs (q, ps, ds, cs) = Inr (q', ps', ds', cs') \<and>
     (\<exists>es. ds' = ds @ es \<and> waitQ q @ pushes evs = es @ waitQ q') \<and>
     ps' = ps @ pushes evs"
proof (induction evs arbitrary: q ps ds cs)
  case (Cons ev evs)
  from fifo_step_ok [of ev q ps ds cs] obtain q1 ps1 ds1 cs1 es where
    s: "ff.step ev (q, ps, ds, cs) = Inr (q1, ps1, ds1, cs1)" "ds1 = ds @ es"
    "waitQ q @ pushes [ev] = es @ waitQ q1" "ps1 = ps @ pushes [ev]" by metis
  from Cons.IH [of q1 ps1 ds1 cs1] obtain q' ps' ds' cs' es' where
    r: "run_res ff.step evs (q1, ps1, ds1, cs1) = Inr (q', ps', ds', cs')" "ds' = ds1 @ es'"
    "waitQ q1 @ pushes evs = es' @ waitQ q'" "ps' = ps1 @ pushes evs" by metis
  have "pushes (ev # evs) = pushes [ev] @ pushes evs" using pushes_append [of "[ev]" evs] by simp
  with s r have "waitQ q @ pushes (ev # evs) = (es @ es') @ waitQ q'"
    "ps' = ps @ pushes (ev # evs)" "ds' = ds @ es @ es'" by (metis append_assoc)+
  with s(1) r(1) show ?case by auto
qed simp

text \<open>
  FIFO delivers in order and loses nothing. Every sequence of calls on a
  queue whose outstanding packets respect the degree succeeds; the packets
  dispatched, followed by those that still wait, are the packets that waited
  followed by the packets pushed, in this order; the packets outstanding and
  completed are those that were outstanding or have been dispatched; and the
  outstanding queue never exceeds a non-negative degree.
\<close>

theorem fifo_in_order:
  fixes q :: "('b bPacket_scheme, 'z) fifo_scheme"
  assumes "int (length (osQ q)) \<le> degree q"
  shows "\<exists>q' ds cs. run_res ff.step evs (q, [], [], []) = Inr (q', pushes evs, ds, cs) \<and>
    ds @ waitQ q' = waitQ q @ pushes evs \<and>
    fifo_outstanding q' + mset (map pkt_key cs) = fifo_outstanding q + mset (map pkt_key ds) \<and>
    (0 \<le> degree q' \<longrightarrow> int (length (osQ q')) \<le> degree q')"
proof -
  from fifo_run_ok [of evs q "[]" "[]" "[]"] obtain q' ds cs where
    r: "run_res ff.step evs (q, [], [], []) = Inr (q', pushes evs, ds, cs)"
    "ds @ waitQ q' = waitQ q @ pushes evs" by fastforce
  have "int (size (fifo_outstanding q')) \<le> degree q'" if "0 \<le> degree q'"
    using ff.degree_respected [OF _ _ r(1) that] assms by (simp add: fifo_outstanding_def)
  with r ff.conservation(3) [OF _ r(1)] show ?thesis by (auto simp: fifo_outstanding_def)
qed

theorem fifo_in_order_witness:
  "\<exists>q' ds cs. run_res ff.step
      [Push 0 (demo_pkt 1 0 5), Push 0 (demo_pkt 2 0 5), Dispatch 0, Dispatch 0]
      (FIFO_new 0 1, [], [], []) = Inr (q', [demo_pkt 1 0 5, demo_pkt 2 0 5], ds, cs) \<and>
    ds @ waitQ q' = [demo_pkt 1 0 5, demo_pkt 2 0 5] \<and> length ds = 1"
proof -
  have "int (length (osQ (FIFO_new 0 1))) \<le> degree (FIFO_new 0 1)" by (simp add: FIFO_new_def)
  from fifo_in_order [OF this, of "[Push 0 (demo_pkt 1 0 5), Push 0 (demo_pkt 2 0 5), Dispatch 0, Dispatch 0]"]
  obtain q' ds cs where r: "run_res ff.step
      [Push 0 (demo_pkt 1 0 5), Push 0 (demo_pkt 2 0 5), Dispatch 0, Dispatch 0]
      (FIFO_new 0 1, [], [], []) = Inr (q', [demo_pkt 1 0 5, demo_pkt 2 0 5], ds, cs)"
    "ds @ waitQ q' = [demo_pkt 1 0 5, demo_pkt 2 0 5]" by (auto simp: FIFO_new_def)
  moreover from r(1) have "length ds = 1"
    by (auto simp: FIFO_new_def fifo_pushWaitQ_def fifo_dispatchNext_def)
  ultimately show ?thesis by blast
qed

text \<open>
  FIFO is work conserving. \<^verbatim>\<open>dispatchNext\<close> returns NULL, and then changes
  nothing, exactly when nothing waits or the degree is controlled and reached;
  otherwise it returns the oldest waiting packet and moves it to the end of the
  outstanding queue.
\<close>

theorem fifo_work_conserving:
  fixes q :: "('p, 'z) fifo_scheme"
  shows "fifo_dispatchNext q =
    (if fifo_waitQisEmpty q \<or> (0 \<le> degree q \<and> degree q \<le> fifo_getOsQSize q) then (None, q)
     else (fifo_seeWaitQNext q,
           q\<lparr>waitQ := tl (waitQ q), osQ := osQ q @ [hd (waitQ q)]\<rparr>))"
  by (cases "waitQ q")
    (auto simp: fifo_dispatchNext_def fifo_waitQisEmpty_def fifo_getOsQSize_def fifo_seeWaitQNext_def)

end
