(* ===== verification/Sfq.thy ===== *)
theory Sfq
  imports IQueue Fifo
begin

text \<open>
  \<^verbatim>\<open>scheduler/SFQ/SFQ.cc\<close>: start-time fair queueing. Every application has a wait
  queue; a request gets a start tag (the finish tag of its predecessor, or the
  virtual time when that is larger) and a finish tag (start tag plus size over
  weight); the request with the smallest start tag is dispatched, visiting the
  applications round-robin from \<^verbatim>\<open>startpos\<close>, and the virtual time becomes its
  start tag.

  \<^verbatim>\<open>setWeights\<close> reads groups \<^verbatim>\<open>[id weight]\<close> with \<^verbatim>\<open>sscanf\<close>; the model takes the
  list of the groups read. The code writes outside the array for an id of \<^verbatim>\<open>MAX_APP\<close> or
  more; the model has a function there and no fault. The pointer array \<^verbatim>\<open>waitQ\<close> is not initialised by the
  constructor although \<^verbatim>\<open>pushWaitQ\<close> compares its entries with NULL: the model
  starts from zeroed memory. \<^verbatim>\<open>popOsQ\<close> reads the list node after erasing it; the
  model has the effect of the erase alone.
\<close>

record 'p job =
  job_pkt :: 'p
  stag :: real
  ftag :: real

record 'p sfq = iqueue +
  weight :: "int \<Rightarrow> real"
  sfq_waitQ :: "int \<Rightarrow> 'p job list option"
  sfq_osQ :: "'p job list"
  maxftags :: "int \<Rightarrow> real"
  vtime :: real
  startpos :: int

definition MAX_TAG_VALUE :: real where "MAX_TAG_VALUE = 10000000"

definition sfq_setWeights :: "(int \<times> real) list \<Rightarrow> (int \<Rightarrow> real) \<Rightarrow> (int \<Rightarrow> real)" where
  "sfq_setWeights groups ws = fold (\<lambda>(i, w) v. v(i := w)) groups ws"

definition SFQ_new ::
  "int \<Rightarrow> int \<Rightarrow> int \<Rightarrow> (int \<times> real) list \<Rightarrow> (int \<Rightarrow> real) \<Rightarrow> 'p sfq" where
  "SFQ_new pid deg tlapps alg_param mem =
    \<lparr> myID = pid, degree = deg, appNum = tlapps, weight = sfq_setWeights alg_param mem,
      sfq_waitQ = (\<lambda>_. None), sfq_osQ = [], maxftags = (\<lambda>_. 0), vtime = 0, startpos = 0 \<rparr>"

definition sfq_queue :: "('p, 'z) sfq_scheme \<Rightarrow> int \<Rightarrow> 'p job list" where
  "sfq_queue q a = (case sfq_waitQ q a of None \<Rightarrow> [] | Some js \<Rightarrow> js)"

definition sfq_pushWaitQ ::
  "'b bPacket_scheme \<Rightarrow> ('b bPacket_scheme, 'z) sfq_scheme \<Rightarrow>
   ('b bPacket_scheme, 'z) sfq_scheme res" where
  "sfq_pushWaitQ pkt q =
    (let a = getApp pkt in
     if \<not> (0 \<le> a \<and> a < MAX_APP) then Inl (OutOfBounds ''waitQ'')
     else
       let wq = (case sfq_waitQ q a of None \<Rightarrow> [] | Some js \<Rightarrow> js);
           st = (if wq = [] then (if maxftags q a > vtime q then maxftags q a else vtime q)
                 else ftag (last wq));
           job = \<lparr> job_pkt = pkt, stag = st, ftag = st + of_int (getSize pkt) / weight q a \<rparr>
       in Inr (q\<lparr>sfq_waitQ := (sfq_waitQ q)(a := Some (wq @ [job]))\<rparr>))"

text \<open>The loop body of \<^verbatim>\<open>dispatchNext\<close> at index \<open>i\<close>: \<open>(mintag, minindex)\<close> is updated.\<close>

definition sfq_visit :: "('p, 'z) sfq_scheme \<Rightarrow> int \<Rightarrow> real \<times> int \<Rightarrow> real \<times> int" where
  "sfq_visit q i m =
    (case sfq_waitQ q i of
      None \<Rightarrow> m
    | Some [] \<Rightarrow> m
    | Some (job # _) \<Rightarrow>
        if snd m = -1 \<or> fst m > stag job then (stag job, i) else m)"

definition sfq_pushOsQ :: "'p job \<Rightarrow> ('p, 'z) sfq_scheme \<Rightarrow> ('p, 'z) sfq_scheme" where
  "sfq_pushOsQ job q = q\<lparr>sfq_osQ := sfq_osQ q @ [job]\<rparr>"

text \<open>What \<^verbatim>\<open>dispatchNext\<close> does once the queue \<open>m\<close> is chosen.\<close>

definition sfq_take :: "int \<Rightarrow> ('p, 'z) sfq_scheme \<Rightarrow> ('p option \<times> ('p, 'z) sfq_scheme) res" where
  "sfq_take m q =
    (case sfq_waitQ q m of
      Some (job # rest) \<Rightarrow>
        let q1 = sfq_pushOsQ job (q\<lparr>sfq_waitQ := (sfq_waitQ q)(m := Some rest)\<rparr>);
            q2 = q1\<lparr>startpos := (if m + 1 \<ge> appNum q then 0 else m + 1), vtime := stag job\<rparr>
        in (case rest of
              [] \<Rightarrow> Inr (Some (job_pkt job), q2\<lparr>maxftags := (maxftags q2)(m := ftag job)\<rparr>)
            | next # others \<Rightarrow>
                let next' = next\<lparr>ftag := ftag next + (ftag job - stag next), stag := ftag job\<rparr>
                in Inr (Some (job_pkt job),
                        q2\<lparr>sfq_waitQ := (sfq_waitQ q2)(m := Some (next' # others))\<rparr>))
    | _ \<Rightarrow> Inl (NullDeref ''waitQ''))"

definition sfq_dispatchNext ::
  "('p, 'z) sfq_scheme \<Rightarrow> ('p option \<times> ('p, 'z) sfq_scheme) res" where
  "sfq_dispatchNext q =
    (if int (length (sfq_osQ q)) \<ge> degree q then Inr (None, q)
     else if appNum q > MAX_APP then Inl (OutOfBounds ''waitQ'')
     else
       case rr_loop (nat (appNum q) + 2) (startpos q) (appNum q) (sfq_visit q)
              (startpos q) True (MAX_TAG_VALUE, -1) of
         None \<Rightarrow> Inl (Diverge ''SFQ::dispatchNext'')
       | Some (mintag, minindex) \<Rightarrow>
           if minindex = -1 then Inr (None, q) else sfq_take minindex q)"

definition sfq_popOsQ ::
  "int \<Rightarrow> ('b bPacket_scheme, 'z) sfq_scheme \<Rightarrow>
   ('b bPacket_scheme option \<times> ('b bPacket_scheme, 'z) sfq_scheme) res" where
  "sfq_popOsQ pid q =
    (if sfq_osQ q = [] then Inl (Abort ''SFQ'')
     else case erase_first (\<lambda>j. getID (job_pkt j) = pid) (sfq_osQ q) of
            None \<Rightarrow> Inl (Abort ''SFQ'')
          | Some (j, os) \<Rightarrow> Inr (Some (job_pkt j), q\<lparr>sfq_osQ := os\<rparr>))"

definition sfq_popOsQ_subid ::
  "int \<Rightarrow> int \<Rightarrow> ('b bPacket_scheme, 'z) sfq_scheme \<Rightarrow>
   ('b bPacket_scheme option \<times> ('b bPacket_scheme, 'z) sfq_scheme) res" where
  "sfq_popOsQ_subid pid subid q =
    (if sfq_osQ q = [] then Inl (Abort ''SFQ'')
     else case erase_first (\<lambda>j. getID (job_pkt j) = pid \<and> getSubID (job_pkt j) = subid) (sfq_osQ q) of
            None \<Rightarrow> Inl (Abort ''SFQ'')
          | Some (j, os) \<Rightarrow> Inr (Some (job_pkt j), q\<lparr>sfq_osQ := os\<rparr>))"

definition sfq_queryJob ::
  "int \<Rightarrow> ('b bPacket_scheme, 'z) sfq_scheme \<Rightarrow> 'b bPacket_scheme option res" where
  "sfq_queryJob pid q =
    (if sfq_osQ q = [] then Inr None
     else case find (\<lambda>j. getID (job_pkt j) = pid) (sfq_osQ q) of
            None \<Rightarrow> Inl (Abort ''SFQ'')
          | Some j \<Rightarrow> Inr (Some (job_pkt j)))"

definition sfq_queryJob_subid ::
  "int \<Rightarrow> int \<Rightarrow> ('b bPacket_scheme, 'z) sfq_scheme \<Rightarrow> 'b bPacket_scheme option res" where
  "sfq_queryJob_subid pid subid q =
    (if sfq_osQ q = [] then Inr None
     else case find (\<lambda>j. getID (job_pkt j) = pid \<and> getSubID (job_pkt j) = subid) (sfq_osQ q) of
            None \<Rightarrow> Inl (Abort ''SFQ'')
          | Some j \<Rightarrow> Inr (Some (job_pkt j)))"

definition sfq_propagateSPacket :: "'s \<Rightarrow> (sPacket option \<times> 's) res" where
  "sfq_propagateSPacket s = Inl (Abort ''SFQ'')"

definition sfq_receiveSPacket :: "sPacket \<Rightarrow> 's \<Rightarrow> 's res" where
  "sfq_receiveSPacket pkt s = Inl (Abort ''SFQ'')"

section \<open>The choice of the queue\<close>

definition sfq_shape :: "('p, 'z) sfq_scheme \<Rightarrow> bool" where
  "sfq_shape q \<longleftrightarrow> 0 \<le> startpos q \<and> startpos q < appNum q \<and> appNum q \<le> MAX_APP"

text \<open>
  After visiting the indices \<open>is\<close>, \<open>(mintag, minindex)\<close> is the smallest start tag
  among the heads of the non-empty queues, at the first index that has it.
\<close>

definition sfq_best :: "('p, 'z) sfq_scheme \<Rightarrow> int list \<Rightarrow> real \<times> int \<Rightarrow> bool" where
  "sfq_best q is m \<longleftrightarrow>
    (if snd m = -1 then \<forall>i\<in>set is. sfq_queue q i = []
     else snd m \<in> set is \<and> sfq_queue q (snd m) \<noteq> [] \<and>
          fst m = stag (hd (sfq_queue q (snd m))) \<and>
          (\<forall>i\<in>set is. sfq_queue q i \<noteq> [] \<longrightarrow> fst m \<le> stag (hd (sfq_queue q i))))"

lemma sfq_visit_best:
  assumes "sfq_best q is m" "i \<noteq> -1"
  shows "sfq_best q (is @ [i]) (sfq_visit q i m)"
proof (cases "sfq_queue q i")
  case Nil
  then have "sfq_visit q i m = m"
    by (auto simp: sfq_visit_def sfq_queue_def split: option.splits list.splits)
  with Nil assms show ?thesis by (auto simp: sfq_best_def)
next
  case (Cons j js)
  then have "sfq_visit q i m = (if snd m = -1 \<or> fst m > stag j then (stag j, i) else m)"
    by (auto simp: sfq_visit_def sfq_queue_def split: option.splits list.splits)
  with Cons assms show ?thesis by (cases "snd m = -1") (fastforce simp: sfq_best_def)+
qed

lemma sfq_visit_fold:
  assumes "\<forall>i\<in>set is. i \<noteq> -1"
  shows "sfq_best q is (fold (sfq_visit q) is (MAX_TAG_VALUE, -1))"
  using assms
proof (induction "is" rule: rev_induct)
  case Nil
  show ?case by (simp add: sfq_best_def)
next
  case (snoc i "is")
  then show ?case by (simp add: sfq_visit_best)
qed

lemma sfq_select:
  assumes "sfq_shape q"
  obtains m where
    "rr_loop (nat (appNum q) + 2) (startpos q) (appNum q) (sfq_visit q)
       (startpos q) True (MAX_TAG_VALUE, -1) = Some m"
    and "sfq_best q (rr_order (startpos q) (appNum q)) m"
proof -
  from assms have sp: "0 \<le> startpos q" "startpos q < appNum q" by (auto simp: sfq_shape_def)
  have nb: "\<forall>i\<in>set (rr_order (startpos q) (appNum q)). i \<noteq> -1"
    using sp by (auto simp: set_rr_order)
  show ?thesis
    by (rule that [OF rr_loop_round [OF sp] sfq_visit_fold [OF nb]]) simp
qed

text \<open>The outcome of \<^verbatim>\<open>dispatchNext\<close>, for every state whose \<^verbatim>\<open>startpos\<close> is in range.\<close>

lemma sfq_dispatch_cases:
  assumes "sfq_shape q"
  obtains (full) "int (length (sfq_osQ q)) \<ge> degree q" "sfq_dispatchNext q = Inr (None, q)"
  | (idle) "int (length (sfq_osQ q)) < degree q" "\<forall>i\<in>{0..<appNum q}. sfq_queue q i = []"
      "sfq_dispatchNext q = Inr (None, q)"
  | (take) m job rest where "int (length (sfq_osQ q)) < degree q" "0 \<le> m" "m < appNum q"
      "sfq_queue q m = job # rest"
      "\<forall>i\<in>{0..<appNum q}. sfq_queue q i \<noteq> [] \<longrightarrow> stag job \<le> stag (hd (sfq_queue q i))"
      "sfq_dispatchNext q = sfq_take m q"
proof (cases "int (length (sfq_osQ q)) \<ge> degree q")
  case True
  then show ?thesis by (intro full) (auto simp: sfq_dispatchNext_def)
next
  case False
  from assms have sp: "0 \<le> startpos q" "startpos q < appNum q" "appNum q \<le> MAX_APP"
    by (auto simp: sfq_shape_def)
  from sfq_select [OF assms] obtain t m where m:
    "rr_loop (nat (appNum q) + 2) (startpos q) (appNum q) (sfq_visit q)
       (startpos q) True (MAX_TAG_VALUE, -1) = Some (t, m)"
    and b: "sfq_best q (rr_order (startpos q) (appNum q)) (t, m)" by (metis surj_pair)
  have set: "set (rr_order (startpos q) (appNum q)) = {0..<appNum q}"
    using sp by (simp add: set_rr_order)
  show ?thesis
  proof (cases "m = -1")
    case True
    show ?thesis
      by (rule idle) (use False True b set m sp in
        \<open>auto simp: sfq_best_def sfq_dispatchNext_def\<close>)
  next
    case m1: False
    with b set have "m \<in> {0..<appNum q}" and ne: "sfq_queue q m \<noteq> []"
      and t: "t = stag (hd (sfq_queue q m))"
      and least: "\<forall>i\<in>{0..<appNum q}. sfq_queue q i \<noteq> [] \<longrightarrow> t \<le> stag (hd (sfq_queue q i))"
      by (auto simp: sfq_best_def)
    moreover from ne obtain job rest where "sfq_queue q m = job # rest" by (cases "sfq_queue q m") auto
    moreover have "sfq_dispatchNext q = sfq_take m q"
      using m m1 False sp by (simp add: sfq_dispatchNext_def)
    ultimately show ?thesis using False t by (intro take) auto
  qed
qed

lemma sfq_take_eq:
  assumes "sfq_queue q m = job # rest"
  shows "sfq_take m q = Inr (Some (job_pkt job),
    q\<lparr> sfq_waitQ := (sfq_waitQ q)(m := Some (case rest of [] \<Rightarrow> []
          | next # others \<Rightarrow> next\<lparr>ftag := ftag next + (ftag job - stag next), stag := ftag job\<rparr> # others)),
       sfq_osQ := sfq_osQ q @ [job],
       startpos := (if m + 1 \<ge> appNum q then 0 else m + 1),
       vtime := stag job,
       maxftags := (if rest = [] then (maxftags q)(m := ftag job) else maxftags q) \<rparr>)"
  using assms
  by (auto simp: sfq_take_def sfq_queue_def sfq_pushOsQ_def split: option.splits list.splits)

lemma sfq_push_eq:
  "sfq_pushWaitQ pkt q = Inr q' \<longleftrightarrow>
     0 \<le> getApp pkt \<and> getApp pkt < MAX_APP \<and>
     q' = q\<lparr>sfq_waitQ := (sfq_waitQ q)(getApp pkt := Some (sfq_queue q (getApp pkt) @
       [let st = (if sfq_queue q (getApp pkt) = [] then max (maxftags q (getApp pkt)) (vtime q)
                  else ftag (last (sfq_queue q (getApp pkt))))
        in \<lparr> job_pkt = pkt, stag = st,
             ftag = st + of_int (getSize pkt) / weight q (getApp pkt) \<rparr>]))\<rparr>"
  by (auto simp: sfq_pushWaitQ_def sfq_queue_def Let_def max_def)

section \<open>The contract\<close>

definition job_keys :: "'b bPacket_scheme job list \<Rightarrow> (int \<times> int) multiset" where
  "job_keys js = image_mset (\<lambda>j. pkt_key (job_pkt j)) (mset js)"

lemma job_keys_simps [simp]:
  "job_keys [] = {#}"
  "job_keys (j # js) = add_mset (pkt_key (job_pkt j)) (job_keys js)"
  "job_keys (js @ ks) = job_keys js + job_keys ks"
  by (auto simp: job_keys_def)

definition sfq_waiting :: "('b bPacket_scheme, 'z) sfq_scheme \<Rightarrow> (int \<times> int) multiset" where
  "sfq_waiting q = (\<Sum>a\<in>{0..<MAX_APP}. job_keys (sfq_queue q a))"

definition sfq_outstanding :: "('b bPacket_scheme, 'z) sfq_scheme \<Rightarrow> (int \<times> int) multiset" where
  "sfq_outstanding q = job_keys (sfq_osQ q)"

lemma sfq_waiting_upd:
  assumes "0 \<le> a" "a < MAX_APP" "sfq_waitQ q' = (sfq_waitQ q)(a := Some js)"
  shows "sfq_waiting q' + job_keys (sfq_queue q a) = sfq_waiting q + job_keys js"
proof -
  have "(\<lambda>i. job_keys (sfq_queue q' i)) = (\<lambda>i. job_keys (sfq_queue q i))(a := job_keys js)"
    using assms(3) by (auto simp: sfq_queue_def)
  with sum_queue_update [OF assms(1,2), of "\<lambda>i. job_keys (sfq_queue q i)" "job_keys js"]
  show ?thesis unfolding sfq_waiting_def by metis
qed

lemma sfq_push_waiting:
  assumes "sfq_pushWaitQ pkt q = Inr q'"
  shows "sfq_waiting q' = add_mset (pkt_key pkt) (sfq_waiting q)"
proof -
  from assms obtain job where a: "0 \<le> getApp pkt" "getApp pkt < MAX_APP" and
    q': "q' = q\<lparr>sfq_waitQ := (sfq_waitQ q)(getApp pkt := Some (sfq_queue q (getApp pkt) @ [job]))\<rparr>"
    and "job_pkt job = pkt"
    by (auto simp: sfq_push_eq Let_def)
  then show ?thesis
    using sfq_waiting_upd [OF a, of q' q "sfq_queue q (getApp pkt) @ [job]"] by simp
qed

lemma sfq_dispatch_Some:
  assumes "sfq_shape q" "sfq_dispatchNext q = Inr (Some p, q')"
  shows "sfq_shape q'" "degree q' = degree q" "int (length (sfq_osQ q)) < degree q"
    and "sfq_waiting q = add_mset (pkt_key p) (sfq_waiting q')"
    and "sfq_outstanding q' = add_mset (pkt_key p) (sfq_outstanding q)"
proof -
  from assms obtain m job rest where m: "int (length (sfq_osQ q)) < degree q" "0 \<le> m" "m < appNum q"
    "sfq_queue q m = job # rest" "sfq_dispatchNext q = sfq_take m q"
    by (cases rule: sfq_dispatch_cases [OF assms(1)]) auto
  from sfq_take_eq [OF m(4)] assms(2) m(5) have p: "p = job_pkt job"
    and q': "q' = q\<lparr> sfq_waitQ := (sfq_waitQ q)(m := Some (case rest of [] \<Rightarrow> []
          | next # others \<Rightarrow> next\<lparr>ftag := ftag next + (ftag job - stag next), stag := ftag job\<rparr> # others)),
       sfq_osQ := sfq_osQ q @ [job],
       startpos := (if m + 1 \<ge> appNum q then 0 else m + 1),
       vtime := stag job,
       maxftags := (if rest = [] then (maxftags q)(m := ftag job) else maxftags q) \<rparr>" by simp_all
  from m assms(1) q' show "sfq_shape q'" "degree q' = degree q" "int (length (sfq_osQ q)) < degree q"
    by (auto simp: sfq_shape_def)
  have m8: "m < MAX_APP" using m(3) assms(1) by (simp add: sfq_shape_def)
  from sfq_waiting_upd [OF m(2) m8, of q' q "(case rest of [] \<Rightarrow> []
          | next # others \<Rightarrow> next\<lparr>ftag := ftag next + (ftag job - stag next), stag := ftag job\<rparr> # others)"]
  show "sfq_waiting q = add_mset (pkt_key p) (sfq_waiting q')"
    using q' m(4) p by (cases rest) auto
  show "sfq_outstanding q' = add_mset (pkt_key p) (sfq_outstanding q)"
    using q' p by (simp add: sfq_outstanding_def)
qed

lemma sfq_dispatch_None:
  assumes "sfq_shape q" "sfq_dispatchNext q = Inr (None, q')"
  shows "q' = q"
  using assms(2)
  by (cases rule: sfq_dispatch_cases [OF assms(1)]) (auto simp: sfq_take_eq)

lemma job_keys_erase:
  "erase_first P js = Some (j, os) \<Longrightarrow> job_keys js = add_mset (pkt_key (job_pkt j)) (job_keys os)"
  by (auto simp: job_keys_def dest: erase_first_mset)

abbreviation "sfq_push_op \<equiv> \<lambda>(now::real) p q. sfq_pushWaitQ p q"
abbreviation "sfq_disp_op \<equiv> \<lambda>(now::real) q. sfq_dispatchNext q"
abbreviation "sfq_pop_op \<equiv> \<lambda>(now::real) i q. sfq_popOsQ i q"

lemma sfq_pop_Some:
  "sfq_popOsQ i q = Inr (r, q') \<longleftrightarrow>
    (\<exists>j os. erase_first (\<lambda>j. getID (job_pkt j) = i) (sfq_osQ q) = Some (j, os) \<and>
       r = Some (job_pkt j) \<and> q' = q\<lparr>sfq_osQ := os\<rparr>)"
  by (auto simp: sfq_popOsQ_def split: option.splits)

interpretation sf: bounded_scheduler sfq_push_op sfq_disp_op sfq_pop_op
  pkt_key sfq_waiting sfq_outstanding sfq_shape degree
proof unfold_locales
  fix q q' :: "('a bPacket_scheme, 'b) sfq_scheme" and p and now :: real and i :: int
    and r :: "'a bPacket_scheme option"
  show "sfq_pushWaitQ p q = Inr q' \<Longrightarrow> sfq_shape q \<Longrightarrow> sfq_shape q' \<and>
      sfq_waiting q' = add_mset (pkt_key p) (sfq_waiting q) \<and> sfq_outstanding q' = sfq_outstanding q"
    using sfq_push_waiting by (fastforce simp: sfq_push_eq sfq_shape_def sfq_outstanding_def)
  show "sfq_shape q \<Longrightarrow> sfq_dispatchNext q = Inr (None, q') \<Longrightarrow> sfq_shape q' \<and>
      sfq_waiting q' = sfq_waiting q \<and> sfq_outstanding q' = sfq_outstanding q"
    using sfq_dispatch_None by blast
  show "sfq_shape q \<Longrightarrow> sfq_dispatchNext q = Inr (Some p, q') \<Longrightarrow> sfq_shape q' \<and>
      sfq_waiting q = add_mset (pkt_key p) (sfq_waiting q') \<and>
      sfq_outstanding q' = add_mset (pkt_key p) (sfq_outstanding q)"
    using sfq_dispatch_Some by blast
  show "sfq_shape q \<Longrightarrow> sfq_popOsQ i q = Inr (None, q') \<Longrightarrow> sfq_shape q' \<and>
      sfq_waiting q' = sfq_waiting q \<and> sfq_outstanding q' = sfq_outstanding q"
    by (simp add: sfq_pop_Some)
  show "sfq_shape q \<Longrightarrow> sfq_popOsQ i q = Inr (Some p, q') \<Longrightarrow> sfq_shape q' \<and>
      sfq_waiting q' = sfq_waiting q \<and> sfq_outstanding q = add_mset (pkt_key p) (sfq_outstanding q')"
    by (auto simp: sfq_pop_Some sfq_shape_def sfq_waiting_def sfq_queue_def sfq_outstanding_def
        dest: job_keys_erase)
  show "sfq_shape q \<Longrightarrow> sfq_pushWaitQ p q = Inr q' \<Longrightarrow> degree q' = degree q"
    by (auto simp: sfq_push_eq)
  show "sfq_shape q \<Longrightarrow> sfq_dispatchNext q = Inr (r, q') \<Longrightarrow> degree q' = degree q"
    using sfq_dispatch_Some(2) sfq_dispatch_None by (cases r) blast+
  show "sfq_shape q \<Longrightarrow> sfq_popOsQ i q = Inr (r, q') \<Longrightarrow> degree q' = degree q"
    by (auto simp: sfq_pop_Some)
  show "sfq_shape q \<Longrightarrow> sfq_dispatchNext q = Inr (Some p, q') \<Longrightarrow> 0 \<le> degree q \<Longrightarrow>
      int (size (sfq_outstanding q)) < degree q"
    using sfq_dispatch_Some(3) by (fastforce simp: sfq_outstanding_def job_keys_def)
qed

end
