(* ===== verification/SfqFair.thy ===== *)
theory SfqFair
  imports Sfq
begin

text \<open>
  What start-time fair queueing promises: the tags of a queue form a chain, the
  virtual time never goes back and no head lies further ahead of it than the
  largest request of its application, and two applications that stay
  backlogged receive service in proportion to their weights up to one request
  each. The bound \<open>C a\<close> is the largest size over weight of a request of
  application \<open>a\<close>.
\<close>

definition sfq_cost :: "(int \<Rightarrow> real) \<Rightarrow> 'b bPacket_scheme \<Rightarrow> real" where
  "sfq_cost w p = of_int (getSize p) / w (getApp p)"

fun tag_chain :: "('p \<Rightarrow> real) \<Rightarrow> 'p job list \<Rightarrow> bool" where
  "tag_chain c [] = True"
| "tag_chain c [j] = (ftag j = stag j + c (job_pkt j))"
| "tag_chain c (j # k # js) =
     (ftag j = stag j + c (job_pkt j) \<and> stag k = ftag j \<and> tag_chain c (k # js))"

lemma tag_chain_Cons:
  "tag_chain c (j # js) \<longleftrightarrow>
     ftag j = stag j + c (job_pkt j) \<and> (js \<noteq> [] \<longrightarrow> stag (hd js) = ftag j) \<and> tag_chain c js"
  by (cases js) auto

lemma tag_chain_snoc:
  "tag_chain c (js @ [k]) \<longleftrightarrow>
     tag_chain c js \<and> (js \<noteq> [] \<longrightarrow> stag k = ftag (last js)) \<and> ftag k = stag k + c (job_pkt k)"
proof (induction js)
  case (Cons j js)
  then show ?case by (cases js) (auto simp: tag_chain_Cons)
qed simp

definition sfq_queue_ok ::
  "(int \<Rightarrow> real) \<Rightarrow> (int \<Rightarrow> real) \<Rightarrow> real \<Rightarrow> int \<Rightarrow> 'b bPacket_scheme job list \<Rightarrow> bool" where
  "sfq_queue_ok w C v a js \<longleftrightarrow>
     tag_chain (sfq_cost w) js \<and>
     (\<forall>j\<in>set js. getApp (job_pkt j) = a \<and> 0 \<le> sfq_cost w (job_pkt j) \<and>
        sfq_cost w (job_pkt j) \<le> C a) \<and>
     (js \<noteq> [] \<longrightarrow> v \<le> stag (hd js) \<and> stag (hd js) \<le> v + C a)"

definition sfq_tags ::
  "(int \<Rightarrow> real) \<Rightarrow> (int \<Rightarrow> real) \<Rightarrow> ('b bPacket_scheme, 'z) sfq_scheme \<Rightarrow> bool" where
  "sfq_tags w C q \<longleftrightarrow>
     sfq_shape q \<and> weight q = w \<and>
     (\<forall>a\<in>{0..<appNum q}. 0 \<le> C a \<and> maxftags q a \<le> vtime q + C a \<and>
        sfq_queue_ok w C (vtime q) a (sfq_queue q a))"

lemma sfq_queue_simps:
  "sfq_queue (q\<lparr>sfq_waitQ := f\<rparr>) a = (case f a of None \<Rightarrow> [] | Some js \<Rightarrow> js)"
  "sfq_queue (q\<lparr>sfq_osQ := os\<rparr>) a = sfq_queue q a"
  "sfq_queue (q\<lparr>startpos := sp\<rparr>) a = sfq_queue q a"
  "sfq_queue (q\<lparr>vtime := v\<rparr>) a = sfq_queue q a"
  "sfq_queue (q\<lparr>maxftags := mf\<rparr>) a = sfq_queue q a"
  by (simp_all add: sfq_queue_def)

definition sfq_push_ok ::
  "(int \<Rightarrow> real) \<Rightarrow> (int \<Rightarrow> real) \<Rightarrow> 'b bPacket_scheme \<Rightarrow> bool" where
  "sfq_push_ok w C p \<longleftrightarrow> 0 < w (getApp p) \<and> 0 \<le> sfq_cost w p \<and> sfq_cost w p \<le> C (getApp p)"

lemma sfq_tags_push:
  assumes "sfq_tags w C q" "sfq_push_ok w C p" "sfq_pushWaitQ p q = Inr q'"
  shows "sfq_tags w C q' \<and> vtime q' = vtime q"
proof -
  let ?a = "getApp p"
  let ?js = "sfq_queue q ?a"
  let ?st = "if ?js = [] then max (maxftags q ?a) (vtime q) else ftag (last ?js)"
  let ?job = "\<lparr>job_pkt = p, stag = ?st, ftag = ?st + of_int (getSize p) / weight q ?a\<rparr>"
  from assms(3) have q': "q' = q\<lparr>sfq_waitQ := (sfq_waitQ q)(?a := Some (?js @ [?job]))\<rparr>"
    by (simp add: sfq_push_eq Let_def)
  have queue: "sfq_queue q' a = (if a = ?a then ?js @ [?job] else sfq_queue q a)" for a
    unfolding q' sfq_queue_def by simp
  have w: "weight q = w" using assms(1) by (simp add: sfq_tags_def)
  have "sfq_queue_ok w C (vtime q) ?a (?js @ [?job])" if "?a \<in> {0..<appNum q}"
  proof -
    from assms(1) that have "0 \<le> C ?a" "maxftags q ?a \<le> vtime q + C ?a"
      and ok: "sfq_queue_ok w C (vtime q) ?a ?js" by (auto simp: sfq_tags_def)
    with assms(2) w show ?thesis
      by (cases "?js = []")
        (auto simp: sfq_queue_ok_def tag_chain_snoc sfq_push_ok_def sfq_cost_def hd_append)
  qed
  with assms(1) queue show ?thesis
    unfolding q' by (auto simp: sfq_tags_def sfq_shape_def)
qed

lemma sfq_tags_pop:
  assumes "sfq_tags w C q" "sfq_popOsQ i q = Inr (r, q')"
  shows "sfq_tags w C q' \<and> vtime q' = vtime q \<and> sfq_queue q' a = sfq_queue q a"
  using assms by (auto simp: sfq_pop_Some sfq_tags_def sfq_shape_def sfq_queue_def)

text \<open>
  The tags of the new head that \<^verbatim>\<open>dispatchNext\<close> writes are the tags it has: the
  dispatch takes the head of one queue and leaves every tag alone.
\<close>

lemma sfq_tags_dispatch:
  assumes "sfq_tags w C q" "sfq_dispatchNext q = Inr (Some p, q')"
  obtains job where
    "p = job_pkt job" "sfq_queue q (getApp p) = job # sfq_queue q' (getApp p)"
    "getApp p \<in> {0..<appNum q}" "ftag job = stag job + sfq_cost w p"
    "\<forall>a. a \<noteq> getApp p \<longrightarrow> sfq_queue q' a = sfq_queue q a"
    "\<forall>i\<in>{0..<appNum q}. sfq_queue q i \<noteq> [] \<longrightarrow> stag job \<le> stag (hd (sfq_queue q i))"
    "vtime q \<le> vtime q'" "vtime q' = stag job" "appNum q' = appNum q"
    "sfq_queue q' (getApp p) \<noteq> [] \<longrightarrow> stag (hd (sfq_queue q' (getApp p))) = ftag job"
    "sfq_tags w C q'"
proof -
  have sh: "sfq_shape q" and w: "weight q = w" using assms(1) by (simp_all add: sfq_tags_def)
  from assms(2) obtain m job rest where m: "0 \<le> m" "m < appNum q" "sfq_queue q m = job # rest"
    and least: "\<forall>i\<in>{0..<appNum q}. sfq_queue q i \<noteq> [] \<longrightarrow> stag job \<le> stag (hd (sfq_queue q i))"
    and take: "sfq_dispatchNext q = sfq_take m q"
    by (cases rule: sfq_dispatch_cases [OF sh]) auto
  from assms(1) m have ok: "sfq_queue_ok w C (vtime q) m (job # rest)"
    by (force simp: sfq_tags_def)
  then have ch: "tag_chain (sfq_cost w) (job # rest)" and am: "getApp (job_pkt job) = m"
    and cost: "0 \<le> sfq_cost w (job_pkt job)" "sfq_cost w (job_pkt job) \<le> C m"
    by (simp_all add: sfq_queue_ok_def)
  have same: "(case rest of [] \<Rightarrow> []
      | next # others \<Rightarrow> next\<lparr>ftag := ftag next + (ftag job - stag next), stag := ftag job\<rparr> # others)
      = rest"
    using ch by (cases rest) auto
  have q': "p = job_pkt job" "q' = q\<lparr> sfq_waitQ := (sfq_waitQ q)(m := Some rest),
       sfq_osQ := sfq_osQ q @ [job],
       startpos := (if m + 1 \<ge> appNum q then 0 else m + 1), vtime := stag job,
       maxftags := (if rest = [] then (maxftags q)(m := ftag job) else maxftags q) \<rparr>"
    using sfq_take_eq [OF m(3)] take assms(2) unfolding same by simp_all
  have queue: "sfq_queue q' a = (if a = m then rest else sfq_queue q a)" for a
    unfolding q' sfq_queue_def by simp
  from ok have v: "vtime q \<le> stag job" by (simp add: sfq_queue_ok_def)
  have f: "ftag job = stag job + sfq_cost w p" using ch q'(1) by (simp add: tag_chain_Cons)
  have rest_hd: "rest \<noteq> [] \<longrightarrow> stag (hd rest) = ftag job" using ch by (simp add: tag_chain_Cons)
  have "sfq_queue_ok w C (stag job) a (sfq_queue q' a) \<and> 0 \<le> C a \<and> maxftags q' a \<le> stag job + C a"
    if "a \<in> {0..<appNum q}" for a
  proof -
    from assms(1) that have oka: "sfq_queue_ok w C (vtime q) a (sfq_queue q a)"
      "0 \<le> C a" "maxftags q a \<le> vtime q + C a" by (auto simp: sfq_tags_def)
    show ?thesis
    proof (cases "a = m")
      case True
      with ok rest_hd f cost v oka q' queue show ?thesis
        by (auto simp: sfq_queue_ok_def tag_chain_Cons)
    next
      case False
      with oka least that v q' queue show ?thesis
        by (auto simp: sfq_queue_ok_def)
    qed
  qed
  moreover have "sfq_shape q'" by (rule sfq_dispatch_Some(1) [OF sh assms(2)])
  moreover have "appNum q' = appNum q" "vtime q' = stag job" "weight q' = weight q"
    unfolding q'(2) by simp_all
  ultimately have "sfq_tags w C q'" "appNum q' = appNum q" "vtime q' = stag job"
    using w by (simp_all add: sfq_tags_def)
  then show ?thesis
    by (intro that [of job]) (use q'(1) am m queue f least v rest_hd in auto)
qed

lemma sfq_tags_dispatch_None:
  "sfq_tags w C q \<Longrightarrow> sfq_dispatchNext q = Inr (None, q') \<Longrightarrow> q' = q"
  using sfq_dispatch_None by (auto simp: sfq_tags_def)

section \<open>Backlogged runs\<close>

fun sfq_ev_ok :: "(int \<Rightarrow> real) \<Rightarrow> (int \<Rightarrow> real) \<Rightarrow> 'b bPacket_scheme qevent \<Rightarrow> bool" where
  "sfq_ev_ok w C (Push now p) = sfq_push_ok w C p"
| "sfq_ev_ok w C (Dispatch now) = True"
| "sfq_ev_ok w C (Pop now i) = True"

fun sfq_busy_run ::
  "int \<Rightarrow> 'b bPacket_scheme qevent list \<Rightarrow> ('b bPacket_scheme, 'z) sfq_scheme \<times>
     'b bPacket_scheme list \<times> 'b bPacket_scheme list \<times> 'b bPacket_scheme list \<Rightarrow> bool" where
  "sfq_busy_run a [] x = (sfq_queue (fst x) a \<noteq> [])"
| "sfq_busy_run a (e # es) x =
     (sfq_queue (fst x) a \<noteq> [] \<and>
      (case sf.step e x of Inl _ \<Rightarrow> True | Inr x' \<Rightarrow> sfq_busy_run a es x'))"

text \<open>The service an application received: the sum of its dispatched sizes over its weight.\<close>

definition sfq_service :: "(int \<Rightarrow> real) \<Rightarrow> int \<Rightarrow> 'b bPacket_scheme list \<Rightarrow> real" where
  "sfq_service w a ds = sum_list (map (sfq_cost w) (filter (\<lambda>p. getApp p = a) ds))"

definition sfq_head :: "('b bPacket_scheme, 'z) sfq_scheme \<Rightarrow> int \<Rightarrow> real" where
  "sfq_head q a = stag (hd (sfq_queue q a))"

lemma sfq_service_snoc:
  "sfq_service w a (ds @ [p]) = sfq_service w a ds + (if getApp p = a then sfq_cost w p else 0)"
  by (simp add: sfq_service_def)

lemma sfq_service_Nil [simp]: "sfq_service w a [] = 0"
  by (simp add: sfq_service_def)

lemma sfq_step_tags:
  assumes "sfq_tags w C q" "sfq_ev_ok w C e"
    and "sf.step e (q, ps, ds, cs) = Inr (q', ps', ds', cs')"
  shows "sfq_tags w C q'" and "appNum q' = appNum q"
proof -
  have "sfq_tags w C q' \<and> appNum q' = appNum q"
  proof (cases e)
    case (Push now p)
    with assms have p: "sfq_pushWaitQ p q = Inr q'" by auto
    with Push assms sfq_tags_push [OF assms(1) _ p] show ?thesis
      by (auto simp: sfq_push_eq)
  next
    case (Dispatch now)
    with assms obtain r where d: "sfq_dispatchNext q = Inr (r, q')" by auto
    show ?thesis
    proof (cases r)
      case None
      with d assms(1) sfq_tags_dispatch_None show ?thesis by blast
    next
      case (Some p)
      with d have "sfq_dispatchNext q = Inr (Some p, q')" by simp
      from sfq_tags_dispatch [OF assms(1) this] show ?thesis by metis
    qed
  next
    case (Pop now i)
    with assms obtain r where p: "sfq_popOsQ i q = Inr (r, q')" by auto
    with sfq_tags_pop [OF assms(1) this] show ?thesis by (auto simp: sfq_pop_Some)
  qed
  then show "sfq_tags w C q'" "appNum q' = appNum q" by simp_all
qed

lemma sfq_step_head:
  assumes "sfq_tags w C q"
    and "sf.step e (q, ps, ds, cs) = Inr (q', ps', ds', cs')"
    and "sfq_queue q a \<noteq> []" "sfq_queue q' a \<noteq> []"
  shows "sfq_head q' a - sfq_head q a = sfq_service w a ds' - sfq_service w a ds"
proof (cases e)
  case (Push now p)
  with assms have "sfq_pushWaitQ p q = Inr q'" "ds' = ds" by auto
  with assms(3) show ?thesis
    by (auto simp: sfq_push_eq sfq_head_def sfq_queue_simps sfq_queue_def split: option.splits)
next
  case (Dispatch now)
  with assms obtain r where d: "sfq_dispatchNext q = Inr (r, q')"
    and ds': "ds' = (case r of None \<Rightarrow> ds | Some p \<Rightarrow> ds @ [p])" by auto
  show ?thesis
  proof (cases r)
    case None
    with d assms(1) have "q' = q" by (metis sfq_tags_dispatch_None)
    with None ds' show ?thesis by simp
  next
    case (Some p)
    with d have "sfq_dispatchNext q = Inr (Some p, q')" by simp
    from sfq_tags_dispatch [OF assms(1) this]
    obtain job where j: "sfq_queue q (getApp p) = job # sfq_queue q' (getApp p)"
      "ftag job = stag job + sfq_cost w p"
      "\<forall>a. a \<noteq> getApp p \<longrightarrow> sfq_queue q' a = sfq_queue q a"
      "sfq_queue q' (getApp p) \<noteq> [] \<longrightarrow> stag (hd (sfq_queue q' (getApp p))) = ftag job"
      by metis
    with assms(4) Some ds' show ?thesis
      by (cases "a = getApp p") (auto simp: sfq_service_snoc sfq_head_def)
  qed
next
  case (Pop now i)
  with assms obtain r where "sfq_popOsQ i q = Inr (r, q')" and "ds' = ds" by auto
  with sfq_tags_pop [OF assms(1)] show ?thesis by (simp add: sfq_head_def)
qed

lemma sfq_run_head:
  assumes "sfq_tags w C q" "\<forall>e\<in>set es. sfq_ev_ok w C e"
    and "run_res sf.step es (q, ps, ds, cs) = Inr (q', ps', ds', cs')"
    and "sfq_busy_run a es (q, ps, ds, cs)"
  shows "sfq_tags w C q' \<and> appNum q' = appNum q \<and> sfq_queue q' a \<noteq> [] \<and>
    sfq_head q' a - sfq_head q a = sfq_service w a ds' - sfq_service w a ds"
  using assms
proof (induction es arbitrary: q ps ds cs)
  case (Cons e es)
  then obtain q1 ps1 ds1 cs1 where st: "sf.step e (q, ps, ds, cs) = Inr (q1, ps1, ds1, cs1)"
    and run: "run_res sf.step es (q1, ps1, ds1, cs1) = Inr (q', ps', ds', cs')" by auto
  have ok: "sfq_ev_ok w C e" using Cons.prems(2) by simp
  note t1 = sfq_step_tags [OF Cons.prems(1) ok st]
  from Cons.prems(4) st have b: "sfq_busy_run a es (q1, ps1, ds1, cs1)" "sfq_queue q a \<noteq> []" by auto
  then have "sfq_queue q1 a \<noteq> []" by (cases es) auto
  note h = sfq_step_head [OF Cons.prems(1) st b(2) this]
  have "\<forall>e\<in>set es. sfq_ev_ok w C e" using Cons.prems(2) by simp
  from Cons.IH [OF t1(1) this run b(1)] t1(2) h show ?case by simp
qed simp

lemma sfq_tags_spread:
  assumes "sfq_tags w C q" "f \<in> {0..<appNum q}" "g \<in> {0..<appNum q}"
    and "sfq_queue q f \<noteq> []" "sfq_queue q g \<noteq> []"
  shows "- C g \<le> sfq_head q f - sfq_head q g \<and> sfq_head q f - sfq_head q g \<le> C f"
proof -
  from assms have "sfq_queue_ok w C (vtime q) f (sfq_queue q f)"
    "sfq_queue_ok w C (vtime q) g (sfq_queue q g)" by (auto simp: sfq_tags_def)
  with assms(4,5) show ?thesis by (auto simp: sfq_queue_ok_def sfq_head_def)
qed

lemma SFQ_new_tags:
  assumes "0 < n" "n \<le> MAX_APP" "\<forall>a\<in>{0..<n}. 0 \<le> C a"
  shows "sfq_tags (sfq_setWeights ws mem) C (SFQ_new i d n ws mem)"
  using assms by (auto simp: sfq_tags_def SFQ_new_def sfq_shape_def sfq_queue_def sfq_queue_ok_def)

section \<open>Properties\<close>

text \<open>
  Claim C1: fairness of SFQ. From any state whose tags are consistent, over any
  sequence of calls during which the applications \<open>f\<close> and \<open>g\<close> both stay
  backlogged, the normalised services of \<open>f\<close> and \<open>g\<close> differ by at most
  \<open>C f + C g\<close>, one largest request of each.
\<close>

theorem sfq_fairness:
  fixes q :: "'b bPacket_scheme sfq"
  assumes "sfq_tags w C q" "\<forall>e\<in>set es. sfq_ev_ok w C e"
    and "f \<in> {0..<appNum q}" "g \<in> {0..<appNum q}"
    and "run_res sf.step es (q, [], [], []) = Inr (q', ps, ds, cs)"
    and "sfq_busy_run f es (q, [], [], [])" "sfq_busy_run g es (q, [], [], [])"
  shows "\<bar>sfq_service w f ds - sfq_service w g ds\<bar> \<le> C f + C g"
proof -
  note F = sfq_run_head [OF assms(1,2,5,6)] and G = sfq_run_head [OF assms(1,2,5,7)]
  have ne: "sfq_queue q f \<noteq> []" "sfq_queue q g \<noteq> []" using assms(6,7) by (cases es; simp)+
  have "- C g \<le> sfq_head q f - sfq_head q g \<and> sfq_head q f - sfq_head q g \<le> C f"
    by (rule sfq_tags_spread [OF assms(1,3,4) ne])
  moreover have "- C g \<le> sfq_head q' f - sfq_head q' g \<and> sfq_head q' f - sfq_head q' g \<le> C f"
    using F G assms(3,4) by (intro sfq_tags_spread [of w]) auto
  ultimately show ?thesis using F G by (simp add: abs_le_iff)
qed

text \<open>
  Claim C18: in a state with consistent tags \<^verbatim>\<open>dispatchNext\<close> hands out a request whose
  start tag is minimal among the heads of all queues, the virtual time becomes
  that tag and does not decrease, only the head of the queue of its application
  is removed, no tag of a waiting request changes (the rewriting of the next
  request's tags has no effect) and the tags stay consistent.
\<close>

theorem sfq_dispatch_least_start_tag:
  fixes q :: "'b bPacket_scheme sfq"
  assumes "sfq_tags w C q" "sfq_dispatchNext q = Inr (Some p, q')"
  shows "\<exists>job. p = job_pkt job \<and>
    (\<forall>i\<in>{0..<appNum q}. sfq_queue q i \<noteq> [] \<longrightarrow> stag job \<le> stag (hd (sfq_queue q i))) \<and>
    vtime q' = stag job \<and> vtime q \<le> vtime q' \<and>
    sfq_queue q (getApp p) = job # sfq_queue q' (getApp p) \<and>
    (\<forall>a. a \<noteq> getApp p \<longrightarrow> sfq_queue q' a = sfq_queue q a) \<and> sfq_tags w C q'"
  using sfq_tags_dispatch [OF assms] by metis

text \<open>
  SFQ neither loses nor duplicates a request. After any sequence of calls on a
  new SFQ queue for \<open>n\<close> applications, the requests waiting together with those
  dispatched are the requests pushed, the requests outstanding together with
  those completed are the requests dispatched, and at most \<open>d\<close> are outstanding.
\<close>

theorem sfq_conservation:
  fixes q :: "'b bPacket_scheme sfq"
  assumes "0 < n" "n \<le> MAX_APP" "0 \<le> d"
    and "run_res sf.step evs (SFQ_new i d n ws mem, [], [], []) = Inr (q, ps, ds, cs)"
  shows "sfq_waiting q + mset (map pkt_key ds) = mset (map pkt_key ps) \<and>
    sfq_outstanding q + mset (map pkt_key cs) = mset (map pkt_key ds) \<and>
    (0 \<le> degree q \<longrightarrow> int (length (sfq_osQ q)) \<le> degree q)"
proof -
  have s: "sfq_shape (SFQ_new i d n ws mem)" using assms(1,2) by (simp add: SFQ_new_def sfq_shape_def)
  have w: "sfq_waiting (SFQ_new i d n ws mem) = {#}" "sfq_outstanding (SFQ_new i d n ws mem) = {#}"
    by (simp_all add: SFQ_new_def sfq_waiting_def sfq_outstanding_def sfq_queue_def)
  have dg: "int (size (sfq_outstanding (SFQ_new i d n ws mem))) \<le> degree (SFQ_new i d n ws mem)"
    using assms(3) unfolding w(2) by (simp add: SFQ_new_def)
  from sf.conservation [OF s assms(4)] sf.degree_respected [OF s dg assms(4)] w
  show ?thesis by (simp add: sfq_outstanding_def job_keys_def)
qed

theorem sfq_conservation_witness:
  "\<exists>q ps ds cs. run_res sf.step [Push 0 (demo_pkt 1 0 10), Push 0 (demo_pkt 2 1 10)]
      (SFQ_new 0 1 2 [(0, 1), (1, 2)] (\<lambda>_. 1), [], [], []) = Inr (q, ps, ds, cs) \<and>
    sfq_waiting q + mset (map pkt_key ds) = {#(1, 0), (2, 0)#}"
proof -
  define es where "es = [Push 0 (demo_pkt 1 0 10), Push 0 (demo_pkt 2 1 10)]"
  obtain q ps ds cs where r: "run_res sf.step es
      (SFQ_new 0 1 2 [(0, 1), (1, 2)] (\<lambda>_. 1), [], [], []) = Inr (q, ps, ds, cs)"
    "ps = [demo_pkt 1 0 10, demo_pkt 2 1 10]"
    by (simp add: es_def sfq_pushWaitQ_def demo_pkt_simps MAX_APP_def Let_def)
  from sfq_conservation [OF _ _ _ r(1)] r(2)
  have "sfq_waiting q + mset (map pkt_key ds) = {#(1, 0), (2, 0)#}"
    by (simp add: MAX_APP_def pkt_key_def demo_pkt_simps)
  with r(1) show ?thesis unfolding es_def by metis
qed

text \<open>
  \<^verbatim>\<open>IQueue.h\<close> documents that a negative degree means that the degree is not
  controlled. SFQ does not implement it: with a negative degree \<^verbatim>\<open>dispatchNext\<close>
  returns NULL in every state, so no request is ever dispatched.
\<close>

theorem sfq_negative_degree_blocks:
  fixes q :: "'b bPacket_scheme sfq"
  assumes "degree q < 0"
  shows "sfq_dispatchNext q = Inr (None, q)"
  using assms by (simp add: sfq_dispatchNext_def)

definition demo_sfq :: "gPacket sfq" where
  "demo_sfq = (SFQ_new 0 4 2 [(0, 1), (1, 2)] (\<lambda>_. 1))
     \<lparr>sfq_waitQ := (\<lambda>_. None)(0 := Some [\<lparr>job_pkt = demo_pkt 1 0 10, stag = 0, ftag = 10\<rparr>,
                                   \<lparr>job_pkt = demo_pkt 2 0 10, stag = 10, ftag = 20\<rparr>],
                         1 := Some [\<lparr>job_pkt = demo_pkt 3 1 10, stag = 0, ftag = 5\<rparr>,
                                   \<lparr>job_pkt = demo_pkt 4 1 10, stag = 5, ftag = 10\<rparr>])\<rparr>"

lemma demo_sfq_tags: "sfq_tags ((\<lambda>_. 1)(0 := 1, 1 := 2)) (\<lambda>_. 10) demo_sfq"
proof -
  have "{0..<(2::int)} = {0, 1}" by auto
  then show ?thesis
    by (simp add: demo_sfq_def SFQ_new_def sfq_setWeights_def sfq_tags_def sfq_shape_def
        sfq_queue_def sfq_queue_ok_def sfq_cost_def demo_pkt_simps MAX_APP_def)
qed

lemma demo_sfq_dispatch:
  "sfq_dispatchNext demo_sfq = Inr (Some (demo_pkt 1 0 10),
     demo_sfq\<lparr>sfq_waitQ := (sfq_waitQ demo_sfq)
        (0 := Some [\<lparr>job_pkt = demo_pkt 2 0 10, stag = 10, ftag = 20\<rparr>]),
      sfq_osQ := [\<lparr>job_pkt = demo_pkt 1 0 10, stag = 0, ftag = 10\<rparr>], startpos := 1, vtime := 0\<rparr>)"
  by (simp add: sfq_dispatchNext_def demo_sfq_def SFQ_new_def MAX_APP_def MAX_TAG_VALUE_def
      sfq_visit_def sfq_take_def sfq_pushOsQ_def Let_def numeral_2_eq_2)

theorem sfq_dispatch_least_start_tag_witness:
  "\<exists>p q' (job::gPacket job). sfq_dispatchNext demo_sfq = Inr (Some p, q') \<and> p = job_pkt job \<and>
    vtime q' = stag job \<and> getID p = 1"
proof -
  obtain q' where d: "sfq_dispatchNext demo_sfq = Inr (Some (demo_pkt 1 0 10), q')"
    using demo_sfq_dispatch by blast
  have "\<exists>job::gPacket job. demo_pkt 1 0 10 = job_pkt job \<and> vtime q' = stag job"
    using sfq_dispatch_least_start_tag [OF demo_sfq_tags d]
    by (elim exE conjE) (intro exI conjI; assumption)
  moreover have "getID (demo_pkt 1 0 10) = 1" by (simp add: demo_pkt_def)
  ultimately show ?thesis using d by metis
qed

theorem sfq_fairness_witness:
  "\<exists>q' ps ds cs. run_res sf.step [Dispatch 0] (demo_sfq, [], [], []) = Inr (q', ps, ds, cs) \<and>
     ds = [demo_pkt 1 0 10] \<and>
     \<bar>sfq_service ((\<lambda>_. 1)(0 := 1, 1 := 2)) 0 ds - sfq_service ((\<lambda>_. 1)(0 := 1, 1 := 2)) 1 ds\<bar> \<le> 20"
proof -
  obtain q' where d: "sfq_dispatchNext demo_sfq = Inr (Some (demo_pkt 1 0 10), q')"
    and q': "sfq_queue q' 0 \<noteq> []" "sfq_queue q' 1 \<noteq> []"
    using demo_sfq_dispatch by (auto simp: sfq_queue_def demo_sfq_def)
  have run: "run_res sf.step [Dispatch 0] (demo_sfq, [], [], []) = Inr (q', [], [demo_pkt 1 0 10], [])"
    using d by simp
  have "sfq_busy_run 0 [Dispatch 0] (demo_sfq, [], [], [])"
    "sfq_busy_run 1 [Dispatch 0] (demo_sfq, [], [], [])"
    using d q' by (auto simp: demo_sfq_def sfq_queue_def)
  moreover have "0 \<in> {0..<appNum demo_sfq}" "1 \<in> {0..<appNum demo_sfq}"
    by (simp_all add: demo_sfq_def SFQ_new_def)
  ultimately show ?thesis
    using sfq_fairness [OF demo_sfq_tags _ _ _ run, of 0 1] run by auto
qed

theorem sfq_negative_degree_blocks_witness:
  "degree (demo_sfq\<lparr>degree := -1\<rparr>) < 0 \<and>
   sfq_dispatchNext (demo_sfq\<lparr>degree := -1\<rparr>) = Inr (None, demo_sfq\<lparr>degree := -1\<rparr>)"
  using sfq_negative_degree_blocks [of "demo_sfq\<lparr>degree := -1\<rparr>"] by simp

end
