(* ===== verification/Dsfq.thy ===== *)
theory Dsfq
  imports SfqFair
begin

text \<open>
  \<^verbatim>\<open>scheduler/DSFQ\<close>: the distributed variants of SFQ. A proxy accumulates, per
  application, the service it has given in \<^verbatim>\<open>pktToPropagate\<close>; when this packet is
  active (its source is set) \<^verbatim>\<open>propagateSPacket\<close> hands out a copy and resets it,
  and a proxy that receives such a packet delays the tags of its own requests.
  DSFQA, DSFQALB count when a request is pushed, DSFQD when it is dispatched and
  DSFQF when it completes. DSFQATB is DSFQA with a timer, DSFQALB propagates only
  above a threshold.
\<close>

record 'p dsfq = "'p sfq" +
  pktToPropagate :: sPacket

record 'p dsfqalb = "'p dsfq" +
  workload_threshold :: real

record 'p dsfqatb = "'p dsfq" +
  time_threshold :: real

definition DSFQ_pkt :: "int \<Rightarrow> sPacket" where
  "DSFQ_pkt totalapp = new_sPacket\<lparr>getKind := PROP_SCH, getSrc := -1, getAppNum := totalapp\<rparr>"

definition DSFQ_new ::
  "int \<Rightarrow> int \<Rightarrow> int \<Rightarrow> (int \<times> real) list \<Rightarrow> (int \<Rightarrow> real) \<Rightarrow> 'p dsfq" where
  "DSFQ_new pid deg totalapp alg_param mem =
    sfq.extend (SFQ_new pid deg totalapp alg_param mem) (dsfq.fields (DSFQ_pkt totalapp))"

text \<open>
  \<^verbatim>\<open>processParameter\<close> of DSFQALB and DSFQATB looks for the number after the bar
  of the parameter: \<open>thr\<close> is that number, \<open>None\<close> when there is no bar.
\<close>

definition DSFQALB_new ::
  "int \<Rightarrow> int \<Rightarrow> int \<Rightarrow> (int \<times> real) list \<Rightarrow> real option \<Rightarrow> (int \<Rightarrow> real) \<Rightarrow> 'p dsfqalb res" where
  "DSFQALB_new pid deg totalapp alg_param thr mem =
    (case thr of
      None \<Rightarrow> Inl (Abort ''DSFQALB'')
    | Some t \<Rightarrow> Inr (dsfq.extend (DSFQ_new pid deg totalapp alg_param mem) (dsfqalb.fields t)))"

definition DSFQATB_new ::
  "int \<Rightarrow> int \<Rightarrow> int \<Rightarrow> (int \<times> real) list \<Rightarrow> real option \<Rightarrow> (int \<Rightarrow> real) \<Rightarrow> 'p dsfqatb res" where
  "DSFQATB_new pid deg totalapp alg_param thr mem =
    (case thr of
      None \<Rightarrow> Inl (Abort ''DSFQALB'')
    | Some t \<Rightarrow> Inr (dsfq.extend (DSFQ_new pid deg totalapp alg_param mem) (dsfqatb.fields t)))"

section \<open>Receiving\<close>

definition dsfq_insertBack_at ::
  "sPacket \<Rightarrow> int \<Rightarrow> ('p, 'z) sfq_scheme \<Rightarrow> ('p, 'z) sfq_scheme res" where
  "dsfq_insertBack_at spkt i q =
    (if getLengths spkt i = 0 then Inr q
     else if i \<ge> MAX_APP then Inl (OutOfBounds ''waitQ'')
     else
       let js = (case sfq_waitQ q i of None \<Rightarrow> [] | Some js \<Rightarrow> js)
       in if js = [] then
            Inr (q\<lparr>sfq_waitQ := (sfq_waitQ q)(i := Some []),
                   maxftags := (maxftags q)(i := maxftags q i + getLengths spkt i / weight q i)\<rparr>)
          else
            let b = last js
            in Inr (q\<lparr>sfq_waitQ := (sfq_waitQ q)(i :=
                      Some (butlast js @ [b\<lparr>ftag := ftag b + getLengths spkt i / weight q i\<rparr>]))\<rparr>))"

definition receiveSPacket_InsertBack ::
  "sPacket \<Rightarrow> ('p, 'z) sfq_scheme \<Rightarrow> ('p, 'z) sfq_scheme res" where
  "receiveSPacket_InsertBack spkt q =
     run_res (dsfq_insertBack_at spkt) [0..getAppNum spkt - 1] q"

definition dsfq_insertFront_at ::
  "sPacket \<Rightarrow> int \<Rightarrow> ('p, 'z) sfq_scheme \<Rightarrow> ('p, 'z) sfq_scheme res" where
  "dsfq_insertFront_at spkt i q =
    (if getLengths spkt i = 0 then Inr q
     else if i \<ge> MAX_APP then Inl (OutOfBounds ''waitQ'')
     else
       case (case sfq_waitQ q i of None \<Rightarrow> [] | Some js \<Rightarrow> js) of
         [] \<Rightarrow> Inr (q\<lparr>sfq_waitQ := (sfq_waitQ q)(i := Some []),
                   maxftags := (maxftags q)(i := maxftags q i + getLengths spkt i / weight q i)\<rparr>)
       | f # js \<Rightarrow>
            Inr (q\<lparr>sfq_waitQ := (sfq_waitQ q)(i :=
                      Some (f\<lparr>stag := stag f + getLengths spkt i / weight q i,
                              ftag := ftag f + getLengths spkt i / weight q i\<rparr> # js))\<rparr>))"

definition receiveSPacket_InsertFront ::
  "sPacket \<Rightarrow> ('p, 'z) sfq_scheme \<Rightarrow> ('p, 'z) sfq_scheme res" where
  "receiveSPacket_InsertFront spkt q =
     run_res (dsfq_insertFront_at spkt) [0..getAppNum spkt - 1] q"

section \<open>Propagating\<close>

definition dsfq_propagateSPacket ::
  "('p, 'z) dsfq_scheme \<Rightarrow> sPacket option \<times> ('p, 'z) dsfq_scheme" where
  "dsfq_propagateSPacket q =
    (let pkt = pktToPropagate q in
     if getSrc pkt < 0 then (None, q)
     else (Some (pkt\<lparr>getDst := -1\<rparr>),
           q\<lparr>pktToPropagate := pkt\<lparr>getLengths := (\<lambda>i. if 0 \<le> i \<and> i < getAppNum pkt then 0
                                                         else getLengths pkt i),
                                   getSrc := -1\<rparr>\<rparr>))"

text \<open>
  Counting a packet. The field \<^verbatim>\<open>lengths\<close> has 256 entries and its generated
  accessors throw outside.
\<close>

definition dsfq_count :: "'b bPacket_scheme \<Rightarrow> sPacket \<Rightarrow> sPacket res" where
  "dsfq_count pkt sp =
    (let a = getApp pkt in
     if \<not> (0 \<le> a \<and> a < 256) then Inl (CppThrow ''sPacket'')
     else Inr (sp\<lparr>getLengths := (getLengths sp)(a := getLengths sp a + of_int (getSize pkt))\<rparr>))"

section \<open>The subclasses\<close>

definition dsfqa_receiveSPacket :: "sPacket \<Rightarrow> ('p, 'z) dsfq_scheme \<Rightarrow> ('p, 'z) dsfq_scheme res" where
  "dsfqa_receiveSPacket spkt q = receiveSPacket_InsertBack spkt q"

definition dsfqa_pushWaitQ ::
  "'b bPacket_scheme \<Rightarrow> ('b bPacket_scheme, 'z) dsfq_scheme \<Rightarrow>
   ('b bPacket_scheme, 'z) dsfq_scheme res" where
  "dsfqa_pushWaitQ pkt q =
     bindR (sfq_pushWaitQ pkt q) (\<lambda>q.
     bindR (dsfq_count pkt (pktToPropagate q)) (\<lambda>sp.
     Inr (q\<lparr>pktToPropagate := sp\<lparr>getSrc := myID q\<rparr>\<rparr>)))"

definition dsfqalb_pushWaitQ ::
  "'b bPacket_scheme \<Rightarrow> ('b bPacket_scheme, 'z) dsfqalb_scheme \<Rightarrow>
   ('b bPacket_scheme, 'z) dsfqalb_scheme res" where
  "dsfqalb_pushWaitQ pkt q =
     bindR (sfq_pushWaitQ pkt q) (\<lambda>q.
     bindR (dsfq_count pkt (pktToPropagate q)) (\<lambda>sp.
     Inr (q\<lparr>pktToPropagate :=
       (if getLengths sp (getApp pkt) \<ge> workload_threshold q then sp\<lparr>getSrc := myID q\<rparr> else sp)\<rparr>)))"

definition dsfqatb_notify :: "real \<Rightarrow> ('p, 'z) dsfqatb_scheme \<Rightarrow> real" where
  "dsfqatb_notify now q = now + time_threshold q"

definition dsfqd_receiveSPacket :: "sPacket \<Rightarrow> ('p, 'z) dsfq_scheme \<Rightarrow> ('p, 'z) dsfq_scheme res" where
  "dsfqd_receiveSPacket spkt q = receiveSPacket_InsertBack spkt q"

definition dsfqd_dispatchNext ::
  "('b bPacket_scheme, 'z) dsfq_scheme \<Rightarrow>
   ('b bPacket_scheme option \<times> ('b bPacket_scheme, 'z) dsfq_scheme) res" where
  "dsfqd_dispatchNext q =
     bindR (sfq_dispatchNext q) (\<lambda>(r, q).
       case r of
         None \<Rightarrow> Inr (None, q)
       | Some pkt \<Rightarrow>
           bindR (dsfq_count pkt (pktToPropagate q)) (\<lambda>sp.
           Inr (Some pkt, q\<lparr>pktToPropagate := sp\<lparr>getSrc := myID q\<rparr>\<rparr>)))"

definition dsfqf_receiveSPacket :: "sPacket \<Rightarrow> ('p, 'z) dsfq_scheme \<Rightarrow> ('p, 'z) dsfq_scheme res" where
  "dsfqf_receiveSPacket spkt q = receiveSPacket_InsertFront spkt q"

definition dsfqf_popOsQ ::
  "int \<Rightarrow> ('b bPacket_scheme, 'z) dsfq_scheme \<Rightarrow>
   ('b bPacket_scheme option \<times> ('b bPacket_scheme, 'z) dsfq_scheme) res" where
  "dsfqf_popOsQ pid q =
     bindR (sfq_popOsQ pid q) (\<lambda>(r, q).
       case r of
         None \<Rightarrow> Inr (None, q)
       | Some pkt \<Rightarrow>
           bindR (dsfq_count pkt (pktToPropagate q)) (\<lambda>sp.
           Inr (Some pkt, q\<lparr>pktToPropagate := sp\<lparr>getSrc := myID q\<rparr>\<rparr>)))"

section \<open>The contract\<close>

text \<open>The scheduling state does not depend on the propagation packet.\<close>

lemma sfq_abs_pkt [simp]:
  "sfq_waiting (q\<lparr>pktToPropagate := sp\<rparr>) = sfq_waiting q"
  "sfq_outstanding (q\<lparr>pktToPropagate := sp\<rparr>) = sfq_outstanding q"
  "sfq_shape (q\<lparr>pktToPropagate := sp\<rparr>) = sfq_shape q"
  by (simp_all add: sfq_waiting_def sfq_outstanding_def sfq_shape_def sfq_queue_def)

abbreviation "dsfqa_push_op \<equiv> \<lambda>(now::real) p q. dsfqa_pushWaitQ p q"
abbreviation "dsfqalb_push_op \<equiv> \<lambda>(now::real) p q. dsfqalb_pushWaitQ p q"
abbreviation "dsfqd_disp_op \<equiv> \<lambda>(now::real) q. dsfqd_dispatchNext q"
abbreviation "dsfqf_pop_op \<equiv> \<lambda>(now::real) i q. dsfqf_popOsQ i q"

lemma dsfqa_push_law:
  assumes "sfq_shape q" "dsfqa_pushWaitQ p q = Inr q'"
  shows "sfq_shape q' \<and> sfq_waiting q' = add_mset (pkt_key p) (sfq_waiting q) \<and>
    sfq_outstanding q' = sfq_outstanding q \<and> degree q' = degree q"
proof -
  from assms(2) obtain q1 where q1: "sfq_pushWaitQ p q = Inr q1"
    and "\<exists>sp. q' = q1\<lparr>pktToPropagate := sp\<rparr>" by (auto simp: dsfqa_pushWaitQ_def)
  with sf.push_law [OF assms(1) q1] sf.push_deg [OF assms(1) q1] show ?thesis by auto
qed

lemma dsfqalb_push_law:
  assumes "sfq_shape q" "dsfqalb_pushWaitQ p q = Inr q'"
  shows "sfq_shape q' \<and> sfq_waiting q' = add_mset (pkt_key p) (sfq_waiting q) \<and>
    sfq_outstanding q' = sfq_outstanding q \<and> degree q' = degree q"
proof -
  from assms(2) obtain q1 sp where q1: "sfq_pushWaitQ p q = Inr q1"
    and "q' = q1\<lparr>pktToPropagate := sp\<rparr>" by (auto simp: dsfqalb_pushWaitQ_def)
  with sf.push_law [OF assms(1) q1] sf.push_deg [OF assms(1) q1] show ?thesis by auto
qed

lemma dsfqd_disp_cases:
  "dsfqd_dispatchNext q = Inr (r, q') \<Longrightarrow>
    \<exists>q1. sfq_dispatchNext q = Inr (r, q1) \<and>
      (case r of None \<Rightarrow> q' = q1
       | Some p \<Rightarrow> \<exists>sp. dsfq_count p (pktToPropagate q1) = Inr sp \<and>
                      q' = q1\<lparr>pktToPropagate := sp\<lparr>getSrc := myID q1\<rparr>\<rparr>)"
  by (auto simp: dsfqd_dispatchNext_def split: option.splits)

lemma dsfqf_pop_cases:
  "dsfqf_popOsQ i q = Inr (r, q') \<Longrightarrow>
    \<exists>q1. sfq_popOsQ i q = Inr (r, q1) \<and>
      (case r of None \<Rightarrow> q' = q1
       | Some p \<Rightarrow> \<exists>sp. dsfq_count p (pktToPropagate q1) = Inr sp \<and>
                      q' = q1\<lparr>pktToPropagate := sp\<lparr>getSrc := myID q1\<rparr>\<rparr>)"
  by (auto simp: dsfqf_popOsQ_def split: option.splits)

lemma dsfqd_disp_law:
  assumes "sfq_shape q" "dsfqd_dispatchNext q = Inr (r, q')"
  shows "sfq_shape q' \<and> degree q' = degree q \<and>
    (case r of
      None \<Rightarrow> sfq_waiting q' = sfq_waiting q \<and> sfq_outstanding q' = sfq_outstanding q
    | Some p \<Rightarrow> sfq_waiting q = add_mset (pkt_key p) (sfq_waiting q') \<and>
        sfq_outstanding q' = add_mset (pkt_key p) (sfq_outstanding q) \<and>
        (0 \<le> degree q \<longrightarrow> int (size (sfq_outstanding q)) < degree q))"
proof -
  from dsfqd_disp_cases [OF assms(2)] obtain q1 where d: "sfq_dispatchNext q = Inr (r, q1)"
    and q': "case r of None \<Rightarrow> q' = q1
       | Some p \<Rightarrow> \<exists>sp. dsfq_count p (pktToPropagate q1) = Inr sp \<and>
                      q' = q1\<lparr>pktToPropagate := sp\<lparr>getSrc := myID q1\<rparr>\<rparr>" by blast
  show ?thesis
  proof (cases r)
    case None
    with d q' sf.disp_None [OF assms(1), of q1] sf.disp_deg [OF assms(1), of None q1]
    show ?thesis by simp
  next
    case (Some p)
    with d q' sf.disp_Some [OF assms(1), of p q1] sf.disp_deg [OF assms(1), of "Some p" q1]
      sf.disp_room [OF assms(1), of p q1]
    show ?thesis by auto
  qed
qed

lemma dsfqf_pop_law:
  assumes "sfq_shape q" "dsfqf_popOsQ i q = Inr (r, q')"
  shows "sfq_shape q' \<and> degree q' = degree q \<and> sfq_waiting q' = sfq_waiting q \<and>
    (case r of
      None \<Rightarrow> sfq_outstanding q' = sfq_outstanding q
    | Some p \<Rightarrow> sfq_outstanding q = add_mset (pkt_key p) (sfq_outstanding q'))"
proof -
  from dsfqf_pop_cases [OF assms(2)] obtain q1 where d: "sfq_popOsQ i q = Inr (r, q1)"
    and q': "case r of None \<Rightarrow> q' = q1
       | Some p \<Rightarrow> \<exists>sp. dsfq_count p (pktToPropagate q1) = Inr sp \<and>
                      q' = q1\<lparr>pktToPropagate := sp\<lparr>getSrc := myID q1\<rparr>\<rparr>" by blast
  show ?thesis
  proof (cases r)
    case None
    with d show ?thesis by (simp add: sfq_pop_Some)
  next
    case (Some p)
    with d q' sf.pop_Some [OF assms(1), of i p q1] sf.pop_deg [OF assms(1), of i "Some p" q1]
    show ?thesis by auto
  qed
qed

text \<open>DSFQA and DSFQATB, DSFQALB, DSFQD and DSFQF keep the contract of SFQ.\<close>

interpretation da: bounded_scheduler dsfqa_push_op sfq_disp_op sfq_pop_op
  pkt_key sfq_waiting sfq_outstanding sfq_shape degree
  by unfold_locales
    (auto dest: dsfqa_push_law sf.disp_None sf.disp_Some sf.pop_None
      sf.pop_Some sf.disp_deg sf.pop_deg sf.disp_room)

interpretation dl: bounded_scheduler dsfqalb_push_op sfq_disp_op sfq_pop_op
  pkt_key sfq_waiting sfq_outstanding sfq_shape degree
  by unfold_locales
    (auto dest: dsfqalb_push_law sf.disp_None sf.disp_Some sf.pop_None
      sf.pop_Some sf.disp_deg sf.pop_deg sf.disp_room)

interpretation dd: bounded_scheduler sfq_push_op dsfqd_disp_op sfq_pop_op
  pkt_key sfq_waiting sfq_outstanding sfq_shape degree
  by unfold_locales
    (auto dest: dsfqd_disp_law sf.push_law sf.push_deg sf.pop_None
      sf.pop_Some sf.pop_deg)

interpretation df: bounded_scheduler sfq_push_op sfq_disp_op dsfqf_pop_op
  pkt_key sfq_waiting sfq_outstanding sfq_shape degree
  by unfold_locales
    (auto dest: dsfqf_pop_law sf.push_law sf.push_deg sf.disp_None
      sf.disp_Some sf.disp_deg sf.disp_room)

section \<open>Accounting of the propagated service\<close>

text \<open>
  The virtual methods of the subclasses, selected by the class, and the calls a
  proxy makes: those of every scheduler, a propagation, and the receipt of a
  packet. The run records the packets sent and the requests that are counted.
\<close>

datatype dsfq_class = DSFQA | DSFQD | DSFQF

definition dsfq_push ::
  "dsfq_class \<Rightarrow> 'b bPacket_scheme \<Rightarrow> ('b bPacket_scheme, 'z) dsfq_scheme \<Rightarrow>
   ('b bPacket_scheme, 'z) dsfq_scheme res" where
  "dsfq_push c p q = (case c of DSFQA \<Rightarrow> dsfqa_pushWaitQ p q | _ \<Rightarrow> sfq_pushWaitQ p q)"

definition dsfq_disp ::
  "dsfq_class \<Rightarrow> ('b bPacket_scheme, 'z) dsfq_scheme \<Rightarrow>
   ('b bPacket_scheme option \<times> ('b bPacket_scheme, 'z) dsfq_scheme) res" where
  "dsfq_disp c q = (case c of DSFQD \<Rightarrow> dsfqd_dispatchNext q | _ \<Rightarrow> sfq_dispatchNext q)"

definition dsfq_pop ::
  "dsfq_class \<Rightarrow> int \<Rightarrow> ('b bPacket_scheme, 'z) dsfq_scheme \<Rightarrow>
   ('b bPacket_scheme option \<times> ('b bPacket_scheme, 'z) dsfq_scheme) res" where
  "dsfq_pop c i q = (case c of DSFQF \<Rightarrow> dsfqf_popOsQ i q | _ \<Rightarrow> sfq_popOsQ i q)"

definition dsfq_receive ::
  "dsfq_class \<Rightarrow> sPacket \<Rightarrow> ('p, 'z) dsfq_scheme \<Rightarrow> ('p, 'z) dsfq_scheme res" where
  "dsfq_receive c spkt q =
    (case c of DSFQA \<Rightarrow> dsfqa_receiveSPacket spkt q
     | DSFQD \<Rightarrow> dsfqd_receiveSPacket spkt q
     | DSFQF \<Rightarrow> dsfqf_receiveSPacket spkt q)"

datatype 'p devent = DPush 'p | DDispatch | DPop int | DPropagate | DReceive sPacket

fun dsfq_step ::
  "dsfq_class \<Rightarrow> 'b bPacket_scheme devent \<Rightarrow>
   ('b bPacket_scheme, 'z) dsfq_scheme \<times> sPacket list \<times> 'b bPacket_scheme list \<Rightarrow>
   (('b bPacket_scheme, 'z) dsfq_scheme \<times> sPacket list \<times> 'b bPacket_scheme list) res" where
  "dsfq_step c (DPush p) (q, sent, counted) =
     bindR (dsfq_push c p q) (\<lambda>q. Inr (q, sent, counted @ (if c = DSFQA then [p] else [])))"
| "dsfq_step c DDispatch (q, sent, counted) =
     bindR (dsfq_disp c q) (\<lambda>(r, q). Inr (q, sent, counted @
       (case r of Some p \<Rightarrow> if c = DSFQD then [p] else [] | None \<Rightarrow> [])))"
| "dsfq_step c (DPop i) (q, sent, counted) =
     bindR (dsfq_pop c i q) (\<lambda>(r, q). Inr (q, sent, counted @
       (case r of Some p \<Rightarrow> if c = DSFQF then [p] else [] | None \<Rightarrow> [])))"
| "dsfq_step c DPropagate (q, sent, counted) =
     (case dsfq_propagateSPacket q of
        (None, q) \<Rightarrow> Inr (q, sent, counted)
      | (Some s, q) \<Rightarrow> Inr (q, sent @ [s], counted))"
| "dsfq_step c (DReceive s) (q, sent, counted) =
     bindR (dsfq_receive c s q) (\<lambda>q. Inr (q, sent, counted))"

definition dsfq_service :: "int \<Rightarrow> 'b bPacket_scheme list \<Rightarrow> real" where
  "dsfq_service a ps = (\<Sum>p\<leftarrow>filter (\<lambda>p. getApp p = a) ps. of_int (getSize p))"

definition dsfq_ledger ::
  "int \<Rightarrow> ('b bPacket_scheme, 'z) dsfq_scheme \<times> sPacket list \<times> 'b bPacket_scheme list \<Rightarrow> bool" where
  "dsfq_ledger n = (\<lambda>(q, sent, counted).
     0 \<le> myID q \<and> getAppNum (pktToPropagate q) = n \<and>
     (\<forall>a\<in>{0..<n}.
        (\<Sum>s\<leftarrow>sent. getLengths s a) + getLengths (pktToPropagate q) a = dsfq_service a counted \<and>
        (getSrc (pktToPropagate q) < 0 \<longrightarrow> getLengths (pktToPropagate q) a = 0)))"

lemma dsfq_service_snoc [simp]:
  "dsfq_service a (ps @ [p]) = dsfq_service a ps + (if getApp p = a then of_int (getSize p) else 0)"
  "dsfq_service a [] = 0"
  by (simp_all add: dsfq_service_def)

text \<open>What SFQ does leaves the propagation packet and the identity alone.\<close>

lemma sfq_push_frame:
  fixes q :: "('b bPacket_scheme, 'z) dsfq_scheme"
  shows "sfq_pushWaitQ p q = Inr q' \<Longrightarrow> pktToPropagate q' = pktToPropagate q \<and> myID q' = myID q"
  by (auto simp: sfq_push_eq)

lemma sfq_take_frame:
  fixes q :: "('p, 'z) dsfq_scheme"
  shows "sfq_take m q = Inr (r, q') \<Longrightarrow> pktToPropagate q' = pktToPropagate q \<and> myID q' = myID q"
  by (auto simp: sfq_take_def sfq_pushOsQ_def Let_def split: option.splits list.splits)

lemma sfq_disp_frame:
  fixes q :: "('p, 'z) dsfq_scheme"
  shows "sfq_dispatchNext q = Inr (r, q') \<Longrightarrow> pktToPropagate q' = pktToPropagate q \<and> myID q' = myID q"
  using sfq_take_frame
  by (auto simp: sfq_dispatchNext_def split: option.splits if_splits prod.splits)

lemma sfq_pop_frame:
  fixes q :: "('b bPacket_scheme, 'z) dsfq_scheme"
  shows "sfq_popOsQ i q = Inr (r, q') \<Longrightarrow> pktToPropagate q' = pktToPropagate q \<and> myID q' = myID q"
  by (auto simp: sfq_pop_Some)

text \<open>A received packet delays requests, it moves none.\<close>

definition sfq_same :: "('b bPacket_scheme, 'z) sfq_scheme \<Rightarrow> ('b bPacket_scheme, 'z) sfq_scheme \<Rightarrow> bool" where
  "sfq_same q q' \<longleftrightarrow> (\<forall>a. job_keys (sfq_queue q' a) = job_keys (sfq_queue q a)) \<and> sfq_osQ q' = sfq_osQ q \<and>
     startpos q' = startpos q \<and> appNum q' = appNum q \<and> degree q' = degree q"

lemma job_keys_last: "js \<noteq> [] \<Longrightarrow> job_keys (butlast js @ [(last js)\<lparr>ftag := t\<rparr>]) = job_keys js"
  by (cases js rule: rev_cases) auto

lemma sfq_same_update:
  assumes "job_keys js = job_keys (sfq_queue x i)"
  shows "sfq_same x (x\<lparr>sfq_waitQ := (sfq_waitQ x)(i := Some js)\<rparr>)"
    and "sfq_same x (x\<lparr>sfq_waitQ := (sfq_waitQ x)(i := Some js), maxftags := m\<rparr>)"
  using assms by (auto simp: sfq_same_def sfq_queue_def)

lemma insertBack_same: "dsfq_insertBack_at s i x = Inr x' \<Longrightarrow> sfq_same x x'"
  by (auto simp: dsfq_insertBack_at_def Let_def sfq_queue_def [symmetric] job_keys_last
      simp del: job_keys_simps(3) split: if_splits intro!: sfq_same_update) (simp add: sfq_same_def)

lemma insertFront_same: "dsfq_insertFront_at s i x = Inr x' \<Longrightarrow> sfq_same x x'"
  by (auto simp: dsfq_insertFront_at_def sfq_queue_def [symmetric]
      split: if_splits list.splits intro!: sfq_same_update) (simp add: sfq_same_def)

lemma sfq_same_trans: "sfq_same x y \<Longrightarrow> sfq_same y z \<Longrightarrow> sfq_same x z"
  by (simp add: sfq_same_def)

lemma receive_same:
  fixes q q' :: "('b bPacket_scheme, 'z) sfq_scheme"
  shows "receiveSPacket_InsertBack s q = Inr q' \<Longrightarrow> sfq_same q q'"
    and "receiveSPacket_InsertFront s q = Inr q' \<Longrightarrow> sfq_same q q'"
  unfolding receiveSPacket_InsertBack_def receiveSPacket_InsertFront_def
  by (rule run_res_invariant [where P = "sfq_same q", OF sfq_same_trans [OF _ insertBack_same]]; (assumption | simp add: sfq_same_def))
    (rule run_res_invariant [where P = "sfq_same q", OF sfq_same_trans [OF _ insertFront_same]]; (assumption | simp add: sfq_same_def))

lemma sfq_same_abs:
  assumes "sfq_same q q'"
  shows "sfq_waiting q' = sfq_waiting q" "sfq_outstanding q' = sfq_outstanding q" "sfq_shape q' = sfq_shape q"
  using assms by (simp_all add: sfq_same_def sfq_waiting_def sfq_outstanding_def sfq_shape_def)

lemma dsfq_receive_frame:
  fixes q :: "('p, 'z) dsfq_scheme"
  assumes "dsfq_receive c s q = Inr q'"
  shows "pktToPropagate q' = pktToPropagate q \<and> myID q' = myID q"
proof -
  let ?P = "\<lambda>x::('p, 'z) dsfq_scheme. pktToPropagate x = pktToPropagate q \<and> myID x = myID q"
  have b: "?P x \<Longrightarrow> dsfq_insertBack_at s i x = Inr x' \<Longrightarrow> ?P x'" for i x x'
    by (auto simp: dsfq_insertBack_at_def Let_def split: if_splits)
  have f: "?P x \<Longrightarrow> dsfq_insertFront_at s i x = Inr x' \<Longrightarrow> ?P x'" for i x x'
    by (auto simp: dsfq_insertFront_at_def split: if_splits option.splits list.splits)
  have r: "receiveSPacket_InsertBack s q = Inr q' \<or> receiveSPacket_InsertFront s q = Inr q'"
    using assms
    by (cases c) (auto simp: dsfq_receive_def dsfqa_receiveSPacket_def dsfqd_receiveSPacket_def
        dsfqf_receiveSPacket_def)
  have pb: "?P q'" if "run_res (dsfq_insertBack_at s) xs q = Inr q'" for xs
    by (rule run_res_invariant [where f = "dsfq_insertBack_at s", OF _ _ that]) (erule (1) b, simp)
  have pf: "?P q'" if "run_res (dsfq_insertFront_at s) xs q = Inr q'" for xs
    by (rule run_res_invariant [where f = "dsfq_insertFront_at s", OF _ _ that]) (erule (1) f, simp)
  from r pb pf show ?thesis
    unfolding receiveSPacket_InsertBack_def receiveSPacket_InsertFront_def by blast
qed

lemma dsfq_ledger_count:
  fixes q q1 :: "('b bPacket_scheme, 'z) dsfq_scheme"
  assumes "dsfq_ledger n (q, sent, counted)"
    and "pktToPropagate q1 = pktToPropagate q" "myID q1 = myID q"
    and "dsfq_count p (pktToPropagate q) = Inr sp"
  shows "dsfq_ledger n (q1\<lparr>pktToPropagate := sp\<lparr>getSrc := myID q\<rparr>\<rparr>, sent, counted @ [p])"
  using assms by (auto simp: dsfq_ledger_def dsfq_count_def Let_def split: if_splits)

lemma dsfq_ledger_frame:
  fixes q q1 :: "('b bPacket_scheme, 'z) dsfq_scheme"
  shows "dsfq_ledger n (q, sent, counted) \<Longrightarrow> pktToPropagate q1 = pktToPropagate q \<Longrightarrow>
     myID q1 = myID q \<Longrightarrow> dsfq_ledger n (q1, sent, counted)"
  by (simp add: dsfq_ledger_def)

lemma dsfq_ledger_propagate:
  assumes "dsfq_ledger n (q, sent, counted)" "dsfq_propagateSPacket q = (Some s, q')"
  shows "dsfq_ledger n (q', sent @ [s], counted)"
  using assms by (auto simp: dsfq_ledger_def dsfq_propagateSPacket_def Let_def split: if_splits)

lemma dsfq_step_ledger:
  assumes "dsfq_ledger n x" "dsfq_step c ev x = Inr x'"
  shows "dsfq_ledger n x'"
proof -
  obtain q sent counted where x: "x = (q, sent, counted)" by (cases x) auto
  note L = assms(1) [unfolded x]
  show ?thesis
  proof (cases ev)
    case (DPush p)
    show ?thesis
    proof (cases "c = DSFQA")
      case True
      with assms(2) x DPush obtain q1 sp where q1: "sfq_pushWaitQ p q = Inr q1"
        "dsfq_count p (pktToPropagate q1) = Inr sp"
        and x': "x' = (q1\<lparr>pktToPropagate := sp\<lparr>getSrc := myID q1\<rparr>\<rparr>, sent, counted @ [p])"
        by (auto simp: dsfq_push_def dsfqa_pushWaitQ_def)
      from sfq_push_frame [OF q1(1)] have "pktToPropagate q1 = pktToPropagate q" "myID q1 = myID q" by simp_all
      from dsfq_ledger_count [OF L this] q1(2) x' this show ?thesis by simp
    next
      case False
      with assms(2) x DPush obtain q1 where "sfq_pushWaitQ p q = Inr q1" "x' = (q1, sent, counted)"
        by (auto simp: dsfq_push_def split: dsfq_class.splits)
      with dsfq_ledger_frame [OF L] sfq_push_frame [of p q q1] show ?thesis by simp
    qed
  next
    case DDispatch
    with assms(2) x obtain r q1 where d: "dsfq_disp c q = Inr (r, q1)" and x': "x' = (q1, sent, counted @
       (case r of Some p \<Rightarrow> if c = DSFQD then [p] else [] | None \<Rightarrow> []))" by auto
    show ?thesis
    proof (cases "c = DSFQD")
      case True
      with d dsfqd_disp_cases [of q r q1] obtain q2 where "sfq_dispatchNext q = Inr (r, q2)"
        "case r of None \<Rightarrow> q1 = q2 | Some p \<Rightarrow> \<exists>sp. dsfq_count p (pktToPropagate q2) = Inr sp \<and>
             q1 = q2\<lparr>pktToPropagate := sp\<lparr>getSrc := myID q2\<rparr>\<rparr>" by (auto simp: dsfq_disp_def)
      with True x' dsfq_ledger_count [OF L] dsfq_ledger_frame [OF L] sfq_disp_frame [of q r q2]
      show ?thesis by (cases r) auto
    next
      case False
      with d have "sfq_dispatchNext q = Inr (r, q1)" by (auto simp: dsfq_disp_def split: dsfq_class.splits)
      with False x' dsfq_ledger_frame [OF L] sfq_disp_frame [of q r q1]
      show ?thesis by (auto split: option.splits)
    qed
  next
    case (DPop i)
    with assms(2) x obtain r q1 where d: "dsfq_pop c i q = Inr (r, q1)" and x': "x' = (q1, sent, counted @
       (case r of Some p \<Rightarrow> if c = DSFQF then [p] else [] | None \<Rightarrow> []))" by auto
    show ?thesis
    proof (cases "c = DSFQF")
      case True
      with d dsfqf_pop_cases [of i q r q1] obtain q2 where "sfq_popOsQ i q = Inr (r, q2)"
        "case r of None \<Rightarrow> q1 = q2 | Some p \<Rightarrow> \<exists>sp. dsfq_count p (pktToPropagate q2) = Inr sp \<and>
             q1 = q2\<lparr>pktToPropagate := sp\<lparr>getSrc := myID q2\<rparr>\<rparr>" by (auto simp: dsfq_pop_def)
      with True x' dsfq_ledger_count [OF L] dsfq_ledger_frame [OF L] sfq_pop_frame [of i q r q2]
      show ?thesis by (cases r) auto
    next
      case False
      with d have "sfq_popOsQ i q = Inr (r, q1)" by (auto simp: dsfq_pop_def split: dsfq_class.splits)
      with False x' dsfq_ledger_frame [OF L] sfq_pop_frame [of i q r q1]
      show ?thesis by (auto split: option.splits)
    qed
  next
    case DPropagate
    then show ?thesis
      using assms(2) x L dsfq_ledger_propagate [OF L]
      by (auto simp: dsfq_propagateSPacket_def Let_def split: if_splits)
  next
    case (DReceive s)
    with assms(2) x obtain q1 where "dsfq_receive c s q = Inr q1" "x' = (q1, sent, counted)" by auto
    with dsfq_ledger_frame [OF L] dsfq_receive_frame [of c s q q1] show ?thesis by simp
  qed
qed

section \<open>The delay a received packet causes\<close>

text \<open>
  What the scheduler keeps of one application: weight, largest finish tag, queue.
  A receipt changes each application by one of these functions.
\<close>

definition sfq_view :: "('p, 'z) sfq_scheme \<Rightarrow> int \<Rightarrow> real \<times> real \<times> 'p job list" where
  "sfq_view q a = (weight q a, maxftags q a, sfq_queue q a)"

definition delay_back :: "sPacket \<Rightarrow> int \<Rightarrow> real \<times> real \<times> 'p job list \<Rightarrow> real \<times> real \<times> 'p job list" where
  "delay_back s a = (\<lambda>(w, m, js).
     if js = [] then (w, m + getLengths s a / w, [])
     else (w, m, butlast js @ [(last js)\<lparr>ftag := ftag (last js) + getLengths s a / w\<rparr>]))"

definition delay_front :: "sPacket \<Rightarrow> int \<Rightarrow> real \<times> real \<times> 'p job list \<Rightarrow> real \<times> real \<times> 'p job list" where
  "delay_front s a = (\<lambda>(w, m, js).
     case js of [] \<Rightarrow> (w, m + getLengths s a / w, [])
     | j # ks \<Rightarrow> (w, m, j\<lparr>stag := stag j + getLengths s a / w, ftag := ftag j + getLengths s a / w\<rparr> # ks))"

lemma last_ftag_same: "js \<noteq> [] \<Longrightarrow> butlast js @ [(last js)\<lparr>ftag := ftag (last js)\<rparr>] = js"
  by simp

lemma insertBack_view:
  "dsfq_insertBack_at s i q = Inr q' \<Longrightarrow>
     sfq_view q' a = (if a = i then delay_back s i (sfq_view q a) else sfq_view q a)"
  by (auto simp: dsfq_insertBack_at_def sfq_view_def sfq_queue_def delay_back_def Let_def
      split: if_splits option.splits)

lemma insertFront_view:
  "dsfq_insertFront_at s i q = Inr q' \<Longrightarrow>
     sfq_view q' a = (if a = i then delay_front s i (sfq_view q a) else sfq_view q a)"
  by (auto simp: dsfq_insertFront_at_def sfq_view_def sfq_queue_def delay_front_def
      split: if_splits option.splits list.splits)

text \<open>
  The tag from which the next request of an application starts: for a request
  that is pushed, and for the request at the front.
\<close>

definition sfq_next_tag :: "('p, 'z) sfq_scheme \<Rightarrow> int \<Rightarrow> real" where
  "sfq_next_tag q a = (if sfq_queue q a = [] then maxftags q a else ftag (last (sfq_queue q a)))"

definition sfq_front_tag :: "('p, 'z) sfq_scheme \<Rightarrow> int \<Rightarrow> real" where
  "sfq_front_tag q a = (if sfq_queue q a = [] then maxftags q a else stag (hd (sfq_queue q a)))"

section \<open>Properties\<close>

text \<open>
  Claim C9: the distributed schedulers account for all their service. Over any sequence
  of pushes, dispatches, completions, propagations and receipts of a new DSFQA,
  DSFQD or DSFQF scheduler, the lengths it has sent to the other proxies plus
  those still pending are, for every application, the total size of the requests
  pushed (A), dispatched (D) or completed (F); and when the packet is inactive
  nothing is pending.
\<close>

theorem dsfq_accounts_for_service:
  assumes "0 \<le> i" "0 \<le> a" "a < n"
    and "run_res (dsfq_step c) evs (DSFQ_new i d n ws mem, [], []) = Inr (q, sent, counted)"
  shows "(\<Sum>s\<leftarrow>sent. getLengths s a) + getLengths (pktToPropagate q) a = dsfq_service a counted \<and>
    (getSrc (pktToPropagate q) < 0 \<longrightarrow> getLengths (pktToPropagate q) a = 0)"
proof -
  have "dsfq_ledger n (DSFQ_new i d n ws mem, [], [])" using assms(1)
    by (simp add: dsfq_ledger_def DSFQ_new_def SFQ_new_def DSFQ_pkt_def new_sPacket_def
        sfq.defs dsfq.defs)
  from run_res_invariant [where P = "dsfq_ledger n", OF dsfq_step_ledger this assms(4)] assms(2,3)
  show ?thesis by (auto simp: dsfq_ledger_def)
qed

theorem dsfq_accounts_for_service_witness:
  "\<exists>q sent counted. run_res (dsfq_step DSFQA)
      [DPush (demo_pkt 1 0 10), DPush (demo_pkt 2 0 7), DPropagate, DPush (demo_pkt 3 0 4)]
      (DSFQ_new 3 4 2 [(0, 1), (1, 2)] (\<lambda>_. 1), [], []) = Inr (q, sent, counted) \<and>
    (\<Sum>s\<leftarrow>sent. getLengths s 0) + getLengths (pktToPropagate q) 0 = 21"
proof -
  define es where "es = [DPush (demo_pkt 1 0 10), DPush (demo_pkt 2 0 7), DPropagate, DPush (demo_pkt 3 0 4)]"
  obtain q sent counted where r: "run_res (dsfq_step DSFQA) es
      (DSFQ_new 3 4 2 [(0, 1), (1, 2)] (\<lambda>_. 1), [], []) = Inr (q, sent, counted)"
    "counted = [demo_pkt 1 0 10, demo_pkt 2 0 7, demo_pkt 3 0 4]"
    by (simp add: es_def dsfq_push_def dsfqa_pushWaitQ_def sfq_pushWaitQ_def dsfq_count_def Let_def
        demo_pkt_simps MAX_APP_def DSFQ_new_def SFQ_new_def sfq.defs dsfq.defs
        dsfq_propagateSPacket_def DSFQ_pkt_def)
  from dsfq_accounts_for_service [OF _ _ _ r(1), of 0] r(2)
  have "(\<Sum>s\<leftarrow>sent. getLengths s 0) + getLengths (pktToPropagate q) 0 = 21"
    by (simp add: dsfq_service_def demo_pkt_simps)
  with r(1) show ?thesis unfolding es_def by blast
qed

text \<open>
  A received packet delays exactly the next request. For a packet about at most
  \<^verbatim>\<open>MAX_APP\<close> applications, InsertBack succeeds, raises the tag from which the
  next pushed request of each application starts by length over weight, and
  leaves the start tags of the waiting requests alone; InsertFront succeeds and
  raises the start tag of the front request (the recorded finish tag when nothing
  waits) by length over weight; neither loses a request nor moves the virtual time.
\<close>

theorem dsfq_receive_delays:
  assumes "getAppNum s \<le> MAX_APP" "0 \<le> a" "a < getAppNum s"
  shows "(\<exists>q'. receiveSPacket_InsertBack s q = Inr q' \<and>
      sfq_next_tag q' a = sfq_next_tag q a + getLengths s a / weight q a \<and>
      map job_pkt (sfq_queue q' a) = map job_pkt (sfq_queue q a) \<and>
      map stag (sfq_queue q' a) = map stag (sfq_queue q a) \<and> weight q' a = weight q a) \<and>
    (\<exists>q'. receiveSPacket_InsertFront s q = Inr q' \<and>
      sfq_front_tag q' a = sfq_front_tag q a + getLengths s a / weight q a \<and>
      map job_pkt (sfq_queue q' a) = map job_pkt (sfq_queue q a) \<and>
      map stag (tl (sfq_queue q' a)) = map stag (tl (sfq_queue q a)) \<and> weight q' a = weight q a)"
proof (intro conjI)
  have "\<exists>x'. dsfq_insertBack_at s i x = Inr x'" if "i \<in> set [0..getAppNum s - 1]" for i and x :: "('a, 'b) sfq_scheme"
    using that assms(1) by (auto simp: dsfq_insertBack_at_def Let_def)
  from run_res_ok [of "[0..getAppNum s - 1]" "dsfq_insertBack_at s", OF this]
  obtain q' where b: "receiveSPacket_InsertBack s q = Inr q'"
    unfolding receiveSPacket_InsertBack_def by blast
  from b run_res_pointwise [where V = sfq_view and f = "dsfq_insertBack_at s" and g = "delay_back s", OF insertBack_view _ b [unfolded receiveSPacket_InsertBack_def], of a] assms
  have "sfq_view q' a = delay_back s a (sfq_view q a)" by simp
  with b show "\<exists>q'. receiveSPacket_InsertBack s q = Inr q' \<and>
      sfq_next_tag q' a = sfq_next_tag q a + getLengths s a / weight q a \<and>
      map job_pkt (sfq_queue q' a) = map job_pkt (sfq_queue q a) \<and>
      map stag (sfq_queue q' a) = map stag (sfq_queue q a) \<and> weight q' a = weight q a"
    by (cases "sfq_queue q a" rule: rev_cases)
      (auto simp: sfq_view_def delay_back_def sfq_next_tag_def split: if_splits)
next
  have "\<exists>x'. dsfq_insertFront_at s i x = Inr x'" if "i \<in> set [0..getAppNum s - 1]" for i and x :: "('a, 'b) sfq_scheme"
    using that assms(1) by (auto simp: dsfq_insertFront_at_def split: list.splits)
  from run_res_ok [of "[0..getAppNum s - 1]" "dsfq_insertFront_at s", OF this]
  obtain q' where b: "receiveSPacket_InsertFront s q = Inr q'"
    unfolding receiveSPacket_InsertFront_def by blast
  from b run_res_pointwise [where V = sfq_view and f = "dsfq_insertFront_at s" and g = "delay_front s", OF insertFront_view _ b [unfolded receiveSPacket_InsertFront_def], of a] assms
  have "sfq_view q' a = delay_front s a (sfq_view q a)" by simp
  with b show "\<exists>q'. receiveSPacket_InsertFront s q = Inr q' \<and>
      sfq_front_tag q' a = sfq_front_tag q a + getLengths s a / weight q a \<and>
      map job_pkt (sfq_queue q' a) = map job_pkt (sfq_queue q a) \<and>
      map stag (tl (sfq_queue q' a)) = map stag (tl (sfq_queue q a)) \<and> weight q' a = weight q a"
    by (cases "sfq_queue q a")
      (auto simp: sfq_view_def delay_front_def sfq_front_tag_def split: if_splits)
qed

theorem dsfq_receive_delays_witness:
  "\<exists>q'. receiveSPacket_InsertBack ((DSFQ_pkt 2)\<lparr>getLengths := (\<lambda>_. 6)\<rparr>) demo_sfq = Inr q' \<and>
     sfq_next_tag q' 1 = 13"
proof -
  let ?s = "(DSFQ_pkt 2)\<lparr>getLengths := (\<lambda>_. 6)\<rparr>"
  have "getAppNum ?s \<le> MAX_APP" "(0::int) \<le> 1" "1 < getAppNum ?s"
    by (simp_all add: DSFQ_pkt_def MAX_APP_def)
  from dsfq_receive_delays [OF this, of demo_sfq] obtain q' where
    "receiveSPacket_InsertBack ?s demo_sfq = Inr q'"
    "sfq_next_tag q' 1 = sfq_next_tag demo_sfq 1 + getLengths ?s 1 / weight demo_sfq 1" by blast
  moreover have "sfq_next_tag demo_sfq 1 = 10" "weight demo_sfq 1 = 2"
    by (simp_all add: demo_sfq_def SFQ_new_def sfq_next_tag_def sfq_queue_def sfq_setWeights_def)
  ultimately show ?thesis by simp
qed

end
