(* ===== verification/Ssfq.thy ===== *)
theory Ssfq
  imports SfqFair
begin

text \<open>
  \<^verbatim>\<open>scheduler/SFQ/SSFQ.cc\<close>: SFQ that splits a request larger than
  \<^verbatim>\<open>MAX_SUBREQ_SIZE\<close> into sub-requests, schedules those, and returns the request
  when the last of them completes. A request that is not split is queued under
  its identity times \<^verbatim>\<open>RID_OFFSET\<close>; its entry in \<^verbatim>\<open>reqList\<close> is the same object,
  so the entry carries the changed identity. \<^verbatim>\<open>popOsQ\<close> erases the entry of \<^verbatim>\<open>reqList\<close> and
  then reads the request from the freed node, so the call that should return a request
  ends in \<open>UseAfterFree\<close>. (The scheduler factory has no branch for SSFQ.)
\<close>

record ssfq = "gPacket sfq" +
  subReqNum :: "int \<Rightarrow> int option"
  reqList :: "int \<Rightarrow> gPacket option"
  maxSubReqSize :: int


text \<open>\<^verbatim>\<open>std::map::insert\<close> does not replace an entry.\<close>

definition map_insert :: "'k \<Rightarrow> 'v \<Rightarrow> ('k \<Rightarrow> 'v option) \<Rightarrow> ('k \<Rightarrow> 'v option)" where
  "map_insert k v m = (case m k of None \<Rightarrow> m(k := Some v) | Some _ \<Rightarrow> m)"

definition ssfq_subreq :: "gPacket \<Rightarrow> int \<Rightarrow> int \<Rightarrow> int \<Rightarrow> gPacket" where
  "ssfq_subreq pkt offset i sz =
     new_gPacket\<lparr>getKind := getKind pkt,
       getID := getID pkt * RID_OFFSET + i,
       getLowoffset := offset smod LOWOFFSET_RANGE,
       getHighoffset := offset sdiv LOWOFFSET_RANGE,
       getRead := getRead pkt, getFileId := getFileId pkt, getSubID := getSubID pkt,
       getApp := getApp pkt, getClientID := getClientID pkt, getDsID := getDsID pkt,
       getSize := sz\<rparr>"

function ssfq_subreqs :: "gPacket \<Rightarrow> int \<Rightarrow> int \<Rightarrow> int \<Rightarrow> gPacket list" where
  "ssfq_subreqs pkt sz offset i =
    (if sz > 0 then
       if sz > MAX_SUBREQ_SIZE
       then ssfq_subreq pkt offset i MAX_SUBREQ_SIZE #
            ssfq_subreqs pkt (sz - MAX_SUBREQ_SIZE) (offset + MAX_SUBREQ_SIZE) (i + 1)
       else ssfq_subreq pkt offset i sz # ssfq_subreqs pkt 0 offset (i + 1)
     else [])"
  by pat_completeness auto
termination by (relation "measure (\<lambda>(pkt, sz, offset, i). nat sz)") (auto simp: MAX_SUBREQ_SIZE_def)

declare ssfq_subreqs.simps [simp del]

definition ssfq_num :: "int \<Rightarrow> int" where
  "ssfq_num sz = (let num = sz sdiv MAX_SUBREQ_SIZE
                  in if sz smod MAX_SUBREQ_SIZE \<noteq> 0 then num + 1 else num)"

definition ssfq_pushWaitQ :: "gPacket \<Rightarrow> ssfq \<Rightarrow> ssfq res" where
  "ssfq_pushWaitQ pkt q =
    (let fresh = (reqList q (getID pkt) = None);
         q = q\<lparr>reqList := map_insert (getID pkt) pkt (reqList q)\<rparr>
     in if getSize pkt > MAX_SUBREQ_SIZE then
          let offset = getLowoffset pkt + getHighoffset pkt * LOWOFFSET_RANGE;
              q = q\<lparr>subReqNum := map_insert (getID pkt) (ssfq_num (getSize pkt)) (subReqNum q)\<rparr>
          in run_res sfq_pushWaitQ (ssfq_subreqs pkt (getSize pkt) offset 0) q
        else
          let pkt' = pkt\<lparr>getID := getID pkt * RID_OFFSET\<rparr>;
              q = q\<lparr>subReqNum := map_insert (getID pkt) (-10) (subReqNum q),
                    reqList := (if fresh then (reqList q)(getID pkt := Some pkt') else reqList q)\<rparr>
          in sfq_pushWaitQ pkt' q)"



section \<open>The split\<close>

definition ssfq_cuts :: "int \<Rightarrow> nat" where
  "ssfq_cuts sz = nat ((sz + MAX_SUBREQ_SIZE - 1) div MAX_SUBREQ_SIZE)"

lemma ssfq_cuts_step:
  "sz > MAX_SUBREQ_SIZE \<Longrightarrow> ssfq_cuts sz = Suc (ssfq_cuts (sz - MAX_SUBREQ_SIZE))"
proof -
  assume a: "sz > MAX_SUBREQ_SIZE"
  have "(sz + MAX_SUBREQ_SIZE - 1) div MAX_SUBREQ_SIZE
      = (sz - 1) div MAX_SUBREQ_SIZE + 1"
    by (simp add: MAX_SUBREQ_SIZE_def)
  with a show ?thesis by (simp add: ssfq_cuts_def MAX_SUBREQ_SIZE_def nat_add_distrib)
qed

lemma ssfq_cuts_small: "0 < sz \<Longrightarrow> sz \<le> MAX_SUBREQ_SIZE \<Longrightarrow> ssfq_cuts sz = 1"
  by (simp add: ssfq_cuts_def MAX_SUBREQ_SIZE_def)

lemma ssfq_subreqs_closed:
  "0 < sz \<Longrightarrow> ssfq_subreqs pkt sz offset i =
     map (\<lambda>k. ssfq_subreq pkt (offset + int k * MAX_SUBREQ_SIZE) (i + int k)
            (min MAX_SUBREQ_SIZE (sz - int k * MAX_SUBREQ_SIZE))) [0..<ssfq_cuts sz]"
proof (induction pkt sz offset i rule: ssfq_subreqs.induct)
  case (1 pkt sz offset i)
  show ?case
  proof (cases "sz > MAX_SUBREQ_SIZE")
    case True
    with 1 have IH: "ssfq_subreqs pkt (sz - MAX_SUBREQ_SIZE) (offset + MAX_SUBREQ_SIZE) (i + 1) =
      map (\<lambda>k. ssfq_subreq pkt (offset + MAX_SUBREQ_SIZE + int k * MAX_SUBREQ_SIZE) (i + 1 + int k)
            (min MAX_SUBREQ_SIZE (sz - MAX_SUBREQ_SIZE - int k * MAX_SUBREQ_SIZE)))
        [0..<ssfq_cuts (sz - MAX_SUBREQ_SIZE)]" by (simp add: MAX_SUBREQ_SIZE_def)
    from True 1(3) show ?thesis
      unfolding ssfq_cuts_step [OF True] ssfq_subreqs.simps [of pkt sz] IH
      by (simp add: map_upt_Suc algebra_simps del: upt_Suc)
  next
    case False
    with 1(3) show ?thesis
      by (simp add: ssfq_cuts_small ssfq_subreqs.simps)
  qed
qed

lemma ssfq_num_cuts: "0 < sz \<Longrightarrow> ssfq_num sz = int (ssfq_cuts sz)"
proof -
  assume sz: "0 < sz"
  have M: "0 < MAX_SUBREQ_SIZE" by (simp add: MAX_SUBREQ_SIZE_def)
  have "0 \<le> sz div MAX_SUBREQ_SIZE" using sz M by (simp add: pos_imp_zdiv_nonneg_iff)
  with sz M show ?thesis
    by (simp add: ssfq_num_def ssfq_cuts_def ceil_div sdiv_nonneg smod_nonneg Let_def)
qed

lemma ssfq_cut_sum:
  "0 < sz \<Longrightarrow> (\<Sum>k\<leftarrow>[0..<ssfq_cuts sz]. min MAX_SUBREQ_SIZE (sz - int k * MAX_SUBREQ_SIZE)) = sz"
proof (induction "ssfq_cuts sz" arbitrary: sz)
  case 0
  from 0(1) [symmetric] 0(2) show ?case
    using ssfq_cuts_step [of sz] ssfq_cuts_small [of sz] by linarith
next
  case (Suc n)
  show ?case
  proof (cases "sz > MAX_SUBREQ_SIZE")
    case True
    from Suc(1) [of "sz - MAX_SUBREQ_SIZE"] Suc(2) True
    have "(\<Sum>k\<leftarrow>[0..<ssfq_cuts (sz - MAX_SUBREQ_SIZE)]. min MAX_SUBREQ_SIZE
      (sz - MAX_SUBREQ_SIZE - int k * MAX_SUBREQ_SIZE)) = sz - MAX_SUBREQ_SIZE"
      by (simp add: ssfq_cuts_step)
    with True show ?thesis
      by (simp add: ssfq_cuts_step map_upt_Suc algebra_simps del: upt_Suc)
  next
    case False
    with Suc(3) show ?thesis by (simp add: ssfq_cuts_small)
  qed
qed

lemma ssfq_cut_bounds:
  assumes "0 < sz" "k < ssfq_cuts sz"
  shows "0 < min MAX_SUBREQ_SIZE (sz - int k * MAX_SUBREQ_SIZE)"
proof -
  from assms have "int k < (sz + MAX_SUBREQ_SIZE - 1) div MAX_SUBREQ_SIZE"
    by (simp add: ssfq_cuts_def)
  then have "int k * MAX_SUBREQ_SIZE < sz" by (simp add: MAX_SUBREQ_SIZE_def)
  then show ?thesis by (simp add: MAX_SUBREQ_SIZE_def)
qed

section \<open>Collecting the sub-requests\<close>






section \<open>Properties\<close>

text \<open>
  The split of SSFQ is exact. For a request of positive size at a non-negative
  offset the loop creates as many sub-requests as \<^verbatim>\<open>pushWaitQ\<close> records; their sizes
  are positive, at most \<^verbatim>\<open>MAX_SUBREQ_SIZE\<close> and add up to the size of the request; the
  \<open>k\<close>-th has identity \<open>getID * RID_OFFSET + k\<close> and starts where the first \<open>k\<close> end.
\<close>

theorem ssfq_split_exact:
  assumes "0 < getSize pkt" "0 \<le> offset"
  defines "subs \<equiv> ssfq_subreqs pkt (getSize pkt) offset 0"
  shows "int (length subs) = ssfq_num (getSize pkt) \<and>
    sum_list (map getSize subs) = getSize pkt \<and>
    (\<forall>k<length subs. 0 < getSize (subs ! k) \<and> getSize (subs ! k) \<le> MAX_SUBREQ_SIZE \<and>
       getID (subs ! k) = getID pkt * RID_OFFSET + int k \<and>
       getApp (subs ! k) = getApp pkt \<and>
       getHighoffset (subs ! k) * LOWOFFSET_RANGE + getLowoffset (subs ! k)
         = offset + int k * MAX_SUBREQ_SIZE)"
proof (intro conjI allI impI)
  have s: "subs = map (\<lambda>k. ssfq_subreq pkt (offset + int k * MAX_SUBREQ_SIZE) (int k)
            (min MAX_SUBREQ_SIZE (getSize pkt - int k * MAX_SUBREQ_SIZE))) [0..<ssfq_cuts (getSize pkt)]"
    unfolding subs_def ssfq_subreqs_closed [OF assms(1)] by simp
  show "int (length subs) = ssfq_num (getSize pkt)"
    using assms(1) by (simp add: s ssfq_num_cuts)
  have "map getSize subs = map (\<lambda>k. min MAX_SUBREQ_SIZE (getSize pkt - int k * MAX_SUBREQ_SIZE))
      [0..<ssfq_cuts (getSize pkt)]" by (simp add: s ssfq_subreq_def)
  with ssfq_cut_sum [OF assms(1)] show "sum_list (map getSize subs) = getSize pkt" by simp
  fix k assume k: "k < length subs"
  with s have nth: "subs ! k = ssfq_subreq pkt (offset + int k * MAX_SUBREQ_SIZE) (int k)
            (min MAX_SUBREQ_SIZE (getSize pkt - int k * MAX_SUBREQ_SIZE))" by simp
  have "k < ssfq_cuts (getSize pkt)" using k s by simp
  from ssfq_cut_bounds [OF assms(1) this] nth show "0 < getSize (subs ! k)"
    by (simp add: ssfq_subreq_def)
  show "getSize (subs ! k) \<le> MAX_SUBREQ_SIZE" "getID (subs ! k) = getID pkt * RID_OFFSET + int k"
    "getApp (subs ! k) = getApp pkt"
    unfolding nth by (simp_all add: ssfq_subreq_def)
  have "0 \<le> offset + int k * MAX_SUBREQ_SIZE" using assms(2) by (simp add: MAX_SUBREQ_SIZE_def)
  then show "getHighoffset (subs ! k) * LOWOFFSET_RANGE + getLowoffset (subs ! k)
         = offset + int k * MAX_SUBREQ_SIZE"
    unfolding nth ssfq_subreq_def by (simp add: sdiv_nonneg smod_nonneg LOWOFFSET_RANGE_def)
qed

theorem ssfq_split_exact_witness:
  "length (ssfq_subreqs (demo_pkt 1 0 300000) 300000 0 0) = 3 \<and>
   sum_list (map getSize (ssfq_subreqs (demo_pkt 1 0 300000) 300000 0 0)) = 300000"
proof -
  have "0 < getSize (demo_pkt 1 0 300000)" by (simp add: demo_pkt_def)
  from ssfq_split_exact [OF this, of 0]
  have "int (length (ssfq_subreqs (demo_pkt 1 0 300000) 300000 0 0)) = ssfq_num 300000"
    "sum_list (map getSize (ssfq_subreqs (demo_pkt 1 0 300000) 300000 0 0)) = 300000"
    by (simp_all add: demo_pkt_def)
  moreover have "ssfq_num 300000 = 3" by (simp add: ssfq_num_cuts ssfq_cuts_def MAX_SUBREQ_SIZE_def)
  ultimately show ?thesis by simp
qed




end
