(* ===== verification/Edf.thy ===== *)
theory Edf
  imports Fifo
begin

text \<open>
  \<^verbatim>\<open>scheduler/EDF\<close>: a FIFO whose \<^verbatim>\<open>pushWaitQ\<close> keeps the wait queue ordered by the
  deadline \<^verbatim>\<open>risetime + QoSDelay[app]\<close>, earliest first; requests with equal
  deadlines keep the order of their arrival. \<^verbatim>\<open>processParameters\<close> reads groups
  \<^verbatim>\<open><id delay>\<close> with \<^verbatim>\<open>sscanf\<close>; the model takes the list of the groups read
  (whose ids are to be below \<^verbatim>\<open>MAX_APP\<close>, the code does not check it).
\<close>

record 'p edf = "'p fifo" +
  QoSDelay :: "int \<Rightarrow> real"

definition edf_processParameters :: "(int \<times> real) list \<Rightarrow> (int \<Rightarrow> real) \<Rightarrow> (int \<Rightarrow> real)" where
  "edf_processParameters groups delays = fold (\<lambda>(i, delay) d. d(i := delay)) groups delays"

text \<open>The array is not initialised: \<open>mem\<close> is what the memory holds before.\<close>

definition EDF_new :: "int \<Rightarrow> int \<Rightarrow> int \<Rightarrow> (int \<times> real) list \<Rightarrow> (int \<Rightarrow> real) \<Rightarrow> 'p edf" where
  "EDF_new pid deg ttlapps alg_param mem =
     \<lparr> myID = pid, degree = deg, appNum = ttlapps, waitQ = [], osQ = [],
       QoSDelay = edf_processParameters alg_param mem \<rparr>"

definition EDF_new_delays :: "int \<Rightarrow> int \<Rightarrow> int \<Rightarrow> (int \<Rightarrow> real) \<Rightarrow> (int \<Rightarrow> real) \<Rightarrow> 'p edf" where
  "EDF_new_delays pid deg ttlapps delay mem =
     \<lparr> myID = pid, degree = deg, appNum = ttlapps, waitQ = [], osQ = [],
       QoSDelay = (\<lambda>i. if 0 \<le> i \<and> i < ttlapps then delay i else mem i) \<rparr>"

definition edf_deadline :: "(int \<Rightarrow> real) \<Rightarrow> 'b gPacket_scheme \<Rightarrow> real" where
  "edf_deadline delays p = getRisetime p + delays (getApp p)"

text \<open>The loop: insert before the first packet with a later deadline, else at the back.\<close>

fun edf_insert ::
  "(int \<Rightarrow> real) \<Rightarrow> 'b gPacket_scheme \<Rightarrow> 'b gPacket_scheme list \<Rightarrow> 'b gPacket_scheme list" where
  "edf_insert delays p [] = [p]"
| "edf_insert delays p (x # xs) =
     (if edf_deadline delays p < edf_deadline delays x then p # x # xs
      else x # edf_insert delays p xs)"

definition edf_pushWaitQ ::
  "'b gPacket_scheme \<Rightarrow> ('b gPacket_scheme, 'z) edf_scheme \<Rightarrow>
   ('b gPacket_scheme, 'z) edf_scheme res" where
  "edf_pushWaitQ p q =
     (if 0 \<le> getApp p \<and> getApp p < MAX_APP
      then Inr (q\<lparr>waitQ := edf_insert (QoSDelay q) p (waitQ q)\<rparr>)
      else Inl (OutOfBounds ''QoSDelay''))"

fun edf_count_within :: "(int \<Rightarrow> real) \<Rightarrow> real \<Rightarrow> 'b gPacket_scheme list \<Rightarrow> int" where
  "edf_count_within delays deadline [] = 0"
| "edf_count_within delays deadline (x # xs) =
     (if edf_deadline delays x < deadline then 1 + edf_count_within delays deadline xs else 0)"

definition edf_getNumReqsInWaitQWithinDeadline ::
  "real \<Rightarrow> ('b gPacket_scheme, 'z) edf_scheme \<Rightarrow> int" where
  "edf_getNumReqsInWaitQWithinDeadline deadline q =
     edf_count_within (QoSDelay q) deadline (waitQ q)"

section \<open>The order of the wait queue\<close>

definition edf_sorted :: "('b gPacket_scheme, 'z) edf_scheme \<Rightarrow> bool" where
  "edf_sorted q \<longleftrightarrow> sorted (map (edf_deadline (QoSDelay q)) (waitQ q))"

lemma edf_insert_mset: "mset (edf_insert d p xs) = add_mset p (mset xs)"
  by (induction xs) auto

lemma edf_insert_set: "set (edf_insert d p xs) = insert p (set xs)"
  by (induction xs) auto

lemma edf_insert_sorted:
  "sorted (map (edf_deadline d) xs) \<Longrightarrow> sorted (map (edf_deadline d) (edf_insert d p xs))"
  by (induction xs) (auto simp: edf_insert_set)

text \<open>The position: after every packet whose deadline is not later, before the later ones.\<close>

lemma edf_insert_position:
  "sorted (map (edf_deadline d) xs) \<Longrightarrow>
   edf_insert d p xs =
     filter (\<lambda>x. edf_deadline d x \<le> edf_deadline d p) xs @ [p] @
     filter (\<lambda>x. edf_deadline d p < edf_deadline d x) xs"
proof (induction xs)
  case (Cons x xs)
  show ?case
  proof (cases "edf_deadline d p < edf_deadline d x")
    case True
    with Cons.prems have "\<forall>y\<in>set (x # xs). edf_deadline d p < edf_deadline d y" by fastforce
    then have "filter (\<lambda>y. edf_deadline d y \<le> edf_deadline d p) (x # xs) = []"
      and "filter (\<lambda>y. edf_deadline d p < edf_deadline d y) (x # xs) = x # xs"
      by (auto simp: filter_empty_conv filter_id_conv)
    with True show ?thesis by simp
  next
    case False
    with Cons show ?thesis by auto
  qed
qed simp

lemma edf_count_within_sorted:
  "sorted (map (edf_deadline d) xs) \<Longrightarrow>
   edf_count_within d t xs = int (length (filter (\<lambda>x. edf_deadline d x < t) xs))"
proof (induction xs)
  case (Cons x xs)
  show ?case
  proof (cases "edf_deadline d x < t")
    case True
    with Cons show ?thesis by simp
  next
    case False
    with Cons.prems have "\<forall>y\<in>set (x # xs). \<not> edf_deadline d y < t" by fastforce
    then have "filter (\<lambda>y. edf_deadline d y < t) (x # xs) = []" by (simp add: filter_empty_conv)
    with False show ?thesis by simp
  qed
qed simp

lemma edf_push_sorted: "edf_sorted q \<Longrightarrow> edf_pushWaitQ p q = Inr q' \<Longrightarrow> edf_sorted q'"
  by (auto simp: edf_pushWaitQ_def edf_sorted_def edf_insert_sorted split: if_splits)

lemma edf_dispatch_sorted: "edf_sorted q \<Longrightarrow> fifo_dispatchNext q = (r, q') \<Longrightarrow> edf_sorted q'"
  by (auto simp: fifo_dispatchNext_def edf_sorted_def split: if_splits list.splits)

lemma edf_pop_sorted: "edf_sorted q \<Longrightarrow> fifo_popOsQ i q = (r, q') \<Longrightarrow> edf_sorted q'"
  by (auto simp: fifo_popOsQ_def edf_sorted_def split: option.splits)

section \<open>The contract\<close>

abbreviation "edf_push_op \<equiv> \<lambda>(now::real) p q. edf_pushWaitQ p q"

interpretation ef: bounded_scheduler edf_push_op fifo_disp_op fifo_pop_op
  pkt_key fifo_waiting fifo_outstanding edf_sorted degree
proof unfold_locales
qed (auto simp: edf_pushWaitQ_def edf_insert_mset fifo_abs fifo_cases fifo_dispatchNext_def
      fifo_popOsQ_def edf_push_sorted edf_insert_sorted edf_sorted_def
      dest: erase_first_mset
      split: list.splits if_splits option.splits)

section \<open>Properties\<close>

text \<open>
  Claim C17: EDF dispatches earliest deadline first. After any sequence of calls on a
  new EDF queue, the wait queue is ordered by deadline, the packet that
  \<^verbatim>\<open>dispatchNext\<close> hands out has a deadline that no waiting packet undercuts, and
  \<^verbatim>\<open>getNumReqsInWaitQWithinDeadline\<close>, which stops at the first later deadline,
  counts all waiting packets with a deadline before the bound.
\<close>

theorem edf_dispatches_earliest:
  fixes p :: "'b gPacket_scheme"
  assumes "run_res ef.step evs (EDF_new i d n ws mem, [], [], []) = Inr (q, ps, ds, cs)"
  shows "edf_sorted q \<and>
    (\<forall>p q'. fifo_dispatchNext q = (Some p, q') \<longrightarrow>
      (\<forall>x\<in>set (waitQ q). edf_deadline (QoSDelay q) p \<le> edf_deadline (QoSDelay q) x)) \<and>
    edf_getNumReqsInWaitQWithinDeadline t q =
      int (length (filter (\<lambda>x. edf_deadline (QoSDelay q) x < t) (waitQ q)))"
proof -
  have "edf_sorted (EDF_new i d n ws mem)" by (simp add: edf_sorted_def EDF_new_def)
  from ef.conservation(1) [OF this assms] have "edf_sorted q" .
  then show ?thesis
    by (auto simp: edf_sorted_def edf_getNumReqsInWaitQWithinDeadline_def edf_count_within_sorted
        fifo_dispatch_Some)
qed

theorem edf_dispatches_earliest_witness:
  "\<exists>q ps ds cs. run_res ef.step
      [Push 0 (demo_pkt 1 0 5), Push 0 (demo_pkt 2 1 5), Push 0 (demo_pkt 3 0 5)]
      (EDF_new 0 1 2 [(0, 9), (1, 2)] (\<lambda>_. 0), [], [], []) = Inr (q, ps, ds, cs) \<and>
    map getID (waitQ q) = [2, 1, 3] \<and> edf_sorted q \<and>
    edf_getNumReqsInWaitQWithinDeadline 5 q =
      int (length (filter (\<lambda>x. edf_deadline (QoSDelay q) x < 5) (waitQ q)))"
proof -
  define es where "es = [Push 0 (demo_pkt 1 0 5), Push 0 (demo_pkt 2 1 5), Push 0 (demo_pkt 3 0 5)]"
  obtain q ps ds cs where r: "run_res ef.step es
      (EDF_new 0 1 2 [(0, 9), (1, 2)] (\<lambda>_. 0), [], [], []) = Inr (q, ps, ds, cs)"
    "map getID (waitQ q) = [2, 1, 3]"
    by (simp add: es_def EDF_new_def edf_processParameters_def edf_pushWaitQ_def edf_deadline_def
        demo_pkt_simps MAX_APP_def)
  from edf_dispatches_earliest [OF r(1), of 5] r show ?thesis unfolding es_def by metis
qed

text \<open>
  The operation \<^verbatim>\<open>pushWaitQ\<close> of EDF is a stable insertion. Into an ordered wait queue the new
  packet goes after every packet whose deadline is not later and before every
  packet with a later one, and nothing else moves; so requests of one application
  that arrive in order of their rise times keep their order.
\<close>

theorem edf_push_stable:
  assumes "edf_sorted q" "edf_pushWaitQ p q = Inr q'"
  shows "waitQ q' =
     filter (\<lambda>x. edf_deadline (QoSDelay q) x \<le> edf_deadline (QoSDelay q) p) (waitQ q) @ [p] @
     filter (\<lambda>x. edf_deadline (QoSDelay q) p < edf_deadline (QoSDelay q) x) (waitQ q) \<and>
     osQ q' = osQ q \<and> QoSDelay q' = QoSDelay q"
  using assms by (auto simp: edf_sorted_def edf_pushWaitQ_def edf_insert_position split: if_splits)

theorem edf_push_stable_witness:
  "\<exists>q'. edf_pushWaitQ (demo_pkt 7 0 5) (EDF_new 0 1 2 [] (\<lambda>_. 1)) = Inr q' \<and>
     waitQ q' = [demo_pkt 7 0 5]"
proof -
  have s: "edf_sorted (EDF_new 0 1 2 [] (\<lambda>_. 1))" by (simp add: edf_sorted_def EDF_new_def)
  obtain q' where p: "edf_pushWaitQ (demo_pkt 7 0 5) (EDF_new 0 1 2 [] (\<lambda>_. 1)) = Inr q'"
    by (simp add: edf_pushWaitQ_def demo_pkt_simps MAX_APP_def)
  from edf_push_stable [OF s p] p show ?thesis by (auto simp: EDF_new_def)
qed

end
