(* ===== verification/Dta.thy ===== *)
theory Dta
  imports Edf
begin

text \<open>
  \<^verbatim>\<open>scheduler/DTA\<close>: the deadline-aware scheduler for striped requests. A request
  consists of sub-requests on several data servers; each server has an EDF queue
  with all its sub-requests and a FIFO queue with those of requests that lag
  behind. A sub-request may sit in both: \<^verbatim>\<open>waitingSubreqs\<close> says whether it still
  waits, entries of the queues that no longer do are stale and are dropped when
  they are met. The queues have degree -1; the degree of the scheduler bounds the
  sub-requests outstanding on each server.
\<close>

record dta_request =
  rq_id :: int
  deadline :: real
  waiting_ctr :: int
  total_ctr :: int
  serving_ctr :: int
  served_ctr :: int
  waiting_subreqs :: "int \<Rightarrow> int"

record dta = iqueue +
  dsNum :: int
  p_lag :: real
  qos_delays :: "int \<Rightarrow> real"
  degrees :: "int \<Rightarrow> int"
  dta_reqList :: "int \<Rightarrow> dta_request option"
  waitingSubreqs :: "int \<Rightarrow> gPacket option"
  dispatchedSubreqs :: "int \<Rightarrow> gPacket option"
  edfQ :: "int \<Rightarrow> gPacket edf"
  lrQ :: "int \<Rightarrow> gPacket fifo"
  last_fin_time :: "int \<Rightarrow> real"
  fin_int :: "int \<Rightarrow> real"
  int_weight :: real
  service_time :: "int \<Rightarrow> real"
  svc_weight :: real

definition new_dta_request :: "int \<Rightarrow> real \<Rightarrow> dta_request" where
  "new_dta_request rid dl =
    \<lparr> rq_id = to_int32 rid, deadline = dl, waiting_ctr = 0, total_ctr = 0, serving_ctr = 0,
      served_ctr = 0, waiting_subreqs = (\<lambda>_. -1) \<rparr>"

text \<open>
  \<^verbatim>\<open>processParameters\<close> reads the lag, the number of servers and the delays with
  \<^verbatim>\<open>sscanf\<close>, at most one delay per application; the model takes the values read.
\<close>

definition dta_processParameters :: "int \<Rightarrow> real list \<Rightarrow> (int \<Rightarrow> real) \<Rightarrow> (int \<Rightarrow> real)" where
  "dta_processParameters n delays mem =
     (\<lambda>i. if 0 \<le> i \<and> i < n \<and> nat i < length delays then delays ! nat i else mem i)"

definition DTA_new ::
  "int \<Rightarrow> int \<Rightarrow> int \<Rightarrow> real \<Rightarrow> int \<Rightarrow> real list \<Rightarrow> (int \<Rightarrow> real) \<Rightarrow> dta res" where
  "DTA_new initID deg numapps lag dsnum delays mem =
    (if dsnum > MAX_DS then Inl (OutOfBounds ''edfQ'')
     else if numapps > MAX_APP then Inl (OutOfBounds ''qos_delays'')
     else
       let qd = dta_processParameters numapps delays mem in
       Inr \<lparr> myID = initID, degree = deg, appNum = numapps,
             dsNum = dsnum, p_lag = lag, qos_delays = qd, degrees = (\<lambda>_. 0),
             dta_reqList = (\<lambda>_. None), waitingSubreqs = (\<lambda>_. None), dispatchedSubreqs = (\<lambda>_. None),
             edfQ = (\<lambda>i. EDF_new_delays i (-1) numapps qd mem),
             lrQ = (\<lambda>i. FIFO_new i (-1)),
             last_fin_time = (\<lambda>_. -1), fin_int = (\<lambda>_. 1 / 1000), int_weight = 6 / 10,
             service_time = (\<lambda>_. 1 / 1000), svc_weight = 2 / 10 \<rparr>)"

text \<open>
  \<^verbatim>\<open>refineWaitQ\<close> of both queue classes: a scan that erases the first packet that
  is not in the map, repeated until a scan erases nothing.
\<close>

function dta_refine :: "(int \<Rightarrow> gPacket option) \<Rightarrow> gPacket list \<Rightarrow> gPacket list" where
  "dta_refine m xs =
    (case erase_first (\<lambda>p. m (getID p) = None) xs of
      None \<Rightarrow> xs
    | Some (p, ys) \<Rightarrow> dta_refine m ys)"
  by pat_completeness auto
termination
  by (relation "measure (\<lambda>(m, xs). length xs)") (auto dest!: erase_first_length)

declare dta_refine.simps [simp del]

definition refineWaitQ ::
  "(int \<Rightarrow> gPacket option) \<Rightarrow> (gPacket, 'z) fifo_scheme \<Rightarrow> (gPacket, 'z) fifo_scheme" where
  "refineWaitQ m q = q\<lparr>waitQ := dta_refine m (waitQ q)\<rparr>"

definition dta_rid :: "gPacket \<Rightarrow> int" where
  "dta_rid pkt = (getID pkt sdiv CID_OFFSET) * CID_OFFSET + getSubID pkt"

definition dta_lagged :: "real \<Rightarrow> dta_request \<Rightarrow> bool" where
  "dta_lagged lag req \<longleftrightarrow>
     total_ctr req - serving_ctr req - served_ctr req \<le> trunc_double (of_int (total_ctr req) * lag)"

definition dta_pushWaitQ :: "real \<Rightarrow> gPacket \<Rightarrow> dta \<Rightarrow> dta res" where
  "dta_pushWaitQ now pkt q =
    (let rid = dta_rid pkt; sid = getDsID pkt; pkt = pkt\<lparr>getInterceptiontime := now\<rparr> in
     if \<not> (0 \<le> getApp pkt \<and> getApp pkt < MAX_APP) then Inl (OutOfBounds ''qos_delays'')
     else if \<not> (0 \<le> sid \<and> sid < dsNum q) then Inl (OutOfBounds ''edfQ'')
     else
       let req = (case dta_reqList q rid of
                    None \<Rightarrow> (new_dta_request rid (now + qos_delays q (getApp pkt)))
                              \<lparr>total_ctr := getTotalsubreqs pkt\<rparr>
                  | Some req \<Rightarrow> req)
       in bindR (edf_pushWaitQ pkt (refineWaitQ (waitingSubreqs q) (edfQ q sid))) (\<lambda>eq.
          let req = req\<lparr>waiting_ctr := waiting_ctr req + 1,
                        waiting_subreqs := (waiting_subreqs req)(sid := getID pkt)\<rparr>;
              q = q\<lparr>edfQ := (edfQ q)(sid := eq),
                    dta_reqList := (dta_reqList q)(rid := Some req),
                    waitingSubreqs := (case waitingSubreqs q (getID pkt) of
                        None \<Rightarrow> (waitingSubreqs q)(getID pkt := Some pkt) | Some _ \<Rightarrow> waitingSubreqs q)\<rparr>
          in Inr (if dta_lagged (p_lag q) req
                  then q\<lparr>lrQ := (lrQ q)(sid := fifo_pushWaitQ pkt (lrQ q sid))\<rparr> else q)))"

text \<open>One turn of the loop of \<^verbatim>\<open>dispatchUpdate\<close> that moves a lagging request's slots.\<close>

definition dta_lag_slot ::
  "(int \<Rightarrow> gPacket option) \<Rightarrow> int \<Rightarrow> (dta_request \<times> (int \<Rightarrow> gPacket fifo)) \<Rightarrow>
   (dta_request \<times> (int \<Rightarrow> gPacket fifo)) res" where
  "dta_lag_slot waiting i = (\<lambda>(req, lr).
    let pid = waiting_subreqs req i in
    if pid = -1 then Inr (req, lr)
    else case waiting pid of
           None \<Rightarrow> Inl (NullDeref ''waitingSubreqs'')
         | Some p \<Rightarrow>
             Inr (req\<lparr>waiting_subreqs := (waiting_subreqs req)(i := -1)\<rparr>,
                  lr(getDsID p := fifo_pushWaitQ p (lr (getDsID p)))))"

definition dispatchUpdate :: "gPacket \<Rightarrow> dta \<Rightarrow> dta res" where
  "dispatchUpdate pkt q =
    (let sid = getDsID pkt;
         q = q\<lparr>degrees := (degrees q)(sid := degrees q sid + 1),
               waitingSubreqs := (waitingSubreqs q)(getID pkt := None),
               dispatchedSubreqs := (case dispatchedSubreqs q (getID pkt) of
                   None \<Rightarrow> (dispatchedSubreqs q)(getID pkt := Some pkt)
                 | Some _ \<Rightarrow> dispatchedSubreqs q)\<rparr>;
         rid = to_int32 (dta_rid pkt)
     in case dta_reqList q rid of
          None \<Rightarrow> Inl (NullDeref ''reqList'')
        | Some req \<Rightarrow>
            let req = req\<lparr>waiting_ctr := waiting_ctr req - 1, serving_ctr := serving_ctr req + 1,
                          waiting_subreqs := (waiting_subreqs req)(sid := -1)\<rparr>
            in if dta_lagged (p_lag q) req then
                 bindR (run_res (dta_lag_slot (waitingSubreqs q)) [0..dsNum q - 1] (req, lrQ q))
                   (\<lambda>(req, lr). Inr (q\<lparr>dta_reqList := (dta_reqList q)(rid := Some req), lrQ := lr\<rparr>))
               else Inr (q\<lparr>dta_reqList := (dta_reqList q)(rid := Some req)\<rparr>))"

text \<open>
  The loops of \<^verbatim>\<open>tryToDispatch\<close> that drop stale packets from the front of a queue:
  \<^verbatim>\<open>dispatchNext\<close> and \<^verbatim>\<open>popOsQ\<close> until the front packet waits or the queue is empty.
\<close>

fun dta_skip ::
  "nat \<Rightarrow> (int \<Rightarrow> gPacket option) \<Rightarrow> (gPacket, 'z) fifo_scheme \<Rightarrow> (gPacket, 'z) fifo_scheme option" where
  "dta_skip 0 m q = None"
| "dta_skip (Suc n) m q =
    (case fifo_seeWaitQNext q of
      None \<Rightarrow> Some q
    | Some p \<Rightarrow>
        if m (getID p) \<noteq> None then Some q
        else dta_skip n m (snd (fifo_popOsQ (getID p) (snd (fifo_dispatchNext q)))))"

definition dta_remove_front :: "(gPacket, 'z) fifo_scheme \<Rightarrow> gPacket \<Rightarrow> (gPacket, 'z) fifo_scheme" where
  "dta_remove_front q p = snd (fifo_popOsQ (getID p) (snd (fifo_dispatchNext q)))"

definition dta_send_edf :: "int \<Rightarrow> gPacket \<Rightarrow> dta \<Rightarrow> (gPacket option \<times> dta) res" where
  "dta_send_edf sid pkt q =
     bindR (dispatchUpdate pkt (q\<lparr>edfQ := (edfQ q)(sid := dta_remove_front (edfQ q sid) pkt)\<rparr>))
       (\<lambda>q. Inr (Some pkt, q))"

definition dta_send_lr :: "int \<Rightarrow> gPacket \<Rightarrow> dta \<Rightarrow> (gPacket option \<times> dta) res" where
  "dta_send_lr sid pkt2 q =
     bindR (dispatchUpdate pkt2 (q\<lparr>lrQ := (lrQ q)(sid := dta_remove_front (lrQ q sid) pkt2)\<rparr>))
       (\<lambda>q. Inr (Some pkt2, q))"

text \<open>The deadline of the request is at risk on this server.\<close>

definition dta_urgent :: "real \<Rightarrow> int \<Rightarrow> dta_request \<Rightarrow> dta \<Rightarrow> bool" where
  "dta_urgent now sid req q \<longleftrightarrow>
     deadline req \<le> now + service_time q sid \<or>
     (degrees q sid = degree q - 1 \<and> deadline req \<le> now + service_time q sid + fin_int q sid)"

definition dta_choose :: "real \<Rightarrow> int \<Rightarrow> gPacket \<Rightarrow> dta_request \<Rightarrow> dta \<Rightarrow> (gPacket option \<times> dta) res" where
  "dta_choose now sid pkt req q =
    (if dta_urgent now sid req q then dta_send_edf sid pkt q
     else case dta_skip (Suc (length (waitQ (lrQ q sid)))) (waitingSubreqs q) (lrQ q sid) of
            None \<Rightarrow> Inl (Diverge ''DTA'')
          | Some lq \<Rightarrow>
              let q = q\<lparr>lrQ := (lrQ q)(sid := lq)\<rparr> in
              (case fifo_seeWaitQNext lq of
                 None \<Rightarrow> dta_send_edf sid pkt q
               | Some pkt2 \<Rightarrow> dta_send_lr sid pkt2 q))"

definition tryToDispatch :: "real \<Rightarrow> int \<Rightarrow> dta \<Rightarrow> (gPacket option \<times> dta) res" where
  "tryToDispatch now sid q =
    (if degrees q sid \<ge> degree q \<and> degree q > 0 then Inr (None, q)
     else case dta_skip (Suc (length (waitQ (edfQ q sid)))) (waitingSubreqs q) (edfQ q sid) of
       None \<Rightarrow> Inl (Diverge ''DTA'')
     | Some eq \<Rightarrow>
         let q = q\<lparr>edfQ := (edfQ q)(sid := eq)\<rparr> in
         (case fifo_seeWaitQNext eq of
            None \<Rightarrow> Inr (None, q)
          | Some pkt \<Rightarrow>
              (case dta_reqList q (dta_rid pkt) of
                 None \<Rightarrow> Inl (Abort ''DTA'')
               | Some req \<Rightarrow> dta_choose now sid pkt req q)))"

fun dta_try :: "real \<Rightarrow> int list \<Rightarrow> dta \<Rightarrow> (gPacket option \<times> dta) res" where
  "dta_try now [] q = Inr (None, q)"
| "dta_try now (i # is) q =
    (if \<not> fifo_waitQisEmpty (edfQ q i) \<and> degrees q i < degree q \<and> degree q > 0 then
       bindR (tryToDispatch now i q) (\<lambda>(r, q).
         case r of None \<Rightarrow> dta_try now is q | Some p \<Rightarrow> Inr (Some p, q))
     else dta_try now is q)"

definition dta_dispatchNext :: "real \<Rightarrow> dta \<Rightarrow> (gPacket option \<times> dta) res" where
  "dta_dispatchNext now q = dta_try now [0..dsNum q - 1] q"

definition dta_popOsQ :: "real \<Rightarrow> int \<Rightarrow> dta \<Rightarrow> (gPacket option \<times> dta) res" where
  "dta_popOsQ now pid q =
    (case dispatchedSubreqs q pid of
      None \<Rightarrow> Inl (Abort ''DTA'')
    | Some pkt \<Rightarrow>
        let sid = getDsID pkt;
            q = q\<lparr>dispatchedSubreqs := (dispatchedSubreqs q)(pid := None),
                  degrees := (degrees q)(sid := degrees q sid - 1)\<rparr>;
            rid = to_int32 (dta_rid pkt)
        in case dta_reqList q rid of
             None \<Rightarrow> Inl (Abort ''DTA'')
           | Some req \<Rightarrow>
               let req = req\<lparr>serving_ctr := serving_ctr req - 1, served_ctr := served_ctr req + 1\<rparr>;
                   q = q\<lparr>dta_reqList := (dta_reqList q)(rid :=
                          (if served_ctr req = total_ctr req then None else Some req)),
                         edfQ := (edfQ q)(sid := refineWaitQ (waitingSubreqs q) (edfQ q sid)),
                         lrQ := (lrQ q)(sid := refineWaitQ (waitingSubreqs q) (lrQ q sid)),
                         service_time := (service_time q)(sid :=
                           service_time q sid * (1 - svc_weight q)
                           + (now - getScheduletime pkt) * svc_weight q),
                         fin_int := (if last_fin_time q sid \<noteq> -1 then (fin_int q)(sid :=
                             fin_int q sid * (1 - int_weight q)
                             + (now - last_fin_time q sid) * int_weight q) else fin_int q),
                         last_fin_time := (last_fin_time q)(sid := now)\<rparr>
               in Inr (Some pkt, q))"

definition dta_popOsQ_subid :: "real \<Rightarrow> int \<Rightarrow> int \<Rightarrow> dta \<Rightarrow> (gPacket option \<times> dta) res" where
  "dta_popOsQ_subid now pid subid q = dta_popOsQ now pid q"

definition dta_queryJob :: "int \<Rightarrow> dta \<Rightarrow> gPacket option" where
  "dta_queryJob pid q = dispatchedSubreqs q pid"

definition dta_queryJob_subid :: "int \<Rightarrow> int \<Rightarrow> dta \<Rightarrow> gPacket option" where
  "dta_queryJob_subid pid subid q = dta_queryJob pid q"

section \<open>The two loops over a queue\<close>

lemma dta_refine_filter: "dta_refine m xs = filter (\<lambda>p. m (getID p) \<noteq> None) xs"
proof (induction m xs rule: dta_refine.induct)
  case (1 m xs)
  show ?case
  proof (cases "erase_first (\<lambda>p. m (getID p) = None) xs")
    case None
    then have "filter (\<lambda>p. m (getID p) \<noteq> None) xs = xs"
      by (simp add: erase_first_None filter_id_conv)
    with None show ?thesis by (simp add: dta_refine.simps)
  next
    case (Some a)
    then obtain p ys where s: "erase_first (\<lambda>p. m (getID p) = None) xs = Some (p, ys)" by (cases a) auto
    from erase_first_Some [OF s] obtain us vs where "xs = us @ p # vs" "ys = us @ vs" "m (getID p) = None"
      by blast
    with 1 [OF s refl] s show ?thesis by (subst dta_refine.simps) simp
  qed
qed

lemma refineWaitQ_filter: "waitQ (refineWaitQ m q) = filter (\<lambda>p. m (getID p) \<noteq> None) (waitQ q)"
  by (simp add: refineWaitQ_def dta_refine_filter)

text \<open>The queues of DTA have no degree control and never hold an outstanding packet.\<close>

definition dta_queue_ok :: "int \<Rightarrow> (gPacket, 'z) fifo_scheme \<Rightarrow> bool" where
  "dta_queue_ok sid q \<longleftrightarrow> degree q = -1 \<and> osQ q = [] \<and> (\<forall>p\<in>set (waitQ q). getDsID p = sid)"

lemma dta_remove_front_eq:
  "degree q = -1 \<Longrightarrow> osQ q = [] \<Longrightarrow> waitQ q = p # ps \<Longrightarrow> dta_remove_front q p = q\<lparr>waitQ := ps\<rparr>"
  by (simp add: dta_remove_front_def fifo_dispatchNext_def fifo_popOsQ_def)

lemma dta_skip_dropWhile:
  "degree q = -1 \<Longrightarrow> osQ q = [] \<Longrightarrow> length (waitQ q) < n \<Longrightarrow>
     dta_skip n m q = Some (q\<lparr>waitQ := dropWhile (\<lambda>p. m (getID p) = None) (waitQ q)\<rparr>)"
proof (induction n arbitrary: q)
  case (Suc n)
  show ?case
  proof (cases "waitQ q")
    case Nil
    then show ?thesis by (simp add: fifo_seeWaitQNext_def)
  next
    case (Cons p ps)
    note rm = dta_remove_front_eq [OF Suc.prems(1,2) Cons, unfolded dta_remove_front_def]
    from Suc.IH [of "q\<lparr>waitQ := ps\<rparr>"] Suc.prems Cons rm show ?thesis
      by (auto simp: fifo_seeWaitQNext_def)
  qed
qed simp

section \<open>The invariant\<close>

definition dta_on :: "(int \<Rightarrow> gPacket option) \<Rightarrow> int \<Rightarrow> int set" where
  "dta_on m sid = {i. \<exists>p. m i = Some p \<and> getDsID p = sid}"

definition dta_map_ok :: "int \<Rightarrow> (int \<Rightarrow> gPacket option) \<Rightarrow> bool" where
  "dta_map_ok n m \<longleftrightarrow> finite (dom m) \<and>
     (\<forall>i p. m i = Some p \<longrightarrow> getID p = i \<and> 0 \<le> getDsID p \<and> getDsID p < n)"

definition dta_queues_ok :: "dta \<Rightarrow> bool" where
  "dta_queues_ok q \<longleftrightarrow>
     (\<forall>sid\<in>{0..<dsNum q}. dta_queue_ok sid (edfQ q sid) \<and> dta_queue_ok sid (lrQ q sid)) \<and>
     (\<forall>i p. waitingSubreqs q i = Some p \<longrightarrow> i \<in> getID ` set (waitQ (edfQ q (getDsID p))))"

definition dta_degrees_ok ::
  "int \<Rightarrow> int \<Rightarrow> (int \<Rightarrow> int) \<Rightarrow> (int \<Rightarrow> gPacket option) \<Rightarrow> bool" where
  "dta_degrees_ok n deg ds m \<longleftrightarrow>
     (\<forall>sid\<in>{0..<n}. ds sid = int (card (dta_on m sid)) \<and> (0 < deg \<longrightarrow> ds sid \<le> deg))"

definition dta_inv :: "dta \<Rightarrow> bool" where
  "dta_inv q \<longleftrightarrow> dta_queues_ok q \<and>
     dta_map_ok (dsNum q) (waitingSubreqs q) \<and> dta_map_ok (dsNum q) (dispatchedSubreqs q) \<and>
     dom (waitingSubreqs q) \<inter> dom (dispatchedSubreqs q) = {} \<and>
     dta_degrees_ok (dsNum q) (degree q) (degrees q) (dispatchedSubreqs q)"

lemma dta_on_finite: "dta_map_ok n m \<Longrightarrow> finite (dta_on m sid)"
  by (rule finite_subset [of _ "dom m"]) (auto simp: dta_on_def dta_map_ok_def)

lemma dta_on_insert:
  assumes "m i = None"
  shows "dta_on (m(i := Some p)) sid = (if getDsID p = sid then insert i (dta_on m sid) else dta_on m sid)"
    and "i \<notin> dta_on m sid"
  using assms by (auto simp: dta_on_def split: if_splits)

lemma dta_on_remove:
  assumes "m i = Some p"
  shows "dta_on (m(i := None)) sid = dta_on m sid - {i}"
    and "i \<in> dta_on m sid \<longleftrightarrow> getDsID p = sid"
  using assms by (auto simp: dta_on_def split: if_splits)

lemma dta_map_ok_insert:
  "dta_map_ok n m \<Longrightarrow> getID p = i \<Longrightarrow> 0 \<le> getDsID p \<Longrightarrow> getDsID p < n \<Longrightarrow> dta_map_ok n (m(i := Some p))"
  by (auto simp: dta_map_ok_def)

lemma dta_map_ok_remove: "dta_map_ok n m \<Longrightarrow> dta_map_ok n (m(i := None))"
  by (auto simp: dta_map_ok_def)

lemma mset_dom_insert:
  "finite (dom m) \<Longrightarrow> m i = None \<Longrightarrow> mset_set (dom (m(i := Some p))) = add_mset i (mset_set (dom m))"
  by (simp add: domIff)

lemma mset_dom_remove:
  "finite (dom m) \<Longrightarrow> m i = Some p \<Longrightarrow> mset_set (dom m) = add_mset i (mset_set (dom (m(i := None))))"
proof -
  assume a: "finite (dom m)" "m i = Some p"
  then have "dom m = insert i (dom (m(i := None)))" "i \<notin> dom (m(i := None))" "finite (dom (m(i := None)))"
    by auto
  then show ?thesis by (metis mset_set.insert)
qed

lemma dta_lag_slots_ok:
  assumes "run_res (dta_lag_slot m) is (req, lr) = Inr (req', lr')"
    and "dta_map_ok n m" "\<forall>sid\<in>{0..<n}. dta_queue_ok sid (lr sid)"
  shows "\<forall>sid\<in>{0..<n}. dta_queue_ok sid (lr' sid)"
proof -
  let ?P = "\<lambda>(r::dta_request, l). \<forall>sid\<in>{0..<n}. dta_queue_ok sid (l sid)"
  have step: "?P x \<Longrightarrow> dta_lag_slot m i x = Inr x' \<Longrightarrow> ?P x'" for i x x'
    using assms(2)
    by (auto simp: dta_lag_slot_def dta_queue_ok_def fifo_pushWaitQ_def Let_def
        split: if_splits option.splits prod.splits)
  have "?P (req', lr')"
    by (rule run_res_invariant [where f = "dta_lag_slot m", OF _ _ assms(1)])
      (erule (1) step, use assms(3) in simp)
  then show ?thesis by simp
qed

text \<open>
  \<^verbatim>\<open>dispatchUpdate\<close> moves a waiting packet to the dispatched ones. Its caller has
  just taken the packet out of a queue, so the EDF queue may lack that packet.
\<close>

lemma dispatchUpdate_inv:
  assumes "dispatchUpdate p q = Inr q'" "waitingSubreqs q (getID p) \<noteq> None"
    and "0 \<le> getDsID p" "getDsID p < dsNum q"
    and "\<forall>sid\<in>{0..<dsNum q}. dta_queue_ok sid (edfQ q sid) \<and> dta_queue_ok sid (lrQ q sid)"
    and "\<forall>i x. waitingSubreqs q i = Some x \<and> i \<noteq> getID p \<longrightarrow> i \<in> getID ` set (waitQ (edfQ q (getDsID x)))"
    and "dta_map_ok (dsNum q) (waitingSubreqs q)" "dta_map_ok (dsNum q) (dispatchedSubreqs q)"
    and "dom (waitingSubreqs q) \<inter> dom (dispatchedSubreqs q) = {}"
    and "dta_degrees_ok (dsNum q) (degree q) (degrees q) (dispatchedSubreqs q)"
    and "degrees q (getDsID p) < degree q"
  shows "dta_inv q'" "dsNum q' = dsNum q" "degree q' = degree q"
    and "waitingSubreqs q' = (waitingSubreqs q)(getID p := None)"
    and "dispatchedSubreqs q' = (dispatchedSubreqs q)(getID p := Some p)"
proof -
  let ?w = "(waitingSubreqs q)(getID p := None)" and ?d = "(dispatchedSubreqs q)(getID p := Some p)"
  have fresh: "dispatchedSubreqs q (getID p) = None" using assms(2,9) by auto
  have F: "dsNum q' = dsNum q" "degree q' = degree q" "waitingSubreqs q' = ?w" "dispatchedSubreqs q' = ?d"
    "edfQ q' = edfQ q" "degrees q' = (degrees q)(getDsID p := degrees q (getDsID p) + 1)"
    using assms(1) fresh by (auto simp: dispatchUpdate_def Let_def split: option.splits if_splits)
  have lr: "lrQ q' = lrQ q \<or> (\<exists>r0 r1. run_res (dta_lag_slot ?w) [0..dsNum q - 1] (r0, lrQ q) = Inr (r1, lrQ q'))"
    using assms(1) by (auto simp: dispatchUpdate_def Let_def split: option.splits if_splits)
  have w: "dta_map_ok (dsNum q) ?w" by (rule dta_map_ok_remove [OF assms(7)])
  have d: "dta_map_ok (dsNum q) ?d" by (rule dta_map_ok_insert [OF assms(8) refl assms(3,4)])
  from lr have "\<forall>sid\<in>{0..<dsNum q}. dta_queue_ok sid (lrQ q' sid)"
    using assms(5) dta_lag_slots_ok [OF _ w] by auto
  moreover have "dta_degrees_ok (dsNum q) (degree q) (degrees q') ?d"
    unfolding dta_degrees_ok_def
  proof
    fix sid assume "sid \<in> {0..<dsNum q}"
    with assms(10) have "degrees q sid = int (card (dta_on (dispatchedSubreqs q) sid))"
      "0 < degree q \<longrightarrow> degrees q sid \<le> degree q" unfolding dta_degrees_ok_def by blast+
    then show "degrees q' sid = int (card (dta_on ?d sid)) \<and> (0 < degree q \<longrightarrow> degrees q' sid \<le> degree q)"
      using assms(11) dta_on_insert(1) [where m = "dispatchedSubreqs q" and i = "getID p" and sid = sid and p = p, OF fresh]
        dta_on_insert(2) [where m = "dispatchedSubreqs q" and i = "getID p" and sid = sid, OF fresh]
        dta_on_finite [OF assms(8), of sid] unfolding F by (auto simp: card_insert_if)
  qed
  moreover have "dom ?w \<inter> dom ?d = {}" using assms(9) by auto
  moreover have "\<forall>i x. ?w i = Some x \<longrightarrow> i \<in> getID ` set (waitQ (edfQ q (getDsID x)))"
    using assms(6) by (auto split: if_splits)
  ultimately show "dta_inv q'"
    using assms(5) w d unfolding dta_inv_def dta_queues_ok_def F by simp
  show "dsNum q' = dsNum q" "degree q' = degree q" "waitingSubreqs q' = ?w" "dispatchedSubreqs q' = ?d"
    by (fact F)+
qed

lemma dropWhile_stale:
  assumes "\<forall>i x. m i = Some x \<longrightarrow> getID x = i"
  shows "{i. m i \<noteq> None} \<inter> getID ` set xs \<subseteq> getID ` set (dropWhile (\<lambda>p. m (getID p) = None) xs)"
  by (induction xs) auto

text \<open>After a skip the front packet waits.\<close>

lemma dropWhile_front:
  "dropWhile (\<lambda>p. m (getID p) = None) xs = p # ps \<Longrightarrow> m (getID p) \<noteq> None \<and> p \<in> set xs \<and> set ps \<subseteq> set xs"
  by (metis (mono_tags, lifting) dropWhile_eq_Cons_conv set_dropWhileD list.set_intros subsetI)

lemma dta_queue_ok_drop:
  "dta_queue_ok sid q \<Longrightarrow> set ps \<subseteq> set (waitQ q) \<Longrightarrow> dta_queue_ok sid (q\<lparr>waitQ := ps\<rparr>)"
  by (auto simp: dta_queue_ok_def)

text \<open>
  The state as \<^verbatim>\<open>tryToDispatch\<close> leaves it before it returns or hands over to
  \<^verbatim>\<open>dispatchUpdate\<close>: only stale packets have gone.
\<close>

lemma dta_inv_edf:
  assumes "dta_inv q" "sid \<in> {0..<dsNum q}"
  shows "dta_inv (q\<lparr>edfQ := (edfQ q)(sid := (edfQ q sid)\<lparr>waitQ :=
     dropWhile (\<lambda>p. waitingSubreqs q (getID p) = None) (waitQ (edfQ q sid))\<rparr>)\<rparr>)"
proof -
  let ?ws = "dropWhile (\<lambda>p. waitingSubreqs q (getID p) = None) (waitQ (edfQ q sid))"
  have "set ?ws \<subseteq> set (waitQ (edfQ q sid))" by (auto dest: set_dropWhileD)
  then have ok: "dta_queue_ok sid ((edfQ q sid)\<lparr>waitQ := ?ws\<rparr>)"
    using assms by (auto simp: dta_inv_def dta_queues_ok_def intro: dta_queue_ok_drop)
  have "i \<in> getID ` set ?ws" if "waitingSubreqs q i = Some x" "getDsID x = sid" for i x
  proof -
    have "i \<in> getID ` set (waitQ (edfQ q sid))"
      using assms(1) that by (auto simp: dta_inv_def dta_queues_ok_def)
    with that dropWhile_stale [of "waitingSubreqs q" "waitQ (edfQ q sid)"] assms(1)
    show ?thesis by (auto simp: dta_inv_def dta_map_ok_def)
  qed
  with ok assms(1) show ?thesis by (auto simp: dta_inv_def dta_queues_ok_def)
qed

lemma dta_inv_lr:
  assumes "dta_inv q" "sid \<in> {0..<dsNum q}" "dta_queue_ok sid lq"
  shows "dta_inv (q\<lparr>lrQ := (lrQ q)(sid := lq)\<rparr>)"
  using assms by (auto simp: dta_inv_def dta_queues_ok_def)

definition dta_moved :: "gPacket \<Rightarrow> dta \<Rightarrow> dta \<Rightarrow> bool" where
  "dta_moved p q q' \<longleftrightarrow> dta_inv q' \<and> dsNum q' = dsNum q \<and> degree q' = degree q \<and>
     waitingSubreqs q (getID p) \<noteq> None \<and>
     waitingSubreqs q' = (waitingSubreqs q)(getID p := None) \<and>
     dispatchedSubreqs q' = (dispatchedSubreqs q)(getID p := Some p)"

lemma dta_update_moved:
  assumes "dta_inv q" "sid \<in> {0..<dsNum q}" "degrees q sid < degree q" "degree q > 0"
    and "waitingSubreqs q (getID p) \<noteq> None" "getDsID p = sid"
    and "dispatchUpdate p (q\<lparr>edfQ := (edfQ q)(sid := (edfQ q sid)\<lparr>waitQ := ps\<rparr>), lrQ := lr\<rparr>) = Inr q'"
    and "set (waitQ (edfQ q sid)) \<subseteq> insert p (set ps)" "set ps \<subseteq> set (waitQ (edfQ q sid))"
    and "\<forall>s\<in>{0..<dsNum q}. dta_queue_ok s (lr s)"
  shows "dta_moved p q q'"
proof -
  let ?q = "q\<lparr>edfQ := (edfQ q)(sid := (edfQ q sid)\<lparr>waitQ := ps\<rparr>), lrQ := lr\<rparr>"
  have e: "dta_queue_ok sid ((edfQ q sid)\<lparr>waitQ := ps\<rparr>)"
    using assms(1,2,9) by (auto simp: dta_inv_def dta_queues_ok_def intro: dta_queue_ok_drop)
  have keep: "\<forall>i x. waitingSubreqs ?q i = Some x \<and> i \<noteq> getID p \<longrightarrow>
      i \<in> getID ` set (waitQ (edfQ ?q (getDsID x)))"
  proof (intro allI impI)
    fix i x assume a: "waitingSubreqs ?q i = Some x \<and> i \<noteq> getID p"
    with assms(1) have "i \<in> getID ` set (waitQ (edfQ q (getDsID x)))"
      by (auto simp: dta_inv_def dta_queues_ok_def)
    with a assms(8) show "i \<in> getID ` set (waitQ (edfQ ?q (getDsID x)))" by auto
  qed
  have qs: "\<forall>s\<in>{0..<dsNum ?q}. dta_queue_ok s (edfQ ?q s) \<and> dta_queue_ok s (lrQ ?q s)"
    using assms(1,10) e by (auto simp: dta_inv_def dta_queues_ok_def)
  have rng: "0 \<le> getDsID p" "getDsID p < dsNum ?q" using assms(2,6) by auto
  have w: "waitingSubreqs ?q (getID p) \<noteq> None" using assms(5) by simp
  have m: "dta_map_ok (dsNum ?q) (waitingSubreqs ?q)" "dta_map_ok (dsNum ?q) (dispatchedSubreqs ?q)"
    "dom (waitingSubreqs ?q) \<inter> dom (dispatchedSubreqs ?q) = {}"
    using assms(1) by (simp_all add: dta_inv_def)
  have c: "dta_degrees_ok (dsNum ?q) (degree ?q) (degrees ?q) (dispatchedSubreqs ?q)"
    using assms(1) by (simp add: dta_inv_def)
  have "degrees ?q (getDsID p) < degree ?q" using assms(3,6) by simp
  from dispatchUpdate_inv [OF assms(7) w rng qs keep m c this] assms(5)
  show ?thesis by (simp add: dta_moved_def)
qed

definition dta_front :: "dta \<Rightarrow> (gPacket, 'z) fifo_scheme \<Rightarrow> gPacket list" where
  "dta_front q fq = dropWhile (\<lambda>p. waitingSubreqs q (getID p) = None) (waitQ fq)"

lemma dta_skip_front:
  assumes "dta_queue_ok sid fq"
  shows "dta_skip (Suc (length (waitQ fq))) (waitingSubreqs q) fq = Some (fq\<lparr>waitQ := dta_front q fq\<rparr>)"
  using dta_skip_dropWhile [of fq "Suc (length (waitQ fq))" "waitingSubreqs q"] assms
  by (simp add: dta_queue_ok_def dta_front_def del: dta_skip.simps)

lemma dta_front_Cons:
  "dta_front q fq = p # ps \<Longrightarrow> waitingSubreqs q (getID p) \<noteq> None \<and> p \<in> set (waitQ fq) \<and> set ps \<subseteq> set (waitQ fq)"
  unfolding dta_front_def by (rule dropWhile_front)

lemma dta_send_edf_moved:
  assumes "dta_inv q" "sid \<in> {0..<dsNum q}" "degrees q sid < degree q" "degree q > 0"
    and "waitQ (edfQ q sid) = pkt # ps" "waitingSubreqs q (getID pkt) \<noteq> None"
    and "dta_send_edf sid pkt q = Inr (r, q')"
  shows "r = Some pkt" "dta_moved pkt q q'"
proof -
  have ok: "dta_queue_ok sid (edfQ q sid)" and lr: "\<forall>s\<in>{0..<dsNum q}. dta_queue_ok s (lrQ q s)"
    using assms(1,2) by (auto simp: dta_inv_def dta_queues_ok_def)
  have rm: "dta_remove_front (edfQ q sid) pkt = (edfQ q sid)\<lparr>waitQ := ps\<rparr>"
    by (rule dta_remove_front_eq) (use ok assms(5) in \<open>auto simp: dta_queue_ok_def\<close>)
  from assms(7) rm show "r = Some pkt" by (auto simp: dta_send_edf_def)
  from assms(7) rm have u: "dispatchUpdate pkt
      (q\<lparr>edfQ := (edfQ q)(sid := (edfQ q sid)\<lparr>waitQ := ps\<rparr>), lrQ := lrQ q\<rparr>) = Inr q'"
    by (auto simp: dta_send_edf_def)
  have ds: "getDsID pkt = sid" using ok assms(5) by (auto simp: dta_queue_ok_def)
  show "dta_moved pkt q q'"
    by (rule dta_update_moved [OF assms(1-4,6) ds u _ _ lr]) (use assms(5) in auto)
qed

lemma dta_send_lr_moved:
  assumes "dta_inv q" "sid \<in> {0..<dsNum q}" "degrees q sid < degree q" "degree q > 0"
    and "waitQ (lrQ q sid) = pkt # ps" "waitingSubreqs q (getID pkt) \<noteq> None"
    and "dta_send_lr sid pkt q = Inr (r, q')"
  shows "r = Some pkt" "dta_moved pkt q q'"
proof -
  have ok: "dta_queue_ok sid (lrQ q sid)" and lr: "\<forall>s\<in>{0..<dsNum q}. dta_queue_ok s (lrQ q s)"
    using assms(1,2) by (auto simp: dta_inv_def dta_queues_ok_def)
  have rm: "dta_remove_front (lrQ q sid) pkt = (lrQ q sid)\<lparr>waitQ := ps\<rparr>"
    by (rule dta_remove_front_eq) (use ok assms(5) in \<open>auto simp: dta_queue_ok_def\<close>)
  let ?lr = "(lrQ q)(sid := (lrQ q sid)\<lparr>waitQ := ps\<rparr>)"
  from assms(7) rm show "r = Some pkt" by (auto simp: dta_send_lr_def)
  from assms(7) rm have u: "dispatchUpdate pkt
      (q\<lparr>edfQ := (edfQ q)(sid := (edfQ q sid)\<lparr>waitQ := waitQ (edfQ q sid)\<rparr>), lrQ := ?lr\<rparr>) = Inr q'"
    by (auto simp: dta_send_lr_def)
  have ds: "getDsID pkt = sid" using ok assms(5) by (auto simp: dta_queue_ok_def)
  have "dta_queue_ok sid ((lrQ q sid)\<lparr>waitQ := ps\<rparr>)"
    by (rule dta_queue_ok_drop [OF ok]) (use assms(5) in auto)
  with lr have lr': "\<forall>s\<in>{0..<dsNum q}. dta_queue_ok s (?lr s)" by simp
  show "dta_moved pkt q q'"
    by (rule dta_update_moved [OF assms(1-4,6) ds u _ _ lr']) auto
qed

lemma dta_choose_moved:
  assumes "dta_inv q" "sid \<in> {0..<dsNum q}" "degrees q sid < degree q" "degree q > 0"
    and "waitQ (edfQ q sid) = pkt # ps" "waitingSubreqs q (getID pkt) \<noteq> None"
    and "dta_choose now sid pkt req q = Inr (r, q')"
  shows "\<exists>p. r = Some p \<and> dta_moved p q q' \<and> (dta_urgent now sid req q \<longrightarrow> p = pkt)"
proof (cases "dta_urgent now sid req q")
  case True
  with assms(7) have "dta_send_edf sid pkt q = Inr (r, q')" by (simp add: dta_choose_def)
  from dta_send_edf_moved [OF assms(1-6) this] show ?thesis by blast
next
  case False
  let ?lq = "(lrQ q sid)\<lparr>waitQ := dta_front q (lrQ q sid)\<rparr>"
  let ?q = "q\<lparr>lrQ := (lrQ q)(sid := ?lq)\<rparr>"
  have ok: "dta_queue_ok sid (lrQ q sid)" using assms(1,2) by (auto simp: dta_inv_def dta_queues_ok_def)
  have "set (dta_front q (lrQ q sid)) \<subseteq> set (waitQ (lrQ q sid))"
    unfolding dta_front_def by (auto dest: set_dropWhileD)
  then have inv: "dta_inv ?q" by (intro dta_inv_lr [OF assms(1,2)] dta_queue_ok_drop [OF ok])
  have hyps: "sid \<in> {0..<dsNum ?q}" "degrees ?q sid < degree ?q" "degree ?q > 0" using assms by simp_all
  show ?thesis
  proof (cases "dta_front q (lrQ q sid)")
    case Nil
    with assms(7) False dta_skip_front [OF ok, of q] have s: "dta_send_edf sid pkt ?q = Inr (r, q')"
      by (simp add: dta_choose_def fifo_seeWaitQNext_def del: dta_skip.simps)
    have "waitQ (edfQ ?q sid) = pkt # ps" "waitingSubreqs ?q (getID pkt) \<noteq> None" using assms(5,6) by simp_all
    from dta_send_edf_moved [OF inv hyps this s] False show ?thesis by (auto simp: dta_moved_def)
  next
    case (Cons pkt2 ls)
    with assms(7) False dta_skip_front [OF ok, of q] have s: "dta_send_lr sid pkt2 ?q = Inr (r, q')"
      by (simp add: dta_choose_def fifo_seeWaitQNext_def del: dta_skip.simps)
    have "waitQ (lrQ ?q sid) = pkt2 # ls" "waitingSubreqs ?q (getID pkt2) \<noteq> None"
      using Cons dta_front_Cons [OF Cons] by simp_all
    from dta_send_lr_moved [OF inv hyps this s] False show ?thesis by (auto simp: dta_moved_def)
  qed
qed

lemma tryToDispatch_inv:
  assumes "dta_inv q" "sid \<in> {0..<dsNum q}" "degrees q sid < degree q" "degree q > 0"
    and "tryToDispatch now sid q = Inr (r, q')"
  shows "case r of
      None \<Rightarrow> dta_inv q' \<and> dsNum q' = dsNum q \<and> degree q' = degree q \<and> degrees q' = degrees q \<and>
        waitingSubreqs q' = waitingSubreqs q \<and> dispatchedSubreqs q' = dispatchedSubreqs q \<and>
        waitQ (edfQ q' sid) = []
    | Some p \<Rightarrow> dta_moved p q q' \<and>
        (\<exists>pkt ps req. dta_front q (edfQ q sid) = pkt # ps \<and> dta_reqList q (dta_rid pkt) = Some req \<and>
           (dta_urgent now sid req q \<longrightarrow> p = pkt))"
proof -
  let ?q = "q\<lparr>edfQ := (edfQ q)(sid := (edfQ q sid)\<lparr>waitQ := dta_front q (edfQ q sid)\<rparr>)\<rparr>"
  have ok: "dta_queue_ok sid (edfQ q sid)" using assms(1,2) by (auto simp: dta_inv_def dta_queues_ok_def)
  note sk = dta_skip_front [OF ok, of q]
  have inv: "dta_inv ?q" unfolding dta_front_def by (rule dta_inv_edf [OF assms(1,2)])
  have hyps: "sid \<in> {0..<dsNum ?q}" "degrees ?q sid < degree ?q" "degree ?q > 0" using assms by simp_all
  show ?thesis
  proof (cases "dta_front q (edfQ q sid)")
    case Nil
    with assms(3-5) sk have "r = None" "q' = ?q"
      by (simp_all add: tryToDispatch_def fifo_seeWaitQNext_def del: dta_skip.simps)
    with inv Nil show ?thesis by simp
  next
    case (Cons pkt ps)
    with assms(3-5) sk obtain req where req: "dta_reqList q (dta_rid pkt) = Some req"
      and c: "dta_choose now sid pkt req ?q = Inr (r, q')"
      by (auto simp: tryToDispatch_def fifo_seeWaitQNext_def simp del: dta_skip.simps split: option.splits)
    have "waitQ (edfQ ?q sid) = pkt # ps" "waitingSubreqs ?q (getID pkt) \<noteq> None"
      using Cons dta_front_Cons [OF Cons] by simp_all
    from dta_choose_moved [OF inv hyps this c] Cons req show ?thesis
      by (auto simp: dta_moved_def dta_urgent_def)
  qed
qed

lemma dta_try_inv:
  assumes "dta_inv q" "set is \<subseteq> {0..<dsNum q}" "dta_try now is q = Inr (r, q')"
  shows "case r of
      None \<Rightarrow> dta_inv q' \<and> dsNum q' = dsNum q \<and> degree q' = degree q \<and> degrees q' = degrees q \<and>
        waitingSubreqs q' = waitingSubreqs q \<and> dispatchedSubreqs q' = dispatchedSubreqs q \<and>
        (0 < degree q \<longrightarrow> (\<forall>i\<in>set is. degrees q i < degree q \<longrightarrow> dta_on (waitingSubreqs q) i = {}))
    | Some p \<Rightarrow> dta_moved p q q'"
  using assms
proof (induction "is" arbitrary: q)
  case (Cons i "is")
  have empty: "dta_on (waitingSubreqs x) i = {}" if "dta_inv x" "waitQ (edfQ x i) = []" for x
    using that by (fastforce simp: dta_inv_def dta_queues_ok_def dta_on_def)
  show ?case
  proof (cases "waitQ (edfQ q i) \<noteq> [] \<and> degrees q i < degree q \<and> degree q > 0")
    case False
    then have c: "\<not> (\<not> fifo_waitQisEmpty (edfQ q i) \<and> degrees q i < degree q \<and> degree q > 0)"
      by (simp add: fifo_waitQisEmpty_def)
    with Cons.prems have "dta_try now is q = Inr (r, q')" by (simp only: dta_try.simps if_False)
    from Cons.IH [OF Cons.prems(1) _ this] Cons.prems(2) False empty [OF Cons.prems(1)]
    show ?thesis by (cases r) auto
  next
    case True
    then have c: "\<not> fifo_waitQisEmpty (edfQ q i) \<and> degrees q i < degree q \<and> degree q > 0"
      by (simp add: fifo_waitQisEmpty_def)
    with Cons.prems(3) obtain r1 q1 where t: "tryToDispatch now i q = Inr (r1, q1)"
      and rest: "(case r1 of None \<Rightarrow> dta_try now is q1 | Some p \<Rightarrow> Inr (Some p, q1)) = Inr (r, q')"
      by auto
    have "i \<in> {0..<dsNum q}" using Cons.prems(2) by simp
    note T = tryToDispatch_inv [OF Cons.prems(1) this _ _ t]
    show ?thesis
    proof (cases r1)
      case (Some p)
      with T c rest show ?thesis by auto
    next
      case None
      with T c have q1: "dta_inv q1" "dsNum q1 = dsNum q" "degree q1 = degree q" "degrees q1 = degrees q"
        "waitingSubreqs q1 = waitingSubreqs q" "dispatchedSubreqs q1 = dispatchedSubreqs q"
        "waitQ (edfQ q1 i) = []" by auto
      from None rest have "dta_try now is q1 = Inr (r, q')" by simp
      from Cons.IH [OF q1(1) _ this] Cons.prems(2) q1 empty [OF q1(1,7)]
      show ?thesis by (cases r) (auto simp: dta_moved_def)
    qed
  qed
qed simp

lemma dta_dispatch_inv:
  assumes "dta_inv q" "dta_dispatchNext now q = Inr (r, q')"
  shows "case r of
      None \<Rightarrow> dta_inv q' \<and> dsNum q' = dsNum q \<and> degree q' = degree q \<and> degrees q' = degrees q \<and>
        waitingSubreqs q' = waitingSubreqs q \<and> dispatchedSubreqs q' = dispatchedSubreqs q \<and>
        (0 < degree q \<longrightarrow>
          (\<forall>i\<in>{0..<dsNum q}. degrees q i < degree q \<longrightarrow> dta_on (waitingSubreqs q) i = {}))
    | Some p \<Rightarrow> dta_moved p q q'"
proof -
  have s: "set [0..dsNum q - 1] = {0..<dsNum q}" by auto
  from dta_try_inv [OF assms(1) _ assms(2) [unfolded dta_dispatchNext_def]]
  show ?thesis unfolding s by blast
qed

lemma dta_waiting_queued:
  assumes "dta_inv q" "waitingSubreqs q i = Some x"
  obtains y where "y \<in> set (waitQ (edfQ q (getDsID x)))" "getID y = i"
proof -
  have "i \<in> getID ` set (waitQ (edfQ q (getDsID x)))"
    using assms unfolding dta_inv_def dta_queues_ok_def by blast
  with that show ?thesis by blast
qed

lemma dta_queue_ok_push:
  "dta_queue_ok sid q \<Longrightarrow> getDsID p = sid \<Longrightarrow> dta_queue_ok sid (fifo_pushWaitQ p q)"
  by (auto simp: dta_queue_ok_def fifo_pushWaitQ_def)

lemma dta_queue_ok_insert:
  "dta_queue_ok sid q \<Longrightarrow> getDsID p = sid \<Longrightarrow>
     dta_queue_ok sid (q\<lparr>waitQ := edf_insert d p (filter P (waitQ q))\<rparr>)"
  by (auto simp: dta_queue_ok_def edf_insert_set)

lemma dta_queue_ok_refine: "dta_queue_ok sid q \<Longrightarrow> dta_queue_ok sid (refineWaitQ m q)"
  by (auto simp: dta_queue_ok_def refineWaitQ_def dta_refine_filter)

lemma dta_push_inv:
  assumes "dta_inv q" "dta_pushWaitQ now p q = Inr q'"
    and "waitingSubreqs q (getID p) = None" "dispatchedSubreqs q (getID p) = None"
  shows "dta_inv q'" "dsNum q' = dsNum q" "degree q' = degree q" "degrees q' = degrees q"
    and "waitingSubreqs q' = (waitingSubreqs q)(getID p := Some (p\<lparr>getInterceptiontime := now\<rparr>))"
    and "dispatchedSubreqs q' = dispatchedSubreqs q"
proof -
  let ?p = "p\<lparr>getInterceptiontime := now\<rparr>" and ?s = "getDsID p"
  let ?eq = "(edfQ q ?s)\<lparr>waitQ := edf_insert (QoSDelay (edfQ q ?s)) ?p
      (filter (\<lambda>p. waitingSubreqs q (getID p) \<noteq> None) (waitQ (edfQ q ?s)))\<rparr>"
  from assms(2) have rng: "0 \<le> ?s" "?s < dsNum q"
    by (auto simp: dta_pushWaitQ_def Let_def split: if_splits)
  have F: "dsNum q' = dsNum q" "degree q' = degree q" "degrees q' = degrees q"
    "waitingSubreqs q' = (waitingSubreqs q)(getID p := Some ?p)"
    "dispatchedSubreqs q' = dispatchedSubreqs q" "edfQ q' = (edfQ q)(?s := ?eq)"
    "lrQ q' = lrQ q \<or> lrQ q' = (lrQ q)(?s := fifo_pushWaitQ ?p (lrQ q ?s))"
    using assms(2,3)
    by (auto simp: dta_pushWaitQ_def Let_def edf_pushWaitQ_def refineWaitQ_def dta_refine_filter
        split: if_splits option.splits)
  have "dta_queue_ok ?s (edfQ q ?s)" "dta_queue_ok ?s (lrQ q ?s)"
    using assms(1) rng by (simp_all add: dta_inv_def dta_queues_ok_def)
  then have e: "dta_queue_ok ?s ?eq" and l: "dta_queue_ok ?s (fifo_pushWaitQ ?p (lrQ q ?s))"
    by (simp_all add: dta_queue_ok_push dta_queue_ok_insert)
  have w: "i \<in> getID ` set (waitQ (edfQ q' (getDsID x)))" if "waitingSubreqs q' i = Some x" for i x
  proof (cases "i = getID p")
    case True
    with that F show ?thesis by (auto simp: edf_insert_set)
  next
    case False
    with that F have i: "waitingSubreqs q i = Some x" by simp
    from dta_waiting_queued [OF assms(1) this]
    obtain y where "y \<in> set (waitQ (edfQ q (getDsID x)))" "getID y = i" .
    with i F show ?thesis by (auto simp: edf_insert_set)
  qed
  have "dta_queues_ok q'"
    unfolding dta_queues_ok_def using assms(1) F e l w
    by (auto simp: dta_inv_def dta_queues_ok_def)
  moreover have "dta_map_ok (dsNum q) (waitingSubreqs q')"
    unfolding F using assms(1) rng by (intro dta_map_ok_insert) (auto simp: dta_inv_def)
  moreover have "dom (waitingSubreqs q') \<inter> dom (dispatchedSubreqs q') = {}"
    unfolding F using assms(1,4) by (auto simp: dta_inv_def)
  ultimately show "dta_inv q'" using assms(1) by (simp add: dta_inv_def F)
  show "dsNum q' = dsNum q" "degree q' = degree q" "degrees q' = degrees q"
    "waitingSubreqs q' = (waitingSubreqs q)(getID p := Some ?p)"
    "dispatchedSubreqs q' = dispatchedSubreqs q" by (fact F)+
qed

lemma degree_after_remove:
  fixes d d' deg :: int
  assumes "d = int (card A)" "0 < deg \<longrightarrow> d \<le> deg" "finite A" "B = A - {i}"
    and "i \<in> A \<longleftrightarrow> P" "d' = d - (if P then 1 else 0)"
  shows "d' = int (card B) \<and> (0 < deg \<longrightarrow> d' \<le> deg)"
proof (cases P)
  case True
  with assms(5) have "i \<in> A" by simp
  from card.remove [OF assms(3) this] have "card A = Suc (card B)" unfolding assms(4) .
  with assms(1,2,6) True show ?thesis by auto
next
  case False
  with assms have "B = A" by simp
  with assms False show ?thesis by simp
qed

lemma dta_pop_inv:
  assumes "dta_inv q" "dta_popOsQ now i q = Inr (r, q')"
  obtains p where "r = Some p" "dispatchedSubreqs q i = Some p" "getID p = i" "dta_inv q'"
    "dsNum q' = dsNum q" "degree q' = degree q"
    "degrees q' = (degrees q)(getDsID p := degrees q (getDsID p) - 1)"
    "waitingSubreqs q' = waitingSubreqs q"
    "dispatchedSubreqs q' = (dispatchedSubreqs q)(i := None)"
proof -
  from assms(2) obtain p where p: "dispatchedSubreqs q i = Some p" "r = Some p"
    by (auto simp: dta_popOsQ_def Let_def split: option.splits)
  let ?s = "getDsID p"
  have F: "dsNum q' = dsNum q" "degree q' = degree q"
    "degrees q' = (degrees q)(?s := degrees q ?s - 1)" "waitingSubreqs q' = waitingSubreqs q"
    "dispatchedSubreqs q' = (dispatchedSubreqs q)(i := None)"
    "edfQ q' = (edfQ q)(?s := refineWaitQ (waitingSubreqs q) (edfQ q ?s))"
    "lrQ q' = (lrQ q)(?s := refineWaitQ (waitingSubreqs q) (lrQ q ?s))"
    using assms(2) p by (auto simp: dta_popOsQ_def Let_def split: option.splits)
  have p_ok: "getID p = i" "0 \<le> ?s" "?s < dsNum q"
    using assms(1) p by (auto simp: dta_inv_def dta_map_ok_def)
  have "dta_queue_ok ?s (edfQ q ?s)" "dta_queue_ok ?s (lrQ q ?s)"
    using assms(1) p_ok by (simp_all add: dta_inv_def dta_queues_ok_def)
  then have "dta_queue_ok ?s (refineWaitQ (waitingSubreqs q) (edfQ q ?s))"
    "dta_queue_ok ?s (refineWaitQ (waitingSubreqs q) (lrQ q ?s))"
    by (simp_all add: dta_queue_ok_refine)
  moreover have "j \<in> getID ` set (waitQ (edfQ q' (getDsID x)))" if "waitingSubreqs q j = Some x" for j x
  proof -
    from dta_waiting_queued [OF assms(1) that]
    obtain y where "y \<in> set (waitQ (edfQ q (getDsID x)))" "getID y = j" .
    with that F show ?thesis by (auto simp: refineWaitQ_filter)
  qed
  ultimately have "dta_queues_ok q'"
    using assms(1) unfolding dta_queues_ok_def F by (auto simp: dta_inv_def dta_queues_ok_def)
  moreover have "dta_degrees_ok (dsNum q) (degree q) (degrees q') (dispatchedSubreqs q')"
    unfolding dta_degrees_ok_def
  proof
    fix sid assume "sid \<in> {0..<dsNum q}"
    with assms(1) have "degrees q sid = int (card (dta_on (dispatchedSubreqs q) sid))"
      "0 < degree q \<longrightarrow> degrees q sid \<le> degree q" unfolding dta_inv_def dta_degrees_ok_def by blast+
    moreover have "finite (dta_on (dispatchedSubreqs q) sid)"
      using assms(1) dta_on_finite unfolding dta_inv_def by blast
    moreover have "dta_on (dispatchedSubreqs q') sid = dta_on (dispatchedSubreqs q) sid - {i}"
      unfolding F by (rule dta_on_remove(1) [where m = "dispatchedSubreqs q", OF p(1)])
    moreover have "i \<in> dta_on (dispatchedSubreqs q) sid \<longleftrightarrow> ?s = sid"
      by (rule dta_on_remove(2) [where m = "dispatchedSubreqs q", OF p(1)])
    moreover have "degrees q' sid = degrees q sid - (if ?s = sid then 1 else 0)" unfolding F by simp
    ultimately show "degrees q' sid = int (card (dta_on (dispatchedSubreqs q') sid)) \<and>
        (0 < degree q \<longrightarrow> degrees q' sid \<le> degree q)"
      by (rule degree_after_remove)
  qed
  moreover have "dta_map_ok (dsNum q) (dispatchedSubreqs q')"
    unfolding F using assms(1) dta_map_ok_remove by (auto simp: dta_inv_def)
  moreover have "dom (waitingSubreqs q') \<inter> dom (dispatchedSubreqs q') = {}"
    unfolding F using assms(1) by (auto simp: dta_inv_def)
  ultimately have "dta_inv q'" using assms(1) by (simp add: dta_inv_def F)
  with that p p_ok F show ?thesis by simp
qed

section \<open>The contract\<close>

text \<open>
  The identities of packets are the keys of the maps, so the client must not push
  an identity that is still known; \<open>dta_push_new\<close> is a push that respects this.
\<close>

definition dta_push_new :: "real \<Rightarrow> gPacket \<Rightarrow> dta \<Rightarrow> dta res" where
  "dta_push_new now p q =
    (if waitingSubreqs q (getID p) = None \<and> dispatchedSubreqs q (getID p) = None
     then dta_pushWaitQ now p q else Inl (Abort ''client''))"

definition dta_waiting :: "dta \<Rightarrow> int multiset" where
  "dta_waiting q = mset_set (dom (waitingSubreqs q))"

definition dta_outstanding :: "dta \<Rightarrow> int multiset" where
  "dta_outstanding q = mset_set (dom (dispatchedSubreqs q))"

lemma dta_moved_abs:
  assumes "dta_inv q" "dta_moved p q q'"
  shows "dta_waiting q = add_mset (getID p) (dta_waiting q')"
    and "dta_outstanding q' = add_mset (getID p) (dta_outstanding q)"
proof -
  from assms(2) obtain x where x: "waitingSubreqs q (getID p) = Some x" by (auto simp: dta_moved_def)
  have f: "finite (dom (waitingSubreqs q))" "finite (dom (dispatchedSubreqs q))"
    using assms(1) by (auto simp: dta_inv_def dta_map_ok_def)
  have "dispatchedSubreqs q (getID p) = None" using assms(1) x by (auto simp: dta_inv_def)
  with f(2) have "mset_set (dom ((dispatchedSubreqs q)(getID p := Some p)))
      = add_mset (getID p) (mset_set (dom (dispatchedSubreqs q)))" by (rule mset_dom_insert)
  with assms(2) show "dta_outstanding q' = add_mset (getID p) (dta_outstanding q)"
    by (simp add: dta_moved_def dta_outstanding_def)
  show "dta_waiting q = add_mset (getID p) (dta_waiting q')"
    using mset_dom_remove [OF f(1) x] assms(2) by (simp add: dta_moved_def dta_waiting_def)
qed

lemma dta_push_abs:
  assumes "dta_inv q" "dta_push_new now p q = Inr q'"
  shows "dta_inv q'" "dta_waiting q' = add_mset (getID p) (dta_waiting q)"
    and "dta_outstanding q' = dta_outstanding q"
proof -
  from assms(2) have n: "waitingSubreqs q (getID p) = None" "dispatchedSubreqs q (getID p) = None"
    and d: "dta_pushWaitQ now p q = Inr q'" by (auto simp: dta_push_new_def split: if_splits)
  note P = dta_push_inv [OF assms(1) d n]
  from P(1) show "dta_inv q'" .
  have "finite (dom (waitingSubreqs q))" using assms(1) by (auto simp: dta_inv_def dta_map_ok_def)
  from mset_dom_insert [where m = "waitingSubreqs q", OF this n(1)]
  show "dta_waiting q' = add_mset (getID p) (dta_waiting q)" unfolding dta_waiting_def P(5) .
  show "dta_outstanding q' = dta_outstanding q" unfolding dta_outstanding_def P(6) ..
qed

lemma dta_pop_abs:
  assumes "dta_inv q" "dta_popOsQ now i q = Inr (r, q')"
  shows "\<exists>p. r = Some p \<and> dta_inv q' \<and> dta_waiting q' = dta_waiting q \<and>
    dta_outstanding q = add_mset (getID p) (dta_outstanding q')"
proof -
  from dta_pop_inv [OF assms] obtain p where P: "r = Some p" "dispatchedSubreqs q i = Some p" "getID p = i"
    "dta_inv q'" "waitingSubreqs q' = waitingSubreqs q"
    "dispatchedSubreqs q' = (dispatchedSubreqs q)(i := None)" by blast
  have "finite (dom (dispatchedSubreqs q))" using assms(1) by (auto simp: dta_inv_def dta_map_ok_def)
  from mset_dom_remove [where m = "dispatchedSubreqs q", OF this P(2)] P
  show ?thesis by (auto simp: dta_waiting_def dta_outstanding_def)
qed

interpretation dt: scheduler dta_push_new dta_dispatchNext dta_popOsQ
  getID dta_waiting dta_outstanding dta_inv
proof unfold_locales
  fix now q p q'
  assume i: "dta_inv q"
  { assume "dta_push_new now p q = Inr q'"
    from dta_push_abs [OF i this]
    show "dta_inv q' \<and> dta_waiting q' = add_mset (getID p) (dta_waiting q) \<and>
      dta_outstanding q' = dta_outstanding q" by simp }
  { assume "dta_dispatchNext now q = Inr (None, q')"
    from dta_dispatch_inv [OF i this]
    show "dta_inv q' \<and> dta_waiting q' = dta_waiting q \<and> dta_outstanding q' = dta_outstanding q"
      by (simp add: dta_waiting_def dta_outstanding_def) }
  { assume "dta_dispatchNext now q = Inr (Some p, q')"
    from dta_dispatch_inv [OF i this] have m: "dta_moved p q q'" by simp
    from dta_moved_abs [OF i m] m
    show "dta_inv q' \<and> dta_waiting q = add_mset (getID p) (dta_waiting q') \<and>
      dta_outstanding q' = add_mset (getID p) (dta_outstanding q)" by (simp add: dta_moved_def) }
next
  fix now i q q' assume "dta_inv q" "dta_popOsQ now i q = Inr (None, q')"
  from dta_pop_abs [OF this]
  show "dta_inv q' \<and> dta_waiting q' = dta_waiting q \<and> dta_outstanding q' = dta_outstanding q" by simp
next
  fix now i q q' p assume "dta_inv q" "dta_popOsQ now i q = Inr (Some p, q')"
  from dta_pop_abs [OF this]
  show "dta_inv q' \<and> dta_waiting q' = dta_waiting q \<and>
    dta_outstanding q = add_mset (getID p) (dta_outstanding q')" by simp
qed

section \<open>Properties\<close>

lemma DTA_new_inv: "DTA_new i d n lag k delays mem = Inr q \<Longrightarrow> dta_inv q \<and> degree q = d \<and> dsNum q = k"
  by (auto simp: DTA_new_def Let_def dta_inv_def dta_queues_ok_def dta_queue_ok_def dta_map_ok_def
      dta_degrees_ok_def dta_on_def EDF_new_delays_def FIFO_new_def split: if_splits)

text \<open>
  Claim C2: DTA keeps its books. After any sequence of pushes of new identities,
  dispatches and completions of a new DTA scheduler, the sub-requests waiting and
  dispatched are those pushed, those outstanding and completed are those
  dispatched, \<^verbatim>\<open>degrees\<close> counts the outstanding sub-requests of every server and
  never exceeds a positive degree, every waiting sub-request is in the EDF queue of
  its server and no sub-request is both waiting and outstanding.
\<close>

theorem dta_books:
  assumes "DTA_new i d n lag k delays mem = Inr q0"
    and "run_res dt.step evs (q0, [], [], []) = Inr (q, ps, ds, cs)"
  shows "dta_waiting q + mset (map getID ds) = mset (map getID ps) \<and>
    dta_outstanding q + mset (map getID cs) = mset (map getID ds) \<and>
    dom (waitingSubreqs q) \<inter> dom (dispatchedSubreqs q) = {} \<and>
    (\<forall>sid\<in>{0..<dsNum q}.
       degrees q sid = int (card {j. \<exists>p. dispatchedSubreqs q j = Some p \<and> getDsID p = sid}) \<and>
       (0 < degree q \<longrightarrow> degrees q sid \<le> degree q)) \<and>
    (\<forall>j p. waitingSubreqs q j = Some p \<longrightarrow> j \<in> getID ` set (waitQ (edfQ q (getDsID p))))"
proof -
  from DTA_new_inv [OF assms(1)] have i: "dta_inv q0" by simp
  have z: "dta_waiting q0 = {#}" "dta_outstanding q0 = {#}"
    using assms(1) by (auto simp: DTA_new_def Let_def dta_waiting_def dta_outstanding_def split: if_splits)
  note C = dt.conservation [OF i assms(2)]
  from C(1) have "dta_degrees_ok (dsNum q) (degree q) (degrees q) (dispatchedSubreqs q)"
    "dta_queues_ok q" "dom (waitingSubreqs q) \<inter> dom (dispatchedSubreqs q) = {}"
    unfolding dta_inv_def by blast+
  moreover have "dta_waiting q + mset (map getID ds) = mset (map getID ps)"
    "dta_outstanding q + mset (map getID cs) = mset (map getID ds)" using C(2,3) z by simp_all
  ultimately show ?thesis
    unfolding dta_degrees_ok_def dta_on_def dta_queues_ok_def by blast
qed

definition demo_sub :: "int \<Rightarrow> int \<Rightarrow> gPacket" where
  "demo_sub i ds = (demo_pkt i 0 5)\<lparr>getDsID := ds, getTotalsubreqs := 2\<rparr>"

definition demo_dta_events :: "gPacket qevent list" where
  "demo_dta_events = [Push 0 (demo_sub 1000000 0), Push 0 (demo_sub 1000001 1), Dispatch 0, Dispatch 1]"

lemma upto_0_1: "[0..1] = [0, 1::int]" by (simp add: upto.simps)

lemmas dta_eval =
  demo_sub_def demo_pkt_simps dta_push_new_def dta_pushWaitQ_def dta_rid_def
  CID_OFFSET_def MAX_APP_def MAX_DS_def edf_pushWaitQ_def refineWaitQ_def dta_refine_filter
  new_dta_request_def to_int32_def EDF_new_delays_def FIFO_new_def fifo_pushWaitQ_def
  dta_lagged_def trunc_double_def Let_def sdiv_nonneg dta_dispatchNext_def upto_0_1
  fifo_waitQisEmpty_def tryToDispatch_def fifo_seeWaitQNext_def dta_choose_def dta_urgent_def
  dta_send_edf_def dta_send_lr_def dta_remove_front_def fifo_dispatchNext_def fifo_popOsQ_def
  dispatchUpdate_def dta_lag_slot_def

definition demo_dta :: dta where
  "demo_dta = run_ok (DTA_new 0 1 1 (1 / 2) 2 [10] (\<lambda>_. 0))"

lemma demo_dta_run:
  "\<exists>q ps ds. run_res dt.step demo_dta_events (demo_dta, [], [], []) = Inr (q, ps, ds, []) \<and>
     map getID ps = [1000000, 1000001] \<and> map getID ds = [1000000, 1000001]"
  unfolding demo_dta_events_def demo_dta_def
  by (simp add: dta_eval DTA_new_def)

lemma demo_dta_new: "DTA_new 0 1 1 (1 / 2) 2 [10] (\<lambda>_. 0) = Inr demo_dta"
  by (simp add: demo_dta_def DTA_new_def MAX_DS_def MAX_APP_def Let_def)

theorem dta_books_witness:
  "\<exists>q ps ds. run_res dt.step demo_dta_events (demo_dta, [], [], []) = Inr (q, ps, ds, []) \<and>
     dta_waiting q = {#} \<and> dta_outstanding q = {#1000000, 1000001#}"
proof -
  from demo_dta_run obtain q ps ds where r: "run_res dt.step demo_dta_events (demo_dta, [], [], []) = Inr (q, ps, ds, [])"
    and m: "map getID ps = [1000000, 1000001]" "map getID ds = [1000000, 1000001]"
    by (elim exE conjE) rule
  from dta_books [OF demo_dta_new r] have
    "dta_waiting q + mset (map getID ds) = mset (map getID ps)"
    "dta_outstanding q = mset (map getID ds)" by simp_all
  then have "dta_waiting q + {#1000000, 1000001#} = {#1000000, 1000001#}"
    "dta_outstanding q = {#1000000, 1000001#}" unfolding m by simp_all
  with r show ?thesis by auto
qed

text \<open>
  Claim C19: DTA does not postpone a request at risk and is work conserving per server. When
  \<^verbatim>\<open>tryToDispatch\<close> returns NULL for a server with a free slot, no sub-request waits
  for this server. Otherwise let \<open>pkt\<close> be the first sub-request of the EDF queue
  that still waits: if the deadline of its request is reached by the expected
  service time (in the last slot: plus the expected interval), exactly \<open>pkt\<close> is
  dispatched, ahead of every lagging sub-request.
\<close>

theorem dta_urgent_first:
  assumes "dta_inv q" "sid \<in> {0..<dsNum q}" "degrees q sid < degree q" "degree q > 0"
    and "tryToDispatch now sid q = Inr (r, q')"
  shows "case r of
      None \<Rightarrow> \<forall>i p. waitingSubreqs q i = Some p \<longrightarrow> getDsID p \<noteq> sid
    | Some p \<Rightarrow> \<exists>pkt req. find (\<lambda>x. waitingSubreqs q (getID x) \<noteq> None) (waitQ (edfQ q sid)) = Some pkt \<and>
        dta_reqList q (dta_rid pkt) = Some req \<and>
        (deadline req \<le> now + service_time q sid \<or>
         degrees q sid = degree q - 1 \<and> deadline req \<le> now + service_time q sid + fin_int q sid
         \<longrightarrow> p = pkt)"
proof (cases r)
  case None
  with tryToDispatch_inv [OF assms] have n: "dta_inv q'" "waitQ (edfQ q' sid) = []"
    "waitingSubreqs q' = waitingSubreqs q" by simp_all
  have "getDsID p \<noteq> sid" if "waitingSubreqs q i = Some p" for i p
    using dta_waiting_queued [OF n(1), of i p] that n(2,3) by (metis empty_iff list.set(1))
  with None show ?thesis by simp
next
  case (Some p)
  with tryToDispatch_inv [OF assms] obtain pkt ps req where "dta_front q (edfQ q sid) = pkt # ps"
    "dta_reqList q (dta_rid pkt) = Some req" "dta_urgent now sid req q \<longrightarrow> p = pkt" by auto
  moreover have "find P xs = Some y" if "dropWhile (\<lambda>x. \<not> P x) xs = y # ys" for P and xs ys :: "gPacket list" and y
    using that by (induction xs) (auto split: if_splits)
  ultimately show ?thesis using Some by (auto simp: dta_front_def dta_urgent_def)
qed

theorem dta_urgent_first_witness:
  "\<exists>q q'. dta_push_new 0 (demo_sub 1000000 0) demo_dta = Inr q \<and>
     tryToDispatch 20 0 q = Inr (Some (demo_sub 1000000 0), q')"
proof -
  define q where "q = run_ok (dta_push_new 0 (demo_sub 1000000 0) demo_dta)"
  have q: "dta_push_new 0 (demo_sub 1000000 0) demo_dta = Inr q"
    unfolding q_def demo_dta_def by (simp add: dta_eval DTA_new_def)
  have "\<exists>p q'. tryToDispatch 20 0 q = Inr (Some p, q')"
    unfolding q_def demo_dta_def by (simp add: dta_eval DTA_new_def dta_processParameters_def)
  then obtain p q' where p: "tryToDispatch 20 0 q = Inr (Some p, q')" by blast
  have f: "degrees q 0 = 0" "degree q = 1" "dsNum q = 2"
    "find (\<lambda>x. waitingSubreqs q (getID x) \<noteq> None) (waitQ (edfQ q 0)) = Some (demo_sub 1000000 0)"
    "\<forall>req. dta_reqList q (dta_rid (demo_sub 1000000 0)) = Some req \<longrightarrow> deadline req \<le> 20 + service_time q 0"
    unfolding q_def demo_dta_def by (simp_all add: dta_eval DTA_new_def dta_processParameters_def)
  have "dta_inv q" using dta_push_abs(1) [OF _ q] DTA_new_inv [OF demo_dta_new] by simp
  from dta_urgent_first [OF this _ _ _ p] f have "p = demo_sub 1000000 0" by auto
  with q p show ?thesis by blast
qed

text \<open>
  DTA needs a positive degree. \<^verbatim>\<open>IQueue.h\<close> says a negative degree means no
  control, and \<^verbatim>\<open>tryToDispatch\<close> is written for that; but \<^verbatim>\<open>dispatchNext\<close> calls it only
  when the degree is positive, so with a degree that is not, nothing is ever
  dispatched and the state does not change.
\<close>

theorem dta_uncontrolled_degree_blocks:
  assumes "degree q \<le> 0"
  shows "dta_dispatchNext now q = Inr (None, q)"
proof -
  have "dta_try now is q = Inr (None, q)" for "is"
    by (induction "is") (use assms in auto)
  then show ?thesis by (simp add: dta_dispatchNext_def)
qed

theorem dta_uncontrolled_degree_blocks_witness:
  "dta_dispatchNext 5 (demo_dta\<lparr>degree := -1\<rparr>) = Inr (None, demo_dta\<lparr>degree := -1\<rparr>)"
  by (rule dta_uncontrolled_degree_blocks) simp

end
