(* ===== verification/Avatar.thy ===== *)
theory Avatar
  imports Edf
begin

text \<open>
  \<^verbatim>\<open>scheduler/I2L/SARC\<close> and \<^verbatim>\<open>scheduler/I2L/AVATAR\<close>: the two levels of the
  interposed scheduler. SARC holds a bucket of tokens and a queue per application;
  AVATAR holds an EDF queue and adapts, at the end of every time window, the number
  \<^verbatim>\<open>L_O\<close> of requests it lets into the storage from the response times it saw.

  The statistics divide by counts and times that may be zero, so they may be
  infinite or not a number: \<open>dbl\<close> has these values, and its comparisons are those
  of C++ (every comparison with NaN is false). The buffer \<^verbatim>\<open>T_O_All[i]\<close> is the list
  of its first \<^verbatim>\<open>T_O_Index[i]\<close> entries, the only ones that are read.
\<close>

section \<open>Doubles that may be infinite\<close>

datatype dbl = Fin real | PInf | NInf | NaN

fun dbl_ratio :: "real \<Rightarrow> real \<Rightarrow> dbl" where
  "dbl_ratio a b = (if b \<noteq> 0 then Fin (a / b) else if a > 0 then PInf else if a < 0 then NInf else NaN)"

fun dbl_rsub :: "real \<Rightarrow> dbl \<Rightarrow> dbl" where
  "dbl_rsub a (Fin b) = Fin (a - b)"
| "dbl_rsub a PInf = NInf"
| "dbl_rsub a NInf = PInf"
| "dbl_rsub a NaN = NaN"

fun dbl_div :: "dbl \<Rightarrow> real \<Rightarrow> dbl" where
  "dbl_div (Fin a) b = dbl_ratio a b"
| "dbl_div PInf b = (if b \<ge> 0 then PInf else NInf)"
| "dbl_div NInf b = (if b \<ge> 0 then NInf else PInf)"
| "dbl_div NaN b = NaN"

fun dbl_mul :: "dbl \<Rightarrow> real \<Rightarrow> dbl" where
  "dbl_mul (Fin a) b = Fin (a * b)"
| "dbl_mul PInf b = (if b > 0 then PInf else if b < 0 then NInf else NaN)"
| "dbl_mul NInf b = (if b > 0 then NInf else if b < 0 then PInf else NaN)"
| "dbl_mul NaN b = NaN"

fun dbl_less :: "dbl \<Rightarrow> real \<Rightarrow> bool" where
  "dbl_less (Fin a) b = (a < b)"
| "dbl_less PInf b = False"
| "dbl_less NInf b = True"
| "dbl_less NaN b = False"

fun dbl_greater :: "dbl \<Rightarrow> real \<Rightarrow> bool" where
  "dbl_greater (Fin a) b = (a > b)"
| "dbl_greater PInf b = True"
| "dbl_greater NInf b = False"
| "dbl_greater NaN b = False"

definition dbl_le :: "dbl \<Rightarrow> real \<Rightarrow> bool" where
  "dbl_le x b \<longleftrightarrow> dbl_less x b \<or> x = Fin b"

definition dbl_ge :: "dbl \<Rightarrow> real \<Rightarrow> bool" where
  "dbl_ge x b \<longleftrightarrow> dbl_greater x b \<or> x = Fin b"

section \<open>SARC\<close>

record sarc =
  s_appNum :: int
  cur_token :: "int \<Rightarrow> real"
  max_token :: "int \<Rightarrow> real"
  reqQ :: "int \<Rightarrow> gPacket list"
  replenish_interval :: real
  next_periodic_replenishment :: real

definition SARC_new :: "int \<Rightarrow> (int \<Rightarrow> real) \<Rightarrow> real \<Rightarrow> (int \<Rightarrow> real) \<Rightarrow> sarc" where
  "SARC_new ttlapps QoSThroughput interval mem =
    \<lparr> s_appNum = ttlapps,
      cur_token = (\<lambda>i. if 0 \<le> i \<and> i < ttlapps then QoSThroughput i * interval else mem i),
      max_token = (\<lambda>i. if 0 \<le> i \<and> i < ttlapps then QoSThroughput i * interval else mem i),
      reqQ = (\<lambda>_. []), replenish_interval = interval, next_periodic_replenishment = interval \<rparr>"

fun sarc_try :: "int list \<Rightarrow> sarc \<Rightarrow> gPacket option \<times> sarc" where
  "sarc_try [] s = (None, s)"
| "sarc_try (i # is) s =
    (case reqQ s i of
       [] \<Rightarrow> sarc_try is s
     | pkt # rest \<Rightarrow>
         if cur_token s (getApp pkt) > 0
         then (Some pkt, s\<lparr>cur_token := (cur_token s)(getApp pkt := cur_token s (getApp pkt) - 1),
                           reqQ := (reqQ s)(i := rest)\<rparr>)
         else sarc_try is s)"

definition sarc_tryToDispatch :: "sarc \<Rightarrow> gPacket option \<times> sarc" where
  "sarc_tryToDispatch s = sarc_try [0..s_appNum s - 1] s"

definition replenishTokens :: "real \<Rightarrow> sarc \<Rightarrow> sarc" where
  "replenishTokens now s =
    s\<lparr>cur_token := (\<lambda>i. if 0 \<le> i \<and> i < s_appNum s then max_token s i else cur_token s i),
      next_periodic_replenishment := now + replenish_interval s\<rparr>"

definition newArrival :: "gPacket \<Rightarrow> sarc \<Rightarrow> (gPacket option \<times> sarc) res" where
  "newArrival pkt s =
    (let a = getApp pkt in
     if \<not> (0 \<le> a \<and> a < s_appNum s) then Inl (OutOfBounds ''cur_token'')
     else if cur_token s a > 0
     then Inr (Some pkt, s\<lparr>cur_token := (cur_token s)(a := cur_token s a - 1)\<rparr>)
     else Inr (None, s\<lparr>reqQ := (reqQ s)(a := reqQ s a @ [pkt])\<rparr>))"

definition getNextPeriodicReplenishmentTime :: "sarc \<Rightarrow> real" where
  "getNextPeriodicReplenishmentTime s = next_periodic_replenishment s"

section \<open>The percentile of the response times\<close>

text \<open>The inner loop finds the first largest entry from index \<open>di\<close> on.\<close>

definition rank_scan :: "real list \<Rightarrow> nat \<Rightarrow> real \<times> nat" where
  "rank_scan a di =
     fold (\<lambda>ci (mx, mi). if mx < a ! ci then (a ! ci, ci) else (mx, mi)) [di + 1..<length a] (a ! di, di)"

function rank_loop :: "real list \<Rightarrow> nat \<Rightarrow> nat \<Rightarrow> real" where
  "rank_loop a di rankIndex =
    (if di \<le> rankIndex then
       (let (mx, maxIndex) = rank_scan a di in
        if di = rankIndex then mx
        else rank_loop (a[maxIndex := a ! di, di := mx]) (di + 1) rankIndex)
     else 0)"
  by pat_completeness auto
termination by (relation "measure (\<lambda>(a, di, k). Suc k - di)") auto

declare rank_loop.simps [simp del]

definition getValueByRank :: "real list \<Rightarrow> real \<Rightarrow> real res" where
  "getValueByRank array rank =
    (let total = int (length array) in
     if total = 0 then Inr 0
     else if rank > 1 \<or> rank \<le> 0 then Inl (Abort ''AVATAR'')
     else Inr (rank_loop array 0 (nat (trunc_double (of_int total * (1 - rank))))))"

section \<open>AVATAR\<close>

definition MAX_REQ_IN_WINDOW :: int where "MAX_REQ_IN_WINDOW = 500"
definition RESP_TIME_RANK :: real where "RESP_TIME_RANK = 95 / 100"
definition AVATAR_SAFE_L_O :: real where "AVATAR_SAFE_L_O = 4"
definition AVATAR_INFINITY :: real where "AVATAR_INFINITY = 100"

record avatar =
  av_queue :: "gPacket edf"
  windowIndex :: int
  currentWindowEnd :: real
  av_appNum :: int
  av_QoSDelay :: "int \<Rightarrow> real"
  L_E_New :: int
  L_E_New_Deadline :: int
  av_X :: int
  T_E_All :: "int \<Rightarrow> real"
  T_E_Count :: "int \<Rightarrow> int"
  MT_E :: "int \<Rightarrow> dbl"
  T_O_All :: "int \<Rightarrow> real list"
  T_O :: "int \<Rightarrow> real"
  L_O_max :: int
  L_O :: real
  L_O_PerApp :: "int \<Rightarrow> dbl"
  L_O_RT :: "int \<Rightarrow> dbl"
  L_O_X_Lower :: real
  L_O_X_Upper :: real
  windowSize :: real
  av_idle_status :: bool
  miss_deadline :: bool

text \<open>
  \<^verbatim>\<open>T_E_Count\<close>, \<^verbatim>\<open>L_O_PerApp\<close> and \<^verbatim>\<open>L_O_RT\<close> are not initialised: their first values
  are the arguments \<open>cnt\<close> and \<open>per\<close>. \<^verbatim>\<open>L_O_X_Upper\<close> starts as \<^verbatim>\<open>L_O_max\<close>, which is 0.
\<close>

definition AVATAR_new ::
  "int \<Rightarrow> (int \<Rightarrow> real) \<Rightarrow> real \<Rightarrow> (int \<Rightarrow> real) \<Rightarrow> (int \<Rightarrow> int) \<Rightarrow> (int \<Rightarrow> dbl) \<Rightarrow> avatar" where
  "AVATAR_new ttlapps delay wsize mem cnt per =
    (let qd = (\<lambda>i. if 0 \<le> i \<and> i < ttlapps then delay i else mem i) in
     \<lparr> av_queue = EDF_new_delays 1 (-1) ttlapps qd mem, windowIndex = 0, currentWindowEnd = wsize,
       av_appNum = ttlapps, av_QoSDelay = qd, L_E_New = 0, L_E_New_Deadline = 0, av_X = 0,
       T_E_All = (\<lambda>_. 0), T_E_Count = cnt, MT_E = (\<lambda>_. Fin 0), T_O_All = (\<lambda>_. []), T_O = (\<lambda>_. 0),
       L_O_max = 0, L_O = AVATAR_SAFE_L_O, L_O_PerApp = per, L_O_RT = per,
       L_O_X_Lower = 0, L_O_X_Upper = 0, windowSize = wsize, av_idle_status = False,
       miss_deadline = False \<rparr>)"

definition L_E_Exist :: "avatar \<Rightarrow> int" where
  "L_E_Exist v = fifo_getWaitQSize (av_queue v)"

definition L_E_Exist_Deadline :: "real \<Rightarrow> avatar \<Rightarrow> int" where
  "L_E_Exist_Deadline t v = edf_getNumReqsInWaitQWithinDeadline t (av_queue v)"

definition L_O_Exist :: "avatar \<Rightarrow> int" where
  "L_O_Exist v = fifo_getOsQSize (av_queue v)"

definition avatar_pushWaitQ :: "real \<Rightarrow> gPacket \<Rightarrow> avatar \<Rightarrow> avatar res" where
  "avatar_pushWaitQ now pkt v =
    (let pkt = pkt\<lparr>getInterceptiontime := now\<rparr> in
     bindR (edf_pushWaitQ pkt (av_queue v)) (\<lambda>eq.
     Inr (v\<lparr>av_queue := eq, L_E_New := L_E_New v + 1,
            L_E_New_Deadline := (if getRisetime pkt + av_QoSDelay v (getApp pkt) \<le> currentWindowEnd v
                                 then L_E_New_Deadline v + 1 else L_E_New_Deadline v)\<rparr>)))"

text \<open>
  \<^verbatim>\<open>setScheduletime\<close> stores through the pointer that \<^verbatim>\<open>dispatchNext\<close> of the queue
  has just appended to the outstanding queue.
\<close>

definition avatar_dispatchNext :: "real \<Rightarrow> avatar \<Rightarrow> gPacket option \<times> avatar" where
  "avatar_dispatchNext now v =
    (let missnum = edf_getNumReqsInWaitQWithinDeadline now (av_queue v) in
     if missnum \<noteq> 0 \<or> of_int (L_O_Exist v) < L_O v then
       (case fifo_dispatchNext (av_queue v) of
          (Some pkt, eq) \<Rightarrow>
            let a = getApp pkt; pkt' = pkt\<lparr>getScheduletime := now\<rparr> in
            (Some pkt',
             v\<lparr>av_queue := eq\<lparr>osQ := butlast (osQ eq) @ [pkt']\<rparr>,
               T_E_Count := (T_E_Count v)(a := T_E_Count v a + 1),
               T_E_All := (T_E_All v)(a := T_E_All v a + (now - getInterceptiontime pkt))\<rparr>)
        | (None, eq) \<Rightarrow>
            let v = v\<lparr>av_queue := eq\<rparr>; LO = L_O_Exist v in
            (None,
             v\<lparr>av_idle_status := (if \<not> av_idle_status v \<and> of_int LO < L_O v * (9 / 10) then True
                                  else av_idle_status v),
               L_O_max := (if L_O_max v < LO then LO else L_O_max v)\<rparr>))
     else
       (None,
        v\<lparr>av_idle_status := False,
          L_O_max := (if L_O_max v < L_O_Exist v then L_O_Exist v else L_O_max v)\<rparr>))"

text \<open>\<^verbatim>\<open>popOsQ\<close> uses the packet without a test: NULL when the identity is not outstanding.\<close>

definition avatar_popOsQ :: "real \<Rightarrow> int \<Rightarrow> avatar \<Rightarrow> (gPacket option \<times> avatar) res" where
  "avatar_popOsQ now pid v =
    (case fifo_popOsQ pid (av_queue v) of
       (None, eq) \<Rightarrow> Inl (NullDeref ''AVATAR'')
     | (Some pkt, eq) \<Rightarrow>
         let a = getApp pkt in
         if int (length (T_O_All v a)) \<ge> MAX_REQ_IN_WINDOW then Inl (OutOfBounds ''T_O_All'')
         else Inr (Some pkt,
                   v\<lparr>av_queue := eq,
                     T_O_All := (T_O_All v)(a := T_O_All v a @ [now - getScheduletime pkt]),
                     av_X := av_X v + 1\<rparr>))"

definition avatar_queryJob :: "int \<Rightarrow> avatar \<Rightarrow> gPacket option" where
  "avatar_queryJob pid v = fifo_queryJob pid (av_queue v)"

text \<open>\<^verbatim>\<open>calculateStatistics\<close>, one application at a time (the two loops touch separate arrays).\<close>

definition calculateStatistics_at :: "int \<Rightarrow> avatar \<Rightarrow> avatar res" where
  "calculateStatistics_at i v =
     bindR (getValueByRank (T_O_All v i) RESP_TIME_RANK) (\<lambda>t.
     Inr (v\<lparr>T_O := (T_O v)(i := t),
            MT_E := (MT_E v)(i := dbl_ratio (T_E_All v i) (of_int (T_E_Count v i)))\<rparr>))"

definition calculateStatistics :: "avatar \<Rightarrow> avatar res" where
  "calculateStatistics v = run_res calculateStatistics_at [0..av_appNum v - 1] v"

text \<open>
  The turn of the loop of \<^verbatim>\<open>windowEnd\<close> for application \<open>i\<close>: cases 1 to 4 when it was
  not overloaded, 5 and 6 when it was.
\<close>

definition avatar_underload :: "int \<Rightarrow> dbl \<Rightarrow> avatar \<Rightarrow> avatar" where
  "avatar_underload i E v =
    (let rt = dbl_mul E (L_O v);
         v = v\<lparr>L_O_RT := (L_O_RT v)(i := rt)\<rparr>
     in if dbl_less rt (L_O_X_Lower v) then v\<lparr>L_O_PerApp := (L_O_PerApp v)(i := Fin AVATAR_INFINITY)\<rparr>
        else if dbl_greater rt (L_O_X_Upper v) then v\<lparr>L_O_PerApp := (L_O_PerApp v)(i := Fin (L_O_X_Upper v))\<rparr>
        else if dbl_less rt (L_O v) \<or> of_int (L_O_max v) \<ge> L_O v
        then v\<lparr>L_O_PerApp := (L_O_PerApp v)(i := rt)\<rparr>
        else if dbl_ge rt (L_O v) \<and> of_int (L_O_max v) < L_O v
        then v\<lparr>L_O_PerApp := (L_O_PerApp v)(i := Fin (L_O v))\<rparr>
        else v)"

definition avatar_overload :: "int \<Rightarrow> dbl \<Rightarrow> int \<Rightarrow> int \<Rightarrow> avatar \<Rightarrow> avatar" where
  "avatar_overload i E X_Lower X_Upper v =
    (let rt = dbl_mul E (of_int (L_O_max v));
         v = v\<lparr>L_O_RT := (L_O_RT v)(i := rt)\<rparr>
     in if of_int X_Lower \<le> of_int (av_X v) * (9 / 10 :: real)
        then v\<lparr>L_O_PerApp := (L_O_PerApp v)(i := (if dbl_ge rt (L_O_X_Lower v) then rt else Fin (L_O_X_Lower v)))\<rparr>
        else if of_int X_Upper > of_int (av_X v) * (9 / 10 :: real)
        then v\<lparr>L_O_PerApp := (L_O_PerApp v)(i := Fin AVATAR_INFINITY)\<rparr>
        else v)"

definition windowEnd_app :: "int \<Rightarrow> int \<Rightarrow> int \<Rightarrow> avatar \<Rightarrow> avatar" where
  "windowEnd_app X_Lower X_Upper i v =
    (if T_O_All v i = [] then v\<lparr>L_O_PerApp := (L_O_PerApp v)(i := Fin (AVATAR_INFINITY + 1))\<rparr>
     else
       let E = dbl_div (dbl_rsub (av_QoSDelay v i) (MT_E v i)) (T_O v i);
           v = (if dbl_le E 1 then v\<lparr>miss_deadline := True, av_idle_status := False\<rparr> else v)
       in if L_O_PerApp v i \<noteq> Fin AVATAR_INFINITY then avatar_underload i E v
          else avatar_overload i E X_Lower X_Upper v)"

text \<open>The new threshold: the smallest of 100 and the thresholds of the applications.\<close>

definition windowEnd_min :: "avatar \<Rightarrow> real" where
  "windowEnd_min v =
     fold (\<lambda>i l. case L_O_PerApp v i of Fin p \<Rightarrow> if l > p then p else l | _ \<Rightarrow> l)
       [0..av_appNum v - 1] AVATAR_INFINITY"

definition windowEnd :: "avatar \<Rightarrow> avatar res" where
  "windowEnd v =
     bindR (calculateStatistics v) (\<lambda>v.
     let LO_Exist = L_O_Exist v;
         LE_Exist_Deadline = L_E_Exist_Deadline (currentWindowEnd v + windowSize v) v;
         LE_Exist = L_E_Exist v;
         X_Lower = LO_Exist + LE_Exist_Deadline + L_E_New_Deadline v;
         X_Upper = LO_Exist + LE_Exist + L_E_New v;
         v = (if av_X v \<noteq> 0
              then v\<lparr>L_O_X_Lower := L_O v * of_int X_Lower / of_int (av_X v),
                     L_O_X_Upper := L_O v * of_int X_Upper / of_int (av_X v)\<rparr> else v);
         v = v\<lparr>miss_deadline := False\<rparr>;
         v = fold (windowEnd_app X_Lower X_Upper) [0..av_appNum v - 1] v;
         v = v\<lparr>L_O := windowEnd_min v\<rparr>
     in Inr (v\<lparr>windowIndex := windowIndex v + 1, currentWindowEnd := currentWindowEnd v + windowSize v,
               L_E_New := 0, L_E_New_Deadline := 0, av_X := 0,
               T_E_All := (\<lambda>i. if 0 \<le> i \<and> i < av_appNum v then 0 else T_E_All v i),
               T_E_Count := (\<lambda>i. if 0 \<le> i \<and> i < av_appNum v then 0 else T_E_Count v i),
               T_O_All := (\<lambda>i. if 0 \<le> i \<and> i < av_appNum v then [] else T_O_All v i),
               L_O_max := 0\<rparr>))"

definition getIdleStatus :: "avatar \<Rightarrow> bool" where
  "getIdleStatus v = av_idle_status v"

section \<open>The percentile is an order statistic\<close>

lemma rank_scan_max:
  assumes "di < length a"
  shows "case rank_scan a di of (mx, mi) \<Rightarrow> di \<le> mi \<and> mi < length a \<and> mx = a ! mi \<and>
    (\<forall>j. di \<le> j \<and> j < length a \<longrightarrow> a ! j \<le> mx)"
proof -
  have "case fold (\<lambda>ci (mx, mi). if mx < a ! ci then (a ! ci, ci) else (mx, mi)) [di + 1..<n] (a ! di, di)
      of (mx, mi) \<Rightarrow> di \<le> mi \<and> mi < n \<and> mx = a ! mi \<and> (\<forall>j. di \<le> j \<and> j < n \<longrightarrow> a ! j \<le> mx)"
    if "di < n" for n
    using that
  proof (induction n)
    case (Suc n)
    show ?case
    proof (cases "di < n")
      case True
      then have u: "[di + 1..<Suc n] = [di + 1..<n] @ [n]" by simp
      from Suc.IH [OF True] show ?thesis
        unfolding u by (auto simp: less_Suc_eq split: prod.splits)
    next
      case False
      with Suc.prems have "n = di" by simp
      then show ?thesis by (auto simp: less_Suc_eq_le)
    qed
  qed simp
  from this [OF assms] show ?thesis by (simp add: rank_scan_def)
qed

lemma rev_sort_Cons_max:
  fixes xs ys :: "real list"
  assumes "mset xs = add_mset m (mset ys)" "\<forall>x\<in>set xs. x \<le> m"
  shows "rev (sort xs) = m # rev (sort ys)"
proof -
  have "set ys \<subseteq> set xs" using assms(1) by (metis set_mset_mset set_mset_add_mset_insert subset_insertI)
  then have "sorted (sort ys @ [m])" using assms(2) by (auto simp: sorted_append)
  moreover have "mset (sort ys @ [m]) = mset xs" using assms(1) by simp
  ultimately have "sort xs = sort ys @ [m]" by (metis properties_for_sort)
  then show ?thesis by simp
qed

lemma rank_loop_nth:
  "di \<le> k \<Longrightarrow> k < length a \<Longrightarrow> rank_loop a di k = rev (sort (drop di a)) ! (k - di)"
proof (induction a di k rule: rank_loop.induct)
  case (1 a di k)
  obtain mx mi where sc: "rank_scan a di = (mx, mi)" by (cases "rank_scan a di") auto
  have d: "di < length a" using 1(2,3) by simp
  from rank_scan_max [OF d] sc have mi: "di \<le> mi" "mi < length a" "mx = a ! mi"
    "\<forall>j. di \<le> j \<and> j < length a \<longrightarrow> a ! j \<le> mx" by auto
  let ?a = "a[mi := a ! di, di := mx]"
  have sw: "mset ?a = mset a" unfolding mi(3) by (rule mset_swap [OF d mi(2)])
  have "take di ?a = take di a" using mi(1) by simp
  moreover have "drop di ?a = mx # drop (Suc di) ?a" using d by (simp add: Cons_nth_drop_Suc [symmetric])
  ultimately have "mset ?a = mset (take di a) + add_mset mx (mset (drop (Suc di) ?a))"
    by (metis append_take_drop_id mset.simps(2) mset_append)
  moreover have "mset a = mset (take di a) + mset (drop di a)"
    by (metis append_take_drop_id mset_append)
  ultimately have m: "mset (drop di a) = add_mset mx (mset (drop (Suc di) ?a))" using sw by simp
  have "\<forall>x\<in>set (drop di a). x \<le> mx" using mi(4) by (auto simp: in_set_conv_nth)
  from rev_sort_Cons_max [OF m this]
  have rs: "rev (sort (drop di a)) = mx # rev (sort (drop (Suc di) ?a))" .
  show ?case
  proof (cases "di = k")
    case True
    then show ?thesis using sc rs by (subst rank_loop.simps) simp
  next
    case False
    with 1(2,3) sc 1(1) [OF 1(2) sc [symmetric] refl False]
    have "rank_loop ?a (Suc di) k = rev (sort (drop (Suc di) ?a)) ! (k - Suc di)" by simp
    with False 1(2) sc have "rank_loop a di k = rev (sort (drop (Suc di) ?a)) ! (k - Suc di)"
      by (subst rank_loop.simps) simp
    moreover have "k - di = Suc (k - Suc di)" using False 1(2) by simp
    ultimately show ?thesis unfolding rs by simp
  qed
qed

section \<open>The tokens of SARC\<close>

datatype sarc_event = SArrive gPacket | STry | SReplenish real

text \<open>
  The requests that SARC lets through: \<open>old\<close> until the last replenishment, \<open>new\<close> since then.
\<close>

fun sarc_step ::
  "sarc_event \<Rightarrow> sarc \<times> gPacket list \<times> gPacket list \<Rightarrow> (sarc \<times> gPacket list \<times> gPacket list) res" where
  "sarc_step (SArrive p) (s, old, new) =
     bindR (newArrival p s) (\<lambda>(r, s). Inr (s, old, case r of None \<Rightarrow> new | Some x \<Rightarrow> new @ [x]))"
| "sarc_step STry (s, old, new) =
     (case sarc_tryToDispatch s of (r, s) \<Rightarrow> Inr (s, old, case r of None \<Rightarrow> new | Some x \<Rightarrow> new @ [x]))"
| "sarc_step (SReplenish now) (s, old, new) = Inr (replenishTokens now s, old @ new, [])"

definition spent :: "int \<Rightarrow> gPacket list \<Rightarrow> int" where
  "spent a out = int (length (filter (\<lambda>p. getApp p = a) out))"

lemma spent_simps [simp]:
  "spent a (out @ out') = spent a out + spent a out'" "spent a [] = 0" "0 \<le> spent a out"
  "spent a [p] = (if getApp p = a then 1 else 0)"
  by (simp_all add: spent_def)

text \<open>
  The tokens of the application \<open>a\<close> are full but for the requests let through since the
  last replenishment, and at most \<open>b\<close> of these went at a time.
\<close>

definition sarc_ledger :: "int \<Rightarrow> real \<Rightarrow> sarc \<times> gPacket list \<times> gPacket list \<Rightarrow> bool" where
  "sarc_ledger a m = (\<lambda>(s, old, new). 0 \<le> a \<and> a < s_appNum s \<and> max_token s a = m \<and>
     cur_token s a = m - of_int (spent a new) \<and> spent a new \<le> max 0 \<lceil>m\<rceil>)"

lemma sarc_spend:
  assumes "sarc_ledger a m (s, old, new)" "getApp p = a" "cur_token s a > 0"
  shows "spent a new + 1 \<le> max 0 \<lceil>m\<rceil>"
proof -
  from assms have "of_int (spent a new) < m" by (simp add: sarc_ledger_def)
  then have "spent a new < \<lceil>m\<rceil>" by (simp add: less_ceiling_iff)
  then show ?thesis by simp
qed

lemma sarc_try_cases:
  "sarc_try is s = (r, s') \<Longrightarrow>
    (r = None \<and> s' = s \<and> (\<forall>i\<in>set is. reqQ s i \<noteq> [] \<longrightarrow> cur_token s (getApp (hd (reqQ s i))) \<le> 0)) \<or>
    (\<exists>pkt rest i. r = Some pkt \<and> i \<in> set is \<and> reqQ s i = pkt # rest \<and> cur_token s (getApp pkt) > 0 \<and>
       s' = s\<lparr>cur_token := (cur_token s)(getApp pkt := cur_token s (getApp pkt) - 1),
              reqQ := (reqQ s)(i := rest)\<rparr>)"
  by (induction "is") (auto split: list.splits if_splits)

lemma sarc_step_ledger:
  assumes "sarc_ledger a m x" "sarc_step ev x = Inr x'"
  shows "sarc_ledger a m x'"
proof -
  obtain s old new where x: "x = (s, old, new)" by (cases x) auto
  note L = assms(1) [unfolded x]
  show ?thesis
  proof (cases ev)
    case (SArrive p)
    show ?thesis
    proof (cases "cur_token s (getApp p) > 0")
      case True
      with SArrive assms(2) x have x': "x' = (s\<lparr>cur_token := (cur_token s)(getApp p := cur_token s (getApp p) - 1)\<rparr>,
          old, new @ [p])" by (auto simp: newArrival_def Let_def split: if_splits)
      from sarc_spend [OF L, of p] True L show ?thesis by (auto simp: x' sarc_ledger_def)
    next
      case False
      with SArrive assms x show ?thesis
        by (auto simp: sarc_ledger_def newArrival_def Let_def split: if_splits)
    qed
  next
    case STry
    obtain r s' where t: "sarc_tryToDispatch s = (r, s')" by (cases "sarc_tryToDispatch s") auto
    with STry assms(2) x have x': "x' = (s', old, case r of None \<Rightarrow> new | Some y \<Rightarrow> new @ [y])" by simp
    consider "r = None" "s' = s"
      | pkt i rest where "r = Some pkt" "cur_token s (getApp pkt) > 0"
          "s' = s\<lparr>cur_token := (cur_token s)(getApp pkt := cur_token s (getApp pkt) - 1), reqQ := (reqQ s)(i := rest)\<rparr>"
      using sarc_try_cases [OF t [unfolded sarc_tryToDispatch_def]] by blast
    then show ?thesis
    proof cases
      case 1
      with L show ?thesis by (simp add: x')
    next
      case (2 pkt)
      with L sarc_spend [OF L, of pkt] show ?thesis by (auto simp: x' sarc_ledger_def)
    qed
  next
    case (SReplenish now)
    with assms x show ?thesis by (auto simp: sarc_ledger_def replenishTokens_def)
  qed
qed

definition replenishments :: "sarc_event list \<Rightarrow> int" where
  "replenishments evs = int (length (filter (\<lambda>e. case e of SReplenish t \<Rightarrow> True | _ \<Rightarrow> False) evs))"

lemma sarc_step_old:
  "sarc_step ev (s, old, new) = Inr (s', old', new') \<Longrightarrow>
     old' = (case ev of SReplenish t \<Rightarrow> old @ new | _ \<Rightarrow> old)"
  by (cases ev) (auto split: prod.splits)

lemma sarc_old_bound:
  assumes "sarc_ledger a m (s, old, new)" "run_res sarc_step evs (s, old, new) = Inr (s', old', new')"
  shows "sarc_ledger a m (s', old', new') \<and>
    spent a old' \<le> spent a old + replenishments evs * max 0 \<lceil>m\<rceil>"
  using assms
proof (induction evs arbitrary: s old new)
  case (Cons ev evs)
  from Cons.prems(2) obtain s1 old1 new1 where d: "sarc_step ev (s, old, new) = Inr (s1, old1, new1)"
    and r: "run_res sarc_step evs (s1, old1, new1) = Inr (s', old', new')" by (auto simp del: sarc_step.simps)
  from sarc_step_ledger [OF Cons.prems(1) d] have L: "sarc_ledger a m (s1, old1, new1)" .
  have "spent a new \<le> max 0 \<lceil>m\<rceil>" using Cons.prems(1) by (simp add: sarc_ledger_def)
  then have "spent a old1 + replenishments evs * max 0 \<lceil>m\<rceil> \<le> spent a old + replenishments (ev # evs) * max 0 \<lceil>m\<rceil>"
    using sarc_step_old [OF d] by (cases ev) (auto simp: replenishments_def distrib_right)
  with Cons.IH [OF L r] show ?case by linarith
qed (simp add: replenishments_def)

section \<open>Properties\<close>

text \<open>
  Claim C36: \<^verbatim>\<open>getValueByRank\<close> computes an order statistic. For a rank in (0, 1] and a
  buffer with \<open>n > 0\<close> entries, the partial selection sort returns the entry that has
  \<open>n * (1 - rank)\<close>, rounded down, entries before it in decreasing order; with rank
  0.95 the 95th percentile of the response times.
\<close>

theorem getValueByRank_order_statistic:
  assumes "array \<noteq> []" "0 < rank" "rank \<le> 1"
  shows "getValueByRank array rank =
    Inr (rev (sort array) ! nat \<lfloor>of_int (int (length array)) * (1 - rank)\<rfloor>)"
proof -
  let ?n = "real (length array)"
  have n: "0 < ?n" using assms(1) by simp
  have "0 \<le> ?n * (1 - rank)" using n assms(3) by simp
  moreover have "?n * (1 - rank) < ?n" using n assms(2) by (simp add: algebra_simps)
  ultimately have "nat \<lfloor>?n * (1 - rank)\<rfloor> < length array" by linarith
  then have "rank_loop array 0 (nat \<lfloor>?n * (1 - rank)\<rfloor>) = rev (sort array) ! nat \<lfloor>?n * (1 - rank)\<rfloor>"
    using rank_loop_nth [of 0 "nat \<lfloor>?n * (1 - rank)\<rfloor>" array] by simp
  with assms \<open>0 \<le> ?n * (1 - rank)\<close> show ?thesis
    by (simp add: getValueByRank_def trunc_double_nonneg)
qed

theorem getValueByRank_order_statistic_witness:
  "getValueByRank [3, 9, 4] (1 / 2) = Inr 4"
proof -
  have "sort [3, 9, 4 :: real] = [3, 4, 9]" by simp
  moreover have "\<lfloor>3 * (1 - 1 / 2) :: real\<rfloor> = 1" by simp
  ultimately show ?thesis
    using getValueByRank_order_statistic [of "[3, 9, 4]" "1 / 2"] by simp
qed

text \<open>
  Claim C35: SARC limits the rate. Let \<open>m\<close> be the throughput of the application \<open>a\<close> times
  the replenishment interval. Whatever arrives, however often dispatching is tried and
  whenever the tokens are replenished, the tokens of \<open>a\<close> are \<open>m\<close> minus the requests of
  \<open>a\<close> let through since the last replenishment (unused tokens do not add up); these requests
  are at most \<open>m\<close> rounded up, and with those before them at most that many per
  replenishment, the initial filling counted.
\<close>

theorem sarc_rate_limit:
  fixes thr interval a
  defines "m \<equiv> thr a * interval"
  assumes "run_res sarc_step evs (SARC_new n thr interval mem, [], []) = Inr (s, old, new)" "0 \<le> a" "a < n"
  shows "cur_token s a = m - of_int (spent a new) \<and> spent a new \<le> max 0 \<lceil>m\<rceil> \<and>
    spent a (old @ new) \<le> (replenishments evs + 1) * max 0 \<lceil>m\<rceil>"
proof -
  have "sarc_ledger a m (SARC_new n thr interval mem, [], [])"
    using assms(3,4) by (simp add: sarc_ledger_def SARC_new_def m_def)
  from sarc_old_bound [OF this assms(2)] show ?thesis
    by (simp add: sarc_ledger_def distrib_right)
qed

text \<open>
  With 1.5 tokens two requests pass and the third waits; after a replenishment it goes,
  and half a token is left.
\<close>

theorem sarc_rate_limit_witness:
  "\<exists>s old new. run_res sarc_step [SArrive (demo_pkt 1 0 5), SArrive (demo_pkt 2 0 5), SArrive (demo_pkt 3 0 5), STry,
        SReplenish 7, STry, STry] (SARC_new 1 (\<lambda>_. 3) (1 / 2) (\<lambda>_. 0), [], []) = Inr (s, old, new) \<and>
     map getID old = [1, 2] \<and> map getID new = [3] \<and> cur_token s 0 = 1 / 2 \<and> spent 0 (old @ new) \<le> 4"
proof -
  define evs where "evs = [SArrive (demo_pkt 1 0 5), SArrive (demo_pkt 2 0 5), SArrive (demo_pkt 3 0 5), STry,
        SReplenish 7, STry, STry]"
  obtain s old new where r: "run_res sarc_step evs (SARC_new 1 (\<lambda>_. 3) (1 / 2) (\<lambda>_. 0), [], []) = Inr (s, old, new)"
    and o: "map getID old = [1, 2]" "map getID new = [3]" "spent 0 new = 1"
    by (simp add: evs_def newArrival_def Let_def demo_pkt_simps SARC_new_def sarc_tryToDispatch_def
        replenishTokens_def spent_def)
  have k: "replenishments evs = 1" by (simp add: evs_def replenishments_def)
  have c: "\<lceil>3 * (1 / 2) :: real\<rceil> = 2" by simp
  from sarc_rate_limit [OF r, of 0] k c o(3) have "cur_token s 0 = 1 / 2" "spent 0 (old @ new) \<le> 4"
    by simp_all
  with r o show ?thesis unfolding evs_def by (intro exI conjI)
qed

text \<open>
  AVATAR never holds back a request that misses its deadline. With an ordered
  queue without degree, \<^verbatim>\<open>dispatchNext\<close> returns NULL only when no waiting request is
  past its deadline and the queue is empty or the storage holds \<^verbatim>\<open>L_O\<close> requests;
  otherwise it returns the request with the earliest deadline.
\<close>

theorem avatar_missed_deadline_first:
  assumes "edf_sorted (av_queue v)" "degree (av_queue v) = -1"
  shows "case avatar_dispatchNext now v of
      (None, v') \<Rightarrow>
        (\<forall>x\<in>set (waitQ (av_queue v)). now \<le> edf_deadline (QoSDelay (av_queue v)) x) \<and>
        (waitQ (av_queue v) = [] \<or> L_O v \<le> of_int (L_O_Exist v)) \<and>
        waitQ (av_queue v') = waitQ (av_queue v) \<and> osQ (av_queue v') = osQ (av_queue v)
    | (Some p, v') \<Rightarrow> \<exists>x rest. waitQ (av_queue v) = x # rest \<and> p = x\<lparr>getScheduletime := now\<rparr> \<and>
        (\<forall>y\<in>set rest. edf_deadline (QoSDelay (av_queue v)) x \<le> edf_deadline (QoSDelay (av_queue v)) y) \<and>
        waitQ (av_queue v') = rest \<and> osQ (av_queue v') = osQ (av_queue v) @ [p]"
proof (cases "waitQ (av_queue v)")
  case Nil
  then show ?thesis
    by (auto simp: avatar_dispatchNext_def Let_def edf_getNumReqsInWaitQWithinDeadline_def
        fifo_dispatchNext_def L_O_Exist_def fifo_getOsQSize_def split: if_splits)
next
  case (Cons x rest)
  let ?d = "edf_deadline (QoSDelay (av_queue v))"
  from assms(1) Cons have s: "\<forall>y\<in>set rest. ?d x \<le> ?d y" by (simp add: edf_sorted_def)
  show ?thesis
  proof (cases "?d x < now \<or> of_int (L_O_Exist v) < L_O v")
    case True
    have "edf_count_within (QoSDelay (av_queue v)) now (x # rest) \<noteq> 0 \<or> of_int (L_O_Exist v) < L_O v"
    proof (cases "?d x < now")
      case True
      have "0 \<le> edf_count_within (QoSDelay (av_queue v)) now rest" by (induction rest) auto
      with True show ?thesis by simp
    qed (use True in simp)
    with Cons s assms(2) show ?thesis
      by (simp add: avatar_dispatchNext_def edf_getNumReqsInWaitQWithinDeadline_def
          fifo_dispatchNext_def Let_def del: edf_count_within.simps)
  next
    case False
    with Cons s show ?thesis
      by (auto simp: avatar_dispatchNext_def edf_getNumReqsInWaitQWithinDeadline_def Let_def)
  qed
qed

definition demo_avatar :: avatar where
  "demo_avatar = (AVATAR_new 2 (\<lambda>_. 1) 5 (\<lambda>_. 0) (\<lambda>_. 0) (\<lambda>_. Fin 0))
     \<lparr>av_queue := (EDF_new_delays 1 (-1) 2 (\<lambda>_. 1) (\<lambda>_. 0))\<lparr>waitQ := [demo_pkt 1 0 5, demo_pkt 2 1 5]\<rparr>,
      L_O := 0\<rparr>"

theorem avatar_missed_deadline_first_witness:
  "\<exists>v'. avatar_dispatchNext 3 demo_avatar = (Some ((demo_pkt 1 0 5)\<lparr>getScheduletime := 3\<rparr>), v')"
proof -
  have "edf_sorted (av_queue demo_avatar)" "degree (av_queue demo_avatar) = -1"
    by (simp_all add: demo_avatar_def edf_sorted_def EDF_new_delays_def edf_deadline_def demo_pkt_simps)
  note T = avatar_missed_deadline_first [OF this, of 3]
  have "waitQ (av_queue demo_avatar) = [demo_pkt 1 0 5, demo_pkt 2 1 5]"
    "\<not> 3 \<le> edf_deadline (QoSDelay (av_queue demo_avatar)) (demo_pkt 1 0 5)"
    by (simp_all add: demo_avatar_def EDF_new_delays_def edf_deadline_def demo_pkt_simps)
  with T show ?thesis
    by (cases "avatar_dispatchNext 3 demo_avatar") (auto split: option.splits)
qed

section \<open>The end of a window\<close>

lemma fold_min_dbl:
  fixes f :: "int \<Rightarrow> dbl"
  defines "g \<equiv> \<lambda>i (l::real). case f i of Fin p \<Rightarrow> if l > p then p else l | _ \<Rightarrow> l"
  shows "fold g xs l \<le> l \<and> (\<forall>i\<in>set xs. \<forall>p. f i = Fin p \<longrightarrow> fold g xs l \<le> p) \<and>
    (fold g xs l = l \<or> (\<exists>i\<in>set xs. f i = Fin (fold g xs l)))"
proof (induction xs arbitrary: l)
  case (Cons x xs)
  have g: "g x l \<le> l" "\<forall>p. f x = Fin p \<longrightarrow> g x l \<le> p" "g x l = l \<or> f x = Fin (g x l)"
    by (auto simp: g_def split: dbl.splits)
  from Cons.IH [of "g x l"] g show ?case by fastforce
qed simp

lemma windowEnd_app_frame:
  "let v' = windowEnd_app XL XU i v in
     av_queue v' = av_queue v \<and> av_appNum v' = av_appNum v \<and> T_O_All v' = T_O_All v \<and>
     windowIndex v' = windowIndex v \<and> currentWindowEnd v' = currentWindowEnd v \<and>
     windowSize v' = windowSize v \<and> (\<forall>j. j \<noteq> i \<longrightarrow> L_O_PerApp v' j = L_O_PerApp v j) \<and>
     (T_O_All v i = [] \<longrightarrow> L_O_PerApp v' i = Fin (AVATAR_INFINITY + 1)) \<and>
     ((miss_deadline v \<longrightarrow> \<not> av_idle_status v) \<longrightarrow> (miss_deadline v' \<longrightarrow> \<not> av_idle_status v'))"
  by (simp add: windowEnd_app_def avatar_underload_def avatar_overload_def Let_def)

lemma windowEnd_fold_frame:
  assumes "distinct is"
  shows "let v' = fold (windowEnd_app XL XU) is v in
     av_queue v' = av_queue v \<and> av_appNum v' = av_appNum v \<and> T_O_All v' = T_O_All v \<and>
     windowIndex v' = windowIndex v \<and> currentWindowEnd v' = currentWindowEnd v \<and>
     windowSize v' = windowSize v \<and> (\<forall>j. j \<notin> set is \<longrightarrow> L_O_PerApp v' j = L_O_PerApp v j) \<and>
     (\<forall>i\<in>set is. T_O_All v i = [] \<longrightarrow> L_O_PerApp v' i = Fin (AVATAR_INFINITY + 1)) \<and>
     ((miss_deadline v \<longrightarrow> \<not> av_idle_status v) \<longrightarrow> (miss_deadline v' \<longrightarrow> \<not> av_idle_status v'))"
  using assms
proof (induction "is" arbitrary: v)
  case (Cons i "is")
  from Cons.prems have d: "distinct is" and ni: "i \<notin> set is" by auto
  have f: "fold (windowEnd_app XL XU) (i # is) v = fold (windowEnd_app XL XU) is (windowEnd_app XL XU i v)" by simp
  from Cons.IH [OF d, of "windowEnd_app XL XU i v"] windowEnd_app_frame [of XL XU i v] ni
  show ?case unfolding f Let_def by auto
qed simp

lemma calculateStatistics_ok:
  "\<exists>v'. calculateStatistics v = Inr v' \<and> av_queue v' = av_queue v \<and> av_appNum v' = av_appNum v \<and>
     T_O_All v' = T_O_All v \<and> windowIndex v' = windowIndex v \<and> currentWindowEnd v' = currentWindowEnd v \<and>
     windowSize v' = windowSize v \<and> av_X v' = av_X v"
proof -
  let ?P = "\<lambda>x. av_queue x = av_queue v \<and> av_appNum x = av_appNum v \<and> T_O_All x = T_O_All v \<and>
     windowIndex x = windowIndex v \<and> currentWindowEnd x = currentWindowEnd v \<and>
     windowSize x = windowSize v \<and> av_X x = av_X v"
  have s: "\<exists>x'. calculateStatistics_at i x = Inr x'" for i x
    by (simp add: calculateStatistics_at_def getValueByRank_def RESP_TIME_RANK_def Let_def)
  then obtain v' where v': "calculateStatistics v = Inr v'"
    unfolding calculateStatistics_def using run_res_ok [of "[0..av_appNum v - 1]" calculateStatistics_at v] by blast
  have "?P v'"
    by (rule run_res_invariant [where f = calculateStatistics_at, OF _ _ v' [unfolded calculateStatistics_def]])
      (auto simp: calculateStatistics_at_def)
  with v' show ?thesis by blast
qed

lemma windowEnd_queue:
  assumes "windowEnd v = Inr v'"
  shows "av_queue v' = av_queue v"
proof -
  obtain v1 where c: "calculateStatistics v = Inr v1" and v1: "av_queue v1 = av_queue v"
    using calculateStatistics_ok [of v] by blast
  have "av_queue (fold (windowEnd_app XL XU) is x) = av_queue x" for XL XU "is" x
    by (induction "is" arbitrary: x) (simp_all add: windowEnd_app_frame [unfolded Let_def])
  with assms c v1 show ?thesis by (auto simp: windowEnd_def Let_def)
qed

text \<open>
  The end of a window always succeeds and sets a threshold that every
  application accepts. \<^verbatim>\<open>L_O\<close> is at most \<^verbatim>\<open>AVATAR_INFINITY\<close> and at most the (finite)
  threshold of every application, and it is one of these values; an application
  with no completion in the window does not lower it; when a deadline was missed
  the status is not idle; the queue is unchanged, the window moves on by its size
  and its counters are cleared.
\<close>

theorem windowEnd_threshold:
  "\<exists>v'. windowEnd v = Inr v' \<and> L_O v' \<le> AVATAR_INFINITY \<and>
    (\<forall>i\<in>{0..<av_appNum v}. \<forall>p. L_O_PerApp v' i = Fin p \<longrightarrow> L_O v' \<le> p) \<and>
    (L_O v' = AVATAR_INFINITY \<or>
      (\<exists>i\<in>{0..<av_appNum v}. L_O_PerApp v' i = Fin (L_O v') \<and> T_O_All v i \<noteq> [])) \<and>
    (miss_deadline v' \<longrightarrow> \<not> av_idle_status v') \<and>
    av_queue v' = av_queue v \<and> windowIndex v' = windowIndex v + 1 \<and>
    currentWindowEnd v' = currentWindowEnd v + windowSize v \<and>
    av_X v' = 0 \<and> L_O_max v' = 0 \<and> (\<forall>i\<in>{0..<av_appNum v}. T_O_All v' i = [])"
proof -
  obtain v1 where c: "calculateStatistics v = Inr v1" and v1: "av_queue v1 = av_queue v"
    "av_appNum v1 = av_appNum v" "T_O_All v1 = T_O_All v" "windowIndex v1 = windowIndex v"
    "currentWindowEnd v1 = currentWindowEnd v" "windowSize v1 = windowSize v"
    using calculateStatistics_ok [of v] by blast
  define XL where "XL = L_O_Exist v1 + L_E_Exist_Deadline (currentWindowEnd v1 + windowSize v1) v1 + L_E_New_Deadline v1"
  define XU where "XU = L_O_Exist v1 + L_E_Exist v1 + L_E_New v1"
  define v2 where "v2 = (if av_X v1 \<noteq> 0 then v1\<lparr>L_O_X_Lower := L_O v1 * of_int XL / of_int (av_X v1),
                     L_O_X_Upper := L_O v1 * of_int XU / of_int (av_X v1)\<rparr> else v1)\<lparr>miss_deadline := False\<rparr>"
  define v3 where "v3 = fold (windowEnd_app XL XU) [0..av_appNum v2 - 1] v2"
  have v2: "av_queue v2 = av_queue v" "av_appNum v2 = av_appNum v" "T_O_All v2 = T_O_All v"
    "windowIndex v2 = windowIndex v" "currentWindowEnd v2 = currentWindowEnd v"
    "windowSize v2 = windowSize v" "\<not> miss_deadline v2" unfolding v2_def by (simp_all add: v1)
  have v3: "av_queue v3 = av_queue v" "av_appNum v3 = av_appNum v" "T_O_All v3 = T_O_All v"
    "windowIndex v3 = windowIndex v" "currentWindowEnd v3 = currentWindowEnd v"
    "windowSize v3 = windowSize v" "miss_deadline v3 \<longrightarrow> \<not> av_idle_status v3"
    "\<forall>i\<in>{0..<av_appNum v}. T_O_All v i = [] \<longrightarrow> L_O_PerApp v3 i = Fin (AVATAR_INFINITY + 1)"
    using windowEnd_fold_frame [of "[0..av_appNum v2 - 1]" XL XU v2, unfolded Let_def v3_def [symmetric]] v2
    by simp_all
  have s: "set [0..av_appNum v3 - 1] = {0..<av_appNum v}" using v3(2) by auto
  note M = fold_min_dbl [where f = "L_O_PerApp v3" and xs = "[0..av_appNum v3 - 1]" and l = AVATAR_INFINITY,
      folded windowEnd_min_def, unfolded s]
  have "windowEnd_min v3 = AVATAR_INFINITY \<or>
      (\<exists>i\<in>{0..<av_appNum v}. L_O_PerApp v3 i = Fin (windowEnd_min v3) \<and> T_O_All v i \<noteq> [])"
  proof (cases "windowEnd_min v3 = AVATAR_INFINITY")
    case False
    with M obtain i where i: "i \<in> {0..<av_appNum v}" "L_O_PerApp v3 i = Fin (windowEnd_min v3)" by blast
    have "T_O_All v i \<noteq> []"
    proof
      assume "T_O_All v i = []"
      with v3(8) i have "windowEnd_min v3 = AVATAR_INFINITY + 1" by simp
      with M show False by simp
    qed
    with i show ?thesis by blast
  qed simp
  moreover obtain v' where "windowEnd v = Inr v'" "L_O v' = windowEnd_min v3" "L_O_PerApp v' = L_O_PerApp v3"
    "miss_deadline v' = miss_deadline v3" "av_idle_status v' = av_idle_status v3" "av_queue v' = av_queue v3"
    "windowIndex v' = windowIndex v3 + 1" "currentWindowEnd v' = currentWindowEnd v3 + windowSize v3"
    "av_X v' = 0" "L_O_max v' = 0" "\<forall>i\<in>{0..<av_appNum v3}. T_O_All v' i = []"
    unfolding windowEnd_def c bindR.simps Let_def XL_def [symmetric] XU_def [symmetric]
      v2_def [symmetric] v3_def [symmetric] by simp
  ultimately show ?thesis using M v3 by (intro exI [of _ v']) simp
qed

theorem windowEnd_threshold_witness:
  "\<exists>v'. windowEnd ((AVATAR_new 1 (\<lambda>_. 5) 10 (\<lambda>_. 0) (\<lambda>_. 1) (\<lambda>_. Fin 4))\<lparr>T_O_All := (\<lambda>_. [3])\<rparr>) = Inr v' \<and>
    L_O v' \<le> AVATAR_INFINITY \<and> currentWindowEnd v' = 20 \<and> T_O_All v' 0 = []"
  using windowEnd_threshold [of "(AVATAR_new 1 (\<lambda>_. 5) 10 (\<lambda>_. 0) (\<lambda>_. 1) (\<lambda>_. Fin 4))\<lparr>T_O_All := (\<lambda>_. [3])\<rparr>"]
  by (auto simp: AVATAR_new_def Let_def)

end
