(* ===== verification/I2l.thy ===== *)
theory I2l
  imports Avatar
begin

text \<open>
  \<^verbatim>\<open>scheduler/I2L/I2L.cc\<close>: SARC in front of AVATAR. A request goes to AVATAR when its
  application has a token, otherwise it is queued at SARC; the tokens are
  replenished periodically, and ahead of time whenever AVATAR finds the storage
  idle. \<^verbatim>\<open>processParameters\<close> reads its groups with \<^verbatim>\<open>sscanf\<close>: the model takes the
  groups read (whose ids are to be below \<^verbatim>\<open>MAX_APP\<close>, the code does not check it) and the pair in braces, \<open>None\<close> when there is no brace.
\<close>

record i2l =
  i2l_appNum :: int
  i2l_QoSThroughput :: "int \<Rightarrow> real"
  i2l_QoSDelay :: "int \<Rightarrow> real"
  SARC_replenish_interval :: real
  AVATAR_window_size :: real
  the_sarc :: sarc
  the_avatar :: avatar
  idle_status :: bool

definition MINIMAL_DBL :: real where "MINIMAL_DBL = 1 / 1000000"

definition i2l_processParameters ::
  "(int \<times> int \<times> real) list \<Rightarrow> (int \<Rightarrow> real) \<times> (int \<Rightarrow> real) \<Rightarrow> (int \<Rightarrow> real) \<times> (int \<Rightarrow> real)" where
  "i2l_processParameters groups =
     fold (\<lambda>(i, throughput, delay) (t, d). (t(i := of_int throughput), d(i := delay))) groups"

definition I2L_new ::
  "int \<Rightarrow> (int \<times> int \<times> real) list \<Rightarrow> (real \<times> real) option \<Rightarrow>
   (int \<Rightarrow> real) \<Rightarrow> (int \<Rightarrow> int) \<Rightarrow> (int \<Rightarrow> dbl) \<Rightarrow> i2l res" where
  "I2L_new ttlapps groups braces mem cnt per =
    (if ttlapps > MAX_APP then Inl (OutOfBounds ''cur_token'')
     else case braces of
       None \<Rightarrow> Inl (Abort ''SFQRC::processParameters'')
     | Some (interval, wsize) \<Rightarrow>
         if interval \<le> 0 \<or> wsize \<le> 0 then Inl (Abort ''I2L'')
         else
           let (t, d) = i2l_processParameters groups (mem, mem) in
           Inr \<lparr> i2l_appNum = ttlapps, i2l_QoSThroughput = t, i2l_QoSDelay = d,
                 SARC_replenish_interval = interval, AVATAR_window_size = wsize,
                 the_sarc = SARC_new ttlapps t interval mem,
                 the_avatar = AVATAR_new ttlapps d wsize mem cnt per, idle_status = True \<rparr>)"

text \<open>
  The loop that moves requests from SARC to AVATAR until SARC returns NULL. Every
  turn removes a request from SARC, so one turn more than the requests it holds is
  enough fuel.
\<close>

fun i2l_drain :: "nat \<Rightarrow> real \<Rightarrow> sarc \<Rightarrow> avatar \<Rightarrow> (sarc \<times> avatar) res" where
  "i2l_drain 0 now s v = Inl (Diverge ''I2L'')"
| "i2l_drain (Suc n) now s v =
    (case sarc_tryToDispatch s of
       (None, s) \<Rightarrow> Inr (s, v)
     | (Some pkt, s) \<Rightarrow> bindR (avatar_pushWaitQ now pkt v) (\<lambda>v. i2l_drain n now s v))"

definition sarc_load :: "sarc \<Rightarrow> nat" where
  "sarc_load s = (\<Sum>i\<in>{0..<s_appNum s}. length (reqQ s i))"

definition i2l_replenish :: "real \<Rightarrow> i2l \<Rightarrow> i2l res" where
  "i2l_replenish now q =
    (let s = replenishTokens now (the_sarc q) in
     bindR (i2l_drain (Suc (sarc_load s)) now s (the_avatar q)) (\<lambda>(s, v).
     Inr (q\<lparr>the_sarc := s, the_avatar := v\<rparr>)))"

definition i2l_pushWaitQ :: "real \<Rightarrow> gPacket \<Rightarrow> i2l \<Rightarrow> i2l res" where
  "i2l_pushWaitQ now pkt q =
     bindR (newArrival pkt (the_sarc q)) (\<lambda>(r, s).
     case r of
       Some pkt \<Rightarrow>
         bindR (avatar_pushWaitQ now pkt (the_avatar q)) (\<lambda>v. Inr (q\<lparr>the_sarc := s, the_avatar := v\<rparr>))
     | None \<Rightarrow>
         let q = q\<lparr>the_sarc := s\<rparr> in
         if idle_status q then i2l_replenish now q else Inr q)"

definition i2l_dispatchNext :: "real \<Rightarrow> i2l \<Rightarrow> (gPacket option \<times> i2l) res" where
  "i2l_dispatchNext now q =
    (case avatar_dispatchNext now (the_avatar q) of
       (Some pkt, v) \<Rightarrow> Inr (Some pkt, q\<lparr>the_avatar := v\<rparr>)
     | (None, v) \<Rightarrow>
         let q = q\<lparr>the_avatar := v\<rparr> in
         if \<not> idle_status q \<and> getIdleStatus v then
           bindR (i2l_replenish now q) (\<lambda>q.
           case avatar_dispatchNext now (the_avatar q) of
             (r, v) \<Rightarrow> Inr (r, q\<lparr>the_avatar := v, idle_status := getIdleStatus v\<rparr>))
         else Inr (None, q\<lparr>idle_status := getIdleStatus v\<rparr>))"

definition i2l_popOsQ :: "real \<Rightarrow> int \<Rightarrow> i2l \<Rightarrow> (gPacket option \<times> i2l) res" where
  "i2l_popOsQ now pid q =
     bindR (avatar_popOsQ now pid (the_avatar q)) (\<lambda>(r, v). Inr (r, q\<lparr>the_avatar := v\<rparr>))"

definition i2l_queryJob :: "int \<Rightarrow> i2l \<Rightarrow> gPacket option" where
  "i2l_queryJob pid q = avatar_queryJob pid (the_avatar q)"

definition i2l_next_event :: "i2l \<Rightarrow> real" where
  "i2l_next_event q =
    (if getNextPeriodicReplenishmentTime (the_sarc q) > currentWindowEnd (the_avatar q)
     then currentWindowEnd (the_avatar q) else getNextPeriodicReplenishmentTime (the_sarc q))"

definition i2l_notify :: "real \<Rightarrow> i2l \<Rightarrow> (real \<times> i2l) res" where
  "i2l_notify now q =
     bindR
       (if now + MINIMAL_DBL \<ge> getNextPeriodicReplenishmentTime (the_sarc q) then i2l_replenish now q
        else if now + MINIMAL_DBL \<ge> currentWindowEnd (the_avatar q)
        then bindR (windowEnd (the_avatar q)) (\<lambda>v. Inr (q\<lparr>the_avatar := v\<rparr>))
        else Inr q)
       (\<lambda>q. Inr (i2l_next_event q, q))"

section \<open>The contract\<close>

definition pkt_keys :: "'b bPacket_scheme list \<Rightarrow> (int \<times> int) multiset" where
  "pkt_keys ps = image_mset pkt_key (mset ps)"

lemma pkt_keys_simps [simp]:
  "pkt_keys [] = {#}" "pkt_keys (p # ps) = add_mset (pkt_key p) (pkt_keys ps)"
  "pkt_keys (ps @ qs) = pkt_keys ps + pkt_keys qs"
  by (auto simp: pkt_keys_def)

definition sarc_keys :: "sarc \<Rightarrow> (int \<times> int) multiset" where
  "sarc_keys s = (\<Sum>i\<in>{0..<s_appNum s}. pkt_keys (reqQ s i))"

definition avatar_inv :: "avatar \<Rightarrow> bool" where
  "avatar_inv v \<longleftrightarrow> edf_sorted (av_queue v) \<and> degree (av_queue v) = -1"

definition i2l_inv :: "i2l \<Rightarrow> bool" where
  "i2l_inv q \<longleftrightarrow> avatar_inv (the_avatar q)"

definition i2l_waiting :: "i2l \<Rightarrow> (int \<times> int) multiset" where
  "i2l_waiting q = sarc_keys (the_sarc q) + pkt_keys (waitQ (av_queue (the_avatar q)))"

definition i2l_outstanding :: "i2l \<Rightarrow> (int \<times> int) multiset" where
  "i2l_outstanding q = pkt_keys (osQ (av_queue (the_avatar q)))"

lemma sarc_keys_update:
  assumes "0 \<le> i" "i < s_appNum s"
  shows "sarc_keys (s\<lparr>reqQ := (reqQ s)(i := ps)\<rparr>) + pkt_keys (reqQ s i) = sarc_keys s + pkt_keys ps"
proof -
  have "(\<lambda>j. pkt_keys (reqQ (s\<lparr>reqQ := (reqQ s)(i := ps)\<rparr>) j)) = (\<lambda>j. pkt_keys (reqQ s j))(i := pkt_keys ps)" by auto
  moreover have "s_appNum (s\<lparr>reqQ := (reqQ s)(i := ps)\<rparr>) = s_appNum s" by simp
  ultimately show ?thesis
    using sum_queue_update [OF assms, of "\<lambda>j. pkt_keys (reqQ s j)" "pkt_keys ps"]
    unfolding sarc_keys_def by metis
qed

lemma sarc_load_update:
  assumes "0 \<le> i" "i < s_appNum s"
  shows "sarc_load (s\<lparr>reqQ := (reqQ s)(i := ps)\<rparr>) + length (reqQ s i) = sarc_load s + length ps"
proof -
  have "(\<lambda>j. length (reqQ (s\<lparr>reqQ := (reqQ s)(i := ps)\<rparr>) j)) = (\<lambda>j. length (reqQ s j))(i := length ps)" by auto
  moreover have "s_appNum (s\<lparr>reqQ := (reqQ s)(i := ps)\<rparr>) = s_appNum s" by simp
  ultimately show ?thesis
    using sum_queue_update [OF assms, of "\<lambda>j. length (reqQ s j)" "length ps"]
    unfolding sarc_load_def by metis
qed

lemma sarc_keys_tokens [simp]:
  "sarc_keys (s\<lparr>cur_token := t\<rparr>) = sarc_keys s" "sarc_load (s\<lparr>cur_token := t\<rparr>) = sarc_load s"
  by (simp_all add: sarc_keys_def sarc_load_def)

lemma sarc_keys_replenish [simp]: "sarc_keys (replenishTokens now s) = sarc_keys s"
  by (simp add: sarc_keys_def replenishTokens_def)

lemma sarc_try_Some:
  assumes "sarc_tryToDispatch s = (Some p, s')"
  shows "sarc_keys s = add_mset (pkt_key p) (sarc_keys s')" "sarc_load s = Suc (sarc_load s')"
proof -
  from sarc_try_cases [OF assms [unfolded sarc_tryToDispatch_def]] obtain rest i where
    i: "0 \<le> i" "i < s_appNum s" "reqQ s i = p # rest"
    and s': "s' = s\<lparr>cur_token := (cur_token s)(getApp p := cur_token s (getApp p) - 1),
        reqQ := (reqQ s)(i := rest)\<rparr>" by auto
  let ?s = "s\<lparr>cur_token := (cur_token s)(getApp p := cur_token s (getApp p) - 1)\<rparr>"
  have i': "0 \<le> i" "i < s_appNum ?s" using i by simp_all
  from sarc_keys_update [OF i', of rest] sarc_load_update [OF i', of rest] i(3)
  show "sarc_keys s = add_mset (pkt_key p) (sarc_keys s')" "sarc_load s = Suc (sarc_load s')"
    unfolding s' by simp_all
qed

lemma sarc_try_None: "sarc_tryToDispatch s = (None, s') \<Longrightarrow> s' = s"
  unfolding sarc_tryToDispatch_def by (drule sarc_try_cases) auto

lemma avatar_push_abs:
  assumes "avatar_inv v" "avatar_pushWaitQ now p v = Inr v'"
  shows "avatar_inv v'" "pkt_keys (waitQ (av_queue v')) = add_mset (pkt_key p) (pkt_keys (waitQ (av_queue v)))"
    and "osQ (av_queue v') = osQ (av_queue v)"
proof -
  let ?p = "p\<lparr>getInterceptiontime := now\<rparr>"
  from assms(2) obtain eq where e: "edf_pushWaitQ ?p (av_queue v) = Inr eq" and v': "av_queue v' = eq"
    by (auto simp: avatar_pushWaitQ_def Let_def)
  have k: "pkt_key ?p = pkt_key p" by (simp add: pkt_key_def)
  from assms(1) have s: "edf_sorted (av_queue v)" by (simp add: avatar_inv_def)
  from ef.push_law [OF s e] ef.push_deg [OF s e] assms(1) v' show "avatar_inv v'"
    "pkt_keys (waitQ (av_queue v')) = add_mset (pkt_key p) (pkt_keys (waitQ (av_queue v)))"
    by (simp_all add: avatar_inv_def fifo_waiting_def pkt_keys_def k)
  from e have "osQ eq = osQ (av_queue v)" by (auto simp: edf_pushWaitQ_def split: if_splits)
  with v' show "osQ (av_queue v') = osQ (av_queue v)" by simp
qed

lemma i2l_drain_abs:
  assumes "avatar_inv v" "i2l_drain n now s v = Inr (s', v')"
  shows "avatar_inv v' \<and> sarc_keys s' + pkt_keys (waitQ (av_queue v')) = sarc_keys s + pkt_keys (waitQ (av_queue v)) \<and>
    osQ (av_queue v') = osQ (av_queue v)"
  using assms
proof (induction n arbitrary: s v)
  case (Suc n)
  obtain r s1 where t: "sarc_tryToDispatch s = (r, s1)" by (cases "sarc_tryToDispatch s") auto
  show ?case
  proof (cases r)
    case None
    with t Suc.prems sarc_try_None [of s s1] show ?thesis by auto
  next
    case (Some p)
    with t Suc.prems(2) obtain v1 where p: "avatar_pushWaitQ now p v = Inr v1"
      and d: "i2l_drain n now s1 v1 = Inr (s', v')" by auto
    note A = avatar_push_abs [OF Suc.prems(1) p]
    from Suc.IH [OF A(1) d] A(2,3) sarc_try_Some(1) [of s p s1] t Some show ?thesis by simp
  qed
qed simp

text \<open>The fuel is enough: the loop never runs out of it.\<close>

lemma i2l_drain_fuel: "sarc_load s < n \<Longrightarrow> i2l_drain n now s v \<noteq> Inl (Diverge c)"
proof (induction n arbitrary: s v)
  case (Suc n)
  obtain r s1 where t: "sarc_tryToDispatch s = (r, s1)" by (cases "sarc_tryToDispatch s") auto
  show ?case
  proof (cases r)
    case (Some p)
    with t sarc_try_Some(2) [of s p s1] Suc.prems have "sarc_load s1 < n" by simp
    from Suc.IH [OF this] t Some show ?thesis
      by (cases "avatar_pushWaitQ now p v")
        (auto simp: avatar_pushWaitQ_def edf_pushWaitQ_def Let_def split: if_splits)
  qed (simp add: t)
qed simp

lemma i2l_replenish_abs:
  assumes "i2l_inv q" "i2l_replenish now q = Inr q'"
  shows "i2l_inv q'" "i2l_waiting q' = i2l_waiting q" "i2l_outstanding q' = i2l_outstanding q"
    and "idle_status q' = idle_status q"
proof -
  from assms(2) obtain s v where d: "i2l_drain (Suc (sarc_load (replenishTokens now (the_sarc q)))) now
      (replenishTokens now (the_sarc q)) (the_avatar q) = Inr (s, v)"
    and q': "q' = q\<lparr>the_sarc := s, the_avatar := v\<rparr>"
    by (auto simp: i2l_replenish_def Let_def simp del: i2l_drain.simps)
  from i2l_drain_abs [OF _ d] assms(1) show "i2l_inv q'" "i2l_waiting q' = i2l_waiting q"
    "i2l_outstanding q' = i2l_outstanding q" "idle_status q' = idle_status q"
    unfolding q' by (simp_all add: i2l_inv_def i2l_waiting_def i2l_outstanding_def)
qed

lemma avatar_dispatch_abs:
  assumes "avatar_inv v" "avatar_dispatchNext now v = (r, v')"
  shows "avatar_inv v' \<and> (case r of
      None \<Rightarrow> waitQ (av_queue v') = waitQ (av_queue v) \<and> osQ (av_queue v') = osQ (av_queue v)
    | Some p \<Rightarrow> pkt_keys (waitQ (av_queue v)) = add_mset (pkt_key p) (pkt_keys (waitQ (av_queue v'))) \<and>
        pkt_keys (osQ (av_queue v')) = add_mset (pkt_key p) (pkt_keys (osQ (av_queue v))))"
proof -
  from assms(1) have s: "edf_sorted (av_queue v)" "degree (av_queue v) = -1" by (simp_all add: avatar_inv_def)
  have "degree (av_queue v') = -1 \<and> QoSDelay (av_queue v') = QoSDelay (av_queue v)"
    using assms(2) s(2)
    by (auto simp: avatar_dispatchNext_def Let_def fifo_dispatchNext_def split: if_splits list.splits)
  moreover have k: "pkt_key (x\<lparr>getScheduletime := now\<rparr>) = pkt_key x" for x :: gPacket
    by (simp add: pkt_key_def)
  note T = avatar_missed_deadline_first [OF s, of now]
  ultimately show ?thesis using assms(2) s(1) T k
    by (cases r) (auto simp: avatar_inv_def edf_sorted_def)
qed

lemma i2l_dispatch_abs:
  assumes "i2l_inv q" "i2l_dispatchNext now q = Inr (r, q')"
  shows "i2l_inv q' \<and> (case r of
      None \<Rightarrow> i2l_waiting q' = i2l_waiting q \<and> i2l_outstanding q' = i2l_outstanding q
    | Some p \<Rightarrow> i2l_waiting q = add_mset (pkt_key p) (i2l_waiting q') \<and>
        i2l_outstanding q' = add_mset (pkt_key p) (i2l_outstanding q))"
proof -
  from assms(1) have v0: "avatar_inv (the_avatar q)" by (simp add: i2l_inv_def)
  obtain r1 v1 where d: "avatar_dispatchNext now (the_avatar q) = (r1, v1)"
    by (cases "avatar_dispatchNext now (the_avatar q)") auto
  note A = avatar_dispatch_abs [OF v0 d]
  let ?q1 = "q\<lparr>the_avatar := v1\<rparr>"
  show ?thesis
  proof (cases r1)
    case (Some p)
    with A d assms(2) show ?thesis
      by (auto simp: i2l_dispatchNext_def i2l_inv_def i2l_waiting_def i2l_outstanding_def)
  next
    case None
    with A have q1: "i2l_inv ?q1" "i2l_waiting ?q1 = i2l_waiting q" "i2l_outstanding ?q1 = i2l_outstanding q"
      by (simp_all add: i2l_inv_def i2l_waiting_def i2l_outstanding_def)
    show ?thesis
    proof (cases "\<not> idle_status q \<and> getIdleStatus v1")
      case False
      with None d assms(2) have "r = None" "q' = ?q1\<lparr>idle_status := getIdleStatus v1\<rparr>"
        by (auto simp: i2l_dispatchNext_def Let_def)
      with q1 show ?thesis by (simp add: i2l_inv_def i2l_waiting_def i2l_outstanding_def)
    next
      case True
      with None d assms(2) obtain q2 v2 where rp: "i2l_replenish now ?q1 = Inr q2"
        and d2: "avatar_dispatchNext now (the_avatar q2) = (r, v2)"
        and q': "q' = q2\<lparr>the_avatar := v2, idle_status := getIdleStatus v2\<rparr>"
        by (auto simp: i2l_dispatchNext_def Let_def split: prod.splits) (metis surj_pair)
      note R = i2l_replenish_abs [OF q1(1) rp]
      from R(1) have "avatar_inv (the_avatar q2)" by (simp add: i2l_inv_def)
      from avatar_dispatch_abs [OF this d2] R q1 show ?thesis
        unfolding q' by (cases r) (auto simp: i2l_inv_def i2l_waiting_def i2l_outstanding_def)
    qed
  qed
qed

lemma i2l_push_abs:
  assumes "i2l_inv q" "i2l_pushWaitQ now p q = Inr q'"
  shows "i2l_inv q' \<and> i2l_waiting q' = add_mset (pkt_key p) (i2l_waiting q) \<and>
    i2l_outstanding q' = i2l_outstanding q"
proof -
  from assms(2) obtain r s where n: "newArrival p (the_sarc q) = Inr (r, s)"
    by (auto simp: i2l_pushWaitQ_def)
  have a: "0 \<le> getApp p" "getApp p < s_appNum (the_sarc q)"
    using n by (auto simp: newArrival_def Let_def split: if_splits)
  show ?thesis
  proof (cases r)
    case (Some p')
    with n have s: "p' = p" "sarc_keys s = sarc_keys (the_sarc q)"
      by (auto simp: newArrival_def Let_def split: if_splits)
    from Some n assms(2) s(1) obtain v where v: "avatar_pushWaitQ now p (the_avatar q) = Inr v"
      "q' = q\<lparr>the_sarc := s, the_avatar := v\<rparr>" by (auto simp: i2l_pushWaitQ_def)
    from assms(1) have "avatar_inv (the_avatar q)" by (simp add: i2l_inv_def)
    from avatar_push_abs [OF this v(1)] s show ?thesis
      unfolding v(2) by (simp add: i2l_inv_def i2l_waiting_def i2l_outstanding_def)
  next
    case None
    with n have s: "s = (the_sarc q)\<lparr>reqQ := (reqQ (the_sarc q))(getApp p := reqQ (the_sarc q) (getApp p) @ [p])\<rparr>"
      by (auto simp: newArrival_def Let_def split: if_splits)
    from sarc_keys_update [OF a, of "reqQ (the_sarc q) (getApp p) @ [p]"]
    have "sarc_keys s = add_mset (pkt_key p) (sarc_keys (the_sarc q))" unfolding s by simp
    then have q1: "i2l_inv (q\<lparr>the_sarc := s\<rparr>)"
      "i2l_waiting (q\<lparr>the_sarc := s\<rparr>) = add_mset (pkt_key p) (i2l_waiting q)"
      "i2l_outstanding (q\<lparr>the_sarc := s\<rparr>) = i2l_outstanding q"
      using assms(1) by (simp_all add: i2l_inv_def i2l_waiting_def i2l_outstanding_def)
    from None n assms(2) have "i2l_replenish now (q\<lparr>the_sarc := s\<rparr>) = Inr q' \<or> q' = q\<lparr>the_sarc := s\<rparr>"
      by (auto simp: i2l_pushWaitQ_def Let_def split: if_splits)
    with q1 i2l_replenish_abs [OF q1(1)] show ?thesis by auto
  qed
qed

lemma i2l_pop_abs:
  assumes "i2l_inv q" "i2l_popOsQ now i q = Inr (r, q')"
  shows "\<exists>p. r = Some p \<and> getID p = i \<and> i2l_inv q' \<and> i2l_waiting q' = i2l_waiting q \<and>
    i2l_outstanding q = add_mset (pkt_key p) (i2l_outstanding q')"
proof -
  from assms(2) obtain p eq v where f: "fifo_popOsQ i (av_queue (the_avatar q)) = (Some p, eq)"
    and r: "r = Some p" "q' = q\<lparr>the_avatar := v\<rparr>" "av_queue v = eq"
    by (auto simp: i2l_popOsQ_def avatar_popOsQ_def Let_def split: prod.splits option.splits if_splits)
  from f obtain os where e: "erase_first (\<lambda>p. getID p = i) (osQ (av_queue (the_avatar q))) = Some (p, os)"
    and eq: "eq = (av_queue (the_avatar q))\<lparr>osQ := os\<rparr>" by (auto simp: fifo_pop_Some)
  from erase_first_mset [OF e] erase_first_sat [OF e] assms(1) r eq show ?thesis
    by (simp add: i2l_inv_def avatar_inv_def edf_sorted_def i2l_waiting_def i2l_outstanding_def pkt_keys_def)
qed

interpretation il: scheduler i2l_pushWaitQ i2l_dispatchNext i2l_popOsQ
  pkt_key i2l_waiting i2l_outstanding i2l_inv
proof unfold_locales
  fix now q q' p assume i: "i2l_inv q"
  { assume "i2l_pushWaitQ now p q = Inr q'"
    from i2l_push_abs [OF i this] show "i2l_inv q' \<and>
      i2l_waiting q' = add_mset (pkt_key p) (i2l_waiting q) \<and> i2l_outstanding q' = i2l_outstanding q" . }
  { assume "i2l_dispatchNext now q = Inr (None, q')"
    from i2l_dispatch_abs [OF i this] show "i2l_inv q' \<and> i2l_waiting q' = i2l_waiting q \<and>
      i2l_outstanding q' = i2l_outstanding q" by simp }
  { assume "i2l_dispatchNext now q = Inr (Some p, q')"
    from i2l_dispatch_abs [OF i this] show "i2l_inv q' \<and>
      i2l_waiting q = add_mset (pkt_key p) (i2l_waiting q') \<and>
      i2l_outstanding q' = add_mset (pkt_key p) (i2l_outstanding q)" by simp }
next
  fix now i q q' assume "i2l_inv q" "i2l_popOsQ now i q = Inr (None, q')"
  from i2l_pop_abs [OF this] show "i2l_inv q' \<and> i2l_waiting q' = i2l_waiting q \<and>
      i2l_outstanding q' = i2l_outstanding q" by simp
next
  fix now i q q' p assume "i2l_inv q" "i2l_popOsQ now i q = Inr (Some p, q')"
  from i2l_pop_abs [OF this] show "i2l_inv q' \<and> i2l_waiting q' = i2l_waiting q \<and>
      i2l_outstanding q = add_mset (pkt_key p) (i2l_outstanding q')" by simp
qed

lemma i2l_drain_drained:
  "i2l_drain n now s v = Inr (s', v') \<Longrightarrow>
     (\<forall>a\<in>{0..<s_appNum s'}. reqQ s' a \<noteq> [] \<longrightarrow> cur_token s' (getApp (hd (reqQ s' a))) \<le> 0)"
proof (induction n arbitrary: s v)
  case (Suc n)
  obtain r s1 where t: "sarc_tryToDispatch s = (r, s1)" by (cases "sarc_tryToDispatch s") auto
  show ?case
  proof (cases r)
    case None
    with t Suc.prems have "s' = s" using sarc_try_None [of s s1] by auto
    with None sarc_try_cases [OF t [unfolded sarc_tryToDispatch_def]] show ?thesis by auto
  next
    case (Some p)
    with t Suc.prems obtain v1 where "i2l_drain n now s1 v1 = Inr (s', v')" by auto
    from Suc.IH [OF this] show ?thesis .
  qed
qed simp

lemma i2l_notify_cases:
  assumes "i2l_notify now q = Inr (t, q')"
  obtains (rep) "now + MINIMAL_DBL \<ge> next_periodic_replenishment (the_sarc q)" "i2l_replenish now q = Inr q'"
    "t = i2l_next_event q'"
  | (win) v where "\<not> now + MINIMAL_DBL \<ge> next_periodic_replenishment (the_sarc q)"
        "windowEnd (the_avatar q) = Inr v" "q' = q\<lparr>the_avatar := v\<rparr>" "t = i2l_next_event q'"
  | (none) "\<not> now + MINIMAL_DBL \<ge> next_periodic_replenishment (the_sarc q)" "q' = q" "t = i2l_next_event q'"
proof -
  let ?m = "if now + MINIMAL_DBL \<ge> next_periodic_replenishment (the_sarc q) then i2l_replenish now q
        else if now + MINIMAL_DBL \<ge> currentWindowEnd (the_avatar q)
        then bindR (windowEnd (the_avatar q)) (\<lambda>v. Inr (q\<lparr>the_avatar := v\<rparr>)) else Inr q"
  from assms(1) have m: "?m = Inr q'" and t: "t = i2l_next_event q'"
    unfolding i2l_notify_def getNextPeriodicReplenishmentTime_def bindR_Inr_iff by blast+
  show thesis
  proof (cases "now + MINIMAL_DBL \<ge> next_periodic_replenishment (the_sarc q)")
    case True
    with m t rep show thesis by simp
  next
    case False
    note F = this
    show thesis
    proof (cases "now + MINIMAL_DBL \<ge> currentWindowEnd (the_avatar q)")
      case True
      with F m have "bindR (windowEnd (the_avatar q)) (\<lambda>v. Inr (q\<lparr>the_avatar := v\<rparr>)) = Inr q'" by simp
      with F t win show thesis unfolding bindR_Inr_iff by blast
    next
      case False
      with F m have "q' = q" by simp
      with F t none show thesis by blast
    qed
  qed
qed

lemma i2l_notify_abs:
  assumes "i2l_inv q" "i2l_notify now q = Inr (t, q')"
  shows "i2l_inv q' \<and> i2l_waiting q' = i2l_waiting q \<and> i2l_outstanding q' = i2l_outstanding q"
  using assms(2)
proof (cases rule: i2l_notify_cases)
  case rep
  from i2l_replenish_abs [OF assms(1) rep(2)] show ?thesis by simp
next
  case (win v)
  from windowEnd_queue [OF win(2)] assms(1) win(3) show ?thesis
    by (simp add: i2l_inv_def avatar_inv_def i2l_waiting_def i2l_outstanding_def)
next
  case none
  with assms(1) show ?thesis by simp
qed

section \<open>Properties\<close>

text \<open>
  Claim C20: I2L neither loses nor duplicates a request. Over any sequence of pushes,
  dispatches and completions of a new scheduler, the requests in the SARC queues
  and in the EDF queue together with those dispatched are the requests pushed, and
  those outstanding together with those completed are the requests dispatched.
\<close>

theorem i2l_conservation:
  assumes "I2L_new n groups braces mem cnt per = Inr q0"
    and "run_res il.step evs (q0, [], [], []) = Inr (q, ps, ds, cs)"
  shows "i2l_waiting q + mset (map pkt_key ds) = mset (map pkt_key ps) \<and>
    i2l_outstanding q + mset (map pkt_key cs) = mset (map pkt_key ds)"
proof -
  from assms(1) have "i2l_inv q0" "i2l_waiting q0 = {#}" "i2l_outstanding q0 = {#}"
    by (auto simp: I2L_new_def i2l_inv_def avatar_inv_def edf_sorted_def AVATAR_new_def EDF_new_delays_def
        i2l_waiting_def i2l_outstanding_def sarc_keys_def SARC_new_def Let_def
        split: if_splits option.splits prod.splits)
  with il.conservation [OF _ assms(2)] show ?thesis by simp
qed

definition demo_i2l :: i2l where
  "demo_i2l = run_ok (I2L_new 1 [(0, 3, 2)] (Some (1 / 2, 1)) (\<lambda>_. 0) (\<lambda>_. 0) (\<lambda>_. Fin 0))"

lemma demo_i2l_new: "I2L_new 1 [(0, 3, 2)] (Some (1 / 2, 1)) (\<lambda>_. 0) (\<lambda>_. 0) (\<lambda>_. Fin 0) = Inr demo_i2l"
  by (simp add: demo_i2l_def I2L_new_def MAX_APP_def i2l_processParameters_def)

lemmas i2l_eval =
  demo_i2l_def I2L_new_def MAX_APP_def i2l_processParameters_def i2l_pushWaitQ_def newArrival_def
  SARC_new_def AVATAR_new_def Let_def demo_pkt_simps avatar_pushWaitQ_def edf_pushWaitQ_def
  EDF_new_delays_def

theorem i2l_conservation_witness:
  "\<exists>q ps. run_res il.step [Push 0 (demo_pkt 1 0 5)] (demo_i2l, [], [], []) = Inr (q, ps, [], []) \<and>
     i2l_waiting q = {#(1, 0)#}"
proof -
  define es where "es = [Push 0 (demo_pkt 1 0 5)]"
  obtain q ps where r: "run_res il.step es (demo_i2l, [], [], []) = Inr (q, ps, [], [])"
    and ps: "ps = [demo_pkt 1 0 5]"
    unfolding es_def by (simp add: i2l_eval)
  from i2l_conservation [OF demo_i2l_new r] have "i2l_waiting q = mset (map pkt_key ps)" by simp
  with ps have "i2l_waiting q = {#(1, 0)#}" by (simp add: pkt_key_def demo_pkt_simps)
  with r show ?thesis unfolding es_def by blast
qed

text \<open>
  The timer of I2L. \<^verbatim>\<open>notify\<close> loses no request and returns the earlier of the
  next replenishment and the end of the window; when the replenishment is due it is
  scheduled one interval later, and afterwards no application with a token left
  has a request queued at SARC.
\<close>

theorem i2l_notify_spec:
  assumes "i2l_inv q" "i2l_notify now q = Inr (t, q')"
  shows "i2l_inv q' \<and> i2l_waiting q' = i2l_waiting q \<and> i2l_outstanding q' = i2l_outstanding q \<and>
    t = min (next_periodic_replenishment (the_sarc q')) (currentWindowEnd (the_avatar q')) \<and>
    (now + MINIMAL_DBL \<ge> next_periodic_replenishment (the_sarc q) \<longrightarrow>
      (\<forall>a\<in>{0..<s_appNum (the_sarc q')}. reqQ (the_sarc q') a \<noteq> [] \<longrightarrow>
         cur_token (the_sarc q') (getApp (hd (reqQ (the_sarc q') a))) \<le> 0))"
  using assms(2)
proof (cases rule: i2l_notify_cases)
  case rep
  from rep(2) obtain s v where d: "i2l_drain (Suc (sarc_load (replenishTokens now (the_sarc q)))) now
      (replenishTokens now (the_sarc q)) (the_avatar q) = Inr (s, v)" and q': "q' = q\<lparr>the_sarc := s, the_avatar := v\<rparr>"
    by (auto simp: i2l_replenish_def Let_def simp del: i2l_drain.simps)
  from i2l_drain_drained [OF d] q' i2l_notify_abs [OF assms] rep(3) show ?thesis
    by (simp add: i2l_next_event_def getNextPeriodicReplenishmentTime_def min_def)
qed (use i2l_notify_abs [OF assms] in \<open>auto simp: i2l_next_event_def getNextPeriodicReplenishmentTime_def\<close>)

theorem i2l_notify_spec_witness:
  "\<exists>t q'. i2l_notify (1 / 2) demo_i2l = Inr (t, q') \<and> i2l_waiting q' = {#}"
proof -
  have i: "i2l_inv demo_i2l" "i2l_waiting demo_i2l = {#}"
    by (simp_all add: i2l_eval i2l_inv_def avatar_inv_def edf_sorted_def i2l_waiting_def sarc_keys_def)
  obtain t q' where n: "i2l_notify (1 / 2) demo_i2l = Inr (t, q')"
    by (simp add: i2l_eval i2l_notify_def getNextPeriodicReplenishmentTime_def MINIMAL_DBL_def
        i2l_replenish_def sarc_load_def replenishTokens_def sarc_tryToDispatch_def)
  from i2l_notify_spec [OF i(1) n] i(2) n show ?thesis by auto
qed

end
