(* ===== verification/Sfqrc.thy ===== *)
theory Sfqrc
  imports Sfq I2l
begin

text \<open>
  \<^verbatim>\<open>scheduler/SFQRC/SFQRC.cc\<close>: fair queueing with rate control. A request that fits
  into the buffer (a token bucket) of its application goes to the basic queue,
  which is ordered by deadline; the others wait in overflow queues with SFQ tags
  and are dispatched only when the predicted finish time of the real and the
  virtual load stays before the earliest deadline.

  The arrays are not initialised (\<open>mem\<close>); rates, weights and request sizes are used
  as divisors and are meant to be positive (HOL's \<open>x / 0\<close> is 0, C++ has an infinity).
  The tags of a basic job are never read; the model leaves them 0.
\<close>

record rc_job =
  rc_pkt :: gPacket
  rc_stag :: real
  rc_ftag :: real
  rc_deadline :: real

record sfqrc = iqueue +
  rc_weight :: "int \<Rightarrow> real"
  overflowWaitQ :: "int \<Rightarrow> rc_job list"
  overflowOsQ :: "rc_job list"
  basicWaitQ :: "rc_job list"
  basicOsQ :: "rc_job list"
  rc_maxftags :: "int \<Rightarrow> real"
  rc_vtime :: real
  rc_startpos :: int
  earliestDeadline :: real
  earliestVirtualDeadline :: real
  buffer :: "int \<Rightarrow> real"
  bufferIncRate :: "int \<Rightarrow> real"
  bufferMaxSize :: "int \<Rightarrow> real"
  lastBuffersUpdateTime :: real
  rc_QoSDelay :: "int \<Rightarrow> real"
  reqSize :: "int \<Rightarrow> real"
  readRate :: real
  writeRate :: real
  seekingTime :: real
  lastAccessFileID :: int
  appRead :: "int \<Rightarrow> bool"
  latestFinishTime :: real
  latestVirtualFinishTime :: real
  advanceStep :: real

definition MAX_DEADLINE :: real where "MAX_DEADLINE = 1000000"

text \<open>
  \<^verbatim>\<open>processParameters\<close>: the groups \<^verbatim>\<open>[id weight]\<close>, the groups
  \<^verbatim>\<open><id maxsize incrate delay reqsize>\<close> and the four numbers in braces. The code does not
  check that the ids are below \<^verbatim>\<open>MAX_APP\<close>, and the model has no fault for it.
\<close>

definition rc_processParameters ::
  "(int \<times> real) list \<Rightarrow> (int \<times> real \<times> real \<times> real \<times> real) list \<Rightarrow>
   (real \<times> real \<times> real \<times> real) option \<Rightarrow> sfqrc \<Rightarrow> sfqrc res" where
  "rc_processParameters weights groups braces q =
    (let q = fold (\<lambda>(i, w) q. q\<lparr>rc_weight := (rc_weight q)(i := w)\<rparr>) weights q;
         q = fold (\<lambda>(i, maxsize, incrate, delay, reqsize) q.
               q\<lparr>bufferMaxSize := (bufferMaxSize q)(i := maxsize),
                 bufferIncRate := (bufferIncRate q)(i := incrate),
                 rc_QoSDelay := (rc_QoSDelay q)(i := delay),
                 reqSize := (reqSize q)(i := reqsize)\<rparr>) groups q
     in case braces of
          None \<Rightarrow> Inl (Abort ''SFQRC::processParameters'')
        | Some (rr, wr, seek, adv) \<Rightarrow>
            Inr (q\<lparr>readRate := rr, writeRate := wr, seekingTime := seek, advanceStep := adv\<rparr>))"

definition SFQRC_new ::
  "int \<Rightarrow> int \<Rightarrow> int \<Rightarrow> (int \<times> real) list \<Rightarrow> (int \<times> real \<times> real \<times> real \<times> real) list \<Rightarrow>
   (real \<times> real \<times> real \<times> real) option \<Rightarrow> (int \<Rightarrow> real) \<Rightarrow> sfqrc res" where
  "SFQRC_new pid deg tlapps weights groups braces mem =
    (if tlapps > MAX_APP then Inl (OutOfBounds ''overflowWaitQ'')
     else bindR (rc_processParameters weights groups braces
       \<lparr> myID = pid, degree = deg, appNum = tlapps, rc_weight = mem,
         overflowWaitQ = (\<lambda>_. []), overflowOsQ = [], basicWaitQ = [], basicOsQ = [],
         rc_maxftags = mem, rc_vtime = 0, rc_startpos = 0,
         earliestDeadline = MAX_DEADLINE + 1, earliestVirtualDeadline = MAX_DEADLINE + 1,
         buffer = mem, bufferIncRate = mem, bufferMaxSize = mem, lastBuffersUpdateTime = 0,
         rc_QoSDelay = mem, reqSize = mem, readRate = 0, writeRate = 0, seekingTime = 0,
         lastAccessFileID = -1, appRead = (\<lambda>_. True), latestFinishTime = -1,
         latestVirtualFinishTime = -1, advanceStep = 0 \<rparr>)
       (\<lambda>q. Inr (q\<lparr>buffer := (\<lambda>i. if 0 \<le> i \<and> i < tlapps then bufferMaxSize q i else buffer q i)\<rparr>)))"

section \<open>The predictions\<close>

definition updateBuffers :: "real \<Rightarrow> sfqrc \<Rightarrow> sfqrc" where
  "updateBuffers now q =
     q\<lparr>buffer := (\<lambda>i. if 0 \<le> i \<and> i < appNum q then
            let b = buffer q i + (now - lastBuffersUpdateTime q) * bufferIncRate q i in
            if b > bufferMaxSize q i \<and> overflowWaitQ q i = [] then bufferMaxSize q i else b
          else buffer q i),
       lastBuffersUpdateTime := now\<rparr>"

definition rc_virtual_app :: "sfqrc \<Rightarrow> int \<Rightarrow> real" where
  "rc_virtual_app q i =
    (if overflowWaitQ q i = [] then
       if appRead q i then buffer q i / readRate q + (buffer q i / reqSize q i) * seekingTime q
       else buffer q i / writeRate q
     else 0)"

definition rc_virtual_job :: "sfqrc \<Rightarrow> rc_job \<Rightarrow> real" where
  "rc_virtual_job q j =
    (if getRead (rc_pkt j) \<noteq> 0 then of_int (getSize (rc_pkt j)) / readRate q + seekingTime q
     else of_int (getSize (rc_pkt j)) / writeRate q)"

definition updateLatestFinishTime :: "real \<Rightarrow> sfqrc \<Rightarrow> sfqrc" where
  "updateLatestFinishTime now q =
    (let lft = (if length (basicOsQ q) + length (overflowOsQ q) = 0 then -1
                else if latestFinishTime q \<ge> 0 \<and> latestFinishTime q \<le> now then now + advanceStep q
                else latestFinishTime q);
         load = (\<Sum>i\<leftarrow>[0..appNum q - 1]. rc_virtual_app q i) + (\<Sum>j\<leftarrow>basicWaitQ q. rc_virtual_job q j)
     in q\<lparr>latestFinishTime := lft,
          latestVirtualFinishTime := (if lft < 0 then now + load else lft + load)\<rparr>)"

definition getServiceTime :: "rc_job \<Rightarrow> sfqrc \<Rightarrow> real \<times> sfqrc" where
  "getServiceTime job q =
    (let pkt = rc_pkt job in
     if getRead pkt \<noteq> 0 then
       if lastAccessFileID q \<noteq> getFileId pkt
       then (of_int (getSize pkt) / readRate q + seekingTime q, q\<lparr>lastAccessFileID := getFileId pkt\<rparr>)
       else (of_int (getSize pkt) / readRate q, q)
     else (of_int (getSize pkt) / writeRate q, q))"

definition updateLatestFinishTimeWithNewJob :: "real \<Rightarrow> rc_job \<Rightarrow> sfqrc \<Rightarrow> sfqrc" where
  "updateLatestFinishTimeWithNewJob now job q =
    (let q = updateLatestFinishTime now q;
         (increment, q) = getServiceTime job q
     in q\<lparr>latestFinishTime := (if latestFinishTime q < 0 then now + increment
                               else latestFinishTime q + increment),
          latestVirtualFinishTime := latestVirtualFinishTime q + increment\<rparr>)"

text \<open>The buffers of the backlogged applications are spent on the tags of their first requests.\<close>

definition updateOverflowQReqTags :: "sfqrc \<Rightarrow> sfqrc" where
  "updateOverflowQReqTags q =
     q\<lparr>overflowWaitQ := (\<lambda>i. if 0 \<le> i \<and> i < appNum q then
            (case overflowWaitQ q i of
               [] \<Rightarrow> []
             | j # js \<Rightarrow> j\<lparr>rc_stag := rc_stag j - buffer q i / rc_weight q i,
                          rc_ftag := rc_ftag j - buffer q i / rc_weight q i\<rparr> # js)
          else overflowWaitQ q i),
       buffer := (\<lambda>i. if 0 \<le> i \<and> i < appNum q \<and> overflowWaitQ q i \<noteq> [] then 0 else buffer q i)\<rparr>"

definition updateEarliestDeadline :: "real \<Rightarrow> sfqrc \<Rightarrow> sfqrc" where
  "updateEarliestDeadline now q =
    (let ed = fold (\<lambda>j d. if rc_deadline j < d then rc_deadline j else d) (basicOsQ q) (MAX_DEADLINE + 1);
         evd = fold (\<lambda>i d. if overflowWaitQ q i = [] \<and> buffer q i \<ge> reqSize q i \<and> d > rc_QoSDelay q i + now
                           then rc_QoSDelay q i + now else d) [0..appNum q - 1] ed
     in q\<lparr>earliestDeadline := ed, earliestVirtualDeadline := evd\<rparr>)"

fun insertBasicWaitQ :: "rc_job \<Rightarrow> rc_job list \<Rightarrow> rc_job list" where
  "insertBasicWaitQ job [] = [job]"
| "insertBasicWaitQ job (j # js) =
     (if rc_deadline j > rc_deadline job then job # j # js else j # insertBasicWaitQ job js)"

definition checkGuarantees :: "rc_job \<Rightarrow> sfqrc \<Rightarrow> bool \<times> sfqrc" where
  "checkGuarantees job q =
    (let (increment, q) = getServiceTime job q
     in (latestVirtualFinishTime q + increment < earliestVirtualDeadline q, q))"

section \<open>The operations\<close>

definition rc_pushWaitQ :: "real \<Rightarrow> gPacket \<Rightarrow> sfqrc \<Rightarrow> sfqrc res" where
  "rc_pushWaitQ now pkt q =
    (let app = getApp pkt in
     if \<not> (0 \<le> app \<and> app < appNum q) then Inl (OutOfBounds ''overflowWaitQ'')
     else
       let q = q\<lparr>appRead := (appRead q)(app := (getRead pkt \<noteq> 0))\<rparr>;
           q = updateBuffers now q;
           job = \<lparr>rc_pkt = pkt, rc_stag = 0, rc_ftag = 0, rc_deadline = now + rc_QoSDelay q app\<rparr>
       in if overflowWaitQ q app = [] \<and> buffer q app \<ge> of_int (getSize pkt) then
            Inr (q\<lparr>basicWaitQ := insertBasicWaitQ job (basicWaitQ q),
                   buffer := (buffer q)(app := buffer q app - of_int (getSize pkt))\<rparr>)
          else
            let stag = (if overflowWaitQ q app \<noteq> [] then trunc_double (rc_ftag (last (overflowWaitQ q app)))
                        else trunc_double (rc_maxftags q app));
                st = (if of_int stag > rc_vtime q then of_int stag else rc_vtime q);
                job = job\<lparr>rc_stag := st, rc_ftag := st + of_int (getSize pkt) / rc_weight q app\<rparr>
            in Inr (q\<lparr>overflowWaitQ := (overflowWaitQ q)(app := overflowWaitQ q app @ [job])\<rparr>))"

text \<open>The loop body at index \<open>i\<close>; the state changes only in \<^verbatim>\<open>lastAccessFileID\<close>.\<close>

definition rc_visit :: "int \<Rightarrow> real \<times> int \<times> sfqrc \<Rightarrow> real \<times> int \<times> sfqrc" where
  "rc_visit i = (\<lambda>(mintag, minindex, q).
    case overflowWaitQ q i of
      [] \<Rightarrow> (mintag, minindex, q)
    | job # _ \<Rightarrow>
        if minindex < 0 \<or> mintag > rc_stag job then
          (case checkGuarantees job q of
             (True, q) \<Rightarrow> (rc_stag job, i, q)
           | (False, q) \<Rightarrow> (mintag, minindex, q))
        else (mintag, minindex, q))"

definition rc_take :: "real \<Rightarrow> int \<Rightarrow> sfqrc \<Rightarrow> (gPacket option \<times> sfqrc) res" where
  "rc_take now m q =
    (case overflowWaitQ q m of
       [] \<Rightarrow> Inl (NullDeref ''overflowWaitQ'')
     | job # rest \<Rightarrow>
         let q = q\<lparr>overflowWaitQ := (overflowWaitQ q)(m := rest), overflowOsQ := overflowOsQ q @ [job]\<rparr>;
             q = updateLatestFinishTimeWithNewJob now job q;
             q = q\<lparr>rc_startpos := (if m + 1 \<ge> appNum q then 0 else m + 1), rc_vtime := rc_stag job\<rparr>
         in (case rest of
               [] \<Rightarrow> Inr (Some (rc_pkt job), q\<lparr>rc_maxftags := (rc_maxftags q)(m := rc_ftag job)\<rparr>)
             | next # others \<Rightarrow>
                 let next' = next\<lparr>rc_stag := rc_ftag job,
                       rc_ftag := rc_ftag job + of_int (getSize (rc_pkt next)) / rc_weight q m\<rparr>
                 in Inr (Some (rc_pkt job), q\<lparr>overflowWaitQ := (overflowWaitQ q)(m := next' # others)\<rparr>)))"

definition rc_prepare :: "real \<Rightarrow> sfqrc \<Rightarrow> sfqrc" where
  "rc_prepare now q =
     updateEarliestDeadline now (updateOverflowQReqTags (updateLatestFinishTime now (updateBuffers now q)))"

definition rc_dispatchNext :: "real \<Rightarrow> sfqrc \<Rightarrow> (gPacket option \<times> sfqrc) res" where
  "rc_dispatchNext now q =
    (if int (length (overflowOsQ q)) \<ge> degree q then Inr (None, q)
     else case basicWaitQ q of
       job # rest \<Rightarrow>
         let q = q\<lparr>basicWaitQ := rest, basicOsQ := basicOsQ q @ [job]\<rparr>
         in Inr (Some (rc_pkt job),
                 updateEarliestDeadline now (updateLatestFinishTimeWithNewJob now job q))
     | [] \<Rightarrow>
         let q = rc_prepare now q in
         (case rr_loop (nat (appNum q) + 2) (rc_startpos q) (appNum q) rc_visit
                (rc_startpos q) True (MAX_TAG_VALUE, -1, q) of
            None \<Rightarrow> Inl (Diverge ''SFQRC::dispatchNext'')
          | Some (mintag, minindex, q) \<Rightarrow> if minindex < 0 then Inr (None, q) else rc_take now minindex q))"

definition rc_match :: "int \<Rightarrow> int \<Rightarrow> rc_job \<Rightarrow> bool" where
  "rc_match pid subid j \<longleftrightarrow>
     getID (rc_pkt j) = pid \<and> (subid = 0 \<or> getSubID (rc_pkt j) = subid)"

definition rc_popOsQ_subid :: "real \<Rightarrow> int \<Rightarrow> int \<Rightarrow> sfqrc \<Rightarrow> (gPacket option \<times> sfqrc) res" where
  "rc_popOsQ_subid now pid subid q =
    (case erase_first (rc_match pid subid) (basicOsQ q) of
       Some (j, os) \<Rightarrow> Inr (Some (rc_pkt j), updateLatestFinishTime now (q\<lparr>basicOsQ := os\<rparr>))
     | None \<Rightarrow>
         (case erase_first (rc_match pid subid) (overflowOsQ q) of
            Some (j, os) \<Rightarrow> Inr (Some (rc_pkt j), updateLatestFinishTime now (q\<lparr>overflowOsQ := os\<rparr>))
          | None \<Rightarrow> Inl (Abort ''SFQRC'')))"

definition rc_popOsQ :: "real \<Rightarrow> int \<Rightarrow> sfqrc \<Rightarrow> (gPacket option \<times> sfqrc) res" where
  "rc_popOsQ now pid q = rc_popOsQ_subid now pid 0 q"

definition rc_queryJob_subid :: "int \<Rightarrow> int \<Rightarrow> sfqrc \<Rightarrow> gPacket option res" where
  "rc_queryJob_subid pid subid q =
    (if overflowOsQ q = [] then Inr None
     else case find (rc_match pid subid) (overflowOsQ q) of
            Some j \<Rightarrow> Inr (Some (rc_pkt j))
          | None \<Rightarrow>
              (case find (rc_match pid subid) (overflowOsQ q) of
                 Some j \<Rightarrow> Inr (Some (rc_pkt j))
               | None \<Rightarrow> Inl (Abort ''SFQ'')))"

definition rc_queryJob :: "int \<Rightarrow> sfqrc \<Rightarrow> gPacket option res" where
  "rc_queryJob pid q = rc_queryJob_subid pid 0 q"

section \<open>The choice of an overflow request\<close>

definition rc_shape :: "sfqrc \<Rightarrow> bool" where
  "rc_shape q \<longleftrightarrow> 0 \<le> rc_startpos q \<and> rc_startpos q < appNum q"

text \<open>
  What \<^verbatim>\<open>checkGuarantees\<close> predicts for a job when the file of \<^verbatim>\<open>lastAccessFileID\<close> is
  \<open>f\<close>: the load before it, its transfer, and a seek when it reads another file. The
  scan of \<^verbatim>\<open>dispatchNext\<close> moves \<^verbatim>\<open>lastAccessFileID\<close> to the file of every reading job it
  checks, also when it refuses it; \<open>rc_files q js\<close> are the files it can be at after the
  indices \<open>js\<close>.
\<close>

definition rc_transfer :: "sfqrc \<Rightarrow> rc_job \<Rightarrow> real" where
  "rc_transfer q j = of_int (getSize (rc_pkt j)) / (if getRead (rc_pkt j) \<noteq> 0 then readRate q else writeRate q)"

definition rc_seek :: "sfqrc \<Rightarrow> int \<Rightarrow> rc_job \<Rightarrow> real" where
  "rc_seek q f j = (if getRead (rc_pkt j) \<noteq> 0 \<and> f \<noteq> getFileId (rc_pkt j) then seekingTime q else 0)"

definition rc_admits :: "sfqrc \<Rightarrow> int \<Rightarrow> rc_job \<Rightarrow> bool" where
  "rc_admits q f j \<longleftrightarrow>
     latestVirtualFinishTime q + rc_transfer q j + rc_seek q f j < earliestVirtualDeadline q"

definition rc_files :: "sfqrc \<Rightarrow> int list \<Rightarrow> int set" where
  "rc_files q js = insert (lastAccessFileID q)
     {getFileId (rc_pkt (hd (overflowWaitQ q i))) | i.
        i \<in> set js \<and> overflowWaitQ q i \<noteq> [] \<and> getRead (rc_pkt (hd (overflowWaitQ q i))) \<noteq> 0}"

lemma checkGuarantees_eq:
  "checkGuarantees j q = (rc_admits q (lastAccessFileID q) j,
     q\<lparr>lastAccessFileID := (if getRead (rc_pkt j) \<noteq> 0 then getFileId (rc_pkt j) else lastAccessFileID q)\<rparr>)"
  by (simp add: checkGuarantees_def getServiceTime_def Let_def rc_admits_def rc_transfer_def rc_seek_def add.assoc)

lemma rc_admits_file [simp]: "rc_admits (q\<lparr>lastAccessFileID := f\<rparr>) g j = rc_admits q g j"
  by (simp add: rc_admits_def rc_transfer_def rc_seek_def)

lemma rc_files_mono: "f \<in> rc_files q is \<Longrightarrow> f \<in> rc_files q (is @ [i])"
  by (auto simp: rc_files_def)

lemma rc_files_head:
  "overflowWaitQ q i = job # rest \<Longrightarrow> getRead (rc_pkt job) \<noteq> 0 \<Longrightarrow>
   getFileId (rc_pkt job) \<in> rc_files q (is @ [i])"
  unfolding rc_files_def by (rule insertI2) (auto intro!: exI [of _ i])

text \<open>The scan has chosen the head of queue \<open>m\<close>, at a check that admitted it.\<close>

definition rc_choice :: "sfqrc \<Rightarrow> int list \<Rightarrow> int \<Rightarrow> rc_job \<Rightarrow> bool" where
  "rc_choice q is m job \<longleftrightarrow> (\<exists>js ks. is = js @ m # ks \<and> (\<exists>f\<in>rc_files q js. rc_admits q f job))"

lemma rc_choice_snoc: "rc_choice q is m job \<Longrightarrow> rc_choice q (is @ [i]) m job"
  unfolding rc_choice_def by (metis append_Cons append_assoc)

definition rc_chosen :: "sfqrc \<Rightarrow> int list \<Rightarrow> real \<times> int \<times> sfqrc \<Rightarrow> bool" where
  "rc_chosen q is = (\<lambda>(t, m, q'). (\<exists>f\<in>rc_files q is. q' = q\<lparr>lastAccessFileID := f\<rparr>) \<and>
     (m = -1 \<or> (\<exists>job rest. overflowWaitQ q m = job # rest \<and> t = rc_stag job \<and> rc_choice q is m job)))"

lemma rc_visit_chosen:
  assumes "rc_chosen q is x"
  shows "rc_chosen q (is @ [i]) (rc_visit i x)"
proof -
  obtain t m q' where x: "x = (t, m, q')" by (cases x) auto
  from assms x obtain f where f: "f \<in> rc_files q is" and q': "q' = q\<lparr>lastAccessFileID := f\<rparr>"
    by (auto simp: rc_chosen_def)
  have old: "rc_chosen q (is @ [i]) (t, m, q\<lparr>lastAccessFileID := g\<rparr>)" if "g \<in> rc_files q (is @ [i])" for g
    using assms that x by (auto simp: rc_chosen_def intro: rc_choice_snoc)
  show ?thesis
  proof (cases "overflowWaitQ q i")
    case Nil
    then have "rc_visit i x = (t, m, q\<lparr>lastAccessFileID := f\<rparr>)" by (simp add: rc_visit_def x q')
    with old f rc_files_mono show ?thesis by simp
  next
    case (Cons job rest)
    define g where "g = (if getRead (rc_pkt job) \<noteq> 0 then getFileId (rc_pkt job) else f)"
    have g: "g \<in> rc_files q (is @ [i])"
      using rc_files_head [OF Cons] f rc_files_mono by (simp add: g_def)
    have c: "checkGuarantees job q' = (rc_admits q f job, q\<lparr>lastAccessFileID := g\<rparr>)"
      by (simp add: checkGuarantees_eq q' g_def)
    show ?thesis
    proof (cases "(m < 0 \<or> t > rc_stag job) \<and> rc_admits q f job")
      case True
      with c Cons have v: "rc_visit i x = (rc_stag job, i, q\<lparr>lastAccessFileID := g\<rparr>)"
        by (auto simp: rc_visit_def x q')
      have "rc_choice q (is @ [i]) i job" using True f unfolding rc_choice_def by blast
      with v Cons g show ?thesis by (auto simp: rc_chosen_def)
    next
      case False
      with c Cons have "rc_visit i x = (t, m, q\<lparr>lastAccessFileID := if m < 0 \<or> t > rc_stag job then g else f\<rparr>)"
        by (auto simp: rc_visit_def x q')
      with old g f rc_files_mono show ?thesis by simp
    qed
  qed
qed

lemma rc_fold_chosen: "rc_chosen q is (fold rc_visit is (MAX_TAG_VALUE, -1, q))"
proof (induction "is" rule: rev_induct)
  case Nil
  show ?case by (auto simp: rc_chosen_def rc_files_def)
next
  case (snoc i "is")
  then show ?case by (simp add: rc_visit_chosen)
qed

lemma rc_loop_chosen:
  assumes "rc_shape q"
  obtains t m f where
    "rr_loop (nat (appNum q) + 2) (rc_startpos q) (appNum q) rc_visit (rc_startpos q) True
       (MAX_TAG_VALUE, -1, q) = Some (t, m, q\<lparr>lastAccessFileID := f\<rparr>)"
    "m = -1 \<or> 0 \<le> m \<and> m < appNum q \<and> (\<exists>job rest. overflowWaitQ q m = job # rest \<and> t = rc_stag job \<and>
       rc_choice q (rr_order (rc_startpos q) (appNum q)) m job)"
proof -
  from assms have sp: "0 \<le> rc_startpos q" "rc_startpos q < appNum q" by (auto simp: rc_shape_def)
  have r: "rr_loop (nat (appNum q) + 2) (rc_startpos q) (appNum q) rc_visit (rc_startpos q) True (MAX_TAG_VALUE, -1, q)
      = Some (fold rc_visit (rr_order (rc_startpos q) (appNum q)) (MAX_TAG_VALUE, -1, q))"
    by (rule rr_loop_round [OF sp]) simp
  have s: "0 \<le> m \<and> m < appNum q" if "rc_choice q (rr_order (rc_startpos q) (appNum q)) m job" for m job
    using that set_rr_order [OF sp] unfolding rc_choice_def
    by (metis atLeastLessThan_iff in_set_conv_decomp)
  from rc_fold_chosen [of q "rr_order (rc_startpos q) (appNum q)"] r s show ?thesis
    by (fastforce simp: rc_chosen_def intro: that)
qed

section \<open>The contract\<close>

definition rc_keys :: "rc_job list \<Rightarrow> (int \<times> int) multiset" where
  "rc_keys js = pkt_keys (map rc_pkt js)"

lemma rc_keys_simps [simp]:
  "rc_keys [] = {#}" "rc_keys (j # js) = add_mset (pkt_key (rc_pkt j)) (rc_keys js)"
  "rc_keys (js @ ks) = rc_keys js + rc_keys ks"
  by (simp_all add: rc_keys_def)

lemma rc_keys_erase:
  "erase_first P js = Some (j, os) \<Longrightarrow> rc_keys js = add_mset (pkt_key (rc_pkt j)) (rc_keys os)"
  by (auto dest!: erase_first_Some)

lemma rc_keys_insert: "rc_keys (insertBasicWaitQ j js) = add_mset (pkt_key (rc_pkt j)) (rc_keys js)"
  by (induction js) auto

definition rc_waiting :: "sfqrc \<Rightarrow> (int \<times> int) multiset" where
  "rc_waiting q = rc_keys (basicWaitQ q) + (\<Sum>i\<in>{0..<appNum q}. rc_keys (overflowWaitQ q i))"

definition rc_outstanding :: "sfqrc \<Rightarrow> (int \<times> int) multiset" where
  "rc_outstanding q = rc_keys (basicOsQ q) + rc_keys (overflowOsQ q)"

lemma rc_overflow_update:
  assumes "0 \<le> i" "i < appNum q"
  shows "(\<Sum>k\<in>{0..<appNum q}. rc_keys (((overflowWaitQ q)(i := js)) k)) + rc_keys (overflowWaitQ q i)
    = (\<Sum>k\<in>{0..<appNum q}. rc_keys (overflowWaitQ q k)) + rc_keys js"
proof -
  have "(\<lambda>k. rc_keys (((overflowWaitQ q)(i := js)) k)) = (\<lambda>k. rc_keys (overflowWaitQ q k))(i := rc_keys js)" by auto
  with sum_queue_update [OF assms, of "\<lambda>k. rc_keys (overflowWaitQ q k)" "rc_keys js"] show ?thesis by metis
qed

lemma rc_prepare_frame:
  "rc_waiting (rc_prepare now q) = rc_waiting q" "rc_outstanding (rc_prepare now q) = rc_outstanding q"
  "rc_shape (rc_prepare now q) = rc_shape q" "appNum (rc_prepare now q) = appNum q"
  "basicWaitQ (rc_prepare now q) = basicWaitQ q" "overflowOsQ (rc_prepare now q) = overflowOsQ q"
  "rc_startpos (rc_prepare now q) = rc_startpos q"
proof -
  have "rc_keys (overflowWaitQ (rc_prepare now q) i) = rc_keys (overflowWaitQ q i)" for i
    by (cases "overflowWaitQ q i")
      (auto simp: rc_prepare_def updateEarliestDeadline_def updateOverflowQReqTags_def
        updateLatestFinishTime_def updateBuffers_def Let_def)
  then show "rc_waiting (rc_prepare now q) = rc_waiting q" "rc_outstanding (rc_prepare now q) = rc_outstanding q"
    "rc_shape (rc_prepare now q) = rc_shape q" "appNum (rc_prepare now q) = appNum q"
    "basicWaitQ (rc_prepare now q) = basicWaitQ q" "overflowOsQ (rc_prepare now q) = overflowOsQ q"
    "rc_startpos (rc_prepare now q) = rc_startpos q"
    by (simp_all add: rc_waiting_def rc_outstanding_def rc_shape_def)
      (simp_all add: rc_prepare_def updateEarliestDeadline_def updateOverflowQReqTags_def
        updateLatestFinishTime_def updateBuffers_def Let_def)
qed

lemma rc_new_job_frame:
  "overflowWaitQ (updateLatestFinishTimeWithNewJob now j q) = overflowWaitQ q"
  "basicWaitQ (updateLatestFinishTimeWithNewJob now j q) = basicWaitQ q"
  "overflowOsQ (updateLatestFinishTimeWithNewJob now j q) = overflowOsQ q"
  "basicOsQ (updateLatestFinishTimeWithNewJob now j q) = basicOsQ q"
  "appNum (updateLatestFinishTimeWithNewJob now j q) = appNum q"
  "rc_startpos (updateLatestFinishTimeWithNewJob now j q) = rc_startpos q"
  by (simp_all add: updateLatestFinishTimeWithNewJob_def updateLatestFinishTime_def getServiceTime_def Let_def)

lemma rc_take_abs:
  assumes "rc_shape q" "0 \<le> m" "m < appNum q" "overflowWaitQ q m = job # rest"
    and "rc_take now m q = Inr (r, q')"
  shows "r = Some (rc_pkt job)" "rc_shape q'"
    and "rc_waiting q = add_mset (pkt_key (rc_pkt job)) (rc_waiting q')"
    and "rc_outstanding q' = add_mset (pkt_key (rc_pkt job)) (rc_outstanding q)"
    and "rc_vtime q' = rc_stag job"
proof -
  define js where "js = (case rest of [] \<Rightarrow> [] | next # others \<Rightarrow> next\<lparr>rc_stag := rc_ftag job,
      rc_ftag := rc_ftag job + of_int (getSize (rc_pkt next)) / rc_weight q m\<rparr> # others)"
  define q2 where "q2 = updateLatestFinishTimeWithNewJob now job
      (q\<lparr>overflowWaitQ := (overflowWaitQ q)(m := rest), overflowOsQ := overflowOsQ q @ [job]\<rparr>)"
  let ?q3 = "q2\<lparr>rc_startpos := (if m + 1 \<ge> appNum q2 then 0 else m + 1), rc_vtime := rc_stag job\<rparr>"
  have w: "rc_weight q2 = rc_weight q"
    by (simp add: q2_def updateLatestFinishTimeWithNewJob_def updateLatestFinishTime_def getServiceTime_def Let_def)
  have Q: "r = Some (rc_pkt job) \<and> q' = (case rest of
       [] \<Rightarrow> ?q3\<lparr>rc_maxftags := (rc_maxftags q2)(m := rc_ftag job)\<rparr>
     | _ \<Rightarrow> ?q3\<lparr>overflowWaitQ := (overflowWaitQ q2)(m := js)\<rparr>)"
    using assms(5) unfolding rc_take_def assms(4) list.case Let_def q2_def [symmetric]
    by (cases rest) (simp_all add: js_def w)
  note q2 = rc_new_job_frame [of now job "q\<lparr>overflowWaitQ := (overflowWaitQ q)(m := rest),
      overflowOsQ := overflowOsQ q @ [job]\<rparr>", folded q2_def, simplified]
  have F: "r = Some (rc_pkt job)" "overflowWaitQ q' = (overflowWaitQ q)(m := js)" "basicWaitQ q' = basicWaitQ q"
    "overflowOsQ q' = overflowOsQ q @ [job]" "basicOsQ q' = basicOsQ q" "appNum q' = appNum q"
    "rc_startpos q' = (if m + 1 \<ge> appNum q then 0 else m + 1)" "rc_vtime q' = rc_stag job"
    using Q q2 by (simp_all add: js_def split: list.split)
  have k: "rc_keys js = rc_keys rest" by (cases rest) (simp_all add: js_def)
  have "rc_waiting q' + add_mset (pkt_key (rc_pkt job)) (rc_keys rest) = rc_waiting q + rc_keys rest"
    using rc_overflow_update [OF assms(2,3), of js] assms(4) k
    unfolding rc_waiting_def F by (simp add: add.assoc)
  then show "rc_waiting q = add_mset (pkt_key (rc_pkt job)) (rc_waiting q')" by simp
  show "rc_outstanding q' = add_mset (pkt_key (rc_pkt job)) (rc_outstanding q)"
    by (simp add: rc_outstanding_def F)
  show "rc_shape q'" using assms(1-3) unfolding rc_shape_def F by simp
  show "r = Some (rc_pkt job)" "rc_vtime q' = rc_stag job" by (fact F)+
qed

lemma rc_file_frame [simp]:
  "rc_shape (q\<lparr>lastAccessFileID := f\<rparr>) = rc_shape q"
  "rc_waiting (q\<lparr>lastAccessFileID := f\<rparr>) = rc_waiting q"
  "rc_outstanding (q\<lparr>lastAccessFileID := f\<rparr>) = rc_outstanding q"
  by (simp_all add: rc_shape_def rc_waiting_def rc_outstanding_def)

lemma rc_dispatch_cases:
  assumes "rc_shape q" "rc_dispatchNext now q = Inr (r, q')"
  obtains (full) "degree q \<le> int (length (overflowOsQ q))" "r = None" "q' = q"
  | (basic) job rest where "basicWaitQ q = job # rest" "r = Some (rc_pkt job)"
      "q' = updateEarliestDeadline now (updateLatestFinishTimeWithNewJob now job
             (q\<lparr>basicWaitQ := rest, basicOsQ := basicOsQ q @ [job]\<rparr>))"
      "int (length (overflowOsQ q)) < degree q"
  | (idle) f where "basicWaitQ q = []" "r = None" "q' = (rc_prepare now q)\<lparr>lastAccessFileID := f\<rparr>"
  | (take) m job rest f where "basicWaitQ q = []" "0 \<le> m" "m < appNum q"
      "int (length (overflowOsQ q)) < degree q"
      "overflowWaitQ (rc_prepare now q) m = job # rest"
      "rc_choice (rc_prepare now q) (rr_order (rc_startpos q) (appNum q)) m job"
      "rc_take now m ((rc_prepare now q)\<lparr>lastAccessFileID := f\<rparr>) = Inr (r, q')"
proof (cases "int (length (overflowOsQ q)) \<ge> degree q")
  case True
  with assms(2) show ?thesis by (intro full) (auto simp: rc_dispatchNext_def)
next
  case False
  show ?thesis
  proof (cases "basicWaitQ q")
    case (Cons job rest)
    with False assms(2) show ?thesis by (intro basic) (auto simp: rc_dispatchNext_def Let_def)
  next
    case Nil
    let ?q = "rc_prepare now q"
    have "rc_shape ?q" using assms(1) by (simp add: rc_prepare_frame)
    from rc_loop_chosen [OF this] obtain t m f where l:
      "rr_loop (nat (appNum ?q) + 2) (rc_startpos ?q) (appNum ?q) rc_visit (rc_startpos ?q) True
         (MAX_TAG_VALUE, -1, ?q) = Some (t, m, ?q\<lparr>lastAccessFileID := f\<rparr>)"
      and m: "m = -1 \<or> 0 \<le> m \<and> m < appNum ?q \<and>
        (\<exists>job rest. overflowWaitQ ?q m = job # rest \<and> t = rc_stag job \<and>
           rc_choice ?q (rr_order (rc_startpos ?q) (appNum ?q)) m job)" by blast
    have d: "(if m < 0 then Inr (None, ?q\<lparr>lastAccessFileID := f\<rparr>)
        else rc_take now m (?q\<lparr>lastAccessFileID := f\<rparr>)) = Inr (r, q')"
      using False Nil assms(2) l by (simp add: rc_dispatchNext_def Let_def del: rr_loop.simps)
    show ?thesis
    proof (cases "m < 0")
      case True
      with d Nil show ?thesis by (intro idle) auto
    next
      case m0: False
      with m obtain job rest where "0 \<le> m" "m < appNum q" "overflowWaitQ ?q m = job # rest"
          "rc_choice ?q (rr_order (rc_startpos q) (appNum q)) m job"
        by (auto simp: rc_prepare_frame)
      with m0 d Nil False show ?thesis by (intro take) auto
    qed
  qed
qed

lemma rc_earliest_frame:
  "rc_shape (updateEarliestDeadline now q) = rc_shape q"
  "rc_waiting (updateEarliestDeadline now q) = rc_waiting q"
  "rc_outstanding (updateEarliestDeadline now q) = rc_outstanding q"
  by (simp_all add: updateEarliestDeadline_def Let_def rc_shape_def rc_waiting_def rc_outstanding_def)

lemma rc_dispatch_abs:
  assumes "rc_shape q" "rc_dispatchNext now q = Inr (r, q')"
  shows "rc_shape q' \<and> (case r of
      None \<Rightarrow> rc_waiting q' = rc_waiting q \<and> rc_outstanding q' = rc_outstanding q
    | Some p \<Rightarrow> rc_waiting q = add_mset (pkt_key p) (rc_waiting q') \<and>
        rc_outstanding q' = add_mset (pkt_key p) (rc_outstanding q))"
  using assms
proof (cases rule: rc_dispatch_cases)
  case full
  with assms(1) show ?thesis by simp
next
  case (basic job rest)
  with assms(1) show ?thesis
    by (simp add: rc_earliest_frame) (simp add: rc_shape_def rc_waiting_def rc_outstanding_def rc_new_job_frame)
next
  case (idle f)
  with assms(1) show ?thesis by (simp add: rc_prepare_frame)
next
  case (take m job rest f)
  let ?q = "(rc_prepare now q)\<lparr>lastAccessFileID := f\<rparr>"
  have h: "rc_shape ?q" "m < appNum ?q" "overflowWaitQ ?q m = job # rest"
    using assms(1) take by (simp_all add: rc_prepare_frame)
  from rc_take_abs [OF h(1) take(2) h(2,3) take(7)] show ?thesis
    by (simp add: rc_prepare_frame)
qed

lemma updateBuffers_frame [simp]:
  "overflowWaitQ (updateBuffers now q) = overflowWaitQ q" "basicWaitQ (updateBuffers now q) = basicWaitQ q"
  "overflowOsQ (updateBuffers now q) = overflowOsQ q" "basicOsQ (updateBuffers now q) = basicOsQ q"
  "appNum (updateBuffers now q) = appNum q" "rc_startpos (updateBuffers now q) = rc_startpos q"
  "rc_QoSDelay (updateBuffers now q) = rc_QoSDelay q" "rc_vtime (updateBuffers now q) = rc_vtime q"
  "rc_maxftags (updateBuffers now q) = rc_maxftags q" "rc_weight (updateBuffers now q) = rc_weight q"
  by (simp_all add: updateBuffers_def)

definition rc_mark :: "real \<Rightarrow> gPacket \<Rightarrow> sfqrc \<Rightarrow> sfqrc" where
  "rc_mark now p q = updateBuffers now (q\<lparr>appRead := (appRead q)(getApp p := (getRead p \<noteq> 0))\<rparr>)"

lemma rc_push_cases:
  assumes "rc_pushWaitQ now p q = Inr q'"
  obtains (basic) "0 \<le> getApp p" "getApp p < appNum q" "overflowWaitQ q (getApp p) = []"
      "buffer (rc_mark now p q) (getApp p) \<ge> of_int (getSize p)"
      "q' = (rc_mark now p q)\<lparr>basicWaitQ := insertBasicWaitQ \<lparr>rc_pkt = p, rc_stag = 0, rc_ftag = 0,
               rc_deadline = now + rc_QoSDelay q (getApp p)\<rparr> (basicWaitQ q),
             buffer := (buffer (rc_mark now p q))(getApp p :=
               buffer (rc_mark now p q) (getApp p) - of_int (getSize p))\<rparr>"
  | (overflow) job where "0 \<le> getApp p" "getApp p < appNum q" "rc_pkt job = p"
      "rc_stag job = max (of_int (trunc_double (if overflowWaitQ q (getApp p) \<noteq> []
         then rc_ftag (last (overflowWaitQ q (getApp p))) else rc_maxftags q (getApp p)))) (rc_vtime q)"
      "q' = (rc_mark now p q)\<lparr>overflowWaitQ := (overflowWaitQ q)(getApp p := overflowWaitQ q (getApp p) @ [job])\<rparr>"
proof -
  note d = assms [unfolded rc_pushWaitQ_def Let_def, folded rc_mark_def]
  have m: "overflowWaitQ (rc_mark now p q) = overflowWaitQ q" "basicWaitQ (rc_mark now p q) = basicWaitQ q"
    "rc_QoSDelay (rc_mark now p q) = rc_QoSDelay q" "rc_vtime (rc_mark now p q) = rc_vtime q"
    "rc_maxftags (rc_mark now p q) = rc_maxftags q"
    by (simp_all add: rc_mark_def)
  from d have a: "0 \<le> getApp p \<and> getApp p < appNum q" by (auto split: if_splits)
  show thesis
  proof (cases "overflowWaitQ q (getApp p) = [] \<and> buffer (rc_mark now p q) (getApp p) \<ge> of_int (getSize p)")
    case True
    with d a m show thesis by (intro basic) auto
  next
    case False
    define st where "st = max (of_int (trunc_double (if overflowWaitQ q (getApp p) \<noteq> []
         then rc_ftag (last (overflowWaitQ q (getApp p))) else rc_maxftags q (getApp p)))) (rc_vtime q)"
    define job where "job = \<lparr>rc_pkt = p, rc_stag = st, rc_ftag = st + of_int (getSize p) / rc_weight (rc_mark now p q) (getApp p),
        rc_deadline = now + rc_QoSDelay q (getApp p)\<rparr>"
    have "q' = (rc_mark now p q)\<lparr>overflowWaitQ := (overflowWaitQ q)(getApp p := overflowWaitQ q (getApp p) @ [job])\<rparr>"
      using d a m False
      by (cases "overflowWaitQ q (getApp p) = []") (auto simp: job_def st_def max_def)
    with a show thesis by (intro overflow [of job]) (auto simp: job_def st_def)
  qed
qed

lemma rc_mark_frame [simp]:
  "overflowWaitQ (rc_mark now p q) = overflowWaitQ q" "basicWaitQ (rc_mark now p q) = basicWaitQ q"
  "overflowOsQ (rc_mark now p q) = overflowOsQ q" "basicOsQ (rc_mark now p q) = basicOsQ q"
  "appNum (rc_mark now p q) = appNum q" "rc_startpos (rc_mark now p q) = rc_startpos q"
  by (simp_all add: rc_mark_def)

lemma rc_push_abs:
  assumes "rc_shape q" "rc_pushWaitQ now p q = Inr q'"
  shows "rc_shape q' \<and> rc_waiting q' = add_mset (pkt_key p) (rc_waiting q) \<and> rc_outstanding q' = rc_outstanding q"
  using assms(2)
proof (cases rule: rc_push_cases)
  case basic
  with assms(1) show ?thesis
    by (simp add: rc_shape_def rc_waiting_def rc_outstanding_def rc_keys_insert)
next
  case (overflow job)
  from rc_overflow_update [OF overflow(1,2), of "overflowWaitQ q (getApp p) @ [job]"]
  have "(\<Sum>k\<in>{0..<appNum q}. rc_keys (overflowWaitQ q' k))
      = add_mset (pkt_key p) (\<Sum>k\<in>{0..<appNum q}. rc_keys (overflowWaitQ q k))"
    unfolding overflow(5) using overflow(3) by simp
  with overflow assms(1) show ?thesis
    by (simp add: rc_shape_def rc_waiting_def rc_outstanding_def)
qed

lemma rc_finish_frame:
  "rc_shape (updateLatestFinishTime now q) = rc_shape q"
  "rc_waiting (updateLatestFinishTime now q) = rc_waiting q"
  "rc_outstanding (updateLatestFinishTime now q) = rc_outstanding q"
  by (simp_all add: updateLatestFinishTime_def Let_def rc_shape_def rc_waiting_def rc_outstanding_def)

lemma rc_pop_abs:
  assumes "rc_shape q" "rc_popOsQ now i q = Inr (r, q')"
  shows "\<exists>p. r = Some p \<and> getID p = i \<and> rc_shape q' \<and> rc_waiting q' = rc_waiting q \<and>
    rc_outstanding q = add_mset (pkt_key p) (rc_outstanding q')"
proof -
  from assms(2) consider
    j os where "erase_first (rc_match i 0) (basicOsQ q) = Some (j, os)" "r = Some (rc_pkt j)"
      "q' = updateLatestFinishTime now (q\<lparr>basicOsQ := os\<rparr>)"
    | j os where "erase_first (rc_match i 0) (overflowOsQ q) = Some (j, os)" "r = Some (rc_pkt j)"
      "q' = updateLatestFinishTime now (q\<lparr>overflowOsQ := os\<rparr>)"
    by (auto simp: rc_popOsQ_def rc_popOsQ_subid_def split: option.splits)
  then show ?thesis
  proof cases
    case (1 j os)
    from rc_keys_erase [OF 1(1)] erase_first_sat [OF 1(1)] assms(1) 1 show ?thesis
      by (simp add: rc_finish_frame)
        (simp add: rc_match_def rc_shape_def rc_waiting_def rc_outstanding_def)
  next
    case (2 j os)
    from rc_keys_erase [OF 2(1)] erase_first_sat [OF 2(1)] assms(1) 2 show ?thesis
      by (simp add: rc_finish_frame)
        (simp add: rc_match_def rc_shape_def rc_waiting_def rc_outstanding_def)
  qed
qed

interpretation rc: scheduler rc_pushWaitQ rc_dispatchNext rc_popOsQ
  pkt_key rc_waiting rc_outstanding rc_shape
proof unfold_locales
  fix now q q' p assume i: "rc_shape q"
  { assume "rc_pushWaitQ now p q = Inr q'"
    from rc_push_abs [OF i this] show "rc_shape q' \<and>
      rc_waiting q' = add_mset (pkt_key p) (rc_waiting q) \<and> rc_outstanding q' = rc_outstanding q" . }
  { assume "rc_dispatchNext now q = Inr (None, q')"
    from rc_dispatch_abs [OF i this] show "rc_shape q' \<and> rc_waiting q' = rc_waiting q \<and>
      rc_outstanding q' = rc_outstanding q" by simp }
  { assume "rc_dispatchNext now q = Inr (Some p, q')"
    from rc_dispatch_abs [OF i this] show "rc_shape q' \<and>
      rc_waiting q = add_mset (pkt_key p) (rc_waiting q') \<and>
      rc_outstanding q' = add_mset (pkt_key p) (rc_outstanding q)" by simp }
next
  fix now i q q' assume "rc_shape q" "rc_popOsQ now i q = Inr (None, q')"
  from rc_pop_abs [OF this] show "rc_shape q' \<and> rc_waiting q' = rc_waiting q \<and>
      rc_outstanding q' = rc_outstanding q" by simp
next
  fix now i q q' p assume "rc_shape q" "rc_popOsQ now i q = Inr (Some p, q')"
  from rc_pop_abs [OF this] show "rc_shape q' \<and> rc_waiting q' = rc_waiting q \<and>
      rc_outstanding q = add_mset (pkt_key p) (rc_outstanding q')" by simp
qed

section \<open>Properties\<close>

definition rc_empty :: "int \<Rightarrow> sfqrc \<Rightarrow> bool" where
  "rc_empty n x \<longleftrightarrow> rc_startpos x = 0 \<and> appNum x = n \<and> basicWaitQ x = [] \<and> overflowWaitQ x = (\<lambda>_. []) \<and>
    basicOsQ x = [] \<and> overflowOsQ x = []"

lemma rc_empty_upd [simp]:
  "rc_empty n (x\<lparr>rc_weight := w\<rparr>) = rc_empty n x"
  "rc_empty n (x\<lparr>bufferMaxSize := w\<rparr>) = rc_empty n x"
  "rc_empty n (x\<lparr>bufferIncRate := w\<rparr>) = rc_empty n x"
  "rc_empty n (x\<lparr>rc_QoSDelay := w\<rparr>) = rc_empty n x"
  "rc_empty n (x\<lparr>reqSize := w\<rparr>) = rc_empty n x"
  "rc_empty n (x\<lparr>buffer := w\<rparr>) = rc_empty n x"
  "rc_empty n (x\<lparr>readRate := r, writeRate := r2, seekingTime := r3, advanceStep := r4\<rparr>) = rc_empty n x"
  by (simp_all add: rc_empty_def)

lemma rc_empty_weights:
  "rc_empty n (fold (\<lambda>(i, w) q. q\<lparr>rc_weight := (rc_weight q)(i := w)\<rparr>) ws x) = rc_empty n x"
  by (induction ws arbitrary: x) (simp_all add: split_beta)

lemma rc_empty_groups:
  "rc_empty n (fold (\<lambda>(i, maxsize, incrate, delay, reqsize) q.
               q\<lparr>bufferMaxSize := (bufferMaxSize q)(i := maxsize),
                 bufferIncRate := (bufferIncRate q)(i := incrate),
                 rc_QoSDelay := (rc_QoSDelay q)(i := delay),
                 reqSize := (reqSize q)(i := reqsize)\<rparr>) gs x) = rc_empty n x"
  by (induction gs arbitrary: x) (simp_all add: split_beta)

lemma rc_processParameters_empty:
  "rc_processParameters ws gs br x = Inr q \<Longrightarrow> rc_empty n q = rc_empty n x"
  by (cases br) (auto simp: rc_processParameters_def Let_def rc_empty_weights rc_empty_groups)

lemma SFQRC_new_shape:
  assumes "SFQRC_new i d n ws gs br mem = Inr q" "0 < n"
  shows "rc_shape q \<and> rc_waiting q = {#} \<and> rc_outstanding q = {#} \<and> basicWaitQ q = []"
proof -
  from assms(1) have n: "\<not> n > MAX_APP" by (simp add: SFQRC_new_def split: if_splits)
  define x where "x = \<lparr> myID = i, degree = d, appNum = n, rc_weight = mem,
         overflowWaitQ = (\<lambda>_. []), overflowOsQ = [], basicWaitQ = [], basicOsQ = [],
         rc_maxftags = mem, rc_vtime = 0, rc_startpos = 0,
         earliestDeadline = MAX_DEADLINE + 1, earliestVirtualDeadline = MAX_DEADLINE + 1,
         buffer = mem, bufferIncRate = mem, bufferMaxSize = mem, lastBuffersUpdateTime = 0,
         rc_QoSDelay = mem, reqSize = mem, readRate = 0, writeRate = 0, seekingTime = 0,
         lastAccessFileID = -1, appRead = (\<lambda>_. True), latestFinishTime = -1,
         latestVirtualFinishTime = -1, advanceStep = 0 \<rparr>"
  have x: "rc_empty n x" by (simp add: x_def rc_empty_def)
  from assms(1) n obtain q1 where "rc_processParameters ws gs br x = Inr q1"
    and q: "q = q1\<lparr>buffer := (\<lambda>i. if 0 \<le> i \<and> i < n then bufferMaxSize q1 i else buffer q1 i)\<rparr>"
    by (auto simp: SFQRC_new_def x_def simp del: rc_empty_upd)
  with x rc_processParameters_empty have "rc_empty n q1" by blast
  then have "rc_empty n q" by (simp add: q)
  with assms(2) show ?thesis by (simp add: rc_empty_def rc_shape_def rc_waiting_def rc_outstanding_def)
qed

text \<open>
  Claim C23: SFQRC neither loses nor duplicates a request. After any sequence of calls on
  a new scheduler for at least one application, the requests in the basic and
  overflow wait queues together with those dispatched are the requests pushed, and
  those outstanding together with those completed are the requests dispatched.
\<close>

theorem sfqrc_conservation:
  assumes "SFQRC_new i d n ws gs br mem = Inr q0" "0 < n"
    and "run_res rc.step evs (q0, [], [], []) = Inr (q, ps, ds, cs)"
  shows "rc_waiting q + mset (map pkt_key ds) = mset (map pkt_key ps) \<and>
    rc_outstanding q + mset (map pkt_key cs) = mset (map pkt_key ds)"
  using rc.conservation [OF _ assms(3)] SFQRC_new_shape [OF assms(1,2)] by simp

definition demo_rc :: sfqrc where
  "demo_rc = run_ok (SFQRC_new 0 4 1 [(0, 10)] [(0, 100, 1, 5, 50)] (Some (10, 10, 1, 1)) (\<lambda>_. 0))"

lemma demo_rc_new: "SFQRC_new 0 4 1 [(0, 10)] [(0, 100, 1, 5, 50)] (Some (10, 10, 1, 1)) (\<lambda>_. 0) = Inr demo_rc"
  by (simp add: demo_rc_def SFQRC_new_def MAX_APP_def rc_processParameters_def Let_def)

lemmas rc_eval =
  demo_rc_def SFQRC_new_def MAX_APP_def rc_processParameters_def Let_def rc_pushWaitQ_def
  updateBuffers_def demo_pkt_simps

theorem sfqrc_conservation_witness:
  "\<exists>q ps. run_res rc.step [Push 0 (demo_pkt 1 0 40), Push 0 (demo_pkt 2 0 90)] (demo_rc, [], [], []) = Inr (q, ps, [], []) \<and>
     rc_waiting q = {#(1, 0), (2, 0)#}"
proof -
  define es where "es = [Push 0 (demo_pkt 1 0 40), Push 0 (demo_pkt 2 0 90)]"
  obtain q ps where r: "run_res rc.step es (demo_rc, [], [], []) = Inr (q, ps, [], [])"
    and ps: "ps = [demo_pkt 1 0 40, demo_pkt 2 0 90]"
    unfolding es_def by (simp add: rc_eval)
  from sfqrc_conservation [OF demo_rc_new _ r] have "rc_waiting q = mset (map pkt_key ps)" by simp
  with ps have "rc_waiting q = {#(1, 0), (2, 0)#}" by (simp add: pkt_key_def demo_pkt_simps)
  with r show ?thesis unfolding es_def by blast
qed

lemma fold_deadline:
  fixes f :: "'a \<Rightarrow> real"
  shows "fold (\<lambda>j d. if f j < d then f j else d) js d \<le> d \<and>
    (\<forall>j\<in>set js. fold (\<lambda>j d. if f j < d then f j else d) js d \<le> f j)"
proof (induction js arbitrary: d)
  case (Cons j js)
  let ?d = "if f j < d then f j else d"
  from Cons.IH [of ?d] have "fold (\<lambda>j d. if f j < d then f j else d) js ?d \<le> ?d" by blast
  moreover have "?d \<le> d" "?d \<le> f j" by auto
  ultimately show ?case using Cons.IH [of ?d] by (auto intro: order_trans)
qed simp

lemma fold_virtual:
  fixes f :: "'a \<Rightarrow> real"
  shows "fold (\<lambda>i d. if P i \<and> d > f i then f i else d) xs d \<le> d \<and>
    (\<forall>i\<in>set xs. P i \<longrightarrow> fold (\<lambda>i d. if P i \<and> d > f i then f i else d) xs d \<le> f i)"
proof (induction xs arbitrary: d)
  case (Cons j xs)
  let ?d = "if P j \<and> d > f j then f j else d"
  from Cons.IH [of ?d] have "fold (\<lambda>i d. if P i \<and> d > f i then f i else d) xs ?d \<le> ?d" by blast
  moreover have "?d \<le> d" "P j \<longrightarrow> ?d \<le> f j" by auto
  ultimately show ?case using Cons.IH [of ?d] by (auto intro: order_trans)
qed simp

lemma updateEarliestDeadline_le:
  "\<forall>j\<in>set (basicOsQ q). earliestVirtualDeadline (updateEarliestDeadline now q) \<le> rc_deadline j"
  "\<forall>i\<in>{0..<appNum q}. overflowWaitQ q i = [] \<and> buffer q i \<ge> reqSize q i \<longrightarrow>
     earliestVirtualDeadline (updateEarliestDeadline now q) \<le> rc_QoSDelay q i + now"
proof -
  define ed where "ed = fold (\<lambda>j d. if rc_deadline j < d then rc_deadline j else d) (basicOsQ q) (MAX_DEADLINE + 1)"
  have evd: "earliestVirtualDeadline (updateEarliestDeadline now q) =
      fold (\<lambda>i d. if (overflowWaitQ q i = [] \<and> buffer q i \<ge> reqSize q i) \<and> d > rc_QoSDelay q i + now
                           then rc_QoSDelay q i + now else d) [0..appNum q - 1] ed"
    by (simp add: updateEarliestDeadline_def Let_def ed_def conj_assoc)
  note V = fold_virtual [where P = "\<lambda>i. overflowWaitQ q i = [] \<and> buffer q i \<ge> reqSize q i" and
      f = "\<lambda>i. rc_QoSDelay q i + now" and xs = "[0..appNum q - 1]" and d = ed, folded evd]
  have "\<forall>j\<in>set (basicOsQ q). ed \<le> rc_deadline j" unfolding ed_def using fold_deadline [of rc_deadline] by blast
  with V show "\<forall>j\<in>set (basicOsQ q). earliestVirtualDeadline (updateEarliestDeadline now q) \<le> rc_deadline j"
    by (meson order_trans)
  from V show "\<forall>i\<in>{0..<appNum q}. overflowWaitQ q i = [] \<and> buffer q i \<ge> reqSize q i \<longrightarrow>
     earliestVirtualDeadline (updateEarliestDeadline now q) \<le> rc_QoSDelay q i + now" by auto
qed

lemma rc_prepare_deadlines:
  "(\<forall>j\<in>set (basicOsQ q). earliestVirtualDeadline (rc_prepare now q) \<le> rc_deadline j) \<and>
   (\<forall>i\<in>{0..<appNum q}. overflowWaitQ q i = [] \<and> buffer (rc_prepare now q) i \<ge> reqSize q i \<longrightarrow>
      earliestVirtualDeadline (rc_prepare now q) \<le> rc_QoSDelay q i + now)"
proof -
  define r where "r = updateOverflowQReqTags (updateLatestFinishTime now (updateBuffers now q))"
  have p: "rc_prepare now q = updateEarliestDeadline now r" by (simp add: rc_prepare_def r_def)
  have "basicOsQ r = basicOsQ q" "appNum r = appNum q" "reqSize r = reqSize q" "rc_QoSDelay r = rc_QoSDelay q"
    "buffer (updateEarliestDeadline now r) = buffer r"
    by (simp_all add: r_def updateOverflowQReqTags_def updateLatestFinishTime_def updateBuffers_def
        updateEarliestDeadline_def Let_def)
  moreover have "overflowWaitQ r i = []" if "overflowWaitQ q i = []" for i
    using that by (simp add: r_def updateOverflowQReqTags_def updateLatestFinishTime_def Let_def)
  ultimately show ?thesis unfolding p using updateEarliestDeadline_le [where q = r and now = now] by auto
qed

text \<open>
  Claim C21: SFQRC spends spare capacity only when the guarantees hold. When no basic request
  waits and \<^verbatim>\<open>dispatchNext\<close> hands out a request, it is the first one of the overflow
  queue of some application \<open>m\<close>. The finish time predicted for it is the load before it
  plus its transfer time, plus the seek when it reads a file other than \<open>f\<close>, where \<open>f\<close>
  is the file last accessed or the file of a reading request at the head of an overflow
  queue scanned before \<open>m\<close>. This time lies before the deadline of every outstanding
  basic request (overflow requests have no deadline that counts), and before the deadline that a
  full-size basic request of any application without an overflow backlog would get if it arrived now
  and its buffer admitted it.
\<close>

theorem sfqrc_respects_guarantees:
  assumes "rc_shape q" "basicWaitQ q = []" "rc_dispatchNext now q = Inr (Some p, q')"
  defines "r \<equiv> rc_prepare now q"
  shows "\<exists>m job rest js ks. rr_order (rc_startpos q) (appNum q) = js @ m # ks \<and>
    0 \<le> m \<and> m < appNum q \<and> overflowWaitQ r m = job # rest \<and>
    p = rc_pkt job \<and> rc_vtime q' = rc_stag job \<and>
    (\<exists>f\<in>rc_files r js.
      (\<forall>j\<in>set (basicOsQ q). latestVirtualFinishTime r + rc_transfer r job + rc_seek r f job < rc_deadline j) \<and>
      (\<forall>i\<in>{0..<appNum q}. overflowWaitQ q i = [] \<and> buffer r i \<ge> reqSize q i \<longrightarrow>
         latestVirtualFinishTime r + rc_transfer r job + rc_seek r f job < rc_QoSDelay q i + now))"
  using assms(1,3)
proof (cases rule: rc_dispatch_cases)
  case (take m job rest f)
  let ?q = "(rc_prepare now q)\<lparr>lastAccessFileID := f\<rparr>"
  have h: "rc_shape ?q" "m < appNum ?q" "overflowWaitQ ?q m = job # rest"
    using assms(1) take by (simp_all add: rc_prepare_frame)
  note T = rc_take_abs [OF h(1) take(2) h(2,3) take(7)]
  from take(6) obtain js ks g where g: "rr_order (rc_startpos q) (appNum q) = js @ m # ks"
    "g \<in> rc_files r js" "rc_admits r g job" unfolding rc_choice_def r_def by blast
  have "(\<forall>j\<in>set (basicOsQ q). latestVirtualFinishTime r + rc_transfer r job + rc_seek r g job < rc_deadline j) \<and>
      (\<forall>i\<in>{0..<appNum q}. overflowWaitQ q i = [] \<and> buffer r i \<ge> reqSize q i \<longrightarrow>
         latestVirtualFinishTime r + rc_transfer r job + rc_seek r g job < rc_QoSDelay q i + now)"
    using rc_prepare_deadlines [of q now, folded r_def] g(3) unfolding rc_admits_def
    by (meson less_le_trans)
  with take T g show ?thesis unfolding r_def by blast
qed (use assms in auto)

lemma demo_rc_eq:
  "demo_rc = \<lparr>myID = 0, degree = 4, appNum = 1, rc_weight = (\<lambda>_. 0)(0 := 10),
     overflowWaitQ = (\<lambda>_. []), overflowOsQ = [], basicWaitQ = [], basicOsQ = [],
     rc_maxftags = (\<lambda>_. 0), rc_vtime = 0, rc_startpos = 0,
     earliestDeadline = MAX_DEADLINE + 1, earliestVirtualDeadline = MAX_DEADLINE + 1,
     buffer = (\<lambda>i. if 0 \<le> i \<and> i < 1 then 100 else 0), bufferIncRate = (\<lambda>_. 0)(0 := 1),
     bufferMaxSize = (\<lambda>_. 0)(0 := 100), lastBuffersUpdateTime = 0,
     rc_QoSDelay = (\<lambda>_. 0)(0 := 5), reqSize = (\<lambda>_. 0)(0 := 50), readRate = 10, writeRate = 10, seekingTime = 1,
     lastAccessFileID = -1, appRead = (\<lambda>_. True), latestFinishTime = -1,
     latestVirtualFinishTime = -1, advanceStep = 1\<rparr>"
  by (simp add: rc_eval) (simp add: fun_eq_iff)

definition demo_rc_job :: rc_job where
  "demo_rc_job = \<lparr>rc_pkt = (demo_pkt 1 1 40)\<lparr>getRead := 1, getFileId := 3\<rparr>,
     rc_stag = 0, rc_ftag = 4, rc_deadline = 5\<rparr>"

definition demo_rc_backlog :: sfqrc where
  "demo_rc_backlog = demo_rc\<lparr>appNum := 2, rc_weight := \<lambda>_. 10, overflowWaitQ := (\<lambda>_. [])(1 := [demo_rc_job]),
     basicOsQ := [\<lparr>rc_pkt = demo_pkt 2 0 10, rc_stag = 0, rc_ftag = 0, rc_deadline = 20\<rparr>],
     buffer := (\<lambda>_. 0)(0 := 20), bufferMaxSize := \<lambda>_. 20, rc_QoSDelay := \<lambda>_. 30, reqSize := \<lambda>_. 10,
     latestFinishTime := 2\<rparr>"

lemma demo_rc_upto: "[0..1::int] = [0, 1]" "rr_order 0 2 = [0, 1]"
  by (simp_all add: rr_order_def upto_rec1)

lemma demo_rc_prepare:
  "rc_prepare 0 demo_rc_backlog = demo_rc_backlog\<lparr>earliestDeadline := 20, earliestVirtualDeadline := 20,
     latestVirtualFinishTime := 6\<rparr>"
  by (simp add: rc_prepare_def updateBuffers_def updateLatestFinishTime_def updateOverflowQReqTags_def
      updateEarliestDeadline_def demo_rc_backlog_def demo_rc_eq demo_rc_job_def rc_virtual_app_def Let_def
      MAX_DEADLINE_def demo_rc_upto)
    (simp add: fun_eq_iff)

lemma demo_rc_backlog_dispatch:
  "\<exists>q'. rc_dispatchNext 0 demo_rc_backlog = Inr (Some (rc_pkt demo_rc_job), q')"
proof -
  let ?r = "rc_prepare 0 demo_rc_backlog"
  have s: "rc_startpos ?r = 0" "appNum ?r = 2" "degree ?r = 4" "overflowOsQ ?r = []" "basicWaitQ ?r = []"
    "overflowWaitQ ?r 0 = []" "overflowWaitQ ?r 1 = [demo_rc_job]" "lastAccessFileID ?r = -1"
    unfolding demo_rc_prepare by (simp_all add: demo_rc_backlog_def demo_rc_eq)
  have "rc_admits ?r (-1) demo_rc_job"
    unfolding demo_rc_prepare
    by (simp add: rc_admits_def rc_transfer_def rc_seek_def demo_rc_backlog_def
        demo_rc_eq demo_rc_job_def demo_pkt_simps)
  then have v: "rc_visit 1 (MAX_TAG_VALUE, -1, ?r) = (0, 1, ?r\<lparr>lastAccessFileID := 3\<rparr>)"
    using s by (simp add: rc_visit_def checkGuarantees_eq demo_rc_job_def demo_pkt_simps)
  have z: "rc_visit 0 (MAX_TAG_VALUE, -1, ?r) = (MAX_TAG_VALUE, -1, ?r)" using s by (simp add: rc_visit_def)
  have "rr_loop (nat (appNum ?r) + 2) (rc_startpos ?r) (appNum ?r) rc_visit (rc_startpos ?r) True (MAX_TAG_VALUE, -1, ?r)
      = Some (0, 1, ?r\<lparr>lastAccessFileID := 3\<rparr>)"
    using rr_loop_round [of 0 2 "nat (appNum ?r) + 2" rc_visit "(MAX_TAG_VALUE, -1, ?r)"] s v z
    by (simp add: demo_rc_upto del: rr_loop.simps)
  moreover have "\<not> int (length (overflowOsQ demo_rc_backlog)) \<ge> degree demo_rc_backlog"
    "basicWaitQ demo_rc_backlog = []" by (simp_all add: demo_rc_backlog_def demo_rc_eq)
  ultimately have "rc_dispatchNext 0 demo_rc_backlog = rc_take 0 1 (?r\<lparr>lastAccessFileID := 3\<rparr>)"
    by (simp add: rc_dispatchNext_def del: rr_loop.simps)
  also have "\<exists>q'. \<dots> = Inr (Some (rc_pkt demo_rc_job), q')"
    using s by (simp add: rc_take_def Let_def)
  finally show ?thesis .
qed

text \<open>
  The reading request of application 1 needs a seek: the load before it ends at 6, it
  adds 4 and a seek of 1, and the outstanding basic request has the deadline 20.
\<close>

theorem sfqrc_respects_guarantees_witness:
  "\<exists>q'. rc_dispatchNext 0 demo_rc_backlog = Inr (Some (rc_pkt demo_rc_job), q') \<and> rc_vtime q' = 0 \<and>
     map rc_deadline (basicOsQ demo_rc_backlog) = [20] \<and>
     (let r = rc_prepare 0 demo_rc_backlog in
        latestVirtualFinishTime r = 6 \<and> rc_transfer r demo_rc_job = 4 \<and> rc_seek r (-1) demo_rc_job = 1 \<and>
        (\<forall>j\<in>set (basicOsQ demo_rc_backlog).
           latestVirtualFinishTime r + rc_transfer r demo_rc_job + rc_seek r (-1) demo_rc_job < rc_deadline j))"
proof -
  let ?r = "rc_prepare 0 demo_rc_backlog"
  obtain q' where d: "rc_dispatchNext 0 demo_rc_backlog = Inr (Some (rc_pkt demo_rc_job), q')"
    using demo_rc_backlog_dispatch by blast
  have h: "rc_shape demo_rc_backlog" "basicWaitQ demo_rc_backlog = []"
    and w: "overflowWaitQ ?r = (\<lambda>_. [])(1 := [demo_rc_job])" "rc_startpos demo_rc_backlog = 0"
      "appNum demo_rc_backlog = 2" "lastAccessFileID ?r = -1"
    unfolding demo_rc_prepare by (simp_all add: rc_shape_def demo_rc_backlog_def demo_rc_eq)
  obtain m job rest js ks f where c: "[0, 1] = js @ m # ks" "overflowWaitQ ?r m = job # rest"
      "rc_vtime q' = rc_stag job" "f \<in> rc_files ?r js"
      "\<forall>j\<in>set (basicOsQ demo_rc_backlog). latestVirtualFinishTime ?r + rc_transfer ?r job + rc_seek ?r f job < rc_deadline j"
    using sfqrc_respects_guarantees [OF h d] unfolding w demo_rc_upto by blast
  from c(2) w have "m = 1" "job = demo_rc_job" by (auto split: if_splits)
  moreover from this c(1) have "js = [0]" by (auto simp: Cons_eq_append_conv)
  with c(4) w have "f = -1" by (auto simp: rc_files_def)
  ultimately have "rc_vtime q' = 0"
    "\<forall>j\<in>set (basicOsQ demo_rc_backlog). latestVirtualFinishTime ?r + rc_transfer ?r demo_rc_job + rc_seek ?r (-1) demo_rc_job < rc_deadline j"
    using c(3,5) by (simp_all add: demo_rc_job_def)
  with d show ?thesis
    unfolding Let_def demo_rc_prepare
    by (simp add: demo_rc_backlog_def demo_rc_eq rc_transfer_def rc_seek_def demo_rc_job_def demo_pkt_simps)
qed

text \<open>
  A refusal is not final. The check of a refused request moves \<^verbatim>\<open>lastAccessFileID\<close> to its
  file, so the next call, at the same time, predicts no seek for it and lets it go: with
  the deadline 10.5 the first call returns NULL (6 + 4 + 1), the second the request (6 + 4).
\<close>

definition demo_rc_tight :: sfqrc where
  "demo_rc_tight = demo_rc_backlog\<lparr>basicOsQ := [\<lparr>rc_pkt = demo_pkt 2 0 10, rc_stag = 0, rc_ftag = 0, rc_deadline = 21/2\<rparr>],
     earliestDeadline := 21/2, earliestVirtualDeadline := 21/2, latestVirtualFinishTime := 6\<rparr>"

lemma demo_rc_tight_prepare:
  "rc_prepare 0 (demo_rc_tight\<lparr>lastAccessFileID := f\<rparr>) = demo_rc_tight\<lparr>lastAccessFileID := f\<rparr>"
  by (simp add: rc_prepare_def updateBuffers_def updateLatestFinishTime_def updateOverflowQReqTags_def
      updateEarliestDeadline_def demo_rc_tight_def demo_rc_backlog_def demo_rc_eq demo_rc_job_def
      rc_virtual_app_def Let_def MAX_DEADLINE_def demo_rc_upto)
    (simp add: fun_eq_iff)

lemma demo_rc_tight_dispatch:
  "rc_dispatchNext 0 (demo_rc_tight\<lparr>lastAccessFileID := f\<rparr>) =
     (if f = 3 then rc_take 0 1 (demo_rc_tight\<lparr>lastAccessFileID := 3\<rparr>)
      else Inr (None, demo_rc_tight\<lparr>lastAccessFileID := 3\<rparr>))"
proof -
  let ?q = "\<lambda>f. demo_rc_tight\<lparr>lastAccessFileID := f\<rparr>"
  have s: "rc_startpos (?q f) = 0" "appNum (?q f) = 2" "degree (?q f) = 4" "overflowOsQ (?q f) = []" "basicWaitQ (?q f) = []"
    "overflowWaitQ (?q f) 0 = []" "overflowWaitQ (?q f) 1 = [demo_rc_job]" for f
    by (simp_all add: demo_rc_tight_def demo_rc_backlog_def demo_rc_eq)
  have a: "rc_admits (?q f) g demo_rc_job \<longleftrightarrow> g = 3" for f g
    by (simp add: rc_admits_def rc_transfer_def rc_seek_def demo_rc_tight_def demo_rc_backlog_def
        demo_rc_eq demo_rc_job_def demo_pkt_simps)
  have v: "rc_visit 1 (MAX_TAG_VALUE, -1, ?q f) = (if f = 3 then (0, 1, ?q 3) else (MAX_TAG_VALUE, -1, ?q 3))"
    using s a [of f f] by (simp add: rc_visit_def checkGuarantees_eq) (simp add: demo_rc_job_def demo_pkt_simps)
  have z: "rc_visit 0 (MAX_TAG_VALUE, -1, ?q f) = (MAX_TAG_VALUE, -1, ?q f)" using s by (simp add: rc_visit_def)
  have "rr_loop (nat (appNum (?q f)) + 2) (rc_startpos (?q f)) (appNum (?q f)) rc_visit (rc_startpos (?q f)) True
      (MAX_TAG_VALUE, -1, ?q f) = Some (if f = 3 then (0, 1, ?q 3) else (MAX_TAG_VALUE, -1, ?q 3))"
    using rr_loop_round [of 0 2 "nat (appNum (?q f)) + 2" rc_visit "(MAX_TAG_VALUE, -1, ?q f)"] s v z
    by (simp add: demo_rc_upto del: rr_loop.simps)
  with s show ?thesis by (simp add: rc_dispatchNext_def demo_rc_tight_prepare del: rr_loop.simps)
qed

theorem sfqrc_refusal_not_final:
  "\<exists>q q'. rc_dispatchNext 0 demo_rc_tight = Inr (None, q) \<and>
     rc_dispatchNext 0 q = Inr (Some (rc_pkt demo_rc_job), q')"
proof -
  have f: "demo_rc_tight = demo_rc_tight\<lparr>lastAccessFileID := -1\<rparr>"
    by (simp add: demo_rc_tight_def demo_rc_backlog_def demo_rc_eq)
  have "\<exists>q'. rc_take 0 1 (demo_rc_tight\<lparr>lastAccessFileID := 3\<rparr>) = Inr (Some (rc_pkt demo_rc_job), q')"
    by (simp add: rc_take_def Let_def demo_rc_tight_def demo_rc_backlog_def demo_rc_eq)
  moreover have "rc_dispatchNext 0 demo_rc_tight = Inr (None, demo_rc_tight\<lparr>lastAccessFileID := 3\<rparr>)"
    by (subst f) (simp add: demo_rc_tight_dispatch)
  ultimately show ?thesis using demo_rc_tight_dispatch [of 3] by auto
qed

text \<open>
  A new SFQRC request that goes to a non-empty overflow queue gets the finish
  tag of its predecessor truncated towards zero (the tag passes through an
  \<^verbatim>\<open>int\<close>), so with a fractional finish tag not below the virtual time plus one the
  start tag lies strictly before that finish tag and the two service intervals overlap.
\<close>

theorem sfqrc_truncates_start_tag:
  assumes "rc_pushWaitQ now pkt q = Inr q'" "overflowWaitQ q (getApp pkt) = ks @ [prev]"
    and "rc_ftag prev \<notin> \<int>" "0 \<le> rc_ftag prev" "rc_vtime q \<le> rc_ftag prev - 1"
  shows "\<exists>job. overflowWaitQ q' (getApp pkt) = ks @ [prev, job] \<and> rc_pkt job = pkt \<and>
    rc_stag job = of_int \<lfloor>rc_ftag prev\<rfloor> \<and> rc_stag job < rc_ftag prev"
proof -
  have "of_int \<lfloor>rc_ftag prev\<rfloor> \<noteq> rc_ftag prev" using assms(3) by (metis Ints_of_int)
  then have lt: "of_int \<lfloor>rc_ftag prev\<rfloor> < rc_ftag prev" by (simp add: less_le)
  have "rc_ftag prev - 1 < of_int \<lfloor>rc_ftag prev\<rfloor>" by linarith
  with assms(5) have "of_int \<lfloor>rc_ftag prev\<rfloor> > rc_vtime q" by linarith
  with assms(1,2,4) lt show ?thesis
    by (auto simp: rc_pushWaitQ_def updateBuffers_def trunc_double_def Let_def split: if_splits)
qed

theorem sfqrc_truncates_start_tag_witness:
  "\<exists>(q'::sfqrc) job. overflowWaitQ q' 0 = [\<lparr>rc_pkt = demo_pkt 1 0 40, rc_stag = 0, rc_ftag = 5/2, rc_deadline = 5\<rparr>, job]
     \<and> rc_stag job = 2"
proof -
  define prev where "prev = \<lparr>rc_pkt = demo_pkt 1 0 40, rc_stag = 0, rc_ftag = 5/2, rc_deadline = 5\<rparr>"
  define q where "q = demo_rc\<lparr>overflowWaitQ := (\<lambda>_. [])(0 := [prev])\<rparr>"
  obtain q' where p: "rc_pushWaitQ 0 (demo_pkt 2 0 40) q = Inr q'"
    by (simp add: rc_pushWaitQ_def q_def demo_rc_eq updateBuffers_def Let_def demo_pkt_simps)
  have o: "overflowWaitQ q (getApp (demo_pkt 2 0 40)) = [] @ [prev]"
    by (simp add: q_def demo_pkt_simps)
  have f: "rc_ftag prev \<notin> \<int>"
  proof
    assume "rc_ftag prev \<in> \<int>"
    then obtain k :: int where "5/2 = real_of_int k" by (auto simp: prev_def elim: Ints_cases)
    then have "5 = 2 * k" by linarith
    then show False by presburger
  qed
  have "0 \<le> rc_ftag prev" "rc_vtime q \<le> rc_ftag prev - 1" by (simp_all add: prev_def q_def demo_rc_eq)
  from sfqrc_truncates_start_tag [OF p o f this] show ?thesis
    by (auto simp: prev_def demo_pkt_simps floor_eq_iff)
qed

section \<open>The basic queue\<close>

definition rc_sorted :: "sfqrc \<Rightarrow> bool" where
  "rc_sorted q \<longleftrightarrow> sorted_wrt (\<lambda>j k. rc_deadline j \<le> rc_deadline k) (basicWaitQ q)"

lemma insertBasicWaitQ_set: "set (insertBasicWaitQ j js) = insert j (set js)"
  by (induction js) auto

lemma insertBasicWaitQ_sorted:
  "sorted_wrt (\<lambda>j k. rc_deadline j \<le> rc_deadline k) js \<Longrightarrow>
   sorted_wrt (\<lambda>j k. rc_deadline j \<le> rc_deadline k) (insertBasicWaitQ j js)"
  by (induction js) (auto simp: insertBasicWaitQ_set intro: order_trans less_imp_le)

lemma rc_push_sorted: "rc_pushWaitQ now p q = Inr q' \<Longrightarrow> rc_sorted q \<Longrightarrow> rc_sorted q'"
  by (erule rc_push_cases) (simp_all add: rc_sorted_def insertBasicWaitQ_sorted)

lemma rc_take_basic:
  "rc_take now m q = Inr (r, q') \<Longrightarrow> basicWaitQ q' = basicWaitQ q"
  by (cases "overflowWaitQ q m")
    (auto simp: rc_take_def Let_def rc_new_job_frame split: list.splits simp del: fun_upd_apply)

lemma rc_dispatch_basic:
  assumes "rc_shape q" "rc_dispatchNext now q = Inr (r, q')"
  shows "basicWaitQ q' = basicWaitQ q \<or> basicWaitQ q' = tl (basicWaitQ q)"
  using assms
proof (cases rule: rc_dispatch_cases)
  case (basic job rest)
  then show ?thesis by (simp add: updateEarliestDeadline_def Let_def rc_new_job_frame)
next
  case (take m job rest f)
  from rc_take_basic [OF take(7)] show ?thesis by (simp add: rc_prepare_frame)
qed (auto simp: rc_prepare_frame)

lemma rc_step_sorted:
  assumes "rc_shape (fst x) \<and> rc_sorted (fst x)" "rc.step ev x = Inr x'"
  shows "rc_shape (fst x') \<and> rc_sorted (fst x')"
proof -
  obtain q ps ds cs where x: "x = (q, ps, ds, cs)" by (cases x) auto
  from assms(1) x have i: "rc_shape q" "rc_sorted q" by auto
  show ?thesis
  proof (cases ev)
    case (Push now p)
    with assms(2) x obtain q' where "rc_pushWaitQ now p q = Inr q'" "fst x' = q'" by auto
    with rc_push_sorted rc_push_abs i show ?thesis by blast
  next
    case (Dispatch now)
    with assms(2) x obtain r q' where d: "rc_dispatchNext now q = Inr (r, q')" "fst x' = q'" by auto
    from rc_dispatch_basic [OF i(1) d(1)] i(2) have "rc_sorted q'"
      by (cases "basicWaitQ q") (auto simp: rc_sorted_def)
    with rc_dispatch_abs [OF i(1) d(1)] d(2) show ?thesis by simp
  next
    case (Pop now k)
    with assms(2) x obtain r q' where d: "rc_popOsQ now k q = Inr (r, q')" "fst x' = q'" by auto
    have "basicWaitQ (updateLatestFinishTime now x) = basicWaitQ x" for x
      by (simp add: updateLatestFinishTime_def Let_def)
    with d(1) have "basicWaitQ q' = basicWaitQ q"
      unfolding rc_popOsQ_def rc_popOsQ_subid_def by (auto split: option.splits)
    with rc_pop_abs [OF i(1) d(1)] d(2) i(2) show ?thesis by (auto simp: rc_sorted_def)
  qed
qed

text \<open>
  Claim C22: SFQRC serves basic requests first and in the order of their deadlines. After any
  sequence of calls on a new scheduler, the basic queue is ordered by deadline, and
  when a basic request waits and the overflow requests outstanding are below the
  degree, \<^verbatim>\<open>dispatchNext\<close> hands out a basic request whose deadline no other waiting
  basic request undercuts, whatever the overflow queues hold.
\<close>

theorem sfqrc_basic_first:
  assumes "SFQRC_new i d n ws gs br mem = Inr q0" "0 < n"
    and "run_res rc.step evs (q0, [], [], []) = Inr (q, ps, ds, cs)"
    and "basicWaitQ q \<noteq> []" "int (length (overflowOsQ q)) < degree q"
  shows "\<exists>job rest q'. basicWaitQ q = job # rest \<and>
    rc_dispatchNext now q = Inr (Some (rc_pkt job), q') \<and> basicWaitQ q' = rest \<and>
    (\<forall>j\<in>set (basicWaitQ q). rc_deadline job \<le> rc_deadline j)"
proof -
  from SFQRC_new_shape [OF assms(1,2)] have "rc_shape q0 \<and> rc_sorted q0" by (simp add: rc_sorted_def)
  then have "rc_sorted q"
    using run_res_invariant [where P = "\<lambda>x. rc_shape (fst x) \<and> rc_sorted (fst x)" and f = rc.step,
        OF rc_step_sorted _ assms(3)] by simp
  from assms(4) obtain job rest where b: "basicWaitQ q = job # rest" by (cases "basicWaitQ q") auto
  define q' where "q' = updateEarliestDeadline now (updateLatestFinishTimeWithNewJob now job
      (q\<lparr>basicWaitQ := rest, basicOsQ := basicOsQ q @ [job]\<rparr>))"
  have "rc_dispatchNext now q = Inr (Some (rc_pkt job), q')"
    using assms(5) b by (simp add: rc_dispatchNext_def q'_def)
  moreover have "basicWaitQ q' = rest"
    by (simp add: q'_def updateEarliestDeadline_def Let_def rc_new_job_frame)
  moreover have "\<forall>j\<in>set (basicWaitQ q). rc_deadline job \<le> rc_deadline j"
    using \<open>rc_sorted q\<close> b by (auto simp: rc_sorted_def)
  ultimately show ?thesis using b by blast
qed

lemma demo_rc_push:
  "\<exists>q ps. run_res rc.step [Push 0 (demo_pkt 1 0 40)] (demo_rc, [], [], []) = Inr (q, ps, [], []) \<and>
     basicWaitQ q = [\<lparr>rc_pkt = demo_pkt 1 0 40, rc_stag = 0, rc_ftag = 0, rc_deadline = 5\<rparr>] \<and>
     overflowOsQ q = [] \<and> degree q = 4"
  by (simp add: rc_pushWaitQ_def demo_rc_eq updateBuffers_def Let_def demo_pkt_simps)

theorem sfqrc_basic_first_witness:
  "\<exists>(q::sfqrc) q'. rc_dispatchNext 1 q = Inr (Some (demo_pkt 1 0 40), q') \<and> basicWaitQ q' = []"
proof -
  obtain q ps where r: "run_res rc.step [Push 0 (demo_pkt 1 0 40)] (demo_rc, [], [], []) = Inr (q, ps, [], [])"
    and b: "basicWaitQ q = [\<lparr>rc_pkt = demo_pkt 1 0 40, rc_stag = 0, rc_ftag = 0, rc_deadline = 5\<rparr>]"
    and o: "overflowOsQ q = []" "degree q = 4"
    using demo_rc_push by blast
  have h: "basicWaitQ q \<noteq> []" "int (length (overflowOsQ q)) < degree q" using b o by simp_all
  have n: "(0::int) < 1" by simp
  from sfqrc_basic_first [OF demo_rc_new n r h, of 1] b show ?thesis by auto
qed

text \<open>
  The operation \<^verbatim>\<open>SFQRC::queryJob\<close> never searches the basic outstanding queue: a request
  that was dispatched as a basic one is answered with NULL when no overflow
  request is outstanding, and stops the simulation when none that is has its
  identifiers.
\<close>

theorem sfqrc_query_misses_basic:
  assumes "\<forall>j\<in>set (overflowOsQ q). \<not> rc_match pid 0 j"
  shows "rc_queryJob pid (q\<lparr>basicOsQ := js\<rparr>) =
    (if overflowOsQ q = [] then Inr None else Inl (Abort ''SFQ''))"
proof -
  have "find (rc_match pid 0) (overflowOsQ q) = None" using assms by (simp add: find_None_iff)
  then show ?thesis by (simp add: rc_queryJob_def rc_queryJob_subid_def)
qed

theorem sfqrc_query_misses_basic_witness:
  "rc_queryJob 1 (demo_rc\<lparr>basicOsQ := [demo_rc_job]\<rparr>) = Inr None \<and> getID (rc_pkt demo_rc_job) = 1"
proof -
  have "\<forall>j\<in>set (overflowOsQ demo_rc). \<not> rc_match 1 0 j" by (simp add: demo_rc_eq)
  from sfqrc_query_misses_basic [OF this, of "[demo_rc_job]"] show ?thesis
    by (simp add: demo_rc_eq demo_rc_job_def demo_pkt_simps)
qed

end
