(* ===== verification/Scheduler.thy ===== *)
theory Scheduler
  imports Dsfq Dta Sfqrc
begin

text \<open>
  \<^verbatim>\<open>scheduler/SchedulerFactory.cc\<close> and the virtual dispatch on \<^verbatim>\<open>IQueue *\<close>: the
  schedulers a proxy can be given are the constructors of one datatype, a call of
  a virtual operation is a case distinction on it. A class that does not override
  an operation has the one it inherits. Every scheduler that the factory creates
  meets the contract of \<open>IQueue\<close>.
\<close>

datatype sched =
    S_FIFO "gPacket fifo" | S_SFQ "gPacket sfq" | S_DSFQA "gPacket dsfq" | S_DSFQD "gPacket dsfq"
  | S_DSFQF "gPacket dsfq" | S_DSFQATB "gPacket dsfqatb" | S_DSFQALB "gPacket dsfqalb"
  | S_SFQRC sfqrc | S_I2L i2l | S_EDF "gPacket edf" | S_DTA dta

text \<open>
  What the constructors read from the parameter string with \<^verbatim>\<open>strchr\<close> and
  \<^verbatim>\<open>sscanf\<close>: the groups in square brackets, the number after the bar, the groups in
  angle brackets and in braces (in the format of SFQRC and of I2L), the delays of
  EDF, and lag, number of servers and delays of DTA.
\<close>

record alg_param =
  ap_weights :: "(int \<times> real) list"
  ap_bar :: "real option"
  ap_rc_groups :: "(int \<times> real \<times> real \<times> real \<times> real) list"
  ap_rc_braces :: "(real \<times> real \<times> real \<times> real) option"
  ap_i2l_groups :: "(int \<times> int \<times> real) list"
  ap_i2l_braces :: "(real \<times> real) option"
  ap_edf_delays :: "(int \<times> real) list"
  ap_dta :: "real \<times> int \<times> real list"

section \<open>The factory\<close>

definition createScheduler :: "string \<Rightarrow> int \<Rightarrow> int \<Rightarrow> 'p fifo res" where
  "createScheduler algorithm pid deg =
    (if algorithm = ''FIFO'' then Inr (FIFO_new pid deg) else Inl (Abort ''Proxy''))"

definition createScheduler_param ::
  "string \<Rightarrow> int \<Rightarrow> int \<Rightarrow> int \<Rightarrow> alg_param \<Rightarrow>
   (int \<Rightarrow> real) \<Rightarrow> (int \<Rightarrow> int) \<Rightarrow> (int \<Rightarrow> dbl) \<Rightarrow> sched res" where
  "createScheduler_param algorithm pid deg numapps ap mem cnt per =
    (if algorithm = ''FIFO'' then Inr (S_FIFO (FIFO_new pid deg))
     else if algorithm = ''SFQ'' then Inr (S_SFQ (SFQ_new pid deg numapps (ap_weights ap) mem))
     else if algorithm = ''DSFQA'' then Inr (S_DSFQA (DSFQ_new pid deg numapps (ap_weights ap) mem))
     else if algorithm = ''DSFQD'' then Inr (S_DSFQD (DSFQ_new pid deg numapps (ap_weights ap) mem))
     else if algorithm = ''DSFQF'' then Inr (S_DSFQF (DSFQ_new pid deg numapps (ap_weights ap) mem))
     else if algorithm = ''DSFQATB'' then
       bindR (DSFQATB_new pid deg numapps (ap_weights ap) (ap_bar ap) mem) (\<lambda>q. Inr (S_DSFQATB q))
     else if algorithm = ''DSFQALB'' then
       bindR (DSFQALB_new pid deg numapps (ap_weights ap) (ap_bar ap) mem) (\<lambda>q. Inr (S_DSFQALB q))
     else if algorithm = ''SFQRC'' then
       bindR (SFQRC_new pid deg numapps (ap_weights ap) (ap_rc_groups ap) (ap_rc_braces ap) mem)
         (\<lambda>q. Inr (S_SFQRC q))
     else if algorithm = ''I2L'' then
       bindR (I2L_new numapps (ap_i2l_groups ap) (ap_i2l_braces ap) mem cnt per) (\<lambda>q. Inr (S_I2L q))
     else if algorithm = ''EDF'' then Inr (S_EDF (EDF_new pid deg numapps (ap_edf_delays ap) mem))
     else if algorithm = ''DTA'' then
       (case ap_dta ap of (lag, dsnum, delays) \<Rightarrow>
          bindR (DTA_new pid deg numapps lag dsnum delays mem) (\<lambda>q. Inr (S_DTA q)))
     else Inl (Abort ''Proxy''))"

section \<open>The virtual operations\<close>

definition sched_pushWaitQ :: "real \<Rightarrow> gPacket \<Rightarrow> sched \<Rightarrow> sched res" where
  "sched_pushWaitQ now p s =
    (case s of
       S_FIFO q \<Rightarrow> Inr (S_FIFO (fifo_pushWaitQ p q))
     | S_SFQ q \<Rightarrow> bindR (sfq_pushWaitQ p q) (\<lambda>q. Inr (S_SFQ q))
     | S_DSFQA q \<Rightarrow> bindR (dsfqa_pushWaitQ p q) (\<lambda>q. Inr (S_DSFQA q))
     | S_DSFQD q \<Rightarrow> bindR (sfq_pushWaitQ p q) (\<lambda>q. Inr (S_DSFQD q))
     | S_DSFQF q \<Rightarrow> bindR (sfq_pushWaitQ p q) (\<lambda>q. Inr (S_DSFQF q))
     | S_DSFQATB q \<Rightarrow> bindR (dsfqa_pushWaitQ p q) (\<lambda>q. Inr (S_DSFQATB q))
     | S_DSFQALB q \<Rightarrow> bindR (dsfqalb_pushWaitQ p q) (\<lambda>q. Inr (S_DSFQALB q))
     | S_SFQRC q \<Rightarrow> bindR (rc_pushWaitQ now p q) (\<lambda>q. Inr (S_SFQRC q))
     | S_I2L q \<Rightarrow> bindR (i2l_pushWaitQ now p q) (\<lambda>q. Inr (S_I2L q))
     | S_EDF q \<Rightarrow> bindR (edf_pushWaitQ p q) (\<lambda>q. Inr (S_EDF q))
     | S_DTA q \<Rightarrow> bindR (dta_pushWaitQ now p q) (\<lambda>q. Inr (S_DTA q)))"

definition with_sched :: "('q \<Rightarrow> sched) \<Rightarrow> ('a \<times> 'q) res \<Rightarrow> ('a \<times> sched) res" where
  "with_sched C r = bindR r (\<lambda>(x, q). Inr (x, C q))"

definition sched_dispatchNext :: "real \<Rightarrow> sched \<Rightarrow> (gPacket option \<times> sched) res" where
  "sched_dispatchNext now s =
    (case s of
       S_FIFO q \<Rightarrow> with_sched S_FIFO (Inr (fifo_dispatchNext q))
     | S_SFQ q \<Rightarrow> with_sched S_SFQ (sfq_dispatchNext q)
     | S_DSFQA q \<Rightarrow> with_sched S_DSFQA (sfq_dispatchNext q)
     | S_DSFQD q \<Rightarrow> with_sched S_DSFQD (dsfqd_dispatchNext q)
     | S_DSFQF q \<Rightarrow> with_sched S_DSFQF (sfq_dispatchNext q)
     | S_DSFQATB q \<Rightarrow> with_sched S_DSFQATB (sfq_dispatchNext q)
     | S_DSFQALB q \<Rightarrow> with_sched S_DSFQALB (sfq_dispatchNext q)
     | S_SFQRC q \<Rightarrow> with_sched S_SFQRC (rc_dispatchNext now q)
     | S_I2L q \<Rightarrow> with_sched S_I2L (i2l_dispatchNext now q)
     | S_EDF q \<Rightarrow> with_sched S_EDF (Inr (fifo_dispatchNext q))
     | S_DTA q \<Rightarrow> with_sched S_DTA (dta_dispatchNext now q))"

definition sched_popOsQ :: "real \<Rightarrow> int \<Rightarrow> sched \<Rightarrow> (gPacket option \<times> sched) res" where
  "sched_popOsQ now pid s =
    (case s of
       S_FIFO q \<Rightarrow> with_sched S_FIFO (Inr (fifo_popOsQ pid q))
     | S_SFQ q \<Rightarrow> with_sched S_SFQ (sfq_popOsQ pid q)
     | S_DSFQA q \<Rightarrow> with_sched S_DSFQA (sfq_popOsQ pid q)
     | S_DSFQD q \<Rightarrow> with_sched S_DSFQD (sfq_popOsQ pid q)
     | S_DSFQF q \<Rightarrow> with_sched S_DSFQF (dsfqf_popOsQ pid q)
     | S_DSFQATB q \<Rightarrow> with_sched S_DSFQATB (sfq_popOsQ pid q)
     | S_DSFQALB q \<Rightarrow> with_sched S_DSFQALB (sfq_popOsQ pid q)
     | S_SFQRC q \<Rightarrow> with_sched S_SFQRC (rc_popOsQ now pid q)
     | S_I2L q \<Rightarrow> with_sched S_I2L (i2l_popOsQ now pid q)
     | S_EDF q \<Rightarrow> with_sched S_EDF (Inr (fifo_popOsQ pid q))
     | S_DTA q \<Rightarrow> with_sched S_DTA (dta_popOsQ now pid q))"

definition sched_propagateSPacket :: "sched \<Rightarrow> (sPacket option \<times> sched) res" where
  "sched_propagateSPacket s =
    (case s of
       S_DSFQA q \<Rightarrow> with_sched S_DSFQA (Inr (dsfq_propagateSPacket q))
     | S_DSFQD q \<Rightarrow> with_sched S_DSFQD (Inr (dsfq_propagateSPacket q))
     | S_DSFQF q \<Rightarrow> with_sched S_DSFQF (Inr (dsfq_propagateSPacket q))
     | S_DSFQATB q \<Rightarrow> with_sched S_DSFQATB (Inr (dsfq_propagateSPacket q))
     | S_DSFQALB q \<Rightarrow> with_sched S_DSFQALB (Inr (dsfq_propagateSPacket q))
     | S_FIFO q \<Rightarrow> fifo_propagateSPacket s
     | S_EDF q \<Rightarrow> fifo_propagateSPacket s
     | _ \<Rightarrow> IQueue_propagateSPacket s)"

definition sched_receiveSPacket :: "sPacket \<Rightarrow> sched \<Rightarrow> sched res" where
  "sched_receiveSPacket spkt s =
    (case s of
       S_DSFQA q \<Rightarrow> bindR (dsfqa_receiveSPacket spkt q) (\<lambda>q. Inr (S_DSFQA q))
     | S_DSFQD q \<Rightarrow> bindR (dsfqd_receiveSPacket spkt q) (\<lambda>q. Inr (S_DSFQD q))
     | S_DSFQF q \<Rightarrow> bindR (dsfqf_receiveSPacket spkt q) (\<lambda>q. Inr (S_DSFQF q))
     | S_DSFQATB q \<Rightarrow> bindR (dsfqa_receiveSPacket spkt q) (\<lambda>q. Inr (S_DSFQATB q))
     | S_DSFQALB q \<Rightarrow> bindR (dsfqa_receiveSPacket spkt q) (\<lambda>q. Inr (S_DSFQALB q))
     | S_FIFO q \<Rightarrow> fifo_receiveSPacket spkt s
     | S_EDF q \<Rightarrow> fifo_receiveSPacket spkt s
     | _ \<Rightarrow> IQueue_receiveSPacket spkt s)"

definition sched_notify :: "real \<Rightarrow> sched \<Rightarrow> (real \<times> sched) res" where
  "sched_notify now s =
    (case s of
       S_DSFQATB q \<Rightarrow> Inr (dsfqatb_notify now q, s)
     | S_I2L q \<Rightarrow> with_sched S_I2L (i2l_notify now q)
     | _ \<Rightarrow> IQueue_notify now s)"

text \<open>
  A store through the pointer that \<^verbatim>\<open>dispatchNext\<close> has just returned: the packet is
  the new last element of an outstanding list (of the one of the two lists of
  SFQRC that grew) or the entry of the map of DTA. The other lists of DTA that may
  still hold the pointer are only searched by identity.
\<close>

definition touch_new :: "('a \<Rightarrow> 'a) \<Rightarrow> 'a list \<Rightarrow> 'a list \<Rightarrow> 'a list" where
  "touch_new f old new = (if length new > length old then butlast new @ [f (last new)] else new)"

definition sched_touch :: "(gPacket \<Rightarrow> gPacket) \<Rightarrow> gPacket \<Rightarrow> sched \<Rightarrow> sched \<Rightarrow> sched" where
  "sched_touch f p old s =
    (let fifo = (\<lambda>os os'. touch_new f os os');
         jobs = (\<lambda>os os'. touch_new (\<lambda>j. j\<lparr>job_pkt := f (job_pkt j)\<rparr>) os os');
         rcs = (\<lambda>os os'. touch_new (\<lambda>j. j\<lparr>rc_pkt := f (rc_pkt j)\<rparr>) os os') in
     case (old, s) of
       (S_FIFO q0, S_FIFO q) \<Rightarrow> S_FIFO (q\<lparr>osQ := fifo (osQ q0) (osQ q)\<rparr>)
     | (S_EDF q0, S_EDF q) \<Rightarrow> S_EDF (q\<lparr>osQ := fifo (osQ q0) (osQ q)\<rparr>)
     | (S_SFQ q0, S_SFQ q) \<Rightarrow> S_SFQ (q\<lparr>sfq_osQ := jobs (sfq_osQ q0) (sfq_osQ q)\<rparr>)
     | (S_DSFQA q0, S_DSFQA q) \<Rightarrow> S_DSFQA (q\<lparr>sfq_osQ := jobs (sfq_osQ q0) (sfq_osQ q)\<rparr>)
     | (S_DSFQD q0, S_DSFQD q) \<Rightarrow> S_DSFQD (q\<lparr>sfq_osQ := jobs (sfq_osQ q0) (sfq_osQ q)\<rparr>)
     | (S_DSFQF q0, S_DSFQF q) \<Rightarrow> S_DSFQF (q\<lparr>sfq_osQ := jobs (sfq_osQ q0) (sfq_osQ q)\<rparr>)
     | (S_DSFQATB q0, S_DSFQATB q) \<Rightarrow> S_DSFQATB (q\<lparr>sfq_osQ := jobs (sfq_osQ q0) (sfq_osQ q)\<rparr>)
     | (S_DSFQALB q0, S_DSFQALB q) \<Rightarrow> S_DSFQALB (q\<lparr>sfq_osQ := jobs (sfq_osQ q0) (sfq_osQ q)\<rparr>)
     | (S_SFQRC q0, S_SFQRC q) \<Rightarrow> S_SFQRC (q\<lparr>basicOsQ := rcs (basicOsQ q0) (basicOsQ q),
                                              overflowOsQ := rcs (overflowOsQ q0) (overflowOsQ q)\<rparr>)
     | (S_I2L q0, S_I2L q) \<Rightarrow>
         S_I2L (q\<lparr>the_avatar := (the_avatar q)\<lparr>av_queue := (av_queue (the_avatar q))
            \<lparr>osQ := fifo (osQ (av_queue (the_avatar q0))) (osQ (av_queue (the_avatar q)))\<rparr>\<rparr>\<rparr>)
     | (S_DTA q0, S_DTA q) \<Rightarrow>
         S_DTA (q\<lparr>dispatchedSubreqs := (dispatchedSubreqs q)(getID p :=
                    map_option f (dispatchedSubreqs q (getID p)))\<rparr>)
     | _ \<Rightarrow> s)"

section \<open>The contract\<close>

definition sched_waiting :: "sched \<Rightarrow> int multiset" where
  "sched_waiting s =
    (case s of
       S_FIFO q \<Rightarrow> image_mset fst (fifo_waiting q)
     | S_SFQ q \<Rightarrow> image_mset fst (sfq_waiting q)
     | S_DSFQA q \<Rightarrow> image_mset fst (sfq_waiting q)
     | S_DSFQD q \<Rightarrow> image_mset fst (sfq_waiting q)
     | S_DSFQF q \<Rightarrow> image_mset fst (sfq_waiting q)
     | S_DSFQATB q \<Rightarrow> image_mset fst (sfq_waiting q)
     | S_DSFQALB q \<Rightarrow> image_mset fst (sfq_waiting q)
     | S_SFQRC q \<Rightarrow> image_mset fst (rc_waiting q)
     | S_I2L q \<Rightarrow> image_mset fst (i2l_waiting q)
     | S_EDF q \<Rightarrow> image_mset fst (fifo_waiting q)
     | S_DTA q \<Rightarrow> dta_waiting q)"

definition sched_outstanding :: "sched \<Rightarrow> int multiset" where
  "sched_outstanding s =
    (case s of
       S_FIFO q \<Rightarrow> image_mset fst (fifo_outstanding q)
     | S_SFQ q \<Rightarrow> image_mset fst (sfq_outstanding q)
     | S_DSFQA q \<Rightarrow> image_mset fst (sfq_outstanding q)
     | S_DSFQD q \<Rightarrow> image_mset fst (sfq_outstanding q)
     | S_DSFQF q \<Rightarrow> image_mset fst (sfq_outstanding q)
     | S_DSFQATB q \<Rightarrow> image_mset fst (sfq_outstanding q)
     | S_DSFQALB q \<Rightarrow> image_mset fst (sfq_outstanding q)
     | S_SFQRC q \<Rightarrow> image_mset fst (rc_outstanding q)
     | S_I2L q \<Rightarrow> image_mset fst (i2l_outstanding q)
     | S_EDF q \<Rightarrow> image_mset fst (fifo_outstanding q)
     | S_DTA q \<Rightarrow> dta_outstanding q)"

definition sched_inv :: "sched \<Rightarrow> bool" where
  "sched_inv s =
    (case s of
       S_FIFO q \<Rightarrow> True
     | S_SFQ q \<Rightarrow> sfq_shape q
     | S_DSFQA q \<Rightarrow> sfq_shape q
     | S_DSFQD q \<Rightarrow> sfq_shape q
     | S_DSFQF q \<Rightarrow> sfq_shape q
     | S_DSFQATB q \<Rightarrow> sfq_shape q
     | S_DSFQALB q \<Rightarrow> sfq_shape q
     | S_SFQRC q \<Rightarrow> rc_shape q
     | S_I2L q \<Rightarrow> i2l_inv q
     | S_EDF q \<Rightarrow> edf_sorted q
     | S_DTA q \<Rightarrow> dta_inv q)"

lemmas sched_abs = sched_waiting_def sched_outstanding_def sched_inv_def

text \<open>
  The clients give every request a fresh identity; only DTA, which keeps its
  sub-requests in maps, depends on it.
\<close>

definition sched_push_new :: "real \<Rightarrow> gPacket \<Rightarrow> sched \<Rightarrow> sched res" where
  "sched_push_new now p s =
    (if getID p \<in># sched_waiting s + sched_outstanding s then Inl (Abort ''client'')
     else sched_pushWaitQ now p s)"

lemma fst_pkt_key [simp]: "fst (pkt_key p) = getID p"
  by (simp add: pkt_key_def)

lemma with_sched_Inr:
  "with_sched C m = Inr (x, s) \<longleftrightarrow> (\<exists>q. m = Inr (x, q) \<and> s = C q)"
  by (cases m) (auto simp: with_sched_def split: prod.splits)

lemma dta_push_fresh:
  assumes "dta_inv q" "getID p \<notin># dta_waiting q + dta_outstanding q"
  shows "dta_push_new now p q = dta_pushWaitQ now p q"
proof -
  have "finite (dom (waitingSubreqs q))" "finite (dom (dispatchedSubreqs q))"
    using assms(1) by (auto simp: dta_inv_def dta_map_ok_def)
  with assms(2) show ?thesis
    by (auto simp: dta_push_new_def dta_waiting_def dta_outstanding_def dom_def)
qed

lemma dta_push_law:
  assumes "dta_inv q" "dta_pushWaitQ now p q = Inr q'"
    and "getID p \<notin># dta_waiting q" "getID p \<notin># dta_outstanding q"
  shows "dta_inv q' \<and> dta_waiting q' = add_mset (getID p) (dta_waiting q) \<and>
    dta_outstanding q' = dta_outstanding q"
  using dta_push_fresh [OF assms(1), of p now] dta_push_abs [OF assms(1), of now p q'] assms by simp

lemma fifo_push_law:
  "S_FIFO (fifo_pushWaitQ p q) = s' \<Longrightarrow> sched_inv s' \<and>
     sched_waiting s' = add_mset (getID p) (sched_waiting (S_FIFO q)) \<and>
     sched_outstanding s' = sched_outstanding (S_FIFO q)"
  by (auto simp: sched_abs fifo_abs)

lemma sched_push_law:
  assumes "sched_inv s" "sched_push_new now p s = Inr s'"
  shows "sched_inv s' \<and> sched_waiting s' = add_mset (getID p) (sched_waiting s) \<and>
    sched_outstanding s' = sched_outstanding s"
proof (cases "\<exists>q. s = S_FIFO q")
  case True
  with assms(2) fifo_push_law show ?thesis
    by (auto simp: sched_push_new_def sched_pushWaitQ_def split: if_splits)
next
  case False
  have n: "getID p \<notin># sched_waiting s" "getID p \<notin># sched_outstanding s"
    and d: "sched_pushWaitQ now p s = Inr s'"
    using assms(2) by (auto simp: sched_push_new_def split: if_splits)
  show ?thesis
    by (insert assms(1) n d False, cases s; simp add: sched_abs sched_pushWaitQ_def;
        elim exE conjE;
        (drule (1) ef.push_law | drule (1) sf.push_law | drule (1) da.push_law | drule (1) dl.push_law |
         drule (1) rc.push_law | drule (1) il.push_law | drule (3) dta_push_law); hypsubst_thin; simp)
qed

lemma fifo_disp_law:
  "fifo_dispatchNext (q :: gPacket fifo) = (r, q') \<Longrightarrow>
    (case r of None \<Rightarrow> q' = q
     | Some p \<Rightarrow> fifo_waiting q = add_mset (pkt_key p) (fifo_waiting q') \<and>
         fifo_outstanding q' = add_mset (pkt_key p) (fifo_outstanding q))"
  by (cases r) (auto simp: fifo_cases fifo_abs)

lemma edf_disp_law:
  "edf_sorted (q :: gPacket edf) \<Longrightarrow> fifo_dispatchNext q = (r, q') \<Longrightarrow> edf_sorted q' \<and>
    (case r of None \<Rightarrow> q' = q
     | Some p \<Rightarrow> fifo_waiting q = add_mset (pkt_key p) (fifo_waiting q') \<and>
         fifo_outstanding q' = add_mset (pkt_key p) (fifo_outstanding q))"
  using edf_dispatch_sorted [of q r q'] by (cases r) (auto simp: fifo_cases fifo_abs)

lemma sched_disp_None:
  assumes "sched_inv s" "sched_dispatchNext now s = Inr (None, s')"
  shows "sched_inv s' \<and> sched_waiting s' = sched_waiting s \<and> sched_outstanding s' = sched_outstanding s"
  by (insert assms, cases s; simp add: sched_abs sched_dispatchNext_def with_sched_Inr; elim exE conjE;
      (drule (1) edf_disp_law | drule fifo_disp_law | drule (1) sf.disp_None | drule (1) dd.disp_None |
       drule (1) rc.disp_None | drule (1) il.disp_None | drule (1) dt.disp_None); hypsubst_thin; simp)

lemma sched_disp_Some:
  assumes "sched_inv s" "sched_dispatchNext now s = Inr (Some p, s')"
  shows "sched_inv s' \<and> sched_waiting s = add_mset (getID p) (sched_waiting s') \<and>
    sched_outstanding s' = add_mset (getID p) (sched_outstanding s)"
  by (insert assms, cases s; simp add: sched_abs sched_dispatchNext_def with_sched_Inr; elim exE conjE;
      (drule (1) edf_disp_law | drule fifo_disp_law | drule (1) sf.disp_Some | drule (1) dd.disp_Some |
       drule (1) rc.disp_Some | drule (1) il.disp_Some | drule (1) dt.disp_Some); hypsubst_thin; simp)

lemma fifo_pop_law:
  "fifo_popOsQ i (q :: (gPacket, 'z) fifo_scheme) = (r, q') \<Longrightarrow> fifo_waiting q' = fifo_waiting q \<and>
    (case r of None \<Rightarrow> fifo_outstanding q' = fifo_outstanding q
     | Some p \<Rightarrow> fifo_outstanding q = add_mset (pkt_key p) (fifo_outstanding q'))"
  by (cases r) (auto simp: fifo_cases fifo_abs dest: erase_first_mset)

lemma edf_pop_law:
  "edf_sorted (q :: gPacket edf) \<Longrightarrow> fifo_popOsQ i q = (r, q') \<Longrightarrow> edf_sorted q' \<and>
    fifo_waiting q' = fifo_waiting q \<and>
    (case r of None \<Rightarrow> fifo_outstanding q' = fifo_outstanding q
     | Some p \<Rightarrow> fifo_outstanding q = add_mset (pkt_key p) (fifo_outstanding q'))"
  using edf_pop_sorted fifo_pop_law by blast

lemma sched_pop_None:
  assumes "sched_inv s" "sched_popOsQ now i s = Inr (None, s')"
  shows "sched_inv s' \<and> sched_waiting s' = sched_waiting s \<and> sched_outstanding s' = sched_outstanding s"
  by (insert assms, cases s; simp add: sched_abs sched_popOsQ_def with_sched_Inr; elim exE conjE;
      (drule (1) edf_pop_law | drule fifo_pop_law | drule (1) sf.pop_None | drule (1) df.pop_None |
       drule (1) rc.pop_None | drule (1) il.pop_None | drule (1) dt.pop_None); hypsubst_thin; simp)

lemma sched_pop_Some:
  assumes "sched_inv s" "sched_popOsQ now i s = Inr (Some p, s')"
  shows "sched_inv s' \<and> sched_waiting s' = sched_waiting s \<and>
    sched_outstanding s = add_mset (getID p) (sched_outstanding s')"
  by (insert assms, cases s; simp add: sched_abs sched_popOsQ_def with_sched_Inr; elim exE conjE;
      (drule (1) edf_pop_law | drule fifo_pop_law | drule (1) sf.pop_Some | drule (1) df.pop_Some |
       drule (1) rc.pop_Some | drule (1) il.pop_Some | drule (1) dt.pop_Some); hypsubst_thin; simp)

interpretation sc: scheduler sched_push_new sched_dispatchNext sched_popOsQ
  getID sched_waiting sched_outstanding sched_inv
  by unfold_locales
    (fact sched_push_law sched_disp_None sched_disp_Some sched_pop_None sched_pop_Some)+

text \<open>A store that keeps the identities does not change what the contract observes.\<close>

lemma touch_new_map:
  "(\<And>x. g (f x) = g x) \<Longrightarrow> map g (touch_new f old new) = map g new"
  by (cases new rule: rev_cases) (auto simp: touch_new_def)

lemma touch_new_keys:
  assumes "\<And>x. pkt_key (f x) = pkt_key x"
  shows "image_mset pkt_key (mset (touch_new f old new)) = image_mset pkt_key (mset new)"
    and "job_keys (touch_new (\<lambda>j. j\<lparr>job_pkt := f (job_pkt j)\<rparr>) jold jnew) = job_keys jnew"
    and "rc_keys (touch_new (\<lambda>j. j\<lparr>rc_pkt := f (rc_pkt j)\<rparr>) rold rnew) = rc_keys rnew"
proof -
  show "image_mset pkt_key (mset (touch_new f old new)) = image_mset pkt_key (mset new)"
    using touch_new_map [of pkt_key f old new] assms by (metis mset_map)
  have "map (\<lambda>j. pkt_key (job_pkt j)) (touch_new (\<lambda>j. j\<lparr>job_pkt := f (job_pkt j)\<rparr>) jold jnew)
      = map (\<lambda>j. pkt_key (job_pkt j)) jnew" by (rule touch_new_map) (simp add: assms)
  then show "job_keys (touch_new (\<lambda>j. j\<lparr>job_pkt := f (job_pkt j)\<rparr>) jold jnew) = job_keys jnew"
    unfolding job_keys_def by (metis mset_map)
  have "map (\<lambda>j. pkt_key (rc_pkt j)) (touch_new (\<lambda>j. j\<lparr>rc_pkt := f (rc_pkt j)\<rparr>) rold rnew)
      = map (\<lambda>j. pkt_key (rc_pkt j)) rnew" by (rule touch_new_map) (simp add: assms)
  then show "rc_keys (touch_new (\<lambda>j. j\<lparr>rc_pkt := f (rc_pkt j)\<rparr>) rold rnew) = rc_keys rnew"
    unfolding rc_keys_def pkt_keys_def by (metis (no_types, lifting) mset_map list.map_comp comp_apply map_eq_conv)
qed

lemma dta_touch_inv:
  assumes "\<And>x. getID (f x) = getID x" "\<And>x. getDsID (f x) = getDsID x"
  shows "dta_inv (q\<lparr>dispatchedSubreqs := (dispatchedSubreqs q)(i := map_option f (dispatchedSubreqs q i))\<rparr>)
      = dta_inv q"
    and "dta_outstanding (q\<lparr>dispatchedSubreqs := (dispatchedSubreqs q)(i := map_option f (dispatchedSubreqs q i))\<rparr>)
      = dta_outstanding q"
proof -
  define m where "m = (dispatchedSubreqs q)(i := map_option f (dispatchedSubreqs q i))"
  have d: "dom m = dom (dispatchedSubreqs q)" by (auto simp: m_def dom_def)
  have on: "dta_on m sid = dta_on (dispatchedSubreqs q) sid" for sid
    by (auto simp: dta_on_def m_def assms split: if_splits)
  have ok: "dta_map_ok n m = dta_map_ok n (dispatchedSubreqs q)" for n
    unfolding dta_map_ok_def d by (auto simp: m_def assms split: if_splits)
  show "dta_inv (q\<lparr>dispatchedSubreqs := (dispatchedSubreqs q)(i := map_option f (dispatchedSubreqs q i))\<rparr>)
      = dta_inv q"
    unfolding m_def [symmetric] by (simp add: dta_inv_def dta_queues_ok_def dta_degrees_ok_def d on ok)
  show "dta_outstanding (q\<lparr>dispatchedSubreqs := (dispatchedSubreqs q)(i := map_option f (dispatchedSubreqs q i))\<rparr>)
      = dta_outstanding q"
    unfolding m_def [symmetric] by (simp add: dta_outstanding_def d)
qed

lemma sched_touch_law:
  assumes "\<And>x. pkt_key (f x) = pkt_key x" "\<And>x. getDsID (f x) = getDsID x"
  shows "sched_inv (sched_touch f p old s) = sched_inv s \<and>
    sched_waiting (sched_touch f p old s) = sched_waiting s \<and>
    sched_outstanding (sched_touch f p old s) = sched_outstanding s"
proof -
  have "getID (f x) = getID x" for x using assms(1) [of x] by (simp add: pkt_key_def)
  note D = dta_touch_inv [of f, OF this assms(2)]
  note T = touch_new_keys [of f, OF assms(1)]
  show ?thesis
    by (cases old; cases s; simp add: sched_touch_def sched_abs T D Let_def
        fifo_waiting_def fifo_outstanding_def edf_sorted_def sfq_shape_def sfq_waiting_def sfq_queue_def
        sfq_outstanding_def rc_waiting_def rc_outstanding_def rc_shape_def i2l_waiting_def
        i2l_outstanding_def i2l_inv_def avatar_inv_def pkt_keys_def dta_waiting_def)
qed

section \<open>What NULL means\<close>

text \<open>
  The class of a scheduler and, where it has a single degree, its degree; no
  operation changes them.
\<close>

definition sched_config :: "sched \<Rightarrow> string \<times> int" where
  "sched_config s =
    (case s of
       S_FIFO q \<Rightarrow> (''FIFO'', degree q)
     | S_SFQ q \<Rightarrow> (''SFQ'', degree q)
     | S_DSFQA q \<Rightarrow> (''DSFQA'', degree q)
     | S_DSFQD q \<Rightarrow> (''DSFQD'', degree q)
     | S_DSFQF q \<Rightarrow> (''DSFQF'', degree q)
     | S_DSFQATB q \<Rightarrow> (''DSFQATB'', degree q)
     | S_DSFQALB q \<Rightarrow> (''DSFQALB'', degree q)
     | S_SFQRC q \<Rightarrow> (''SFQRC'', 0)
     | S_I2L q \<Rightarrow> (''I2L'', 0)
     | S_EDF q \<Rightarrow> (''EDF'', degree q)
     | S_DTA q \<Rightarrow> (''DTA'', 0))"

lemma fifo_family_degree:
  fixes q :: "('b bPacket_scheme, 'z) fifo_scheme"
  shows "fifo_dispatchNext q = (r, q') \<Longrightarrow> degree q' = degree q"
    and "fifo_popOsQ i q = (r, q') \<Longrightarrow> degree q' = degree q"
  by (auto simp: fifo_dispatchNext_def fifo_popOsQ_def split: list.splits if_splits option.splits)

lemma sched_push_config:
  assumes "sched_inv s" "sched_pushWaitQ now p s = Inr s'"
  shows "sched_config s' = sched_config s"
  by (insert assms, cases s; simp add: sched_inv_def sched_pushWaitQ_def sched_config_def;
      (elim exE conjE)?; hypsubst_thin;
      ((drule (1) ef.push_deg | drule (1) sf.push_deg | drule (1) da.push_deg | drule (1) dl.push_deg))?;
      simp add: fifo_pushWaitQ_def sched_config_def)

lemma sched_disp_config:
  assumes "sched_inv s" "sched_dispatchNext now s = Inr (r, s')"
  shows "sched_config s' = sched_config s"
  by (insert assms, cases s; simp add: sched_inv_def sched_dispatchNext_def with_sched_Inr sched_config_def;
      elim exE conjE; hypsubst_thin;
      ((drule fifo_family_degree | drule (1) sf.disp_deg | drule (1) dd.disp_deg))?;
      simp add: sched_config_def)

lemma sched_pop_config:
  assumes "sched_inv s" "sched_popOsQ now i s = Inr (r, s')"
  shows "sched_config s' = sched_config s"
  by (insert assms, cases s; simp add: sched_inv_def sched_popOsQ_def with_sched_Inr sched_config_def;
      elim exE conjE; hypsubst_thin;
      ((drule fifo_family_degree | drule (1) sf.pop_deg | drule (1) df.pop_deg))?;
      simp add: sched_config_def)

lemma sched_touch_config: "sched_config (sched_touch f p old s) = sched_config s"
  by (cases old; cases s; simp add: sched_touch_def sched_config_def Let_def)

text \<open>
  The scheduler lets nothing go: \<^verbatim>\<open>dispatchNext\<close> returns NULL and changes nothing; and
  it does so at any time.
\<close>

definition sched_null :: "real \<Rightarrow> sched \<Rightarrow> bool" where
  "sched_null now s \<longleftrightarrow> sched_dispatchNext now s = Inr (None, s)"

definition sched_quiet :: "sched \<Rightarrow> bool" where
  "sched_quiet s \<longleftrightarrow> (\<forall>now. sched_null now s)"

text \<open>For SFQ: enough requests are outstanding, or the queues of all its applications are empty.\<close>

definition sfq_stuck :: "('p, 'z) sfq_scheme \<Rightarrow> bool" where
  "sfq_stuck q \<longleftrightarrow> degree q \<le> int (length (sfq_osQ q)) \<or> (\<forall>a\<in>{0..<appNum q}. sfq_queue q a = [])"

lemma sfq_null_iff:
  assumes "sfq_shape q"
  shows "sfq_dispatchNext q = Inr (None, q) \<longleftrightarrow> sfq_stuck q"
    and "sfq_dispatchNext q = Inr (None, q') \<longleftrightarrow> q' = q \<and> sfq_stuck q"
proof -
  show a: "sfq_dispatchNext q = Inr (None, q) \<longleftrightarrow> sfq_stuck q"
    using assms
  proof (cases rule: sfq_dispatch_cases)
    case (take m job rest)
    then show ?thesis by (force simp: sfq_stuck_def sfq_take_eq)
  qed (simp_all add: sfq_stuck_def)
  then show "sfq_dispatchNext q = Inr (None, q') \<longleftrightarrow> q' = q \<and> sfq_stuck q"
    using sfq_dispatch_None [OF assms, of q'] by blast
qed

lemma dsfqd_null_iff:
  "sfq_shape q \<Longrightarrow> dsfqd_dispatchNext q = Inr (None, q') \<longleftrightarrow> q' = q \<and> sfq_stuck q"
proof -
  assume s: "sfq_shape q"
  have "dsfqd_dispatchNext q = Inr (None, q') \<longleftrightarrow> sfq_dispatchNext q = Inr (None, q')"
  proof
    assume "dsfqd_dispatchNext q = Inr (None, q')"
    from dsfqd_disp_cases [OF this] show "sfq_dispatchNext q = Inr (None, q')" by auto
  qed (simp add: dsfqd_dispatchNext_def)
  with sfq_null_iff [OF s] show ?thesis by simp
qed

text \<open>For DTA: every server has as many requests as the degree allows, or no request in its queue.\<close>

definition dta_stuck :: "dta \<Rightarrow> int \<Rightarrow> bool" where
  "dta_stuck q i \<longleftrightarrow> waitQ (edfQ q i) = [] \<or> degree q \<le> degrees q i \<or> degree q \<le> 0"

lemma dta_try_stuck: "\<forall>i\<in>set is. dta_stuck q i \<Longrightarrow> dta_try now is q = Inr (None, q)"
  by (induction "is") (auto simp: dta_stuck_def fifo_waitQisEmpty_def)

lemma dta_send_Some:
  "dta_send_edf sid p q = Inr (r, q') \<Longrightarrow> r = Some p" "dta_send_lr sid p q = Inr (r, q') \<Longrightarrow> r = Some p"
  by (auto simp: dta_send_edf_def dta_send_lr_def)

lemma dta_choose_Some:
  assumes "dta_choose now sid pkt req q = Inr (r, q')"
  shows "r \<noteq> None"
proof (cases "dta_urgent now sid req q")
  case True
  with assms show ?thesis by (auto simp: dta_choose_def dest: dta_send_Some)
next
  case False
  note d = assms [unfolded dta_choose_def if_not_P [OF False]]
  show ?thesis
  proof (cases "dta_skip (Suc (length (waitQ (lrQ q sid)))) (waitingSubreqs q) (lrQ q sid)")
    case (Some lq)
    note d = d [unfolded Some option.case Let_def]
    then show ?thesis by (cases "fifo_seeWaitQNext lq") (auto dest: dta_send_Some)
  qed (use d in simp)
qed

lemma tryToDispatch_None_cases:
  assumes "tryToDispatch now sid q = Inr (None, q')"
  obtains "degrees q sid \<ge> degree q" "q' = q"
    | eq where "q' = q\<lparr>edfQ := (edfQ q)(sid := eq)\<rparr>" "waitQ eq = []"
proof (cases "degrees q sid \<ge> degree q \<and> degree q > 0")
  case True
  from assms [unfolded tryToDispatch_def if_P [OF True]] have "q' = q" by (simp only: sum.inject prod.inject)
  with True show ?thesis by (intro that(1)) (rule conjunct1)
next
  case False
  note d = assms [unfolded tryToDispatch_def if_not_P [OF False]]
  show ?thesis
  proof (cases "dta_skip (Suc (length (waitQ (edfQ q sid)))) (waitingSubreqs q) (edfQ q sid)")
    case (Some eq)
    note d = d [unfolded Some option.case Let_def]
    show ?thesis
    proof (cases "waitQ eq")
      case Nil
      with d that(2) [of eq] show ?thesis by (simp add: fifo_seeWaitQNext_def)
    next
      case (Cons pkt ps)
      note d = d [unfolded fifo_seeWaitQNext_def Cons list.case option.case]
      show ?thesis
      proof (cases "dta_reqList (q\<lparr>edfQ := (edfQ q)(sid := eq)\<rparr>) (dta_rid pkt)")
        case (Some req)
        from dta_choose_Some [OF d [unfolded Some option.case]] show ?thesis by simp
      qed (use d in simp)
    qed
  qed (use d in simp)
qed

lemma tryToDispatch_None:
  assumes "tryToDispatch now sid q = Inr (None, q')"
  shows "dta_stuck q' sid" "dta_stuck q i \<Longrightarrow> dta_stuck q' i"
  by (rule tryToDispatch_None_cases [OF assms]; simp add: dta_stuck_def)+

lemma dta_try_None:
  assumes "dta_try now is q = Inr (None, q')"
  shows "\<forall>i. i \<in> set is \<or> dta_stuck q i \<longrightarrow> dta_stuck q' i"
  using assms
proof (induction "is" arbitrary: q)
  case (Cons j js)
  show ?case
  proof (cases "\<not> fifo_waitQisEmpty (edfQ q j) \<and> degrees q j < degree q \<and> degree q > 0")
    case True
    with Cons.prems obtain q1 where t: "tryToDispatch now j q = Inr (None, q1)" "dta_try now js q1 = Inr (None, q')"
      by (auto split: option.splits)
    from tryToDispatch_None [OF t(1)] Cons.IH [OF t(2)] show ?thesis by auto
  next
    case False
    then have c: "dta_try now (j # js) q = dta_try now js q" and "dta_stuck q j"
      by (auto simp: dta_stuck_def fifo_waitQisEmpty_def)
    with Cons.IH [OF Cons.prems [unfolded c]] show ?thesis by auto
  qed
qed simp

lemma dta_dispatch_null:
  assumes "dta_inv q" "dta_dispatchNext now q = Inr (None, q')"
  shows "dta_dispatchNext t q' = Inr (None, q')"
proof -
  from dta_dispatch_inv [OF assms] have "dsNum q' = dsNum q" by simp
  with dta_try_None [OF assms(2) [unfolded dta_dispatchNext_def]] show ?thesis
    unfolding dta_dispatchNext_def by (intro dta_try_stuck) simp
qed

text \<open>I2L: at the same time AVATAR refuses again and finds the storage as idle as before.\<close>

lemma avatar_null_again:
  assumes "avatar_dispatchNext now v = (None, v')"
  shows "avatar_dispatchNext now v' = (None, v')"
proof (cases "edf_getNumReqsInWaitQWithinDeadline now (av_queue v) \<noteq> 0 \<or> of_int (L_O_Exist v) < L_O v")
  case True
  obtain r eq where d: "fifo_dispatchNext (av_queue v) = (r, eq)" by (cases "fifo_dispatchNext (av_queue v)")
  have "r = None" using assms True d by (cases r) (simp_all add: avatar_dispatchNext_def Let_def)
  with d have d': "fifo_dispatchNext (av_queue v) = (None, av_queue v)" by (simp add: fifo_dispatch_None)
  have u: "v\<lparr>av_queue := av_queue v\<rparr> = v" by (cases v) simp
  note e = assms [unfolded avatar_dispatchNext_def Let_def if_P [OF True] d' prod.case option.case u]
  have v': "v' = v\<lparr>av_idle_status := (if \<not> av_idle_status v \<and> of_int (L_O_Exist v) < L_O v * (9 / 10)
        then True else av_idle_status v),
      L_O_max := (if L_O_max v < L_O_Exist v then L_O_Exist v else L_O_max v)\<rparr>"
    using e by (simp only: prod.inject)
  then have q: "av_queue v' = av_queue v" "L_O v' = L_O v" "L_O_Exist v' = L_O_Exist v"
    by (simp_all add: L_O_Exist_def)
  have u': "v'\<lparr>av_queue := av_queue v\<rparr> = v'" unfolding q(1) [symmetric] by (cases v') simp
  have i: "(if \<not> av_idle_status v' \<and> of_int (L_O_Exist v) < L_O v * (9 / 10) then True else av_idle_status v')
      = av_idle_status v'"
    and m: "(if L_O_max v' < L_O_Exist v then L_O_Exist v else L_O_max v') = L_O_max v'"
    unfolding v' by auto
  have k: "v'\<lparr>av_idle_status := av_idle_status v', L_O_max := L_O_max v'\<rparr> = v'" by (cases v') simp
  show ?thesis
    unfolding avatar_dispatchNext_def Let_def q if_P [OF True] d' prod.case option.case u' i m k ..
next
  case False
  note e = assms [unfolded avatar_dispatchNext_def Let_def if_not_P [OF False]]
  have v': "v' = v\<lparr>av_idle_status := False,
      L_O_max := (if L_O_max v < L_O_Exist v then L_O_Exist v else L_O_max v)\<rparr>"
    using e by (simp only: prod.inject)
  then have q: "av_queue v' = av_queue v" "L_O v' = L_O v" "L_O_Exist v' = L_O_Exist v"
    by (simp_all add: L_O_Exist_def)
  have m: "(if L_O_max v' < L_O_Exist v then L_O_Exist v else L_O_max v') = L_O_max v'"
    and i: "False = av_idle_status v'"
    unfolding v' by auto
  have k: "v'\<lparr>av_idle_status := av_idle_status v', L_O_max := L_O_max v'\<rparr> = v'" by (cases v') simp
  show ?thesis
    unfolding avatar_dispatchNext_def Let_def q if_not_P [OF False] m by (subst i) (simp only: k)
qed

lemma i2l_null_again:
  assumes "i2l_dispatchNext now q = Inr (None, q')"
  shows "i2l_dispatchNext now q' = Inr (None, q')"
proof -
  obtain r v where d: "avatar_dispatchNext now (the_avatar q) = (r, v)"
    by (cases "avatar_dispatchNext now (the_avatar q)") auto
  have r: "r = None" using assms d by (cases r) (auto simp: i2l_dispatchNext_def)
  have "\<exists>v. avatar_dispatchNext now v = (None, the_avatar q') \<and> idle_status q' = getIdleStatus (the_avatar q')"
  proof (cases "\<not> idle_status q \<and> getIdleStatus v")
    case True
    with assms d r obtain q1 where "i2l_replenish now (q\<lparr>the_avatar := v\<rparr>) = Inr q1"
      and "(case avatar_dispatchNext now (the_avatar q1) of
             (r, v) \<Rightarrow> Inr (r, q1\<lparr>the_avatar := v, idle_status := getIdleStatus v\<rparr>)) = (Inr (None, q') :: (gPacket option \<times> i2l) res)"
      by (auto simp: i2l_dispatchNext_def Let_def)
    then show ?thesis by (auto split: prod.splits)
  next
    case False
    with assms d r show ?thesis by (auto simp: i2l_dispatchNext_def Let_def)
  qed
  with avatar_null_again show ?thesis by (auto simp: i2l_dispatchNext_def)
qed

lemma dsfq_propagate_shape: "dsfq_propagateSPacket q = (r, q') \<Longrightarrow> sfq_shape q' = sfq_shape q"
  by (auto simp: dsfq_propagateSPacket_def sfq_shape_def Let_def split: if_splits)

lemma sfq_same_degree: "sfq_same q q' \<Longrightarrow> degree q' = degree q"
  by (simp add: sfq_same_def)

text \<open>
  When \<^verbatim>\<open>dispatchNext\<close> has returned NULL, it returns NULL again at that time, except
  for SFQRC, where the refusing scan moves \<^verbatim>\<open>lastAccessFileID\<close>. Only the answers of I2L (and
  SFQRC) depend on the time.
\<close>

lemma sched_disp_null:
  assumes "sched_inv s" "sched_dispatchNext now s = Inr (None, s')" "fst (sched_config s) \<noteq> ''SFQRC''"
  shows "sched_null now s'"
  by (insert assms, cases s; simp add: sched_inv_def sched_dispatchNext_def with_sched_Inr sched_config_def
      sched_null_def; elim exE conjE; hypsubst_thin;
      simp add: fifo_dispatch_None sfq_null_iff dsfqd_null_iff dta_dispatch_null i2l_null_again with_sched_Inr;
      (metis fifo_dispatch_None)?)

lemma sched_null_quiet:
  assumes "sched_inv s" "sched_null now s" "fst (sched_config s) \<notin> {''SFQRC'', ''I2L''}"
  shows "sched_quiet s"
  by (insert assms, cases s; simp add: sched_inv_def sched_dispatchNext_def with_sched_Inr sched_config_def
      sched_null_def sched_quiet_def; (blast intro: dta_dispatch_null)?)

lemma sfq_same_stuck: "sfq_same q q' \<Longrightarrow> sfq_stuck q' = sfq_stuck q"
  by (simp add: sfq_same_def sfq_stuck_def job_keys_def)
    (metis image_mset_is_empty_iff mset_zero_iff)

lemma sfq_stuck_pkt [simp]: "sfq_stuck (q\<lparr>pktToPropagate := sp\<rparr>) = sfq_stuck q"
  by (simp add: sfq_stuck_def sfq_queue_def)

lemma dsfq_propagate_stuck: "dsfq_propagateSPacket q = (r, q') \<Longrightarrow> sfq_stuck q' = sfq_stuck q \<and> degree q' = degree q"
  by (auto simp: dsfq_propagateSPacket_def Let_def split: if_splits)

text \<open>
  The requests that the degree alone holds back: those in the queues that
  \<^verbatim>\<open>dispatchNext\<close> looks at. (SFQ takes a request of any application below \<^verbatim>\<open>MAX_APP\<close> but
  looks at the queues below its \<^verbatim>\<open>appNum\<close> only.)
\<close>

definition sfq_ready :: "('b bPacket_scheme, 'z) sfq_scheme \<Rightarrow> (int \<times> int) multiset" where
  "sfq_ready q = (\<Sum>a\<in>{0..<appNum q}. job_keys (sfq_queue q a))"

definition sched_ready :: "sched \<Rightarrow> int multiset" where
  "sched_ready s =
    (case s of
       S_FIFO q \<Rightarrow> image_mset fst (fifo_waiting q)
     | S_SFQ q \<Rightarrow> image_mset fst (sfq_ready q)
     | S_DSFQA q \<Rightarrow> image_mset fst (sfq_ready q)
     | S_DSFQD q \<Rightarrow> image_mset fst (sfq_ready q)
     | S_DSFQF q \<Rightarrow> image_mset fst (sfq_ready q)
     | S_DSFQATB q \<Rightarrow> image_mset fst (sfq_ready q)
     | S_DSFQALB q \<Rightarrow> image_mset fst (sfq_ready q)
     | S_SFQRC q \<Rightarrow> {#}
     | S_I2L q \<Rightarrow> {#}
     | S_EDF q \<Rightarrow> image_mset fst (fifo_waiting q)
     | S_DTA q \<Rightarrow> {#})"

lemma sfq_stuck_ready:
  "sfq_stuck q \<Longrightarrow> sfq_ready q = {#} \<or> degree q \<le> int (size (sfq_outstanding q))"
  by (auto simp: sfq_stuck_def sfq_ready_def sfq_outstanding_def job_keys_def)

lemma sched_quiet_ready:
  assumes "sched_inv s" "sched_quiet s"
  shows "sched_ready s = {#} \<or> snd (sched_config s) \<le> int (size (sched_outstanding s))"
  by (insert assms, cases s; simp add: sched_inv_def sched_dispatchNext_def with_sched_Inr sched_config_def
      sched_null_def sched_quiet_def sched_ready_def sched_outstanding_def;
      (drule (1) iffD1 [OF sfq_null_iff(1)] | drule (1) iffD1 [OF dsfqd_null_iff, THEN conjunct2])?;
      (drule sfq_stuck_ready)?; auto simp: fifo_dispatch_None fifo_waiting_def fifo_outstanding_def)

text \<open>Propagation packets and timers do not wake a scheduler.\<close>

lemma sched_propagate_quiet:
  assumes "sched_inv q" "sched_propagateSPacket q = Inr (r, q')"
  shows "sched_config q' = sched_config q" "sched_quiet q \<Longrightarrow> sched_quiet q'"
  by (insert assms, (cases q; simp add: sched_propagateSPacket_def with_sched_Inr sched_inv_def
      fifo_propagateSPacket_def IQueue_propagateSPacket_def; elim exE conjE; hypsubst_thin;
      frule dsfq_propagate_stuck; drule dsfq_propagate_shape;
      simp add: sched_config_def sched_quiet_def sched_null_def sched_dispatchNext_def with_sched_Inr
        sfq_null_iff dsfqd_null_iff)+)

lemma sched_receive_quiet:
  assumes "sched_inv q" "sched_receiveSPacket sp q = Inr q'"
  shows "sched_config q' = sched_config q" "sched_quiet q \<Longrightarrow> sched_quiet q'"
  by (insert assms, (cases q; simp add: sched_receiveSPacket_def sched_inv_def
      fifo_receiveSPacket_def IQueue_receiveSPacket_def dsfqa_receiveSPacket_def dsfqd_receiveSPacket_def
      dsfqf_receiveSPacket_def; elim exE conjE; hypsubst_thin; drule receive_same;
      frule sfq_same_stuck; frule sfq_same_abs(3); drule sfq_same_degree;
      simp add: sched_config_def sched_quiet_def sched_null_def sched_dispatchNext_def with_sched_Inr
        sfq_null_iff dsfqd_null_iff)+)

lemma sched_notify_quiet:
  assumes "sched_notify now q = Inr (t, q')"
  shows "sched_config q' = sched_config q" "fst (sched_config q) \<noteq> ''I2L'' \<Longrightarrow> q' = q"
  by (insert assms, (cases q; auto simp: sched_notify_def with_sched_Inr IQueue_notify_def sched_config_def)+)

section \<open>Properties\<close>

definition sched_fresh :: "sched \<Rightarrow> bool" where
  "sched_fresh s \<longleftrightarrow> sched_inv s \<and> sched_waiting s = {#} \<and> sched_outstanding s = {#}"

lemma sfq_new_fresh:
  assumes "0 < n" "n \<le> MAX_APP"
  shows "sched_fresh (S_SFQ (SFQ_new i d n ws mem))"
    and "sched_fresh (S_DSFQA (DSFQ_new i d n ws mem))"
    and "sched_fresh (S_DSFQD (DSFQ_new i d n ws mem))"
    and "sched_fresh (S_DSFQF (DSFQ_new i d n ws mem))"
    and "DSFQATB_new i d n ws bar mem = Inr qt \<Longrightarrow> sched_fresh (S_DSFQATB qt)"
    and "DSFQALB_new i d n ws bar mem = Inr ql \<Longrightarrow> sched_fresh (S_DSFQALB ql)"
  using assms
  by (auto simp: sched_fresh_def sched_abs sfq_shape_def sfq_waiting_def sfq_queue_def sfq_outstanding_def
      SFQ_new_def DSFQ_new_def DSFQATB_new_def DSFQALB_new_def sfq.extend_def dsfq.extend_def
      dsfq.fields_def dsfqatb.fields_def dsfqalb.fields_def job_keys_def split: option.splits)

lemma fifo_new_fresh:
  "sched_fresh (S_FIFO (FIFO_new i d))" "sched_fresh (S_EDF (EDF_new i d n ws mem))"
  by (simp_all add: sched_fresh_def sched_abs fifo_abs FIFO_new_def EDF_new_def edf_sorted_def)

lemma sfqrc_new_fresh:
  "SFQRC_new i d n ws gs br mem = Inr q \<Longrightarrow> 0 < n \<Longrightarrow> sched_fresh (S_SFQRC q)"
  by (drule (1) SFQRC_new_shape) (simp add: sched_fresh_def sched_abs)

lemma i2l_new_fresh: "I2L_new n gs br mem cnt per = Inr q \<Longrightarrow> sched_fresh (S_I2L q)"
  by (auto simp: sched_fresh_def sched_abs I2L_new_def i2l_inv_def avatar_inv_def edf_sorted_def AVATAR_new_def
      EDF_new_delays_def i2l_waiting_def i2l_outstanding_def sarc_keys_def SARC_new_def Let_def
      split: if_splits option.splits prod.splits)

lemma dta_new_fresh:
  assumes "DTA_new i d n lag k delays mem = Inr q"
  shows "sched_fresh (S_DTA q)"
proof -
  from DTA_new_inv [OF assms] have "dta_inv q" by simp
  moreover from assms have "waitingSubreqs q = (\<lambda>_. None) \<and> dispatchedSubreqs q = (\<lambda>_. None)"
    by (auto simp: DTA_new_def Let_def split: if_splits)
  ultimately show ?thesis
    by (simp add: sched_fresh_def sched_abs dta_waiting_def dta_outstanding_def)
qed

lemmas new_fresh = sfq_new_fresh fifo_new_fresh sfqrc_new_fresh i2l_new_fresh dta_new_fresh

lemma createScheduler_inv:
  assumes "createScheduler_param alg pid deg n ap mem cnt per = Inr s" "0 < n" "n \<le> MAX_APP"
  shows "sched_fresh s"
proof -
  obtain lag k delays where d: "ap_dta ap = (lag, k, delays)" by (cases "ap_dta ap") auto
  show ?thesis
    by (insert d assms(1), unfold createScheduler_param_def, simp split: if_split_asm;
        (elim exE conjE)?; hypsubst_thin?;
        (rule new_fresh; (assumption | rule assms(2,3))))
qed

lemma createScheduler_config:
  assumes "createScheduler_param alg pid deg n ap mem cnt per = Inr s"
  shows "sched_config s = (alg, if alg \<in> {''SFQRC'', ''I2L'', ''DTA''} then 0 else deg)"
  using assms
  by (auto simp: createScheduler_param_def sched_config_def FIFO_new_def EDF_new_def SFQ_new_def DSFQ_new_def
      DSFQATB_new_def DSFQALB_new_def sfq.extend_def dsfq.extend_def split: if_splits option.splits prod.splits)

lemma sfq_empty_stuck:
  assumes "sfq_shape q" "sfq_waiting q = {#}"
  shows "sfq_stuck q"
proof -
  have "\<forall>a\<in>{0..<MAX_APP}. job_keys (sfq_queue q a) = {#}"
    using assms(2) sum_eq_empty_iff [of "{0..<MAX_APP}" "\<lambda>a. job_keys (sfq_queue q a)"]
    by (simp add: sfq_waiting_def)
  with assms(1) show ?thesis by (auto simp: sfq_stuck_def sfq_shape_def job_keys_def)
qed

lemma fresh_quiet:
  assumes "sched_fresh s" "fst (sched_config s) \<notin> {''SFQRC'', ''I2L'', ''DTA''}"
  shows "sched_quiet s"
  by (insert assms, cases s; simp add: sched_fresh_def sched_inv_def sched_waiting_def sched_config_def sched_quiet_def
      sched_null_def sched_dispatchNext_def with_sched_Inr sfq_null_iff dsfqd_null_iff sfq_empty_stuck
      fifo_dispatch_None fifo_waiting_def)

lemma dta_new_quiet:
  "DTA_new i d n lag k delays mem = Inr q \<Longrightarrow> sched_quiet (S_DTA q)"
  by (auto simp: DTA_new_def Let_def sched_quiet_def sched_null_def sched_dispatchNext_def with_sched_Inr
      dta_dispatchNext_def dta_stuck_def FIFO_new_def EDF_new_delays_def intro!: dta_try_stuck split: if_splits)

lemma createScheduler_quiet:
  assumes "createScheduler_param alg pid deg n ap mem cnt per = Inr s" "0 < n" "n \<le> MAX_APP"
    and "alg \<notin> {''SFQRC'', ''I2L''}"
  shows "sched_quiet s"
proof (cases "alg = ''DTA''")
  case True
  with assms(1) dta_new_quiet show ?thesis
    by (auto simp: createScheduler_param_def split: prod.splits)
next
  case False
  with assms(4) createScheduler_config [OF assms(1)] fresh_quiet [OF createScheduler_inv [OF assms(1-3)]]
  show ?thesis by simp
qed

text \<open>
  Claim C7: every scheduler of the factory keeps the contract of \<^verbatim>\<open>IQueue\<close>. Whatever
  the algorithm, for 1 to 8 applications and any parameters, after any sequence of
  calls (with fresh identities) the waiting requests and those dispatched are the
  requests pushed, and those outstanding and completed are those dispatched.
\<close>

theorem scheduler_contract:
  assumes "createScheduler_param alg pid deg numapps ap mem cnt per = Inr s0"
    and "0 < numapps" "numapps \<le> MAX_APP"
    and "run_res sc.step evs (s0, [], [], []) = Inr (s, ps, ds, cs)"
  shows "sched_waiting s + mset (map getID ds) = mset (map getID ps) \<and>
    sched_outstanding s + mset (map getID cs) = mset (map getID ds)"
  using sc.conservation [OF _ assms(4)] createScheduler_inv [OF assms(1-3)]
  by (simp add: sched_fresh_def)

definition demo_param :: alg_param where
  "demo_param = \<lparr>ap_weights = [(0, 2), (1, 1)], ap_bar = Some 1, ap_rc_groups = [], ap_rc_braces = None,
     ap_i2l_groups = [], ap_i2l_braces = None, ap_edf_delays = [(0, 9), (1, 2)], ap_dta = (0, 1, [])\<rparr>"

theorem scheduler_contract_witness:
  "\<exists>s0 s ps ds. createScheduler_param ''EDF'' 0 1 2 demo_param (\<lambda>_. 0) (\<lambda>_. 0) (\<lambda>_. Fin 0) = Inr s0 \<and>
     run_res sc.step [Push 0 (demo_pkt 1 0 5), Push 0 (demo_pkt 2 1 5), Dispatch 1] (s0, [], [], [])
       = Inr (s, ps, ds, []) \<and> map getID ds = [2] \<and>
     sched_waiting s + mset (map getID ds) = mset (map getID ps)"
proof -
  define s0 where "s0 = S_EDF (EDF_new 0 1 2 [(0, 9), (1, 2)] (\<lambda>_. 0))"
  have c: "createScheduler_param ''EDF'' 0 1 2 demo_param (\<lambda>_. 0) (\<lambda>_. 0) (\<lambda>_. Fin 0) = Inr s0"
    by (simp add: createScheduler_param_def s0_def demo_param_def)
  obtain s ps ds where r: "run_res sc.step [Push 0 (demo_pkt 1 0 5), Push 0 (demo_pkt 2 1 5), Dispatch 1]
      (s0, [], [], []) = Inr (s, ps, ds, [])" and d: "map getID ds = [2]"
    by (simp add: s0_def sched_push_new_def sched_pushWaitQ_def sched_dispatchNext_def with_sched_def sched_abs
        EDF_new_def edf_processParameters_def edf_pushWaitQ_def edf_deadline_def fifo_dispatchNext_def
        fifo_abs demo_pkt_simps MAX_APP_def pkt_key_def)
  have n: "(0::int) < 2" "(2::int) \<le> MAX_APP" by (simp_all add: MAX_APP_def)
  from scheduler_contract [OF c n r] have "sched_waiting s + mset (map getID ds) = mset (map getID ps)" ..
  with c r d show ?thesis by (intro exI [of _ s0] exI [of _ s] exI [of _ ps] exI [of _ ds] conjI)
qed

text \<open>
  The factory knows eleven algorithms. It creates a scheduler of the class
  that the name says, or the constructor of this class reports an error; every
  other name, \<^verbatim>\<open>SSFQ\<close> included although the factory declares it, stops the
  simulation.
\<close>

theorem factory_error:
  "createScheduler_param ''SSFQ'' pid deg n ap mem cnt per = Inl (Abort ''Proxy'') \<and>
   (alg \<notin> {''FIFO'', ''SFQ'', ''DSFQA'', ''DSFQD'', ''DSFQF'', ''DSFQATB'', ''DSFQALB'', ''SFQRC'',
        ''I2L'', ''EDF'', ''DTA''} \<longrightarrow> createScheduler_param alg pid deg n ap mem cnt per = Inl (Abort ''Proxy''))"
  by (simp add: createScheduler_param_def)

theorem factory_error_witness:
  "createScheduler_param ''LIFO'' 0 1 2 demo_param (\<lambda>_. 0) (\<lambda>_. 0) (\<lambda>_. Fin 0) = Inl (Abort ''Proxy'')"
  using factory_error [of 0 1 2 demo_param "\<lambda>_. 0" "\<lambda>_. 0" "\<lambda>_. Fin 0" "''LIFO''"] by simp

end
