(* ===== verification/Proxy.thy ===== *)
theory Proxy
  imports Scheduler
begin

text \<open>
  \<^verbatim>\<open>proxy/Proxy.cc\<close>: the proxy between a client and its data server. It keeps the
  requests in a scheduler, sends the ones the scheduler dispatches, lets the other
  packets of a request pass, and exchanges propagation packets with the other
  proxies. Inside the proxy a packet has the \<^verbatim>\<open>SELF_\<close> variant of its kind;
  \<^verbatim>\<open>sendSafe\<close> restores the kind.

  A handler returns the new state and what it hands to OMNeT++: messages sent and
  self messages scheduled. Whether \<^verbatim>\<open>sendSafe\<close> sends at once or when the channel is
  free is the library's; the model records the packet. \<open>SendJob\<close> and \<open>SendG\<close> are
  both sends through \<^verbatim>\<open>g$o\<close>; the first marks a request that \<^verbatim>\<open>scheduleJobs\<close> dispatched.
\<close>

datatype px_msg = GMsg gPacket | SMsg sPacket

datatype px_out =
    SendJob gPacket | SendG gPacket | SendS sPacket | ScheduleG real gPacket | ScheduleTimer real

record proxy =
  px_myID :: int
  algorithm :: string
  px_degree :: int
  newjob_proc_time :: real
  finjob_proc_time :: real
  px_queue :: sched
  alg_timer :: bool
  osReqNum :: int
  totalOSReqNum :: real

section \<open>Sending\<close>

definition external_kind :: "msg_kind \<Rightarrow> msg_kind option" where
  "external_kind k =
    (case k of
      SELF_PFS_W_REQ \<Rightarrow> Some PFS_W_REQ
    | SELF_PFS_R_REQ \<Rightarrow> Some PFS_R_REQ
    | SELF_PFS_W_RESP \<Rightarrow> Some PFS_W_RESP
    | SELF_PFS_W_DATA \<Rightarrow> Some PFS_W_DATA
    | SELF_PFS_W_DATA_LAST \<Rightarrow> Some PFS_W_DATA_LAST
    | SELF_PFS_W_FIN \<Rightarrow> Some PFS_W_FIN
    | SELF_PFS_R_DATA \<Rightarrow> Some PFS_R_DATA
    | SELF_PFS_R_DATA_LAST \<Rightarrow> Some PFS_R_DATA_LAST
    | _ \<Rightarrow> None)"

definition sendSafe :: "real \<Rightarrow> gPacket \<Rightarrow> gPacket res" where
  "sendSafe now p =
    (case external_kind (getKind p) of
      None \<Rightarrow> Inl (Abort ''Proxy::sendSafe'')
    | Some k \<Rightarrow> Inr (p\<lparr>getKind := k, getScheduletime := now\<rparr>))"

text \<open>
  The loop of \<^verbatim>\<open>propagateSPackets\<close> ends when the scheduler has no active packet;
  after one packet was taken there is none, so two turns are enough.
\<close>

fun px_propagate :: "nat \<Rightarrow> sched \<Rightarrow> (px_out list \<times> sched) res" where
  "px_propagate 0 q = Inl (Diverge ''Proxy::propagateSPackets'')"
| "px_propagate (Suc n) q =
     bindR (sched_propagateSPacket q) (\<lambda>(r, q).
     case r of
       None \<Rightarrow> Inr ([], q)
     | Some sp \<Rightarrow> bindR (px_propagate n q) (\<lambda>(outs, q).
         Inr (SendS (sp\<lparr>getKind := PROP_SCH\<rparr>) # outs, q)))"

definition propagateSPackets :: "sched \<Rightarrow> (px_out list \<times> sched) res" where
  "propagateSPackets q = px_propagate 2 q"

definition propagate_if :: "bool \<Rightarrow> sched \<Rightarrow> (px_out list \<times> sched) res" where
  "propagate_if b q = (if b then propagateSPackets q else Inr ([], q))"

text \<open>
  \<^verbatim>\<open>scheduleJobs\<close> dispatches until the scheduler returns NULL. Every dispatch takes a
  waiting request, so one turn more than there are waiting requests is enough.
  \<^verbatim>\<open>setScheduletime\<close> also stores into the request that the scheduler keeps.
\<close>

fun px_schedule :: "nat \<Rightarrow> real \<Rightarrow> proxy \<Rightarrow> (px_out list \<times> proxy) res" where
  "px_schedule 0 now px = Inl (Diverge ''Proxy::scheduleJobs'')"
| "px_schedule (Suc n) now px =
     bindR (sched_dispatchNext now (px_queue px)) (\<lambda>(r, q).
     case r of
       None \<Rightarrow> Inr ([], px\<lparr>px_queue := q\<rparr>)
     | Some job \<Rightarrow>
         bindR (propagate_if (algorithm px = ''DSFQD'') q) (\<lambda>(ps, q).
         bindR (sendSafe now (job\<lparr>getScheduletime := now\<rparr>)) (\<lambda>packetcopy.
         bindR (px_schedule n now
                  (px\<lparr>px_queue := sched_touch (\<lambda>p. p\<lparr>getScheduletime := now\<rparr>) job (px_queue px) q,
                      osReqNum := osReqNum px + 1\<rparr>)) (\<lambda>(outs, px).
         Inr (ps @ SendJob packetcopy # outs, px)))))"

definition scheduleJobs :: "real \<Rightarrow> proxy \<Rightarrow> (px_out list \<times> proxy) res" where
  "scheduleJobs now px = px_schedule (Suc (size (sched_waiting (px_queue px)))) now px"

section \<open>The handlers\<close>

definition handleJobReq2 :: "real \<Rightarrow> gPacket \<Rightarrow> proxy \<Rightarrow> (px_out list \<times> proxy) res" where
  "handleJobReq2 now gpkt px =
     bindR (sched_pushWaitQ now gpkt (px_queue px)) (\<lambda>q.
     bindR (propagate_if (algorithm px = ''DSFQA'' \<or> algorithm px = ''DSFQALB'') q) (\<lambda>(ps, q).
     bindR (scheduleJobs now (px\<lparr>px_queue := q\<rparr>)) (\<lambda>(outs, px). Inr (ps @ outs, px))))"

definition handleJobReq :: "real \<Rightarrow> gPacket \<Rightarrow> proxy \<Rightarrow> (px_out list \<times> proxy) res" where
  "handleJobReq now gpkt px =
    (let gpkt = gpkt\<lparr>getInterceptiontime := now,
           getKind := (if getKind gpkt = PFS_R_REQ then SELF_PFS_R_REQ
                       else if getKind gpkt = PFS_W_REQ then SELF_PFS_W_REQ else getKind gpkt)\<rparr>
     in if newjob_proc_time px \<noteq> 0 then Inr ([ScheduleG (now + newjob_proc_time px) gpkt], px)
        else handleJobReq2 now gpkt px)"

text \<open>The identity of the request to which a packet belongs, as \<^verbatim>\<open>int\<close>.\<close>

definition recordPacketID :: "gPacket \<Rightarrow> int" where
  "recordPacketID gpkt = to_int32 (getID gpkt sdiv RID_OFFSET * RID_OFFSET)"

definition handleReadLastWriteFin2 :: "real \<Rightarrow> gPacket \<Rightarrow> proxy \<Rightarrow> (px_out list \<times> proxy) res" where
  "handleReadLastWriteFin2 now gpkt px =
     bindR (sched_popOsQ now (recordPacketID gpkt) (px_queue px)) (\<lambda>(queuedpacket, q).
     bindR (propagate_if (algorithm px = ''DSFQF'') q) (\<lambda>(ps, q).
     bindR (sendSafe now gpkt) (\<lambda>p.
     bindR (scheduleJobs now (px\<lparr>px_queue := q, osReqNum := osReqNum px - 1\<rparr>)) (\<lambda>(outs, px).
     Inr (ps @ SendG p # outs, px)))))"

definition handleReadLastWriteFin :: "real \<Rightarrow> gPacket \<Rightarrow> proxy \<Rightarrow> (px_out list \<times> proxy) res" where
  "handleReadLastWriteFin now gpkt px =
    (let gpkt = gpkt\<lparr>getKind := (if getKind gpkt = PFS_W_FIN then SELF_PFS_W_FIN else SELF_PFS_R_DATA_LAST)\<rparr>
     in if finjob_proc_time px \<noteq> 0 then Inr ([ScheduleG (now + finjob_proc_time px) gpkt], px)
        else handleReadLastWriteFin2 now gpkt px)"

definition handleMinorReadWrite :: "real \<Rightarrow> gPacket \<Rightarrow> proxy \<Rightarrow> (px_out list \<times> proxy) res" where
  "handleMinorReadWrite now gpkt px =
    (let gpkt = gpkt\<lparr>getInterceptiontime := now,
           getKind := (if getKind gpkt = PFS_W_RESP then SELF_PFS_W_RESP
                       else if getKind gpkt = PFS_W_DATA then SELF_PFS_W_DATA
                       else if getKind gpkt = PFS_W_DATA_LAST then SELF_PFS_W_DATA_LAST
                       else SELF_PFS_R_DATA)\<rparr>
     in if newjob_proc_time px \<noteq> 0 then Inr ([ScheduleG (now + newjob_proc_time px) gpkt], px)
        else bindR (sendSafe now gpkt) (\<lambda>p. Inr ([SendG p], px)))"

definition handleAlgorithmTimer :: "real \<Rightarrow> proxy \<Rightarrow> (px_out list \<times> proxy) res" where
  "handleAlgorithmTimer now px =
    (if algorithm px = ''DSFQATB'' then
       bindR (propagateSPackets (px_queue px)) (\<lambda>(ps, q).
       bindR (sched_notify now q) (\<lambda>(t, q).
       Inr (ps @ [ScheduleTimer t], px\<lparr>px_queue := q\<rparr>)))
     else if algorithm px = ''I2L'' then
       bindR (sched_notify now (px_queue px)) (\<lambda>(t, q).
       bindR (scheduleJobs now (px\<lparr>px_queue := q\<rparr>)) (\<lambda>(outs, px).
       Inr (ScheduleTimer t # outs, px)))
     else Inl (Abort ''Proxy''))"

definition handleInterSchedulerPacket :: "sPacket \<Rightarrow> proxy \<Rightarrow> (px_out list \<times> proxy) res" where
  "handleInterSchedulerPacket spkt px =
    (if algorithm px \<notin> {''DSFQF'', ''DSFQA'', ''DSFQD'', ''DSFQATB'', ''DSFQALB''} then Inl (Abort ''Proxy'')
     else bindR (sched_receiveSPacket spkt (px_queue px)) (\<lambda>q. Inr ([], px\<lparr>px_queue := q\<rparr>)))"

text \<open>
  The \<^verbatim>\<open>switch\<close> of \<^verbatim>\<open>handleMessage\<close>. A propagation packet is the only \<^verbatim>\<open>sPacket\<close> and has
  the kind \<^verbatim>\<open>PROP_SCH\<close>, which no \<^verbatim>\<open>gPacket\<close> has.
\<close>

definition px_handleMessage :: "real \<Rightarrow> px_msg \<Rightarrow> proxy \<Rightarrow> (px_out list \<times> proxy) res" where
  "px_handleMessage now msg px =
    (case msg of
       SMsg spkt \<Rightarrow> handleInterSchedulerPacket spkt px
     | GMsg p \<Rightarrow>
        (case getKind p of
           PFS_R_REQ \<Rightarrow> handleJobReq now p px
         | PFS_W_REQ \<Rightarrow> handleJobReq now p px
         | SELF_PFS_R_REQ \<Rightarrow> handleJobReq2 now p px
         | SELF_PFS_W_REQ \<Rightarrow> handleJobReq2 now p px
         | PFS_W_FIN \<Rightarrow> handleReadLastWriteFin now p px
         | PFS_R_DATA_LAST \<Rightarrow> handleReadLastWriteFin now p px
         | SELF_PFS_W_FIN \<Rightarrow> handleReadLastWriteFin2 now p px
         | SELF_PFS_R_DATA_LAST \<Rightarrow> handleReadLastWriteFin2 now p px
         | PFS_W_RESP \<Rightarrow> handleMinorReadWrite now p px
         | PFS_W_DATA \<Rightarrow> handleMinorReadWrite now p px
         | PFS_W_DATA_LAST \<Rightarrow> handleMinorReadWrite now p px
         | PFS_R_DATA \<Rightarrow> handleMinorReadWrite now p px
         | SELF_PFS_W_RESP \<Rightarrow> bindR (sendSafe now p) (\<lambda>p. Inr ([SendG p], px))
         | SELF_PFS_W_DATA \<Rightarrow> bindR (sendSafe now p) (\<lambda>p. Inr ([SendG p], px))
         | SELF_PFS_W_DATA_LAST \<Rightarrow> bindR (sendSafe now p) (\<lambda>p. Inr ([SendG p], px))
         | SELF_PFS_R_DATA \<Rightarrow> bindR (sendSafe now p) (\<lambda>p. Inr ([SendG p], px))
         | ALG_TIMER \<Rightarrow> handleAlgorithmTimer now px
         | _ \<Rightarrow> Inl (Abort ''Proxy'')))"

definition px_initialize ::
  "int \<Rightarrow> real \<Rightarrow> string \<Rightarrow> int \<Rightarrow> real \<Rightarrow> real \<Rightarrow> int \<Rightarrow> alg_param \<Rightarrow>
   (int \<Rightarrow> real) \<Rightarrow> (int \<Rightarrow> int) \<Rightarrow> (int \<Rightarrow> dbl) \<Rightarrow> (px_out list \<times> proxy) res" where
  "px_initialize pid now alg deg newt fint numapps ap mem cnt per =
     bindR (createScheduler_param alg pid deg numapps ap mem cnt per) (\<lambda>q.
     let px = \<lparr>px_myID = pid, algorithm = alg, px_degree = deg, newjob_proc_time = newt,
               finjob_proc_time = fint, px_queue = q, alg_timer = False, osReqNum = 0, totalOSReqNum = 0\<rparr>
     in if alg = ''DSFQATB'' \<or> alg = ''I2L'' then
          bindR (sched_notify now q) (\<lambda>(t, q).
          Inr ([ScheduleTimer t], px\<lparr>px_queue := q, alg_timer := True\<rparr>))
        else Inr ([], px))"

section \<open>What the loops do\<close>

fun px_jobs :: "px_out list \<Rightarrow> gPacket list" where
  "px_jobs [] = []"
| "px_jobs (SendJob p # outs) = p # px_jobs outs"
| "px_jobs (SendG p # outs) = px_jobs outs"
| "px_jobs (SendS sp # outs) = px_jobs outs"
| "px_jobs (ScheduleG t p # outs) = px_jobs outs"
| "px_jobs (ScheduleTimer t # outs) = px_jobs outs"

lemma px_jobs_append [simp]: "px_jobs (xs @ ys) = px_jobs xs @ px_jobs ys"
  by (induction xs rule: px_jobs.induct) auto

text \<open>The contract as one relation: what a step of the proxy may do to its scheduler.\<close>

definition sched_moved :: "int list \<Rightarrow> sched \<Rightarrow> sched \<Rightarrow> bool" where
  "sched_moved is q q' \<longleftrightarrow> sched_inv q' \<and> sched_config q' = sched_config q \<and>
     sched_waiting q = sched_waiting q' + mset is \<and> sched_outstanding q' = sched_outstanding q + mset is"

lemma sched_moved_trans: "sched_moved is q q1 \<Longrightarrow> sched_moved js q1 q2 \<Longrightarrow> sched_moved (is @ js) q q2"
  by (auto simp: sched_moved_def)

lemma sched_moved_refl: "sched_inv q \<Longrightarrow> sched_moved [] q q"
  by (simp add: sched_moved_def)

lemma dsfq_propagate_abs:
  assumes "dsfq_propagateSPacket q = (r, q')"
  shows "sfq_shape q' = sfq_shape q" "sfq_waiting q' = sfq_waiting q" "sfq_outstanding q' = sfq_outstanding q"
    and "r \<noteq> None \<Longrightarrow> dsfq_propagateSPacket q' = (None, q')"
  using assms by (auto simp: dsfq_propagateSPacket_def Let_def split: if_splits)

lemma sched_propagate_moved:
  assumes "sched_inv q" "sched_propagateSPacket q = Inr (r, q')"
  shows "sched_moved [] q q'"
  unfolding sched_moved_def sched_propagate_quiet(1) [OF assms]
  by (insert assms, cases q; simp add: sched_propagateSPacket_def with_sched_Inr sched_abs
      fifo_propagateSPacket_def IQueue_propagateSPacket_def; elim exE conjE; hypsubst_thin;
      simp add: dsfq_propagate_abs)

lemma sched_propagate_twice:
  assumes "sched_propagateSPacket q = Inr (Some sp, q')"
  shows "sched_propagateSPacket q' = Inr (None, q')"
  by (insert assms, cases q; simp add: sched_propagateSPacket_def with_sched_Inr
      fifo_propagateSPacket_def IQueue_propagateSPacket_def; elim exE conjE; hypsubst_thin;
      frule dsfq_propagate_abs(4); simp add: with_sched_def)

lemma propagate_moved:
  assumes "sched_inv q" "propagateSPackets q = Inr (outs, q')"
  shows "sched_moved [] q q' \<and> px_jobs outs = [] \<and> length outs \<le> 1 \<and> (sched_quiet q \<longrightarrow> sched_quiet q')"
proof -
  from assms(2) obtain r q1 where r: "sched_propagateSPacket q = Inr (r, q1)"
    by (cases "sched_propagateSPacket q") (auto simp: propagateSPackets_def numeral_2_eq_2)
  show ?thesis
  proof (cases r)
    case None
    with r assms sched_propagate_moved sched_propagate_quiet(2) show ?thesis
      by (auto simp: propagateSPackets_def numeral_2_eq_2)
  next
    case (Some sp)
    with sched_propagate_twice r assms have "outs = [SendS (sp\<lparr>getKind := PROP_SCH\<rparr>)]" "q' = q1"
      by (auto simp: propagateSPackets_def numeral_2_eq_2)
    with sched_propagate_moved [OF assms(1) r] sched_propagate_quiet(2) [OF assms(1) r] show ?thesis by simp
  qed
qed

lemma propagate_if_moved:
  assumes "sched_inv q" "propagate_if b q = Inr (outs, q')"
  shows "sched_moved [] q q' \<and> px_jobs outs = []"
  using assms propagate_moved sched_moved_refl by (cases b) (auto simp: propagate_if_def)

lemma sched_disp_moved:
  "sched_inv q \<Longrightarrow> sched_dispatchNext now q = Inr (r, q') \<Longrightarrow>
    sched_moved (case r of None \<Rightarrow> [] | Some p \<Rightarrow> [getID p]) q q'"
  using sched_disp_None [of q now q'] sched_disp_Some [of q now _ q'] sched_disp_config [of q now r q']
  by (cases r) (auto simp: sched_moved_def)

lemma sched_touch_time:
  "sched_inv (sched_touch (\<lambda>p. p\<lparr>getScheduletime := now\<rparr>) job old q) = sched_inv q"
  "sched_waiting (sched_touch (\<lambda>p. p\<lparr>getScheduletime := now\<rparr>) job old q) = sched_waiting q"
  "sched_outstanding (sched_touch (\<lambda>p. p\<lparr>getScheduletime := now\<rparr>) job old q) = sched_outstanding q"
  using sched_touch_law [of "\<lambda>p. p\<lparr>getScheduletime := now\<rparr>" job old q] by (simp_all add: pkt_key_def)

text \<open>The scheduler lets nothing go at this time (of SFQRC nothing is claimed).\<close>

definition px_settled :: "real \<Rightarrow> proxy \<Rightarrow> bool" where
  "px_settled now px \<longleftrightarrow> fst (sched_config (px_queue px)) \<noteq> ''SFQRC'' \<longrightarrow> sched_null now (px_queue px)"

text \<open>What \<^verbatim>\<open>scheduleJobs\<close> has done when it returns.\<close>

definition scheduled :: "real \<Rightarrow> proxy \<Rightarrow> px_out list \<Rightarrow> proxy \<Rightarrow> bool" where
  "scheduled now px outs px' \<longleftrightarrow>
     sched_moved (map getID (px_jobs outs)) (px_queue px) (px_queue px') \<and>
     px' = px\<lparr>px_queue := px_queue px', osReqNum := osReqNum px + int (length (px_jobs outs))\<rparr> \<and>
     (\<forall>p\<in>set (px_jobs outs). getScheduletime p = now) \<and>
     px_settled now px'"

lemma px_schedule_scheduled:
  assumes "sched_inv (px_queue px)" "px_schedule n now px = Inr (outs, px')"
  shows "scheduled now px outs px'"
  using assms
proof (induction n arbitrary: px outs)
  case (Suc n)
  from Suc.prems(2) obtain r q where d: "sched_dispatchNext now (px_queue px) = Inr (r, q)"
    by (cases "sched_dispatchNext now (px_queue px)") auto
  note m = sched_disp_moved [OF Suc.prems(1) d]
  show ?case
  proof (cases r)
    case None
    have "px_settled now (px\<lparr>px_queue := q\<rparr>)"
      using sched_disp_null [OF Suc.prems(1) d [unfolded None]] m by (simp add: px_settled_def sched_moved_def)
    with None Suc.prems(2) d m show ?thesis by (auto simp: scheduled_def)
  next
    case (Some job)
    let ?q = "\<lambda>q. sched_touch (\<lambda>p. p\<lparr>getScheduletime := now\<rparr>) job (px_queue px) q"
    from Suc.prems(2) d Some obtain ps q1 c outs1 where
      ps: "propagate_if (algorithm px = ''DSFQD'') q = Inr (ps, q1)" and
      c: "sendSafe now (job\<lparr>getScheduletime := now\<rparr>) = Inr c" and
      rec: "px_schedule n now (px\<lparr>px_queue := ?q q1, osReqNum := osReqNum px + 1\<rparr>) = Inr (outs1, px')" and
      outs: "outs = ps @ SendJob c # outs1"
      by auto
    from c have c': "getID c = getID job" "getScheduletime c = now"
      by (auto simp: sendSafe_def split: option.splits)
    from m Some have "sched_inv q" by (simp add: sched_moved_def)
    from propagate_if_moved [OF this ps] have p: "sched_moved [] q q1" "px_jobs ps = []" by auto
    from sched_moved_trans [OF m p(1)] Some have m1: "sched_moved [getID job] (px_queue px) (?q q1)"
      by (simp add: sched_moved_def sched_touch_time sched_touch_config)
    then have "sched_inv (px_queue (px\<lparr>px_queue := ?q q1, osReqNum := osReqNum px + 1\<rparr>))"
      by (simp add: sched_moved_def)
    from Suc.IH [OF this rec] have IH: "scheduled now (px\<lparr>px_queue := ?q q1, osReqNum := osReqNum px + 1\<rparr>) outs1 px'" .
    then have "sched_moved (map getID (px_jobs outs1)) (?q q1) (px_queue px')" by (simp add: scheduled_def)
    from sched_moved_trans [OF m1 this] IH show ?thesis
      by (simp add: scheduled_def outs p(2) c' add.assoc)
  qed
qed simp

lemma scheduleJobs_scheduled:
  "sched_inv (px_queue px) \<Longrightarrow> scheduleJobs now px = Inr (outs, px') \<Longrightarrow> scheduled now px outs px'"
  by (simp add: scheduleJobs_def px_schedule_scheduled del: px_schedule.simps)

text \<open>More fuel than waiting requests makes no difference: the loop is never cut short.\<close>

lemma px_schedule_fuel:
  assumes "sched_inv (px_queue px)" "size (sched_waiting (px_queue px)) < n"
  shows "px_schedule n now px = scheduleJobs now px"
proof -
  have "px_schedule n now px = px_schedule k now px"
    if "sched_inv (px_queue px)" "size (sched_waiting (px_queue px)) < n" "size (sched_waiting (px_queue px)) < k"
    for n k px
    using that
  proof (induction n arbitrary: k px)
    case (Suc n)
    from Suc.prems obtain k' where k: "k = Suc k'" by (cases k) auto
    show ?case
    proof (cases "sched_dispatchNext now (px_queue px)")
      case (Inr x)
      then obtain r q where d: "sched_dispatchNext now (px_queue px) = Inr (r, q)" by (cases x) auto
      show ?thesis
      proof (cases r)
        case (Some job)
        from sched_disp_moved [OF Suc.prems(1) d] Some have m: "sched_moved [getID job] (px_queue px) q" by simp
        show ?thesis
        proof (cases "propagate_if (algorithm px = ''DSFQD'') q")
          case (Inr y)
          then obtain ps q1 where ps: "propagate_if (algorithm px = ''DSFQD'') q = Inr (ps, q1)" by (cases y) auto
          from m have "sched_inv q" by (simp add: sched_moved_def)
          from propagate_if_moved [OF this ps] have "sched_moved [] q q1" by simp
          from sched_moved_trans [OF m this] have m1: "sched_moved [getID job] (px_queue px) q1" by simp
          let ?px = "px\<lparr>px_queue := sched_touch (\<lambda>p. p\<lparr>getScheduletime := now\<rparr>) job (px_queue px) q1,
                         osReqNum := osReqNum px + 1\<rparr>"
          from m1 Suc.prems(2,3) k have "sched_inv (px_queue ?px)" "size (sched_waiting (px_queue ?px)) < n"
            "size (sched_waiting (px_queue ?px)) < k'" by (simp_all add: sched_moved_def sched_touch_time)
          from Suc.IH [OF this] show ?thesis by (simp add: k d Some ps)
        qed (simp add: k d Some)
      qed (simp add: k d)
    qed (simp add: k)
  qed simp
  note same = this
  show ?thesis unfolding scheduleJobs_def by (rule same [OF assms]) simp
qed

text \<open>No operation of a scheduler reports the fault that stands for this loop not ending.\<close>

abbreviation (input) "px_loop \<equiv> Diverge ''Proxy::scheduleJobs''"

definition no_loop :: "'a res \<Rightarrow> bool" where
  "no_loop r \<longleftrightarrow> r \<noteq> Inl px_loop"

lemma no_loop_simps [simp]:
  "no_loop (Inr x)" "no_loop (Inl f) \<longleftrightarrow> f \<noteq> px_loop"
  by (simp_all add: no_loop_def)

lemma no_loop_bind: "no_loop m \<Longrightarrow> (\<And>x. m = Inr x \<Longrightarrow> no_loop (f x)) \<Longrightarrow> no_loop (bindR m f)"
  by (cases m) auto

lemma no_loop_run_res: "(\<And>x s. no_loop (f x s)) \<Longrightarrow> no_loop (run_res f xs s)"
  by (induction xs arbitrary: s) (auto intro: no_loop_bind)

lemma edf_push_loop: "no_loop (edf_pushWaitQ p q)"
  by (simp add: edf_pushWaitQ_def)

lemma avatar_push_loop: "no_loop (avatar_pushWaitQ now p v)"
  by (simp add: avatar_pushWaitQ_def Let_def edf_push_loop no_loop_bind)

lemma i2l_drain_loop: "no_loop (i2l_drain n now s v)"
  by (induction n arbitrary: s v)
    (auto intro!: no_loop_bind avatar_push_loop split: option.splits prod.splits)

lemma i2l_disp_loop: "no_loop (i2l_dispatchNext now q)"
  by (auto simp: i2l_dispatchNext_def i2l_replenish_def Let_def simp del: i2l_drain.simps
      intro!: no_loop_bind i2l_drain_loop split: prod.splits option.splits)

lemma sfq_disp_loop: "no_loop (sfq_dispatchNext q)"
  by (simp add: sfq_dispatchNext_def sfq_take_def Let_def del: rr_loop.simps
      split: option.splits list.splits prod.splits)

lemma dsfqd_disp_loop: "no_loop (dsfqd_dispatchNext q)"
  by (auto simp: dsfqd_dispatchNext_def dsfq_count_def Let_def
      intro!: no_loop_bind sfq_disp_loop split: option.splits prod.splits)

lemma rc_disp_loop: "no_loop (rc_dispatchNext now q)"
  by (simp add: rc_dispatchNext_def rc_take_def Let_def del: rr_loop.simps
      split: option.splits list.splits prod.splits)

lemma dta_update_loop: "no_loop (dispatchUpdate p q)"
  by (auto simp: dispatchUpdate_def dta_lag_slot_def Let_def
      intro!: no_loop_bind no_loop_run_res split: option.splits prod.splits)

lemma dta_try_loop: "no_loop (tryToDispatch now sid q)"
  by (auto simp: tryToDispatch_def dta_choose_def dta_send_edf_def dta_send_lr_def Let_def
      simp del: dta_skip.simps intro!: no_loop_bind dta_update_loop split: option.splits)

lemma dta_disp_loop: "no_loop (dta_dispatchNext now q)"
proof -
  have "no_loop (dta_try now xs q)" for xs
    by (induction xs arbitrary: q)
      (auto intro!: no_loop_bind dta_try_loop split: option.splits prod.splits)
  then show ?thesis by (simp add: dta_dispatchNext_def)
qed

lemma sched_disp_loop: "no_loop (sched_dispatchNext now s)"
  by (auto simp: sched_dispatchNext_def with_sched_def intro!: no_loop_bind sfq_disp_loop dsfqd_disp_loop
      rc_disp_loop i2l_disp_loop dta_disp_loop split: sched.splits prod.splits)

lemma propagate_no_loop: "no_loop (propagateSPackets q)"
proof -
  have "no_loop (sched_propagateSPacket q)" for q
    by (simp add: sched_propagateSPacket_def with_sched_def fifo_propagateSPacket_def
        IQueue_propagateSPacket_def split: sched.splits prod.splits)
  then show ?thesis
    by (auto simp: propagateSPackets_def numeral_2_eq_2 intro!: no_loop_bind split: option.splits prod.splits)
qed

lemma propagate_ends: "propagateSPackets q \<noteq> Inl (Diverge ''Proxy::propagateSPackets'')"
proof
  assume d: "propagateSPackets q = Inl (Diverge ''Proxy::propagateSPackets'')"
  have n: "sched_propagateSPacket q \<noteq> Inl (Diverge ''Proxy::propagateSPackets'')" for q
    by (simp add: sched_propagateSPacket_def with_sched_def fifo_propagateSPacket_def
        IQueue_propagateSPacket_def split: sched.splits prod.splits)
  show False
  proof (cases "sched_propagateSPacket q")
    case (Inl f)
    with d n [of q] show False by (simp add: propagateSPackets_def numeral_2_eq_2)
  next
    case (Inr x)
    with d obtain sp q1 where "sched_propagateSPacket q = Inr (Some sp, q1)"
      by (cases x; cases "fst x") (auto simp: propagateSPackets_def numeral_2_eq_2)
    with sched_propagate_twice [OF this] d show False by (simp add: propagateSPackets_def numeral_2_eq_2)
  qed
qed

lemma px_schedule_no_loop:
  "sched_inv (px_queue px) \<Longrightarrow> size (sched_waiting (px_queue px)) < n \<Longrightarrow> no_loop (px_schedule n now px)"
proof (induction n arbitrary: px)
  case (Suc n)
  show ?case unfolding px_schedule.simps
  proof (rule no_loop_bind [OF sched_disp_loop], clarify)
    fix r q assume d: "sched_dispatchNext now (px_queue px) = Inr (r, q)"
    note m = sched_disp_moved [OF Suc.prems(1) d]
    show "no_loop (case r of None \<Rightarrow> Inr ([], px\<lparr>px_queue := q\<rparr>)
     | Some job \<Rightarrow>
         bindR (propagate_if (algorithm px = ''DSFQD'') q) (\<lambda>(ps, q).
         bindR (sendSafe now (job\<lparr>getScheduletime := now\<rparr>)) (\<lambda>packetcopy.
         bindR (px_schedule n now
                  (px\<lparr>px_queue := sched_touch (\<lambda>p. p\<lparr>getScheduletime := now\<rparr>) job (px_queue px) q,
                      osReqNum := osReqNum px + 1\<rparr>)) (\<lambda>(outs, px).
         Inr (ps @ SendJob packetcopy # outs, px)))))"
    proof (cases r)
      case (Some job)
      have i: "sched_inv q" using m by (simp add: sched_moved_def)
      have p: "no_loop (propagate_if (algorithm px = ''DSFQD'') q)"
        by (simp add: propagate_if_def propagate_no_loop)
      have s: "no_loop (sendSafe now x)" for x by (simp add: sendSafe_def split: option.split)
      show ?thesis unfolding Some option.case
      proof (rule no_loop_bind [OF p], clarify, rule no_loop_bind [OF s], rule no_loop_bind)
        fix ps q1 c assume "propagate_if (algorithm px = ''DSFQD'') q = Inr (ps, q1)"
        from propagate_if_moved [OF i this] have "sched_moved [] q q1" by simp
        with m Some Suc.prems(2) show "no_loop (px_schedule n now
            (px\<lparr>px_queue := sched_touch (\<lambda>p. p\<lparr>getScheduletime := now\<rparr>) job (px_queue px) q1,
                      osReqNum := osReqNum px + 1\<rparr>))"
          by (intro Suc.IH) (simp_all add: sched_moved_def sched_touch_time)
      qed auto
    qed simp
  qed
qed simp

section \<open>What the handlers do to the scheduler\<close>

lemma sched_receive_moved:
  assumes "sched_inv q" "sched_receiveSPacket sp q = Inr q'"
  shows "sched_moved [] q q'"
  unfolding sched_moved_def sched_receive_quiet(1) [OF assms]
  by (insert assms, cases q; simp add: sched_receiveSPacket_def sched_abs
      fifo_receiveSPacket_def IQueue_receiveSPacket_def dsfqa_receiveSPacket_def dsfqd_receiveSPacket_def
      dsfqf_receiveSPacket_def; elim exE conjE; hypsubst_thin; drule receive_same; simp add: sfq_same_abs)

lemma sched_notify_moved:
  assumes "sched_inv q" "sched_notify now q = Inr (t, q')"
  shows "sched_moved [] q q'"
  unfolding sched_moved_def sched_notify_quiet(1) [OF assms(2)]
  by (insert assms, cases q; simp add: sched_notify_def with_sched_Inr sched_abs IQueue_notify_def;
      (elim exE conjE)?; hypsubst_thin; (drule (1) i2l_notify_abs)?; simp)

text \<open>A completion finds the request that is outstanding.\<close>

lemma fifo_pop_found:
  assumes "fifo_popOsQ i (q :: ('b bPacket_scheme, 'z) fifo_scheme) = (r, q')"
    "i \<in># image_mset fst (fifo_outstanding q)"
  shows "\<exists>p. r = Some p \<and> getID p = i"
  using assms by (cases r) (auto simp: fifo_cases fifo_abs pkt_key_def dest: erase_first_sat)

lemma sched_pop_found:
  assumes "sched_inv s" "sched_popOsQ now i s = Inr (r, s')" "i \<in># sched_outstanding s"
  shows "\<exists>p. r = Some p \<and> getID p = i"
proof (cases s)
  case (S_DTA q)
  with assms obtain q' where "dta_popOsQ now i q = Inr (r, q')" "dta_inv q"
    by (auto simp: sched_popOsQ_def with_sched_Inr sched_abs)
  with dta_pop_inv show ?thesis by blast
next
  case (S_I2L q)
  with assms obtain q' where "i2l_popOsQ now i q = Inr (r, q')" by (auto simp: sched_popOsQ_def with_sched_Inr)
  then show ?thesis
    by (auto simp: i2l_popOsQ_def avatar_popOsQ_def fifo_cases Let_def dest: erase_first_sat
        split: prod.splits option.splits if_splits)
next
  case (S_SFQRC q)
  with assms rc_pop_abs show ?thesis by (fastforce simp: sched_popOsQ_def with_sched_Inr sched_abs)
next
  case (S_DSFQF q)
  with assms obtain q' where "dsfqf_popOsQ i q = Inr (r, q')" by (auto simp: sched_popOsQ_def with_sched_Inr)
  then show ?thesis by (auto simp: dsfqf_popOsQ_def sfq_pop_Some dest!: erase_first_sat split: option.splits)
qed (use assms fifo_pop_found [of i] in \<open>force simp: sched_popOsQ_def with_sched_Inr sched_abs sfq_pop_Some
    dest: erase_first_sat\<close>)+

text \<open>The requests a message puts into the scheduler and those it completes.\<close>

definition px_enqueued :: "proxy \<Rightarrow> px_msg \<Rightarrow> int list" where
  "px_enqueued px msg =
    (case msg of
       SMsg sp \<Rightarrow> []
     | GMsg p \<Rightarrow>
         if getKind p = SELF_PFS_R_REQ \<or> getKind p = SELF_PFS_W_REQ \<or>
            (getKind p = PFS_R_REQ \<or> getKind p = PFS_W_REQ) \<and> newjob_proc_time px = 0
         then [getID p] else [])"

definition px_completed :: "proxy \<Rightarrow> px_msg \<Rightarrow> int list" where
  "px_completed px msg =
    (case msg of
       SMsg sp \<Rightarrow> []
     | GMsg p \<Rightarrow>
         if getKind p = SELF_PFS_W_FIN \<or> getKind p = SELF_PFS_R_DATA_LAST \<or>
            (getKind p = PFS_W_FIN \<or> getKind p = PFS_R_DATA_LAST) \<and> finjob_proc_time px = 0
         then [recordPacketID p] else [])"

definition px_effect :: "proxy \<Rightarrow> int list \<Rightarrow> int list \<Rightarrow> px_out list \<Rightarrow> proxy \<Rightarrow> bool" where
  "px_effect px enq fin outs px' \<longleftrightarrow>
     sched_inv (px_queue px') \<and>
     sched_waiting (px_queue px') + mset (map getID (px_jobs outs)) = sched_waiting (px_queue px) + mset enq \<and>
     sched_outstanding (px_queue px') + mset fin
       = sched_outstanding (px_queue px) + mset (map getID (px_jobs outs)) \<and>
     osReqNum px' = osReqNum px + int (length (px_jobs outs)) - int (length fin) \<and>
     newjob_proc_time px' = newjob_proc_time px \<and> finjob_proc_time px' = finjob_proc_time px \<and>
     algorithm px' = algorithm px \<and> sched_config (px_queue px') = sched_config (px_queue px)"

lemma scheduled_fields:
  "scheduled now px outs px' \<Longrightarrow> newjob_proc_time px' = newjob_proc_time px \<and>
     finjob_proc_time px' = finjob_proc_time px \<and> algorithm px' = algorithm px \<and> osReqNum px' = osReqNum px + int (length (px_jobs outs)) \<and>
     sched_moved (map getID (px_jobs outs)) (px_queue px) (px_queue px')"
  by (auto simp: scheduled_def) (metis proxy.select_convs proxy.update_convs proxy.surjective)+

text \<open>The rules by which a handler's effect is put together from its calls.\<close>

lemma scheduleJobs_effect:
  assumes "sched_inv q" "scheduleJobs now (px\<lparr>px_queue := q\<rparr>) = Inr (outs, px')"
    "sched_moved [] (px_queue px) q"
  shows "px_effect px [] [] outs px' \<and> px_settled now px'"
proof -
  from scheduleJobs_scheduled [OF _ assms(2)] assms(1)
  have "scheduled now (px\<lparr>px_queue := q\<rparr>) outs px'" by simp
  from scheduled_fields [OF this] this assms(3) show ?thesis
    by (auto simp: px_effect_def sched_moved_def scheduled_def)
qed

lemma handleJobReq2_effect:
  assumes "sched_inv (px_queue px)" "getID p \<notin># sched_waiting (px_queue px) + sched_outstanding (px_queue px)"
    and "handleJobReq2 now p px = Inr (outs, px')"
  shows "px_effect px [getID p] [] outs px' \<and> px_settled now px'"
proof -
  from assms(3) obtain q ps q1 outs1 where q: "sched_pushWaitQ now p (px_queue px) = Inr q"
    and ps: "propagate_if (algorithm px = ''DSFQA'' \<or> algorithm px = ''DSFQALB'') q = Inr (ps, q1)"
    and sj: "scheduleJobs now (px\<lparr>px_queue := q1\<rparr>) = Inr (outs1, px')" and outs: "outs = ps @ outs1"
    by (auto simp: handleJobReq2_def)
  have "sched_push_new now p (px_queue px) = Inr q" using assms(2) q by (simp add: sched_push_new_def)
  note P = sched_push_law [OF assms(1) this] sched_push_config [OF assms(1) q]
  then have i: "sched_inv q" by simp
  note M = propagate_if_moved [OF i ps]
  then have "sched_inv q1" by (simp add: sched_moved_def)
  with scheduleJobs_scheduled [OF _ sj] have S: "scheduled now (px\<lparr>px_queue := q1\<rparr>) outs1 px'" by simp
  from scheduled_fields [OF S] P M have "px_effect px [getID p] [] outs px'"
    by (simp add: px_effect_def sched_moved_def outs)
  with S show ?thesis by (simp add: scheduled_def)
qed

lemma handleReadLastWriteFin2_effect:
  assumes "sched_inv (px_queue px)" "recordPacketID p \<in># sched_outstanding (px_queue px)"
    and "handleReadLastWriteFin2 now p px = Inr (outs, px')"
  shows "px_effect px [] [recordPacketID p] outs px' \<and> px_settled now px'"
proof -
  from assms(3) obtain r q ps q1 p' outs1 where q: "sched_popOsQ now (recordPacketID p) (px_queue px) = Inr (r, q)"
    and ps: "propagate_if (algorithm px = ''DSFQF'') q = Inr (ps, q1)"
    and sj: "scheduleJobs now (px\<lparr>px_queue := q1, osReqNum := osReqNum px - 1\<rparr>) = Inr (outs1, px')"
    and outs: "outs = ps @ SendG p' # outs1"
    by (auto simp: handleReadLastWriteFin2_def)
  from sched_pop_found [OF assms(1) q assms(2)] obtain x where x: "r = Some x" "getID x = recordPacketID p" by blast
  note P = sched_pop_Some [OF assms(1) q [unfolded x]] sched_pop_config [OF assms(1) q]
  then have i: "sched_inv q" by simp
  note M = propagate_if_moved [OF i ps]
  then have "sched_inv q1" by (simp add: sched_moved_def)
  with scheduleJobs_scheduled [OF _ sj]
  have S: "scheduled now (px\<lparr>px_queue := q1, osReqNum := osReqNum px - 1\<rparr>) outs1 px'" by simp
  from scheduled_fields [OF S] P M x(2) have "px_effect px [] [recordPacketID p] outs px'"
    by (simp add: px_effect_def sched_moved_def outs)
  with S show ?thesis by (simp add: scheduled_def)
qed

text \<open>
  The discipline of the clients: a request that enters has a fresh identity, a
  completion belongs to a request that is outstanding.
\<close>

definition px_client_ok :: "proxy \<Rightarrow> px_msg \<Rightarrow> bool" where
  "px_client_ok px msg \<longleftrightarrow>
     (\<forall>i\<in>set (px_enqueued px msg). i \<notin># sched_waiting (px_queue px) + sched_outstanding (px_queue px)) \<and>
     (\<forall>i\<in>set (px_completed px msg). i \<in># sched_outstanding (px_queue px))"

lemma px_effect_refl: "sched_inv (px_queue px) \<Longrightarrow> px_jobs outs = [] \<Longrightarrow> px_effect px [] [] outs px"
  by (simp add: px_effect_def)

lemma propagate_no_i2l: "propagateSPackets q = Inr (outs, q') \<Longrightarrow> fst (sched_config q) \<noteq> ''I2L''"
  by (cases q) (auto simp: propagateSPackets_def numeral_2_eq_2 sched_propagateSPacket_def
      IQueue_propagateSPacket_def sched_config_def)

lemma handleAlgorithmTimer_effect:
  assumes "sched_inv (px_queue px)" "handleAlgorithmTimer now px = Inr (outs, px')"
  shows "px_effect px [] [] outs px' \<and> (px_settled now px' \<or>
    algorithm px \<noteq> ''I2L'' \<and> (sched_quiet (px_queue px) \<longrightarrow> sched_quiet (px_queue px')))"
proof (cases "algorithm px = ''DSFQATB''")
  case True
  with assms(2) obtain ps q t q1 where p: "propagateSPackets (px_queue px) = Inr (ps, q)"
    and n: "sched_notify now q = Inr (t, q1)" and o: "outs = ps @ [ScheduleTimer t]" "px' = px\<lparr>px_queue := q1\<rparr>"
    by (auto simp: handleAlgorithmTimer_def)
  from propagate_moved [OF assms(1) p] have m: "sched_moved [] (px_queue px) q" "px_jobs ps = []"
    and c: "sched_quiet (px_queue px) \<longrightarrow> sched_quiet q" by auto
  have "fst (sched_config q) \<noteq> ''I2L''" using propagate_no_i2l [OF p] m(1) by (simp add: sched_moved_def)
  from sched_notify_quiet(2) [OF n this] c True o(2)
  have r: "algorithm px \<noteq> ''I2L'' \<and> (sched_quiet (px_queue px) \<longrightarrow> sched_quiet (px_queue px'))" by simp
  have "sched_inv q" using m(1) by (simp add: sched_moved_def)
  from sched_moved_trans [OF m(1) sched_notify_moved [OF this n]] m(2) r show ?thesis
    by (simp add: px_effect_def sched_moved_def o)
next
  case False
  with assms(2) obtain t q outs1 where n: "sched_notify now (px_queue px) = Inr (t, q)"
    and s: "scheduleJobs now (px\<lparr>px_queue := q\<rparr>) = Inr (outs1, px')" and o: "outs = ScheduleTimer t # outs1"
    by (auto simp: handleAlgorithmTimer_def split: if_splits)
  from sched_notify_moved [OF assms(1) n] have m: "sched_moved [] (px_queue px) q" .
  then have "sched_inv q" by (simp add: sched_moved_def)
  from scheduleJobs_effect [OF this s m] show ?thesis by (simp add: px_effect_def o)
qed

lemma handleJobReq_effect:
  assumes "sched_inv (px_queue px)" "handleJobReq now p px = Inr (outs, px')"
    and "newjob_proc_time px = 0 \<Longrightarrow> getID p \<notin># sched_waiting (px_queue px) + sched_outstanding (px_queue px)"
  shows "px_effect px (if newjob_proc_time px = 0 then [getID p] else []) [] outs px' \<and>
    (if newjob_proc_time px = 0 then px_settled now px' else px' = px)"
proof (cases "newjob_proc_time px = 0")
  case True
  with assms(2) obtain p' where h: "handleJobReq2 now p' px = Inr (outs, px')" and i: "getID p' = getID p"
    by (auto simp: handleJobReq_def Let_def)
  have "getID p' \<notin># sched_waiting (px_queue px) + sched_outstanding (px_queue px)"
    using assms(3) [OF True] i by simp
  from handleJobReq2_effect [OF assms(1) this h] True i show ?thesis by simp
next
  case False
  with assms(1,2) show ?thesis by (auto simp: handleJobReq_def Let_def px_effect_refl)
qed

lemma handleReadLastWriteFin_effect:
  assumes "sched_inv (px_queue px)" "handleReadLastWriteFin now p px = Inr (outs, px')"
    and "finjob_proc_time px = 0 \<Longrightarrow> recordPacketID p \<in># sched_outstanding (px_queue px)"
  shows "px_effect px [] (if finjob_proc_time px = 0 then [recordPacketID p] else []) outs px' \<and>
    (if finjob_proc_time px = 0 then px_settled now px' else px' = px)"
proof (cases "finjob_proc_time px = 0")
  case True
  with assms(2) obtain p' where h: "handleReadLastWriteFin2 now p' px = Inr (outs, px')"
    and i: "recordPacketID p' = recordPacketID p"
    by (auto simp: handleReadLastWriteFin_def Let_def recordPacketID_def)
  have "recordPacketID p' \<in># sched_outstanding (px_queue px)" using assms(3) [OF True] i by simp
  from handleReadLastWriteFin2_effect [OF assms(1) this h] True i show ?thesis by simp
next
  case False
  with assms(1,2) show ?thesis by (auto simp: handleReadLastWriteFin_def Let_def px_effect_refl)
qed

text \<open>
  The messages after which the proxy asks its scheduler: a request is put into it, a
  completion is taken out, or the timer of I2L has fired.
\<close>

definition px_asks :: "proxy \<Rightarrow> px_msg \<Rightarrow> bool" where
  "px_asks px msg \<longleftrightarrow> px_enqueued px msg \<noteq> [] \<or> px_completed px msg \<noteq> [] \<or>
     algorithm px = ''I2L'' \<and> (case msg of GMsg p \<Rightarrow> getKind p = ALG_TIMER | SMsg sp \<Rightarrow> False)"

definition px_rests :: "real \<Rightarrow> proxy \<Rightarrow> px_msg \<Rightarrow> proxy \<Rightarrow> bool" where
  "px_rests now px msg px' \<longleftrightarrow> px_settled now px' \<or>
     \<not> px_asks px msg \<and> (sched_quiet (px_queue px) \<longrightarrow> sched_quiet (px_queue px'))"

lemmas px_msg_defs = px_rests_def px_asks_def px_enqueued_def px_completed_def

lemma handleMessage_effect:
  assumes "sched_inv (px_queue px)" "px_client_ok px msg" "px_handleMessage now msg px = Inr (outs, px')"
  shows "px_effect px (px_enqueued px msg) (px_completed px msg) outs px' \<and> px_rests now px msg px'"
proof (cases msg)
  case (SMsg sp)
  with assms(3) obtain q where q: "sched_receiveSPacket sp (px_queue px) = Inr q" "outs = []" "px' = px\<lparr>px_queue := q\<rparr>"
    by (auto simp: px_handleMessage_def handleInterSchedulerPacket_def split: if_splits)
  from sched_receive_moved [OF assms(1) q(1)] sched_receive_quiet(2) [OF assms(1) q(1)] q(2,3) SMsg show ?thesis
    by (simp add: px_effect_def sched_moved_def px_msg_defs)
next
  case (GMsg p)
  note d = assms(3) [unfolded px_handleMessage_def GMsg px_msg.case]
  note ok = assms(2) [unfolded px_client_ok_def GMsg]
  have minor: "px_effect px [] [] outs px' \<and> px' = px" if "handleMinorReadWrite now p px = Inr (outs, px')"
    using that assms(1) by (auto simp: handleMinorReadWrite_def Let_def intro!: px_effect_refl split: if_splits)
  show ?thesis
  proof (cases "getKind p")
    case PFS_R_REQ
    with d ok handleJobReq_effect [OF assms(1), of now p outs px'] show ?thesis
      by (simp add: GMsg px_msg_defs split: if_splits)
  next
    case PFS_W_REQ
    with d ok handleJobReq_effect [OF assms(1), of now p outs px'] show ?thesis
      by (simp add: GMsg px_msg_defs split: if_splits)
  next
    case SELF_PFS_R_REQ
    with d ok handleJobReq2_effect [OF assms(1)] show ?thesis
      by (simp add: GMsg px_msg_defs)
  next
    case SELF_PFS_W_REQ
    with d ok handleJobReq2_effect [OF assms(1)] show ?thesis
      by (simp add: GMsg px_msg_defs)
  next
    case PFS_W_FIN
    with d ok handleReadLastWriteFin_effect [OF assms(1), of now p outs px'] show ?thesis
      by (simp add: GMsg px_msg_defs split: if_splits)
  next
    case PFS_R_DATA_LAST
    with d ok handleReadLastWriteFin_effect [OF assms(1), of now p outs px'] show ?thesis
      by (simp add: GMsg px_msg_defs split: if_splits)
  next
    case SELF_PFS_W_FIN
    with d ok handleReadLastWriteFin2_effect [OF assms(1)] show ?thesis
      by (simp add: GMsg px_msg_defs)
  next
    case SELF_PFS_R_DATA_LAST
    with d ok handleReadLastWriteFin2_effect [OF assms(1)] show ?thesis
      by (simp add: GMsg px_msg_defs)
  next
    case ALG_TIMER
    with d handleAlgorithmTimer_effect [OF assms(1)] show ?thesis
      by (simp add: GMsg px_msg_defs)
  qed (use d minor px_effect_refl [OF assms(1)] in \<open>auto simp: GMsg px_msg_defs\<close>)
qed

section \<open>Runs\<close>

text \<open>
  A proxy handles the messages that OMNeT++ delivers, its own self messages among
  them. The run keeps the requests put into the scheduler, the completions and all
  that was sent; it stops when a client breaks the discipline.
\<close>

fun px_step ::
  "real \<times> px_msg \<Rightarrow> proxy \<times> int list \<times> int list \<times> px_out list \<Rightarrow>
   (proxy \<times> int list \<times> int list \<times> px_out list) res" where
  "px_step (now, msg) (px, enq, fin, outs) =
     (if px_client_ok px msg then
        bindR (px_handleMessage now msg px) (\<lambda>(os, px').
          Inr (px', enq @ px_enqueued px msg, fin @ px_completed px msg, outs @ os))
      else Inl (Abort ''client''))"

definition px_ledger :: "proxy \<times> int list \<times> int list \<times> px_out list \<Rightarrow> bool" where
  "px_ledger = (\<lambda>(px, enq, fin, outs). sched_inv (px_queue px) \<and>
     sched_waiting (px_queue px) + mset (map getID (px_jobs outs)) = mset enq \<and>
     sched_outstanding (px_queue px) + mset fin = mset (map getID (px_jobs outs)) \<and>
     osReqNum px = int (size (sched_outstanding (px_queue px))))"

lemma px_effect_ledger:
  assumes "px_ledger (px, enq, fin, outs)" "px_effect px e f os px'"
  shows "px_ledger (px', enq @ e, fin @ f, outs @ os)"
proof -
  let ?W = "sched_waiting (px_queue px)" and ?W' = "sched_waiting (px_queue px')"
  let ?O = "sched_outstanding (px_queue px)" and ?O' = "sched_outstanding (px_queue px')"
  let ?j = "mset (map getID (px_jobs outs))" and ?k = "mset (map getID (px_jobs os))"
  from assms(1) have L: "?W + ?j = mset enq" "?O + mset fin = ?j" "osReqNum px = int (size ?O)"
    by (simp_all add: px_ledger_def)
  from assms(2) have E: "sched_inv (px_queue px')" "?W' + ?k = ?W + mset e" "?O' + mset f = ?O + ?k"
    "osReqNum px' = osReqNum px + int (length (px_jobs os)) - int (length f)"
    by (simp_all add: px_effect_def)
  have "?W' + (?j + ?k) = (?W' + ?k) + ?j" by (simp add: ac_simps)
  also have "\<dots> = mset (enq @ e)" using L(1) E(2) by (simp add: ac_simps flip: L(1))
  finally have 1: "?W' + (?j + ?k) = mset (enq @ e)" .
  have "?O' + mset (fin @ f) = (?O' + mset f) + mset fin" by (simp add: ac_simps)
  also have "\<dots> = (?O + ?k) + mset fin" by (simp only: E(3))
  also have "\<dots> = (?O + mset fin) + ?k" by (simp only: ac_simps)
  also have "\<dots> = ?j + ?k" by (simp only: L(2))
  finally have 2: "?O' + mset (fin @ f) = ?j + ?k" .
  from arg_cong [OF E(3), of size] have "size ?O' + length f = size ?O + length (px_jobs os)" by simp
  with L(3) E(4) have "osReqNum px' = int (size ?O')" by linarith
  with 1 2 E(1) show ?thesis by (simp add: px_ledger_def)
qed

lemma px_step_ledger:
  assumes "px_ledger x" "px_step ev x = Inr x'"
  shows "px_ledger x'"
proof -
  obtain px enq fin outs where x: "x = (px, enq, fin, outs)" by (cases x) auto
  obtain now msg where ev: "ev = (now, msg)" by (cases ev) auto
  from assms(2) x ev obtain os px' where h: "px_handleMessage now msg px = Inr (os, px')"
    and ok: "px_client_ok px msg"
    and x': "x' = (px', enq @ px_enqueued px msg, fin @ px_completed px msg, outs @ os)"
    by (auto split: if_splits)
  from assms(1) x have i: "sched_inv (px_queue px)" by (simp add: px_ledger_def)
  from px_effect_ledger [OF assms(1) [unfolded x] handleMessage_effect [OF i ok h, THEN conjunct1]] x' show ?thesis by simp
qed

lemma px_initialize_ledger:
  assumes "px_initialize pid now alg deg nt ft n ap mem cnt per = Inr (outs, px)" "0 < n" "n \<le> MAX_APP"
  shows "px_ledger (px, [], [], outs)"
proof -
  from assms(1) obtain q where q: "createScheduler_param alg pid deg n ap mem cnt per = Inr q"
    by (auto simp: px_initialize_def)
  from createScheduler_inv [OF q assms(2,3)] have f: "sched_inv q" "sched_waiting q = {#}" "sched_outstanding q = {#}"
    by (simp_all add: sched_fresh_def)
  show ?thesis
  proof (cases "alg = ''DSFQATB'' \<or> alg = ''I2L''")
    case True
    with assms(1) q obtain t q1 where n: "sched_notify now q = Inr (t, q1)" and "px_queue px = q1" "osReqNum px = 0"
      "outs = [ScheduleTimer t]" by (auto simp: px_initialize_def Let_def)
    with sched_notify_moved [OF f(1) n] f show ?thesis by (simp add: px_ledger_def sched_moved_def)
  next
    case False
    with assms(1) q f show ?thesis by (auto simp: px_initialize_def Let_def px_ledger_def)
  qed
qed

section \<open>Properties\<close>

text \<open>
  Claim C3: the proxy neither loses nor duplicates a request, whatever its algorithm. After any
  messages and timer events of a new proxy for 1 to 8 applications whose clients
  use fresh identities, the requests waiting and those sent to the server are those
  received, those outstanding and completed are those sent, and \<^verbatim>\<open>osReqNum\<close> is the
  number outstanding.
\<close>

theorem proxy_books:
  assumes "px_initialize pid t0 alg deg nt ft n ap mem cnt per = Inr (outs0, px0)" "0 < n" "n \<le> MAX_APP"
    and "run_res px_step evs (px0, [], [], outs0) = Inr (px, enq, fin, outs)"
  shows "sched_waiting (px_queue px) + mset (map getID (px_jobs outs)) = mset enq \<and>
    sched_outstanding (px_queue px) + mset fin = mset (map getID (px_jobs outs)) \<and>
    osReqNum px = int (size (sched_outstanding (px_queue px)))"
proof -
  from run_res_invariant [where P = px_ledger and f = px_step, OF px_step_ledger
      px_initialize_ledger [OF assms(1-3)] assms(4)]
  have "px_ledger (px, enq, fin, outs)" .
  then show ?thesis by (simp add: px_ledger_def)
qed

definition px_idle :: "string \<Rightarrow> int \<Rightarrow> proxy \<times> int list \<times> int list \<times> px_out list \<Rightarrow> bool" where
  "px_idle alg deg = (\<lambda>(px, enq, fin, outs). px_ledger (px, enq, fin, outs) \<and> algorithm px = alg \<and>
     sched_config (px_queue px) = (alg, if alg \<in> {''SFQRC'', ''I2L'', ''DTA''} then 0 else deg) \<and>
     (alg \<notin> {''SFQRC'', ''I2L''} \<longrightarrow> sched_quiet (px_queue px)))"

lemma px_step_rests:
  assumes "px_ledger (px, enq, fin, outs)" "px_step (now, msg) (px, enq, fin, outs) = Inr (px', enq', fin', outs')"
  shows "px_rests now px msg px' \<and> algorithm px' = algorithm px \<and>
    sched_config (px_queue px') = sched_config (px_queue px) \<and> sched_inv (px_queue px')"
proof -
  from assms(2) obtain os where h: "px_handleMessage now msg px = Inr (os, px')" and ok: "px_client_ok px msg"
    by (auto split: if_splits)
  from assms(1) have "sched_inv (px_queue px)" by (simp add: px_ledger_def)
  from handleMessage_effect [OF this ok h] show ?thesis by (simp add: px_effect_def)
qed

lemma px_step_idle:
  assumes "px_idle alg deg x" "px_step ev x = Inr x'"
  shows "px_idle alg deg x'"
proof -
  obtain px enq fin outs now msg where x: "x = (px, enq, fin, outs)" "ev = (now, msg)" by (cases x; cases ev) auto
  obtain px' enq' fin' outs' where x': "x' = (px', enq', fin', outs')" by (cases x') auto
  from assms(1) x have i: "px_ledger (px, enq, fin, outs)" "algorithm px = alg"
    "sched_config (px_queue px) = (alg, if alg \<in> {''SFQRC'', ''I2L'', ''DTA''} then 0 else deg)"
    "alg \<notin> {''SFQRC'', ''I2L''} \<longrightarrow> sched_quiet (px_queue px)" by (simp_all add: px_idle_def)
  note R = px_step_rests [OF i(1) assms(2) [unfolded x x']]
  have "sched_quiet (px_queue px')" if a: "alg \<notin> {''SFQRC'', ''I2L''}"
  proof (cases "px_settled now px'")
    case True
    with R a i(3) show ?thesis by (intro sched_null_quiet [of _ now]) (auto simp: px_settled_def)
  next
    case False
    with R a i(4) show ?thesis by (simp add: px_rests_def)
  qed
  with R i px_step_ledger [OF i(1) assms(2) [unfolded x]] show ?thesis by (simp add: px_idle_def x')
qed

lemma px_initialize_idle:
  assumes "px_initialize pid t0 alg deg nt ft n ap mem cnt per = Inr (outs, px)" "0 < n" "n \<le> MAX_APP"
  shows "px_idle alg deg (px, [], [], outs)"
proof -
  from assms(1) obtain q where q: "createScheduler_param alg pid deg n ap mem cnt per = Inr q"
    by (auto simp: px_initialize_def)
  note C = createScheduler_config [OF q] createScheduler_quiet [OF q assms(2,3)] px_initialize_ledger [OF assms]
  show ?thesis
  proof (cases "alg = ''DSFQATB'' \<or> alg = ''I2L''")
    case True
    with assms(1) q obtain t q1 where nq: "sched_notify t0 q = Inr (t, q1)"
      and p: "px_queue px = q1" "algorithm px = alg" by (auto simp: px_initialize_def Let_def)
    from C True p sched_notify_quiet [OF nq] show ?thesis by (auto simp: px_idle_def)
  next
    case False
    with assms(1) q C show ?thesis by (auto simp: px_initialize_def Let_def px_idle_def)
  qed
qed

text \<open>
  Claim C4: no request waits that could go. After any messages and timer events of a
  new proxy (1 to 8 applications, fresh identities), the last of them \<open>msg\<close> at \<open>now\<close>,
  the requests waiting in the scheduler and those sent are the requests that came in; and the
  scheduler lets none of the waiting ones go: with every algorithm but SFQRC and I2L
  \<^verbatim>\<open>dispatchNext\<close> returns NULL on the scheduler of the proxy, whenever it were called,
  and, when the algorithm has one degree (DTA has one per server), no request is in the queues it looks
  at or at least that many requests are outstanding. With I2L, whose answer depends on the
  time, \<^verbatim>\<open>dispatchNext\<close> returns NULL at the time of the event, when the event put a
  request into the scheduler, completed one or was the timer.
\<close>

theorem proxy_dispatches_all:
  assumes "px_initialize pid t0 alg deg nt ft n ap mem cnt per = Inr (outs0, px0)" "0 < n" "n \<le> MAX_APP"
    and "run_res px_step evs (px0, [], [], outs0) = Inr (px1, enq1, fin1, outs1)"
    and "px_step (now, msg) (px1, enq1, fin1, outs1) = Inr (px, enq, fin, outs)"
  shows "sched_waiting (px_queue px) + mset (map getID (px_jobs outs)) = mset enq \<and>
    (alg \<notin> {''SFQRC'', ''I2L''} \<longrightarrow> (\<forall>t. sched_dispatchNext t (px_queue px) = Inr (None, px_queue px))) \<and>
    (alg \<notin> {''SFQRC'', ''I2L'', ''DTA''} \<longrightarrow> sched_ready (px_queue px) = {#} \<or> deg \<le> osReqNum px) \<and>
    (alg = ''I2L'' \<and> px_asks px1 msg \<longrightarrow> sched_dispatchNext now (px_queue px) = Inr (None, px_queue px))"
proof -
  from run_res_invariant [where P = "px_idle alg deg" and f = px_step, OF px_step_idle
      px_initialize_idle [OF assms(1-3)] assms(4)]
  have i1: "px_idle alg deg (px1, enq1, fin1, outs1)" .
  from px_step_idle [OF i1 assms(5)] have i: "px_ledger (px, enq, fin, outs)"
    "sched_config (px_queue px) = (alg, if alg \<in> {''SFQRC'', ''I2L'', ''DTA''} then 0 else deg)"
    "alg \<notin> {''SFQRC'', ''I2L''} \<longrightarrow> sched_quiet (px_queue px)" by (simp_all add: px_idle_def)
  have r: "px_rests now px1 msg px" using px_step_rests [OF _ assms(5)] i1 by (simp add: px_idle_def)
  from i have "sched_inv (px_queue px)" "osReqNum px = int (size (sched_outstanding (px_queue px)))"
    by (simp_all add: px_ledger_def)
  with i sched_quiet_ready have "alg \<notin> {''SFQRC'', ''I2L'', ''DTA''} \<longrightarrow> sched_ready (px_queue px) = {#} \<or> deg \<le> osReqNum px"
    by fastforce
  with i r show ?thesis
    by (auto simp: px_ledger_def sched_quiet_def sched_null_def px_rests_def px_settled_def)
qed

text \<open>
  The proxy hands every packet that does not go through the queue on with the
  kind it came with. With a processing time it is scheduled with the \<^verbatim>\<open>SELF_\<close> kind
  and, when the self message arrives, sent with the original kind; without one it
  is sent at once. The requests and completions have their kind restored the same
  way by \<^verbatim>\<open>sendSafe\<close>.
\<close>

theorem proxy_restores_kind:
  assumes "getKind p \<in> {PFS_W_RESP, PFS_W_DATA, PFS_W_DATA_LAST, PFS_R_DATA}"
    and "px_handleMessage now (GMsg p) px = Inr (outs, px')"
  shows "px' = px \<and>
    (newjob_proc_time px = 0 \<longrightarrow>
      outs = [SendG (p\<lparr>getInterceptiontime := now, getScheduletime := now\<rparr>)]) \<and>
    (newjob_proc_time px \<noteq> 0 \<longrightarrow> (\<exists>p1. outs = [ScheduleG (now + newjob_proc_time px) p1] \<and>
      (\<forall>t px1. px_handleMessage t (GMsg p1) px1 =
         Inr ([SendG (p\<lparr>getInterceptiontime := now, getScheduletime := t\<rparr>)], px1))))"
proof -
  obtain k where k: "getKind p = k" by simp
  with assms show ?thesis
    by (cases p; auto simp: px_handleMessage_def handleMinorReadWrite_def sendSafe_def external_kind_def Let_def
        split: if_splits)
qed

text \<open>
  Claim C8: the loops of the proxy end. With a scheduler in a valid state \<^verbatim>\<open>scheduleJobs\<close>
  dispatches at most the waiting requests before the scheduler returns NULL or one
  of the calls reports an error: it never runs out of the turns the model allows,
  and more turns change nothing. \<^verbatim>\<open>propagateSPackets\<close> sends at most one packet.
\<close>

theorem proxy_loops_end:
  assumes "sched_inv (px_queue px)"
  shows "scheduleJobs now px \<noteq> Inl (Diverge ''Proxy::scheduleJobs'') \<and>
    (\<forall>n > size (sched_waiting (px_queue px)). px_schedule n now px = scheduleJobs now px) \<and>
    propagateSPackets (px_queue px) \<noteq> Inl (Diverge ''Proxy::propagateSPackets'') \<and>
    (\<forall>outs q. propagateSPackets (px_queue px) = Inr (outs, q) \<longrightarrow> length outs \<le> 1)"
proof -
  have "no_loop (scheduleJobs now px)"
    unfolding scheduleJobs_def by (rule px_schedule_no_loop [OF assms]) simp
  moreover have "\<forall>n > size (sched_waiting (px_queue px)). px_schedule n now px = scheduleJobs now px"
    using px_schedule_fuel [OF assms] by blast
  moreover have "\<forall>outs q. propagateSPackets (px_queue px) = Inr (outs, q) \<longrightarrow> length outs \<le> 1"
    using propagate_moved [OF assms] by blast
  ultimately show ?thesis using propagate_ends unfolding no_loop_def by blast
qed

definition demo_req :: "int \<Rightarrow> int \<Rightarrow> gPacket" where
  "demo_req i a = (demo_pkt i a 5)\<lparr>getKind := PFS_W_REQ\<rparr>"

definition demo_px :: proxy where
  "demo_px = snd (run_ok (px_initialize 0 0 ''EDF'' 1 0 0 2 demo_param (\<lambda>_. 0) (\<lambda>_. 0) (\<lambda>_. Fin 0)))"

lemma demo_px_eq:
  "demo_px = \<lparr>px_myID = 0, algorithm = ''EDF'', px_degree = 1, newjob_proc_time = 0, finjob_proc_time = 0,
     px_queue = S_EDF (EDF_new 0 1 2 [(0, 9), (1, 2)] (\<lambda>_. 0)), alg_timer = False, osReqNum = 0, totalOSReqNum = 0\<rparr>"
  by (simp add: demo_px_def px_initialize_def createScheduler_param_def demo_param_def)

theorem proxy_loops_end_witness:
  "scheduleJobs 0 demo_px \<noteq> Inl (Diverge ''Proxy::scheduleJobs'')"
proof -
  have "sched_inv (px_queue demo_px)" by (simp add: demo_px_eq sched_abs edf_sorted_def EDF_new_def)
  from proxy_loops_end [OF this] show ?thesis by blast
qed

lemma demo_px_init:
  "px_initialize 0 0 ''EDF'' 1 0 0 2 demo_param (\<lambda>_. 0) (\<lambda>_. 0) (\<lambda>_. Fin 0) = Inr ([], demo_px)"
  by (simp add: demo_px_eq px_initialize_def createScheduler_param_def demo_param_def)

text \<open>Two requests arrive at a proxy with degree 1; the completion of the first lets the second go.\<close>

lemmas px_eval =
  demo_px_eq px_handleMessage_def handleJobReq_def handleJobReq2_def handleReadLastWriteFin_def
  handleReadLastWriteFin2_def recordPacketID_def scheduleJobs_def sched_pushWaitQ_def sched_dispatchNext_def
  sched_popOsQ_def with_sched_def sched_waiting_def sched_outstanding_def fifo_abs EDF_new_def edf_processParameters_def edf_pushWaitQ_def
  edf_deadline_def fifo_dispatchNext_def fifo_popOsQ_def MAX_APP_def pkt_key_def propagate_if_def sendSafe_def
  external_kind_def sched_touch_def touch_new_def demo_req_def demo_pkt_simps px_client_ok_def px_enqueued_def
  px_completed_def RID_OFFSET_def to_int32_def

definition demo_px_events :: "(real \<times> px_msg) list" where
  "demo_px_events = [(0, GMsg (demo_req 1000 0)), (1, GMsg (demo_req 2000 1))]"

lemma demo_px_run:
  "\<exists>px outs. run_res px_step demo_px_events (demo_px, [], [], []) = Inr (px, [1000, 2000], [], outs) \<and>
     map getID (px_jobs outs) = [1000]"
  by (simp add: demo_px_events_def px_eval Let_def)

theorem proxy_books_witness:
  "\<exists>px outs. run_res px_step demo_px_events (demo_px, [], [], []) = Inr (px, [1000, 2000], [], outs) \<and>
     sched_waiting (px_queue px) = {#2000#} \<and> osReqNum px = 1"
proof -
  obtain px outs where r: "run_res px_step demo_px_events (demo_px, [], [], []) = Inr (px, [1000, 2000], [], outs)"
    and o: "map getID (px_jobs outs) = [1000]" using demo_px_run by (elim exE conjE) rule
  have n: "(0::int) < 2" "(2::int) \<le> MAX_APP" by (simp_all add: MAX_APP_def)
  from proxy_books [OF demo_px_init n r] o have "sched_waiting (px_queue px) + {#1000#} = {#1000, 2000#}"
    "sched_outstanding (px_queue px) = {#1000#}" "osReqNum px = int (size (sched_outstanding (px_queue px)))" by simp_all
  then have "sched_waiting (px_queue px) = {#2000#} \<and> osReqNum px = 1" by (simp add: add_mset_commute)
  with r show ?thesis by blast
qed

text \<open>With degree 1 the second request stays, because one is outstanding.\<close>

theorem proxy_dispatches_all_witness:
  "\<exists>px outs. run_res px_step demo_px_events (demo_px, [], [], []) = Inr (px, [1000, 2000], [], outs) \<and>
     map getID (px_jobs outs) = [1000] \<and> sched_waiting (px_queue px) = {#2000#} \<and>
     (\<forall>t. sched_dispatchNext t (px_queue px) = Inr (None, px_queue px))"
proof -
  obtain px outs where r: "run_res px_step demo_px_events (demo_px, [], [], []) = Inr (px, [1000, 2000], [], outs)"
    and o: "map getID (px_jobs outs) = [1000]" using demo_px_run by (elim exE conjE) rule
  from r obtain x1 where r1: "run_res px_step [(0, GMsg (demo_req 1000 0))] (demo_px, [], [], []) = Inr x1"
    and r2: "px_step (1, GMsg (demo_req 2000 1)) x1 = Inr (px, [1000, 2000], [], outs)"
    by (auto simp: demo_px_events_def simp del: px_step.simps)
  obtain px1 enq1 fin1 outs1 where x1: "x1 = (px1, enq1, fin1, outs1)" by (cases x1) auto
  have n: "(0::int) < 2" "(2::int) \<le> MAX_APP" by (simp_all add: MAX_APP_def)
  from proxy_dispatches_all [OF demo_px_init n r1 [unfolded x1] r2 [unfolded x1]] o
  have "sched_waiting (px_queue px) + {#1000#} = {#1000, 2000#}"
    and t: "\<forall>t. sched_dispatchNext t (px_queue px) = Inr (None, px_queue px)" by simp_all
  then have "sched_waiting (px_queue px) = {#2000#}" by (simp add: add_mset_commute)
  with r o t show ?thesis by (intro exI conjI)
qed

theorem proxy_restores_kind_witness:
  "\<exists>outs px'. px_handleMessage 3 (GMsg ((demo_req 1001 0)\<lparr>getKind := PFS_W_DATA\<rparr>)) demo_px = Inr (outs, px') \<and>
     outs = [SendG ((demo_req 1001 0)\<lparr>getKind := PFS_W_DATA, getInterceptiontime := 3, getScheduletime := 3\<rparr>)]"
proof -
  let ?p = "(demo_req 1001 0)\<lparr>getKind := PFS_W_DATA\<rparr>"
  have k: "getKind ?p \<in> {PFS_W_RESP, PFS_W_DATA, PFS_W_DATA_LAST, PFS_R_DATA}" by simp
  obtain outs px' where h: "px_handleMessage 3 (GMsg ?p) demo_px = Inr (outs, px')"
    by (simp add: px_eval handleMinorReadWrite_def Let_def)
  from proxy_restores_kind [OF k h] h show ?thesis by (simp add: demo_px_eq)
qed

end
