(* ===== verification/Layout.thy ===== *)
theory Layout
  imports Packets
begin

text \<open>
  \<^verbatim>\<open>layout/Layout.cc\<close>: how a file is striped over the data servers, and
  \<^verbatim>\<open>pfsfile/PFSFile.cc\<close>, \<^verbatim>\<open>PVFS2File.cc\<close>, \<^verbatim>\<open>PFSFiles.cc\<close>: the directory of the files
  and the packets with which a client asks the metadata server for a layout.

  The arrays \<^verbatim>\<open>serverList[MAX_DS]\<close> and \<^verbatim>\<open>serverStripeSizes[MAX_DS]\<close> are functions of
  the index; a loop that stores past \<^verbatim>\<open>MAX_DS\<close> is the fault \<open>OutOfBounds\<close>.
\<close>

section \<open>The layout of a file\<close>

record layout =
  lo_fileID :: int
  windowSize :: int
  serverNum :: int
  serverList :: "int \<Rightarrow> int"
  serverStripeSizes :: "int \<Rightarrow> int"

text \<open>The constructors leave the two arrays as the memory \<open>ml\<close> and \<open>ms\<close> has them.\<close>

definition Layout_new :: "(int \<Rightarrow> int) \<Rightarrow> (int \<Rightarrow> int) \<Rightarrow> int \<Rightarrow> layout" where
  "Layout_new ml ms fid = \<lparr> lo_fileID = fid, windowSize = -1, serverNum = 0, serverList = ml, serverStripeSizes = ms \<rparr>"

definition setServerNum :: "int \<Rightarrow> layout \<Rightarrow> layout" where
  "setServerNum num lo = lo\<lparr>serverNum := (if num > MAX_DS then MAX_DS else num)\<rparr>"

definition setServerList :: "int \<Rightarrow> (int \<Rightarrow> int) \<Rightarrow> layout \<Rightarrow> layout" where
  "setServerList num xs lo =
    fold (\<lambda>i lo. lo\<lparr>serverList := (serverList lo)(i := xs i)\<rparr>)
      [0..(if num > MAX_DS then MAX_DS else num) - 1] (setServerNum num lo)"

definition setServerStripeSizes :: "int \<Rightarrow> (int \<Rightarrow> int) \<Rightarrow> layout \<Rightarrow> layout" where
  "setServerStripeSizes num xs lo =
    fold (\<lambda>i lo. lo\<lparr>serverStripeSizes := (serverStripeSizes lo)(i := xs i), windowSize := windowSize lo + xs i\<rparr>)
      [0..(if num > MAX_DS then MAX_DS else num) - 1] ((setServerNum num lo)\<lparr>windowSize := 0\<rparr>)"

text \<open>One turn of the loop of \<^verbatim>\<open>setLayout\<close>; \<^verbatim>\<open>setLayout\<close> does not bound \<^verbatim>\<open>serverNum\<close>.\<close>

definition setLayout_at :: "qPacket \<Rightarrow> int \<Rightarrow> layout \<Rightarrow> layout res" where
  "setLayout_at qpkt i lo =
    (if i \<ge> MAX_DS then Inl (OutOfBounds ''Layout::setLayout'')
     else Inr (lo\<lparr>serverList := (serverList lo)(i := q_dsList qpkt i),
                  serverStripeSizes := (serverStripeSizes lo)(i := q_dsStripeSizes qpkt i),
                  windowSize := windowSize lo + q_dsStripeSizes qpkt i\<rparr>))"

definition setLayout :: "qPacket \<Rightarrow> layout \<Rightarrow> layout res" where
  "setLayout qpkt lo =
    run_res (setLayout_at qpkt) [0..q_dsNum qpkt - 1]
      (lo\<lparr>lo_fileID := q_fileId qpkt, serverNum := q_dsNum qpkt, windowSize := 0\<rparr>)"

definition setqPacket_at :: "layout \<Rightarrow> int \<Rightarrow> qPacket \<Rightarrow> qPacket res" where
  "setqPacket_at lo i qpkt =
    (if i \<ge> MAX_DS then Inl (OutOfBounds ''Layout::setqPacket'')
     else Inr (qpkt\<lparr>q_dsList := (q_dsList qpkt)(i := serverList lo i),
                    q_dsStripeSizes := (q_dsStripeSizes qpkt)(i := serverStripeSizes lo i)\<rparr>))"

definition setqPacket :: "layout \<Rightarrow> qPacket \<Rightarrow> qPacket res" where
  "setqPacket lo qpkt = run_res (setqPacket_at lo) [0..serverNum lo - 1] (qpkt\<lparr>q_dsNum := serverNum lo\<rparr>)"

definition setServerID :: "int \<Rightarrow> int \<Rightarrow> layout \<Rightarrow> layout res" where
  "setServerID i sid lo =
    (if i < 0 \<or> i \<ge> MAX_DS then Inl (OutOfBounds ''Layout::setServerID'')
     else Inr (lo\<lparr>serverList := (serverList lo)(i := sid)\<rparr>))"

definition setServerStripeSize :: "int \<Rightarrow> int \<Rightarrow> layout \<Rightarrow> layout res" where
  "setServerStripeSize i s lo =
    (if i < 0 \<or> i \<ge> MAX_DS then Inl (OutOfBounds ''Layout::setServerStripeSize'')
     else Inr (lo\<lparr>serverStripeSizes := (serverStripeSizes lo)(i := s)\<rparr>))"

definition calculateWindowSize :: "layout \<Rightarrow> layout" where
  "calculateWindowSize lo =
    fold (\<lambda>i lo. lo\<lparr>windowSize := windowSize lo + serverStripeSizes lo i\<rparr>) [0..serverNum lo - 1] (lo\<lparr>windowSize := 0\<rparr>)"

definition getWindowSize :: "layout \<Rightarrow> int \<times> layout" where
  "getWindowSize lo = (let lo = (if windowSize lo = -1 then calculateWindowSize lo else lo) in (windowSize lo, lo))"

definition getServerID :: "layout \<Rightarrow> int \<Rightarrow> int res" where
  "getServerID lo i =
    (if i \<ge> serverNum lo then Inl (CppThrow ''The index is bigger than serverNum.'')
     else if i < 0 \<or> i \<ge> MAX_DS then Inl (OutOfBounds ''Layout::getServerID'')
     else Inr (serverList lo i))"

definition getServerStripeSize :: "layout \<Rightarrow> int \<Rightarrow> int res" where
  "getServerStripeSize lo i =
    (if i \<ge> serverNum lo then Inl (CppThrow ''The index is bigger than serverNum.'')
     else if i < 0 \<or> i \<ge> MAX_DS then Inl (OutOfBounds ''Layout::getServerStripeSize'')
     else Inr (serverStripeSizes lo i))"

definition findServerIndex :: "layout \<Rightarrow> int \<Rightarrow> int" where
  "findServerIndex lo sid =
    (case find (\<lambda>i. serverList lo i = sid) [0..serverNum lo - 1] of None \<Rightarrow> -1 | Some i \<Rightarrow> i)"

section \<open>The files and their metadata packets\<close>

record pfsfile =
  pf_ID :: int
  pf_layout :: "layout option"

definition PVFS2File_new :: "int \<Rightarrow> pfsfile" where
  "PVFS2File_new i = \<lparr> pf_ID = i, pf_layout = None \<rparr>"

definition pf_setLayout :: "layout option \<Rightarrow> pfsfile \<Rightarrow> pfsfile res" where
  "pf_setLayout lo f = (if lo = None then Inl (Abort ''PFSFile::setLayout'') else Inr (f\<lparr>pf_layout := lo\<rparr>))"

definition pf_getLayout :: "pfsfile \<Rightarrow> layout res" where
  "pf_getLayout f = (case pf_layout f of None \<Rightarrow> Inl (Abort ''PFSFile::getLayout'') | Some lo \<Rightarrow> Inr lo)"

definition informationIsSet :: "pfsfile \<Rightarrow> bool" where
  "informationIsSet f \<longleftrightarrow> pf_layout f \<noteq> None"

definition setFromPFSFileMetadataPacket ::
  "(int \<Rightarrow> int) \<Rightarrow> (int \<Rightarrow> int) \<Rightarrow> qPacket \<Rightarrow> pfsfile \<Rightarrow> pfsfile res" where
  "setFromPFSFileMetadataPacket ml ms packet f =
    (let lo = (case pf_layout f of None \<Rightarrow> Layout_new ml ms (-1) | Some lo \<Rightarrow> lo)
     in bindR (setLayout packet lo) (\<lambda>lo. Inr (f\<lparr>pf_layout := Some lo\<rparr>)))"

definition createPFSFileMetadataPacket :: "int \<Rightarrow> int \<Rightarrow> int \<Rightarrow> pfsfile \<Rightarrow> qPacket" where
  "createPFSFileMetadataPacket pktid srcid dstid f =
    new_qPacket\<lparr>getID := pktid, q_fileId := pf_ID f, getKind := LAYOUT_REQ,
      getByteLength := DATA_HEADER_LENGTH, getClientID := srcid, q_metadataServerID := dstid\<rparr>"

definition ReplyPFSFileMetadataPacket :: "qPacket \<Rightarrow> pfsfile \<Rightarrow> qPacket res" where
  "ReplyPFSFileMetadataPacket packet f =
    (case pf_layout f of
       None \<Rightarrow> Inl (Abort ''PVFS2File::ReplyPFSFileMetadataPacket'')
     | Some lo \<Rightarrow> setqPacket lo packet)"

type_synonym pfsfiles = "int \<Rightarrow> pfsfile option"

definition addPFSFile :: "pfsfile option \<Rightarrow> pfsfiles \<Rightarrow> pfsfiles res" where
  "addPFSFile file dir =
    (case file of
       None \<Rightarrow> Inl (Abort ''PFSFile::setLayout'')
     | Some f \<Rightarrow> Inr (if dir (pf_ID f) = None then dir(pf_ID f \<mapsto> f) else dir))"

definition findPFSFile :: "int \<Rightarrow> pfsfiles \<Rightarrow> pfsfile option" where
  "findPFSFile i dir = dir i"

section \<open>What the loops of the layout do\<close>

definition layout_ok :: "layout \<Rightarrow> bool" where
  "layout_ok lo \<longleftrightarrow> 0 \<le> serverNum lo \<and> serverNum lo \<le> MAX_DS \<and>
     windowSize lo = (\<Sum>i\<in>{0..<serverNum lo}. serverStripeSizes lo i)"

lemma sum_upto_last:
  fixes f :: "int \<Rightarrow> int"
  shows "0 \<le> n \<Longrightarrow> (\<Sum>i\<in>{0..<n + 1}. f i) = (\<Sum>i\<in>{0..<n}. f i) + f n"
proof -
  assume "0 \<le> n"
  then have "{0..<n + 1} = insert n {0..<n}" by auto
  then show ?thesis by simp
qed

lemma upto_last: "(0::int) \<le> n \<Longrightarrow> [0..n] = [0..n - 1] @ [n]"
  by (rule upto_rec2) simp

lemma run_setLayout:
  assumes "0 \<le> n" "n \<le> MAX_DS"
  shows "run_res (setLayout_at q) [0..n - 1] lo =
    Inr (lo\<lparr>serverList := \<lambda>i. if 0 \<le> i \<and> i < n then q_dsList q i else serverList lo i,
            serverStripeSizes := \<lambda>i. if 0 \<le> i \<and> i < n then q_dsStripeSizes q i else serverStripeSizes lo i,
            windowSize := windowSize lo + (\<Sum>i\<in>{0..<n}. q_dsStripeSizes q i)\<rparr>)"
  using assms
proof (induction n rule: int_ge_induct [of 0])
  case (step n)
  then have "[0..n + 1 - 1] = [0..n - 1] @ [n]" using upto_last [of n] by simp
  with step show ?case
    by (auto simp: run_res_append setLayout_at_def sum_upto_last intro!: layout.equality)
qed (auto intro!: layout.equality)

lemma run_setqPacket:
  assumes "0 \<le> n" "n \<le> MAX_DS"
  shows "run_res (setqPacket_at lo) [0..n - 1] q =
    Inr (q\<lparr>q_dsList := \<lambda>i. if 0 \<le> i \<and> i < n then serverList lo i else q_dsList q i,
           q_dsStripeSizes := \<lambda>i. if 0 \<le> i \<and> i < n then serverStripeSizes lo i else q_dsStripeSizes q i\<rparr>)"
  using assms
proof (induction n rule: int_ge_induct [of 0])
  case (step n)
  then have "[0..n + 1 - 1] = [0..n - 1] @ [n]" using upto_last [of n] by simp
  with step show ?case
    by (auto simp: run_res_append setqPacket_at_def intro!: qPacket.equality)
qed (auto intro!: qPacket.equality)

lemma setLayout_Inr:
  assumes "0 \<le> q_dsNum q" "q_dsNum q \<le> MAX_DS"
  shows "setLayout q lo = Inr (lo\<lparr>lo_fileID := q_fileId q, serverNum := q_dsNum q,
     serverList := \<lambda>i. if 0 \<le> i \<and> i < q_dsNum q then q_dsList q i else serverList lo i,
     serverStripeSizes := \<lambda>i. if 0 \<le> i \<and> i < q_dsNum q then q_dsStripeSizes q i else serverStripeSizes lo i,
     windowSize := \<Sum>i\<in>{0..<q_dsNum q}. q_dsStripeSizes q i\<rparr>)"
  by (simp add: setLayout_def run_setLayout [OF assms] cong: if_cong)

lemma setLayout_ok:
  assumes "0 \<le> q_dsNum q" "q_dsNum q \<le> MAX_DS" "setLayout q lo = Inr lo'"
  shows "layout_ok lo'"
  using assms(3) unfolding setLayout_Inr [OF assms(1,2)]
  using assms(1,2) by (auto simp: layout_ok_def intro!: sum.cong)

lemma fold_windowSize:
  "fold (\<lambda>i lo. lo\<lparr>windowSize := windowSize lo + serverStripeSizes lo i\<rparr>) xs lo =
   lo\<lparr>windowSize := windowSize lo + (\<Sum>i\<leftarrow>xs. serverStripeSizes lo i)\<rparr>"
  by (induction xs arbitrary: lo) (simp_all add: algebra_simps)

text \<open>
  \<^verbatim>\<open>getWindowSize\<close> computes the size when it is unset and stores it. The store is
  not visible through the operations: a later call computes the same size.
\<close>

lemma getWindowSize_ok:
  assumes "layout_ok lo"
  shows "getWindowSize lo = (windowSize lo, lo)"
proof -
  have "(\<Sum>i\<leftarrow>[0..serverNum lo - 1]. serverStripeSizes lo i) = (\<Sum>i\<in>{0..<serverNum lo}. serverStripeSizes lo i)"
    by (subst sum_list_distinct_conv_sum_set) (auto intro!: sum.cong)
  with assms show ?thesis
    by (simp add: getWindowSize_def calculateWindowSize_def fold_windowSize layout_ok_def Let_def)
qed

lemma getWindowSize_memo: "getWindowSize (snd (getWindowSize lo)) = (fst (getWindowSize lo), snd (getWindowSize lo))"
  by (simp add: getWindowSize_def calculateWindowSize_def fold_windowSize Let_def)

lemma findServerIndex_Some:
  assumes "0 \<le> i" "i < serverNum lo" "inj_on (serverList lo) {0..<serverNum lo}"
  shows "findServerIndex lo (serverList lo i) = i"
proof -
  have "find (\<lambda>j. serverList lo j = serverList lo i) [0..serverNum lo - 1] = Some i"
    unfolding find_Some_iff
    using assms by (intro exI [of _ "nat i"]) (auto simp: nth_upto nat_less_iff inj_on_eq_iff)
  then show ?thesis by (simp add: findServerIndex_def)
qed

lemma findServerIndex_range:
  assumes "findServerIndex lo sid \<ge> 0"
  shows "findServerIndex lo sid < serverNum lo \<and> serverList lo (findServerIndex lo sid) = sid"
proof (cases "find (\<lambda>i. serverList lo i = sid) [0..serverNum lo - 1]")
  case (Some i)
  then have "i \<in> set [0..serverNum lo - 1]" "serverList lo i = sid"
    by (auto simp: find_Some_iff in_set_conv_nth)
  with Some show ?thesis by (simp add: findServerIndex_def)
qed (use assms in \<open>simp add: findServerIndex_def\<close>)

text \<open>
  A layout survives the protocol between the metadata server and a client:
  when the server writes the layout of a file into the reply of a query that the client
  created for it and the client sets its copy of the file from this packet, no store is
  out of bounds and the client's layout has the same servers in the same order with the
  same stripe sizes, and its window size is their sum.
\<close>

theorem layout_roundtrip:
  assumes "0 \<le> serverNum lo" "serverNum lo \<le> MAX_DS" "pf_layout f = Some lo"
  obtains q g lo' where
    "ReplyPFSFileMetadataPacket (createPFSFileMetadataPacket pktid src dst f') f = Inr q"
    "setFromPFSFileMetadataPacket ml ms q f' = Inr g" "pf_layout g = Some lo'"
    "lo_fileID lo' = pf_ID f'" "serverNum lo' = serverNum lo" "layout_ok lo'"
    "\<And>i. 0 \<le> i \<Longrightarrow> i < serverNum lo \<Longrightarrow>
       getServerID lo' i = getServerID lo i \<and> getServerStripeSize lo' i = getServerStripeSize lo i"
    "getWindowSize lo' = ((\<Sum>i\<in>{0..<serverNum lo}. serverStripeSizes lo i), lo')"
proof -
  let ?q0 = "createPFSFileMetadataPacket pktid src dst f'"
  obtain q where q: "ReplyPFSFileMetadataPacket ?q0 f = Inr q"
    and qn: "q_dsNum q = serverNum lo" "q_fileId q = pf_ID f'"
    and ql: "\<And>i. 0 \<le> i \<Longrightarrow> i < serverNum lo \<Longrightarrow> q_dsList q i = serverList lo i \<and> q_dsStripeSizes q i = serverStripeSizes lo i"
    using assms
    by (simp add: ReplyPFSFileMetadataPacket_def setqPacket_def run_setqPacket createPFSFileMetadataPacket_def
        new_qPacket_def)
  let ?lo0 = "case pf_layout f' of None \<Rightarrow> Layout_new ml ms (-1) | Some lo \<Rightarrow> lo"
  from qn assms have b: "0 \<le> q_dsNum q" "q_dsNum q \<le> MAX_DS" by auto
  note set = setLayout_Inr [OF b, of ?lo0]
  then obtain lo' where lo': "setLayout q ?lo0 = Inr lo'" by (rule that)
  then have g: "setFromPFSFileMetadataPacket ml ms q f' = Inr (f'\<lparr>pf_layout := Some lo'\<rparr>)"
    by (simp add: setFromPFSFileMetadataPacket_def)
  note ok = setLayout_ok [OF b lo']
  from lo' have v: "lo_fileID lo' = pf_ID f'" "serverNum lo' = serverNum lo"
    "\<And>i. 0 \<le> i \<Longrightarrow> i < serverNum lo \<Longrightarrow> serverList lo' i = serverList lo i \<and> serverStripeSizes lo' i = serverStripeSizes lo i"
    using qn ql unfolding set by auto
  have w: "windowSize lo' = (\<Sum>i\<in>{0..<serverNum lo}. serverStripeSizes lo i)"
    using ok v unfolding layout_ok_def by (auto intro!: sum.cong)
  show ?thesis
    by (rule that [OF q g]) (use ok v w getWindowSize_ok [OF ok] in \<open>auto simp: getServerID_def getServerStripeSize_def\<close>)
qed

definition demo_layout :: layout where
  "demo_layout = \<lparr> lo_fileID = 5, windowSize = 896, serverNum = 3, serverList = (\<lambda>i. if i = 0 then 1 else if i = 1 then 3 else 9),
     serverStripeSizes = (\<lambda>i. if i = 0 then 256 else if i = 1 then 512 else 128) \<rparr>"

theorem layout_roundtrip_witness:
  "\<exists>q g lo'. ReplyPFSFileMetadataPacket (createPFSFileMetadataPacket 1000 0 0 (PVFS2File_new 5))
       \<lparr> pf_ID = 5, pf_layout = Some demo_layout \<rparr> = Inr q \<and>
     setFromPFSFileMetadataPacket (\<lambda>_. 7) (\<lambda>_. 8) q (PVFS2File_new 5) = Inr g \<and> pf_layout g = Some lo' \<and>
     layout_ok lo' \<and> getServerID lo' 2 = Inr 9"
proof (rule layout_roundtrip [of demo_layout "\<lparr> pf_ID = 5, pf_layout = Some demo_layout \<rparr>" 1000 0 0
        "PVFS2File_new 5" "\<lambda>_. 7" "\<lambda>_. 8"], goal_cases)
  case (4 q g lo')
  then have "getServerID lo' 2 = Inr 9" by (simp add: demo_layout_def MAX_DS_def getServerID_def)
  with 4 show ?case by blast
qed (simp_all add: demo_layout_def MAX_DS_def)

end
