(* ===== verification/Trace.thy ===== *)
theory Trace
  imports Layout
begin

text \<open>
  \<^verbatim>\<open>trace/ITrace.cc\<close> and \<^verbatim>\<open>trace/WindowBasedTrace.cc\<close>: one request of an application
  at the client, which is cut into windows of at most \<^verbatim>\<open>JOB_MAXSIZE\<close> bytes and, inside
  a window, into one packet for each data server.

  The pointer \<^verbatim>\<open>layout\<close> always refers to the \<^verbatim>\<open>Layout\<close> of the \<^verbatim>\<open>PFSFile\<close> that the trace
  accesses, so the trace keeps only whether it is set and the operations take that
  \<open>layout\<close> as an argument. \<^verbatim>\<open>getWindowSize\<close> stores the size that it computes, which no
  operation can observe (\<open>getWindowSize_memo\<close>); the store is left out. Fields that a
  constructor leaves uninitialised are those of the object \<open>mem\<close>.
\<close>

section \<open>ITrace\<close>

record itrace =
  tr_ID :: int
  tr_offset :: int
  tr_totalSize :: int
  tr_read :: int
  tr_applicationID :: int
  tr_startTime :: real
  tr_finishTime :: real
  tr_earliestSubrequestFinishTime :: real
  tr_sync :: int
  tr_traceFileID :: int
  tr_pfsFileID :: int

definition it_initialize ::
  "int \<Rightarrow> real \<Rightarrow> int \<Rightarrow> int \<Rightarrow> int \<Rightarrow> int \<Rightarrow> int \<Rightarrow> int \<Rightarrow> int \<Rightarrow> 'z itrace_scheme \<Rightarrow> 'z itrace_scheme" where
  "it_initialize tid t pfsfid off s r tfid a synch tr =
    tr\<lparr>tr_ID := tid, tr_startTime := t, tr_pfsFileID := pfsfid, tr_offset := off, tr_totalSize := s,
       tr_read := r, tr_traceFileID := tfid, tr_applicationID := a, tr_sync := synch\<rparr>"

definition it_initialize_request :: "AppRequest \<Rightarrow> 'z itrace_scheme \<Rightarrow> 'z itrace_scheme" where
  "it_initialize_request request tr =
    tr\<lparr>tr_ID := getID request, tr_startTime := ar_starttime request, tr_finishTime := ar_finishtime request,
       tr_pfsFileID := ar_fileID request,
       tr_offset := ar_highoffset request * LOWOFFSET_RANGE + ar_lowoffset request,
       tr_totalSize := ar_totalSize request, tr_read := ar_read request,
       tr_traceFileID := ar_traceFileID request, tr_applicationID := getApp request,
       tr_sync := ar_sync request,
       tr_earliestSubrequestFinishTime := ar_earliestsubrequestfinishtime request\<rparr>"

definition createAppRequest :: "'z itrace_scheme \<Rightarrow> AppRequest" where
  "createAppRequest tr =
    new_AppRequest\<lparr>getID := tr_ID tr, ar_starttime := tr_startTime tr, ar_fileID := tr_pfsFileID tr,
      ar_highoffset := tr_offset tr sdiv LOWOFFSET_RANGE, ar_lowoffset := tr_offset tr smod LOWOFFSET_RANGE,
      ar_totalSize := tr_totalSize tr, ar_read := tr_read tr, ar_traceFileID := tr_traceFileID tr,
      getApp := tr_applicationID tr, ar_sync := tr_sync tr\<rparr>"

section \<open>WindowBasedTrace\<close>

definition SW_NULL :: int where "SW_NULL = 0"
definition SW_RECEIVED :: int where "SW_RECEIVED = -1"
definition SW_SENT :: int where "SW_SENT = -2"
definition MAX_WINDOW_SIZE :: int where "MAX_WINDOW_SIZE = JOB_MAXSIZE"

lemmas sw_defs = SW_NULL_def SW_RECEIVED_def SW_SENT_def

datatype trace_status = INVALID | NEED_WAIT | MORE_TO_SEND | ALL_DONE

record wtrace = itrace +
  wt_layout :: bool
  dsoffsets :: "int \<Rightarrow> int"
  dataSizeInWindow :: "int \<Rightarrow> int"
  sentPktSize :: "int \<Rightarrow> int"
  unProcessedSize :: int
  aggregateSize :: int
  offset_start_server :: int
  offset_start_position :: int
  totalSubreqsInWindow :: int

definition WindowBasedTrace_new :: "wtrace \<Rightarrow> wtrace" where
  "WindowBasedTrace_new mem = mem\<lparr>tr_ID := -1\<rparr>"

definition wt_initialize ::
  "int \<Rightarrow> real \<Rightarrow> int \<Rightarrow> int \<Rightarrow> int \<Rightarrow> int \<Rightarrow> int \<Rightarrow> int \<Rightarrow> int \<Rightarrow> wtrace \<Rightarrow> wtrace" where
  "wt_initialize tid t fid off s r tfid appid syn tr =
    tr\<lparr>tr_ID := tid, tr_startTime := t, tr_pfsFileID := fid, tr_offset := off, tr_totalSize := s,
       tr_read := r, tr_traceFileID := tfid, tr_applicationID := appid, tr_sync := syn, unProcessedSize := s\<rparr>"

definition wt_initialize_request :: "AppRequest \<Rightarrow> wtrace \<Rightarrow> wtrace" where
  "wt_initialize_request request tr =
    tr\<lparr>tr_ID := getID request, tr_startTime := ar_starttime request, tr_pfsFileID := ar_fileID request,
       tr_offset := ar_highoffset request * LOWOFFSET_RANGE + ar_lowoffset request,
       tr_totalSize := ar_totalSize request, tr_read := ar_read request,
       tr_traceFileID := ar_traceFileID request, tr_applicationID := getApp request,
       tr_sync := ar_sync request, unProcessedSize := ar_totalSize request\<rparr>"

definition wt_packet :: "layout \<Rightarrow> wtrace \<Rightarrow> int \<Rightarrow> int \<Rightarrow> gPacket" where
  "wt_packet lo tr i dsid =
    new_gPacket\<lparr>getLowoffset := dsoffsets tr i smod LOWOFFSET_RANGE,
      getHighoffset := dsoffsets tr i sdiv LOWOFFSET_RANGE,
      getSize := to_int32 (dataSizeInWindow tr i), getRead := tr_read tr, getFileId := tr_pfsFileID tr,
      getAggregateSize := aggregateSize tr, getSubID := tr_ID tr, getApp := tr_applicationID tr,
      getDsID := dsid, getTotalsubreqs := totalSubreqsInWindow tr\<rparr>"

definition getNextgPacketFromWindow :: "layout \<Rightarrow> wtrace \<Rightarrow> (gPacket option \<times> wtrace) res" where
  "getNextgPacketFromWindow lo tr =
    (if \<not> wt_layout tr then Inl (Abort ''Trace'')
     else case find (\<lambda>i. dataSizeInWindow tr i > 0) [0..serverNum lo - 1] of
       None \<Rightarrow> Inr (None, tr)
     | Some i \<Rightarrow> bindR (getServerID lo i) (\<lambda>dsid.
         Inr (Some (wt_packet lo tr i dsid),
              tr\<lparr>sentPktSize := (sentPktSize tr)(i := dataSizeInWindow tr i),
                 dataSizeInWindow := (dataSizeInWindow tr)(i := SW_SENT)\<rparr>)))"

text \<open>
  The loop that deals the bytes of a window out to the servers. It returns when nothing
  is left; with a layout whose stripe sizes are all 0 it would not, which is the fault
  \<open>Diverge\<close> when the fuel is used up.
\<close>

fun wt_deal ::
  "nat \<Rightarrow> layout \<Rightarrow> int \<Rightarrow> int \<Rightarrow> int \<Rightarrow> bool \<Rightarrow> int \<Rightarrow> (int \<Rightarrow> int) \<Rightarrow> (int \<Rightarrow> int) res" where
  "wt_deal 0 lo st pos i firsttime left sizes = Inl (Diverge ''WindowBasedTrace::openNewWindow'')"
| "wt_deal (Suc n) lo st pos i firsttime left sizes =
    (let i = (if i = serverNum lo then 0 else i)
     in if left = 0 then Inr sizes
        else bindR (getServerStripeSize lo i) (\<lambda>stripe.
          let inc = (if i = st \<and> firsttime then stripe - pos else stripe);
              firsttime' = (if i = st \<and> firsttime then False else firsttime)
          in if inc < left
             then wt_deal n lo st pos (i + 1) firsttime' (left - inc) (sizes(i := sizes i + inc))
             else wt_deal n lo st pos (i + 1) firsttime' 0 (sizes(i := sizes i + left))))"

text \<open>
  At most one stripe may be empty or shortened at each turn, and a round over the servers
  deals out at least one byte: with \<open>n\<close> servers, \<open>n\<close> turns for each byte and two more
  rounds are enough.
\<close>

definition deal_fuel :: "layout \<Rightarrow> int \<Rightarrow> nat" where
  "deal_fuel lo left = nat (serverNum lo) * nat (left + 2) + 2"

definition openNewWindow :: "layout \<Rightarrow> wtrace \<Rightarrow> (bool \<times> wtrace) res" where
  "openNewWindow lo tr =
    (if \<not> wt_layout tr then Inl (Abort ''Trace'')
     else if unProcessedSize tr = 0 then Inr (False, tr)
     else
      let agg = (if unProcessedSize tr > MAX_WINDOW_SIZE then MAX_WINDOW_SIZE else unProcessedSize tr);
          rest = (if unProcessedSize tr > MAX_WINDOW_SIZE then unProcessedSize tr - MAX_WINDOW_SIZE else 0);
          sizes = fold (\<lambda>i d. d(i := SW_NULL)) [0..serverNum lo - 1] (dataSizeInWindow tr)
      in bindR (wt_deal (deal_fuel lo agg) lo (offset_start_server tr) (offset_start_position tr)
                  (offset_start_server tr) True agg sizes) (\<lambda>sizes.
         Inr (True, tr\<lparr>aggregateSize := agg, unProcessedSize := rest, dataSizeInWindow := sizes,
           totalSubreqsInWindow := int (length [0..serverNum lo - 1])\<rparr>)))"

definition nextgPacket :: "layout \<Rightarrow> wtrace \<Rightarrow> (gPacket option \<times> wtrace) res" where
  "nextgPacket lo tr =
    (if \<not> wt_layout tr then Inl (Abort ''Trace'')
     else if fst (getWindowSize lo) = 0 then Inl (Abort ''Trace'')
     else bindR (getNextgPacketFromWindow lo tr) (\<lambda>(packet, tr).
       if packet \<noteq> None then Inr (packet, tr)
       else if \<exists>i\<in>set [0..serverNum lo - 1]. dataSizeInWindow tr i = SW_SENT then Inr (None, tr)
       else bindR (openNewWindow lo tr) (\<lambda>(opened, tr).
         if \<not> opened then Inr (None, tr) else getNextgPacketFromWindow lo tr)))"

definition finishedgPacket :: "layout \<Rightarrow> gPacket \<Rightarrow> wtrace \<Rightarrow> (trace_status \<times> wtrace) res" where
  "finishedgPacket lo gpkt tr =
    (let serverindex = findServerIndex lo (getDsID gpkt)
     in if serverindex < 0 then Inl (Abort ''Trace'')
        else
          let tr = tr\<lparr>dataSizeInWindow := (dataSizeInWindow tr)(serverindex := SW_RECEIVED),
                 dsoffsets := (dsoffsets tr)(serverindex := dsoffsets tr serverindex + sentPktSize tr serverindex)\<rparr>
          in if \<exists>i\<in>set [0..serverNum lo - 1]. dataSizeInWindow tr i > 0 \<or> dataSizeInWindow tr i = SW_SENT
             then Inr (NEED_WAIT, tr)
             else if unProcessedSize tr = 0 then Inr (ALL_DONE, tr)
             else Inr (MORE_TO_SEND, tr))"

text \<open>One turn of the first loop of \<^verbatim>\<open>setLayout\<close>, with the variable \<^verbatim>\<open>remainder\<close>.\<close>

definition wt_start_at :: "layout \<Rightarrow> int \<Rightarrow> int \<Rightarrow> int \<times> wtrace \<Rightarrow> (int \<times> wtrace) res" where
  "wt_start_at lo jumps i s =
    (case s of (remainder, tr) \<Rightarrow>
      bindR (getServerStripeSize lo i) (\<lambda>stripe.
      let tr = tr\<lparr>dsoffsets := (dsoffsets tr)(i := jumps * stripe)\<rparr>
      in if remainder \<noteq> -1 then
           if remainder \<le> stripe then
             Inr (-1, tr\<lparr>offset_start_server := i, offset_start_position := remainder,
                         dsoffsets := (dsoffsets tr)(i := dsoffsets tr i + remainder)\<rparr>)
           else Inr (remainder - stripe, tr\<lparr>dsoffsets := (dsoffsets tr)(i := dsoffsets tr i + stripe)\<rparr>)
         else Inr (remainder, tr)))"

definition wt_setLayout :: "layout \<Rightarrow> wtrace \<Rightarrow> wtrace res" where
  "wt_setLayout lo tr =
    (let tr = tr\<lparr>wt_layout := True\<rparr>; ws = fst (getWindowSize lo)
     in if ws = 0 then Inl (DivByZero ''WindowBasedTrace::setLayout'')
        else bindR (run_res (wt_start_at lo (tr_offset tr sdiv ws)) [0..serverNum lo - 1] (tr_offset tr smod ws, tr))
          (\<lambda>(remainder, tr).
          bindR (openNewWindow lo
                  (tr\<lparr>dataSizeInWindow := fold (\<lambda>i d. d(i := SW_NULL)) [0..serverNum lo - 1] (dataSizeInWindow tr)\<rparr>))
            (\<lambda>(opened, tr). Inr tr)))"

text \<open>
  A trace survives being sent as a request: whatever the trace, also one with a
  negative offset, \<^verbatim>\<open>createAppRequest\<close> followed by \<^verbatim>\<open>initialize(request)\<close> gives a trace with
  the same identity, file, application, start time and size, with the offset put together
  again from its two halves; the low half is below \<^verbatim>\<open>LOWOFFSET_RANGE\<close> in size. A window
  based trace made of the request has the same values, and all of its size is unprocessed.
\<close>

theorem request_roundtrip:
  "let request = createAppRequest tr; tr' = it_initialize_request request mem;
       w = wt_initialize_request request (WindowBasedTrace_new wmem)
   in tr' = mem\<lparr>tr_ID := tr_ID tr, tr_offset := tr_offset tr, tr_totalSize := tr_totalSize tr, tr_read := tr_read tr,
        tr_applicationID := tr_applicationID tr, tr_startTime := tr_startTime tr, tr_finishTime := 0,
        tr_earliestSubrequestFinishTime := -1, tr_sync := tr_sync tr, tr_traceFileID := tr_traceFileID tr,
        tr_pfsFileID := tr_pfsFileID tr\<rparr> \<and>
      \<bar>ar_lowoffset request\<bar> < LOWOFFSET_RANGE \<and>
      tr_ID w = tr_ID tr \<and> tr_offset w = tr_offset tr \<and> tr_totalSize w = tr_totalSize tr \<and>
      tr_pfsFileID w = tr_pfsFileID tr \<and> unProcessedSize w = tr_totalSize tr"
proof -
  have "tr_offset tr sdiv LOWOFFSET_RANGE * LOWOFFSET_RANGE + tr_offset tr smod LOWOFFSET_RANGE = tr_offset tr"
    by (rule sdiv_mult_smod_eq)
  moreover have "\<bar>tr_offset tr smod LOWOFFSET_RANGE\<bar> < LOWOFFSET_RANGE"
    by (simp add: signed_modulo_int_def LOWOFFSET_RANGE_def abs_mult)
  ultimately show ?thesis
    by (simp add: Let_def createAppRequest_def it_initialize_request_def wt_initialize_request_def
        WindowBasedTrace_new_def new_AppRequest_def)
qed

end
