(* ===== verification/Striping.thy ===== *)
theory Striping
  imports Trace
begin

text \<open>
  What a striped file is, independently of the code of \<open>Trace\<close>: the byte \<open>x\<close> of a file
  lies on the server in whose stripe \<open>x mod W\<close> falls, where \<open>W\<close> is the window size, and
  the bytes of one server are stored there one after the other.
\<close>

definition striped :: "layout \<Rightarrow> bool" where
  "striped lo \<longleftrightarrow> layout_ok lo \<and> 0 < serverNum lo \<and> 0 < windowSize lo \<and>
     (\<forall>i. 0 \<le> i \<and> i < serverNum lo \<longrightarrow> 0 \<le> serverStripeSizes lo i) \<and>
     inj_on (serverList lo) {0..<serverNum lo}"

definition stripe_start :: "layout \<Rightarrow> int \<Rightarrow> int" where
  "stripe_start lo i = (\<Sum>j\<in>{0..<i}. serverStripeSizes lo j)"

definition stripe_server :: "layout \<Rightarrow> int \<Rightarrow> int option" where
  "stripe_server lo x = find (\<lambda>i. x mod windowSize lo < stripe_start lo (i + 1)) [0..serverNum lo - 1]"

text \<open>How many of the first \<open>b\<close> bytes of the file lie on server \<open>i\<close>.\<close>

definition bytes_below :: "layout \<Rightarrow> int \<Rightarrow> int \<Rightarrow> int" where
  "bytes_below lo i b = int (length (filter (\<lambda>x. stripe_server lo x = Some i) [0..b - 1]))"

definition below_formula :: "layout \<Rightarrow> int \<Rightarrow> int \<Rightarrow> int" where
  "below_formula lo i b = (b div windowSize lo) * serverStripeSizes lo i +
     max 0 (min (serverStripeSizes lo i) (b mod windowSize lo - stripe_start lo i))"

lemma stripedD:
  assumes "striped lo"
  shows "0 < serverNum lo" "serverNum lo \<le> MAX_DS" "0 < windowSize lo"
    and "\<And>i. 0 \<le> i \<Longrightarrow> i < serverNum lo \<Longrightarrow> 0 \<le> serverStripeSizes lo i"
    and "windowSize lo = stripe_start lo (serverNum lo)"
    and "\<And>i. 0 \<le> i \<Longrightarrow> i < serverNum lo \<Longrightarrow> getServerStripeSize lo i = Inr (serverStripeSizes lo i)"
    and "\<And>i. 0 \<le> i \<Longrightarrow> i < serverNum lo \<Longrightarrow> getServerID lo i = Inr (serverList lo i)"
    and "getWindowSize lo = (windowSize lo, lo)"
    and "\<And>i. 0 \<le> i \<Longrightarrow> i < serverNum lo \<Longrightarrow> findServerIndex lo (serverList lo i) = i"
  using assms getWindowSize_ok [of lo] findServerIndex_Some [of _ lo]
  by (auto simp: striped_def layout_ok_def stripe_start_def getServerStripeSize_def getServerID_def)

lemma stripe_start_Suc:
  "0 \<le> i \<Longrightarrow> stripe_start lo (i + 1) = stripe_start lo i + serverStripeSizes lo i"
  by (simp add: stripe_start_def sum_upto_last)

lemma stripe_start_0 [simp]: "stripe_start lo 0 = 0"
  by (simp add: stripe_start_def)

lemma stripe_start_mono:
  assumes "striped lo" "0 \<le> i" "i \<le> j" "j \<le> serverNum lo"
  shows "stripe_start lo i \<le> stripe_start lo j"
  unfolding stripe_start_def
  using assms stripedD(4) [OF assms(1)] by (intro sum_mono2) auto

lemma stripe_start_next:
  assumes "striped lo" "0 \<le> i" "i < j" "j \<le> serverNum lo"
  shows "stripe_start lo i + serverStripeSizes lo i \<le> stripe_start lo j"
  using stripe_start_mono [of lo "i + 1" j] stripe_start_Suc [of i lo] assms by simp

lemma stripe_start_range:
  assumes "striped lo" "0 \<le> i" "i \<le> serverNum lo"
  shows "0 \<le> stripe_start lo i" "stripe_start lo i \<le> windowSize lo"
  using stripe_start_mono [of lo 0 i] stripe_start_mono [of lo i "serverNum lo"] stripedD(5) [OF assms(1)] assms
  by auto

lemma below_formula_at:
  assumes "striped lo" "0 \<le> j" "j < serverNum lo" "0 \<le> r" "r \<le> windowSize lo"
  shows "below_formula lo j (windowSize lo * q + r) =
    q * serverStripeSizes lo j + max 0 (min (serverStripeSizes lo j) (r - stripe_start lo j))"
proof (cases "r = windowSize lo")
  case True
  have "stripe_start lo j + serverStripeSizes lo j \<le> windowSize lo"
    using stripe_start_next [of lo j "serverNum lo"] stripedD(5) [OF assms(1)] assms by simp
  moreover have "windowSize lo * q + r = windowSize lo * (q + 1)" using True by (simp add: distrib_left)
  moreover have "0 \<le> serverStripeSizes lo j" "0 \<le> stripe_start lo j"
    using stripedD(4) [OF assms(1)] stripe_start_range [OF assms(1)] assms(2,3) by auto
  ultimately show ?thesis using True stripedD(3) [OF assms(1)]
    by (simp add: below_formula_def algebra_simps)
next
  case False
  with assms stripedD(3) [OF assms(1)] show ?thesis
    by (simp add: below_formula_def div_pos_pos_trivial mod_pos_pos_trivial)
qed

lemma below_formula_move:
  assumes "striped lo" "0 \<le> i" "i < serverNum lo" "0 \<le> j" "j < serverNum lo"
    and "0 \<le> d" "d \<le> e" "e \<le> serverStripeSizes lo i"
  shows "below_formula lo j (windowSize lo * q + stripe_start lo i + e) =
    below_formula lo j (windowSize lo * q + stripe_start lo i + d) + (if j = i then e - d else 0)"
proof -
  have le: "stripe_start lo i + serverStripeSizes lo i \<le> windowSize lo"
    using stripe_start_next [of lo i "serverNum lo"] stripedD(5) [OF assms(1)] assms by simp
  have s: "0 \<le> stripe_start lo i" "0 \<le> serverStripeSizes lo j" "0 \<le> stripe_start lo j"
    using stripe_start_range [OF assms(1)] stripedD(4) [OF assms(1)] assms by auto
  have "j < i \<Longrightarrow> stripe_start lo j + serverStripeSizes lo j \<le> stripe_start lo i"
    and "i < j \<Longrightarrow> stripe_start lo i + serverStripeSizes lo i \<le> stripe_start lo j"
    using stripe_start_next [of lo j i] stripe_start_next [of lo i j] assms by auto
  with below_formula_at [OF assms(1,4,5), of "stripe_start lo i + e" q]
    below_formula_at [OF assms(1,4,5), of "stripe_start lo i + d" q] assms le s
  show ?thesis by (cases j i rule: linorder_cases) (auto simp: add.assoc)
qed

text \<open>Every byte lies in one stripe.\<close>

lemma stripe_server_Some:
  assumes "striped lo" "0 \<le> x"
  obtains i where "stripe_server lo x = Some i" "0 \<le> i" "i < serverNum lo"
    "stripe_start lo i \<le> x mod windowSize lo"
    "x mod windowSize lo < stripe_start lo i + serverStripeSizes lo i"
proof (cases "stripe_server lo x")
  case None
  have "x mod windowSize lo < windowSize lo" using stripedD(3) [OF assms(1)] by simp
  moreover have "serverNum lo - 1 \<in> set [0..serverNum lo - 1]" using stripedD(1) [OF assms(1)] by simp
  moreover have "\<not> (\<exists>i. i \<in> set [0..serverNum lo - 1] \<and> x mod windowSize lo < stripe_start lo (i + 1))"
    using None by (simp only: stripe_server_def find_None_iff not_False_eq_True)
  ultimately have False using stripedD(5) [OF assms(1)] by (metis diff_add_cancel)
  then show ?thesis ..
next
  case (Some i)
  then obtain k where k: "k < length [0..serverNum lo - 1]" "i = [0..serverNum lo - 1] ! k"
    "x mod windowSize lo < stripe_start lo (i + 1)"
    "\<forall>j<k. \<not> x mod windowSize lo < stripe_start lo ([0..serverNum lo - 1] ! j + 1)"
    by (auto simp: stripe_server_def find_Some_iff)
  then have ik: "i = int k" "i < serverNum lo" by (auto simp: nth_upto)
  have "stripe_start lo i \<le> x mod windowSize lo"
  proof (cases k)
    case 0
    with ik assms stripedD(3) [OF assms(1)] show ?thesis by simp
  next
    case (Suc j)
    with k(1,4) have "\<not> x mod windowSize lo < stripe_start lo (int j + 1)" by (auto simp: nth_upto)
    with ik Suc show ?thesis by (simp add: add.commute)
  qed
  with that Some k(3) ik stripe_start_Suc [of i lo] show ?thesis by simp
qed

text \<open>The closed form counts the bytes.\<close>

lemma bytes_below_formula:
  assumes "striped lo" "0 \<le> j" "j < serverNum lo" "0 \<le> b"
  shows "bytes_below lo j b = below_formula lo j b"
  using \<open>0 \<le> b\<close>
proof (induction b rule: int_ge_induct)
  case base
  have "0 \<le> stripe_start lo j" "0 \<le> serverStripeSizes lo j"
    using stripe_start_range [OF assms(1)] stripedD(4) [OF assms(1)] assms(2,3) by auto
  with below_formula_at [of lo j 0 0] assms stripedD(3) [OF assms(1)] show ?case
    by (simp add: bytes_below_def)
next
  case (step b)
  obtain i where i: "stripe_server lo b = Some i" "0 \<le> i" "i < serverNum lo"
    "stripe_start lo i \<le> b mod windowSize lo"
    "b mod windowSize lo < stripe_start lo i + serverStripeSizes lo i"
    using stripe_server_Some [OF assms(1) step.hyps] .
  let ?d = "b mod windowSize lo - stripe_start lo i" and ?q = "b div windowSize lo"
  have b: "windowSize lo * ?q + stripe_start lo i + ?d = b" by simp
  have "below_formula lo j (windowSize lo * ?q + stripe_start lo i + (?d + 1)) =
      below_formula lo j (windowSize lo * ?q + stripe_start lo i + ?d) + (if j = i then 1 else 0)"
    using below_formula_move [OF assms(1) i(2,3) assms(2,3), of ?d "?d + 1" ?q] i by simp
  then have "below_formula lo j (b + 1) = below_formula lo j b + (if j = i then 1 else 0)"
    by (simp only: b add.assoc [symmetric])
  moreover have "bytes_below lo j (b + 1) = bytes_below lo j b + (if j = i then 1 else 0)"
    using upto_last [OF step.hyps] i(1) by (simp add: bytes_below_def)
  ultimately show ?case using step.IH by simp
qed

lemma bytes_below_move:
  assumes "striped lo" "0 \<le> i" "i < serverNum lo" "0 \<le> j" "j < serverNum lo" "0 \<le> q"
    and "0 \<le> d" "d \<le> e" "e \<le> serverStripeSizes lo i"
  shows "bytes_below lo j (windowSize lo * q + stripe_start lo i + e) =
    bytes_below lo j (windowSize lo * q + stripe_start lo i + d) + (if j = i then e - d else 0)"
proof -
  have "0 \<le> windowSize lo * q + stripe_start lo i"
    using stripedD(3) [OF assms(1)] stripe_start_range [OF assms(1)] assms by simp
  with below_formula_move [OF assms(1-5,7-9), of q] assms show ?thesis
    by (simp add: bytes_below_formula)
qed

lemma bytes_below_mono:
  assumes "0 \<le> a" "a \<le> b"
  shows "bytes_below lo i a \<le> bytes_below lo i b" "bytes_below lo i b - bytes_below lo i a \<le> b - a"
proof -
  have "[0..b - 1] = [0..a - 1] @ [a..b - 1]" using upto_split1 [of 0 a "b - 1"] assms
    by (cases "a = b") auto
  then show "bytes_below lo i a \<le> bytes_below lo i b" "bytes_below lo i b - bytes_below lo i a \<le> b - a"
    using length_filter_le [of "\<lambda>x. stripe_server lo x = Some i" "[a..b - 1]"] assms
    by (auto simp: bytes_below_def)
qed

end
