(* ===== verification/TraceRun.thy ===== *)
theory TraceRun
  imports Striping
begin

text \<open>
  The window loop of \<^verbatim>\<open>trace/WindowBasedTrace.cc\<close> against the striping of \<open>Striping\<close>:
  which bytes a packet of a trace asks for, over any interleaving of sends and replies.
\<close>

section \<open>Dealing out a window\<close>

lemma wt_deal_done: "0 < fuel \<Longrightarrow> wt_deal fuel lo st pos i firsttime 0 sizes = Inr sizes"
  by (cases fuel) simp_all

lemma slot_count:
  assumes "0 < W" "W * q \<le> c" "0 \<le> left" "(i::int) \<le> n" "0 \<le> n"
  shows "n * q + i \<le> n * ((c + left) div W + 1)"
proof -
  have "W * q div W \<le> (c + left) div W" using assms by (intro zdiv_mono1) auto
  with assms have "q \<le> (c + left) div W" by simp
  from mult_left_mono [OF this assms(5)] have "n * q \<le> n * ((c + left) div W)" .
  with assms(4) show ?thesis by (simp add: distrib_left)
qed

lemma wt_deal_spec:
  assumes "striped lo" "0 \<le> i" "i \<le> serverNum lo" "0 \<le> q" "0 \<le> left"
    and "firsttime \<Longrightarrow> i = st \<and> i < serverNum lo \<and> p0 = pos" "\<not> firsttime \<Longrightarrow> p0 = 0"
    and "0 \<le> p0" "i < serverNum lo \<Longrightarrow> p0 \<le> serverStripeSizes lo i"
    and "c = windowSize lo * q + stripe_start lo i + p0"
    and "\<And>j. 0 \<le> j \<Longrightarrow> j < serverNum lo \<Longrightarrow> sizes j = bytes_below lo j c - b0 j"
    and "serverNum lo * ((c + left) div windowSize lo + 1) - (serverNum lo * q + i) < int fuel"
  shows "\<exists>sizes'. wt_deal fuel lo st pos i firsttime left sizes = Inr sizes' \<and>
    (\<forall>j. 0 \<le> j \<and> j < serverNum lo \<longrightarrow> sizes' j = bytes_below lo j (c + left) - b0 j)"
  using assms(2-)
proof (induction fuel arbitrary: i q left firsttime p0 c sizes)
  case 0
  have "windowSize lo * q \<le> c" using 0 stripe_start_range [OF assms(1)] by simp
  from slot_count [OF stripedD(3) [OF assms(1)] this, of left i "serverNum lo"]
    0 stripedD(1) [OF assms(1)] show ?case by simp
next
  case (Suc m)
  let ?n = "serverNum lo" and ?W = "windowSize lo"
  note n = stripedD(1) [OF assms(1)] and W = stripedD(3) [OF assms(1)]
  define i' where "i' = (if i = ?n then 0 else i)"
  define q' where "q' = (if i = ?n then q + 1 else q)"
  have "0 \<le> i' \<and> i' < ?n \<and> 0 \<le> q' \<and> c = ?W * q' + stripe_start lo i' + p0 \<and>
      ?n * q' + i' = ?n * q + i \<and> p0 \<le> serverStripeSizes lo i'"
  proof (cases "i = ?n")
    case True
    with Suc.prems(5,6) have "p0 = 0" by auto
    with True Suc.prems(3,9) n stripedD(4) [OF assms(1), of 0] stripedD(5) [OF assms(1), symmetric]
    show ?thesis unfolding i'_def q'_def by (simp add: distrib_left)
  next
    case False
    with Suc.prems(1-3,8,9) show ?thesis unfolding i'_def q'_def by simp
  qed
  then have i': "0 \<le> i'" "i' < ?n" "0 \<le> q'" and c': "c = ?W * q' + stripe_start lo i' + p0"
    and t': "?n * q' + i' = ?n * q + i" and p0: "p0 \<le> serverStripeSizes lo i'" by blast+
  note get = stripedD(6) [OF assms(1) i'(1,2)]
  show ?case
  proof (cases "left = 0")
    case True
    with Suc.prems show ?thesis by simp
  next
    case False
    let ?inc = "serverStripeSizes lo i' - p0"
    have inc: "(if i' = st \<and> firsttime then serverStripeSizes lo i' - pos else serverStripeSizes lo i') = ?inc"
      using Suc.prems(5,6) by (cases firsttime) (auto simp: i'_def)
    have first: "(if i' = st \<and> firsttime then False else firsttime) = False"
      using Suc.prems(5,6) by (cases firsttime) (auto simp: i'_def)
    have "?W * q' \<le> c" using c' Suc.prems(7) stripe_start_range [OF assms(1) i'(1)] i'(2) by simp
    from slot_count [OF W this, of left "i' + 1" ?n] Suc.prems(4) i'(2) n
    have fuel: "?n * q' + i' + 1 \<le> ?n * ((c + left) div ?W + 1)" by simp
    show ?thesis
    proof (cases "?inc < left")
      case True
      let ?sizes = "sizes(i' := sizes i' + ?inc)" and ?c = "c + ?inc"
      have c1: "?c = ?W * q' + stripe_start lo (i' + 1) + 0"
        using c' stripe_start_Suc [OF i'(1)] by simp
      have s1: "\<And>j. 0 \<le> j \<Longrightarrow> j < ?n \<Longrightarrow> ?sizes j = bytes_below lo j ?c - b0 j"
        using bytes_below_move [OF assms(1) i'(1,2) _ _ i'(3) Suc.prems(7) p0] Suc.prems(10) c'
        by (simp add: add.assoc)
      have "serverNum lo * ((?c + (left - ?inc)) div ?W + 1) - (?n * q' + (i' + 1)) < int m"
        using Suc.prems(11) t' by simp
      from Suc.IH [OF _ _ i'(3) _ _ _ _ _ c1 s1 this, of False] i' True p0
      obtain sizes' where "wt_deal m lo st pos (i' + 1) False (left - ?inc) ?sizes = Inr sizes'"
        "\<forall>j. 0 \<le> j \<and> j < ?n \<longrightarrow> sizes' j = bytes_below lo j (c + left) - b0 j"
        using stripedD(4) [OF assms(1)] by fastforce
      with False True get inc first show ?thesis by (simp add: i'_def [symmetric] Let_def)
    next
      case inc_ge: False
      let ?sizes = "sizes(i' := sizes i' + left)"
      from fuel Suc.prems(11) t' have "0 < m" by simp
      have s1: "\<And>j. 0 \<le> j \<Longrightarrow> j < ?n \<Longrightarrow> ?sizes j = bytes_below lo j (c + left) - b0 j"
        using bytes_below_move [OF assms(1) i'(1,2) _ _ i'(3) Suc.prems(7), of _ "p0 + left"] Suc.prems(10) c'
          Suc.prems(4) inc_ge by (simp add: add.assoc)
      from False inc_ge get inc first wt_deal_done [OF \<open>0 < m\<close>] s1 show ?thesis
        by (simp add: i'_def [symmetric] Let_def)
    qed
  qed
qed

section \<open>The start of a trace\<close>

definition same_but_start :: "wtrace \<Rightarrow> wtrace \<Rightarrow> bool" where
  "same_but_start tr tr' \<longleftrightarrow> tr'\<lparr>dsoffsets := dsoffsets tr, offset_start_server := offset_start_server tr,
     offset_start_position := offset_start_position tr\<rparr> = tr"

lemma same_but_start_simps [simp]:
  "same_but_start tr tr"
  "same_but_start tr (tr'\<lparr>dsoffsets := d\<rparr>) = same_but_start tr tr'"
  "same_but_start tr (tr'\<lparr>offset_start_server := i\<rparr>) = same_but_start tr tr'"
  "same_but_start tr (tr'\<lparr>offset_start_position := p\<rparr>) = same_but_start tr tr'"
  by (simp_all add: same_but_start_def)

definition started :: "layout \<Rightarrow> int \<Rightarrow> int \<Rightarrow> int \<Rightarrow> wtrace \<Rightarrow> int \<times> wtrace \<Rightarrow> bool" where
  "started lo jumps r k tr s \<longleftrightarrow>
    (case s of (rem, tr') \<Rightarrow> same_but_start tr tr' \<and>
      (\<forall>j. 0 \<le> j \<and> j < k \<longrightarrow> dsoffsets tr' j = jumps * serverStripeSizes lo j +
        max 0 (min (serverStripeSizes lo j) (r - stripe_start lo j))) \<and>
      (if rem = -1 then 0 \<le> offset_start_server tr' \<and> offset_start_server tr' < k \<and>
         offset_start_position tr' = r - stripe_start lo (offset_start_server tr') \<and>
         0 \<le> offset_start_position tr' \<and>
         offset_start_position tr' \<le> serverStripeSizes lo (offset_start_server tr')
       else rem = r - stripe_start lo k \<and> 0 \<le> rem))"

lemma less_Suc_int: "(j::int) < k + 1 \<longleftrightarrow> j < k \<or> j = k"
  by auto

lemma wt_start_step:
  assumes "striped lo" "0 \<le> k" "k < serverNum lo" "started lo jumps r k tr s"
  shows "\<exists>s'. wt_start_at lo jumps k s = Inr s' \<and> started lo jumps r (k + 1) tr s'"
proof -
  obtain rem tr1 where s: "s = (rem, tr1)" by (cases s)
  note st = assms(4) [unfolded started_def s prod.case]
  let ?s = "serverStripeSizes lo k"
  have nonneg: "0 \<le> ?s" using stripedD(4) [OF assms(1-3)] .
  note get = stripedD(6) [OF assms(1-3)] and Suc = stripe_start_Suc [OF assms(2), of lo]
  consider (found) "rem = -1" | (here) "rem \<noteq> -1" "rem \<le> ?s" | (skip) "rem \<noteq> -1" "\<not> rem \<le> ?s" by blast
  then show ?thesis
  proof cases
    case found
    with st have "r - stripe_start lo k \<le> 0"
      using stripe_start_next [OF assms(1), of "offset_start_server tr1" k] assms(3) by simp
    with found st nonneg show ?thesis
      by (simp add: s wt_start_at_def get Let_def started_def less_Suc_int)
  next
    case here
    with st nonneg show ?thesis
      by (simp add: s wt_start_at_def get Let_def started_def less_Suc_int assms(2))
  next
    case skip
    with st nonneg Suc show ?thesis
      by (simp add: s wt_start_at_def get Let_def started_def less_Suc_int)
  qed
qed

lemma wt_start_run:
  assumes "striped lo" "0 \<le> k" "k \<le> serverNum lo" "0 \<le> r"
  shows "\<exists>s. run_res (wt_start_at lo jumps) [0..k - 1] (r, tr) = Inr s \<and> started lo jumps r k tr s"
  using assms(2,3)
proof (induction k rule: int_ge_induct)
  case base
  show ?case using assms(4) by (simp add: started_def)
next
  case (step k)
  then obtain s where s: "run_res (wt_start_at lo jumps) [0..k - 1] (r, tr) = Inr s" "started lo jumps r k tr s"
    by auto
  from wt_start_step [OF assms(1) step.hyps _ s(2)] step.prems obtain s'
    where "wt_start_at lo jumps k s = Inr s'" "started lo jumps r (k + 1) tr s'" by auto
  with s upto_last [OF step.hyps] show ?case by (simp add: run_res_append)
qed

text \<open>Where the first byte of the window lies, and the window that is opened there.\<close>

definition wt_cursor :: "layout \<Rightarrow> wtrace \<Rightarrow> int \<Rightarrow> bool" where
  "wt_cursor lo tr c \<longleftrightarrow> 0 \<le> offset_start_server tr \<and> offset_start_server tr < serverNum lo \<and>
     0 \<le> offset_start_position tr \<and> offset_start_position tr \<le> serverStripeSizes lo (offset_start_server tr) \<and>
     (\<exists>q\<ge>0. c = windowSize lo * q + stripe_start lo (offset_start_server tr) + offset_start_position tr)"

lemma fold_clear: "fold (\<lambda>i d. d(i := (z::int))) xs d = (\<lambda>i. if i \<in> set xs then z else d i)"
  by (induction xs arbitrary: d) auto

lemma openNewWindow_spec:
  assumes "striped lo" "wt_layout tr" "wt_cursor lo tr c" "0 < unProcessedSize tr"
  obtains sizes agg where "agg = min MAX_WINDOW_SIZE (unProcessedSize tr)" "0 < agg"
    "openNewWindow lo tr = Inr (True, tr\<lparr>aggregateSize := agg, unProcessedSize := unProcessedSize tr - agg,
       dataSizeInWindow := sizes, totalSubreqsInWindow := serverNum lo\<rparr>)"
    "\<And>j. 0 \<le> j \<Longrightarrow> j < serverNum lo \<Longrightarrow> sizes j = bytes_below lo j (c + agg) - bytes_below lo j c"
proof -
  let ?st = "offset_start_server tr" and ?pos = "offset_start_position tr" and ?n = "serverNum lo" and ?W = "windowSize lo"
  define agg where "agg = (if unProcessedSize tr > MAX_WINDOW_SIZE then MAX_WINDOW_SIZE else unProcessedSize tr)"
  have agg: "agg = min MAX_WINDOW_SIZE (unProcessedSize tr)" "0 < agg"
    using assms(4) by (auto simp: agg_def MAX_WINDOW_SIZE_def JOB_MAXSIZE_def)
  have rest: "(if unProcessedSize tr > MAX_WINDOW_SIZE then unProcessedSize tr - MAX_WINDOW_SIZE else 0) = unProcessedSize tr - agg"
    by (simp add: agg_def)
  let ?clr = "fold (\<lambda>i d. d(i := SW_NULL)) [0..?n - 1] (dataSizeInWindow tr)"
  from assms(3) obtain q where q: "0 \<le> q" "c = ?W * q + stripe_start lo ?st + ?pos"
    and st: "0 \<le> ?st" "?st < ?n" "0 \<le> ?pos" "?pos \<le> serverStripeSizes lo ?st" by (auto simp: wt_cursor_def)
  note n = stripedD(1) [OF assms(1)] and W = stripedD(3) [OF assms(1)]
  have "stripe_start lo ?st + serverStripeSizes lo ?st \<le> ?W"
    using stripe_start_next [OF assms(1) st(1,2)] stripedD(5) [OF assms(1)] by simp
  then have "c + agg \<le> ?W * (q + 1) + agg" using q st by (simp add: distrib_left)
  also have "\<dots> \<le> ?W * (q + 1 + agg)" using W agg(2) by (simp add: distrib_left)
  finally have "(c + agg) div ?W \<le> ?W * (q + 1 + agg) div ?W" using W by (intro zdiv_mono1) auto
  with W have "(c + agg) div ?W \<le> q + 1 + agg" by simp
  from mult_left_mono [OF this, of ?n] n have "?n * ((c + agg) div ?W) \<le> ?n * (q + 1 + agg)" by simp
  moreover have "int (deal_fuel lo agg) = ?n * (agg + 2) + 2" using n agg(2) by (simp add: deal_fuel_def)
  ultimately have fuel: "?n * ((c + agg) div ?W + 1) - (?n * q + ?st) < int (deal_fuel lo agg)"
    using st by (simp add: algebra_simps)
  obtain sizes where sizes: "wt_deal (deal_fuel lo agg) lo ?st ?pos ?st True agg ?clr = Inr sizes"
    "\<And>j. 0 \<le> j \<Longrightarrow> j < ?n \<Longrightarrow> sizes j = bytes_below lo j (c + agg) - bytes_below lo j c"
    using wt_deal_spec [OF assms(1) st(1) _ q(1) _ _ _ st(3) st(4) q(2), of agg True ?st ?pos ?clr "\<lambda>j. bytes_below lo j c"
        "deal_fuel lo agg"] st agg(2) fuel by (auto simp: fold_clear SW_NULL_def)
  show ?thesis
    by (rule that [OF agg, of sizes]) (use assms(2,4) sizes n in \<open>auto simp: openNewWindow_def agg_def [symmetric] rest Let_def\<close>)
qed

section \<open>The window of a trace\<close>

text \<open>A slot of the window: not asked for yet (or nothing to ask), asked for, or replied.\<close>

definition slot_ok :: "layout \<Rightarrow> wtrace \<Rightarrow> int \<Rightarrow> int \<Rightarrow> bool" where
  "slot_ok lo tr c i \<longleftrightarrow>
    (let need = bytes_below lo i (c + aggregateSize tr) - bytes_below lo i c
     in dataSizeInWindow tr i = need \<and> dsoffsets tr i = bytes_below lo i c
      \<or> dataSizeInWindow tr i = SW_SENT \<and> sentPktSize tr i = need \<and> dsoffsets tr i = bytes_below lo i c
      \<or> dataSizeInWindow tr i = SW_RECEIVED \<and> dsoffsets tr i = bytes_below lo i c + need)"

definition wt_inv :: "layout \<Rightarrow> int \<Rightarrow> int \<Rightarrow> wtrace \<Rightarrow> bool" where
  "wt_inv lo e c tr \<longleftrightarrow> wt_layout tr \<and> wt_cursor lo tr c \<and>
     0 < aggregateSize tr \<and> aggregateSize tr \<le> JOB_MAXSIZE \<and> 0 \<le> unProcessedSize tr \<and>
     c + aggregateSize tr + unProcessedSize tr = e \<and>
     (0 < unProcessedSize tr \<longrightarrow> windowSize lo dvd aggregateSize tr \<and> windowSize lo dvd JOB_MAXSIZE) \<and>
     (\<forall>i. 0 \<le> i \<and> i < serverNum lo \<longrightarrow> slot_ok lo tr c i)"

lemma wt_cursor_nonneg: "striped lo \<Longrightarrow> wt_cursor lo tr c \<Longrightarrow> 0 \<le> c"
  using stripedD(3) [of lo] stripe_start_range [of lo "offset_start_server tr"] by (auto simp: wt_cursor_def)

lemma wt_cursor_next:
  assumes "striped lo" "wt_cursor lo tr c" "windowSize lo dvd d" "0 \<le> d"
  shows "wt_cursor lo tr (c + d)"
proof -
  from assms(3) obtain k where k: "d = windowSize lo * k" by (rule dvdE)
  from assms(2) obtain q where "0 \<le> q"
    "c = windowSize lo * q + stripe_start lo (offset_start_server tr) + offset_start_position tr"
    by (auto simp: wt_cursor_def)
  moreover have "0 \<le> k" using k assms(4) stripedD(3) [OF assms(1)] by (simp add: zero_le_mult_iff)
  ultimately show ?thesis using assms(2) k
    by (auto simp: wt_cursor_def distrib_left intro!: exI [of _ "q + k"])
qed

text \<open>What an access to the layout has done to a fresh trace.\<close>

lemma wt_setLayout_inv:
  assumes "striped lo" "0 \<le> tr_offset tr" "0 < unProcessedSize tr"
    and "windowSize lo dvd JOB_MAXSIZE \<or> unProcessedSize tr \<le> JOB_MAXSIZE"
  obtains tr' where "wt_setLayout lo tr = Inr tr'" "wt_inv lo (tr_offset tr + unProcessedSize tr) (tr_offset tr) tr'"
    "\<And>i. 0 \<le> i \<Longrightarrow> i < serverNum lo \<Longrightarrow> 0 \<le> dataSizeInWindow tr' i \<and> dsoffsets tr' i = bytes_below lo i (tr_offset tr)"
proof -
  let ?W = "windowSize lo" and ?n = "serverNum lo" and ?off = "tr_offset tr"
  note n = stripedD(1) [OF assms(1)] and W = stripedD(3) [OF assms(1)]
  have div: "?off sdiv ?W = ?off div ?W" "?off smod ?W = ?off mod ?W"
    using sdiv_nonneg [OF assms(2) W] smod_nonneg [OF assms(2) W] by auto
  define tr0 where "tr0 = tr\<lparr>wt_layout := True\<rparr>"
  obtain rem tr1 where run: "run_res (wt_start_at lo (?off div ?W)) [0..?n - 1] (?off mod ?W, tr0) = Inr (rem, tr1)"
    and st: "started lo (?off div ?W) (?off mod ?W) ?n tr0 (rem, tr1)"
    using wt_start_run [OF assms(1), of ?n "?off mod ?W" "?off div ?W" tr0] n W by auto
  have "rem = -1" using st stripedD(5) [OF assms(1), symmetric] pos_mod_bound [OF W, of ?off]
    by (auto simp: started_def split: if_splits)
  note st = st [unfolded started_def this prod.case if_P [OF refl]]
  have off: "?off = ?W * (?off div ?W) + ?off mod ?W" by simp
  have cur: "wt_cursor lo tr1 ?off" unfolding wt_cursor_def
    using st assms(2) W off by (intro conjI exI [of _ "?off div ?W"]) (simp_all add: pos_imp_zdiv_nonneg_iff)
  have ds: "dsoffsets tr1 i = bytes_below lo i ?off" if "0 \<le> i" "i < ?n" for i
    using st that below_formula_at [OF assms(1) that, of "?off mod ?W" "?off div ?W"] pos_mod_bound [OF W, of ?off]
      bytes_below_formula [OF assms(1) that assms(2)] W by (simp add: less_imp_le)
  have tr1: "wt_layout tr1" "unProcessedSize tr1 = unProcessedSize tr"
    using arg_cong [where f = wt_layout, OF st [THEN conjunct1, unfolded same_but_start_def]]
      arg_cong [where f = unProcessedSize, OF st [THEN conjunct1, unfolded same_but_start_def]]
    by (simp_all add: tr0_def)
  define tr2 where "tr2 = tr1\<lparr>dataSizeInWindow := fold (\<lambda>i d. d(i := SW_NULL)) [0..?n - 1] (dataSizeInWindow tr1)\<rparr>"
  have tr2: "wt_layout tr2" "unProcessedSize tr2 = unProcessedSize tr" "wt_cursor lo tr2 ?off" "dsoffsets tr2 = dsoffsets tr1"
    using tr1 cur by (simp_all add: tr2_def wt_cursor_def)
  obtain sizes agg where agg: "agg = min MAX_WINDOW_SIZE (unProcessedSize tr)" "0 < agg"
    and op: "openNewWindow lo tr2 = Inr (True, tr2\<lparr>aggregateSize := agg, unProcessedSize := unProcessedSize tr - agg,
       dataSizeInWindow := sizes, totalSubreqsInWindow := ?n\<rparr>)"
    and sizes: "\<And>j. 0 \<le> j \<Longrightarrow> j < ?n \<Longrightarrow> sizes j = bytes_below lo j (?off + agg) - bytes_below lo j ?off"
    using openNewWindow_spec [OF assms(1) tr2(1,3)] tr2(2) assms(3) by metis
  let ?tr' = "tr2\<lparr>aggregateSize := agg, unProcessedSize := unProcessedSize tr - agg,
       dataSizeInWindow := sizes, totalSubreqsInWindow := ?n\<rparr>"
  have set: "wt_setLayout lo tr = Inr ?tr'"
    using W op [unfolded tr2_def] run [unfolded tr0_def] stripedD(8) [OF assms(1)]
    unfolding tr2_def by (simp add: wt_setLayout_def Let_def div)
  have dvd: "windowSize lo dvd agg \<and> windowSize lo dvd JOB_MAXSIZE" if "0 < unProcessedSize tr - agg"
    using assms(4) agg that by (auto simp: MAX_WINDOW_SIZE_def min_def split: if_splits)
  have slots: "slot_ok lo ?tr' ?off i" if "0 \<le> i" "i < ?n" for i
    using sizes [OF that] ds [OF that] tr2(4) by (simp add: slot_ok_def)
  have inv: "wt_inv lo (?off + unProcessedSize tr) ?off ?tr'"
    using tr2 agg dvd slots by (simp add: wt_inv_def wt_cursor_def MAX_WINDOW_SIZE_def)
  show ?thesis
    by (rule that [OF set inv]) (use sizes ds tr2(4) bytes_below_mono(1) [OF assms(2)] agg(2) in \<open>simp add: less_imp_le\<close>)
qed

section \<open>Sends and replies\<close>

definition goff :: "gPacket \<Rightarrow> int" where
  "goff p = getHighoffset p * LOWOFFSET_RANGE + getLowoffset p"

text \<open>The packets, one after the other, ask for the bytes from \<open>a\<close> to \<open>b\<close> of a server.\<close>

fun covers :: "int \<Rightarrow> gPacket list \<Rightarrow> int \<Rightarrow> bool" where
  "covers a [] b \<longleftrightarrow> a = b"
| "covers a (p # ps) b \<longleftrightarrow> goff p = a \<and> 0 < getSize p \<and> covers (a + getSize p) ps b"

lemma covers_snoc: "covers a ps b \<Longrightarrow> goff p = b \<Longrightarrow> 0 < getSize p \<Longrightarrow> covers a (ps @ [p]) (b + getSize p)"
  by (induction ps arbitrary: a) auto

definition to_server :: "layout \<Rightarrow> int \<Rightarrow> gPacket list \<Rightarrow> gPacket list" where
  "to_server lo i ps = filter (\<lambda>p. getDsID p = serverList lo i) ps"

text \<open>The local offset of server \<open>i\<close> up to which the trace has asked for data.\<close>

definition asked :: "wtrace \<Rightarrow> int \<Rightarrow> int" where
  "asked tr i = dsoffsets tr i + (if dataSizeInWindow tr i = SW_SENT then sentPktSize tr i else 0)"

definition covered :: "layout \<Rightarrow> int \<Rightarrow> gPacket list \<Rightarrow> wtrace \<Rightarrow> bool" where
  "covered lo off lg tr \<longleftrightarrow>
    (\<forall>i. 0 \<le> i \<and> i < serverNum lo \<longrightarrow> covers (bytes_below lo i off) (to_server lo i lg) (asked tr i))"

lemma coveredD:
  "covered lo off lg tr \<Longrightarrow> 0 \<le> i \<Longrightarrow> i < serverNum lo \<Longrightarrow>
    covers (bytes_below lo i off) (to_server lo i lg) (asked tr i)"
  by (simp add: covered_def)

lemma covered_cong:
  "(\<And>i. 0 \<le> i \<Longrightarrow> i < serverNum lo \<Longrightarrow> asked tr' i = asked tr i) \<Longrightarrow> covered lo off lg tr' = covered lo off lg tr"
  by (simp add: covered_def)

text \<open>
  A run: the client asks for the next packet, or the reply of the packet outstanding at
  server \<open>i\<close> arrives (a \<open>TReply\<close> with nothing outstanding is not an event of the run).
\<close>

datatype tevent = TNext | TReply int

definition tr_step :: "layout \<Rightarrow> tevent \<Rightarrow> wtrace \<times> gPacket list \<times> trace_status \<Rightarrow>
    (wtrace \<times> gPacket list \<times> trace_status) res" where
  "tr_step lo ev s =
    (case s of (tr, lg, status) \<Rightarrow>
      case ev of
        TNext \<Rightarrow> bindR (nextgPacket lo tr) (\<lambda>(p, tr'). Inr (tr', lg @ (case p of None \<Rightarrow> [] | Some p \<Rightarrow> [p]), status))
      | TReply i \<Rightarrow>
          if 0 \<le> i \<and> i < serverNum lo \<and> dataSizeInWindow tr i = SW_SENT
          then bindR (finishedgPacket lo (new_gPacket\<lparr>getDsID := serverList lo i\<rparr>) tr) (\<lambda>(st, tr'). Inr (tr', lg, st))
          else Inr s)"

definition tr_done :: "layout \<Rightarrow> wtrace \<Rightarrow> bool" where
  "tr_done lo tr \<longleftrightarrow> unProcessedSize tr = 0 \<and>
     (\<forall>i. 0 \<le> i \<and> i < serverNum lo \<longrightarrow> dataSizeInWindow tr i \<le> 0 \<and> dataSizeInWindow tr i \<noteq> SW_SENT)"

definition tr_ledger :: "layout \<Rightarrow> int \<Rightarrow> int \<Rightarrow> wtrace \<times> gPacket list \<times> trace_status \<Rightarrow> bool" where
  "tr_ledger lo off e s \<longleftrightarrow>
    (case s of (tr, lg, status) \<Rightarrow>
      (\<exists>c\<ge>off. wt_inv lo e c tr) \<and> covered lo off lg tr \<and>
      (status = ALL_DONE \<longrightarrow> tr_done lo tr))"

lemma slot_need_nonneg:
  assumes "striped lo" "wt_inv lo e c tr"
  shows "bytes_below lo i c \<le> bytes_below lo i (c + aggregateSize tr)"
    "bytes_below lo i (c + aggregateSize tr) - bytes_below lo i c \<le> JOB_MAXSIZE"
proof -
  have "0 \<le> c" "0 < aggregateSize tr" "aggregateSize tr \<le> JOB_MAXSIZE"
    using wt_cursor_nonneg [OF assms(1)] assms(2) by (auto simp: wt_inv_def)
  with bytes_below_mono [of c "c + aggregateSize tr" lo i]
  show "bytes_below lo i c \<le> bytes_below lo i (c + aggregateSize tr)"
    "bytes_below lo i (c + aggregateSize tr) - bytes_below lo i c \<le> JOB_MAXSIZE" by linarith+
qed

lemma goff_wt_packet [simp]: "goff (wt_packet lo tr i d) = dsoffsets tr i"
  using sdiv_mult_smod_eq [of "dsoffsets tr i" LOWOFFSET_RANGE]
  by (simp add: goff_def wt_packet_def)

lemma wt_inv_send:
  assumes "striped lo" "wt_inv lo e c tr" "0 \<le> i" "i < serverNum lo" "0 < dataSizeInWindow tr i"
  shows "wt_inv lo e c (tr\<lparr>sentPktSize := (sentPktSize tr)(i := dataSizeInWindow tr i),
           dataSizeInWindow := (dataSizeInWindow tr)(i := SW_SENT)\<rparr>)"
    and "getSize (wt_packet lo tr i d) = dataSizeInWindow tr i" "asked tr i = dsoffsets tr i"
proof -
  have slot: "slot_ok lo tr c i" using assms(2-4) by (simp add: wt_inv_def)
  then have d: "dataSizeInWindow tr i = bytes_below lo i (c + aggregateSize tr) - bytes_below lo i c"
    "dsoffsets tr i = bytes_below lo i c"
    using assms(5) by (auto simp: slot_ok_def Let_def sw_defs)
  with assms(2) show "wt_inv lo e c (tr\<lparr>sentPktSize := (sentPktSize tr)(i := dataSizeInWindow tr i),
           dataSizeInWindow := (dataSizeInWindow tr)(i := SW_SENT)\<rparr>)"
    by (auto simp: wt_inv_def wt_cursor_def slot_ok_def Let_def)
  have "dataSizeInWindow tr i \<le> JOB_MAXSIZE" using slot_need_nonneg(2) [OF assms(1,2), of i] d by simp
  with assms(5) show "getSize (wt_packet lo tr i d) = dataSizeInWindow tr i"
    by (simp add: wt_packet_def JOB_MAXSIZE_def to_int32_id)
  show "asked tr i = dsoffsets tr i" using assms(5) by (simp add: asked_def sw_defs)
qed

lemma getNext_spec:
  assumes "striped lo" "wt_inv lo e c tr" "covered lo off lg tr"
  obtains (none) "getNextgPacketFromWindow lo tr = Inr (None, tr)"
      "\<And>i. 0 \<le> i \<Longrightarrow> i < serverNum lo \<Longrightarrow> dataSizeInWindow tr i \<le> 0"
  | (some) p tr' where "getNextgPacketFromWindow lo tr = Inr (Some p, tr')" "wt_inv lo e c tr'"
      "covered lo off (lg @ [p]) tr'"
      "unProcessedSize tr' = unProcessedSize tr"
proof (cases "find (\<lambda>i. dataSizeInWindow tr i > 0) [0..serverNum lo - 1]")
  case None
  then have "\<And>i. 0 \<le> i \<Longrightarrow> i < serverNum lo \<Longrightarrow> dataSizeInWindow tr i \<le> 0"
    by (force simp: find_None_iff)
  with None assms(2) none show ?thesis by (simp add: getNextgPacketFromWindow_def wt_inv_def)
next
  case (Some i)
  then have i: "0 \<le> i" "i < serverNum lo" "0 < dataSizeInWindow tr i"
    by (auto simp: find_Some_iff nth_upto)
  let ?p = "wt_packet lo tr i (serverList lo i)"
  let ?tr' = "tr\<lparr>sentPktSize := (sentPktSize tr)(i := dataSizeInWindow tr i),
           dataSizeInWindow := (dataSizeInWindow tr)(i := SW_SENT)\<rparr>"
  note send = wt_inv_send [OF assms(1,2) i]
  have get: "getNextgPacketFromWindow lo tr = Inr (Some ?p, ?tr')"
    using Some assms(2) stripedD(7) [OF assms(1) i(1,2)] by (simp add: getNextgPacketFromWindow_def wt_inv_def)
  have "covers (bytes_below lo j off) (to_server lo j (lg @ [?p])) (asked ?tr' j)" if j: "0 \<le> j" "j < serverNum lo" for j
  proof (cases "j = i")
    case True
    with covers_snoc [OF coveredD [OF assms(3) i(1,2)], of ?p] send(2,3) i(3) show ?thesis
      by (simp add: to_server_def asked_def) (simp add: wt_packet_def)
  next
    case False
    with assms(1) i j have "serverList lo j \<noteq> serverList lo i" by (auto simp: striped_def inj_on_eq_iff)
    with False coveredD [OF assms(3) j] show ?thesis by (simp add: to_server_def asked_def wt_packet_def split: if_splits)
  qed
  then show ?thesis by (intro some [OF get send(1)]) (simp_all add: covered_def)
qed

lemma bytes_below_strict:
  assumes "striped lo" "0 \<le> x"
  obtains i where "0 \<le> i" "i < serverNum lo" "bytes_below lo i (x + 1) = bytes_below lo i x + 1"
proof -
  obtain i where "stripe_server lo x = Some i" "0 \<le> i" "i < serverNum lo"
    using stripe_server_Some [OF assms] .
  with that upto_last [OF assms(2)] show ?thesis by (simp add: bytes_below_def)
qed

text \<open>A window that is done is left for the next one.\<close>

lemma wt_inv_next_window:
  assumes "striped lo" "wt_inv lo e c tr" "0 < unProcessedSize tr"
    "\<And>i. 0 \<le> i \<Longrightarrow> i < serverNum lo \<Longrightarrow> dataSizeInWindow tr i \<le> 0 \<and> dataSizeInWindow tr i \<noteq> SW_SENT"
  obtains tr' c' where "openNewWindow lo tr = Inr (True, tr')" "wt_inv lo e c' tr'" "c \<le> c'"
    "\<And>i. 0 \<le> i \<Longrightarrow> i < serverNum lo \<Longrightarrow> asked tr' i = asked tr i"
    "\<exists>i. 0 \<le> i \<and> i < serverNum lo \<and> 0 < dataSizeInWindow tr' i"
proof -
  let ?c = "c + aggregateSize tr"
  from assms(2,3) have inv: "wt_layout tr" "wt_cursor lo tr c" "0 < aggregateSize tr" "?c + unProcessedSize tr = e"
    "windowSize lo dvd aggregateSize tr" "windowSize lo dvd JOB_MAXSIZE" by (auto simp: wt_inv_def)
  have cur: "wt_cursor lo tr ?c" using wt_cursor_next [OF assms(1) inv(2,5)] inv(3) by simp
  have ds: "dsoffsets tr i = bytes_below lo i ?c" if "0 \<le> i" "i < serverNum lo" for i
    using assms(4) [OF that] assms(2) that slot_need_nonneg(1) [OF assms(1,2), of i]
    by (auto simp: wt_inv_def slot_ok_def Let_def sw_defs)
  obtain sizes agg where agg: "agg = min MAX_WINDOW_SIZE (unProcessedSize tr)" "0 < agg"
    and op: "openNewWindow lo tr = Inr (True, tr\<lparr>aggregateSize := agg, unProcessedSize := unProcessedSize tr - agg,
       dataSizeInWindow := sizes, totalSubreqsInWindow := serverNum lo\<rparr>)"
    and sizes: "\<And>j. 0 \<le> j \<Longrightarrow> j < serverNum lo \<Longrightarrow> sizes j = bytes_below lo j (?c + agg) - bytes_below lo j ?c"
    using openNewWindow_spec [OF assms(1) inv(1) cur assms(3)] by metis
  let ?tr' = "tr\<lparr>aggregateSize := agg, unProcessedSize := unProcessedSize tr - agg,
       dataSizeInWindow := sizes, totalSubreqsInWindow := serverNum lo\<rparr>"
  have c0: "0 \<le> ?c" using wt_cursor_nonneg [OF assms(1) cur] .
  have slots: "slot_ok lo ?tr' ?c i" if "0 \<le> i" "i < serverNum lo" for i
    using sizes [OF that] ds [OF that] by (simp add: slot_ok_def)
  have inv': "wt_inv lo e ?c ?tr'"
    using inv cur agg slots by (auto simp: wt_inv_def wt_cursor_def MAX_WINDOW_SIZE_def min_def)
  have asked: "asked ?tr' i = asked tr i" if "0 \<le> i" "i < serverNum lo" for i
    using assms(4) [OF that] sizes [OF that] bytes_below_mono(1) [OF c0, of "?c + agg" lo i] agg(2)
    by (simp add: asked_def sw_defs)
  obtain i where i: "0 \<le> i" "i < serverNum lo" "bytes_below lo i (?c + 1) = bytes_below lo i ?c + 1"
    using bytes_below_strict [OF assms(1) c0] .
  with sizes [OF i(1,2)] bytes_below_mono(1) [of "?c + 1" "?c + agg" lo i] c0 agg(2) have "0 < sizes i" by simp
  with i show ?thesis by (intro that [OF op inv' _ asked]) (use inv(3) in auto)
qed

lemma nextgPacket_spec:
  assumes "striped lo" "wt_inv lo e c tr" "covered lo off lg tr"
  obtains (none) "nextgPacket lo tr = Inr (None, tr)"
      "(\<exists>i. 0 \<le> i \<and> i < serverNum lo \<and> dataSizeInWindow tr i = SW_SENT) \<or> tr_done lo tr"
  | (some) p tr' c' where "nextgPacket lo tr = Inr (Some p, tr')" "wt_inv lo e c' tr'" "c \<le> c'"
      "covered lo off (lg @ [p]) tr'"
      "\<not> tr_done lo tr"
proof -
  note W = stripedD(3,8) [OF assms(1)]
  have lay: "wt_layout tr" using assms(2) by (simp add: wt_inv_def)
  from assms show ?thesis
  proof (cases rule: getNext_spec)
    case (some p tr')
    have "\<exists>i. 0 \<le> i \<and> i < serverNum lo \<and> 0 < dataSizeInWindow tr i"
    proof (rule ccontr)
      assume "\<not> ?thesis"
      then have "find (\<lambda>i. dataSizeInWindow tr i > 0) [0..serverNum lo - 1] = None"
        by (simp add: find_None_iff)
      with some(1) lay show False by (simp add: getNextgPacketFromWindow_def)
    qed
    then have "\<not> tr_done lo tr" by (force simp: tr_done_def)
    with some W lay that(2) [of p tr' c] show ?thesis by (simp add: nextgPacket_def)
  next
    case none
    show ?thesis
    proof (cases "\<exists>i\<in>set [0..serverNum lo - 1]. dataSizeInWindow tr i = SW_SENT")
      case True
      with none(1) W lay have "nextgPacket lo tr = Inr (None, tr)" by (simp add: nextgPacket_def)
      then show ?thesis by (rule that(1)) (use True in auto)
    next
      case idle: False
      then have slots: "\<And>i. 0 \<le> i \<Longrightarrow> i < serverNum lo \<Longrightarrow> dataSizeInWindow tr i \<le> 0 \<and> dataSizeInWindow tr i \<noteq> SW_SENT"
        using none(2) by auto
      show ?thesis
      proof (cases "unProcessedSize tr = 0")
        case True
        with slots have "tr_done lo tr" by (simp add: tr_done_def)
        with True none(1) idle W lay that(1) show ?thesis by (simp add: nextgPacket_def openNewWindow_def)
      next
        case False
        with assms(2) have u: "0 < unProcessedSize tr" by (simp add: wt_inv_def)
        obtain tr1 c1 where w: "openNewWindow lo tr = Inr (True, tr1)" "wt_inv lo e c1 tr1" "c \<le> c1"
          "\<And>i. 0 \<le> i \<Longrightarrow> i < serverNum lo \<Longrightarrow> asked tr1 i = asked tr i"
          "\<exists>i. 0 \<le> i \<and> i < serverNum lo \<and> 0 < dataSizeInWindow tr1 i"
          using wt_inv_next_window [OF assms(1,2) u slots] by metis
        have next1: "nextgPacket lo tr = getNextgPacketFromWindow lo tr1"
          using none(1) idle W lay w(1) by (simp add: nextgPacket_def)
        have "covered lo off lg tr1" using assms(3) covered_cong [OF w(4)] by simp
        from assms(1) w(2) this show ?thesis
        proof (cases rule: getNext_spec)
          case none
          with w(5) show ?thesis by force
        next
          case (some p tr')
          with next1 w(3) False that(2) [of p tr' c1] show ?thesis by (simp add: tr_done_def)
        qed
      qed
    qed
  qed
qed

lemma tr_reply_ledger:
  assumes "striped lo" "tr_ledger lo off e (tr, lg, status)" "0 \<le> i" "i < serverNum lo" "dataSizeInWindow tr i = SW_SENT"
  shows "\<exists>st tr'. finishedgPacket lo (new_gPacket\<lparr>getDsID := serverList lo i\<rparr>) tr = Inr (st, tr') \<and>
    tr_ledger lo off e (tr', lg, st)"
proof -
  let ?tr' = "tr\<lparr>dataSizeInWindow := (dataSizeInWindow tr)(i := SW_RECEIVED),
                 dsoffsets := (dsoffsets tr)(i := dsoffsets tr i + sentPktSize tr i)\<rparr>"
  from assms(2) obtain c where c: "off \<le> c" "wt_inv lo e c tr"
    and cov: "covered lo off lg tr"
    by (auto simp: tr_ledger_def)
  have slot: "sentPktSize tr i = bytes_below lo i (c + aggregateSize tr) - bytes_below lo i c"
    "dsoffsets tr i = bytes_below lo i c"
    using c(2) assms(3-5) slot_need_nonneg(1) [OF assms(1) c(2), of i]
    by (auto simp: wt_inv_def slot_ok_def Let_def sw_defs)
  have inv: "wt_inv lo e c ?tr'" using c(2) slot
    by (auto simp: wt_inv_def wt_cursor_def slot_ok_def Let_def)
  have "asked ?tr' j = asked tr j" for j using assms(5) by (simp add: asked_def sw_defs)
  then have cov': "covered lo off lg ?tr'" using cov by (simp add: covered_cong [of lo ?tr' tr])
  define more where "more \<longleftrightarrow> (\<exists>j\<in>set [0..serverNum lo - 1]. dataSizeInWindow ?tr' j > 0 \<or> dataSizeInWindow ?tr' j = SW_SENT)"
  have fin: "finishedgPacket lo (new_gPacket\<lparr>getDsID := serverList lo i\<rparr>) tr =
      Inr (if more then NEED_WAIT else if unProcessedSize tr = 0 then ALL_DONE else MORE_TO_SEND, ?tr')"
    using stripedD(9) [OF assms(1,3,4)] assms(3) by (simp add: finishedgPacket_def Let_def more_def)
  have "tr_done lo ?tr'" if "\<not> more" "unProcessedSize tr = 0"
    using that unfolding more_def tr_done_def by (force simp: SW_RECEIVED_def)
  with c(1) inv cov' have "tr_ledger lo off e (?tr', lg,
      if more then NEED_WAIT else if unProcessedSize tr = 0 then ALL_DONE else MORE_TO_SEND)"
    by (simp only: tr_ledger_def prod.case) (auto split: if_splits)
  with fin show ?thesis by blast
qed

lemma tr_step_ledger:
  assumes "striped lo" "tr_ledger lo off e s"
  shows "\<exists>s'. tr_step lo ev s = Inr s' \<and> tr_ledger lo off e s'"
proof -
  obtain tr lg status where s: "s = (tr, lg, status)" by (cases s)
  show ?thesis
  proof (cases ev)
    case TNext
    from assms(2) obtain c where c: "off \<le> c" "wt_inv lo e c tr"
      and cov: "covered lo off lg tr"
      and st: "status = ALL_DONE \<longrightarrow> tr_done lo tr"
      by (auto simp: tr_ledger_def s)
    from assms(1) c(2) cov show ?thesis
    proof (cases rule: nextgPacket_spec)
      case none
      with assms(2) s TNext show ?thesis by (simp add: tr_step_def)
    next
      case (some p tr' c')
      moreover have "off \<le> c'" using c(1) some(3) by simp
      ultimately show ?thesis using st TNext by (auto simp: tr_step_def s tr_ledger_def)
    qed
  next
    case (TReply i)
    with tr_reply_ledger [OF assms(1) assms(2) [unfolded s], of i] assms(2) show ?thesis
      by (auto simp: tr_step_def s)
  qed
qed

lemma tr_run_ledger:
  assumes "striped lo" "tr_ledger lo off e s"
  shows "\<exists>s'. run_res (tr_step lo) evs s = Inr s' \<and> tr_ledger lo off e s'"
  using assms(2)
proof (induction evs arbitrary: s)
  case (Cons ev evs)
  from tr_step_ledger [OF assms(1) Cons.prems] obtain s1
    where "tr_step lo ev s = Inr s1" "tr_ledger lo off e s1" by blast
  with Cons.IH show ?case by simp
qed simp

lemma tr_done_asked:
  assumes "striped lo" "wt_inv lo e c tr" "tr_done lo tr" "0 \<le> i" "i < serverNum lo"
  shows "asked tr i = bytes_below lo i e"
proof -
  have "slot_ok lo tr c i" "c + aggregateSize tr = e" "dataSizeInWindow tr i \<le> 0" "dataSizeInWindow tr i \<noteq> SW_SENT"
    using assms by (auto simp: wt_inv_def tr_done_def)
  with slot_need_nonneg(1) [OF assms(1,2), of i] show ?thesis
    by (auto simp: slot_ok_def Let_def asked_def)
qed

text \<open>
  Claim C10. A trace asks for the bytes of its access where the layout puts them. The
  access of a request with a positive size is started with a layout whose stripes are not
  all empty, and with a window size that divides \<^verbatim>\<open>JOB_MAXSIZE\<close> unless one window is enough
  for the request. Then over every interleaving of asking for packets and receiving
  replies of outstanding packets no operation fails (in particular the loop that deals
  out a window ends); the packets sent to a server ask, without gap or overlap, for its
  local bytes from the first one of the access up to some point; when the reply status is
  \<^verbatim>\<open>ALL_DONE\<close> this point is the last byte of the access on every server; and
  \<^verbatim>\<open>nextgPacket\<close> returns NULL only if a reply is outstanding or all bytes have been asked
  for. The local bytes are counted with the definition of striping, byte by byte.
\<close>

theorem trace_follows_striping:
  assumes "striped lo" "0 \<le> tr_offset tr" "0 < unProcessedSize tr"
    and "windowSize lo dvd JOB_MAXSIZE \<or> unProcessedSize tr \<le> JOB_MAXSIZE"
  obtains tr0 tr1 lg status where "wt_setLayout lo tr = Inr tr0"
    "run_res (tr_step lo) evs (tr0, [], NEED_WAIT) = Inr (tr1, lg, status)"
    "\<And>i. 0 \<le> i \<Longrightarrow> i < serverNum lo \<Longrightarrow>
       covers (bytes_below lo i (tr_offset tr)) (to_server lo i lg) (asked tr1 i)"
    "\<And>i. status = ALL_DONE \<Longrightarrow> 0 \<le> i \<Longrightarrow> i < serverNum lo \<Longrightarrow>
       asked tr1 i = bytes_below lo i (tr_offset tr + unProcessedSize tr)"
    "\<And>tr2. nextgPacket lo tr1 = Inr (None, tr2) \<Longrightarrow>
       (\<exists>i. 0 \<le> i \<and> i < serverNum lo \<and> dataSizeInWindow tr1 i = SW_SENT) \<or>
       (\<forall>i. 0 \<le> i \<and> i < serverNum lo \<longrightarrow> asked tr1 i = bytes_below lo i (tr_offset tr + unProcessedSize tr))"
proof -
  let ?e = "tr_offset tr + unProcessedSize tr"
  obtain tr0 where tr0: "wt_setLayout lo tr = Inr tr0" "wt_inv lo ?e (tr_offset tr) tr0"
    "\<And>i. 0 \<le> i \<Longrightarrow> i < serverNum lo \<Longrightarrow> 0 \<le> dataSizeInWindow tr0 i \<and> dsoffsets tr0 i = bytes_below lo i (tr_offset tr)"
    using wt_setLayout_inv [OF assms] by metis
  have "covered lo (tr_offset tr) [] tr0"
    using tr0(3) by (fastforce simp: covered_def to_server_def asked_def SW_SENT_def)
  with tr0(2) have "tr_ledger lo (tr_offset tr) ?e (tr0, [], NEED_WAIT)" by (auto simp: tr_ledger_def)
  from tr_run_ledger [OF assms(1) this, of evs] obtain tr1 lg status where
    run: "run_res (tr_step lo) evs (tr0, [], NEED_WAIT) = Inr (tr1, lg, status)" and
    led: "tr_ledger lo (tr_offset tr) ?e (tr1, lg, status)" by (metis prod_cases3)
  then obtain c where c: "wt_inv lo ?e c tr1" and cov: "covered lo (tr_offset tr) lg tr1"
    and st: "status = ALL_DONE \<longrightarrow> tr_done lo tr1" by (auto simp: tr_ledger_def)
  note fin = tr_done_asked [OF assms(1) c]
  show ?thesis
  proof (rule that [OF tr0(1) run])
    fix tr2 assume n: "nextgPacket lo tr1 = Inr (None, tr2)"
    from assms(1) c cov
    show "(\<exists>i. 0 \<le> i \<and> i < serverNum lo \<and> dataSizeInWindow tr1 i = SW_SENT) \<or>
       (\<forall>i. 0 \<le> i \<and> i < serverNum lo \<longrightarrow> asked tr1 i = bytes_below lo i ?e)"
      by (cases rule: nextgPacket_spec) (use n fin in auto)
  qed (use coveredD [OF cov] st fin in auto)
qed

definition demo_trace :: wtrace where
  "demo_trace = wt_initialize 1 0 5 1000 2000 1 0 0 0
    \<lparr> tr_ID = -1, tr_offset = 0, tr_totalSize = 0, tr_read = 0, tr_applicationID = 0, tr_startTime = 0,
      tr_finishTime = 0, tr_earliestSubrequestFinishTime = 0, tr_sync = 0, tr_traceFileID = 0, tr_pfsFileID = 0,
      wt_layout = False, dsoffsets = (\<lambda>_. 7), dataSizeInWindow = (\<lambda>_. 7), sentPktSize = (\<lambda>_. 7),
      unProcessedSize = 7, aggregateSize = 7, offset_start_server = 7, offset_start_position = 7,
      totalSubreqsInWindow = 7 \<rparr>"

lemma demo_striped: "striped demo_layout"
proof -
  have "{0..<3::int} = {0, 1, 2}" by auto
  then show ?thesis
    by (auto simp: striped_def layout_ok_def demo_layout_def MAX_DS_def inj_on_def)
qed

theorem trace_follows_striping_witness:
  "\<exists>tr0 tr1 lg status. wt_setLayout demo_layout demo_trace = Inr tr0 \<and>
     run_res (tr_step demo_layout) [TNext, TNext, TReply 1, TNext, TReply 0, TReply 2] (tr0, [], NEED_WAIT) = Inr (tr1, lg, status) \<and>
     covers (bytes_below demo_layout 1 1000) (to_server demo_layout 1 lg) (asked tr1 1)"
proof (rule trace_follows_striping [of demo_layout demo_trace "[TNext, TNext, TReply 1, TNext, TReply 0, TReply 2]"], goal_cases)
  case (5 tr0 tr1 lg status)
  have "tr_offset demo_trace = 1000" "serverNum demo_layout = 3" by (simp_all add: demo_trace_def wt_initialize_def demo_layout_def)
  with 5(1-3) show ?case by (metis one_less_numeral_iff semiring_norm(77) zero_le_one)
qed (simp_all add: demo_striped demo_trace_def wt_initialize_def JOB_MAXSIZE_def)

section \<open>When a window does not end at the end of a stripe window\<close>

lemma wt_deal_numeral:
  "wt_deal (numeral v) lo st pos i firsttime left sizes =
    (let i = (if i = serverNum lo then 0 else i)
     in if left = 0 then Inr sizes
        else bindR (getServerStripeSize lo i) (\<lambda>stripe.
          let inc = (if i = st \<and> firsttime then stripe - pos else stripe);
              firsttime' = (if i = st \<and> firsttime then False else firsttime)
          in if inc < left
             then wt_deal (pred_numeral v) lo st pos (i + 1) firsttime' (left - inc) (sizes(i := sizes i + inc))
             else wt_deal (pred_numeral v) lo st pos (i + 1) firsttime' 0 (sizes(i := sizes i + left))))"
  by (simp only: numeral_eq_Suc wt_deal.simps)

definition two_layout :: layout where
  "two_layout = \<lparr> lo_fileID = 5, windowSize = 16777216, serverNum = 2, serverList = (\<lambda>i. i),
     serverStripeSizes = (\<lambda>i. 8388608) \<rparr>"

definition two_trace :: wtrace where
  "two_trace = wt_initialize 1 0 5 0 20971520 1 0 0 0 demo_trace"

lemma two_striped: "striped two_layout"
proof -
  have "{0..<2::int} = {0, 1}" by auto
  then show ?thesis
    by (auto simp: striped_def layout_ok_def two_layout_def MAX_DS_def inj_on_def)
qed

lemma two_fields [simp]:
  "serverNum two_layout = 2" "windowSize two_layout = 16777216" "serverList two_layout = (\<lambda>i. i)"
  "0 \<le> i \<Longrightarrow> i < 2 \<Longrightarrow> getServerStripeSize two_layout i = Inr 8388608"
  "0 \<le> i \<Longrightarrow> i < 2 \<Longrightarrow> getServerID two_layout i = Inr i" "[0..1::int] = [0, 1]"
  by (simp_all add: two_layout_def getServerStripeSize_def getServerID_def MAX_DS_def upto.simps)

lemma two_find [simp]: "findServerIndex two_layout 0 = 0" "findServerIndex two_layout 1 = 1" "fst (getWindowSize two_layout) = 16777216"
  by (simp_all add: findServerIndex_def getWindowSize_def calculateWindowSize_def Let_def)

lemma two_stripes [simp]: "serverStripeSizes two_layout = (\<lambda>i. 8388608)" "{0..<1::int} = {0}"
  by (auto simp: two_layout_def)

lemmas two_run = tr_step_def nextgPacket_def getNextgPacketFromWindow_def openNewWindow_def finishedgPacket_def
  wt_deal_numeral wt_deal_done deal_fuel_def MAX_WINDOW_SIZE_def JOB_MAXSIZE_def sw_defs Let_def

text \<open>
  The windows after the first one are misplaced when the window size of the
  layout does not divide \<^verbatim>\<open>JOB_MAXSIZE\<close>: \<^verbatim>\<open>openNewWindow\<close> always starts at the server and the
  position where the access starts. With two servers that have stripes of 8 MB, a request
  for the first 20 MB of the file asks server 0 for 16 MB and server 1 for 4 MB, where the
  layout puts 12 MB on server 0 and 8 MB on server 1.
\<close>

theorem trace_misplaces_later_windows:
  "\<exists>tr0 tr1 lg. wt_setLayout two_layout two_trace = Inr tr0 \<and>
     run_res (tr_step two_layout) [TNext, TNext, TReply 0, TReply 1, TNext, TNext, TReply 0, TReply 1]
       (tr0, [], NEED_WAIT) = Inr (tr1, lg, ALL_DONE) \<and>
     tr_totalSize two_trace = 20971520 \<and> tr_offset two_trace = 0 \<and>
     asked tr1 0 = 16777216 \<and> asked tr1 1 = 4194304 \<and>
     bytes_below two_layout 0 20971520 = 12582912 \<and> bytes_below two_layout 1 20971520 = 8388608"
  by (simp add: wt_setLayout_def two_trace_def wt_initialize_def wt_start_at_def two_run sdiv_nonneg smod_nonneg
      bytes_below_formula [OF two_striped] below_formula_def stripe_start_def two_stripes asked_def)

end
