(* ===== verification/Client.thy ===== *)
theory Client
  imports TraceRun Scheduler
begin

text \<open>
  \<^verbatim>\<open>client/pfsclient\<close>: the client of the parallel file system. \<^verbatim>\<open>PVFS2ClientStrategy\<close>
  keeps a trace for every request of an application, asks the metadata server once for the
  layout of a file, and turns the traces into packets for the data servers; \<^verbatim>\<open>PFSClient\<close>
  sends what the strategy produces.

  The objects that the strategy allocates (the traces and the layouts of the files) start
  as the memory \<open>wmem\<close>, \<open>ml\<close> and \<open>ms\<close> has them. A \<^verbatim>\<open>cPacket *\<close> is one of the three message
  classes.
\<close>

datatype cpkt = CApp AppRequest | CQ qPacket | CG gPacket

record cstrategy =
  cs_myID :: int
  traces :: "wtrace list"
  pfsFiles :: pfsfiles
  appRequestQ :: "AppRequest fifo"
  requestID :: int
  packet_size_limit :: int

definition first_requestID :: "int \<Rightarrow> int" where
  "first_requestID cid = CID_OFFSET * cid + RID_OFFSET * 1"

definition PVFS2ClientStrategy_new :: "int \<Rightarrow> cstrategy res" where
  "PVFS2ClientStrategy_new i =
    bindR (createScheduler ''FIFO'' i 100) (\<lambda>q.
    Inr \<lparr> cs_myID = i, traces = [], pfsFiles = (\<lambda>_. None), appRequestQ = q,
          requestID = first_requestID i, packet_size_limit = 10000000 \<rparr>)"

definition setPacketLengthLimit :: "int \<Rightarrow> cstrategy \<Rightarrow> cstrategy" where
  "setPacketLengthLimit limit cs = cs\<lparr>packet_size_limit := limit\<rparr>"

section \<open>Requesting data\<close>

text \<open>The \<^verbatim>\<open>Layout\<close> to which the pointer of a trace refers.\<close>

definition trace_layout :: "pfsfiles \<Rightarrow> wtrace \<Rightarrow> layout res" where
  "trace_layout files tr =
    (case findPFSFile (tr_pfsFileID tr) files of
       None \<Rightarrow> Inl (NullDeref ''PVFS2ClientStrategy'')
     | Some f \<Rightarrow> (case pf_layout f of None \<Rightarrow> Inl (NullDeref ''PVFS2ClientStrategy'') | Some lo \<Rightarrow> Inr lo))"

definition next_requestID :: "int \<Rightarrow> int \<Rightarrow> int" where
  "next_requestID cid rid =
    (let rid = rid + RID_OFFSET
     in if rid smod CID_OFFSET \<ge> CID_OFFSET - RID_OFFSET then first_requestID cid else rid)"

definition data_request :: "int \<Rightarrow> int \<Rightarrow> gPacket \<Rightarrow> gPacket" where
  "data_request cid rid gpkt =
    gpkt\<lparr>getID := rid, getClientID := cid, getKind := (if getRead gpkt \<noteq> 0 then PFS_R_REQ else PFS_W_REQ)\<rparr>"

text \<open>
  The inner loop: until the trace gives no packet. A packet takes a slot of the window, so
  there are at most as many as servers.
\<close>

fun gen_requests :: "nat \<Rightarrow> int \<Rightarrow> layout \<Rightarrow> wtrace \<Rightarrow> int \<Rightarrow> (gPacket list \<times> wtrace \<times> int) res" where
  "gen_requests 0 cid lo tr rid = Inl (Diverge ''PVFS2ClientStrategy::generateDataPacketRequests'')"
| "gen_requests (Suc n) cid lo tr rid =
     bindR (nextgPacket lo tr) (\<lambda>(gpkt, tr).
     case gpkt of
       None \<Rightarrow> Inr ([], tr, rid)
     | Some gpkt \<Rightarrow>
         bindR (gen_requests n cid lo tr (next_requestID cid rid)) (\<lambda>(pkts, tr, rid').
         Inr (data_request cid rid gpkt # pkts, tr, rid')))"

text \<open>The outer loop: the \<^verbatim>\<open>return\<close> in the inner loop ends it at the first trace of the file.\<close>

fun gen_traces :: "int \<Rightarrow> pfsfiles \<Rightarrow> int \<Rightarrow> wtrace list \<Rightarrow> int \<Rightarrow> (gPacket list \<times> wtrace list \<times> int) res" where
  "gen_traces cid files fileID [] rid = Inr ([], [], rid)"
| "gen_traces cid files fileID (tr # trs) rid =
     (if tr_pfsFileID tr \<noteq> fileID
      then bindR (gen_traces cid files fileID trs rid) (\<lambda>(pkts, trs, rid). Inr (pkts, tr # trs, rid))
      else bindR (trace_layout files tr) (\<lambda>lo.
           bindR (gen_requests (nat (serverNum lo) + 1) cid lo tr rid) (\<lambda>(pkts, tr, rid).
           Inr (pkts, tr # trs, rid))))"

definition generateDataPacketRequests :: "int \<Rightarrow> cstrategy \<Rightarrow> (cpkt list \<times> cstrategy) res" where
  "generateDataPacketRequests fileID cs =
     bindR (gen_traces (cs_myID cs) (pfsFiles cs) fileID (traces cs) (requestID cs)) (\<lambda>(pkts, trs, rid).
     Inr (map CG pkts, cs\<lparr>traces := trs, requestID := rid\<rparr>))"

section \<open>The handlers of the strategy\<close>

definition handleNewTrace :: "wtrace \<Rightarrow> AppRequest \<Rightarrow> cstrategy \<Rightarrow> (cpkt list \<times> cstrategy) res" where
  "handleNewTrace wmem request cs =
    (let cs = cs\<lparr>appRequestQ := snd (fifo_dispatchNext (fifo_pushWaitQ request (appRequestQ cs)))\<rparr>;
         trace = wt_initialize_request request (WindowBasedTrace_new wmem);
         fileID = ar_fileID request
     in case findPFSFile fileID (pfsFiles cs) of
          None \<Rightarrow>
            let file = PVFS2File_new fileID;
                packet = createPFSFileMetadataPacket (requestID cs) (cs_myID cs) 0 file
            in bindR (addPFSFile (Some file) (pfsFiles cs)) (\<lambda>files.
               Inr ([CQ (packet\<lparr>getKind := LAYOUT_REQ\<rparr>)], cs\<lparr>pfsFiles := files, traces := traces cs @ [trace]\<rparr>))
        | Some f \<Rightarrow>
            if informationIsSet f then
              bindR (pf_getLayout f) (\<lambda>lo.
              bindR (wt_setLayout lo trace) (\<lambda>trace.
              generateDataPacketRequests fileID (cs\<lparr>traces := traces cs @ [trace]\<rparr>)))
            else Inr ([], cs\<lparr>traces := traces cs @ [trace]\<rparr>))"

text \<open>The loop of \<^verbatim>\<open>handleMetadataPacketResponse\<close> over the traces of the file.\<close>

fun set_layouts :: "int \<Rightarrow> layout \<Rightarrow> wtrace list \<Rightarrow> wtrace list res" where
  "set_layouts fileID lo [] = Inr []"
| "set_layouts fileID lo (tr # trs) =
     bindR (if tr_pfsFileID tr = fileID then wt_setLayout lo tr else Inr tr) (\<lambda>tr.
     bindR (set_layouts fileID lo trs) (\<lambda>trs. Inr (tr # trs)))"

definition handleMetadataPacketResponse ::
  "(int \<Rightarrow> int) \<Rightarrow> (int \<Rightarrow> int) \<Rightarrow> qPacket \<Rightarrow> cstrategy \<Rightarrow> (cpkt list \<times> cstrategy) res" where
  "handleMetadataPacketResponse ml ms packet cs =
    (let fileID = q_fileId packet
     in bindR (case findPFSFile fileID (pfsFiles cs) of
                 Some f \<Rightarrow> Inr (f, pfsFiles cs)
               | None \<Rightarrow> bindR (addPFSFile (Some (PVFS2File_new fileID)) (pfsFiles cs)) (\<lambda>files.
                           Inr (PVFS2File_new fileID, files))) (\<lambda>(file, files).
        bindR (setFromPFSFileMetadataPacket ml ms packet file) (\<lambda>file.
        bindR (pf_getLayout file) (\<lambda>lo.
        bindR (set_layouts fileID lo (traces cs)) (\<lambda>trs.
        generateDataPacketRequests fileID (cs\<lparr>pfsFiles := files(fileID \<mapsto> file), traces := trs\<rparr>))))))"

text \<open>
  The loop that cuts the data of a write into packets. With a positive limit every turn
  takes a byte at least; with another limit it does not end.
\<close>

fun split_data :: "nat \<Rightarrow> int \<Rightarrow> int \<Rightarrow> int \<Rightarrow> int \<Rightarrow> gPacket \<Rightarrow> gPacket list res" where
  "split_data 0 limit pktid loff ub gpkt = Inl (Diverge ''PVFS2ClientStrategy::processDataPacketResponse'')"
| "split_data (Suc n) limit pktid loff ub gpkt =
     (if loff + limit \<ge> ub \<or> getRead gpkt \<noteq> 0
      then Inr [gpkt\<lparr>getID := pktid, getKind := PFS_W_DATA_LAST, getLowoffset := loff,
                     getSize := to_int32 (ub - loff)\<rparr>]
      else bindR (split_data n limit (pktid + 1) (loff + limit) ub gpkt) (\<lambda>pkts.
        Inr (gpkt\<lparr>getID := pktid, getKind := PFS_W_DATA, getLowoffset := loff, getSize := limit\<rparr> # pkts)))"

definition processDataPacketResponse :: "gPacket \<Rightarrow> cstrategy \<Rightarrow> (cpkt list \<times> cstrategy) res" where
  "processDataPacketResponse gpkt cs =
    bindR (split_data (nat (getSize gpkt) + 1) (packet_size_limit cs) (getID gpkt + 1)
             (getLowoffset gpkt) (getLowoffset gpkt + getSize gpkt) gpkt) (\<lambda>pkts.
    Inr (map CG pkts, cs))"

text \<open>A store through the iterator of the trace that was found.\<close>

fun store_trace :: "int \<Rightarrow> wtrace \<Rightarrow> wtrace list \<Rightarrow> wtrace list" where
  "store_trace i tr' [] = []"
| "store_trace i tr' (tr # trs) = (if tr_ID tr = i then tr' # trs else tr # store_trace i tr' trs)"

fun erase_trace :: "int \<Rightarrow> wtrace list \<Rightarrow> wtrace list" where
  "erase_trace i [] = []"
| "erase_trace i (tr # trs) = (if tr_ID tr = i then trs else tr # erase_trace i trs)"

definition processLastDataPacketResponse :: "gPacket \<Rightarrow> cstrategy \<Rightarrow> (cpkt list \<times> cstrategy) res" where
  "processLastDataPacketResponse packet cs =
    (case find (\<lambda>tr. tr_ID tr = getSubID packet) (traces cs) of
       None \<Rightarrow> Inl (Abort ''PVFS2ClientStrategy::processLastDataPacketResponse'')
     | Some trace \<Rightarrow>
        bindR (trace_layout (pfsFiles cs) trace) (\<lambda>lo.
        bindR (finishedgPacket lo packet trace) (\<lambda>(ret, trace).
        let cs = cs\<lparr>traces := store_trace (getSubID packet) trace (traces cs)\<rparr>
        in case fifo_queryJob (getSubID packet) (appRequestQ cs) of
             None \<Rightarrow> Inl (Abort ''PVFS2ClientStrategy::processLastDataPacketResponse'')
           | Some request \<Rightarrow>
              let cs = (if ar_earliestsubrequestfinishtime request < 0
                        then cs\<lparr>appRequestQ := fifo_mutate_job (getSubID packet)
                               (\<lambda>r. r\<lparr>ar_earliestsubrequestfinishtime := getFinishtime packet\<rparr>) (appRequestQ cs)\<rparr>
                        else cs)
              in if ret = ALL_DONE then
                   (case fifo_popOsQ (getSubID packet) (appRequestQ cs) of
                      (None, q) \<Rightarrow> Inl (Abort ''PVFS2ClientStrategy::processLastDataPacketResponse'')
                    | (Some r, q) \<Rightarrow>
                        Inr ([CApp (r\<lparr>getKind := TRACE_RESP\<rparr>)],
                             cs\<lparr>traces := erase_trace (getSubID packet) (traces cs), appRequestQ := q\<rparr>))
                 else if ret = MORE_TO_SEND then generateDataPacketRequests (getFileId packet) cs
                 else if ret = INVALID then Inl (Abort ''PVFS2ClientStrategy::processLastDataPacketResponse'')
                 else Inr ([], cs))))"

definition handleDataPacketResponse :: "gPacket \<Rightarrow> cstrategy \<Rightarrow> (cpkt list \<times> cstrategy) res" where
  "handleDataPacketResponse packet cs =
    (if getKind packet = PFS_R_DATA then Inr ([], cs)
     else if getKind packet = PFS_W_RESP then processDataPacketResponse packet cs
     else if getKind packet = PFS_R_DATA_LAST \<or> getKind packet = PFS_W_FIN
       then processLastDataPacketResponse packet cs
     else Inr ([], cs))"

section \<open>The module PFSClient\<close>

record pfsclient =
  pc_myID :: int
  dataPacketProcessTime :: real
  metadataPacketProcessTime :: real
  pfsClientStrategy :: cstrategy

text \<open>What a handler hands to OMNeT++: sends to the application or the network, and self messages.\<close>

datatype pc_out = ToApp AppRequest | ToEth cpkt | SelfAt real cpkt

definition PFSClient_initialize :: "string \<Rightarrow> int \<Rightarrow> real \<Rightarrow> real \<Rightarrow> int \<Rightarrow> pfsclient res" where
  "PFSClient_initialize signature i dataTime metaTime packetSizeLimit =
    (if signature = ''PVFS2'' then
       bindR (PVFS2ClientStrategy_new i) (\<lambda>cs.
       Inr \<lparr> pc_myID = i, dataPacketProcessTime = dataTime, metadataPacketProcessTime = metaTime,
             pfsClientStrategy = setPacketLengthLimit packetSizeLimit cs \<rparr>)
     else Inl (Abort ''PFSClient::initialize''))"

definition cpkt_kind :: "cpkt \<Rightarrow> msg_kind" where
  "cpkt_kind m = (case m of CApp r \<Rightarrow> getKind r | CQ q \<Rightarrow> getKind q | CG g \<Rightarrow> getKind g)"

text \<open>
  One turn of the loop of \<^verbatim>\<open>processPacketList\<close>; \<open>dt\<close> and \<open>mt\<close> are \<^verbatim>\<open>dataPacketRiseTime\<close> and
  \<^verbatim>\<open>metadataPacketRiseTime\<close>. The class of a message is the one its kind has in the protocol;
  a \<^verbatim>\<open>switch\<close> on the kind with the casts of its cases is a match on both.
\<close>

definition process_packet :: "pfsclient \<Rightarrow> real \<Rightarrow> cpkt \<Rightarrow> real \<times> real \<times> pc_out list \<Rightarrow> (real \<times> real \<times> pc_out list) res" where
  "process_packet pc now m s =
    (case s of (dt, mt, outs) \<Rightarrow>
     case m of
       CApp r \<Rightarrow>
         if getKind r = TRACE_RESP then Inr (dt, mt, outs @ [ToApp (r\<lparr>ar_finishtime := now\<rparr>)])
         else Inl (Abort ''PFSClient::processPacketList'')
     | CG g \<Rightarrow>
         if getKind g \<in> {PFS_R_REQ, PFS_W_REQ, PFS_W_DATA, PFS_W_DATA_LAST} then
           if dataPacketProcessTime pc \<noteq> 0
           then let dt = dt + dataPacketProcessTime pc in Inr (dt, mt, outs @ [SelfAt dt (CG (g\<lparr>getRisetime := dt\<rparr>))])
           else Inr (dt, mt, outs @ [ToEth (CG (g\<lparr>getRisetime := dt\<rparr>))])
         else Inl (Abort ''PFSClient::processPacketList'')
     | CQ q \<Rightarrow>
         if getKind q = LAYOUT_REQ then
           if metadataPacketProcessTime pc \<noteq> 0
           then let mt = mt + metadataPacketProcessTime pc in Inr (dt, mt, outs @ [SelfAt mt (CQ (q\<lparr>q_risetime := mt\<rparr>))])
           else Inr (dt, mt, outs @ [ToEth (CQ (q\<lparr>q_risetime := mt\<rparr>))])
         else Inl (Abort ''PFSClient::processPacketList''))"

definition processPacketList :: "pfsclient \<Rightarrow> real \<Rightarrow> cpkt list \<Rightarrow> pc_out list res" where
  "processPacketList pc now pkts =
    bindR (run_res (process_packet pc now) pkts (now, now, [])) (\<lambda>(dt, mt, outs). Inr outs)"

definition pc_strategy ::
  "(cstrategy \<Rightarrow> (cpkt list \<times> cstrategy) res) \<Rightarrow> real \<Rightarrow> pfsclient \<Rightarrow> (pc_out list \<times> pfsclient) res" where
  "pc_strategy f now pc =
    bindR (f (pfsClientStrategy pc)) (\<lambda>(pkts, cs).
    bindR (processPacketList pc now pkts) (\<lambda>outs. Inr (outs, pc\<lparr>pfsClientStrategy := cs\<rparr>)))"

definition pc_handleMessage ::
  "wtrace \<Rightarrow> (int \<Rightarrow> int) \<Rightarrow> (int \<Rightarrow> int) \<Rightarrow> real \<Rightarrow> cpkt \<Rightarrow> pfsclient \<Rightarrow> (pc_out list \<times> pfsclient) res" where
  "pc_handleMessage wmem ml ms now m pc =
    (case m of
       CApp r \<Rightarrow>
         if getKind r = TRACE_RESP then Inr ([ToApp r], pc)
         else if getKind r = TRACE_REQ then pc_strategy (handleNewTrace wmem r) now pc
         else Inl (Abort ''PFSClient::handleMessage'')
     | CQ q \<Rightarrow>
         if getKind q = LAYOUT_REQ then Inr ([ToEth (CQ q)], pc)
         else if getKind q = LAYOUT_RESP
           then pc_strategy (handleMetadataPacketResponse ml ms (q\<lparr>q_returntime := now\<rparr>)) now pc
         else Inl (Abort ''PFSClient::handleMessage'')
     | CG g \<Rightarrow>
         if getKind g \<in> {PFS_W_REQ, PFS_R_REQ, PFS_W_DATA, PFS_W_DATA_LAST} then Inr ([ToEth (CG g)], pc)
         else if getKind g \<in> {PFS_W_RESP, PFS_R_DATA, PFS_R_DATA_LAST, PFS_W_FIN}
           then pc_strategy (handleDataPacketResponse (g\<lparr>getReturntime := now\<rparr>)) now pc
         else Inl (Abort ''PFSClient::handleMessage''))"

end
