(* ===== verification/ClientRun.thy ===== *)
theory ClientRun
  imports Client
begin

text \<open>
  What the client does over a run: the accounts of requests and traces, the identities of
  its packets, the cutting of writes, and a schedule in which a trace is never served.
\<close>

section \<open>The loop over a trace ends\<close>

lemma getNext_ID:
  "getNextgPacketFromWindow lo tr = Inr (p, tr') \<Longrightarrow> tr_ID tr' = tr_ID tr"
  by (auto simp: getNextgPacketFromWindow_def split: if_splits option.splits)

lemma openNewWindow_ID: "openNewWindow lo tr = Inr (b, tr') \<Longrightarrow> tr_ID tr' = tr_ID tr"
  by (auto simp: openNewWindow_def Let_def split: if_splits)

lemma nextgPacket_ID: "nextgPacket lo tr = Inr (p, tr') \<Longrightarrow> tr_ID tr' = tr_ID tr"
  by (auto simp: nextgPacket_def split: if_splits dest!: getNext_ID openNewWindow_ID)

lemma finishedgPacket_ID: "finishedgPacket lo p tr = Inr (st, tr') \<Longrightarrow> tr_ID tr' = tr_ID tr"
  by (auto simp: finishedgPacket_def Let_def split: if_splits)

lemma wt_start_at_ID: "wt_start_at lo jumps i s = Inr s' \<Longrightarrow> tr_ID (snd s') = tr_ID (snd s)"
  by (cases s) (auto simp: wt_start_at_def Let_def split: if_split_asm)

lemma wt_setLayout_ID:
  assumes "wt_setLayout lo tr = Inr tr'"
  shows "tr_ID tr' = tr_ID tr"
proof -
  let ?ws = "fst (getWindowSize lo)"
  from assms obtain rem tr1 where
    run: "run_res (wt_start_at lo (tr_offset tr sdiv ?ws)) [0..serverNum lo - 1] (tr_offset tr smod ?ws, tr\<lparr>wt_layout := True\<rparr>) = Inr (rem, tr1)"
    and op: "\<exists>b. openNewWindow lo (tr1\<lparr>dataSizeInWindow := fold (\<lambda>i d. d(i := SW_NULL)) [0..serverNum lo - 1] (dataSizeInWindow tr1)\<rparr>) = Inr (b, tr')"
    by (auto simp: wt_setLayout_def Let_def split: if_splits)
  have "tr_ID (snd (rem, tr1)) = tr_ID tr"
    by (rule run_res_invariant [where P = "\<lambda>s. tr_ID (snd s) = tr_ID tr", OF _ _ run])
      (use wt_start_at_ID in \<open>auto\<close>)
  with op show ?thesis by (auto dest!: openNewWindow_ID)
qed

text \<open>The slots that are still to be asked for.\<close>

definition unsent :: "layout \<Rightarrow> wtrace \<Rightarrow> int list" where
  "unsent lo tr = filter (\<lambda>i. dataSizeInWindow tr i > 0) [0..serverNum lo - 1]"

lemma getNext_unsent:
  assumes "getNextgPacketFromWindow lo tr = Inr (Some p, tr')"
  shows "length (unsent lo tr') < length (unsent lo tr)"
    "\<exists>i\<in>set [0..serverNum lo - 1]. dataSizeInWindow tr' i = SW_SENT"
proof -
  from assms obtain i where i: "find (\<lambda>i. dataSizeInWindow tr i > 0) [0..serverNum lo - 1] = Some i"
    and d: "dataSizeInWindow tr' = (dataSizeInWindow tr)(i := SW_SENT)"
    by (auto simp: getNextgPacketFromWindow_def split: if_splits option.splits)
  from i have mem: "i \<in> set [0..serverNum lo - 1]" "dataSizeInWindow tr i > 0"
    by (auto simp: find_Some_iff in_set_conv_nth)
  with d show "\<exists>i\<in>set [0..serverNum lo - 1]. dataSizeInWindow tr' i = SW_SENT" by auto
  have "set (unsent lo tr') = set (unsent lo tr) - {i}" using d by (auto simp: unsent_def SW_SENT_def)
  moreover have "i \<in> set (unsent lo tr)" using mem by (simp add: unsent_def)
  moreover have "distinct (unsent lo tr)" "distinct (unsent lo tr')" by (simp_all add: unsent_def)
  ultimately show "length (unsent lo tr') < length (unsent lo tr)"
    by (metis card_Diff1_less List.finite_set distinct_card)
qed

lemma nextgPacket_after_send:
  assumes "\<exists>i\<in>set [0..serverNum lo - 1]. dataSizeInWindow tr i = SW_SENT" "nextgPacket lo tr = Inr (Some p, tr')"
  shows "length (unsent lo tr') < length (unsent lo tr)"
    "\<exists>i\<in>set [0..serverNum lo - 1]. dataSizeInWindow tr' i = SW_SENT"
proof -
  have "getNextgPacketFromWindow lo tr = Inr (Some p, tr')"
  proof (cases "getNextgPacketFromWindow lo tr")
    case (Inr r)
    moreover have "fst r = None \<Longrightarrow> snd r = tr"
      using Inr by (auto simp: getNextgPacketFromWindow_def split: if_splits option.splits)
    ultimately show ?thesis using assms
      by (cases r; cases "fst r") (auto simp: nextgPacket_def split: if_splits)
  qed (use assms(2) in \<open>auto simp: nextgPacket_def split: if_splits\<close>)
  then show "length (unsent lo tr') < length (unsent lo tr)"
    "\<exists>i\<in>set [0..serverNum lo - 1]. dataSizeInWindow tr' i = SW_SENT" by (rule getNext_unsent)+
qed

lemma nextgPacket_Some_sent:
  assumes "nextgPacket lo tr = Inr (Some p, tr')"
  shows "length (unsent lo tr') < nat (serverNum lo)"
    "\<exists>i\<in>set [0..serverNum lo - 1]. dataSizeInWindow tr' i = SW_SENT"
proof -
  from assms obtain tr1 where g: "getNextgPacketFromWindow lo tr1 = Inr (Some p, tr')"
    by (auto simp: nextgPacket_def split: if_splits)
  have "length (unsent lo tr1) \<le> nat (serverNum lo)"
    using length_filter_le [of _ "[0..serverNum lo - 1]"] by (simp add: unsent_def)
  with getNext_unsent [OF g] show "length (unsent lo tr') < nat (serverNum lo)"
    "\<exists>i\<in>set [0..serverNum lo - 1]. dataSizeInWindow tr' i = SW_SENT" by auto
qed

definition gen_diverges :: fault where
  "gen_diverges = Diverge ''PVFS2ClientStrategy::generateDataPacketRequests''"

lemma nextgPacket_not_gen:
  "nextgPacket lo tr \<noteq> Inl gen_diverges"
proof -
  have deal: "wt_deal n lo st pos i f l d \<noteq> Inl gen_diverges" for n st pos i f l d
    by (induction n arbitrary: i f l d)
      (auto simp: gen_diverges_def getServerStripeSize_def Let_def bindR_Inl_iff split: if_splits)
  have "openNewWindow lo tr \<noteq> Inl gen_diverges" for tr
    using deal by (auto simp: openNewWindow_def Let_def bindR_Inl_iff) (simp_all add: gen_diverges_def)
  moreover have "getNextgPacketFromWindow lo tr \<noteq> Inl gen_diverges" for tr
    by (auto simp: getNextgPacketFromWindow_def gen_diverges_def getServerID_def bindR_Inl_iff split: if_splits option.splits)
  ultimately show ?thesis
    by (auto simp: nextgPacket_def bindR_Inl_iff split: if_splits) (simp_all add: gen_diverges_def)
qed

lemma gen_requests_after_send:
  assumes "\<exists>i\<in>set [0..serverNum lo - 1]. dataSizeInWindow tr i = SW_SENT" "length (unsent lo tr) < n"
  shows "gen_requests n cid lo tr rid \<noteq> Inl gen_diverges"
  using assms
proof (induction n arbitrary: tr rid)
  case (Suc n)
  show ?case
  proof (cases "nextgPacket lo tr")
    case (Inl e)
    with nextgPacket_not_gen [of lo tr] show ?thesis by simp
  next
    case (Inr r)
    obtain p tr' where r: "r = (p, tr')" by (cases r)
    show ?thesis
    proof (cases p)
      case (Some g)
      from nextgPacket_after_send [OF Suc.prems(1)] Inr r Some
      have "length (unsent lo tr') < length (unsent lo tr)"
        "\<exists>i\<in>set [0..serverNum lo - 1]. dataSizeInWindow tr' i = SW_SENT" by auto
      with Suc.prems(2) Suc.IH [of tr' "next_requestID cid rid"] Inr r Some show ?thesis
        by (auto simp: bindR_Inl_iff)
    qed (use Inr r in simp)
  qed
qed simp

lemma gen_requests_ends: "gen_requests (nat (serverNum lo) + 1) cid lo tr rid \<noteq> Inl gen_diverges"
proof (cases "nextgPacket lo tr")
  case (Inl e)
  with nextgPacket_not_gen [of lo tr] show ?thesis by simp
next
  case (Inr r)
  obtain p tr' where r: "r = (p, tr')" by (cases r)
  show ?thesis
  proof (cases p)
    case (Some g)
    from nextgPacket_Some_sent [of lo tr g tr'] Inr r Some
      gen_requests_after_send [of lo tr' "nat (serverNum lo)" cid "next_requestID cid rid"]
    have "gen_requests (nat (serverNum lo)) cid lo tr' (next_requestID cid rid) \<noteq> Inl gen_diverges" by simp
    with Inr r Some show ?thesis by (auto simp: bindR_Inl_iff)
  qed (use Inr r in simp)
qed

section \<open>The identities of the packets\<close>

text \<open>A request identity of client \<open>cid\<close>: the router finds the client by \<^verbatim>\<open>/ CID_OFFSET\<close>,
  and up to \<^verbatim>\<open>RID_OFFSET - 1\<close> packets of the same request follow it.\<close>

definition rid_ok :: "int \<Rightarrow> int \<Rightarrow> bool" where
  "rid_ok cid rid \<longleftrightarrow> first_requestID cid \<le> rid \<and> rid + RID_OFFSET < CID_OFFSET * (cid + 1) \<and> RID_OFFSET dvd rid"

lemma rid_ok_first: "rid_ok cid (first_requestID cid)"
  by (simp add: rid_ok_def first_requestID_def CID_OFFSET_def RID_OFFSET_def)

lemma rid_ok_next:
  assumes "0 \<le> cid" "rid_ok cid rid"
  shows "rid_ok cid (next_requestID cid rid)"
proof (cases "(rid + RID_OFFSET) smod CID_OFFSET \<ge> CID_OFFSET - RID_OFFSET")
  case True
  then show ?thesis using rid_ok_first by (simp add: next_requestID_def Let_def)
next
  case False
  let ?r = "rid + RID_OFFSET"
  from assms have r: "1000000 * cid + 2000 \<le> ?r" "?r < 1000000 * (cid + 1)" "1000 dvd ?r"
    by (auto simp: rid_ok_def first_requestID_def CID_OFFSET_def RID_OFFSET_def)
  then have "?r mod 1000000 = ?r - 1000000 * cid"
    using assms(1) by (subst mod_eq_dvd_iff [of ?r 1000000 "?r - 1000000 * cid", THEN iffD2])
      (auto simp: mod_pos_pos_trivial)
  with False r assms(1) have "?r - 1000000 * cid < 999000"
    by (simp add: smod_nonneg CID_OFFSET_def RID_OFFSET_def)
  with r False show ?thesis
    by (simp add: next_requestID_def Let_def rid_ok_def first_requestID_def CID_OFFSET_def RID_OFFSET_def)
qed

lemma rid_ok_client:
  assumes "0 \<le> cid" "rid_ok cid rid" "0 \<le> k" "k < RID_OFFSET"
  shows "(rid + k) sdiv CID_OFFSET = cid" "(rid + k) sdiv RID_OFFSET = rid sdiv RID_OFFSET"
proof -
  from assms have r: "1000000 * cid + 1000 \<le> rid" "rid + 1000 < 1000000 * (cid + 1)" "1000 dvd rid" "k < 1000"
    by (auto simp: rid_ok_def first_requestID_def CID_OFFSET_def RID_OFFSET_def)
  with assms(1,3) show "(rid + k) sdiv CID_OFFSET = cid"
    by (simp add: sdiv_nonneg CID_OFFSET_def)
  from r(3) obtain m where "rid = 1000 * m" by (rule dvdE)
  with r(4) assms(1,3) r(1) show "(rid + k) sdiv RID_OFFSET = rid sdiv RID_OFFSET"
    by (simp add: sdiv_nonneg RID_OFFSET_def)
qed

definition is_data_request :: "int \<Rightarrow> gPacket \<Rightarrow> bool" where
  "is_data_request cid p \<longleftrightarrow> rid_ok cid (getID p) \<and> getClientID p = cid \<and> getKind p \<in> {PFS_R_REQ, PFS_W_REQ}"

lemma gen_requests_spec:
  assumes "gen_requests n cid lo tr rid = Inr (pkts, tr', rid')" "0 \<le> cid" "rid_ok cid rid"
  shows "tr_ID tr' = tr_ID tr \<and> rid_ok cid rid' \<and> (\<forall>p\<in>set pkts. is_data_request cid p)"
  using assms
proof (induction n arbitrary: tr rid pkts)
  case (Suc n)
  from Suc.prems(1) obtain g tr1 where g: "nextgPacket lo tr = Inr (g, tr1)"
    by (cases "nextgPacket lo tr") auto
  show ?case
  proof (cases g)
    case None
    with g Suc.prems show ?thesis by (simp add: nextgPacket_ID)
  next
    case (Some q)
    with g Suc.prems obtain pkts1 where
      rec: "gen_requests n cid lo tr1 (next_requestID cid rid) = Inr (pkts1, tr', rid')"
      and pkts: "pkts = data_request cid rid q # pkts1" by auto
    from Suc.IH [OF rec Suc.prems(2) rid_ok_next [OF Suc.prems(2,3)]] nextgPacket_ID [OF g] Suc.prems(3) pkts
    show ?thesis by (simp add: is_data_request_def data_request_def)
  qed
qed simp

lemma gen_traces_spec:
  assumes "gen_traces cid files fid trs rid = Inr (pkts, trs', rid')" "0 \<le> cid" "rid_ok cid rid"
  shows "map tr_ID trs' = map tr_ID trs \<and> rid_ok cid rid' \<and> (\<forall>p\<in>set pkts. is_data_request cid p)"
  using assms
proof (induction trs arbitrary: trs')
  case (Cons tr trs)
  show ?case
  proof (cases "tr_pfsFileID tr = fid")
    case True
    with Cons.prems(1) obtain lo tr1 where "gen_requests (nat (serverNum lo) + 1) cid lo tr rid = Inr (pkts, tr1, rid')"
      "trs' = tr1 # trs" by (auto simp del: gen_requests.simps)
    with gen_requests_spec Cons.prems(2,3) show ?thesis by fastforce
  next
    case False
    with Cons.prems(1) obtain trs1 where "gen_traces cid files fid trs rid = Inr (pkts, trs1, rid')"
      "trs' = tr # trs1" by auto
    with Cons.IH Cons.prems(2,3) show ?thesis by fastforce
  qed
qed simp

section \<open>The accounts\<close>

definition q_ids :: "AppRequest fifo \<Rightarrow> int multiset" where
  "q_ids q = image_mset getID (mset (waitQ q)) + image_mset getID (mset (osQ q))"

definition queries :: "cpkt list \<Rightarrow> int list" where
  "queries pkts = concat (map (\<lambda>m. case m of CQ q \<Rightarrow> [q_fileId q] | _ \<Rightarrow> []) pkts)"

definition answers :: "cpkt list \<Rightarrow> int list" where
  "answers pkts = concat (map (\<lambda>m. case m of CApp r \<Rightarrow> [getID r] | _ \<Rightarrow> []) pkts)"

lemma pkts_simps [simp]:
  "queries [] = []" "answers [] = []"
  "queries (ps @ ps') = queries ps @ queries ps'" "answers (ps @ ps') = answers ps @ answers ps'"
  "queries (map CG gs) = []" "answers (map CG gs) = []"
  "queries [CQ q] = [q_fileId q]" "answers [CQ q] = []" "queries [CApp r] = []" "answers [CApp r] = [getID r]"
  by (simp_all add: queries_def answers_def)

text \<open>What the packets of a client look like, whatever the handler that made them.\<close>

definition cpkt_ok :: "int \<Rightarrow> cpkt \<Rightarrow> bool" where
  "cpkt_ok cid m = (case m of
     CApp r \<Rightarrow> getKind r = TRACE_RESP
   | CQ q \<Rightarrow> getKind q = LAYOUT_REQ \<and> rid_ok cid (getID q)
   | CG g \<Rightarrow> is_data_request cid g \<or> getKind g \<in> {PFS_W_DATA, PFS_W_DATA_LAST})"

definition cs_inv :: "int \<Rightarrow> cstrategy \<Rightarrow> bool" where
  "cs_inv cid cs \<longleftrightarrow> cs_myID cs = cid \<and> rid_ok cid (requestID cs) \<and>
     image_mset tr_ID (mset (traces cs)) = q_ids (appRequestQ cs)"

datatype cs_event = NewTrace wtrace AppRequest | MetaResp "int \<Rightarrow> int" "int \<Rightarrow> int" qPacket | DataResp gPacket

definition cs_step :: "cs_event \<Rightarrow> cstrategy \<Rightarrow> (cpkt list \<times> cstrategy) res" where
  "cs_step ev cs = (case ev of
     NewTrace wmem r \<Rightarrow> handleNewTrace wmem r cs
   | MetaResp ml ms q \<Rightarrow> handleMetadataPacketResponse ml ms q cs
   | DataResp g \<Rightarrow> handleDataPacketResponse g cs)"

text \<open>
  The effect of a handler on the accounts: the requests it accepts and answers, and the
  files for which it asks the layout.
\<close>

definition accepts :: "cs_event \<Rightarrow> int list" where
  "accepts ev = (case ev of NewTrace wmem r \<Rightarrow> [getID r] | _ \<Rightarrow> [])"

definition cs_effect :: "int \<Rightarrow> int list \<Rightarrow> cstrategy \<Rightarrow> cpkt list \<Rightarrow> cstrategy \<Rightarrow> bool" where
  "cs_effect cid acc cs pkts cs' \<longleftrightarrow> cs_inv cid cs' \<and> (\<forall>m\<in>set pkts. cpkt_ok cid m) \<and>
     q_ids (appRequestQ cs) + mset acc = q_ids (appRequestQ cs') + mset (answers pkts) \<and>
     (\<forall>f. pfsFiles cs f \<noteq> None \<longrightarrow> pfsFiles cs' f \<noteq> None) \<and>
     length (queries pkts) \<le> 1 \<and>
     (\<forall>f\<in>set (queries pkts). pfsFiles cs f = None \<and> pfsFiles cs' f \<noteq> None)"

lemma generate_effect:
  assumes "generateDataPacketRequests fid cs = Inr (pkts, cs')" "0 \<le> cid" "cs_inv cid cs"
  shows "cs_effect cid [] cs pkts cs'"
proof -
  from assms(1) obtain gs trs rid where g: "gen_traces (cs_myID cs) (pfsFiles cs) fid (traces cs) (requestID cs) = Inr (gs, trs, rid)"
    and r: "pkts = map CG gs" "cs' = cs\<lparr>traces := trs, requestID := rid\<rparr>"
    by (auto simp: generateDataPacketRequests_def)
  from assms(3) have "cs_myID cs = cid" "rid_ok cid (requestID cs)" by (auto simp: cs_inv_def)
  with gen_traces_spec [OF g] assms(2) have "map tr_ID trs = map tr_ID (traces cs)" "rid_ok cid rid"
    "\<forall>p\<in>set gs. is_data_request cid p" by auto
  moreover from this(1) have "image_mset tr_ID (mset trs) = image_mset tr_ID (mset (traces cs))"
    by (simp flip: mset_map)
  ultimately show ?thesis using assms(3) r by (auto simp: cs_effect_def cs_inv_def cpkt_ok_def)
qed

lemma cs_effect_prefix:
  assumes "cs_effect cid [] cs1 pkts cs'" "q_ids (appRequestQ cs) + mset acc = q_ids (appRequestQ cs1)"
    "\<And>f. pfsFiles cs f \<noteq> None \<Longrightarrow> pfsFiles cs1 f \<noteq> None" "queries pkts = []"
  shows "cs_effect cid acc cs pkts cs'"
  using assms by (auto simp: cs_effect_def)

lemma q_ids_dispatch: "q_ids (snd (fifo_dispatchNext q)) = q_ids q"
  by (auto simp: fifo_dispatchNext_def q_ids_def split: list.splits)

lemma q_ids_accept: "q_ids (snd (fifo_dispatchNext (fifo_pushWaitQ r q))) = q_ids q + {#getID r#}"
  by (simp add: q_ids_dispatch) (simp add: q_ids_def fifo_pushWaitQ_def)

lemma generate_queries: "generateDataPacketRequests fid cs = Inr (pkts, cs') \<Longrightarrow> queries pkts = []"
  by (auto simp: generateDataPacketRequests_def)

lemma handleNewTrace_effect:
  assumes "handleNewTrace wmem r cs = Inr (pkts, cs')" "0 \<le> cid" "cs_inv cid cs"
  shows "cs_effect cid [getID r] cs pkts cs'"
proof -
  define q where "q = snd (fifo_dispatchNext (fifo_pushWaitQ r (appRequestQ cs)))"
  have q: "q_ids q = q_ids (appRequestQ cs) + {#getID r#}" by (simp add: q_def q_ids_accept)
  define tr where "tr = wt_initialize_request r (WindowBasedTrace_new wmem)"
  have tr: "tr_ID tr = getID r" by (simp add: tr_def wt_initialize_request_def)
  note inv = assms(3) [unfolded cs_inv_def]
  show ?thesis
  proof (cases "pfsFiles cs (ar_fileID r)")
    case None
    with assms(1) obtain files where files: "files = (pfsFiles cs)(ar_fileID r \<mapsto> PVFS2File_new (ar_fileID r))"
      and r: "cs' = cs\<lparr>appRequestQ := q, pfsFiles := files, traces := traces cs @ [tr]\<rparr>"
      "pkts = [CQ ((createPFSFileMetadataPacket (requestID cs) (cs_myID cs) 0 (PVFS2File_new (ar_fileID r)))\<lparr>getKind := LAYOUT_REQ\<rparr>)]"
      by (auto simp: handleNewTrace_def findPFSFile_def addPFSFile_def PVFS2File_new_def q_def tr_def Let_def)
    then show ?thesis using inv q tr None
      by (auto simp: cs_effect_def cs_inv_def cpkt_ok_def createPFSFileMetadataPacket_def PVFS2File_new_def)
  next
    case (Some f)
    show ?thesis
    proof (cases "informationIsSet f")
      case True
      with assms(1) Some obtain lo tr1 where tr1: "wt_setLayout lo tr = Inr tr1"
        and g: "generateDataPacketRequests (ar_fileID r) (cs\<lparr>appRequestQ := q, traces := traces cs @ [tr1]\<rparr>) = Inr (pkts, cs')"
        by (auto simp: handleNewTrace_def findPFSFile_def q_def tr_def Let_def)
      from wt_setLayout_ID [OF tr1] tr inv q have "cs_inv cid (cs\<lparr>appRequestQ := q, traces := traces cs @ [tr1]\<rparr>)"
        by (simp add: cs_inv_def)
      from generate_effect [OF g assms(2) this] show ?thesis
        by (rule cs_effect_prefix) (use q generate_queries [OF g] in simp_all)
    next
      case False
      with assms(1) Some have "pkts = []" "cs' = cs\<lparr>appRequestQ := q, traces := traces cs @ [tr]\<rparr>"
        by (auto simp: handleNewTrace_def findPFSFile_def q_def tr_def Let_def)
      with inv q tr show ?thesis by (simp add: cs_effect_def cs_inv_def)
    qed
  qed
qed

lemma set_layouts_ID: "set_layouts fid lo trs = Inr trs' \<Longrightarrow> map tr_ID trs' = map tr_ID trs"
  by (induction trs arbitrary: trs') (auto split: if_splits dest!: wt_setLayout_ID)

lemma handleMetadata_effect:
  assumes "handleMetadataPacketResponse ml ms q cs = Inr (pkts, cs')" "0 \<le> cid" "cs_inv cid cs"
  shows "cs_effect cid [] cs pkts cs'"
proof -
  let ?f = "q_fileId q"
  from assms(1) obtain files pf lo trs where
    files: "files = pfsFiles cs \<or> (\<exists>f. files = (pfsFiles cs)(?f \<mapsto> f))"
    and trs: "set_layouts ?f lo (traces cs) = Inr trs"
    and g: "generateDataPacketRequests ?f (cs\<lparr>pfsFiles := files(?f \<mapsto> pf), traces := trs\<rparr>) = Inr (pkts, cs')"
    by (auto simp: handleMetadataPacketResponse_def findPFSFile_def addPFSFile_def Let_def PVFS2File_new_def
        split: option.splits if_splits)
  from set_layouts_ID [OF trs] have "image_mset tr_ID (mset trs) = image_mset tr_ID (mset (traces cs))"
    by (simp flip: mset_map)
  with assms(3) have "cs_inv cid (cs\<lparr>pfsFiles := files(?f \<mapsto> pf), traces := trs\<rparr>)" by (simp add: cs_inv_def)
  from generate_effect [OF g assms(2) this] show ?thesis
    by (rule cs_effect_prefix) (use files generate_queries [OF g] in auto)
qed

lemma split_data_kinds:
  "split_data n limit pktid loff ub g = Inr pkts \<Longrightarrow> \<forall>p\<in>set pkts. getKind p \<in> {PFS_W_DATA, PFS_W_DATA_LAST}"
proof (induction n arbitrary: pktid loff pkts)
  case (Suc n)
  show ?case
  proof (cases "loff + limit \<ge> ub \<or> getRead g \<noteq> 0")
    case False
    with Suc.prems obtain ps where "split_data n limit (pktid + 1) (loff + limit) ub g = Inr ps"
      "pkts = g\<lparr>getID := pktid, getKind := PFS_W_DATA, getLowoffset := loff, getSize := limit\<rparr> # ps" by auto
    with Suc.IH show ?thesis by fastforce
  qed (use Suc.prems in auto)
qed simp

lemma store_trace_ID: "tr_ID tr' = i \<Longrightarrow> map tr_ID (store_trace i tr' trs) = map tr_ID trs"
  by (induction trs) auto

lemma erase_trace_mset:
  "i \<in> tr_ID ` set trs \<Longrightarrow> image_mset tr_ID (mset trs) = add_mset i (image_mset tr_ID (mset (erase_trace i trs)))"
  by (induction trs) auto

lemma q_ids_mutate: "q_ids (fifo_mutate_job i (\<lambda>r. r\<lparr>ar_earliestsubrequestfinishtime := t\<rparr>) q) = q_ids q"
proof -
  have "map getID (mutate_first P (\<lambda>r. r\<lparr>ar_earliestsubrequestfinishtime := t\<rparr>) xs) = map getID xs"
    for P and xs :: "AppRequest list"
    by (induction xs) auto
  then have "image_mset getID (mset (mutate_first P (\<lambda>r. r\<lparr>ar_earliestsubrequestfinishtime := t\<rparr>) xs)) = image_mset getID (mset xs)"
    for P and xs :: "AppRequest list"
    by (metis mset_map)
  then show ?thesis by (simp add: q_ids_def fifo_mutate_job_def)
qed

lemma q_ids_pop:
  "fifo_popOsQ i q = (Some r, q') \<Longrightarrow> q_ids q = q_ids q' + {#getID r#} \<and> getID r = i"
  by (auto simp: fifo_popOsQ_def q_ids_def split: option.splits dest: erase_first_mset erase_first_sat)

lemma processLast_effect:
  assumes "processLastDataPacketResponse p cs = Inr (pkts, cs')" "0 \<le> cid" "cs_inv cid cs"
  shows "cs_effect cid [] cs pkts cs'"
proof -
  let ?i = "getSubID p"
  from assms(1) obtain trace lo ret trace' where
    find: "find (\<lambda>tr. tr_ID tr = ?i) (traces cs) = Some trace" and
    lay: "trace_layout (pfsFiles cs) trace = Inr lo" and
    fin: "finishedgPacket lo p trace = Inr (ret, trace')"
    by (auto simp: processLastDataPacketResponse_def split: option.splits)
  have i: "tr_ID trace' = ?i" "?i \<in> tr_ID ` set (traces cs)"
    using find finishedgPacket_ID [OF fin] by (auto simp: find_Some_iff intro!: image_eqI [of _ _ trace])
  let ?trs = "store_trace ?i trace' (traces cs)"
  have trs: "image_mset tr_ID (mset ?trs) = image_mset tr_ID (mset (traces cs))" "?i \<in> tr_ID ` set ?trs"
    using store_trace_ID [OF i(1), of "traces cs"] i(2) by (simp_all flip: mset_map set_map)
  define cs0 where "cs0 = cs\<lparr>traces := ?trs\<rparr>"
  from assms(1) find fin obtain request where q: "fifo_queryJob ?i (appRequestQ cs0) = Some request"
    by (auto simp: processLastDataPacketResponse_def Let_def cs0_def split: option.splits)
  define cs1 where "cs1 = (if ar_earliestsubrequestfinishtime request < 0
      then cs0\<lparr>appRequestQ := fifo_mutate_job ?i (\<lambda>r. r\<lparr>ar_earliestsubrequestfinishtime := getFinishtime p\<rparr>) (appRequestQ cs0)\<rparr>
      else cs0)"
  have cs1: "traces cs1 = ?trs" "pfsFiles cs1 = pfsFiles cs" "q_ids (appRequestQ cs1) = q_ids (appRequestQ cs)"
      "cs_myID cs1 = cs_myID cs" "requestID cs1 = requestID cs"
    by (auto simp: cs1_def cs0_def q_ids_mutate)
  have rest: "(if ret = ALL_DONE then
               (case fifo_popOsQ ?i (appRequestQ cs1) of
                  (None, q) \<Rightarrow> Inl (Abort ''PVFS2ClientStrategy::processLastDataPacketResponse'')
                | (Some r, q) \<Rightarrow> Inr ([CApp (r\<lparr>getKind := TRACE_RESP\<rparr>)],
                     cs1\<lparr>traces := erase_trace ?i (traces cs1), appRequestQ := q\<rparr>))
             else if ret = MORE_TO_SEND then generateDataPacketRequests (getFileId p) cs1
             else if ret = INVALID then Inl (Abort ''PVFS2ClientStrategy::processLastDataPacketResponse'')
             else Inr ([], cs1)) = Inr (pkts, cs')"
    using assms(1) find fin q lay
    by (simp only: processLastDataPacketResponse_def option.case bindR.simps prod.case Let_def
        cs0_def [symmetric] cs1_def [symmetric])
  have inv1: "cs_inv cid cs1" using assms(3) cs1 trs by (simp add: cs_inv_def)
  show ?thesis
  proof (cases "ret = ALL_DONE")
    case True
    with rest obtain r q where pop: "fifo_popOsQ ?i (appRequestQ cs1) = (Some r, q)"
      and r: "pkts = [CApp (r\<lparr>getKind := TRACE_RESP\<rparr>)]" "cs' = cs1\<lparr>traces := erase_trace ?i (traces cs1), appRequestQ := q\<rparr>"
      by (auto split: prod.splits option.splits)
    from erase_trace_mset [OF trs(2)] q_ids_pop [OF pop] inv1 r cs1 show ?thesis
      by (simp add: cs_effect_def cs_inv_def cpkt_ok_def)
  next
    case False
    show ?thesis
    proof (cases "ret = MORE_TO_SEND")
      case True
      with rest have g: "generateDataPacketRequests (getFileId p) cs1 = Inr (pkts, cs')" by simp
      from generate_effect [OF g assms(2) inv1] show ?thesis
        by (rule cs_effect_prefix) (use cs1 generate_queries [OF g] in simp_all)
    next
      case more: False
      with False rest have "pkts = []" "cs' = cs1" by (auto split: if_splits)
      with inv1 cs1 show ?thesis by (simp add: cs_effect_def)
    qed
  qed
qed

lemma cs_step_effect:
  assumes "cs_step ev cs = Inr (pkts, cs')" "0 \<le> cid" "cs_inv cid cs"
  shows "cs_effect cid (accepts ev) cs pkts cs'"
proof (cases ev)
  case (NewTrace wmem r)
  with assms handleNewTrace_effect show ?thesis by (simp add: cs_step_def accepts_def)
next
  case (MetaResp ml ms q)
  with assms handleMetadata_effect show ?thesis by (simp add: cs_step_def accepts_def)
next
  case (DataResp g)
  with assms(1) have h: "handleDataPacketResponse g cs = Inr (pkts, cs')" by (simp add: cs_step_def)
  then have "[] = pkts \<and> cs = cs' \<or> processDataPacketResponse g cs = Inr (pkts, cs')
      \<or> processLastDataPacketResponse g cs = Inr (pkts, cs')"
    unfolding handleDataPacketResponse_def by (simp split: if_split_asm)
  then consider "pkts = []" "cs' = cs" | "processDataPacketResponse g cs = Inr (pkts, cs')"
    | "processLastDataPacketResponse g cs = Inr (pkts, cs')" by blast
  then have "cs_effect cid [] cs pkts cs'"
  proof cases
    case 1
    with assms(3) show ?thesis by (simp add: cs_effect_def)
  next
    case 2
    then obtain ps where "split_data (nat (getSize g) + 1) (packet_size_limit cs) (getID g + 1)
        (getLowoffset g) (getLowoffset g + getSize g) g = Inr ps" "pkts = map CG ps" "cs' = cs"
      by (auto simp: processDataPacketResponse_def simp del: split_data.simps)
    with assms(3) split_data_kinds show ?thesis by (fastforce simp: cs_effect_def cpkt_ok_def)
  next
    case 3
    from processLast_effect [OF this assms(2,3)] show ?thesis .
  qed
  with DataResp show ?thesis by (simp add: accepts_def)
qed

section \<open>A run of the client\<close>

definition cs_log_step :: "cs_event \<Rightarrow> cstrategy \<times> cpkt list \<Rightarrow> (cstrategy \<times> cpkt list) res" where
  "cs_log_step ev s = (case s of (cs, lg) \<Rightarrow> bindR (cs_step ev cs) (\<lambda>(pkts, cs'). Inr (cs', lg @ pkts)))"

definition cs_ledger :: "int \<Rightarrow> int list \<Rightarrow> cstrategy \<times> cpkt list \<Rightarrow> bool" where
  "cs_ledger cid acc s \<longleftrightarrow> (case s of (cs, lg) \<Rightarrow> cs_inv cid cs \<and> (\<forall>m\<in>set lg. cpkt_ok cid m) \<and>
     mset acc = mset (answers lg) + q_ids (appRequestQ cs) \<and>
     distinct (queries lg) \<and> (\<forall>f\<in>set (queries lg). pfsFiles cs f \<noteq> None))"

lemma cs_ledger_step:
  assumes "cs_log_step ev s = Inr s'" "0 \<le> cid" "cs_ledger cid acc s"
  shows "cs_ledger cid (acc @ accepts ev) s'"
proof -
  obtain cs lg where s: "s = (cs, lg)" by (cases s)
  with assms(1) obtain pkts cs' where st: "cs_step ev cs = Inr (pkts, cs')" and s': "s' = (cs', lg @ pkts)"
    by (auto simp: cs_log_step_def)
  from cs_step_effect [OF st assms(2)] assms(3) s have e: "cs_effect cid (accepts ev) cs pkts cs'"
    by (simp add: cs_ledger_def)
  have "distinct (queries pkts)" using e by (cases "queries pkts") (auto simp: cs_effect_def)
  with e assms(3) show ?thesis
    by (auto simp: cs_effect_def cs_ledger_def s s' ac_simps)
qed

lemma cs_ledger_run:
  assumes "run_res cs_log_step evs s = Inr s'" "0 \<le> cid" "cs_ledger cid acc s"
  shows "cs_ledger cid (acc @ concat (map accepts evs)) s'"
  using assms(1,3)
proof (induction evs arbitrary: s acc)
  case (Cons ev evs)
  from Cons.prems(1) obtain s1 where s1: "cs_log_step ev s = Inr s1" "run_res cs_log_step evs s1 = Inr s'" by auto
  from Cons.IH [OF s1(2) cs_ledger_step [OF s1(1) assms(2) Cons.prems(2)]] show ?case by simp
qed simp

lemma cs_ledger_new:
  assumes "PVFS2ClientStrategy_new cid = Inr cs"
  shows "cs_ledger cid [] (cs, [])"
  using assms rid_ok_first
  by (auto simp: PVFS2ClientStrategy_new_def createScheduler_def cs_ledger_def cs_inv_def q_ids_def FIFO_new_def)

text \<open>
  Claim C15. The accounts of a client agree over any run of its handlers: the requests that
  the applications submitted are exactly the ones that were answered with \<^verbatim>\<open>TRACE_RESP\<close>
  and the ones that are pending, with multiplicities; every pending request has one trace,
  and none else has one; the layout of a file is asked for at most once; and asking the
  traces of a file for packets always ends.
\<close>

theorem client_books:
  assumes "0 \<le> cid" "PVFS2ClientStrategy_new cid = Inr cs0" "run_res cs_log_step evs (cs0, []) = Inr (cs, lg)"
  shows "mset (concat (map accepts evs)) = mset (answers lg) + image_mset tr_ID (mset (traces cs)) \<and>
    image_mset tr_ID (mset (traces cs)) = q_ids (appRequestQ cs) \<and> distinct (queries lg) \<and>
    generateDataPacketRequests fid cs \<noteq> Inl gen_diverges"
proof (intro conjI)
  have "cs_ledger cid (concat (map accepts evs)) (cs, lg)"
    using cs_ledger_run [OF assms(3,1) cs_ledger_new [OF assms(2)]] by simp
  then show "mset (concat (map accepts evs)) = mset (answers lg) + image_mset tr_ID (mset (traces cs))"
    and "image_mset tr_ID (mset (traces cs)) = q_ids (appRequestQ cs)" "distinct (queries lg)"
    by (auto simp: cs_ledger_def cs_inv_def)
  have "gen_traces c files fid trs rid \<noteq> Inl gen_diverges" for c files trs rid
  proof (induction trs)
    case (Cons tr trs)
    have "trace_layout files tr \<noteq> Inl gen_diverges"
      by (auto simp: trace_layout_def gen_diverges_def split: option.splits)
    with Cons gen_requests_ends show ?case by (auto simp: bindR_Inl_iff simp del: gen_requests.simps)
  qed simp
  then show "generateDataPacketRequests fid cs \<noteq> Inl gen_diverges"
    by (auto simp: generateDataPacketRequests_def bindR_Inl_iff)
qed

text \<open>
  The identities of the packets of a client stay in its range over any run, also
  when the counter wraps: for a data request with identity \<open>i\<close> that the client sends, the
  router finds the client as \<open>i / CID_OFFSET\<close> and the proxy finds the request as
  \<open>i / RID_OFFSET * RID_OFFSET\<close>, and the same holds for the identities \<open>i + k\<close> of the up to
  999 packets that follow it; the identity of a layout query names the client as well.
\<close>

theorem client_packet_identities:
  assumes "0 \<le> cid" "PVFS2ClientStrategy_new cid = Inr cs0" "run_res cs_log_step evs (cs0, []) = Inr (cs, lg)"
  shows "(\<forall>p k. CG p \<in> set lg \<and> getKind p \<in> {PFS_R_REQ, PFS_W_REQ} \<and> 0 \<le> k \<and> k < RID_OFFSET \<longrightarrow>
      (getID p + k) sdiv CID_OFFSET = cid \<and> (getID p + k) sdiv RID_OFFSET * RID_OFFSET = getID p \<and> getClientID p = cid) \<and>
    (\<forall>q. CQ q \<in> set lg \<longrightarrow> getID q sdiv CID_OFFSET = cid \<and> getKind q = LAYOUT_REQ)"
proof -
  have ok: "\<forall>m\<in>set lg. cpkt_ok cid m"
    using cs_ledger_run [OF assms(3,1) cs_ledger_new [OF assms(2)]] by (simp add: cs_ledger_def)
  have "(getID p + k) sdiv CID_OFFSET = cid \<and> (getID p + k) sdiv RID_OFFSET * RID_OFFSET = getID p \<and> getClientID p = cid"
    if p: "CG p \<in> set lg" "getKind p \<in> {PFS_R_REQ, PFS_W_REQ}" "0 \<le> k" "k < RID_OFFSET" for p k
  proof -
    from p(1,2) ok have r: "rid_ok cid (getID p)" "getClientID p = cid"
      by (auto simp: cpkt_ok_def is_data_request_def)
    then have "RID_OFFSET dvd getID p" "0 \<le> getID p" using assms(1)
      by (auto simp: rid_ok_def first_requestID_def CID_OFFSET_def RID_OFFSET_def)
    then have "getID p sdiv RID_OFFSET * RID_OFFSET = getID p"
      by (simp add: sdiv_nonneg RID_OFFSET_def)
    with rid_ok_client [OF assms(1) r(1) p(3,4)] r(2) show ?thesis by simp
  qed
  moreover have "getID q sdiv CID_OFFSET = cid \<and> getKind q = LAYOUT_REQ" if "CQ q \<in> set lg" for q
  proof -
    from that ok have "rid_ok cid (getID q)" "getKind q = LAYOUT_REQ" by (auto simp: cpkt_ok_def)
    with rid_ok_client(1) [OF assms(1) this(1), of 0] show ?thesis by (simp add: RID_OFFSET_def)
  qed
  ultimately show ?thesis by blast
qed

definition demo_reply :: qPacket where
  "demo_reply = new_qPacket\<lparr>getKind := LAYOUT_RESP, q_fileId := 5, q_dsNum := 1, q_dsList := (\<lambda>_. 4), q_dsStripeSizes := (\<lambda>_. 65536)\<rparr>"

definition demo_request :: "int \<Rightarrow> AppRequest" where
  "demo_request i = new_AppRequest\<lparr>getID := i, ar_fileID := 5, ar_totalSize := 100, ar_read := 1\<rparr>"

definition demo_last :: "int \<Rightarrow> gPacket" where
  "demo_last i = new_gPacket\<lparr>getKind := PFS_R_DATA_LAST, getSubID := i, getDsID := 4, getFileId := 5\<rparr>"

definition demo_client :: cstrategy where
  "demo_client = run_ok (PVFS2ClientStrategy_new 3)"

lemma demo_client: "PVFS2ClientStrategy_new 3 = Inr demo_client"
  "demo_client = \<lparr> cs_myID = 3, traces = [], pfsFiles = (\<lambda>_. None), appRequestQ = FIFO_new 3 100,
     requestID = 3001000, packet_size_limit = 10000000 \<rparr>"
  by (simp_all add: demo_client_def PVFS2ClientStrategy_new_def createScheduler_def first_requestID_def CID_OFFSET_def RID_OFFSET_def)

lemma upto_00 [simp]: "[0..0::int] = [0]"
  by (simp add: upto.simps)

text \<open>The layout and the traces of the run, as values.\<close>

definition demo_lo :: layout where
  "demo_lo = \<lparr> lo_fileID = 5, windowSize = 65536, serverNum = 1, serverList = (\<lambda>_. 0)(0 := 4),
     serverStripeSizes = (\<lambda>_. 0)(0 := 65536) \<rparr>"

definition demo_new :: "int \<Rightarrow> wtrace" where
  "demo_new i = wt_initialize_request (demo_request i) (WindowBasedTrace_new demo_trace)"

definition demo_open :: "int \<Rightarrow> wtrace" where
  "demo_open i = (demo_new i)\<lparr>wt_layout := True, dsoffsets := (\<lambda>_. 7)(0 := 0), dataSizeInWindow := (\<lambda>_. 7)(0 := 100),
     unProcessedSize := 0, aggregateSize := 100, offset_start_server := 0, offset_start_position := 0,
     totalSubreqsInWindow := 1\<rparr>"

definition demo_sent :: "int \<Rightarrow> wtrace" where
  "demo_sent i = (demo_open i)\<lparr>sentPktSize := (sentPktSize (demo_open i))(0 := 100),
     dataSizeInWindow := (dataSizeInWindow (demo_open i))(0 := SW_SENT)\<rparr>"

definition demo_pkt1 :: gPacket where
  "demo_pkt1 = data_request 3 3001000 (wt_packet demo_lo (demo_open 1) 0 4)"

lemma demo_lo_simps [simp]:
  "serverNum demo_lo = 1" "getWindowSize demo_lo = (65536, demo_lo)" "getServerStripeSize demo_lo 0 = Inr 65536"
  "getServerID demo_lo 0 = Inr 4" "findServerIndex demo_lo 4 = 0"
  by (simp_all add: demo_lo_def getWindowSize_def getServerStripeSize_def getServerID_def findServerIndex_def MAX_DS_def)

lemma demo_new_simps [simp]:
  "tr_ID (demo_new i) = i" "tr_offset (demo_new i) = 0" "tr_pfsFileID (demo_new i) = 5" "unProcessedSize (demo_new i) = 100"
  "dsoffsets (demo_new i) = (\<lambda>_. 7)" "dataSizeInWindow (demo_new i) = (\<lambda>_. 7)" "tr_read (demo_new i) = 1"
  by (simp_all add: demo_new_def demo_request_def wt_initialize_request_def WindowBasedTrace_new_def new_AppRequest_def
      demo_trace_def wt_initialize_def)

lemma demo_trace_simps [simp]:
  "tr_ID (demo_open i) = i" "tr_pfsFileID (demo_open i) = 5" "tr_ID (demo_sent i) = i" "tr_pfsFileID (demo_sent i) = 5"
  by (simp_all add: demo_open_def demo_sent_def)

lemma demo_set: "wt_setLayout demo_lo (demo_new i) = Inr (demo_open i)"
  by (simp add: wt_setLayout_def wt_start_at_def two_run sdiv_nonneg smod_nonneg demo_open_def)

lemma demo_next1: "nextgPacket demo_lo (demo_open i) = Inr (Some (wt_packet demo_lo (demo_open i) 0 4), demo_sent i)"
  by (simp add: nextgPacket_def getNextgPacketFromWindow_def demo_sent_def demo_open_def)

lemma demo_next2: "nextgPacket demo_lo (demo_sent i) = Inr (None, demo_sent i)"
  by (simp add: nextgPacket_def getNextgPacketFromWindow_def demo_sent_def demo_open_def SW_SENT_def)

lemma demo_gen1: "gen_requests 2 3 demo_lo (demo_open 1) 3001000 = Inr ([demo_pkt1], demo_sent 1, 3002000)"
  by (simp add: numeral_2_eq_2 demo_next1 demo_next2 demo_pkt1_def next_requestID_def smod_nonneg CID_OFFSET_def RID_OFFSET_def)

lemma demo_gen2: "gen_requests 2 3 demo_lo (demo_sent i) rid = Inr ([], demo_sent i, rid)"
  by (simp add: numeral_2_eq_2 demo_next2)

lemma demo_finish: "finishedgPacket demo_lo (demo_last 1) (demo_sent 1) =
  Inr (ALL_DONE, (demo_sent 1)\<lparr>dataSizeInWindow := (dataSizeInWindow (demo_sent 1))(0 := SW_RECEIVED), dsoffsets := (\<lambda>_. 7)(0 := 100)\<rparr>)"
  by (simp add: finishedgPacket_def demo_last_def demo_sent_def demo_open_def sw_defs new_gPacket_def Let_def)

definition demo_files :: pfsfiles where
  "demo_files = (\<lambda>_. None)(5 \<mapsto> \<lparr> pf_ID = 5, pf_layout = Some demo_lo \<rparr>)"

lemma demo_metadata: "setFromPFSFileMetadataPacket (\<lambda>_. 0) (\<lambda>_. 0) demo_reply (PVFS2File_new 5) =
    Inr \<lparr> pf_ID = 5, pf_layout = Some demo_lo \<rparr>"
  by (simp add: setFromPFSFileMetadataPacket_def PVFS2File_new_def Layout_new_def setLayout_def setLayout_at_def
      demo_reply_def new_qPacket_def MAX_DS_def demo_lo_def)

lemma demo_request_simps [simp]:
  "getID (demo_request i) = i" "ar_fileID (demo_request i) = 5" "ar_earliestsubrequestfinishtime (demo_request i) = -1"
  "q_fileId demo_reply = 5"
  by (simp_all add: demo_request_def demo_reply_def new_AppRequest_def)

lemma demo_pkt_kind: "getKind (demo_last i) = PFS_R_DATA_LAST" "getSubID (demo_last i) = i" "getFinishtime (demo_last i) = 0"
  by (simp_all add: demo_last_def new_gPacket_def)

abbreviation "demo_state files trs os rid \<equiv>
  \<lparr> cs_myID = 3, traces = trs, pfsFiles = files,
    appRequestQ = \<lparr> myID = 3, degree = 100, appNum = 0, waitQ = [], osQ = os \<rparr>,
    requestID = rid, packet_size_limit = 10000000 \<rparr>"

lemma demo_step1: "handleNewTrace demo_trace (demo_request 1) demo_client =
  Inr ([CQ ((createPFSFileMetadataPacket 3001000 3 0 (PVFS2File_new 5))\<lparr>getKind := LAYOUT_REQ\<rparr>)],
    demo_state ((\<lambda>_. None)(5 \<mapsto> PVFS2File_new 5)) [demo_new 1] [demo_request 1] 3001000)"
  by (simp add: demo_client(2) handleNewTrace_def fifo_pushWaitQ_def fifo_dispatchNext_def FIFO_new_def findPFSFile_def
      addPFSFile_def Let_def PVFS2File_new_def demo_new_def)

lemma demo_step2: "handleMetadataPacketResponse (\<lambda>_. 0) (\<lambda>_. 0) demo_reply
    (demo_state ((\<lambda>_. None)(5 \<mapsto> PVFS2File_new 5)) [demo_new 1] [demo_request 1] 3001000) =
  Inr ([CG demo_pkt1], demo_state demo_files [demo_sent 1] [demo_request 1] 3002000)"
  using demo_gen1 [unfolded numeral_2_eq_2]
  by (simp add: handleMetadataPacketResponse_def findPFSFile_def demo_metadata pf_getLayout_def demo_set
      generateDataPacketRequests_def trace_layout_def demo_files_def Let_def del: gen_requests.simps)

lemma demo_step3: "handleNewTrace demo_trace (demo_request 2)
    (demo_state demo_files [demo_sent 1] [demo_request 1] 3002000) =
  Inr ([], demo_state demo_files [demo_sent 1, demo_open 2] [demo_request 1, demo_request 2] 3002000)"
  using demo_gen2 [of 1 3002000, unfolded numeral_2_eq_2]
  by (simp add: handleNewTrace_def fifo_pushWaitQ_def fifo_dispatchNext_def findPFSFile_def demo_files_def
      informationIsSet_def pf_getLayout_def demo_set [unfolded demo_new_def] generateDataPacketRequests_def
      trace_layout_def Let_def del: gen_requests.simps)

lemma demo_step4: "handleDataPacketResponse (demo_last 1)
    (demo_state demo_files [demo_sent 1, demo_open 2] [demo_request 1, demo_request 2] 3002000) =
  Inr ([CApp ((demo_request 1)\<lparr>getKind := TRACE_RESP, ar_earliestsubrequestfinishtime := 0\<rparr>)],
    demo_state demo_files [demo_open 2] [demo_request 2] 3002000)"
  by (simp add: handleDataPacketResponse_def processLastDataPacketResponse_def demo_pkt_kind trace_layout_def findPFSFile_def
      demo_files_def demo_finish fifo_queryJob_def fifo_mutate_job_def fifo_popOsQ_def Let_def)

text \<open>
  A request can be left without service: the \<^verbatim>\<open>return\<close> in the loop of
  \<^verbatim>\<open>generateDataPacketRequests\<close> stops at the first trace of a file that waits for a reply, and
  the reply that finishes a trace asks no other trace. When a second request for the same
  file arrives while the first one waits for its data, and then all data of the first
  arrives, the first is answered, the second one has its window open with all its data
  unsent, and no packet is outstanding, so no event of the network will serve it.
\<close>

theorem client_starves_second_request:
  "\<exists>cs p. run_res cs_log_step
      [NewTrace demo_trace (demo_request 1), MetaResp (\<lambda>_. 0) (\<lambda>_. 0) demo_reply,
       NewTrace demo_trace (demo_request 2), DataResp (demo_last 1)] (demo_client, [])
     = Inr (cs, [CQ ((createPFSFileMetadataPacket 3001000 3 0 (PVFS2File_new 5))\<lparr>getKind := LAYOUT_REQ\<rparr>),
                 CG p, CApp ((demo_request 1)\<lparr>getKind := TRACE_RESP, ar_earliestsubrequestfinishtime := 0\<rparr>)]) \<and>
     getSubID p = 1 \<and> getSize p = 100 \<and> map tr_ID (traces cs) = [2] \<and> dataSizeInWindow (hd (traces cs)) 0 = 100"
proof -
  have "getSubID demo_pkt1 = 1" "getSize demo_pkt1 = 100" "dataSizeInWindow (demo_open 2) 0 = 100"
    by (simp_all add: demo_pkt1_def data_request_def wt_packet_def demo_open_def to_int32_id)
  then show ?thesis
    by (intro exI [of _ "demo_state demo_files [demo_open 2] [demo_request 2] 3002000"] exI [of _ demo_pkt1])
      (simp add: cs_log_step_def cs_step_def demo_step1 demo_step2 demo_step3 demo_step4)
qed

theorem client_books_witness:
  "mset (concat (map accepts [NewTrace demo_trace (demo_request 1), MetaResp (\<lambda>_. 0) (\<lambda>_. 0) demo_reply])) =
     mset (answers [CQ ((createPFSFileMetadataPacket 3001000 3 0 (PVFS2File_new 5))\<lparr>getKind := LAYOUT_REQ\<rparr>), CG demo_pkt1]) +
     image_mset tr_ID (mset [demo_sent 1])"
  using client_books [OF _ demo_client(1), of "[NewTrace demo_trace (demo_request 1), MetaResp (\<lambda>_. 0) (\<lambda>_. 0) demo_reply]"
    "demo_state demo_files [demo_sent 1] [demo_request 1] 3002000"
    "[CQ ((createPFSFileMetadataPacket 3001000 3 0 (PVFS2File_new 5))\<lparr>getKind := LAYOUT_REQ\<rparr>), CG demo_pkt1]"]
  by (simp add: cs_log_step_def cs_step_def demo_step1 demo_step2)

theorem client_packet_identities_witness:
  "(getID demo_pkt1 + 999) sdiv CID_OFFSET = 3"
proof -
  have "run_res cs_log_step [NewTrace demo_trace (demo_request 1), MetaResp (\<lambda>_. 0) (\<lambda>_. 0) demo_reply] (demo_client, []) =
    Inr (demo_state demo_files [demo_sent 1] [demo_request 1] 3002000,
      [CQ ((createPFSFileMetadataPacket 3001000 3 0 (PVFS2File_new 5))\<lparr>getKind := LAYOUT_REQ\<rparr>), CG demo_pkt1])"
    by (simp add: cs_log_step_def cs_step_def demo_step1 demo_step2)
  note ids = client_packet_identities [OF _ demo_client(1) this]
  have "getKind demo_pkt1 = PFS_R_REQ"
    by (simp add: demo_pkt1_def data_request_def wt_packet_def demo_open_def)
  with ids [THEN conjunct1, rule_format, of demo_pkt1 999] show ?thesis by (simp add: RID_OFFSET_def)
qed

section \<open>Cutting a write into packets\<close>

lemma split_data_spec:
  assumes "0 < limit" "limit < 2147483648" "getRead g = 0" "loff \<le> ub" "nat (ub - loff) < n"
  shows "\<exists>pkts. split_data n limit pktid loff ub g = Inr pkts \<and> pieces limit loff pkts ub \<and>
    (\<forall>k < length pkts. getID (pkts ! k) = pktid + int k \<and>
       getKind (pkts ! k) = (if Suc k = length pkts then PFS_W_DATA_LAST else PFS_W_DATA)) \<and>
    pkts \<noteq> [] \<and> int (length pkts) \<le> (ub - loff) div limit + 1"
  using assms(4,5)
proof (induction n arbitrary: pktid loff)
  case (Suc n)
  show ?case
  proof (cases "loff + limit \<ge> ub")
    case True
    with Suc.prems(1) assms(1,2) have "to_int32 (ub - loff) = ub - loff" by (intro to_int32_id) auto
    with True Suc.prems(1) assms(1) show ?thesis by (simp add: pos_imp_zdiv_nonneg_iff)
  next
    case False
    with Suc.prems assms(1) have "loff + limit \<le> ub" "nat (ub - (loff + limit)) < n" by auto
    from Suc.IH [OF this, of "pktid + 1"] obtain pkts where
      rec: "split_data n limit (pktid + 1) (loff + limit) ub g = Inr pkts" and
      p: "pieces limit (loff + limit) pkts ub" "pkts \<noteq> []" "int (length pkts) \<le> (ub - (loff + limit)) div limit + 1" and
      k: "\<And>k. k < length pkts \<Longrightarrow> getID (pkts ! k) = pktid + 1 + int k \<and>
       getKind (pkts ! k) = (if Suc k = length pkts then PFS_W_DATA_LAST else PFS_W_DATA)" by blast
    have "(ub - loff) div limit = (ub - (loff + limit)) div limit + 1"
      using assms(1) div_add_self2 [of limit "ub - (loff + limit)"] by simp
    moreover define q where "q = g\<lparr>getID := pktid, getKind := PFS_W_DATA, getLowoffset := loff, getSize := limit\<rparr>"
    moreover have "getID ((q # pkts) ! j) = pktid + int j \<and>
       getKind ((q # pkts) ! j) = (if Suc j = length (q # pkts) then PFS_W_DATA_LAST else PFS_W_DATA)"
      if "j < length (q # pkts)" for j
      using that k p(2) by (cases j) (auto simp: q_def)
    ultimately show ?thesis using False rec p assms(1,3) by (intro exI [of _ "q # pkts"]) (simp add: q_def)
  qed
qed simp

text \<open>
  Claim C16. The data of a write is cut exactly: for every response to a write request whose
  size is not negative, and every positive packet size limit, the loop ends and the packets
  carry the bytes of the request one after the other without gap or overlap, none larger
  than the limit; their identities count up from the one after the request, only the last
  packet is \<^verbatim>\<open>PFS_W_DATA_LAST\<close>, and there is at most one more than the size divided by the
  limit. So as long as that is fewer than \<^verbatim>\<open>RID_OFFSET\<close> packets, they all belong to the
  request and to the client of the request.
\<close>

theorem write_is_cut_exactly:
  assumes "0 < packet_size_limit cs" "packet_size_limit cs < 2147483648" "getRead g = 0" "0 \<le> getSize g"
  obtains pkts where "processDataPacketResponse g cs = Inr (map CG pkts, cs)"
    "pieces (packet_size_limit cs) (getLowoffset g) pkts (getLowoffset g + getSize g)"
    "\<And>k. k < length pkts \<Longrightarrow> getID (pkts ! k) = getID g + 1 + int k \<and>
       getKind (pkts ! k) = (if Suc k = length pkts then PFS_W_DATA_LAST else PFS_W_DATA)"
    "pkts \<noteq> []" "int (length pkts) \<le> getSize g div packet_size_limit cs + 1"
    "\<And>p cid. p \<in> set pkts \<Longrightarrow> 0 \<le> cid \<Longrightarrow> rid_ok cid (getID g) \<Longrightarrow>
       getSize g div packet_size_limit cs + 1 < RID_OFFSET \<Longrightarrow>
       getID p sdiv CID_OFFSET = cid \<and> getID p sdiv RID_OFFSET * RID_OFFSET = getID g"
proof -
  obtain pkts where s: "split_data (nat (getSize g) + 1) (packet_size_limit cs) (getID g + 1) (getLowoffset g)
      (getLowoffset g + getSize g) g = Inr pkts"
    "pieces (packet_size_limit cs) (getLowoffset g) pkts (getLowoffset g + getSize g)"
    "\<And>k. k < length pkts \<Longrightarrow> getID (pkts ! k) = getID g + 1 + int k \<and>
       getKind (pkts ! k) = (if Suc k = length pkts then PFS_W_DATA_LAST else PFS_W_DATA)"
    "pkts \<noteq> []" "int (length pkts) \<le> getSize g div packet_size_limit cs + 1"
    using split_data_spec [OF assms(1-3), of "getLowoffset g" "getLowoffset g + getSize g" "nat (getSize g) + 1" "getID g + 1"]
      assms(4) by auto
  have ids: "getID p sdiv CID_OFFSET = cid \<and> getID p sdiv RID_OFFSET * RID_OFFSET = getID g"
    if p: "p \<in> set pkts" "0 \<le> cid" "rid_ok cid (getID g)" "getSize g div packet_size_limit cs + 1 < RID_OFFSET" for p cid
  proof -
    from p(1) obtain k where k: "k < length pkts" "p = pkts ! k" by (metis in_set_conv_nth)
    with s(3,5) p(4) have id: "getID p = getID g + (1 + int k)" "1 + int k < RID_OFFSET" by auto
    from p have "getID g sdiv RID_OFFSET * RID_OFFSET = getID g"
      by (auto simp: rid_ok_def first_requestID_def CID_OFFSET_def RID_OFFSET_def sdiv_nonneg)
    with rid_ok_client [OF p(2,3), of "1 + int k"] id show ?thesis by simp
  qed
  show ?thesis
    by (rule that [OF _ s(2-5) ids]) (use s(1) in \<open>simp add: processDataPacketResponse_def del: split_data.simps\<close>)
qed

theorem write_is_cut_exactly_witness:
  "\<exists>pkts. processDataPacketResponse (new_gPacket\<lparr>getID := 3001000, getLowoffset := 50, getSize := 250\<rparr>)
      (demo_client\<lparr>packet_size_limit := 100\<rparr>) = Inr (map CG pkts, demo_client\<lparr>packet_size_limit := 100\<rparr>) \<and>
    pieces 100 50 pkts 300 \<and> int (length pkts) \<le> 3"
  by (rule write_is_cut_exactly [of "demo_client\<lparr>packet_size_limit := 100\<rparr>" "new_gPacket\<lparr>getID := 3001000, getLowoffset := 50, getSize := 250\<rparr>"])
    (auto simp: new_gPacket_def)

end
