(* ===== verification/Application.thy ===== *)
theory Application
  imports Trace
begin

text \<open>
  \<^verbatim>\<open>client/application/Application.cc\<close>: the applications of a client. An application reads
  traces from its flows and sends each one to the \<^verbatim>\<open>PFSClient\<close> as a request.

  The reader of the trace files is a parameter: \<open>rd id inp\<close> is what \<^verbatim>\<open>readTrace(id)\<close> gives on
  the input \<open>inp\<close>, None at the end of the file of the flow, with the input that is left. The
  counter \<^verbatim>\<open>activeApplications\<close> is static, shared by all applications, and is part of the
  state that the operations pass on. \<^verbatim>\<open>endSimulation\<close> leaves the handler by an exception of
  OMNeT++: nothing is executed after the output \<open>EndSimulation\<close>.
\<close>

record application =
  ap_myID :: int
  ap_active :: bool
  traceProcessTime :: real

datatype ap_out = SendRequest AppRequest | RequestAt real AppRequest | WriteTrace itrace | EndSimulation

definition Application_new :: "int \<Rightarrow> real \<Rightarrow> application" where
  "Application_new i procTime = \<lparr> ap_myID = i, ap_active = False, traceProcessTime = procTime \<rparr>"

text \<open>The time at which \<^verbatim>\<open>readOneTrace\<close> sends the request of a trace.\<close>

definition send_time :: "real \<Rightarrow> real \<Rightarrow> itrace \<Rightarrow> real" where
  "send_time now procTime tr =
    (let t = (if tr_sync tr = 0 then tr_startTime tr else now + tr_startTime tr)
     in if now + procTime > t then now + procTime else t)"

type_synonym 'i ap_state = "application \<times> int \<times> 'i"

definition readOneTrace ::
  "(int \<Rightarrow> 'i \<Rightarrow> itrace option \<times> 'i) \<Rightarrow> real \<Rightarrow> int \<Rightarrow> 'i ap_state \<Rightarrow> ap_out list \<times> 'i ap_state" where
  "readOneTrace rd now flow s =
    (case s of (ap, activeApplications, inp) \<Rightarrow>
     case rd flow inp of
       (None, inp) \<Rightarrow>
         let n = (if ap_active ap then activeApplications - 1 else activeApplications)
         in (if n = 0 then [EndSimulation] else [], (ap\<lparr>ap_active := False\<rparr>, n, inp))
     | (Some tr, inp) \<Rightarrow>
         let t = send_time now (traceProcessTime ap) tr;
             request = (createAppRequest tr)\<lparr>getKind := TRACE_REQ, ar_starttime := t\<rparr>
         in ([if t > now then RequestAt t request else SendRequest request], (ap, activeApplications, inp)))"

fun read_flows ::
  "(int \<Rightarrow> 'i \<Rightarrow> itrace option \<times> 'i) \<Rightarrow> real \<Rightarrow> int list \<Rightarrow> 'i ap_state \<Rightarrow> ap_out list \<times> 'i ap_state" where
  "read_flows rd now [] s = ([], s)"
| "read_flows rd now (i # is) s =
     (case readOneTrace rd now i s of (outs, s) \<Rightarrow>
      if EndSimulation \<in> set outs then (outs, s) else
      case read_flows rd now is s of (outs', s) \<Rightarrow> (outs @ outs', s))"

definition generateInitialTraces ::
  "(int \<Rightarrow> 'i \<Rightarrow> itrace option \<times> 'i) \<Rightarrow> int \<Rightarrow> real \<Rightarrow> 'i ap_state \<Rightarrow> ap_out list \<times> 'i ap_state" where
  "generateInitialTraces rd flowCount now s =
    (case s of (ap, n, inp) \<Rightarrow>
      read_flows rd now [0..flowCount - 1]
        (if \<not> ap_active ap then (ap\<lparr>ap_active := True\<rparr>, n + 1, inp) else (ap, n, inp)))"

text \<open>\<open>mem\<close> is the uninitialised trace of \<^verbatim>\<open>handleFinishedTrace\<close>, \<open>traceOutput\<close> whether there is an output.\<close>

definition handleFinishedTrace ::
  "(int \<Rightarrow> 'i \<Rightarrow> itrace option \<times> 'i) \<Rightarrow> itrace \<Rightarrow> bool \<Rightarrow> real \<Rightarrow> AppRequest \<Rightarrow> 'i ap_state \<Rightarrow> ap_out list \<times> 'i ap_state" where
  "handleFinishedTrace rd mem traceOutput now request s =
    (let request = request\<lparr>ar_finishtime := now\<rparr>;
         trace = it_initialize_request request mem
     in case readOneTrace rd now (ar_traceFileID request) s of (outs, s) \<Rightarrow>
        ((if traceOutput then [WriteTrace trace] else []) @ outs, s))"

definition ap_handleMessage ::
  "(int \<Rightarrow> 'i \<Rightarrow> itrace option \<times> 'i) \<Rightarrow> itrace \<Rightarrow> bool \<Rightarrow> real \<Rightarrow> AppRequest \<Rightarrow> 'i ap_state \<Rightarrow>
   (ap_out list \<times> 'i ap_state) res" where
  "ap_handleMessage rd mem traceOutput now request s =
    (if getKind request = TRACE_REQ then Inr ([SendRequest request], s)
     else if getKind request = TRACE_RESP then Inr (handleFinishedTrace rd mem traceOutput now request s)
     else Inl (Abort ''Application::handleMessage''))"

section \<open>When the simulation ends\<close>

text \<open>The input as a list of traces for each flow.\<close>

definition list_reader :: "int \<Rightarrow> (int \<Rightarrow> itrace list) \<Rightarrow> itrace option \<times> (int \<Rightarrow> itrace list)" where
  "list_reader i inp = (case inp i of [] \<Rightarrow> (None, inp) | tr # trs \<Rightarrow> (Some tr, inp(i := trs)))"

definition demo_itrace :: itrace where
  "demo_itrace = \<lparr> tr_ID = 4, tr_offset = 0, tr_totalSize = 8, tr_read = 1, tr_applicationID = 0, tr_startTime = 5,
     tr_finishTime = 0, tr_earliestSubrequestFinishTime = 0, tr_sync = 0, tr_traceFileID = 1, tr_pfsFileID = 5 \<rparr>"

text \<open>
  The simulation ends at the first end of a file, not at the last one: an application is
  inactive as soon as one of its flows ends. With one application that has two flows of
  which the first is empty, \<^verbatim>\<open>endSimulation\<close> is called while reading the initial traces, and
  the trace of the other flow is never read.
\<close>

theorem simulation_ends_with_first_flow:
  "generateInitialTraces list_reader 2 0 (Application_new 0 1, 0, (\<lambda>_. [])(1 := [demo_itrace])) =
    ([EndSimulation], Application_new 0 1, 0, (\<lambda>_. [])(1 := [demo_itrace]))"
proof -
  have "[0..1::int] = [0, 1]" by (simp add: upto.simps)
  then show ?thesis
    by (simp add: generateInitialTraces_def Application_new_def readOneTrace_def list_reader_def Let_def)
qed

text \<open>A request is never sent before the processing time has passed, and it records the time of sending.\<close>

lemma readOneTrace_time:
  assumes "rd i inp = (Some tr, inp')" "0 \<le> traceProcessTime ap"
  obtains t request where "readOneTrace rd now i (ap, n, inp) =
      ([if t > now then RequestAt t request else SendRequest request], (ap, n, inp'))"
    "now + traceProcessTime ap \<le> t" "ar_starttime request = t" "getID request = tr_ID tr"
proof -
  let ?t = "send_time now (traceProcessTime ap) tr"
  let ?r = "(createAppRequest tr)\<lparr>getKind := TRACE_REQ, ar_starttime := ?t\<rparr>"
  have "now + traceProcessTime ap \<le> ?t" by (simp add: send_time_def Let_def)
  with assms that [of ?t ?r] show ?thesis by (simp add: readOneTrace_def Let_def createAppRequest_def)
qed

end
