(* ===== verification/Dsd.thy ===== *)
theory Dsd
  imports Scheduler
begin

text \<open>
  \<^verbatim>\<open>dserver/dsd\<close>: the daemon of a data server. \<^verbatim>\<open>PVFS2DSD\<close> cuts a read into
  sub-requests of at most \<^verbatim>\<open>subreq_size\<close> bytes, which it issues one after the other, and
  passes writes on; \<^verbatim>\<open>DSD_M\<close> is the module around it, which talks to the network and to
  the VFS.

  The record \<^verbatim>\<open>info_t\<close> is allocated with \<^verbatim>\<open>new info_t()\<close>, which sets all fields to 0.
\<close>

section \<open>PVFS2DSD\<close>

record dsd_info =
  small_req :: int
  info_size :: int
  info_loff :: int
  info_hoff :: int
  info_lub :: int
  info_fid :: int
  info_subID :: int
  info_app :: int
  info_read :: int
  decision :: int
  info_cid :: int

definition new_info :: dsd_info where
  "new_info = \<lparr> small_req = 0, info_size = 0, info_loff = 0, info_hoff = 0, info_lub = 0, info_fid = 0,
     info_subID = 0, info_app = 0, info_read = 0, decision = 0, info_cid = 0 \<rparr>"

record dsd =
  subreq_size :: int
  reqQ :: "gPacket fifo"
  subreqQ :: "gPacket fifo"
  infoMap :: "int \<Rightarrow> dsd_info option"

definition PVFS2DSD_new :: "int \<Rightarrow> int \<Rightarrow> int \<Rightarrow> dsd res" where
  "PVFS2DSD_new i deg subreqsize =
     bindR (createScheduler ''FIFO'' i deg) (\<lambda>rq.
     bindR (createScheduler ''FIFO'' i 1) (\<lambda>sq.
     Inr \<lparr> subreq_size = subreqsize, reqQ = rq, subreqQ = sq, infoMap = (\<lambda>_. None) \<rparr>))"

text \<open>The information that \<^verbatim>\<open>newReq\<close> records for a read.\<close>

definition read_info :: "int \<Rightarrow> gPacket \<Rightarrow> dsd_info" where
  "read_info subreqsize gpkt =
    new_info\<lparr>small_req := (if getSize gpkt < subreqsize then 1 else 0), info_loff := getLowoffset gpkt,
      info_size := getSize gpkt, info_lub := getLowoffset gpkt + getSize gpkt, info_hoff := getHighoffset gpkt,
      info_read := getRead gpkt, info_subID := getSubID gpkt, info_app := getApp gpkt,
      info_fid := getFileId gpkt, decision := getDsID gpkt, info_cid := getClientID gpkt\<rparr>"

text \<open>A new sub-request of a read: the fields that come from the information.\<close>

definition new_subreq :: "dsd_info \<Rightarrow> int \<Rightarrow> int \<Rightarrow> int \<Rightarrow> gPacket" where
  "new_subreq info i loff subreqsize =
    new_gPacket\<lparr>getKind := LFILE_REQ, getID := i, getLowoffset := loff, getHighoffset := info_hoff info,
      getSize := subreqsize, getRead := info_read info, getSubID := info_subID info, getApp := info_app info,
      getFileId := info_fid info, getDsID := decision info, getClientID := info_cid info\<rparr>"

definition newReq :: "gPacket option \<Rightarrow> dsd \<Rightarrow> dsd" where
  "newReq p d =
    (case p of None \<Rightarrow> d
     | Some gpkt \<Rightarrow>
        let d = d\<lparr>reqQ := snd (fifo_dispatchNext (fifo_pushWaitQ gpkt (reqQ d)))\<rparr>;
            key = to_int32 (getID gpkt);
            insert_info = (\<lambda>info m. if m key = None then m(key \<mapsto> info) else m)
        in if getRead gpkt = 0 then
             d\<lparr>infoMap := insert_info (new_info\<lparr>decision := (if getKind gpkt = SELF_PFS_W_DATA_LAST then 1 else 0)\<rparr>) (infoMap d),
               subreqQ := fifo_pushWaitQ gpkt (subreqQ d)\<rparr>
           else
             let info = read_info (subreq_size d) gpkt;
                 d = d\<lparr>infoMap := insert_info info (infoMap d)\<rparr>
             in if info_lub info - info_loff info \<le> subreq_size d then
                  d\<lparr>subreqQ := fifo_pushWaitQ (gpkt\<lparr>getKind := LFILE_REQ\<rparr>) (subreqQ d)\<rparr>
                else
                  d\<lparr>subreqQ := fifo_pushWaitQ
                     ((new_subreq info (getID gpkt + SUBREQ_OFFSET) (info_loff info) (subreq_size d))
                        \<lparr>getRisetime := getRisetime gpkt, getSubmittime := getSubmittime gpkt,
                         getArrivaltime := getArrivaltime gpkt\<rparr>) (subreqQ d)\<rparr>)"

definition dsd_dispatchNext :: "dsd \<Rightarrow> gPacket option \<times> dsd" where
  "dsd_dispatchNext d = (case fifo_dispatchNext (subreqQ d) of (p, q) \<Rightarrow> (p, d\<lparr>subreqQ := q\<rparr>))"

text \<open>The sub-request that follows a finished one, when it is not the last.\<close>

definition next_subreq :: "dsd_info \<Rightarrow> int \<Rightarrow> gPacket \<Rightarrow> dsd \<Rightarrow> (gPacket \<times> dsd) res" where
  "next_subreq info origid fin d =
    (let loff = getLowoffset fin + getSize fin
     in if info_lub info \<le> loff + subreq_size d then
          (case fifo_queryJob origid (reqQ d) of
             None \<Rightarrow> Inl (NullDeref ''PVFS2DSD'')
           | Some orig \<Rightarrow>
               let f = (\<lambda>p. p\<lparr>getKind := LFILE_REQ, getLowoffset := loff, getSize := to_int32 (info_lub info - loff)\<rparr>)
               in Inr (f orig, d\<lparr>reqQ := fifo_mutate_job origid f (reqQ d)\<rparr>))
        else
          Inr (new_subreq info
                 (if (getID fin + SUBREQ_OFFSET) smod RID_OFFSET = 0 then origid + SUBREQ_OFFSET
                  else getID fin + SUBREQ_OFFSET) loff (subreq_size d), d))"

text \<open>\<^verbatim>\<open>finishedReq\<close>: the packet to send back, if any.\<close>

definition finishedReq :: "gPacket \<Rightarrow> dsd \<Rightarrow> (gPacket option \<times> dsd) res" where
  "finishedReq fin d =
    (let origid = (if getRead fin \<noteq> 0 then getID fin sdiv RID_OFFSET * RID_OFFSET else getID fin)
     in case fifo_popOsQ (getID fin) (subreqQ d) of
          (None, q) \<Rightarrow> Inl (Abort ''PVFS2DSD - finishedReq'')
        | (Some x, q) \<Rightarrow>
            let d = d\<lparr>subreqQ := q\<rparr>; key = to_int32 origid
            in case infoMap d key of
                 None \<Rightarrow> Inl (Abort ''PVFS2DSD'')
               | Some info \<Rightarrow>
                   if getRead fin = 0 \<or> info_lub info \<le> getLowoffset fin + getSize fin then
                     (case fifo_popOsQ origid (reqQ d) of
                        (None, rq) \<Rightarrow> Inl (Abort ''PVFS2DSD'')
                      | (Some y, rq) \<Rightarrow>
                          let d = d\<lparr>reqQ := rq, infoMap := (infoMap d)(key := None)\<rparr>
                          in if getRead fin \<noteq> 0 then Inr (Some (fin\<lparr>getKind := PFS_R_DATA_LAST\<rparr>), d)
                             else if decision info = 1 then Inr (Some (fin\<lparr>getKind := PFS_W_FIN\<rparr>), d)
                             else Inr (None, d))
                   else
                     bindR (next_subreq info origid fin d) (\<lambda>(nextsubreq, d).
                     Inr (Some (fin\<lparr>getKind := PFS_R_DATA\<rparr>),
                          d\<lparr>subreqQ := fifo_pushWaitQ nextsubreq (subreqQ d)\<rparr>)))"

section \<open>The module DSD_M\<close>

record dsd_m =
  dm_packet_size_limit :: int
  parallel_job_proc_time :: real
  write_data_proc_time :: real
  write_metadata_proc_time :: real
  read_metadata_proc_time :: real
  small_io_size_threshold :: real
  O_DIRECT :: int
  dm_dsd :: dsd
  readPktIDMap :: "int \<Rightarrow> int option"

datatype dm_out = Eth gPacket | Vfs gPacket | DmAt real gPacket

definition client_ok :: "gPacket \<Rightarrow> 'a \<Rightarrow> 'a res" where
  "client_ok p x = (if getClientID p > 1000 then Inl (Abort ''DSD_M'') else Inr x)"

definition dm_sendToEth :: "gPacket \<Rightarrow> dm_out res" where
  "dm_sendToEth p = client_ok p (Eth p)"

definition dm_sendToVFS :: "gPacket \<Rightarrow> dm_out res" where
  "dm_sendToVFS p = client_ok p (Vfs p)"

text \<open>
  The loop of \<^verbatim>\<open>dispatchVFSReqs\<close>. Every turn takes a request from the wait queue of
  \<^verbatim>\<open>subreqQ\<close>. The stores into the dispatched packet also reach the copies of the queues; no
  operation reads these fields there.
\<close>

fun dm_dispatch :: "nat \<Rightarrow> real \<Rightarrow> dsd_m \<Rightarrow> (dm_out list \<times> dsd_m) res" where
  "dm_dispatch 0 now dm = Inl (Diverge ''DSD_M::dispatchVFSReqs'')"
| "dm_dispatch (Suc n) now dm =
     (case dsd_dispatchNext (dm_dsd dm) of
        (None, d) \<Rightarrow> Inr ([], dm\<lparr>dm_dsd := d\<rparr>)
      | (Some job, d) \<Rightarrow>
          bindR (dm_sendToVFS (job\<lparr>getKind := LFILE_REQ, getDispatchtime := now, getODIRECT := O_DIRECT dm\<rparr>)) (\<lambda>out.
          bindR (dm_dispatch n now (dm\<lparr>dm_dsd := d\<rparr>)) (\<lambda>(outs, dm). Inr (out # outs, dm))))"

definition dispatchVFSReqs :: "real \<Rightarrow> dsd_m \<Rightarrow> (dm_out list \<times> dsd_m) res" where
  "dispatchVFSReqs now dm = dm_dispatch (length (waitQ (subreqQ (dm_dsd dm))) + 1) now dm"

definition enqueueDispatchVFSReqs :: "real \<Rightarrow> gPacket \<Rightarrow> dsd_m \<Rightarrow> (dm_out list \<times> dsd_m) res" where
  "enqueueDispatchVFSReqs now gpkt dm = dispatchVFSReqs now (dm\<lparr>dm_dsd := newReq (Some gpkt) (dm_dsd dm)\<rparr>)"

definition sendWriteResp :: "real \<Rightarrow> gPacket \<Rightarrow> dsd_m \<Rightarrow> (dm_out list \<times> dsd_m) res" where
  "sendWriteResp now gpkt dm =
    bindR (dm_sendToEth (gpkt\<lparr>getDispatchtime := now, getFinishtime := now, getKind := PFS_W_RESP\<rparr>)) (\<lambda>out.
    Inr ([out], dm))"

definition handleReadWriteReq :: "real \<Rightarrow> gPacket \<Rightarrow> dsd_m \<Rightarrow> (dm_out list \<times> dsd_m) res" where
  "handleReadWriteReq now gpkt dm =
    (let gpkt = gpkt\<lparr>getArrivaltime := now\<rparr>
     in if real_of_int (getSize gpkt) < small_io_size_threshold dm \<and> getKind gpkt = PFS_W_REQ then
          let gpkt = gpkt\<lparr>getKind := SELF_PFS_W_REQ\<rparr>
          in if write_data_proc_time dm + write_metadata_proc_time dm \<noteq> 0
             then Inr ([DmAt (now + write_data_proc_time dm + write_metadata_proc_time dm) gpkt], dm)
             else enqueueDispatchVFSReqs now gpkt dm
        else if getKind gpkt = PFS_R_REQ then
          let gpkt = gpkt\<lparr>getKind := SELF_PFS_R_REQ\<rparr>
          in if read_metadata_proc_time dm \<noteq> 0 then Inr ([DmAt (now + read_metadata_proc_time dm) gpkt], dm)
             else enqueueDispatchVFSReqs now gpkt dm
        else
          let gpkt = gpkt\<lparr>getKind := SELF_PFS_W_REQ\<rparr>
          in if write_metadata_proc_time dm \<noteq> 0 then Inr ([DmAt (now + write_metadata_proc_time dm) gpkt], dm)
             else sendWriteResp now gpkt dm)"

definition handleSelfWriteReq :: "real \<Rightarrow> gPacket \<Rightarrow> dsd_m \<Rightarrow> (dm_out list \<times> dsd_m) res" where
  "handleSelfWriteReq now gpkt dm =
    (if real_of_int (getSize gpkt) < small_io_size_threshold dm \<and> getKind gpkt = PFS_W_REQ
     then enqueueDispatchVFSReqs now gpkt dm else sendWriteResp now gpkt dm)"

definition handleWriteDataPacket :: "real \<Rightarrow> gPacket \<Rightarrow> dsd_m \<Rightarrow> (dm_out list \<times> dsd_m) res" where
  "handleWriteDataPacket now gpkt dm =
    (let gpkt = gpkt\<lparr>getArrivaltime := now,
           getKind := (if getKind gpkt = PFS_W_DATA then SELF_PFS_W_DATA
                       else if getKind gpkt = PFS_W_DATA_LAST then SELF_PFS_W_DATA_LAST else getKind gpkt)\<rparr>
     in if write_data_proc_time dm \<noteq> 0 then Inr ([DmAt (now + write_data_proc_time dm) gpkt], dm)
        else enqueueDispatchVFSReqs now gpkt dm)"

text \<open>Sending a packet back, after the parallel processing time.\<close>

definition dm_return :: "real \<Rightarrow> dsd_m \<Rightarrow> gPacket \<Rightarrow> dm_out res" where
  "dm_return now dm p =
    (if parallel_job_proc_time dm \<noteq> 0 \<and> getDispatchtime p + parallel_job_proc_time dm > now
     then Inr (DmAt (getDispatchtime p + parallel_job_proc_time dm) p) else dm_sendToEth p)"

text \<open>
  The loop that splits a read response. With a positive limit every turn takes at least
  one byte; with another limit and a larger size it does not end.
\<close>

fun dm_split :: "nat \<Rightarrow> real \<Rightarrow> int \<Rightarrow> int \<Rightarrow> int \<Rightarrow> gPacket \<Rightarrow> dsd_m \<Rightarrow> (dm_out list \<times> dsd_m) res" where
  "dm_split 0 now pid sz loff gpkt dm = Inl (Diverge ''DSD_M::handleReadDataResp'')"
| "dm_split (Suc n) now pid sz loff gpkt dm =
     (if sz \<le> 0 then Inr ([], dm)
      else if sz \<le> dm_packet_size_limit dm then
        let dm = (if getKind gpkt = PFS_R_DATA_LAST then dm\<lparr>readPktIDMap := (readPktIDMap dm)(getID gpkt := None)\<rparr> else dm)
        in bindR (dm_return now dm (gpkt\<lparr>getSize := sz, getLowoffset := loff, getFinishtime := now,
                    getByteLength := DATA_HEADER_LENGTH + sz\<rparr>)) (\<lambda>out. Inr ([out], dm))
      else
        let lim = dm_packet_size_limit dm
        in bindR (dm_return now dm (gpkt\<lparr>getID := pid, getKind := PFS_R_DATA, getSize := lim, getLowoffset := loff,
                    getFinishtime := now, getByteLength := DATA_HEADER_LENGTH + lim\<rparr>)) (\<lambda>out.
           bindR (dm_split n now (pid + SUBREQ_OFFSET) (sz - lim) (loff + lim) gpkt dm) (\<lambda>(outs, dm).
           Inr (out # outs, dm))))"

definition handleReadDataResp :: "real \<Rightarrow> gPacket \<Rightarrow> dsd_m \<Rightarrow> (dm_out list \<times> dsd_m) res" where
  "handleReadDataResp now gpkt dm =
    (let pid = (case readPktIDMap dm (getID gpkt) of None \<Rightarrow> to_int32 (getID gpkt) | Some i \<Rightarrow> to_int32 i);
         dm = (if readPktIDMap dm (getID gpkt) = None
               then dm\<lparr>readPktIDMap := (readPktIDMap dm)(getID gpkt \<mapsto> getID gpkt)\<rparr> else dm)
     in if getRead gpkt \<noteq> 0
        then dm_split (nat (getSize gpkt) + 1) now (pid + SUBREQ_OFFSET) (getSize gpkt) (getLowoffset gpkt) gpkt dm
        else bindR (dm_return now dm (gpkt\<lparr>getFinishtime := now, getByteLength := DATA_HEADER_LENGTH\<rparr>)) (\<lambda>out.
             Inr ([out], dm)))"

definition handleVFSResp :: "real \<Rightarrow> gPacket \<Rightarrow> dsd_m \<Rightarrow> (dm_out list \<times> dsd_m) res" where
  "handleVFSResp now gpkt dm =
    bindR (finishedReq gpkt (dm_dsd dm)) (\<lambda>(resp, d).
    let dm = dm\<lparr>dm_dsd := d\<rparr>
    in bindR (case resp of None \<Rightarrow> Inr ([], dm) | Some p \<Rightarrow> handleReadDataResp now p dm) (\<lambda>(outs, dm).
       bindR (dispatchVFSReqs now dm) (\<lambda>(outs', dm). Inr (outs @ outs', dm))))"

text \<open>The \<^verbatim>\<open>switch\<close> of \<^verbatim>\<open>handleMessage\<close> has no default: other kinds, among them
  \<^verbatim>\<open>SELF_PFS_R_REQ\<close>, are dropped.\<close>

definition dm_handleMessage :: "real \<Rightarrow> gPacket \<Rightarrow> dsd_m \<Rightarrow> (dm_out list \<times> dsd_m) res" where
  "dm_handleMessage now gpkt dm =
    (if getClientID gpkt > 1000 then Inl (Abort ''DSD_M'')
     else case getKind gpkt of
        PFS_W_REQ \<Rightarrow> handleReadWriteReq now gpkt dm
      | PFS_R_REQ \<Rightarrow> handleReadWriteReq now gpkt dm
      | PFS_W_DATA \<Rightarrow> handleWriteDataPacket now gpkt dm
      | PFS_W_DATA_LAST \<Rightarrow> handleWriteDataPacket now gpkt dm
      | SELF_PFS_W_REQ \<Rightarrow> handleSelfWriteReq now gpkt dm
      | SELF_PFS_W_DATA \<Rightarrow> enqueueDispatchVFSReqs now gpkt dm
      | SELF_PFS_W_DATA_LAST \<Rightarrow> enqueueDispatchVFSReqs now gpkt dm
      | PFS_R_DATA \<Rightarrow> bindR (dm_sendToEth gpkt) (\<lambda>out. Inr ([out], dm))
      | PFS_R_DATA_LAST \<Rightarrow> bindR (dm_sendToEth gpkt) (\<lambda>out. Inr ([out], dm))
      | PFS_W_FIN \<Rightarrow> bindR (dm_sendToEth gpkt) (\<lambda>out. Inr ([out], dm))
      | LFILE_RESP \<Rightarrow> handleVFSResp now gpkt dm
      | _ \<Rightarrow> Inr ([], dm))"

definition DSD_M_initialize :: "string \<Rightarrow> int \<Rightarrow> int \<Rightarrow> int \<Rightarrow> (dsd \<Rightarrow> dsd_m) \<Rightarrow> dsd_m res" where
  "DSD_M_initialize pfsName i deg max_subreq_size par =
    (if pfsName = ''pvfs2'' then bindR (PVFS2DSD_new i deg max_subreq_size) (\<lambda>d. Inr (par d))
     else Inl (Abort ''DSD_M''))"

end
