(* ===== verification/DsdRun.thy ===== *)
theory DsdRun
  imports Dsd
begin

text \<open>
  What the daemon of a data server does with a read from its arrival to the last response,
  and which requests it loses.
\<close>

section \<open>A read\<close>

text \<open>The VFS serves the dispatched sub-requests and returns each one to \<^verbatim>\<open>finishedReq\<close>.\<close>

fun serve :: "nat \<Rightarrow> dsd \<Rightarrow> (gPacket list \<times> dsd) res" where
  "serve 0 d = Inl (Diverge ''serve'')"
| "serve (Suc n) d =
     (case dsd_dispatchNext d of
        (None, d) \<Rightarrow> Inr ([], d)
      | (Some p, d) \<Rightarrow> bindR (finishedReq p d) (\<lambda>(r, d).
          bindR (serve n d) (\<lambda>(rs, d). Inr (case r of None \<Rightarrow> rs | Some q \<Rightarrow> q # rs, d))))"

text \<open>The state while the sub-request \<open>p\<close> of the request \<open>oid\<close> waits: nothing else is queued.\<close>

definition reading :: "dsd \<Rightarrow> int \<Rightarrow> dsd_info \<Rightarrow> gPacket \<Rightarrow> dsd \<Rightarrow> bool" where
  "reading d0 oid info p d \<longleftrightarrow>
    (\<exists>orig. getID orig = oid \<and> getRead orig \<noteq> 0 \<and>
      d = d0\<lparr>subreqQ := (subreqQ d0)\<lparr>waitQ := [p]\<rparr>, infoMap := (infoMap d0)(to_int32 oid \<mapsto> info),
             reqQ := (reqQ d0)\<lparr>osQ := osQ (reqQ d0) @ [orig]\<rparr>\<rparr>)"

text \<open>The daemon when no sub-request is in progress and there is room for a request.\<close>

definition dsd_idle :: "dsd \<Rightarrow> int \<Rightarrow> bool" where
  "dsd_idle d oid \<longleftrightarrow> waitQ (subreqQ d) = [] \<and> osQ (subreqQ d) = [] \<and> degree (subreqQ d) = 1 \<and>
     waitQ (reqQ d) = [] \<and> (degree (reqQ d) < 0 \<or> int (length (osQ (reqQ d))) < degree (reqQ d)) \<and>
     infoMap d (to_int32 oid) = None \<and> (\<forall>x\<in>set (osQ (reqQ d)). getID x \<noteq> oid) \<and> 0 < subreq_size d"

lemma erase_first_last:
  "(\<And>x. x \<in> set xs \<Longrightarrow> \<not> P x) \<Longrightarrow> P y \<Longrightarrow> erase_first P (xs @ [y]) = Some (y, xs)"
  by (induction xs) auto

lemma find_last: "(\<And>x. x \<in> set xs \<Longrightarrow> \<not> P x) \<Longrightarrow> P y \<Longrightarrow> find P (xs @ [y]) = Some y"
  by (induction xs) auto

lemma mutate_first_last:
  "(\<And>x. x \<in> set xs \<Longrightarrow> \<not> P x) \<Longrightarrow> P y \<Longrightarrow> mutate_first P f (xs @ [y]) = xs @ [f y]"
  by (induction xs) auto

text \<open>A sub-request identity: the request is found from it.\<close>

definition sub_id :: "int \<Rightarrow> int \<Rightarrow> bool" where
  "sub_id oid i \<longleftrightarrow> oid \<le> i \<and> i < oid + RID_OFFSET"

lemma sub_id_orig:
  assumes "RID_OFFSET dvd oid" "0 \<le> oid" "sub_id oid i"
  shows "i sdiv RID_OFFSET * RID_OFFSET = oid"
proof -
  from assms(1) obtain m where m: "oid = 1000 * m" by (auto simp: RID_OFFSET_def elim: dvdE)
  with assms(2,3) have "1000 * m \<le> i \<and> i < 1000 * m + 1000" by (simp add: sub_id_def RID_OFFSET_def)
  then have "i div 1000 = m" using div_mult_self2 [of 1000 "i - 1000 * m" m] by (simp add: div_pos_pos_trivial)
  moreover have "0 \<le> i" using assms(2,3) by (simp add: sub_id_def)
  ultimately show ?thesis using m by (simp add: RID_OFFSET_def sdiv_nonneg)
qed

lemma sub_id_next:
  assumes "RID_OFFSET dvd oid" "0 \<le> oid" "sub_id oid i"
  shows "sub_id oid (if (i + SUBREQ_OFFSET) smod RID_OFFSET = 0 then oid + SUBREQ_OFFSET else i + SUBREQ_OFFSET)"
proof -
  from assms(1) obtain m where m: "oid = 1000 * m" by (auto simp: RID_OFFSET_def elim: dvdE)
  show ?thesis
  proof (cases "i + 1 = oid + 1000")
    case True
    then have "(i + 1) smod 1000 = 0" using m assms(2) by (simp add: smod_nonneg)
    then show ?thesis by (simp add: sub_id_def SUBREQ_OFFSET_def RID_OFFSET_def)
  next
    case False
    with assms(3) show ?thesis by (auto simp: sub_id_def SUBREQ_OFFSET_def RID_OFFSET_def)
  qed
qed

text \<open>What is known of the waiting sub-request and the information of its request.\<close>

definition sub_ok :: "int \<Rightarrow> int \<Rightarrow> dsd_info \<Rightarrow> gPacket \<Rightarrow> bool" where
  "sub_ok s oid info p \<longleftrightarrow> getRead p \<noteq> 0 \<and> info_read info \<noteq> 0 \<and> sub_id oid (getID p) \<and>
     getLowoffset p < info_lub info \<and> getSize p = min s (info_lub info - getLowoffset p) \<and>
     (info_lub info \<le> getLowoffset p + s \<longrightarrow> getID p = oid) \<and>
     (\<not> info_lub info \<le> getLowoffset p + s \<longrightarrow> oid < getID p) \<and> info_lub info - getLowoffset p < 2147483648"

lemma finished_last:
  assumes "dsd_idle d0 oid" "reading d0 oid info p d" "sub_ok (subreq_size d0) oid info p"
    and "RID_OFFSET dvd oid" "0 \<le> oid" "info_lub info \<le> getLowoffset p + subreq_size d0"
  shows "\<exists>d1. dsd_dispatchNext d = (Some p, d1) \<and>
    finishedReq p d1 = Inr (Some (p\<lparr>getKind := PFS_R_DATA_LAST\<rparr>), d0)"
proof -
  from assms(2) obtain orig where orig: "getID orig = oid"
    and d: "d = d0\<lparr>subreqQ := (subreqQ d0)\<lparr>waitQ := [p]\<rparr>, infoMap := (infoMap d0)(to_int32 oid \<mapsto> info),
             reqQ := (reqQ d0)\<lparr>osQ := osQ (reqQ d0) @ [orig]\<rparr>\<rparr>" by (auto simp: reading_def)
  note idle = assms(1) [unfolded dsd_idle_def] and ok = assms(3) [unfolded sub_ok_def]
  from ok assms(6) have p: "getID p = oid" "info_lub info \<le> getLowoffset p + getSize p" "getRead p \<noteq> 0" by auto
  have oid: "oid sdiv RID_OFFSET * RID_OFFSET = oid" using sub_id_orig [OF assms(4,5), of oid] by (simp add: sub_id_def RID_OFFSET_def)
  have er: "erase_first (\<lambda>x. getID x = oid) (osQ (reqQ d0) @ [orig]) = Some (orig, osQ (reqQ d0))"
  proof (rule erase_first_last)
    show "\<And>x. x \<in> set (osQ (reqQ d0)) \<Longrightarrow> \<not> getID x = oid" using idle by blast
  qed (use orig in simp)
  let ?d1 = "d\<lparr>subreqQ := (subreqQ d0)\<lparr>waitQ := [], osQ := [p]\<rparr>\<rparr>"
  have "dsd_dispatchNext d = (Some p, ?d1)" using idle by (simp add: d dsd_dispatchNext_def fifo_dispatchNext_def)
  moreover have "finishedReq p ?d1 = Inr (Some (p\<lparr>getKind := PFS_R_DATA_LAST\<rparr>), d0)"
    using idle p oid er by (simp add: finishedReq_def fifo_popOsQ_def d Let_def)
      (auto intro!: dsd.equality fifo.equality simp: fun_eq_iff)
  ultimately show ?thesis by blast
qed

lemma finished_more:
  assumes "dsd_idle d0 oid" "reading d0 oid info p d" "sub_ok (subreq_size d0) oid info p"
    and "RID_OFFSET dvd oid" "0 \<le> oid" "\<not> info_lub info \<le> getLowoffset p + subreq_size d0"
  shows "\<exists>d1 p' d'. dsd_dispatchNext d = (Some p, d1) \<and>
    finishedReq p d1 = Inr (Some (p\<lparr>getKind := PFS_R_DATA\<rparr>), d') \<and>
    reading d0 oid info p' d' \<and> sub_ok (subreq_size d0) oid info p' \<and>
    getLowoffset p' = getLowoffset p + getSize p"
proof -
  let ?s = "subreq_size d0"
  from assms(2) obtain orig where orig: "getID orig = oid" "getRead orig \<noteq> 0"
    and d: "d = d0\<lparr>subreqQ := (subreqQ d0)\<lparr>waitQ := [p]\<rparr>, infoMap := (infoMap d0)(to_int32 oid \<mapsto> info),
             reqQ := (reqQ d0)\<lparr>osQ := osQ (reqQ d0) @ [orig]\<rparr>\<rparr>" by (auto simp: reading_def)
  note idle = assms(1) [unfolded dsd_idle_def] and ok = assms(3) [unfolded sub_ok_def]
  from ok assms(6) have sz: "getSize p = ?s" "getRead p \<noteq> 0" by auto
  note po = sub_id_orig [OF assms(4,5)] and nx = sub_id_next [OF assms(4,5)]
  have none: "\<And>x. x \<in> set (osQ (reqQ d0)) \<Longrightarrow> \<not> getID x = oid" using idle by blast
  let ?d1 = "d\<lparr>subreqQ := (subreqQ d0)\<lparr>waitQ := [], osQ := [p]\<rparr>\<rparr>" and ?a = "getLowoffset p + ?s"
  have disp: "dsd_dispatchNext d = (Some p, ?d1)" using idle by (simp add: d dsd_dispatchNext_def fifo_dispatchNext_def)
  show ?thesis
  proof (cases "info_lub info \<le> ?a + ?s")
    case True
    let ?f = "\<lambda>q. q\<lparr>getKind := LFILE_REQ, getLowoffset := ?a, getSize := to_int32 (info_lub info - ?a)\<rparr>"
    let ?d' = "d0\<lparr>subreqQ := (subreqQ d0)\<lparr>waitQ := [?f orig]\<rparr>, infoMap := (infoMap d0)(to_int32 oid \<mapsto> info),
             reqQ := (reqQ d0)\<lparr>osQ := osQ (reqQ d0) @ [?f orig]\<rparr>\<rparr>"
    have t: "to_int32 (info_lub info - ?a) = info_lub info - ?a"
      by (rule to_int32_id) (use ok assms(6) idle in auto)
    have "finishedReq p ?d1 = Inr (Some (p\<lparr>getKind := PFS_R_DATA\<rparr>), ?d')"
      using idle sz po ok assms(6) True orig(1) none
      by (simp add: finishedReq_def fifo_popOsQ_def next_subreq_def fifo_queryJob_def fifo_mutate_job_def fifo_pushWaitQ_def
          find_last mutate_first_last d Let_def)
    moreover have "reading d0 oid info (?f orig) ?d'" using orig by (auto simp: reading_def intro!: exI [of _ "?f orig"])
    moreover have "sub_ok ?s oid info (?f orig)"
      using t True orig ok assms(6) idle by (auto simp: sub_ok_def sub_id_def RID_OFFSET_def)
    ultimately show ?thesis using disp sz by (intro exI conjI) (assumption | simp)+
  next
    case False
    let ?i = "if (getID p + SUBREQ_OFFSET) smod RID_OFFSET = 0 then oid + SUBREQ_OFFSET else getID p + SUBREQ_OFFSET"
    let ?p' = "new_subreq info ?i ?a ?s"
    let ?d' = "d0\<lparr>subreqQ := (subreqQ d0)\<lparr>waitQ := [?p']\<rparr>, infoMap := (infoMap d0)(to_int32 oid \<mapsto> info),
             reqQ := (reqQ d0)\<lparr>osQ := osQ (reqQ d0) @ [orig]\<rparr>\<rparr>"
    have "finishedReq p ?d1 = Inr (Some (p\<lparr>getKind := PFS_R_DATA\<rparr>), ?d')"
      using idle sz po ok assms(6) False
      by (simp add: finishedReq_def fifo_popOsQ_def next_subreq_def fifo_pushWaitQ_def d Let_def)
    moreover have "reading d0 oid info ?p' ?d'" using orig by (auto simp: reading_def)
    moreover have "sub_ok ?s oid info ?p'"
      using False ok nx [of "getID p"] assms(6) idle
      by (auto simp: sub_ok_def new_subreq_def) (simp_all add: SUBREQ_OFFSET_def)
    ultimately show ?thesis using disp sz by (intro exI conjI) (assumption | simp add: new_subreq_def)+
  qed
qed

lemma serve_reading:
  assumes "dsd_idle d0 oid" "RID_OFFSET dvd oid" "0 \<le> oid"
  shows "reading d0 oid info p d \<Longrightarrow> sub_ok (subreq_size d0) oid info p \<Longrightarrow>
    nat (info_lub info - getLowoffset p) < n \<Longrightarrow>
    \<exists>rs r. serve (Suc n) d = Inr (rs @ [r], d0) \<and> pieces (subreq_size d0) (getLowoffset p) (rs @ [r]) (info_lub info) \<and>
      (\<forall>x\<in>set rs. getKind x = PFS_R_DATA \<and> sub_id oid (getID x) \<and> oid < getID x) \<and> getKind r = PFS_R_DATA_LAST \<and> getID r = oid"
proof (induction n arbitrary: p d)
  case (Suc n)
  note s0 = assms(1) [unfolded dsd_idle_def] and ok = Suc.prems(2) [unfolded sub_ok_def]
  show ?case
  proof (cases "info_lub info \<le> getLowoffset p + subreq_size d0")
    case True
    from finished_last [OF assms(1) Suc.prems(1,2) assms(2,3) True] obtain d1 where
      "dsd_dispatchNext d = (Some p, d1)" "finishedReq p d1 = Inr (Some (p\<lparr>getKind := PFS_R_DATA_LAST\<rparr>), d0)" by blast
    moreover have "serve (Suc n) d0 = Inr ([], d0)"
      using s0 by (simp add: dsd_dispatchNext_def fifo_dispatchNext_def)
    ultimately show ?thesis using True ok s0
      by (intro exI [of _ "[]"] exI [of _ "p\<lparr>getKind := PFS_R_DATA_LAST\<rparr>"]) auto
  next
    case False
    from finished_more [OF assms(1) Suc.prems(1,2) assms(2,3) False] obtain d1 p' d' where
      f: "dsd_dispatchNext d = (Some p, d1)" "finishedReq p d1 = Inr (Some (p\<lparr>getKind := PFS_R_DATA\<rparr>), d')"
      and r: "reading d0 oid info p' d'" "sub_ok (subreq_size d0) oid info p'"
      and o: "getLowoffset p' = getLowoffset p + getSize p" by blast
    have sz: "getSize p = subreq_size d0" using ok False by auto
    have "nat (info_lub info - getLowoffset p') < n" using o sz s0 Suc.prems(3) ok by auto
    from Suc.IH [OF r this] obtain rs q where
      "serve (Suc n) d' = Inr (rs @ [q], d0)" "pieces (subreq_size d0) (getLowoffset p') (rs @ [q]) (info_lub info)"
      "\<forall>x\<in>set rs. getKind x = PFS_R_DATA \<and> sub_id oid (getID x) \<and> oid < getID x" "getKind q = PFS_R_DATA_LAST" "getID q = oid" by blast
    with f o sz s0 ok False show ?thesis
      by (intro exI [of _ "p\<lparr>getKind := PFS_R_DATA\<rparr> # rs"] exI [of _ q]) auto
  qed
qed simp

text \<open>
  Claim C24. A read is served exactly once and completely: for every idle daemon and every
  read request with a positive size and an identity that is a multiple of \<^verbatim>\<open>RID_OFFSET\<close>,
  however many sub-requests it takes (also when their identities wrap), dispatching and
  finishing its sub-requests ends, the responses carry the bytes of the request in order
  without gap or overlap, each at most \<^verbatim>\<open>subreq_size\<close>, the last one is
  \<^verbatim>\<open>PFS_R_DATA_LAST\<close> and has the identity of the request, each of the others is \<^verbatim>\<open>PFS_R_DATA\<close> and has
  another identity, the request is found from the identity of every response, and the
  daemon is in the same state as before.
\<close>

theorem read_is_served_exactly:
  assumes "dsd_idle d (getID g)" "getRead g \<noteq> 0" "0 < getSize g" "getSize g < 2147483648"
    and "RID_OFFSET dvd getID g" "0 \<le> getID g"
  obtains rs r where "serve (nat (getSize g) + 2) (newReq (Some g) d) = Inr (rs @ [r], d)"
    "pieces (subreq_size d) (getLowoffset g) (rs @ [r]) (getLowoffset g + getSize g)"
    "\<And>x. x \<in> set (rs @ [r]) \<Longrightarrow> getID x sdiv RID_OFFSET * RID_OFFSET = getID g"
    "\<And>x. x \<in> set rs \<Longrightarrow> getKind x = PFS_R_DATA \<and> getID x \<noteq> getID g"
    "getKind r = PFS_R_DATA_LAST" "getID r = getID g"
proof -
  let ?info = "read_info (subreq_size d) g" and ?s = "subreq_size d"
  note idle = assms(1) [unfolded dsd_idle_def]
  define p where "p = (if getSize g \<le> ?s then g\<lparr>getKind := LFILE_REQ\<rparr>
    else (new_subreq ?info (getID g + SUBREQ_OFFSET) (getLowoffset g) ?s)\<lparr>getRisetime := getRisetime g,
      getSubmittime := getSubmittime g, getArrivaltime := getArrivaltime g\<rparr>)"
  have q: "snd (fifo_dispatchNext (fifo_pushWaitQ g (reqQ d))) = (reqQ d)\<lparr>osQ := osQ (reqQ d) @ [g]\<rparr>"
    using idle by (auto simp: fifo_pushWaitQ_def fifo_dispatchNext_def)
  have "newReq (Some g) d = d\<lparr>subreqQ := (subreqQ d)\<lparr>waitQ := [p]\<rparr>, infoMap := (infoMap d)(to_int32 (getID g) \<mapsto> ?info),
             reqQ := (reqQ d)\<lparr>osQ := osQ (reqQ d) @ [g]\<rparr>\<rparr>"
    using assms(2) idle q by (simp add: newReq_def Let_def p_def fifo_pushWaitQ_def) (simp add: read_info_def)
  then have rd: "reading d (getID g) ?info p (newReq (Some g) d)" using assms(2) by (auto simp: reading_def)
  have ok: "sub_ok ?s (getID g) ?info p"
    using assms(2-4) idle
    by (auto simp: sub_ok_def p_def new_subreq_def read_info_def sub_id_def RID_OFFSET_def SUBREQ_OFFSET_def)
  have lo: "getLowoffset p = getLowoffset g" "info_lub ?info = getLowoffset g + getSize g"
    by (simp_all add: p_def new_subreq_def read_info_def)
  from serve_reading [OF assms(1,5,6) rd ok, of "nat (getSize g) + 1"] lo obtain rs r where
    s: "serve (nat (getSize g) + 2) (newReq (Some g) d) = Inr (rs @ [r], d)"
      "pieces ?s (getLowoffset g) (rs @ [r]) (getLowoffset g + getSize g)"
      "\<forall>x\<in>set rs. getKind x = PFS_R_DATA \<and> sub_id (getID g) (getID x) \<and> getID g < getID x" "getKind r = PFS_R_DATA_LAST" "getID r = getID g"
    by (auto simp del: serve.simps)
  have "getID x sdiv RID_OFFSET * RID_OFFSET = getID g" if "x \<in> set (rs @ [r])" for x
    using sub_id_orig [OF assms(5,6), of "getID x"] s(3,5) that by (auto simp: sub_id_def RID_OFFSET_def)
  moreover have "\<forall>x\<in>set rs. getKind x = PFS_R_DATA \<and> getID x \<noteq> getID g" using s(3) by auto
  ultimately show ?thesis using s(1,2,4,5) that by blast
qed

definition demo_dsd :: dsd where
  "demo_dsd = run_ok (PVFS2DSD_new 0 5 100)"

lemma demo_dsd: "PVFS2DSD_new 0 5 100 = Inr demo_dsd"
  "demo_dsd = \<lparr> subreq_size = 100, reqQ = FIFO_new 0 5, subreqQ = FIFO_new 0 1, infoMap = (\<lambda>_. None) \<rparr>"
  by (simp_all add: demo_dsd_def PVFS2DSD_new_def createScheduler_def)

definition demo_read :: gPacket where
  "demo_read = new_gPacket\<lparr>getID := 3001000, getKind := SELF_PFS_R_REQ, getRead := 1, getLowoffset := 50, getSize := 250\<rparr>"

theorem read_is_served_exactly_witness:
  "\<exists>rs r. serve 252 (newReq (Some demo_read) demo_dsd) = Inr (rs @ [r], demo_dsd) \<and>
     pieces 100 50 (rs @ [r]) 300 \<and> getID r = 3001000 \<and> getKind r = PFS_R_DATA_LAST \<and>
     (\<forall>x\<in>set rs. getKind x = PFS_R_DATA \<and> getID x \<noteq> 3001000 \<and> getID x sdiv 1000 = 3001)"
proof (rule read_is_served_exactly [of demo_dsd demo_read], goal_cases)
  case (7 rs r)
  have g: "subreq_size demo_dsd = 100" "getID demo_read = 3001000" "getSize demo_read = 250" "getLowoffset demo_read = 50"
    by (simp_all add: demo_dsd demo_read_def new_gPacket_def)
  have "getID x sdiv 1000 = 3001" if "x \<in> set rs" for x
    using 7(3) [of x] that by (simp add: g RID_OFFSET_def)
  with 7(1,2,4-6) g show ?case by (intro exI [of _ rs] exI [of _ r]) auto
qed (simp_all add: demo_dsd demo_read_def new_gPacket_def dsd_idle_def FIFO_new_def RID_OFFSET_def)

section \<open>Requests that are lost\<close>

text \<open>
  Claim C26. Three ways in which a request is lost. When the processing time of the metadata
  of reads is not 0, a read request is only scheduled for later under the kind
  \<^verbatim>\<open>SELF_PFS_R_REQ\<close>, for which \<^verbatim>\<open>handleMessage\<close> has no case: when the self message arrives
  it is dropped and the state is unchanged, whatever the state then is. A small write
  that is processed at once (both processing times of writes add up to 0, the daemon is idle)
  is handed to the VFS, but the response of the VFS produces no message to
  the client, neither \<^verbatim>\<open>PFS_W_RESP\<close> nor \<^verbatim>\<open>PFS_W_FIN\<close>. A small write that has to wait for
  its processing time is answered with \<^verbatim>\<open>PFS_W_RESP\<close> when its self message arrives, but it is
  never handed to the VFS and leaves the daemon as it is.
\<close>

theorem dsd_loses_requests:
  "(getKind g = PFS_R_REQ \<and> getClientID g \<le> 1000 \<and> read_metadata_proc_time dm \<noteq> 0 \<longrightarrow>
     (\<exists>t g'. dm_handleMessage now g dm = Inr ([DmAt t g'], dm) \<and> t = now + read_metadata_proc_time dm \<and>
       getID g' = getID g \<and> (\<forall>dm'. dm_handleMessage t g' dm' = Inr ([], dm')))) \<and>
   (getKind g = PFS_W_REQ \<and> getRead g = 0 \<and> real_of_int (getSize g) < small_io_size_threshold dm \<and> getClientID g \<le> 1000 \<and>
      write_data_proc_time dm + write_metadata_proc_time dm = 0 \<and> dsd_idle (dm_dsd dm) (getID g) \<longrightarrow>
     (\<exists>p dm1. dm_handleMessage now g dm = Inr ([Vfs p], dm1) \<and> getID p = getID g \<and>
       dm_handleMessage t (p\<lparr>getKind := LFILE_RESP\<rparr>) dm1 = Inr ([], dm))) \<and>
   (getKind g = PFS_W_REQ \<and> real_of_int (getSize g) < small_io_size_threshold dm \<and> getClientID g \<le> 1000 \<and>
      write_data_proc_time dm + write_metadata_proc_time dm \<noteq> 0 \<longrightarrow>
     (\<exists>t g'. dm_handleMessage now g dm = Inr ([DmAt t g'], dm) \<and>
       t = now + write_data_proc_time dm + write_metadata_proc_time dm \<and>
       (\<forall>dm'. \<exists>r. dm_handleMessage t g' dm' = Inr ([Eth r], dm') \<and> getKind r = PFS_W_RESP \<and> getID r = getID g)))"
proof (intro conjI impI)
  assume a: "getKind g = PFS_R_REQ \<and> getClientID g \<le> 1000 \<and> read_metadata_proc_time dm \<noteq> 0"
  let ?g' = "g\<lparr>getArrivaltime := now, getKind := SELF_PFS_R_REQ\<rparr>"
  from a have "dm_handleMessage now g dm = Inr ([DmAt (now + read_metadata_proc_time dm) ?g'], dm)"
    by (simp add: dm_handleMessage_def handleReadWriteReq_def Let_def)
  moreover from a have "dm_handleMessage t ?g' dm' = Inr ([], dm')" for t dm'
    by (simp add: dm_handleMessage_def)
  ultimately show "\<exists>t g'. dm_handleMessage now g dm = Inr ([DmAt t g'], dm) \<and> t = now + read_metadata_proc_time dm \<and>
       getID g' = getID g \<and> (\<forall>dm'. dm_handleMessage t g' dm' = Inr ([], dm'))"
    by (intro exI [of _ "now + read_metadata_proc_time dm"] exI [of _ ?g']) simp
next
  assume a: "getKind g = PFS_W_REQ \<and> getRead g = 0 \<and> real_of_int (getSize g) < small_io_size_threshold dm \<and> getClientID g \<le> 1000 \<and>
      write_data_proc_time dm + write_metadata_proc_time dm = 0 \<and> dsd_idle (dm_dsd dm) (getID g)"
  let ?d = "dm_dsd dm" and ?i = "getID g"
  let ?g = "g\<lparr>getArrivaltime := now, getKind := SELF_PFS_W_REQ\<rparr>"
  let ?p = "?g\<lparr>getKind := LFILE_REQ, getDispatchtime := now, getODIRECT := O_DIRECT dm\<rparr>"
  let ?d1 = "?d\<lparr>reqQ := (reqQ ?d)\<lparr>osQ := osQ (reqQ ?d) @ [?g]\<rparr>,
    subreqQ := (subreqQ ?d)\<lparr>osQ := [?g]\<rparr>, infoMap := (infoMap ?d)(to_int32 ?i \<mapsto> new_info)\<rparr>"
  from a have idle: "waitQ (subreqQ ?d) = []" "osQ (subreqQ ?d) = []" "degree (subreqQ ?d) = 1" "waitQ (reqQ ?d) = []"
    "degree (reqQ ?d) < 0 \<or> int (length (osQ (reqQ ?d))) < degree (reqQ ?d)" "infoMap ?d (to_int32 ?i) = None"
    "\<And>x. x \<in> set (osQ (reqQ ?d)) \<Longrightarrow> \<not> getID x = ?i" by (auto simp: dsd_idle_def)
  have rq: "fifo_dispatchNext (fifo_pushWaitQ ?g (reqQ ?d)) = (Some ?g, (reqQ ?d)\<lparr>osQ := osQ (reqQ ?d) @ [?g]\<rparr>)"
    using idle(4,5) by (auto simp: fifo_pushWaitQ_def fifo_dispatchNext_def)
  have new: "newReq (Some ?g) ?d = ?d1\<lparr>subreqQ := (subreqQ ?d)\<lparr>waitQ := [?g]\<rparr>\<rparr>"
    using a idle(1,6) rq by (simp add: newReq_def fifo_pushWaitQ_def new_info_def)
  have "dm_handleMessage now g dm = Inr ([Vfs ?p], dm\<lparr>dm_dsd := ?d1\<rparr>)"
    using a idle(1-3) new
    by (simp add: dm_handleMessage_def handleReadWriteReq_def enqueueDispatchVFSReqs_def dispatchVFSReqs_def Let_def
        dsd_dispatchNext_def fifo_dispatchNext_def dm_sendToVFS_def client_ok_def)
  moreover have "erase_first (\<lambda>x. getID x = ?i) (osQ (reqQ ?d) @ [?g]) = Some (?g, osQ (reqQ ?d))"
    by (rule erase_first_last) (use idle(7) in simp_all)
  then have "finishedReq (?p\<lparr>getKind := LFILE_RESP\<rparr>) ?d1 = Inr (None, ?d)"
    using a idle(1,2,4,6) by (simp add: finishedReq_def fifo_popOsQ_def new_info_def Let_def)
      (auto intro!: dsd.equality fifo.equality simp: fun_eq_iff)
  then have "dm_handleMessage t (?p\<lparr>getKind := LFILE_RESP\<rparr>) (dm\<lparr>dm_dsd := ?d1\<rparr>) = Inr ([], dm)"
    using a idle(1) by (simp add: dm_handleMessage_def handleVFSResp_def dispatchVFSReqs_def dsd_dispatchNext_def
        fifo_dispatchNext_def)
  ultimately show "\<exists>p dm1. dm_handleMessage now g dm = Inr ([Vfs p], dm1) \<and> getID p = ?i \<and>
       dm_handleMessage t (p\<lparr>getKind := LFILE_RESP\<rparr>) dm1 = Inr ([], dm)"
    by (intro exI [of _ ?p] exI [of _ "dm\<lparr>dm_dsd := ?d1\<rparr>"]) simp
next
  assume a: "getKind g = PFS_W_REQ \<and> real_of_int (getSize g) < small_io_size_threshold dm \<and> getClientID g \<le> 1000 \<and>
      write_data_proc_time dm + write_metadata_proc_time dm \<noteq> 0"
  let ?t = "now + write_data_proc_time dm + write_metadata_proc_time dm"
    and ?g' = "g\<lparr>getArrivaltime := now, getKind := SELF_PFS_W_REQ\<rparr>"
  from a have "dm_handleMessage now g dm = Inr ([DmAt ?t ?g'], dm)"
    by (simp add: dm_handleMessage_def handleReadWriteReq_def Let_def)
  moreover from a have "dm_handleMessage ?t ?g' dm' = Inr
      ([Eth (?g'\<lparr>getDispatchtime := ?t, getFinishtime := ?t, getKind := PFS_W_RESP\<rparr>)], dm')" for dm'
    by (simp add: dm_handleMessage_def handleSelfWriteReq_def sendWriteResp_def dm_sendToEth_def client_ok_def)
  ultimately show "\<exists>t g'. dm_handleMessage now g dm = Inr ([DmAt t g'], dm) \<and> t = ?t \<and>
       (\<forall>dm'. \<exists>r. dm_handleMessage t g' dm' = Inr ([Eth r], dm') \<and> getKind r = PFS_W_RESP \<and> getID r = getID g)"
    by (intro exI [of _ ?t] exI [of _ ?g']) simp
qed

definition demo_dm :: "real \<Rightarrow> dsd_m" where
  "demo_dm w = \<lparr> dm_packet_size_limit = 100, parallel_job_proc_time = 0, write_data_proc_time = w, write_metadata_proc_time = 0,
     read_metadata_proc_time = 3, small_io_size_threshold = 1000, O_DIRECT = 0, dm_dsd = demo_dsd, readPktIDMap = (\<lambda>_. None) \<rparr>"

definition demo_small_write :: gPacket where
  "demo_small_write = new_gPacket\<lparr>getID := 4001000, getKind := PFS_W_REQ, getSize := 250\<rparr>"

theorem dsd_loses_requests_witness:
  "(\<exists>g'. dm_handleMessage 2 (demo_read\<lparr>getKind := PFS_R_REQ\<rparr>) (demo_dm 0) = Inr ([DmAt 5 g'], demo_dm 0) \<and>
      dm_handleMessage 5 g' (demo_dm 0) = Inr ([], demo_dm 0)) \<and>
   (\<exists>p dm1. dm_handleMessage 2 demo_small_write (demo_dm 0) = Inr ([Vfs p], dm1) \<and> getID p = 4001000 \<and>
      dm_handleMessage 3 (p\<lparr>getKind := LFILE_RESP\<rparr>) dm1 = Inr ([], demo_dm 0)) \<and>
   (\<exists>g' r. dm_handleMessage 2 demo_small_write (demo_dm 1) = Inr ([DmAt 3 g'], demo_dm 1) \<and>
      dm_handleMessage 3 g' (demo_dm 1) = Inr ([Eth r], demo_dm 1) \<and> getKind r = PFS_W_RESP)"
proof -
  have t: "read_metadata_proc_time (demo_dm w) = 3" "write_data_proc_time (demo_dm w) = w"
    "write_metadata_proc_time (demo_dm w) = 0" "small_io_size_threshold (demo_dm w) = 1000" "dm_dsd (demo_dm w) = demo_dsd" for w
    by (simp_all add: demo_dm_def)
  have g: "getKind demo_small_write = PFS_W_REQ" "getRead demo_small_write = 0" "getSize demo_small_write = 250"
    "getClientID demo_small_write \<le> 1000" "getID demo_small_write = 4001000" "getClientID demo_read \<le> 1000"
    by (simp_all add: demo_small_write_def demo_read_def new_gPacket_def)
  have i: "dsd_idle demo_dsd 4001000" by (simp add: dsd_idle_def demo_dsd FIFO_new_def)
  note L = dsd_loses_requests [of "demo_read\<lparr>getKind := PFS_R_REQ\<rparr>" "demo_dm 0" 2 3]
    dsd_loses_requests [of demo_small_write "demo_dm 0" 2 3] dsd_loses_requests [of demo_small_write "demo_dm 1" 2 3]
  from L(1) have 1: "\<exists>g'. dm_handleMessage 2 (demo_read\<lparr>getKind := PFS_R_REQ\<rparr>) (demo_dm 0) = Inr ([DmAt 5 g'], demo_dm 0) \<and>
      dm_handleMessage 5 g' (demo_dm 0) = Inr ([], demo_dm 0)"
    by (auto simp: t g)
  from L(2) have 2: "\<exists>p dm1. dm_handleMessage 2 demo_small_write (demo_dm 0) = Inr ([Vfs p], dm1) \<and> getID p = 4001000 \<and>
      dm_handleMessage 3 (p\<lparr>getKind := LFILE_RESP\<rparr>) dm1 = Inr ([], demo_dm 0)"
    by (simp add: t g i)
  from L(3) have 3: "\<exists>g' r. dm_handleMessage 2 demo_small_write (demo_dm 1) = Inr ([DmAt 3 g'], demo_dm 1) \<and>
      dm_handleMessage 3 g' (demo_dm 1) = Inr ([Eth r], demo_dm 1) \<and> getKind r = PFS_W_RESP"
    by (simp add: t g) blast
  from 1 2 3 show ?thesis by blast
qed

end
