(* ===== verification/Vfs.thy ===== *)
theory Vfs
  imports Scheduler
begin

text \<open>
  \<^verbatim>\<open>dserver/vfs/VFS.cc\<close>: the virtual file system of a data server. It turns a file request
  into a request for the pages it touches; a write that covers a part of a page only reads
  that page first.

  The page numbers are computed with \<^verbatim>\<open>double\<close>s and truncated.
\<close>

record vfs =
  page_size :: int
  fileReqQ :: "gPacket fifo"
  pageReqQ :: "PageRequest fifo"

datatype vfs_out = ToDSD gPacket | ToDiskCache PageRequest | ToLFS PageRequest

definition VFS_initialize :: "int \<Rightarrow> int \<Rightarrow> vfs res" where
  "VFS_initialize ps deg =
     bindR (createScheduler ''FIFO'' 12345 deg) (\<lambda>fq.
     bindR (createScheduler ''FIFO'' 12345 1000) (\<lambda>pq.
     Inr \<lparr> page_size = ps, fileReqQ = fq, pageReqQ = pq \<rparr>))"

text \<open>\<^verbatim>\<open>dstart\<close> and \<^verbatim>\<open>dend\<close>: the access in pages.\<close>

definition dstart :: "int \<Rightarrow> gPacket \<Rightarrow> real" where
  "dstart ps req = real_of_int LOWOFFSET_RANGE / real_of_int ps * real_of_int (getHighoffset req)
     + real_of_int (getLowoffset req) / real_of_int ps"

definition dend :: "int \<Rightarrow> gPacket \<Rightarrow> real" where
  "dend ps req = dstart ps req + real_of_int (getSize req) / real_of_int ps"

definition skew :: real where "skew = 0.0000001"

definition page_request :: "gPacket \<Rightarrow> int \<Rightarrow> int \<Rightarrow> int \<Rightarrow> bool \<Rightarrow> PageRequest" where
  "page_request req subid pstart pend r =
    new_PageRequest\<lparr>getKind := PAGE_REQ, getID := getID req, getSubID := subid, getPageStart := pstart, getPageEnd := pend,
      pg_read := r, pg_fileId := getFileId req, pg_ODIRECT := getODIRECT req\<rparr>"

text \<open>
  The page requests that \<^verbatim>\<open>dispatchNextFileReq\<close> pushes for a file request, in order, and
  the number that it stores as \<^verbatim>\<open>subReqNum\<close>.
\<close>

definition file_pages :: "int \<Rightarrow> gPacket \<Rightarrow> PageRequest list \<times> int" where
  "file_pages ps req =
    (let ds = dstart ps req; de = dend ps req; pagestart = trunc_double ds; pageend = trunc_double de;
         front = (if getRead req = 0 \<and> ds - real_of_int pagestart > skew
                  then [page_request req (1 * VFS_SUB_ID_BASE) pagestart (pagestart + 1) True] else []);
         endskew = (de - real_of_int pageend > skew);
         pageend = (if endskew then pageend + 1 else pageend);
         back = (if endskew \<and> getRead req = 0
                 then [page_request req (2 * VFS_SUB_ID_BASE) (pageend - 1) pageend True] else []);
         subreqnum = int (length (front @ back))
     in (front @ back @ (if subreqnum = 0 then [page_request req 0 pagestart pageend (getRead req \<noteq> 0)] else []), subreqnum))"

definition dispatchNextFileReq :: "vfs \<Rightarrow> vfs" where
  "dispatchNextFileReq v =
    (case fifo_dispatchNext (fileReqQ v) of
       (None, q) \<Rightarrow> v\<lparr>fileReqQ := q\<rparr>
     | (Some req, q) \<Rightarrow>
         let (pages, n) = file_pages (page_size v) req
         in v\<lparr>fileReqQ := q\<lparr>osQ := butlast (osQ q) @ [(last (osQ q))\<lparr>getSubReqNum := n\<rparr>]\<rparr>,
              pageReqQ := fold fifo_pushWaitQ pages (pageReqQ v)\<rparr>)"

text \<open>The loop of \<^verbatim>\<open>dispatchPageReqs\<close>; every turn takes a request from the wait queue.\<close>

fun dispatch_pages :: "nat \<Rightarrow> PageRequest fifo \<Rightarrow> (vfs_out list \<times> PageRequest fifo) res" where
  "dispatch_pages 0 q = Inl (Diverge ''VFS::dispatchPageReqs'')"
| "dispatch_pages (Suc n) q =
     (case fifo_dispatchNext q of
        (None, q) \<Rightarrow> Inr ([], q)
      | (Some pg, q) \<Rightarrow>
          bindR (dispatch_pages n q) (\<lambda>(outs, q).
          Inr ((if pg_ODIRECT pg \<noteq> 0 then ToLFS (pg\<lparr>getKind := BLK_REQ\<rparr>) else ToDiskCache pg) # outs, q)))"

definition dispatchPageReqs :: "vfs \<Rightarrow> (vfs_out list \<times> vfs) res" where
  "dispatchPageReqs v =
    (let v = dispatchNextFileReq v
     in bindR (dispatch_pages (length (waitQ (pageReqQ v)) + 1) (pageReqQ v)) (\<lambda>(outs, q).
        Inr (outs, v\<lparr>pageReqQ := q\<rparr>)))"

definition handleNewFileReq :: "gPacket \<Rightarrow> vfs \<Rightarrow> (vfs_out list \<times> vfs) res" where
  "handleNewFileReq req v =
    (if getSize req \<le> 0 then Inl (Abort ''VFS'')
     else dispatchPageReqs (v\<lparr>fileReqQ := fifo_pushWaitQ req (fileReqQ v)\<rparr>))"

text \<open>The write that is issued when the pages it needs have been read.\<close>

definition final_write :: "int \<Rightarrow> gPacket \<Rightarrow> PageRequest" where
  "final_write ps req =
    page_request req (getSubID req) (trunc_double (dstart ps req)) (trunc_double (dend ps req)) (getRead req \<noteq> 0)"

definition handlePageResp :: "PageRequest \<Rightarrow> vfs \<Rightarrow> (vfs_out list \<times> vfs) res" where
  "handlePageResp resp v =
    (case fifo_popOsQ_subid (getID resp) (getSubID resp sdiv VFS_SUB_ID_BASE * VFS_SUB_ID_BASE) (pageReqQ v) of
       (None, q) \<Rightarrow> Inl (Abort ''VFS'')
     | (Some pg, q) \<Rightarrow>
        let v = v\<lparr>pageReqQ := q\<rparr>
        in if getSubID resp sdiv VFS_SUB_ID_BASE smod 10 \<noteq> 0 then
             (case fifo_queryJob (getID resp) (fileReqQ v) of
                None \<Rightarrow> Inl (NullDeref ''VFS'')
              | Some req \<Rightarrow>
                  let n = getSubReqNum req - 1;
                      v = v\<lparr>fileReqQ := fifo_mutate_job (getID resp) (\<lambda>p. p\<lparr>getSubReqNum := n\<rparr>) (fileReqQ v)\<rparr>;
                      v = (if n = 0 then v\<lparr>pageReqQ := fifo_pushWaitQ (final_write (page_size v) req) (pageReqQ v)\<rparr> else v)
                  in dispatchPageReqs v)
           else
             (case fifo_popOsQ (getID resp) (fileReqQ v) of
                (None, fq) \<Rightarrow> Inl (Abort ''VFS'')
              | (Some req, fq) \<Rightarrow>
                  bindR (dispatchPageReqs (v\<lparr>fileReqQ := fq\<rparr>)) (\<lambda>(outs, v).
                  Inr (ToDSD (req\<lparr>getKind := LFILE_RESP\<rparr>) # outs, v))))"

datatype vfs_msg = FileMsg gPacket | PageMsg PageRequest

definition vfs_handleMessage :: "vfs_msg \<Rightarrow> vfs \<Rightarrow> (vfs_out list \<times> vfs) res" where
  "vfs_handleMessage m v =
    (case m of
       FileMsg g \<Rightarrow> if getKind g = LFILE_REQ then
                      (if getClientID g > 1000 then Inl (Abort ''VFS'') else handleNewFileReq g v)
                    else Inr ([], v)
     | PageMsg pg \<Rightarrow> if getKind pg = PAGE_RESP \<or> getKind pg = BLK_RESP then handlePageResp pg v else Inr ([], v))"

section \<open>The pages of a request\<close>

definition file_offset :: "gPacket \<Rightarrow> int" where
  "file_offset req = getHighoffset req * LOWOFFSET_RANGE + getLowoffset req"

definition bytes_of :: "gPacket \<Rightarrow> int set" where
  "bytes_of req = {file_offset req..<file_offset req + getSize req}"

definition page_bytes :: "int \<Rightarrow> int \<Rightarrow> int set" where
  "page_bytes ps k = {k * ps..<(k + 1) * ps}"

definition pages_of :: "PageRequest \<Rightarrow> int set" where
  "pages_of pg = {getPageStart pg..<getPageEnd pg}"

lemma dstart_dend:
  assumes "0 < ps"
  shows "dstart ps req = real_of_int (file_offset req) / real_of_int ps"
    "dend ps req = real_of_int (file_offset req + getSize req) / real_of_int ps"
  by (simp_all add: dstart_def dend_def file_offset_def add_divide_distrib mult.commute)

lemma trunc_page: "0 \<le> x \<Longrightarrow> 0 < ps \<Longrightarrow> trunc_double (real_of_int x / real_of_int ps) = x div ps"
  by (simp add: trunc_double_nonneg floor_divide_of_int_eq)

text \<open>With pages below 10 MB a partial page is seen through the tolerance.\<close>

lemma page_skew:
  assumes "0 < ps" "ps < 10000000"
  shows "real_of_int x / real_of_int ps - real_of_int (x div ps) > skew \<longleftrightarrow> x mod ps \<noteq> 0"
proof -
  have "real_of_int x = real_of_int (x div ps) * real_of_int ps + real_of_int (x mod ps)"
    by (metis div_mult_mod_eq of_int_add of_int_mult)
  with assms(1) have eq: "real_of_int x / real_of_int ps - real_of_int (x div ps) = real_of_int (x mod ps) / real_of_int ps"
    by (simp add: field_simps)
  show ?thesis
  proof (cases "x mod ps = 0")
    case True
    with eq show ?thesis by (simp add: skew_def)
  next
    case False
    then have "1 \<le> x mod ps" using pos_mod_sign [OF assms(1), of x] by linarith
    then have "1 / real_of_int ps \<le> real_of_int (x mod ps) / real_of_int ps"
      using assms(1) by (intro divide_right_mono) auto
    moreover have "skew < 1 / real_of_int ps" using assms by (simp add: skew_def field_simps)
    ultimately show ?thesis using False eq by simp
  qed
qed

lemma file_pages_cases:
  assumes "0 < ps" "ps < 10000000" "0 \<le> file_offset req" "0 < getSize req"
  defines "o1 \<equiv> file_offset req" and "o2 \<equiv> file_offset req + getSize req"
  shows "file_pages ps req =
    (let front = (if getRead req = 0 \<and> o1 mod ps \<noteq> 0 then [page_request req 10 (o1 div ps) (o1 div ps + 1) True] else []);
         back = (if getRead req = 0 \<and> o2 mod ps \<noteq> 0 then [page_request req 20 (o2 div ps) (o2 div ps + 1) True] else [])
     in (front @ back @ (if front @ back = []
           then [page_request req 0 (o1 div ps) (if o2 mod ps \<noteq> 0 then o2 div ps + 1 else o2 div ps) (getRead req \<noteq> 0)] else []),
         int (length (front @ back))))"
proof -
  have o: "0 \<le> o1" "0 \<le> o2" using assms(3,4) by (simp_all add: o1_def o2_def)
  have d: "dstart ps req = real_of_int o1 / real_of_int ps" "dend ps req = real_of_int o2 / real_of_int ps"
    using dstart_dend [OF assms(1)] by (simp_all only: o1_def o2_def)
  have t: "trunc_double (dstart ps req) = o1 div ps" "trunc_double (dend ps req) = o2 div ps"
    unfolding d using o assms(1) by (simp_all only: trunc_page)
  have k: "dstart ps req - real_of_int (o1 div ps) > skew \<longleftrightarrow> o1 mod ps \<noteq> 0"
    "dend ps req - real_of_int (o2 div ps) > skew \<longleftrightarrow> o2 mod ps \<noteq> 0"
    unfolding d by (rule page_skew [OF assms(1,2)])+
  show ?thesis by (simp add: file_pages_def Let_def t k VFS_SUB_ID_BASE_def)
qed

lemma page_bytes_div:
  assumes "0 < ps"
  shows "x \<in> page_bytes ps k \<longleftrightarrow> x div ps = k"
proof
  assume "x \<in> page_bytes ps k"
  then have "0 \<le> x - ps * k" "x - ps * k < ps" by (auto simp: page_bytes_def algebra_simps)
  moreover have "x = ps * k + (x - ps * k)" by simp
  ultimately show "x div ps = k" by (intro int_div_pos_eq)
next
  assume "x div ps = k"
  with mult_div_mod_eq [of ps x] pos_mod_sign [OF assms, of x] pos_mod_bound [OF assms, of x]
  show "x \<in> page_bytes ps k" by (auto simp: page_bytes_def algebra_simps)
qed

text \<open>The first page that starts at \<open>b\<close> or later.\<close>

definition page_up :: "int \<Rightarrow> int \<Rightarrow> int" where
  "page_up ps b = (if b mod ps \<noteq> 0 then b div ps + 1 else b div ps)"

lemma page_up_pred:
  assumes "0 < ps"
  shows "page_up ps b = (b - 1) div ps + 1"
proof (cases "b mod ps = 0")
  case True
  then have "b - 1 = ps * (b div ps - 1) + (ps - 1)" using mult_div_mod_eq [of ps b] by (simp add: algebra_simps)
  then have "(b - 1) div ps = b div ps - 1" by (rule int_div_pos_eq) (use assms in auto)
  with True show ?thesis by (simp add: page_up_def)
next
  case False
  then have "0 \<le> b mod ps - 1" "b mod ps - 1 < ps"
    using assms pos_mod_sign [of ps b] pos_mod_bound [of ps b] by linarith+
  moreover have "b - 1 = ps * (b div ps) + (b mod ps - 1)" using mult_div_mod_eq [of ps b] by linarith
  ultimately have "(b - 1) div ps = b div ps" by (intro int_div_pos_eq)
  with False show ?thesis by (simp add: page_up_def)
qed

lemma div_le_page:
  assumes "0 < (ps::int)"
  shows "b div ps \<le> k \<longleftrightarrow> b < (k + 1) * ps"
proof
  assume "b div ps \<le> k"
  then have "b div ps * ps \<le> k * ps" using assms by simp
  then show "b < (k + 1) * ps" using div_mult_mod_eq [of b ps] pos_mod_bound [OF assms, of b]
    unfolding distrib_right by linarith
next
  assume "b < (k + 1) * ps"
  then have "b div ps * ps < (k + 1) * ps" using div_mult_mod_eq [of b ps] pos_mod_sign [OF assms, of b] by linarith
  then show "b div ps \<le> k" using assms by simp
qed

lemma page_less_iff:
  assumes "0 < ps"
  shows "k * ps < b \<longleftrightarrow> k < page_up ps b"
  using div_le_page [OF assms, of "b - 1" "k - 1"] page_up_pred [OF assms, of b] by auto

lemma page_touched:
  fixes a b ps k :: int
  assumes "0 < ps" "a < b"
  shows "page_bytes ps k \<inter> {a..<b} \<noteq> {} \<longleftrightarrow> a div ps \<le> k \<and> k < page_up ps b"
proof
  assume "page_bytes ps k \<inter> {a..<b} \<noteq> {}"
  then show "a div ps \<le> k \<and> k < page_up ps b"
    using div_le_page [OF assms(1), of a k] page_less_iff [OF assms(1), of k b] by (auto simp: page_bytes_def)
next
  assume "a div ps \<le> k \<and> k < page_up ps b"
  then have "a < (k + 1) * ps" "k * ps < b"
    using div_le_page [OF assms(1), of a k] page_less_iff [OF assms(1), of k b] by auto
  moreover have "k * ps < (k + 1) * ps" using assms(1) by simp
  ultimately have "max a (k * ps) \<in> page_bytes ps k \<inter> {a..<b}" using assms(2) by (auto simp: page_bytes_def)
  then show "page_bytes ps k \<inter> {a..<b} \<noteq> {}" by blast
qed

text \<open>The pages that an access touches without filling them: its first and its last, if at all.\<close>

lemma partial_pages:
  fixes a b ps :: int
  assumes "0 < ps" "a < b"
  shows "{k. page_bytes ps k \<inter> {a..<b} \<noteq> {} \<and> \<not> page_bytes ps k \<subseteq> {a..<b}} =
    (if a mod ps \<noteq> 0 then {a div ps} else {}) \<union> (if b mod ps \<noteq> 0 then {b div ps} else {})"
proof -
  have sub: "page_bytes ps k \<subseteq> {a..<b} \<longleftrightarrow> \<not> k < page_up ps a \<and> \<not> b div ps \<le> k" for k
  proof -
    have "k * ps < (k + 1) * ps" using assms(1) by simp
    then have "page_bytes ps k \<subseteq> {a..<b} \<longleftrightarrow> a \<le> k * ps \<and> (k + 1) * ps \<le> b"
      unfolding page_bytes_def by (simp add: atLeastLessThan_subset_iff)
    then show ?thesis using page_less_iff [OF assms(1), of k a] div_le_page [OF assms(1), of b k] by auto
  qed
  have "a div ps < page_up ps b" using page_up_pred [OF assms(1), of b] zdiv_mono1 [of a "b - 1" ps] assms by simp
  moreover have "a div ps \<le> b div ps" using zdiv_mono1 [of a b ps] assms by simp
  ultimately show ?thesis unfolding page_touched [OF assms] sub
    by (auto simp: page_up_def split: if_splits)
qed

text \<open>
  Claim C25. The VFS asks for exactly the pages of a request: for every page size below
  10 MB and every request with a positive size at a valid offset, a read is turned into one
  request for exactly the pages that contain one of its bytes. A write that starts and ends
  at the boundary of a page is turned into one request for exactly the pages it fills;
  any other write is first turned into reads of one page each, of exactly those pages that
  it changes only in part, and their number is the one that is stored with the request.
\<close>

theorem vfs_asks_for_pages_of_request:
  assumes "0 < ps" "ps < 10000000" "0 \<le> file_offset req" "0 < getSize req"
    and "part = {k. page_bytes ps k \<inter> bytes_of req \<noteq> {} \<and> \<not> page_bytes ps k \<subseteq> bytes_of req}"
  shows "if getRead req \<noteq> 0 \<or> part = {} then
      (\<exists>pg. file_pages ps req = ([pg], 0) \<and> pages_of pg = {k. page_bytes ps k \<inter> bytes_of req \<noteq> {}} \<and>
        pg_read pg = (getRead req \<noteq> 0) \<and> getSubID pg = 0)
    else (\<exists>pgs. file_pages ps req = (pgs, int (length pgs)) \<and> (\<Union>pg\<in>set pgs. pages_of pg) = part \<and>
        (\<forall>pg\<in>set pgs. pg_read pg \<and> getPageEnd pg = getPageStart pg + 1 \<and> getSubID pg \<in> {10, 20}))"
proof -
  define o1 o2 where "o1 = file_offset req" and "o2 = file_offset req + getSize req"
  have b: "bytes_of req = {o1..<o2}" "o1 < o2" using assms(4) by (simp_all add: bytes_of_def o1_def o2_def)
  have fp: "file_pages ps req =
    (let front = (if getRead req = 0 \<and> o1 mod ps \<noteq> 0 then [page_request req 10 (o1 div ps) (o1 div ps + 1) True] else []);
         back = (if getRead req = 0 \<and> o2 mod ps \<noteq> 0 then [page_request req 20 (o2 div ps) (o2 div ps + 1) True] else [])
     in (front @ back @ (if front @ back = [] then [page_request req 0 (o1 div ps) (page_up ps o2) (getRead req \<noteq> 0)] else []),
         int (length (front @ back))))"
    using file_pages_cases [OF assms(1-4)] by (simp only: o1_def o2_def page_up_def)
  have touched: "{k. page_bytes ps k \<inter> bytes_of req \<noteq> {}} = {o1 div ps..<page_up ps o2}"
    using page_touched [OF assms(1) b(2)] by (auto simp: b(1))
  have part: "part = (if o1 mod ps \<noteq> 0 then {o1 div ps} else {}) \<union> (if o2 mod ps \<noteq> 0 then {o2 div ps} else {})"
    using partial_pages [OF assms(1) b(2)] by (simp add: assms(5) b(1))
  have single: "{x..<x + 1} = {x}" for x :: int by auto
  show ?thesis
  proof (cases "getRead req \<noteq> 0 \<or> part = {}")
    case True
    then have "file_pages ps req = ([page_request req 0 (o1 div ps) (page_up ps o2) (getRead req \<noteq> 0)], 0)"
      using fp part by (auto split: if_splits)
    then show ?thesis using True touched by (simp add: pages_of_def page_request_def)
  next
    case False
    then show ?thesis using fp part single by (auto simp: pages_of_def page_request_def split: if_splits)
  qed
qed

definition demo_write :: gPacket where
  "demo_write = new_gPacket\<lparr>getID := 7000, getSubID := 3, getKind := LFILE_REQ, getLowoffset := 4096, getSize := 6000\<rparr>"

lemma demo_write_simps [simp]:
  "getRead demo_write = 0" "file_offset demo_write = 4096" "getSize demo_write = 6000" "getID demo_write = 7000"
  "getSubID demo_write = 3" "getKind demo_write = LFILE_REQ" "getODIRECT demo_write = 0" "getClientID demo_write = -1"
  by (simp_all add: demo_write_def new_gPacket_def file_offset_def)

theorem vfs_asks_for_pages_of_request_witness:
  "\<exists>pgs. file_pages 4096 demo_write = (pgs, int (length pgs)) \<and> (\<Union>pg\<in>set pgs. pages_of pg) = {2}"
proof -
  have p: "{2} = {k. page_bytes 4096 k \<inter> bytes_of demo_write \<noteq> {} \<and> \<not> page_bytes 4096 k \<subseteq> bytes_of demo_write}"
    using partial_pages [of 4096 4096 10096] by (simp add: bytes_of_def)
  show ?thesis using vfs_asks_for_pages_of_request [OF _ _ _ _ p] by auto
qed

section \<open>A write that ends inside a page\<close>

text \<open>
  Claim C27. A write whose end does not fall on the boundary of a page is not written
  completely, and it stops the simulation unless the identity of its trace is a multiple of
  10. For every such write that starts at a boundary, on an idle VFS: its last page is read
  first; when the response arrives a write is issued for the pages up to that page but not
  for the page itself; and this write carries the identity of the trace as sub-identity,
  while the response is looked up with its last digit removed, so the response of a trace
  with another last digit is not found and the VFS aborts.
\<close>

theorem vfs_fails_on_partial_write:
  assumes "0 < ps" "ps < 10000000" "0 \<le> file_offset req" "0 < getSize req" "deg \<noteq> 0" "VFS_initialize ps deg = Inr v"
    and "getKind req = LFILE_REQ" "getClientID req \<le> 1000" "getRead req = 0" "getODIRECT req = 0"
    and "file_offset req mod ps = 0" "(file_offset req + getSize req) mod ps \<noteq> 0"
  defines "lastpage \<equiv> (file_offset req + getSize req) div ps"
  shows "\<exists>v1 v2 r w. vfs_handleMessage (FileMsg req) v = Inr ([ToDiskCache r], v1) \<and>
    pages_of r = {lastpage} \<and> pg_read r \<and>
    vfs_handleMessage (PageMsg (r\<lparr>getKind := PAGE_RESP\<rparr>)) v1 = Inr ([ToDiskCache w], v2) \<and>
    pages_of w = {file_offset req div ps..<lastpage} \<and> \<not> pg_read w \<and> getID w = getID req \<and>
    (0 \<le> getSubID req \<and> getSubID req mod 10 \<noteq> 0 \<longrightarrow>
       vfs_handleMessage (PageMsg (w\<lparr>getKind := PAGE_RESP\<rparr>)) v2 = Inl (Abort ''VFS''))"
proof -
  let ?r = "page_request req 20 lastpage (lastpage + 1) True"
  let ?w = "page_request req (getSubID req) (file_offset req div ps) lastpage False"
  have v: "v = \<lparr> page_size = ps, fileReqQ = FIFO_new 12345 deg, pageReqQ = FIFO_new 12345 1000 \<rparr>"
    using assms(6) by (auto simp: VFS_initialize_def createScheduler_def)
  have fp: "file_pages ps req = ([?r], 1)"
    using file_pages_cases [OF assms(1-4)] assms(9,11,12) by (simp add: lastpage_def)
  have fw: "final_write ps (req\<lparr>getSubReqNum := 1\<rparr>) = ?w"
    using dstart_dend [OF assms(1), of "req\<lparr>getSubReqNum := 1\<rparr>"] assms(3,4,9) assms(1)
    by (simp add: final_write_def trunc_page page_request_def lastpage_def file_offset_def flip: of_int_add)
  let ?v1 = "v\<lparr>fileReqQ := (fileReqQ v)\<lparr>osQ := [req\<lparr>getSubReqNum := 1\<rparr>]\<rparr>, pageReqQ := (pageReqQ v)\<lparr>osQ := [?r]\<rparr>\<rparr>"
  let ?v2 = "v\<lparr>fileReqQ := (fileReqQ v)\<lparr>osQ := [req\<lparr>getSubReqNum := 0\<rparr>]\<rparr>, pageReqQ := (pageReqQ v)\<lparr>osQ := [?w]\<rparr>\<rparr>"
  have "vfs_handleMessage (FileMsg req) v = Inr ([ToDiskCache ?r], ?v1)"
    using assms(4,5,7,8,10) fp
    by (simp add: v vfs_handleMessage_def handleNewFileReq_def dispatchPageReqs_def dispatchNextFileReq_def
        fifo_pushWaitQ_def fifo_dispatchNext_def FIFO_new_def Let_def page_request_def)
  moreover have "vfs_handleMessage (PageMsg (?r\<lparr>getKind := PAGE_RESP\<rparr>)) ?v1 = Inr ([ToDiskCache ?w], ?v2)"
    using assms(5,10) fw
    by (simp add: v vfs_handleMessage_def handlePageResp_def fifo_popOsQ_subid_def fifo_queryJob_def fifo_mutate_job_def
        dispatchPageReqs_def dispatchNextFileReq_def fifo_pushWaitQ_def fifo_dispatchNext_def FIFO_new_def Let_def
        page_request_def VFS_SUB_ID_BASE_def sdiv_nonneg smod_nonneg)
  moreover have "vfs_handleMessage (PageMsg (?w\<lparr>getKind := PAGE_RESP\<rparr>)) ?v2 = Inl (Abort ''VFS'')"
    if "0 \<le> getSubID req \<and> getSubID req mod 10 \<noteq> 0"
  proof -
    have "getSubID req sdiv VFS_SUB_ID_BASE * VFS_SUB_ID_BASE \<noteq> getSubID req"
      unfolding VFS_SUB_ID_BASE_def sdiv_nonneg [OF conjunct1 [OF that] zero_less_numeral]
      using that div_mult_mod_eq [of "getSubID req" 10] by linarith
    then show ?thesis
      by (simp add: v vfs_handleMessage_def handlePageResp_def fifo_popOsQ_subid_def page_request_def FIFO_new_def)
  qed
  moreover have "pages_of ?r = {lastpage}" "pages_of ?w = {file_offset req div ps..<lastpage}"
    by (auto simp: pages_of_def page_request_def)
  moreover have "pg_read ?r" "\<not> pg_read ?w" "getID ?w = getID req" by (simp_all add: page_request_def)
  ultimately show ?thesis by (intro exI conjI) (assumption | blast)+
qed

theorem vfs_fails_on_partial_write_witness:
  "\<exists>v v1 v2 r w. VFS_initialize 4096 2 = Inr v \<and> vfs_handleMessage (FileMsg demo_write) v = Inr ([ToDiskCache r], v1) \<and>
     vfs_handleMessage (PageMsg (r\<lparr>getKind := PAGE_RESP\<rparr>)) v1 = Inr ([ToDiskCache w], v2) \<and> pages_of w = {1..<2} \<and>
     vfs_handleMessage (PageMsg (w\<lparr>getKind := PAGE_RESP\<rparr>)) v2 = Inl (Abort ''VFS'')"
proof -
  obtain v where v: "VFS_initialize 4096 2 = Inr v" by (simp add: VFS_initialize_def createScheduler_def)
  have "\<exists>v1 v2 r w. vfs_handleMessage (FileMsg demo_write) v = Inr ([ToDiskCache r], v1) \<and>
    pages_of r = {(file_offset demo_write + getSize demo_write) div 4096} \<and> pg_read r \<and>
    vfs_handleMessage (PageMsg (r\<lparr>getKind := PAGE_RESP\<rparr>)) v1 = Inr ([ToDiskCache w], v2) \<and>
    pages_of w = {file_offset demo_write div 4096..<(file_offset demo_write + getSize demo_write) div 4096} \<and>
    \<not> pg_read w \<and> getID w = getID demo_write \<and>
    (0 \<le> getSubID demo_write \<and> getSubID demo_write mod 10 \<noteq> 0 \<longrightarrow>
       vfs_handleMessage (PageMsg (w\<lparr>getKind := PAGE_RESP\<rparr>)) v2 = Inl (Abort ''VFS''))"
    by (rule vfs_fails_on_partial_write [OF _ _ _ _ _ v]) simp_all
  with v show ?thesis by auto
qed

end
