(* ===== verification/Lfs.thy ===== *)
theory Lfs
  imports Packets
begin

text \<open>
  \<^verbatim>\<open>dserver/lfs/\<close>: the local file system of a data server. \<^verbatim>\<open>ILFS\<close> keeps a table of
  extents for every file and reads and writes the tables; \<^verbatim>\<open>EXT3\<close> turns a page request into
  block requests, extent by extent, with an access to the metadata of an extent before its first
  use; \<^verbatim>\<open>LFS_M\<close> is the module.

  An extent table is a C array of \<open>MAX_EXT_ENTRY_NUM\<close> entries: a function of the index, read and
  written through a bounds check. A page request in the queue carries the address at which it
  lies, since the map \<^verbatim>\<open>brs\<close> has pointers as its keys.
\<close>

section \<open>The tables of ILFS\<close>

record ext_t =
  logistart :: int
  phystart :: int
  ext_length :: int
  accessed :: int

record br_t =
  br_reqid :: int
  br_reqsubid :: int
  br_start :: int
  br_end :: int
  extindex :: int
  extoff :: int

record ext3 =
  e_degree :: int
  e_page_size :: int
  e_blk_size :: int
  e_pageReqQ :: "(nat \<times> PageRequest) list"
  extlist :: "int \<Rightarrow> (int \<Rightarrow> ext_t) option"
  extentryNum :: "int \<Rightarrow> int"
  e_outstanding :: int
  new_ext_size :: int
  new_ext_gap :: int
  brs :: "nat \<Rightarrow> br_t option"

text \<open>The bounds of the two arrays.\<close>

definition ext_at :: "(int \<Rightarrow> ext_t) \<Rightarrow> int \<Rightarrow> ext_t res" where
  "ext_at e i = (if 0 \<le> i \<and> i < MAX_EXT_ENTRY_NUM then Inr (e i) else Inl (OutOfBounds ''extlist[fid]''))"

definition file_exts :: "ext3 \<Rightarrow> int \<Rightarrow> (int \<Rightarrow> ext_t) option res" where
  "file_exts s fid = (if 0 \<le> fid \<and> fid < MAX_LFILE_NUM then Inr (extlist s fid) else Inl (OutOfBounds ''extlist''))"

text \<open>The table of a new file over the memory that \<^verbatim>\<open>malloc\<close> returns.\<close>

definition fresh_exts :: "(int \<Rightarrow> ext_t) \<Rightarrow> int \<Rightarrow> ext_t" where
  "fresh_exts heap = (\<lambda>i. (heap i)\<lparr>logistart := -1, accessed := -1\<rparr>)"

text \<open>
  The binary search. Every turn makes the interval from \<open>start\<close> to \<open>end\<close> smaller, so the number
  of entries bounds the turns.
\<close>

fun ext_search :: "nat \<Rightarrow> (int \<Rightarrow> ext_t) \<Rightarrow> int \<Rightarrow> int \<Rightarrow> int \<Rightarrow> int res" where
  "ext_search 0 e logiaddr sta en = Inl (Diverge ''ILFS::findExtEntry'')"
| "ext_search (Suc n) e logiaddr sta en =
     (let middle = (sta + en) div 2;
          next_turn = (\<lambda>sta en. if sta > en then Inl (Abort ''ILFS - findExtEntry'')
                                else ext_search n e logiaddr sta en)
      in bindR (ext_at e middle) (\<lambda>x.
           if logiaddr < logistart x then next_turn sta (middle - 1)
           else if logiaddr \<ge> logistart x + ext_length x then next_turn (middle + 1) en
           else Inr middle))"

definition findExtEntry :: "ext3 \<Rightarrow> int \<Rightarrow> int \<Rightarrow> int res" where
  "findExtEntry s fid logiaddr =
    bindR (file_exts s fid) (\<lambda>tab.
    case tab of
      None \<Rightarrow> Inl (Abort ''ILFS - findExtEntry'')
    | Some e \<Rightarrow>
        if logiaddr < 0 then Inl (Abort ''ILFS - findExtEntry'')
        else bindR (ext_at e (extentryNum s fid - 1)) (\<lambda>x.
        if logiaddr > logistart x + ext_length x then Inl (Abort ''ILFS - findExtEntry'')
        else if logiaddr = logistart x + ext_length x then Inr (extentryNum s fid)
        else ext_search (nat (extentryNum s fid) + 1) e logiaddr 0 (extentryNum s fid - 1)))"

text \<open>
  The lines of an extent file as \<^verbatim>\<open>sscanf\<close> reads them: a line with a colon and its file
  identity, a line with up to three numbers, and a blank line, for which \<^verbatim>\<open>sscanf\<close> returns
  \<^verbatim>\<open>EOF\<close>.
\<close>

datatype ext_line = FidLine "int option" | ExtLine "int option" "int option" "int option" | BlankLine

definition scan_ext :: "int option \<Rightarrow> int option \<Rightarrow> int option \<Rightarrow> ext_t \<Rightarrow> ext_t" where
  "scan_ext a b c x =
    x\<lparr>logistart := (case a of None \<Rightarrow> logistart x | Some v \<Rightarrow> v),
      phystart := (case b of None \<Rightarrow> phystart x | Some v \<Rightarrow> v),
      ext_length := (case c of None \<Rightarrow> ext_length x | Some v \<Rightarrow> v)\<rparr>"

text \<open>
  The inner loop of \<^verbatim>\<open>initExtLists\<close>: the table, the number of entries, what the line buffer
  holds at the end and the lines that are left. At the end of the file \<^verbatim>\<open>fgets\<close> leaves the
  buffer as it was.
\<close>

fun read_exts :: "ext_line list \<Rightarrow> int \<Rightarrow> (int \<Rightarrow> ext_t) \<Rightarrow> ext_line \<Rightarrow>
    ((int \<Rightarrow> ext_t) \<times> int \<times> ext_line \<times> ext_line list) res" where
  "read_exts [] i e line = Inr (e, i, line, [])"
| "read_exts (l # ls) i e line =
     (case l of
        FidLine f \<Rightarrow> Inr (e, i, l, ls)
      | BlankLine \<Rightarrow> Inr (e, i, l, ls)
      | ExtLine a b c \<Rightarrow>
          bindR (ext_at e i) (\<lambda>x. read_exts ls (i + 1) (e(i := scan_ext a b c x)) l))"

text \<open>
  The outer loop. A turn takes at least one line, unless the file ended with the line of a file
  identity, which then stays in the buffer for ever: the fuel runs out in this case only.
\<close>

fun init_exts :: "nat \<Rightarrow> (int \<Rightarrow> ext_t) \<Rightarrow> ext_line \<Rightarrow> ext_line list \<Rightarrow> int \<Rightarrow> ext3 \<Rightarrow> ext3 res" where
  "init_exts 0 heap line ls fid s = Inl (Diverge ''ILFS::initExtLists'')"
| "init_exts (Suc n) heap line ls fid s =
     (case line of
        FidLine f \<Rightarrow>
          let fid = (case f of None \<Rightarrow> fid | Some v \<Rightarrow> v)
          in if fid > MAX_LFILE_NUM \<or> fid < 0 then Inl (Abort ''ILFS - initExtLists'')
             else if fid = MAX_LFILE_NUM then Inl (OutOfBounds ''extlist'')
             else bindR (read_exts ls 0 (fresh_exts heap) line) (\<lambda>(e, i, line, ls).
                  init_exts n heap line ls fid
                    (s\<lparr>extlist := (extlist s)(fid \<mapsto> e), extentryNum := (extentryNum s)(fid := i)\<rparr>))
      | _ \<Rightarrow> Inr s)"

definition initExtLists :: "(int \<Rightarrow> ext_t) \<Rightarrow> int \<Rightarrow> ext_line list \<Rightarrow> ext3 \<Rightarrow> ext3 res" where
  "initExtLists heap fid0 ls s =
    (case ls of
       [] \<Rightarrow> Inr s
     | FidLine f # ls' \<Rightarrow> init_exts (length ls + 1) heap (FidLine f) ls' fid0 s
     | _ \<Rightarrow> Inl (Abort ''ILFS - initExtLists''))"

text \<open>The loop that prints a table stops at the first entry whose logical start is -1.\<close>

fun print_exts :: "nat \<Rightarrow> (int \<Rightarrow> ext_t) \<Rightarrow> int \<Rightarrow> ext_line list res" where
  "print_exts 0 e i = Inl (Diverge ''ILFS::printExtLists'')"
| "print_exts (Suc n) e i =
     bindR (ext_at e i) (\<lambda>x.
     if logistart x = -1 then Inr []
     else bindR (print_exts n e (i + 1)) (\<lambda>ls.
          Inr (ExtLine (Some (logistart x)) (Some (phystart x)) (Some (ext_length x)) # ls)))"

fun print_files :: "ext3 \<Rightarrow> int list \<Rightarrow> ext_line list res" where
  "print_files s [] = Inr []"
| "print_files s (fid # fids) =
     (case extlist s fid of
        None \<Rightarrow> print_files s fids
      | Some e \<Rightarrow>
          bindR (print_exts (nat MAX_EXT_ENTRY_NUM + 1) e 0) (\<lambda>ls.
          bindR (print_files s fids) (\<lambda>ls'. Inr (FidLine (Some fid) # ls @ ls'))))"

definition printExtLists :: "ext3 \<Rightarrow> ext_line list res" where
  "printExtLists s = print_files s [0..MAX_LFILE_NUM - 1]"

text \<open>The constructor; \<open>nums\<close> is what \<^verbatim>\<open>extentryNum\<close> holds, which no constructor sets.\<close>

definition ext_path :: "string \<Rightarrow> int \<Rightarrow> string" where
  "ext_path prefix i =
    prefix @ [char_of (nat (i sdiv 100 + 48)), char_of (nat (i smod 100 sdiv 10 + 48)), char_of (nat (i smod 10 + 48))]"

definition EXT3_new :: "(string \<Rightarrow> ext_line list option) \<Rightarrow> (string \<Rightarrow> bool) \<Rightarrow> (int \<Rightarrow> ext_t) \<Rightarrow> (int \<Rightarrow> int) \<Rightarrow> int \<Rightarrow>
    int \<Rightarrow> int \<Rightarrow> int \<Rightarrow> int \<Rightarrow> string \<Rightarrow> string \<Rightarrow> int \<Rightarrow> int \<Rightarrow> ext3 res" where
  "EXT3_new files writable heap nums fid0 i deg pagesize blksize inpath outpath n_ext_s n_ext_g =
    (let s = \<lparr> e_degree = deg, e_page_size = pagesize, e_blk_size = blksize, e_pageReqQ = [], extlist = (\<lambda>_. None),
               extentryNum = nums, e_outstanding = 0, new_ext_size = n_ext_s, new_ext_gap = n_ext_g,
               brs = (\<lambda>_. None) \<rparr>
     in bindR (case files (ext_path inpath i) of None \<Rightarrow> Inr s | Some ls \<Rightarrow> initExtLists heap fid0 ls s) (\<lambda>s.
        if writable (ext_path outpath i) then Inr s else Inl (Abort ''ILFS - init'')))"

section \<open>The requests of EXT3\<close>

definition new_br :: "ext3 \<Rightarrow> PageRequest \<Rightarrow> br_t res" where
  "new_br s pagereq =
    (if e_blk_size s = 0 then Inl (DivByZero ''EXT3::newReq'')
     else let k = e_page_size s sdiv e_blk_size s
          in Inr \<lparr> br_reqid = getID pagereq, br_reqsubid = getSubID pagereq, br_start = getPageStart pagereq * k,
                   br_end = getPageEnd pagereq * k, extindex = 0, extoff = 0 \<rparr>)"

text \<open>\<open>ptr\<close> is the address of the request, \<open>heap\<close> the memory of a new table.\<close>

definition ext3_newReq :: "nat \<Rightarrow> (int \<Rightarrow> ext_t) \<Rightarrow> PageRequest \<Rightarrow> ext3 \<Rightarrow> ext3 res" where
  "ext3_newReq ptr heap pagereq s =
    bindR (new_br s pagereq) (\<lambda>br.
    bindR (file_exts s (pg_fileId pagereq)) (\<lambda>tab.
    let s = s\<lparr>e_pageReqQ := e_pageReqQ s @ [(ptr, pagereq)],
              brs := (if brs s ptr = None then (brs s)(ptr \<mapsto> br) else brs s)\<rparr>
    in Inr (if tab = None then s\<lparr>extlist := (extlist s)(pg_fileId pagereq \<mapsto> fresh_exts heap)\<rparr> else s)))"

text \<open>The first request of the queue that is not pending, marked pending.\<close>

fun take_pending :: "(nat \<times> PageRequest) list \<Rightarrow> ((nat \<times> PageRequest) \<times> (nat \<times> PageRequest) list) option" where
  "take_pending [] = None"
| "take_pending ((ptr, r) # q) =
     (if \<not> getPending r then Some ((ptr, r\<lparr>getPending := True\<rparr>), (ptr, r\<lparr>getPending := True\<rparr>) # q)
      else map_option (\<lambda>(x, q). (x, (ptr, r) # q)) (take_pending q))"

text \<open>The extent with index \<open>i\<close>, allocated at the end of the table when it is the next one.\<close>

definition alloc_ext :: "int \<Rightarrow> int \<Rightarrow> int \<Rightarrow> ext3 \<Rightarrow> ext3 res" where
  "alloc_ext fid i sta s =
    bindR (file_exts s fid) (\<lambda>tab.
    case tab of
      None \<Rightarrow> Inl (NullDeref ''EXT3'')
    | Some e \<Rightarrow>
        if i = extentryNum s fid then
          bindR (ext_at e i) (\<lambda>x.
          bindR (if i = 0 then Inr (new_ext_gap s)
                 else bindR (ext_at e (i - 1)) (\<lambda>y. Inr (phystart y + new_ext_gap s))) (\<lambda>phys.
          Inr (s\<lparr>extlist := (extlist s)(fid \<mapsto> e(i := \<lparr> logistart = sta, phystart = phys,
                    ext_length = new_ext_size s, accessed = -1 \<rparr>)),
                 extentryNum := (extentryNum s)(fid := extentryNum s fid + 1)\<rparr>)))
        else Inr s)"

text \<open>The blocks that a request asks for next, and whether they are metadata.\<close>

definition next_blks :: "ext_t \<Rightarrow> br_t \<Rightarrow> int \<Rightarrow> (int \<times> int)" where
  "next_blks x br off =
    (if accessed x = -1 then (phystart x - 1, phystart x - 1 + 1)
     else let sta = phystart x + off; en = br_end br - br_start br + sta
          in (sta, if en > phystart x + ext_length x then phystart x + ext_length x else en))"

definition ext3_dispatchNext :: "ext3 \<Rightarrow> (BlkRequest option \<times> ext3) res" where
  "ext3_dispatchNext s =
    (if e_outstanding s \<ge> e_degree s then Inr (None, s)
     else case take_pending (e_pageReqQ s) of
       None \<Rightarrow> Inr (None, s)
     | Some ((ptr, pagereq), q) \<Rightarrow>
        let s = s\<lparr>e_pageReqQ := q, e_outstanding := e_outstanding s + 1\<rparr>; fid = pg_fileId pagereq
        in case brs s ptr of
             None \<Rightarrow> Inl (Abort ''EXT3 - dispatchNext'')
           | Some br \<Rightarrow>
               bindR (findExtEntry s fid (br_start br)) (\<lambda>i.
               bindR (alloc_ext fid i (br_start br) s) (\<lambda>s.
               case extlist s fid of
                 None \<Rightarrow> Inl (NullDeref ''EXT3'')
               | Some e \<Rightarrow>
                   bindR (ext_at e i) (\<lambda>x.
                   let off = to_int32 (br_start br - logistart x);
                       (sta, en) = next_blks x br off
                   in Inr (Some (new_BlkRequest\<lparr>getKind := BLK_REQ, getID := getID pagereq,
                              getSubID := getSubID pagereq + (if accessed x = -1 then 0 else 1 * LFS_SUB_ID_BASE),
                              blk_fileId := fid, getBlkStart := sta, getBlkEnd := en, blk_read := pg_read pagereq\<rparr>),
                           s\<lparr>brs := (brs s)(ptr \<mapsto> br\<lparr>extindex := i, extoff := off\<rparr>)\<rparr>)))))"

text \<open>
  \<^verbatim>\<open>finishedReq\<close>. The last branch reports an error with a field of \<^verbatim>\<open>blkresp\<close>, which was set
  to NULL before.
\<close>

definition ext3_finishedReq :: "BlkRequest \<Rightarrow> ext3 \<Rightarrow> (PageRequest option \<times> ext3) res" where
  "ext3_finishedReq blkresp s =
    (let prid = getID blkresp; prsubid = getSubID blkresp sdiv VFS_SUB_ID_BASE * VFS_SUB_ID_BASE
     in case find (\<lambda>(ptr, r). getID r = prid \<and> getSubID r = prsubid) (e_pageReqQ s) of
          None \<Rightarrow> Inl (Abort ''EXT3 - finishedReq'')
        | Some (ptr, pageresp) \<Rightarrow>
            let pageresp = pageresp\<lparr>getPending := False\<rparr>;
                s = s\<lparr>e_pageReqQ := map (\<lambda>(p, r). if p = ptr then (p, r\<lparr>getPending := False\<rparr>) else (p, r)) (e_pageReqQ s),
                      e_outstanding := e_outstanding s - 1\<rparr>;
                fid = blk_fileId blkresp; blkstart = getBlkStart blkresp; blkend = getBlkEnd blkresp
            in case brs s ptr of
                 None \<Rightarrow> Inl (Abort ''EXT3 - finishedReq'')
               | Some br \<Rightarrow>
                   bindR (file_exts s fid) (\<lambda>tab.
                   case tab of
                     None \<Rightarrow> Inl (NullDeref ''EXT3'')
                   | Some e \<Rightarrow>
                       bindR (ext_at e (extindex br)) (\<lambda>x.
                       if phystart x - 1 = blkstart \<and> blkend - blkstart = 1 then
                         (if accessed x = 1 then Inl (Abort ''EXT3 - finishedReq'')
                          else Inr (None, s\<lparr>extlist := (extlist s)(fid \<mapsto> e(extindex br := x\<lparr>accessed := 1\<rparr>))\<rparr>))
                       else if blkstart = phystart x + extoff br then
                         (let br = br\<lparr>br_start := br_start br + (blkend - blkstart)\<rparr>
                          in if br_start br = br_end br then
                               Inr (Some (pageresp\<lparr>getKind := BLK_RESP\<rparr>),
                                    s\<lparr>brs := (brs s)(ptr := None), e_pageReqQ := filter (\<lambda>(p, r). p \<noteq> ptr) (e_pageReqQ s)\<rparr>)
                             else Inr (None, s\<lparr>brs := (brs s)(ptr \<mapsto> br)\<rparr>))
                       else Inl (NullDeref ''EXT3 - finishedReq''))))"

section \<open>The module LFS_M\<close>

datatype lfs_out = ToDisk BlkRequest | LfsToDiskCache PageRequest | LfsToVFS PageRequest

datatype lfs_msg = LfsPage PageRequest | LfsBlk BlkRequest

text \<open>Every turn of the loop marks a request of the queue as pending, which bounds the turns.\<close>

fun lfs_dispatch :: "nat \<Rightarrow> ext3 \<Rightarrow> (lfs_out list \<times> ext3) res" where
  "lfs_dispatch 0 s = Inl (Diverge ''LFS_M::dispatchNextDiskReq'')"
| "lfs_dispatch (Suc n) s =
     bindR (ext3_dispatchNext s) (\<lambda>(r, s).
     case r of
       None \<Rightarrow> Inr ([], s)
     | Some diskreq \<Rightarrow>
         if getBlkEnd diskreq - getBlkStart diskreq \<le> 0 then Inl (Abort ''LFS_M'')
         else bindR (lfs_dispatch n s) (\<lambda>(outs, s). Inr (ToDisk diskreq # outs, s)))"

definition dispatchNextDiskReq :: "ext3 \<Rightarrow> (lfs_out list \<times> ext3) res" where
  "dispatchNextDiskReq s = lfs_dispatch (length (e_pageReqQ s) + 1) s"

definition handlePageReq :: "nat \<Rightarrow> (int \<Rightarrow> ext_t) \<Rightarrow> PageRequest \<Rightarrow> ext3 \<Rightarrow> (lfs_out list \<times> ext3) res" where
  "handlePageReq ptr heap req s =
    bindR (ext3_newReq ptr heap req s) (\<lambda>s.
    if getPageEnd req - getPageStart req \<le> 0 then Inl (Abort ''LFS_M'') else dispatchNextDiskReq s)"

definition handleBlkResp :: "BlkRequest \<Rightarrow> ext3 \<Rightarrow> (lfs_out list \<times> ext3) res" where
  "handleBlkResp blkresp s =
    bindR (ext3_finishedReq blkresp s) (\<lambda>(pagereq, s).
    let out = (case pagereq of None \<Rightarrow> []
               | Some r \<Rightarrow> [if pg_ODIRECT r \<noteq> 0 then LfsToVFS r else LfsToDiskCache r])
    in bindR (dispatchNextDiskReq s) (\<lambda>(outs, s). Inr (out @ outs, s)))"

definition lfs_handleMessage :: "nat \<Rightarrow> (int \<Rightarrow> ext_t) \<Rightarrow> lfs_msg \<Rightarrow> ext3 \<Rightarrow> (lfs_out list \<times> ext3) res" where
  "lfs_handleMessage ptr heap m s =
    (case m of
       LfsPage r \<Rightarrow> if getKind r = BLK_REQ then handlePageReq ptr heap r s else Inl (Abort ''LFS_M'')
     | LfsBlk b \<Rightarrow> if getKind b = BLK_RESP then handleBlkResp b s else Inl (Abort ''LFS_M''))"

definition LFS_M_initialize :: "string \<Rightarrow> ext3 res \<Rightarrow> ext3 res" where
  "LFS_M_initialize fsName ext3 = (if fsName = ''ext3'' then ext3 else Inl (Abort ''LFS_M''))"

end
