(* ===== verification/LfsRun.thy ===== *)
theory LfsRun
  imports Lfs
begin

text \<open>
  The local file system over whole requests: the binary search finds the extent of an address,
  a request is served with the physical blocks of its logical blocks in order, and the extent
  tables survive a save and a load.
\<close>

section \<open>Extent tables without holes\<close>

definition ext_holds :: "ext_t \<Rightarrow> int \<Rightarrow> bool" where
  "ext_holds x a \<longleftrightarrow> logistart x \<le> a \<and> a < logistart x + ext_length x"

definition exts_ok :: "(int \<Rightarrow> ext_t) \<Rightarrow> int \<Rightarrow> bool" where
  "exts_ok e n \<longleftrightarrow> 0 < n \<and> n \<le> MAX_EXT_ENTRY_NUM \<and> logistart (e 0) = 0 \<and>
     (\<forall>i. 0 \<le> i \<and> i < n \<longrightarrow> 0 < ext_length (e i) \<and> ext_length (e i) < 2147483648) \<and>
     (\<forall>i. 0 \<le> i \<and> i + 1 < n \<longrightarrow> logistart (e (i + 1)) = logistart (e i) + ext_length (e i))"

definition ext_total :: "(int \<Rightarrow> ext_t) \<Rightarrow> int \<Rightarrow> int" where
  "ext_total e n = logistart (e (n - 1)) + ext_length (e (n - 1))"

definition ext_index :: "(int \<Rightarrow> ext_t) \<Rightarrow> int \<Rightarrow> int \<Rightarrow> int option" where
  "ext_index e n a = find (\<lambda>i. ext_holds (e i) a) [0..n - 1]"

lemma find_unique:
  assumes "x \<in> set xs" "P x" "\<And>y. y \<in> set xs \<Longrightarrow> P y \<Longrightarrow> y = x"
  shows "find P xs = Some x"
proof (cases "find P xs")
  case None
  with assms(1,2) show ?thesis by (simp add: find_None_iff)
next
  case (Some y)
  then have "y \<in> set xs" "P y" by (auto simp: find_Some_iff)
  with assms(3) Some show ?thesis by simp
qed

lemma exts_ok_next:
  assumes "exts_ok e n" "0 < m" "m < n"
  shows "logistart (e m) = logistart (e (m - 1)) + ext_length (e (m - 1))"
proof -
  have "0 \<le> m - 1 \<and> m - 1 + 1 < n \<longrightarrow> logistart (e (m - 1 + 1)) = logistart (e (m - 1)) + ext_length (e (m - 1))"
    using assms(1) unfolding exts_ok_def by blast
  with assms show ?thesis by simp
qed

lemma exts_ok_length:
  assumes "exts_ok e n" "0 \<le> i" "i < n"
  shows "0 < ext_length (e i)" "ext_length (e i) < 2147483648"
  using assms by (auto simp: exts_ok_def)

lemma ext_mono:
  assumes "exts_ok e n" "0 \<le> i"
  shows "i < j \<Longrightarrow> j < n \<Longrightarrow> logistart (e i) + ext_length (e i) \<le> logistart (e j)"
proof (induction j rule: int_gr_induct)
  case base
  with assms show ?case by (auto simp: exts_ok_def)
next
  case (step j)
  then have "logistart (e (j + 1)) = logistart (e j) + ext_length (e j)" "0 < ext_length (e j)"
    using assms by (auto simp: exts_ok_def)
  with step show ?case by simp
qed

lemma ext_unique:
  assumes "exts_ok e n" "0 \<le> i" "i < n" "0 \<le> j" "j < n" "ext_holds (e i) a" "ext_holds (e j) a"
  shows "i = j"
  using ext_mono [OF assms(1,2), of j] ext_mono [OF assms(1,4), of i] assms
  by (cases i j rule: linorder_cases) (auto simp: ext_holds_def)

lemma ext_exists:
  assumes "exts_ok e n" "0 \<le> a"
  shows "0 < m \<Longrightarrow> m \<le> n \<Longrightarrow> a < ext_total e m \<Longrightarrow> \<exists>k. 0 \<le> k \<and> k < m \<and> ext_holds (e k) a"
proof (induction m rule: int_gr_induct)
  case base
  with assms show ?case by (intro exI [of _ 0]) (auto simp: exts_ok_def ext_total_def ext_holds_def)
next
  case (step m)
  show ?case
  proof (cases "logistart (e m) \<le> a")
    case True
    with step show ?thesis by (intro exI [of _ m]) (auto simp: ext_total_def ext_holds_def)
  next
    case False
    have "logistart (e m) = logistart (e (m - 1)) + ext_length (e (m - 1))"
      using step.hyps step.prems by (intro exts_ok_next [OF assms(1)]) auto
    with False step have "\<exists>k. 0 \<le> k \<and> k < m \<and> ext_holds (e k) a" by (simp add: ext_total_def)
    then show ?thesis by (meson less_add_one less_trans)
  qed
qed

lemma ext_below_total:
  assumes "exts_ok e n" "0 \<le> k" "k < n" "ext_holds (e k) a"
  shows "0 \<le> a \<and> a < ext_total e n"
proof -
  have "0 \<le> logistart (e k)"
    using ext_mono [OF assms(1), of 0 k] assms by (cases "k = 0") (auto simp: exts_ok_def)
  moreover have "logistart (e k) + ext_length (e k) \<le> ext_total e n"
    using ext_mono [OF assms(1,2), of "n - 1"] assms(2,3) exts_ok_length [OF assms(1), of "n - 1"]
    by (cases "k = n - 1") (auto simp: ext_total_def)
  ultimately show ?thesis using assms(4) by (auto simp: ext_holds_def)
qed

lemma ext_index_Some:
  assumes "exts_ok e n"
  shows "ext_index e n a = Some k \<longleftrightarrow> 0 \<le> k \<and> k < n \<and> ext_holds (e k) a"
proof
  assume "ext_index e n a = Some k"
  then show "0 \<le> k \<and> k < n \<and> ext_holds (e k) a"
    by (auto simp: ext_index_def find_Some_iff)
next
  assume "0 \<le> k \<and> k < n \<and> ext_holds (e k) a"
  then have k: "0 \<le> k" "k < n" "ext_holds (e k) a" by auto
  show "ext_index e n a = Some k" unfolding ext_index_def
  proof (rule find_unique)
    fix y assume "y \<in> set [0..n - 1]" "ext_holds (e y) a"
    with k show "y = k" using ext_unique [OF assms, of y k a] by simp
  qed (use k in simp_all)
qed

lemma ext_index_None:
  assumes "exts_ok e n"
  shows "ext_index e n a = None \<longleftrightarrow> a < 0 \<or> ext_total e n \<le> a"
proof -
  have "0 < n" using assms by (simp add: exts_ok_def)
  then have "(\<exists>k. 0 \<le> k \<and> k < n \<and> ext_holds (e k) a) \<longleftrightarrow> 0 \<le> a \<and> a < ext_total e n"
    using ext_exists [OF assms, of a n] ext_below_total [OF assms, of _ a] by (metis order_refl)
  moreover have "(\<exists>k. 0 \<le> k \<and> k < n \<and> ext_holds (e k) a) \<longleftrightarrow> ext_index e n a \<noteq> None"
    using ext_index_Some [OF assms, of a] by (metis not_Some_eq)
  ultimately show ?thesis by auto
qed

lemma ext_search_finds:
  assumes "exts_ok e n" "ext_holds (e k) a"
  shows "0 \<le> sta \<Longrightarrow> en < n \<Longrightarrow> sta \<le> k \<Longrightarrow> k \<le> en \<Longrightarrow> en - sta < int fuel \<Longrightarrow>
     ext_search fuel e a sta en = Inr k"
proof (induction fuel arbitrary: sta en)
  case (Suc fuel)
  define m where "m = (sta + en) div 2"
  have m: "sta \<le> m" "m \<le> en" using Suc.prems by (auto simp: m_def)
  have at: "ext_at e m = Inr (e m)" using m Suc.prems assms by (auto simp: ext_at_def exts_ok_def)
  consider "k < m" | "k = m" | "m < k" by linarith
  then show ?case
  proof cases
    case 1
    with Suc.prems m have "a < logistart (e m)" using ext_mono [OF assms(1), of k m] assms(2)
      by (auto simp: ext_holds_def)
    moreover have "ext_search fuel e a sta (m - 1) = Inr k" using 1 Suc.prems m by (intro Suc.IH) auto
    ultimately show ?thesis using 1 Suc.prems at by (simp add: Let_def m_def [symmetric])
  next
    case 2
    with assms(2) at show ?thesis by (simp add: Let_def m_def [symmetric] ext_holds_def)
  next
    case 3
    with Suc.prems m have "logistart (e m) + ext_length (e m) \<le> logistart (e k)"
      by (intro ext_mono [OF assms(1)]) auto
    moreover have "0 < ext_length (e m)" using assms(1) Suc.prems m by (auto simp: exts_ok_def)
    moreover have "ext_search fuel e a (m + 1) en = Inr k" using 3 Suc.prems m by (intro Suc.IH) auto
    ultimately show ?thesis using 3 Suc.prems at assms(2)
      by (simp add: Let_def m_def [symmetric] ext_holds_def)
  qed
qed simp

lemma findExtEntry_linear:
  assumes "extlist s fid = Some e" "extentryNum s fid = n" "exts_ok e n" "0 \<le> fid" "fid < MAX_LFILE_NUM"
  shows "findExtEntry s fid a =
    (case ext_index e n a of
       Some i \<Rightarrow> Inr i
     | None \<Rightarrow> if a = ext_total e n then Inr n else Inl (Abort ''ILFS - findExtEntry''))"
proof -
  have at: "ext_at e (n - 1) = Inr (e (n - 1))" using assms(3) by (auto simp: ext_at_def exts_ok_def)
  have n: "0 < n" "0 \<le> ext_total e n"
    using assms(3) ext_below_total [OF assms(3), of 0 0] by (auto simp: exts_ok_def ext_holds_def)
  show ?thesis
  proof (cases "ext_index e n a")
    case None
    then have "a < 0 \<or> ext_total e n \<le> a" using ext_index_None [OF assms(3)] by simp
    with None n at assms(1,2,4,5) show ?thesis
      by (auto simp: findExtEntry_def file_exts_def ext_total_def)
  next
    case (Some k)
    with ext_index_Some [OF assms(3)] have k: "0 \<le> k" "k < n" "ext_holds (e k) a" by auto
    have "ext_search (nat n + 1) e a 0 (n - 1) = Inr k"
      using k by (intro ext_search_finds [OF assms(3) k(3)]) auto
    moreover have "0 \<le> a" "a < ext_total e n" using ext_below_total [OF assms(3)] k by blast+
    ultimately show ?thesis using Some at assms n
      by (simp add: findExtEntry_def file_exts_def ext_total_def)
  qed
qed

section \<open>A request is served with its blocks\<close>

definition ext_grows :: "(int \<Rightarrow> ext_t) \<Rightarrow> int \<Rightarrow> (int \<Rightarrow> ext_t) \<Rightarrow> int \<Rightarrow> bool" where
  "ext_grows e n e' n' \<longleftrightarrow> n \<le> n' \<and> (\<forall>i. 0 \<le> i \<and> i < n \<longrightarrow> logistart (e' i) = logistart (e i) \<and>
     phystart (e' i) = phystart (e i) \<and> ext_length (e' i) = ext_length (e i))"

text \<open>The abstract map from the blocks of a file to the blocks of the disk.\<close>

definition phys_block :: "(int \<Rightarrow> ext_t) \<Rightarrow> int \<Rightarrow> int \<Rightarrow> int option" where
  "phys_block e n a = map_option (\<lambda>i. phystart (e i) + (a - logistart (e i))) (ext_index e n a)"

lemma ext_grows_refl [simp]: "ext_grows e n e n"
  by (simp add: ext_grows_def)

lemma ext_grows_trans: "ext_grows e n e1 n1 \<Longrightarrow> ext_grows e1 n1 e2 n2 \<Longrightarrow> ext_grows e n e2 n2"
  by (simp add: ext_grows_def)

lemma ext_grows_phys:
  assumes "exts_ok e n" "exts_ok e' n'" "ext_grows e n e' n'" "phys_block e n a = Some p"
  shows "phys_block e' n' a = Some p"
proof -
  from assms(4) obtain i where i: "ext_index e n a = Some i" "p = phystart (e i) + (a - logistart (e i))"
    by (auto simp: phys_block_def)
  then have "0 \<le> i" "i < n" "ext_holds (e i) a" using ext_index_Some [OF assms(1)] by auto
  with assms(3) have "ext_index e' n' a = Some i"
    using ext_index_Some [OF assms(2)] by (auto simp: ext_grows_def ext_holds_def)
  with i \<open>0 \<le> i\<close> \<open>i < n\<close> assms(3) show ?thesis by (simp add: phys_block_def ext_grows_def)
qed

lemma exts_ok_snoc:
  fixes p :: int
  assumes "exts_ok e n" "n < MAX_EXT_ENTRY_NUM" "0 < len" "len < 2147483648"
  defines "e' \<equiv> e(n := \<lparr> logistart = ext_total e n, phystart = p, ext_length = len, accessed = -1 \<rparr>)"
  shows "exts_ok e' (n + 1)" "ext_grows e n e' (n + 1)" "ext_index e' (n + 1) (ext_total e n) = Some n"
    "ext_total e' (n + 1) = ext_total e n + len"
proof -
  have n: "0 < n" using assms(1) by (simp add: exts_ok_def)
  show ok: "exts_ok e' (n + 1)"
    using assms n by (auto simp: exts_ok_def e'_def ext_total_def)
  show "ext_grows e n e' (n + 1)" by (simp add: ext_grows_def e'_def)
  show "ext_index e' (n + 1) (ext_total e n) = Some n"
  proof -
    have "ext_holds (e' n) (ext_total e n)" using assms(3) by (simp add: ext_holds_def e'_def)
    with n show ?thesis using ext_index_Some [OF ok, of "ext_total e n" n] by simp
  qed
  show "ext_total e' (n + 1) = ext_total e n + len" by (simp add: ext_total_def e'_def)
qed

lemma exts_ok_accessed:
  fixes i v :: int
  assumes "exts_ok e n"
  defines "e' \<equiv> e(i := (e i)\<lparr>accessed := v\<rparr>)"
  shows "exts_ok e' n" "ext_grows e n e' n" "ext_total e' n = ext_total e n"
  using assms by (auto simp: exts_ok_def ext_grows_def e'_def ext_total_def)

text \<open>Finding the extent of a block, with the allocation of a new one at the end.\<close>

lemma find_alloc:
  assumes "extlist s fid = Some e" "extentryNum s fid = n" "exts_ok e n" "0 \<le> fid" "fid < MAX_LFILE_NUM"
    and "0 \<le> a" "a \<le> ext_total e n" "a < b" "n + max 0 (b - ext_total e n) \<le> MAX_EXT_ENTRY_NUM"
    and "0 < new_ext_size s" "new_ext_size s < 2147483648"
  obtains i e' n' where "findExtEntry s fid a = Inr i"
    "alloc_ext fid i a s = Inr (s\<lparr>extlist := (extlist s)(fid \<mapsto> e'), extentryNum := (extentryNum s)(fid := n')\<rparr>)"
    "exts_ok e' n'" "ext_grows e n e' n'" "ext_index e' n' a = Some i" "a < ext_total e' n'"
    "n' + max 0 (b - ext_total e' n') \<le> MAX_EXT_ENTRY_NUM" "a < ext_total e n \<longrightarrow> e' = e"
proof (cases "a = ext_total e n")
  case True
  then have none: "ext_index e n a = None" using ext_index_None [OF assms(3)] by simp
  have n: "0 < n" "n < MAX_EXT_ENTRY_NUM" using assms(3,7,8,9) True by (auto simp: exts_ok_def)
  define e' where "e' = e(n := \<lparr> logistart = ext_total e n, phystart = phystart (e (n - 1)) + new_ext_gap s,
      ext_length = new_ext_size s, accessed = -1 \<rparr>)"
  note snoc = exts_ok_snoc [OF assms(3) n(2) assms(10,11), where p = "phystart (e (n - 1)) + new_ext_gap s", folded e'_def]
  have "findExtEntry s fid a = Inr n"
    using findExtEntry_linear [OF assms(1-5), of a] none True by simp
  moreover have "alloc_ext fid n a s = Inr (s\<lparr>extlist := (extlist s)(fid \<mapsto> e'), extentryNum := (extentryNum s)(fid := n + 1)\<rparr>)"
    using assms(1,2,4,5) n True by (simp add: alloc_ext_def file_exts_def ext_at_def e'_def)
  ultimately show thesis using snoc assms(8-10) True by (intro that [where i = n and e' = e' and n' = "n + 1"]) auto
next
  case False
  with assms(7) have "a < ext_total e n" by simp
  with assms(6) obtain i where i: "ext_index e n a = Some i"
    using ext_index_None [OF assms(3), of a] by (cases "ext_index e n a") auto
  then have "findExtEntry s fid a = Inr i"
    using findExtEntry_linear [OF assms(1-5), of a] by simp
  moreover have "i \<noteq> n" using i ext_index_Some [OF assms(3)] by auto
  then have "alloc_ext fid i a s = Inr (s\<lparr>extlist := (extlist s)(fid \<mapsto> e), extentryNum := (extentryNum s)(fid := n)\<rparr>)"
    using assms(1,2,4,5) by (simp add: alloc_ext_def file_exts_def fun_upd_idem)
  ultimately show thesis using i assms(3,9) \<open>a < ext_total e n\<close> by (intro that [where i = i and e' = e and n' = n]) auto
qed

text \<open>One request at the local file system, and the disk that answers each block request.\<close>

fun lfs_serve :: "nat \<Rightarrow> ext3 \<Rightarrow> (BlkRequest list \<times> PageRequest \<times> ext3) res" where
  "lfs_serve 0 s = Inl (Diverge ''lfs_serve'')"
| "lfs_serve (Suc k) s =
     bindR (ext3_dispatchNext s) (\<lambda>(b, s).
     case b of
       None \<Rightarrow> Inl (Abort ''lfs_serve'')
     | Some b \<Rightarrow>
         bindR (ext3_finishedReq (b\<lparr>getKind := BLK_RESP\<rparr>) s) (\<lambda>(r, s).
         case r of
           Some r \<Rightarrow> Inr ([b], r, s)
         | None \<Rightarrow> bindR (lfs_serve k s) (\<lambda>(bs, r, s). Inr (b # bs, r, s))))"

definition serving :: "ext3 \<Rightarrow> nat \<Rightarrow> PageRequest \<Rightarrow> (int \<Rightarrow> ext_t) \<Rightarrow> int \<Rightarrow> int \<Rightarrow> int \<Rightarrow> bool" where
  "serving s ptr r e n a b \<longleftrightarrow>
     e_pageReqQ s = [(ptr, r)] \<and> \<not> getPending r \<and> e_outstanding s = 0 \<and> 0 < e_degree s \<and>
     (\<exists>br. brs s ptr = Some br \<and> br_start br = a \<and> br_end br = b) \<and>
     extlist s (pg_fileId r) = Some e \<and> extentryNum s (pg_fileId r) = n \<and> exts_ok e n \<and>
     0 \<le> pg_fileId r \<and> pg_fileId r < MAX_LFILE_NUM \<and> 0 \<le> getSubID r \<and> VFS_SUB_ID_BASE dvd getSubID r \<and>
     0 \<le> a \<and> a \<le> ext_total e n \<and> a < b \<and> n + max 0 (b - ext_total e n) \<le> MAX_EXT_ENTRY_NUM \<and>
     0 < new_ext_size s \<and> new_ext_size s < 2147483648"

definition lfs_done :: "ext3 \<Rightarrow> nat \<Rightarrow> PageRequest \<Rightarrow> (int \<Rightarrow> ext_t) \<Rightarrow> int \<Rightarrow> bool" where
  "lfs_done s ptr r e n \<longleftrightarrow> e_pageReqQ s = [] \<and> e_outstanding s = 0 \<and> brs s ptr = None \<and>
     extlist s (pg_fileId r) = Some e \<and> extentryNum s (pg_fileId r) = n \<and> exts_ok e n"

definition blk_data :: "PageRequest \<Rightarrow> BlkRequest \<Rightarrow> bool" where
  "blk_data r b \<longleftrightarrow> getSubID b = getSubID r + LFS_SUB_ID_BASE"

definition blks_of :: "BlkRequest \<Rightarrow> int list" where
  "blks_of b = [getBlkStart b..getBlkEnd b - 1]"

definition meta_of :: "(int \<Rightarrow> ext_t) \<Rightarrow> int \<Rightarrow> BlkRequest \<Rightarrow> bool" where
  "meta_of e n b \<longleftrightarrow> (\<exists>i. 0 \<le> i \<and> i < n \<and> blks_of b = [phystart (e i) - 1])"

lemma vfs_base_div:
  assumes "0 \<le> x" "VFS_SUB_ID_BASE dvd x" "y = 0 \<or> y = LFS_SUB_ID_BASE"
  shows "(x + y) sdiv VFS_SUB_ID_BASE * VFS_SUB_ID_BASE = x"
  using assms by (auto simp: general_h sdiv_nonneg)

text \<open>The dispatched block request of a request that is served.\<close>

definition blk_for :: "PageRequest \<Rightarrow> ext_t \<Rightarrow> int \<Rightarrow> int \<Rightarrow> BlkRequest" where
  "blk_for r x sta en = new_BlkRequest\<lparr>getKind := BLK_REQ, getID := getID r,
     getSubID := getSubID r + (if accessed x = -1 then 0 else 1 * LFS_SUB_ID_BASE),
     blk_fileId := pg_fileId r, getBlkStart := sta, getBlkEnd := en, blk_read := pg_read r\<rparr>"

definition dispatched :: "ext3 \<Rightarrow> nat \<Rightarrow> PageRequest \<Rightarrow> (int \<Rightarrow> ext_t) \<Rightarrow> int \<Rightarrow> int \<Rightarrow> int \<Rightarrow> int \<Rightarrow> bool" where
  "dispatched s ptr r e n a b i \<longleftrightarrow>
     e_pageReqQ s = [(ptr, r\<lparr>getPending := True\<rparr>)] \<and> \<not> getPending r \<and> e_outstanding s = 1 \<and> 0 < e_degree s \<and>
     (\<exists>br. brs s ptr = Some br \<and> br_start br = a \<and> br_end br = b \<and> extindex br = i \<and> extoff br = a - logistart (e i)) \<and>
     extlist s (pg_fileId r) = Some e \<and> extentryNum s (pg_fileId r) = n \<and> exts_ok e n \<and> ext_index e n a = Some i \<and>
     0 \<le> pg_fileId r \<and> pg_fileId r < MAX_LFILE_NUM \<and> 0 \<le> getSubID r \<and> VFS_SUB_ID_BASE dvd getSubID r \<and>
     0 \<le> a \<and> a < ext_total e n \<and> a < b \<and> n + max 0 (b - ext_total e n) \<le> MAX_EXT_ENTRY_NUM \<and>
     0 < new_ext_size s \<and> new_ext_size s < 2147483648"

definition next_count :: "ext_t \<Rightarrow> int \<Rightarrow> int \<Rightarrow> int" where
  "next_count x a b = min (b - a) (logistart x + ext_length x - a)"

definition next_request :: "PageRequest \<Rightarrow> ext_t \<Rightarrow> int \<Rightarrow> int \<Rightarrow> BlkRequest" where
  "next_request r x a b =
    (if accessed x = -1 then blk_for r x (phystart x - 1) (phystart x)
     else blk_for r x (phystart x + (a - logistart x)) (phystart x + (a - logistart x) + next_count x a b))"

lemma serve_dispatch:
  assumes "serving s ptr r e n a b"
  obtains i e' n' s' where "ext3_dispatchNext s = Inr (Some (next_request r (e' i) a b), s')"
    "dispatched s' ptr r e' n' a b i" "ext_grows e n e' n'" "a < ext_total e n \<longrightarrow> e' = e"
proof -
  from assms obtain br where br: "brs s ptr = Some br" "br_start br = a" "br_end br = b"
    by (auto simp: serving_def)
  define s0 where "s0 = s\<lparr>e_pageReqQ := [(ptr, r\<lparr>getPending := True\<rparr>)], e_outstanding := 1\<rparr>"
  have s0: "extlist s0 (pg_fileId r) = Some e" "extentryNum s0 (pg_fileId r) = n"
    "new_ext_size s0 = new_ext_size s" using assms by (auto simp: s0_def serving_def)
  obtain i e' n' where f: "findExtEntry s0 (pg_fileId r) a = Inr i"
    "alloc_ext (pg_fileId r) i a s0 = Inr (s0\<lparr>extlist := (extlist s0)(pg_fileId r \<mapsto> e'), extentryNum := (extentryNum s0)(pg_fileId r := n')\<rparr>)"
    "exts_ok e' n'" "ext_grows e n e' n'" "ext_index e' n' a = Some i" "a < ext_total e' n'"
    "n' + max 0 (b - ext_total e' n') \<le> MAX_EXT_ENTRY_NUM" "a < ext_total e n \<longrightarrow> e' = e"
    by (rule find_alloc [OF s0(1,2), of a b]) (use assms in \<open>auto simp: serving_def s0(3)\<close>)
  then have i: "0 \<le> i" "i < n'" "ext_holds (e' i) a" using ext_index_Some [OF f(3)] by auto
  then have at: "ext_at e' i = Inr (e' i)" using f(3) by (auto simp: ext_at_def exts_ok_def)
  have off: "to_int32 (a - logistart (e' i)) = a - logistart (e' i)"
    using i exts_ok_length [OF f(3), of i] by (intro to_int32_id) (auto simp: ext_holds_def)
  define s' where "s' = s0\<lparr>extlist := (extlist s0)(pg_fileId r \<mapsto> e'), extentryNum := (extentryNum s0)(pg_fileId r := n'),
      brs := (brs s)(ptr \<mapsto> br\<lparr>extindex := i, extoff := a - logistart (e' i)\<rparr>)\<rparr>"
  have "ext3_dispatchNext s = Inr (Some (next_request r (e' i) a b), s')"
    using assms br f(1,2) at off unfolding ext3_dispatchNext_def
    by (auto simp: serving_def Let_def s0_def s'_def next_blks_def blk_for_def next_count_def next_request_def
        min_def cong: if_cong)
  moreover have "dispatched s' ptr r e' n' a b i"
    using assms br f by (auto simp: serving_def dispatched_def s'_def s0_def)
  ultimately show thesis using f(4,8) that by blast
qed

lemma finish_found:
  assumes "dispatched s ptr r e n a b i"
  obtains br where "brs s ptr = Some br" "br_start br = a" "br_end br = b" "extindex br = i"
    "extoff br = a - logistart (e i)" "0 \<le> i" "i < n" "ext_holds (e i) a" "ext_at e i = Inr (e i)"
proof -
  have "exts_ok e n" "ext_index e n a = Some i" using assms by (auto simp: dispatched_def)
  moreover from this have "0 \<le> i" "i < n" "ext_holds (e i) a" using ext_index_Some by blast+
  ultimately show thesis using assms that by (auto simp: dispatched_def ext_at_def exts_ok_def)
qed

lemma finish_meta:
  assumes "dispatched s ptr r e n a b i" "accessed (e i) = -1"
  obtains s' where "ext3_finishedReq ((next_request r (e i) a b)\<lparr>getKind := BLK_RESP\<rparr>) s = Inr (None, s')"
    "serving s' ptr r (e(i := (e i)\<lparr>accessed := 1\<rparr>)) n a b"
proof -
  obtain br where br: "brs s ptr = Some br" "br_start br = a" "br_end br = b" "extindex br = i"
    "extoff br = a - logistart (e i)" "0 \<le> i" "i < n" "ext_holds (e i) a" "ext_at e i = Inr (e i)"
    by (rule finish_found [OF assms(1)])
  have ok: "exts_ok e n" using assms(1) by (simp add: dispatched_def)
  define s' where "s' = s\<lparr>e_pageReqQ := [(ptr, r)], e_outstanding := 0,
      extlist := (extlist s)(pg_fileId r \<mapsto> e(i := (e i)\<lparr>accessed := 1\<rparr>))\<rparr>"
  have sub: "getSubID r sdiv VFS_SUB_ID_BASE * VFS_SUB_ID_BASE = getSubID r"
    using vfs_base_div [of "getSubID r" 0] assms(1) by (simp add: dispatched_def)
  have "ext3_finishedReq ((next_request r (e i) a b)\<lparr>getKind := BLK_RESP\<rparr>) s = Inr (None, s')"
    using assms br sub unfolding ext3_finishedReq_def
    by (auto simp: dispatched_def next_request_def blk_for_def s'_def file_exts_def new_BlkRequest_def
        cong: if_cong)
  moreover have "serving s' ptr r (e(i := (e i)\<lparr>accessed := 1\<rparr>)) n a b"
    using assms(1) br exts_ok_accessed [OF ok, where i = i and v = 1] by (auto simp: dispatched_def serving_def s'_def)
  ultimately show thesis using that by blast
qed

lemma finish_data:
  assumes "dispatched s ptr r e n a b i" "accessed (e i) \<noteq> -1"
  obtains res s' where "ext3_finishedReq ((next_request r (e i) a b)\<lparr>getKind := BLK_RESP\<rparr>) s = Inr (res, s')"
    "if a + next_count (e i) a b = b then res = Some (r\<lparr>getKind := BLK_RESP\<rparr>) \<and> lfs_done s' ptr r e n
     else res = None \<and> serving s' ptr r e n (a + next_count (e i) a b) b"
proof -
  obtain br where br: "brs s ptr = Some br" "br_start br = a" "br_end br = b" "extindex br = i"
    "extoff br = a - logistart (e i)" "0 \<le> i" "i < n" "ext_holds (e i) a" "ext_at e i = Inr (e i)"
    by (rule finish_found [OF assms(1)])
  define k where "k = next_count (e i) a b"
  have k: "0 < k" "a + k \<le> b" "a + k \<le> logistart (e i) + ext_length (e i)"
    using br(8) assms(1) by (auto simp: k_def next_count_def ext_holds_def dispatched_def)
  have total: "logistart (e i) + ext_length (e i) \<le> ext_total e n"
  proof -
    have "exts_ok e n" using assms(1) by (simp add: dispatched_def)
    moreover from this have "ext_holds (e i) (logistart (e i) + ext_length (e i) - 1)"
      using exts_ok_length [of e n i] br(6,7) by (simp add: ext_holds_def)
    ultimately show ?thesis using ext_below_total br(6,7) by fastforce
  qed
  have sub: "(getSubID r + LFS_SUB_ID_BASE) sdiv VFS_SUB_ID_BASE * VFS_SUB_ID_BASE = getSubID r"
    using vfs_base_div [of "getSubID r" LFS_SUB_ID_BASE] assms(1) by (simp add: dispatched_def)
  have notmeta: "phystart (e i) - 1 \<noteq> phystart (e i) + (a - logistart (e i))"
    using br(8) by (simp add: ext_holds_def)
  define s1 where "s1 = s\<lparr>e_pageReqQ := [(ptr, r)], e_outstanding := 0\<rparr>"
  define s' where "s' = (if a + k = b then s1\<lparr>brs := (brs s)(ptr := None), e_pageReqQ := []\<rparr>
     else s1\<lparr>brs := (brs s)(ptr \<mapsto> br\<lparr>br_start := a + k\<rparr>)\<rparr>)"
  have "ext3_finishedReq ((next_request r (e i) a b)\<lparr>getKind := BLK_RESP\<rparr>) s =
      Inr (if a + k = b then Some (r\<lparr>getKind := BLK_RESP\<rparr>) else None, s')"
    using assms br sub notmeta unfolding ext3_finishedReq_def
    by (auto simp: dispatched_def next_request_def blk_for_def s'_def s1_def file_exts_def new_BlkRequest_def k_def
        Let_def cong: if_cong)
  moreover have "if a + k = b then lfs_done s' ptr r e n else serving s' ptr r e n (a + k) b"
    using assms(1) br k total by (auto simp: dispatched_def serving_def lfs_done_def s'_def s1_def)
  ultimately show thesis unfolding k_def by (cases "a + next_count (e i) a b = b") (auto intro: that)
qed

definition blks_data :: "PageRequest \<Rightarrow> BlkRequest list \<Rightarrow> int list" where
  "blks_data r bs = concat (map blks_of (filter (blk_data r) bs))"

lemma next_request_simps:
  "getID (next_request r x a b) = getID r" "blk_fileId (next_request r x a b) = pg_fileId r"
  "blk_read (next_request r x a b) = pg_read r"
  "blk_data r (next_request r x a b) \<longleftrightarrow> accessed x \<noteq> -1"
  by (auto simp: next_request_def blk_for_def blk_data_def general_h new_BlkRequest_def)

lemma phys_blocks_piece:
  assumes "exts_ok e n" "ext_index e n a = Some i" "accessed (e i) \<noteq> -1"
  shows "map Some (blks_of (next_request r (e i) a b)) = map (phys_block e n) [a..a + next_count (e i) a b - 1]"
proof -
  define k where "k = next_count (e i) a b"
  define d where "d = phystart (e i) - logistart (e i)"
  have i: "0 \<le> i" "i < n" "ext_holds (e i) a" using ext_index_Some [OF assms(1)] assms(2) by auto
  have "phys_block e n c = Some (c + d)" if "c \<in> set [a..a + k - 1]" for c
  proof -
    have "ext_holds (e i) c" using that i(3) by (auto simp: ext_holds_def k_def next_count_def)
    then have "ext_index e n c = Some i" using ext_index_Some [OF assms(1)] i by simp
    then show ?thesis by (simp add: phys_block_def d_def)
  qed
  then have "map (phys_block e n) [a..a + k - 1] = map Some (map (\<lambda>c. c + d) [a..a + k - 1])" by simp
  moreover have "map (\<lambda>c. c + d) [a..a + k - 1] = [a + d..a + k + d - 1]"
  proof (induction "nat k" arbitrary: k)
    case (Suc m)
    then have "0 < k" by simp
    with Suc(1) [of "k - 1"] Suc(2) show ?case by (simp add: upto_rec2 algebra_simps)
  qed simp
  moreover have "blks_of (next_request r (e i) a b) = [a + d..a + k + d - 1]"
    using assms(3) by (simp add: blks_of_def next_request_def blk_for_def k_def d_def algebra_simps)
  ultimately show ?thesis unfolding k_def [symmetric] by (simp only:)
qed

lemma map_Some_refine:
  assumes "\<And>x p. f x = Some p \<Longrightarrow> g x = Some p"
  shows "map Some ps = map f xs \<Longrightarrow> map Some ps = map g xs"
proof (induction ps arbitrary: xs)
  case (Cons p ps)
  then obtain x xs' where "xs = x # xs'" "f x = Some p" "map Some ps = map f xs'"
    by (auto simp: Cons_eq_map_conv)
  with Cons.IH [of xs'] assms [of x p] show ?case by simp
qed simp

definition served :: "nat \<Rightarrow> PageRequest \<Rightarrow> (int \<Rightarrow> ext_t) \<Rightarrow> int \<Rightarrow> int \<Rightarrow> int \<Rightarrow> BlkRequest list \<Rightarrow> ext3 \<Rightarrow> bool" where
  "served ptr r e n a b bs s' \<longleftrightarrow> (\<exists>e' n'. lfs_done s' ptr r e' n' \<and> ext_grows e n e' n' \<and>
     map Some (blks_data r bs) = map (phys_block e' n') [a..b - 1] \<and>
     (\<forall>x\<in>set bs. getID x = getID r \<and> blk_fileId x = pg_fileId r \<and> blk_read x = pg_read r \<and>
        (\<not> blk_data r x \<longrightarrow> meta_of e' n' x)))"

lemma served_meta:
  assumes "dispatched s ptr r e n a b i" "accessed (e i) = -1"
    and "served ptr r (e(i := (e i)\<lparr>accessed := 1\<rparr>)) n a b bs s'"
  shows "served ptr r e n a b (next_request r (e i) a b # bs) s'"
proof -
  let ?e1 = "e(i := (e i)\<lparr>accessed := 1\<rparr>)"
  from assms(3) obtain e' n' where e': "lfs_done s' ptr r e' n'" "ext_grows ?e1 n e' n'"
    "map Some (blks_data r bs) = map (phys_block e' n') [a..b - 1]"
    "\<forall>x\<in>set bs. getID x = getID r \<and> blk_fileId x = pg_fileId r \<and> blk_read x = pg_read r \<and>
        (\<not> blk_data r x \<longrightarrow> meta_of e' n' x)" by (auto simp: served_def)
  obtain br where br: "0 \<le> i" "i < n" by (rule finish_found [OF assms(1)])
  have "exts_ok e n" using assms(1) by (simp add: dispatched_def)
  then have grows: "ext_grows e n e' n'"
    using exts_ok_accessed(2) [where i = i and v = 1] e'(2) ext_grows_trans by blast
  then have "phystart (e' i) = phystart (e i)" "i < n'" using br by (auto simp: ext_grows_def)
  then have "meta_of e' n' (next_request r (e i) a b)"
    using assms(2) br by (auto simp: meta_of_def next_request_def blk_for_def blks_of_def)
  with e' grows assms(2) show ?thesis
    by (auto simp: served_def blks_data_def next_request_simps)
qed

lemma served_data:
  assumes "dispatched s ptr r e n a b i" "accessed (e i) \<noteq> -1"
    and "served ptr r e n (a + next_count (e i) a b) b bs s'"
  shows "served ptr r e n a b (next_request r (e i) a b # bs) s'"
proof -
  let ?c = "a + next_count (e i) a b"
  from assms(3) obtain e' n' where e': "lfs_done s' ptr r e' n'" "ext_grows e n e' n'"
    "map Some (blks_data r bs) = map (phys_block e' n') [?c..b - 1]"
    "\<forall>x\<in>set bs. getID x = getID r \<and> blk_fileId x = pg_fileId r \<and> blk_read x = pg_read r \<and>
        (\<not> blk_data r x \<longrightarrow> meta_of e' n' x)" by (auto simp: served_def)
  have ok: "exts_ok e n" "ext_index e n a = Some i" "a < b" using assms(1) by (auto simp: dispatched_def)
  have hold: "ext_holds (e i) a" using ext_index_Some [OF ok(1)] ok(2) by simp
  have ok': "exts_ok e' n'" using e'(1) by (simp add: lfs_done_def)
  have "map Some (blks_of (next_request r (e i) a b)) = map (phys_block e' n') [a..?c - 1]"
    by (rule map_Some_refine [OF _ phys_blocks_piece [OF ok(1,2) assms(2)]], rule ext_grows_phys [OF ok(1) ok' e'(2)])
  moreover have "[a..b - 1] = [a..?c - 1] @ [?c..b - 1]"
    using ok(3) hold upto_split1 [of a ?c "b - 1"] upto_split2 [of a "?c - 1" "b - 1"]
    by (auto simp: next_count_def ext_holds_def)
  ultimately show ?thesis using e' assms(2)
    by (auto simp: served_def blks_data_def next_request_simps intro!: exI [of _ e'] exI [of _ n'])
qed

lemma served_last:
  assumes "dispatched s ptr r e n a b i" "accessed (e i) \<noteq> -1" "a + next_count (e i) a b = b"
    and "lfs_done s' ptr r e n"
  shows "served ptr r e n a b [next_request r (e i) a b] s'"
proof (rule served_data [OF assms(1,2)])
  show "served ptr r e n (a + next_count (e i) a b) b [] s'"
    using assms(3,4) by (auto simp: served_def blks_data_def intro!: exI [of _ e] exI [of _ n])
qed

lemma served_grows:
  "ext_grows e n e1 n1 \<Longrightarrow> served ptr r e1 n1 a b bs s' \<Longrightarrow> served ptr r e n a b bs s'"
  by (auto simp: served_def intro: ext_grows_trans)

lemma lfs_serve_all:
  assumes "serving s ptr r e n a b"
    and "2 * nat (b - a) \<le> fuel \<or> (\<exists>i. ext_index e n a = Some i \<and> accessed (e i) \<noteq> -1 \<and> 2 * nat (b - a) \<le> fuel + 1)"
  shows "\<exists>bs s'. lfs_serve fuel s = Inr (bs, r\<lparr>getKind := BLK_RESP\<rparr>, s') \<and> served ptr r e n a b bs s'"
  using assms
proof (induction fuel arbitrary: s e n a)
  case 0
  then show ?case by (auto simp: serving_def)
next
  case (Suc fuel)
  obtain i e1 n1 s1 where d: "ext3_dispatchNext s = Inr (Some (next_request r (e1 i) a b), s1)"
    "dispatched s1 ptr r e1 n1 a b i" "ext_grows e n e1 n1" "a < ext_total e n \<longrightarrow> e1 = e"
    by (rule serve_dispatch [OF Suc.prems(1)])
  then have d1: "exts_ok e1 n1" "ext_index e1 n1 a = Some i" "a < b" by (auto simp: dispatched_def)
  show ?case
  proof (cases "accessed (e1 i) = -1")
    case True
    let ?e2 = "e1(i := (e1 i)\<lparr>accessed := 1\<rparr>)"
    obtain s2 where s2: "ext3_finishedReq ((next_request r (e1 i) a b)\<lparr>getKind := BLK_RESP\<rparr>) s1 = Inr (None, s2)"
      "serving s2 ptr r ?e2 n1 a b" by (rule finish_meta [OF d(2) True])
    have "ext_holds (?e2 i) a" "0 \<le> i" "i < n1"
      using ext_index_Some [OF d1(1)] d1(2) by (auto simp: ext_holds_def)
    then have found: "ext_index ?e2 n1 a = Some i"
      using ext_index_Some [OF exts_ok_accessed(1) [OF d1(1), where i = i and v = 1]] by blast
    have "2 * nat (b - a) \<le> Suc fuel"
    proof (rule ccontr)
      assume "\<not> 2 * nat (b - a) \<le> Suc fuel"
      with Suc.prems(2) obtain j where j: "ext_index e n a = Some j" "accessed (e j) \<noteq> -1" by auto
      have ok: "exts_ok e n" using Suc.prems(1) by (simp add: serving_def)
      then have "a < ext_total e n" using ext_below_total [OF ok] ext_index_Some [OF ok] j(1) by blast
      then have "e1 = e" using d(4) by blast
      moreover have "j = i" using j(1) d1(2) d(3) ext_index_Some [OF ok] ext_index_Some [OF d1(1)] \<open>e1 = e\<close>
        ext_unique [OF d1(1), of j i a] by (auto simp: ext_grows_def)
      ultimately show False using j(2) True by simp
    qed
    then obtain bs s' where "lfs_serve fuel s2 = Inr (bs, r\<lparr>getKind := BLK_RESP\<rparr>, s')" "served ptr r ?e2 n1 a b bs s'"
      using Suc.IH [OF s2(2)] found by fastforce
    moreover have "lfs_serve (Suc fuel) s = Inr (next_request r (e1 i) a b # bs, r\<lparr>getKind := BLK_RESP\<rparr>, s')"
      using d(1) s2(1) calculation(1) by simp
    ultimately show ?thesis using served_grows [OF d(3) served_meta [OF d(2) True]] by blast
  next
    case False
    obtain res s2 where s2: "ext3_finishedReq ((next_request r (e1 i) a b)\<lparr>getKind := BLK_RESP\<rparr>) s1 = Inr (res, s2)"
      "if a + next_count (e1 i) a b = b then res = Some (r\<lparr>getKind := BLK_RESP\<rparr>) \<and> lfs_done s2 ptr r e1 n1
       else res = None \<and> serving s2 ptr r e1 n1 (a + next_count (e1 i) a b) b"
      by (rule finish_data [OF d(2) False])
    show ?thesis
    proof (cases "a + next_count (e1 i) a b = b")
      case True
      with s2 d(1) have "lfs_serve (Suc fuel) s = Inr ([next_request r (e1 i) a b], r\<lparr>getKind := BLK_RESP\<rparr>, s2)" by simp
      moreover have "served ptr r e n a b [next_request r (e1 i) a b] s2"
        using served_grows [OF d(3) served_last [OF d(2) False True]] s2(2) True by simp
      ultimately show ?thesis by blast
    next
      case more: False
      have "0 < next_count (e1 i) a b"
        using d1(3) ext_index_Some [OF d1(1)] d1(2) by (auto simp: next_count_def ext_holds_def)
      then have "2 * nat (b - (a + next_count (e1 i) a b)) \<le> fuel" using Suc.prems(2) d1(3) by auto
      then obtain bs s' where "lfs_serve fuel s2 = Inr (bs, r\<lparr>getKind := BLK_RESP\<rparr>, s')"
        "served ptr r e1 n1 (a + next_count (e1 i) a b) b bs s'"
        using Suc.IH [of s2 e1 n1 "a + next_count (e1 i) a b"] s2(2) more by auto
      moreover have "lfs_serve (Suc fuel) s = Inr (next_request r (e1 i) a b # bs, r\<lparr>getKind := BLK_RESP\<rparr>, s')"
        using d(1) s2 more calculation(1) by simp
      ultimately show ?thesis using served_grows [OF d(3) served_data [OF d(2) False]] by blast
    qed
  qed
qed

text \<open>
  Claim C34. The binary search over a table without holes ends and does what a search from the
  front would do: it finds the only extent that holds the address, asks for a new extent at the
  address right after the last one, and stops the run elsewhere.
\<close>

theorem findExtEntry_linear_search:
  assumes "extlist s fid = Some e" "extentryNum s fid = n" "exts_ok e n" "0 \<le> fid" "fid < MAX_LFILE_NUM"
  shows "findExtEntry s fid a =
    (case ext_index e n a of
       Some i \<Rightarrow> Inr i
     | None \<Rightarrow> if a = ext_total e n then Inr n else Inl (Abort ''ILFS - findExtEntry''))"
  by (rule findExtEntry_linear [OF assms])

text \<open>
  Claim C28. EXT3 implements the map from the blocks of a file to the blocks of the disk. A page
  request at an idle file system whose first block is not behind the end of the file is answered
  after at most two block requests per block; the data blocks that the disk is asked for, in
  order, are the physical blocks of the logical blocks of the request under the final table; every
  other block request is for the block in front of an extent; the table only grows at its end.
\<close>

theorem ext3_implements_block_map:
  assumes "e_pageReqQ s = []" "e_outstanding s = 0" "0 < e_degree s" "brs s ptr = None" "\<not> getPending r"
    and "extlist s (pg_fileId r) = Some e" "extentryNum s (pg_fileId r) = n" "exts_ok e n"
    and "0 \<le> pg_fileId r" "pg_fileId r < MAX_LFILE_NUM" "0 \<le> getSubID r" "VFS_SUB_ID_BASE dvd getSubID r"
    and "e_blk_size s \<noteq> 0" "k = e_page_size s sdiv e_blk_size s" "0 < k"
    and "0 \<le> getPageStart r" "getPageStart r < getPageEnd r" "getPageStart r * k \<le> ext_total e n"
    and "n + max 0 (getPageEnd r * k - ext_total e n) \<le> MAX_EXT_ENTRY_NUM"
    and "0 < new_ext_size s" "new_ext_size s < 2147483648"
  shows "\<exists>s1 bs s'. ext3_newReq ptr heap r s = Inr s1 \<and>
    lfs_serve (2 * nat ((getPageEnd r - getPageStart r) * k)) s1 = Inr (bs, r\<lparr>getKind := BLK_RESP\<rparr>, s') \<and>
    served ptr r e n (getPageStart r * k) (getPageEnd r * k) bs s'"
proof -
  define br where "br = \<lparr> br_reqid = getID r, br_reqsubid = getSubID r, br_start = getPageStart r * k,
                   br_end = getPageEnd r * k, extindex = 0, extoff = 0 \<rparr>"
  define s1 where "s1 = s\<lparr>e_pageReqQ := [(ptr, r)], brs := (brs s)(ptr \<mapsto> br)\<rparr>"
  have "ext3_newReq ptr heap r s = Inr s1"
    using assms by (simp add: ext3_newReq_def new_br_def file_exts_def s1_def br_def Let_def)
  moreover have "serving s1 ptr r e n (getPageStart r * k) (getPageEnd r * k)"
    using assms by (simp add: serving_def s1_def br_def)
  moreover have "getPageEnd r * k - getPageStart r * k = (getPageEnd r - getPageStart r) * k"
    by (simp add: algebra_simps)
  ultimately show ?thesis using lfs_serve_all [of s1 ptr r e n _ _ "2 * nat ((getPageEnd r - getPageStart r) * k)"]
    by fastforce
qed

section \<open>Saving and loading the tables\<close>

definition tables_ok :: "ext3 \<Rightarrow> bool" where
  "tables_ok s \<longleftrightarrow> (\<forall>fid e. extlist s fid = Some e \<longrightarrow> 0 \<le> fid \<and> fid < MAX_LFILE_NUM \<and>
     0 \<le> extentryNum s fid \<and> extentryNum s fid < MAX_EXT_ENTRY_NUM \<and> logistart (e (extentryNum s fid)) = -1 \<and>
     (\<forall>i. 0 \<le> i \<and> i < extentryNum s fid \<longrightarrow> logistart (e i) \<noteq> -1))"

definition ext_line_of :: "ext_t \<Rightarrow> ext_line" where
  "ext_line_of x = ExtLine (Some (logistart x)) (Some (phystart x)) (Some (ext_length x))"

definition table_lines :: "ext3 \<Rightarrow> int \<Rightarrow> ext_line list" where
  "table_lines s fid = map (\<lambda>i. ext_line_of (the (extlist s fid) i)) [0..extentryNum s fid - 1]"

definition file_lines :: "ext3 \<Rightarrow> int \<Rightarrow> ext_line list" where
  "file_lines s fid = FidLine (Some fid) # table_lines s fid"

definition registered :: "ext3 \<Rightarrow> int list" where
  "registered s = filter (\<lambda>fid. extlist s fid \<noteq> None) [0..MAX_LFILE_NUM - 1]"

definition load_exts :: "(int \<Rightarrow> ext_t) \<Rightarrow> int \<Rightarrow> int \<Rightarrow> (int \<Rightarrow> ext_t) \<Rightarrow> int \<Rightarrow> ext_t" where
  "load_exts e i m e0 = (\<lambda>j. if i \<le> j \<and> j < m
     then (e0 j)\<lparr>logistart := logistart (e j), phystart := phystart (e j), ext_length := ext_length (e j)\<rparr> else e0 j)"

lemma print_exts_lines:
  assumes "0 \<le> m" "m < MAX_EXT_ENTRY_NUM" "logistart (e m) = -1" "\<forall>i. 0 \<le> i \<and> i < m \<longrightarrow> logistart (e i) \<noteq> -1"
  shows "0 \<le> i \<Longrightarrow> i \<le> m \<Longrightarrow> m - i < int n \<Longrightarrow> print_exts n e i = Inr (map (\<lambda>i. ext_line_of (e i)) [i..m - 1])"
proof (induction n arbitrary: i)
  case (Suc n)
  have at: "ext_at e i = Inr (e i)" using Suc.prems assms(2) by (simp add: ext_at_def)
  show ?case
  proof (cases "i = m")
    case True
    with at assms(3) show ?thesis by simp
  next
    case False
    then have "print_exts n e (i + 1) = Inr (map (\<lambda>i. ext_line_of (e i)) [i + 1..m - 1])"
      using Suc.prems by (intro Suc.IH) auto
    with False Suc.prems at assms(4) show ?thesis by (simp add: upto_rec1 [of i] ext_line_of_def)
  qed
qed simp

lemma print_files_lines:
  assumes "tables_ok s"
  shows "print_files s fids = Inr (concat (map (file_lines s) (filter (\<lambda>fid. extlist s fid \<noteq> None) fids)))"
proof (induction fids)
  case (Cons fid fids)
  show ?case
  proof (cases "extlist s fid")
    case (Some e)
    with assms have "0 \<le> extentryNum s fid" "extentryNum s fid < MAX_EXT_ENTRY_NUM"
      "logistart (e (extentryNum s fid)) = -1" "\<forall>i. 0 \<le> i \<and> i < extentryNum s fid \<longrightarrow> logistart (e i) \<noteq> -1"
      by (auto simp: tables_ok_def)
    from print_exts_lines [OF this, of 0 "nat MAX_EXT_ENTRY_NUM + 1"] this Some
    have "print_exts (nat MAX_EXT_ENTRY_NUM + 1) e 0 = Inr (table_lines s fid)"
      by (simp add: table_lines_def del: print_exts.simps)
    with Some Cons show ?thesis by (simp add: file_lines_def del: print_exts.simps)
  qed (use Cons in simp)
qed simp

lemma read_exts_lines:
  assumes "m < MAX_EXT_ENTRY_NUM" "rest = [] \<or> (\<exists>f ls. rest = FidLine f # ls)"
  shows "0 \<le> i \<Longrightarrow> i \<le> m \<Longrightarrow> read_exts (map (\<lambda>i. ext_line_of (e i)) [i..m - 1] @ rest) i e0 l =
     Inr (load_exts e i m e0, m, if rest \<noteq> [] then hd rest else if i < m then ext_line_of (e (m - 1)) else l, tl rest)"
proof (induction "nat (m - i)" arbitrary: i e0 l)
  case 0
  then have "i = m" by simp
  with assms(2) show ?case by (auto simp: load_exts_def fun_eq_iff)
next
  case (Suc k)
  then have less: "i < m" by simp
  then have at: "ext_at e0 i = Inr (e0 i)" using Suc.prems assms(1) by (simp add: ext_at_def)
  let ?e1 = "e0(i := (e0 i)\<lparr>logistart := logistart (e i), phystart := phystart (e i), ext_length := ext_length (e i)\<rparr>)"
  have "load_exts e (i + 1) m ?e1 = load_exts e i m e0"
    using less by (auto simp: load_exts_def fun_eq_iff)
  moreover have "read_exts (map (\<lambda>i. ext_line_of (e i)) [i + 1..m - 1] @ rest) (i + 1) ?e1 (ext_line_of (e i)) =
      Inr (load_exts e (i + 1) m ?e1, m, if rest \<noteq> [] then hd rest else if i + 1 < m then ext_line_of (e (m - 1))
        else ext_line_of (e i), tl rest)"
    using Suc(2) Suc.prems less by (intro Suc(1)) auto
  ultimately show ?case using less at
    by (cases "m = i + 1") (auto simp: upto_rec1 [of i] ext_line_of_def scan_ext_def)
qed

definition loaded :: "ext3 \<Rightarrow> (int \<Rightarrow> ext_t) \<Rightarrow> int set \<Rightarrow> ext3 \<Rightarrow> ext3" where
  "loaded s heap F s0 = s0\<lparr>
     extlist := (\<lambda>fid. if fid \<in> F then Some (load_exts (the (extlist s fid)) 0 (extentryNum s fid) (fresh_exts heap))
                       else extlist s0 fid),
     extentryNum := (\<lambda>fid. if fid \<in> F then extentryNum s fid else extentryNum s0 fid)\<rparr>"

lemma loaded_empty: "loaded s heap {} s0 = s0"
  by (simp add: loaded_def)

lemma loaded_insert:
  "loaded s heap F (s0\<lparr>extlist := (extlist s0)(fid \<mapsto> load_exts (the (extlist s fid)) 0 (extentryNum s fid) (fresh_exts heap)),
     extentryNum := (extentryNum s0)(fid := extentryNum s fid)\<rparr>) = loaded s heap (insert fid F) s0"
  by (auto simp: loaded_def fun_eq_iff)

lemma init_exts_file:
  assumes "tables_ok s" "extlist s fid \<noteq> None"
    and "rest = [] \<or> (\<exists>f ls. rest = FidLine f # ls)"
  shows "init_exts (Suc n) heap (FidLine (Some fid)) (table_lines s fid @ rest) fid0 s0 =
    init_exts n heap (if rest \<noteq> [] then hd rest
                      else if 0 < extentryNum s fid then ext_line_of (the (extlist s fid) (extentryNum s fid - 1))
                      else FidLine (Some fid))
      (tl rest) fid
      (s0\<lparr>extlist := (extlist s0)(fid \<mapsto> load_exts (the (extlist s fid)) 0 (extentryNum s fid) (fresh_exts heap)),
          extentryNum := (extentryNum s0)(fid := extentryNum s fid)\<rparr>)"
proof -
  from assms(1,2) have "0 \<le> fid" "fid < MAX_LFILE_NUM" "0 \<le> extentryNum s fid" "extentryNum s fid < MAX_EXT_ENTRY_NUM"
    by (auto simp: tables_ok_def)
  then show ?thesis
    using read_exts_lines [OF _ assms(3), of "extentryNum s fid" 0 "the (extlist s fid)" "fresh_exts heap" "FidLine (Some fid)"]
    by (simp add: table_lines_def)
qed

lemma file_lines_rest:
  "concat (map (file_lines s) fids) = [] \<or> (\<exists>f ls. concat (map (file_lines s) fids) = FidLine f # ls)"
  by (cases fids) (auto simp: file_lines_def)

lemma init_exts_files:
  assumes "tables_ok s"
  shows "\<forall>f\<in>set (fid # fids). extlist s f \<noteq> None \<Longrightarrow>
    extentryNum s (last (fid # fids)) \<noteq> 0 \<Longrightarrow> length fids + 1 < n \<Longrightarrow>
    init_exts n heap (FidLine (Some fid)) (table_lines s fid @ concat (map (file_lines s) fids)) fid0 s0 =
      Inr (loaded s heap (set (fid # fids)) s0)"
proof (induction fids arbitrary: n fid fid0 s0)
  case Nil
  then obtain k where n: "n = Suc (Suc k)" by (cases n; cases "n - 1") auto
  have "0 < extentryNum s fid" using Nil assms by (fastforce simp: tables_ok_def)
  then have "init_exts n heap (FidLine (Some fid)) (table_lines s fid @ []) fid0 s0 =
      init_exts (Suc k) heap (ext_line_of (the (extlist s fid) (extentryNum s fid - 1))) [] fid
       (s0\<lparr>extlist := (extlist s0)(fid \<mapsto> load_exts (the (extlist s fid)) 0 (extentryNum s fid) (fresh_exts heap)),
          extentryNum := (extentryNum s0)(fid := extentryNum s fid)\<rparr>)"
    using Nil init_exts_file [OF assms, of fid "[]" "Suc k" heap fid0 s0] n by (simp del: init_exts.simps)
  also have "\<dots> = Inr (loaded s heap {} (s0\<lparr>extlist := (extlist s0)(fid \<mapsto> load_exts (the (extlist s fid)) 0 (extentryNum s fid)
      (fresh_exts heap)), extentryNum := (extentryNum s0)(fid := extentryNum s fid)\<rparr>))"
    by (simp add: ext_line_of_def loaded_empty)
  finally show ?case by (simp only: loaded_insert list.map concat.simps append_Nil2 list.set)
next
  case (Cons g fids)
  then obtain k where n: "n = Suc k" by (cases n) auto
  have "init_exts n heap (FidLine (Some fid)) (table_lines s fid @ concat (map (file_lines s) (g # fids))) fid0 s0 =
      init_exts k heap (FidLine (Some g)) (table_lines s g @ concat (map (file_lines s) fids)) fid
       (s0\<lparr>extlist := (extlist s0)(fid \<mapsto> load_exts (the (extlist s fid)) 0 (extentryNum s fid) (fresh_exts heap)),
          extentryNum := (extentryNum s0)(fid := extentryNum s fid)\<rparr>)"
    using init_exts_file [OF assms _ file_lines_rest [of s "g # fids"], of fid k heap fid0 s0] Cons.prems n
    by (simp add: file_lines_def)
  also have "\<dots> = Inr (loaded s heap (set (g # fids))
       (s0\<lparr>extlist := (extlist s0)(fid \<mapsto> load_exts (the (extlist s fid)) 0 (extentryNum s fid) (fresh_exts heap)),
          extentryNum := (extentryNum s0)(fid := extentryNum s fid)\<rparr>))"
    using Cons.prems n by (intro Cons.IH) auto
  finally show ?case by (simp add: loaded_insert)
qed

lemma init_exts_stuck:
  "0 \<le> fid \<Longrightarrow> fid < MAX_LFILE_NUM \<Longrightarrow>
    init_exts n heap (FidLine (Some fid)) [] fid0 s0 = Inl (Diverge ''ILFS::initExtLists'')"
  by (induction n arbitrary: fid0 s0) auto

lemma init_exts_diverges:
  assumes "tables_ok s"
  shows "\<forall>f\<in>set (fid # fids). extlist s f \<noteq> None \<Longrightarrow> extentryNum s (last (fid # fids)) = 0 \<Longrightarrow>
    init_exts n heap (FidLine (Some fid)) (table_lines s fid @ concat (map (file_lines s) fids)) fid0 s0 =
      Inl (Diverge ''ILFS::initExtLists'')"
proof (induction fids arbitrary: n fid fid0 s0)
  case Nil
  then show ?case using assms by (auto simp: table_lines_def tables_ok_def intro!: init_exts_stuck)
next
  case (Cons g fids)
  show ?case
  proof (cases n)
    case (Suc k)
    have "init_exts k heap (FidLine (Some g)) (table_lines s g @ concat (map (file_lines s) fids)) fid s1 =
        Inl (Diverge ''ILFS::initExtLists'')" for s1
      using Cons.prems by (intro Cons.IH) auto
    then show ?thesis
      using init_exts_file [OF assms _ file_lines_rest [of s "g # fids"], of fid k heap fid0 s0] Cons.prems(1) Suc
      by (simp add: file_lines_def [of s g] del: init_exts.simps)
  qed simp
qed

text \<open>
  Claim C32. What the local file system prints on exit is what it reads at the next start: every
  registered file gets its entries and their number back, with no extent accessed yet, and other
  files stay unregistered. The exception is a last registered file without an entry: its
  identity is the last line printed, and reading it never ends, whatever the number of turns.
\<close>

theorem extent_tables_roundtrip:
  assumes "tables_ok s" "printExtLists s = Inr ls" "\<forall>fid. extlist s0 fid = None"
  shows "if registered s \<noteq> [] \<and> extentryNum s (last (registered s)) = 0
    then initExtLists heap fid0 ls s0 = Inl (Diverge ''ILFS::initExtLists'')
    else \<exists>s'. initExtLists heap fid0 ls s0 = Inr s' \<and> (\<forall>fid. case extlist s fid of
        None \<Rightarrow> extlist s' fid = None
      | Some e \<Rightarrow> extentryNum s' fid = extentryNum s fid \<and> (\<exists>e'. extlist s' fid = Some e' \<and>
          (\<forall>i. 0 \<le> i \<and> i < extentryNum s fid \<longrightarrow> e' i = (e i)\<lparr>accessed := -1\<rparr>)))"
proof -
  have ls: "ls = concat (map (file_lines s) (registered s))"
    using assms(2) print_files_lines [OF assms(1)] by (simp add: printExtLists_def registered_def)
  have reg: "fid \<in> set (registered s) \<longleftrightarrow> extlist s fid \<noteq> None" for fid
    using assms(1) by (auto simp: registered_def tables_ok_def)
  have tables: "\<forall>fid. case extlist s fid of None \<Rightarrow> extlist (loaded s heap (set (registered s)) s0) fid = None
      | Some e \<Rightarrow> extentryNum (loaded s heap (set (registered s)) s0) fid = extentryNum s fid \<and>
          (\<exists>e'. extlist (loaded s heap (set (registered s)) s0) fid = Some e' \<and>
            (\<forall>i. 0 \<le> i \<and> i < extentryNum s fid \<longrightarrow> e' i = (e i)\<lparr>accessed := -1\<rparr>))"
    using assms(3) by (auto simp: loaded_def reg load_exts_def fresh_exts_def split: option.splits)
  show ?thesis
  proof (cases "registered s")
    case Nil
    then have "extlist s fid = None" for fid using reg [of fid] by simp
    with ls Nil assms(3) show ?thesis by (simp add: initExtLists_def)
  next
    case (Cons fid fids)
    have all: "\<forall>f\<in>set (fid # fids). extlist s f \<noteq> None" using reg Cons by auto
    have init: "initExtLists heap fid0 ls s0 = init_exts (length ls + 1) heap (FidLine (Some fid))
        (table_lines s fid @ concat (map (file_lines s) fids)) fid0 s0"
      using ls Cons by (simp add: initExtLists_def file_lines_def)
    have "length fids \<le> length (concat (map (file_lines s) fids))"
      by (induction fids) (auto simp: file_lines_def)
    then have len: "length fids + 1 < length ls + 1" using ls Cons by (simp add: file_lines_def)
    show ?thesis
    proof (cases "extentryNum s (last (fid # fids)) = 0")
      case True
      then show ?thesis using init_exts_diverges [OF assms(1) all] init Cons by simp
    next
      case False
      have "initExtLists heap fid0 ls s0 = Inr (loaded s heap (set (registered s)) s0)"
        using init_exts_files [OF assms(1) all False len] init by (simp only: Cons)
      moreover have some: "\<not> (registered s \<noteq> [] \<and> extentryNum s (last (registered s)) = 0)" using False Cons by simp
      ultimately show ?thesis using tables unfolding if_not_P [OF some]
        by (intro exI [of _ "loaded s heap (set (registered s)) s0"] conjI)
    qed
  qed
qed

section \<open>What the local file system does not survive\<close>

text \<open>
  The first access to a file that the extent file does not list stops the run:
  \<^verbatim>\<open>newReq\<close> gives the file a table but no number of entries, and the search with the number 0 that
  the memory held reads the entry in front of the table.
\<close>

theorem ext3_new_file_fails:
  assumes "e_pageReqQ s = []" "e_outstanding s < e_degree s" "brs s ptr = None" "e_blk_size s \<noteq> 0"
    and "0 \<le> pg_fileId r" "pg_fileId r < MAX_LFILE_NUM" "extlist s (pg_fileId r) = None" "extentryNum s (pg_fileId r) = 0"
    and "getKind r = BLK_REQ" "\<not> getPending r" "0 \<le> getPageStart r" "getPageStart r < getPageEnd r"
    and "0 \<le> e_page_size s sdiv e_blk_size s"
  shows "lfs_handleMessage ptr heap (LfsPage r) s = Inl (OutOfBounds ''extlist[fid]'')"
proof -
  have "0 \<le> getPageStart r * (e_page_size s sdiv e_blk_size s)" using assms by simp
  with assms show ?thesis
    by (simp add: lfs_handleMessage_def handlePageReq_def ext3_newReq_def new_br_def file_exts_def Let_def
        dispatchNextDiskReq_def ext3_dispatchNext_def findExtEntry_def ext_at_def not_less [symmetric] del: not_less)
qed

lemma findExtEntry_at:
  assumes "extlist s fid = Some e" "exts_ok e (extentryNum s fid)" "0 \<le> fid" "fid < MAX_LFILE_NUM"
    and "ext_index e (extentryNum s fid) a = Some i"
  shows "findExtEntry s fid a = Inr i" "i \<noteq> extentryNum s fid" "ext_at e i = Inr (e i)"
  using findExtEntry_linear [OF assms(1) refl assms(2-4), of a] assms(2,5) ext_index_Some [OF assms(2), of a i]
  by (auto simp: ext_at_def exts_ok_def)

text \<open>One dispatch inside the table.\<close>

lemma dispatch_at:
  assumes "e_outstanding s < e_degree s" "take_pending (e_pageReqQ s) = Some ((ptr, r), q)" "brs s ptr = Some br"
    and "extlist s (pg_fileId r) = Some e" "exts_ok e (extentryNum s (pg_fileId r))"
    and "0 \<le> pg_fileId r" "pg_fileId r < MAX_LFILE_NUM" "ext_index e (extentryNum s (pg_fileId r)) (br_start br) = Some i"
  defines "off \<equiv> to_int32 (br_start br - logistart (e i))"
  shows "ext3_dispatchNext s = Inr (Some (blk_for r (e i) (fst (next_blks (e i) br off)) (snd (next_blks (e i) br off))),
    s\<lparr>e_pageReqQ := q, e_outstanding := e_outstanding s + 1, brs := (brs s)(ptr \<mapsto> br\<lparr>extindex := i, extoff := off\<rparr>)\<rparr>)"
proof -
  define t where "t = s\<lparr>e_pageReqQ := q, e_outstanding := e_outstanding s + 1\<rparr>"
  have t: "extlist t (pg_fileId r) = Some e" "extentryNum t (pg_fileId r) = extentryNum s (pg_fileId r)" "brs t = brs s"
    using assms by (auto simp: t_def)
  note f = findExtEntry_at [of t "pg_fileId r" e "br_start br" i, OF t(1), unfolded t(2), OF assms(5-8)]
  have "alloc_ext (pg_fileId r) i (br_start br) t = Inr t"
    using f(2) assms(6,7) t by (simp add: alloc_ext_def file_exts_def)
  then show ?thesis using assms(1-3) f(1,3) t
    by (simp add: ext3_dispatchNext_def t_def [symmetric] blk_for_def off_def Let_def split_beta)
qed

lemma dispatch_none:
  "take_pending (e_pageReqQ s) = None \<Longrightarrow> ext3_dispatchNext s = Inr (None, s)"
  by (simp add: ext3_dispatchNext_def)

text \<open>
  Claim C40. Two requests for blocks of one extent that was not accessed yet stop the run when the
  degree allows two outstanding requests: each asks for the metadata, the answer to the first
  marks the extent, and the answer to the second is then refused.
\<close>

theorem ext3_concurrent_first_access_fails:
  assumes "e_pageReqQ s = []" "e_outstanding s = 0" "2 \<le> e_degree s" "brs s = (\<lambda>_. None)" "p1 \<noteq> p2"
    and "extlist s f = Some e" "extentryNum s f = n" "exts_ok e n" "0 \<le> f" "f < MAX_LFILE_NUM"
    and "e_blk_size s \<noteq> 0" "e_page_size s = e_blk_size s"
    and "\<forall>r\<in>{r1, r2}. getKind r = BLK_REQ \<and> \<not> getPending r \<and> pg_fileId r = f \<and> getPageStart r < getPageEnd r \<and>
       0 \<le> getSubID r \<and> VFS_SUB_ID_BASE dvd getSubID r \<and> ext_index e n (getPageStart r) = Some i"
    and "(getID r1, getSubID r1) \<noteq> (getID r2, getSubID r2)" "accessed (e i) = -1"
  shows "\<exists>b1 b2 s1 s2 outs s3. lfs_handleMessage p1 heap (LfsPage r1) s = Inr ([ToDisk b1], s1) \<and>
    lfs_handleMessage p2 heap (LfsPage r2) s1 = Inr ([ToDisk b2], s2) \<and>
    lfs_handleMessage 0 heap (LfsBlk (b1\<lparr>getKind := BLK_RESP\<rparr>)) s2 = Inr (outs, s3) \<and>
    lfs_handleMessage 0 heap (LfsBlk (b2\<lparr>getKind := BLK_RESP\<rparr>)) s3 = Inl (Abort ''EXT3 - finishedReq'')"
proof -
  define off where "off r = to_int32 (getPageStart r - logistart (e i))" for r :: PageRequest
  define br0 where "br0 r = \<lparr> br_reqid = getID r, br_reqsubid = getSubID r, br_start = getPageStart r,
      br_end = getPageEnd r, extindex = 0, extoff = 0 \<rparr>" for r :: PageRequest
  define br where "br r = (br0 r)\<lparr>extindex := i, extoff := off r\<rparr>" for r :: PageRequest
  define b where "b r = blk_for r (e i) (phystart (e i) - 1) (phystart (e i))" for r :: PageRequest
  define s1 where "s1 = s\<lparr>e_pageReqQ := [(p1, r1\<lparr>getPending := True\<rparr>)], e_outstanding := 1,
      brs := (\<lambda>_. None)(p1 \<mapsto> br r1)\<rparr>"
  define s2 where "s2 = s\<lparr>e_pageReqQ := [(p1, r1\<lparr>getPending := True\<rparr>), (p2, r2\<lparr>getPending := True\<rparr>)], e_outstanding := 2,
      brs := (\<lambda>_. None)(p1 \<mapsto> br r1, p2 \<mapsto> br r2)\<rparr>"
  have r: "getKind r = BLK_REQ" "\<not> getPending r" "pg_fileId r = f" "getPageStart r < getPageEnd r"
    "ext_index e n (getPageStart r) = Some i" "getSubID r sdiv VFS_SUB_ID_BASE * VFS_SUB_ID_BASE = getSubID r"
    "(getSubID r + LFS_SUB_ID_BASE) sdiv VFS_SUB_ID_BASE * VFS_SUB_ID_BASE = getSubID r"
    if "r \<in> {r1, r2}" for r
  proof -
    from assms(13) that have "getKind r = BLK_REQ \<and> \<not> getPending r \<and> pg_fileId r = f \<and> getPageStart r < getPageEnd r \<and>
       0 \<le> getSubID r \<and> VFS_SUB_ID_BASE dvd getSubID r \<and> ext_index e n (getPageStart r) = Some i" by (rule bspec)
    then show "getKind r = BLK_REQ" "\<not> getPending r" "pg_fileId r = f" "getPageStart r < getPageEnd r"
      "ext_index e n (getPageStart r) = Some i" "getSubID r sdiv VFS_SUB_ID_BASE * VFS_SUB_ID_BASE = getSubID r"
      "(getSubID r + LFS_SUB_ID_BASE) sdiv VFS_SUB_ID_BASE * VFS_SUB_ID_BASE = getSubID r"
      using vfs_base_div [of "getSubID r" 0] vfs_base_div [of "getSubID r" LFS_SUB_ID_BASE] by simp_all
  qed
  have find: "findExtEntry t f (getPageStart r) = Inr i" "i \<noteq> n" "ext_at e i = Inr (e i)"
    if "extlist t f = Some e" "extentryNum t f = n" "r \<in> {r1, r2}" for t r
    using findExtEntry_at [of t f e "getPageStart r" i] that(1,2) assms(8-10) r(5) [OF that(3)] by simp_all
  have new: "new_br t r = Inr (br0 r)" if "e_blk_size t = e_blk_size s" "e_page_size t = e_page_size s" for t r
    using that assms(11,12) by (auto simp: new_br_def br0_def Let_def signed_divide_int_def sgn_if)
  have one: "lfs_handleMessage p1 heap (LfsPage r1) s = Inr ([ToDisk (b r1)], s1)"
  proof -
    define t where "t = s\<lparr>e_pageReqQ := [(p1, r1)], brs := (\<lambda>_. None)(p1 \<mapsto> br0 r1)\<rparr>"
    have "ext3_newReq p1 heap r1 s = Inr t"
      using assms(1,4,6,9,10) r(3) [of r1] new [of s r1] by (simp add: ext3_newReq_def file_exts_def t_def)
    moreover have "ext3_dispatchNext t = Inr (Some (b r1), s1)"
      using assms(2,3,6-10,15) r(2,3,5) [of r1]
      by (subst dispatch_at [of t p1 "r1\<lparr>getPending := True\<rparr>" "[(p1, r1\<lparr>getPending := True\<rparr>)]" "br0 r1" e i])
        (simp_all add: t_def s1_def br0_def br_def off_def b_def next_blks_def blk_for_def)
    moreover have "ext3_dispatchNext s1 = Inr (None, s1)" by (intro dispatch_none) (simp add: s1_def)
    ultimately show ?thesis using r(1,4) [of r1]
      by (simp add: lfs_handleMessage_def handlePageReq_def dispatchNextDiskReq_def t_def b_def blk_for_def)
  qed
  have two: "lfs_handleMessage p2 heap (LfsPage r2) s1 = Inr ([ToDisk (b r2)], s2)"
  proof -
    define t where "t = s1\<lparr>e_pageReqQ := [(p1, r1\<lparr>getPending := True\<rparr>), (p2, r2)], brs := (\<lambda>_. None)(p1 \<mapsto> br r1, p2 \<mapsto> br0 r2)\<rparr>"
    have "ext3_newReq p2 heap r2 s1 = Inr t"
      using assms(5,6,9,10) r(3) [of r2] new [of s1 r2] by (simp add: ext3_newReq_def file_exts_def t_def s1_def)
    moreover have "ext3_dispatchNext t = Inr (Some (b r2), s2)"
      using assms(2,3,6-10,15) r(2,3,5) [of r2]
      by (subst dispatch_at [of t p2 "r2\<lparr>getPending := True\<rparr>"
            "[(p1, r1\<lparr>getPending := True\<rparr>), (p2, r2\<lparr>getPending := True\<rparr>)]" "br0 r2" e i])
        (simp_all add: t_def s1_def s2_def br0_def br_def off_def b_def next_blks_def blk_for_def)
    moreover have "ext3_dispatchNext s2 = Inr (None, s2)" by (intro dispatch_none) (simp add: s2_def)
    ultimately show ?thesis using r(1,4) [of r2]
      by (simp add: lfs_handleMessage_def handlePageReq_def dispatchNextDiskReq_def t_def b_def blk_for_def)
  qed
  define e1 where "e1 = e(i := (e i)\<lparr>accessed := 1\<rparr>)"
  define s3 where "s3 = s2\<lparr>extlist := (extlist s)(f \<mapsto> e1)\<rparr>"
  obtain d where three: "lfs_handleMessage 0 heap (LfsBlk ((b r1)\<lparr>getKind := BLK_RESP\<rparr>)) s2 = Inr ([ToDisk d], s3)"
  proof -
    define t where "t = s3\<lparr>e_pageReqQ := [(p1, r1), (p2, r2\<lparr>getPending := True\<rparr>)], e_outstanding := 1\<rparr>"
    have i: "0 \<le> i" "i < n" "ext_holds (e i) (getPageStart r1)"
      using ext_index_Some [OF assms(8)] r(5) [of r1] by auto
    have ok1: "exts_ok e1 n" using exts_ok_accessed(1) [OF assms(8), where i = i and v = 1] by (simp add: e1_def)
    have at1: "ext_index e1 n (getPageStart r1) = Some i"
      using i by (subst ext_index_Some [OF ok1]) (simp add: e1_def ext_holds_def)
    have off: "off r1 = getPageStart r1 - logistart (e i)"
      using i exts_ok_length [OF assms(8), of i] unfolding off_def by (intro to_int32_id) (auto simp: ext_holds_def)
    have "ext3_finishedReq ((b r1)\<lparr>getKind := BLK_RESP\<rparr>) s2 = Inr (None, t)"
      using assms(5,6,9,10,15) r(2,3,6) [of r1] find(3) [of s r1] assms(7)
      by (simp add: ext3_finishedReq_def b_def blk_for_def new_BlkRequest_def s2_def s3_def t_def br_def br0_def
          file_exts_def e1_def)
    moreover define d where "d = blk_for r1 (e1 i) (fst (next_blks (e1 i) (br r1) (off r1))) (snd (next_blks (e1 i) (br r1) (off r1)))"
    have "ext3_dispatchNext t = Inr (Some d, s3)"
      using assms(2,3,5,7,9,10) r(2,3) [of r1] ok1 at1
      by (subst dispatch_at [of t p1 "r1\<lparr>getPending := True\<rparr>"
            "[(p1, r1\<lparr>getPending := True\<rparr>), (p2, r2\<lparr>getPending := True\<rparr>)]" "br r1" e1 i])
        (simp_all add: t_def s3_def s2_def br_def br0_def off_def e1_def d_def next_blks_def blk_for_def fun_upd_twist)
    moreover have "ext3_dispatchNext s3 = Inr (None, s3)" by (intro dispatch_none) (simp add: s3_def s2_def)
    moreover have "0 < getBlkEnd d - getBlkStart d"
      using i r(4) [of r1] by (simp add: d_def blk_for_def next_blks_def e1_def off br_def br0_def ext_holds_def)
    ultimately have "lfs_handleMessage 0 heap (LfsBlk ((b r1)\<lparr>getKind := BLK_RESP\<rparr>)) s2 = Inr ([ToDisk d], s3)"
      by (simp add: lfs_handleMessage_def handleBlkResp_def dispatchNextDiskReq_def t_def not_le)
    then show thesis by (rule that)
  qed
  have "lfs_handleMessage 0 heap (LfsBlk ((b r2)\<lparr>getKind := BLK_RESP\<rparr>)) s3 = Inl (Abort ''EXT3 - finishedReq'')"
    using assms(5,9,10,14,15) r(2,3,6) [of r2] find(3) [of s r1] assms(6,7)
    by (auto simp: lfs_handleMessage_def handleBlkResp_def ext3_finishedReq_def b_def blk_for_def new_BlkRequest_def
        s2_def s3_def br_def br0_def file_exts_def e1_def ext_at_def split: if_splits)
  with one two three show ?thesis by blast
qed

section \<open>A concrete file system\<close>

definition demo_exts :: "int \<Rightarrow> ext_t" where
  "demo_exts = (\<lambda>i. if i = 0 then \<lparr> logistart = 0, phystart = 100, ext_length = 4, accessed = -1 \<rparr>
     else if i = 1 then \<lparr> logistart = 4, phystart = 200, ext_length = 4, accessed = -1 \<rparr>
     else \<lparr> logistart = -1, phystart = 0, ext_length = 0, accessed = -1 \<rparr>)"

definition demo_fs :: ext3 where
  "demo_fs = \<lparr> e_degree = 2, e_page_size = 4096, e_blk_size = 4096, e_pageReqQ = [],
     extlist = (\<lambda>f. if f = 7 then Some demo_exts else None), extentryNum = (\<lambda>f. if f = 7 then 2 else 0),
     e_outstanding = 0, new_ext_size = 4, new_ext_gap = 100, brs = (\<lambda>_. None) \<rparr>"

definition demo_page :: "int \<Rightarrow> int \<Rightarrow> int \<Rightarrow> int \<Rightarrow> PageRequest" where
  "demo_page i f a b = new_PageRequest\<lparr>getKind := BLK_REQ, getID := i, pg_fileId := f, getPageStart := a, getPageEnd := b\<rparr>"

lemmas demo_lfs = demo_fs_def demo_page_def new_PageRequest_def

lemma demo_exts_ok: "exts_ok demo_exts 2"
proof -
  have "0 \<le> i \<and> i < 2 \<longleftrightarrow> i = 0 \<or> i = 1" "0 \<le> i \<and> i + 1 < 2 \<longleftrightarrow> i = 0" for i :: int by auto
  then show ?thesis by (auto simp: exts_ok_def demo_exts_def general_h)
qed

lemma demo_exts_index: "ext_index demo_exts 2 0 = Some 0" "ext_index demo_exts 2 1 = Some 0"
    "ext_index demo_exts 2 5 = Some 1" "ext_total demo_exts 2 = 8"
  unfolding ext_index_Some [OF demo_exts_ok] by (simp_all add: ext_holds_def demo_exts_def ext_total_def)

theorem findExtEntry_linear_search_witness: "findExtEntry demo_fs 7 5 = Inr 1"
  using findExtEntry_linear_search [of demo_fs 7 demo_exts 2 5] demo_exts_ok demo_exts_index
  by (simp add: demo_fs_def general_h)

theorem ext3_implements_block_map_witness:
  "\<exists>s1 bs s'. ext3_newReq 0 demo_exts (demo_page 1 7 2 10) demo_fs = Inr s1 \<and>
     lfs_serve 16 s1 = Inr (bs, (demo_page 1 7 2 10)\<lparr>getKind := BLK_RESP\<rparr>, s') \<and>
     served 0 (demo_page 1 7 2 10) demo_exts 2 2 10 bs s'"
  using ext3_implements_block_map [of demo_fs 0 "demo_page 1 7 2 10" demo_exts 2 1 demo_exts] demo_exts_ok demo_exts_index
  by (simp add: demo_lfs general_h signed_divide_int_def)

theorem ext3_new_file_fails_witness:
  "lfs_handleMessage 0 demo_exts (LfsPage (demo_page 1 8 0 3)) demo_fs = Inl (OutOfBounds ''extlist[fid]'')"
  by (rule ext3_new_file_fails) (simp_all add: demo_lfs general_h signed_divide_int_def)

theorem ext3_concurrent_first_access_fails_witness:
  "\<exists>b1 b2 s1 s2 outs s3. lfs_handleMessage 3 demo_exts (LfsPage (demo_page 1 7 0 1)) demo_fs = Inr ([ToDisk b1], s1) \<and>
    lfs_handleMessage 4 demo_exts (LfsPage (demo_page 2 7 1 2)) s1 = Inr ([ToDisk b2], s2) \<and>
    lfs_handleMessage 0 demo_exts (LfsBlk (b1\<lparr>getKind := BLK_RESP\<rparr>)) s2 = Inr (outs, s3) \<and>
    lfs_handleMessage 0 demo_exts (LfsBlk (b2\<lparr>getKind := BLK_RESP\<rparr>)) s3 = Inl (Abort ''EXT3 - finishedReq'')"
  by (rule ext3_concurrent_first_access_fails [where e = demo_exts and n = 2 and i = 0 and f = 7])
    (use demo_exts_ok demo_exts_index in \<open>simp_all add: demo_lfs general_h demo_exts_def [THEN fun_cong]\<close>)

lemma demo_tables_ok: "tables_ok demo_fs"
  by (auto simp: tables_ok_def demo_fs_def demo_exts_def general_h)

theorem extent_tables_roundtrip_witness:
  "\<exists>ls s'. printExtLists demo_fs = Inr ls \<and>
     initExtLists demo_exts 0 ls (demo_fs\<lparr>extlist := (\<lambda>_. None)\<rparr>) = Inr s' \<and> extentryNum s' 7 = 2"
proof -
  obtain ls where ls: "printExtLists demo_fs = Inr ls"
    using print_files_lines [OF demo_tables_ok] by (simp add: printExtLists_def)
  have "extentryNum demo_fs (last (registered demo_fs)) \<noteq> 0" if "registered demo_fs \<noteq> []"
    using last_in_set [OF that] by (auto simp: registered_def demo_fs_def split: if_splits)
  with extent_tables_roundtrip [OF demo_tables_ok ls, of "demo_fs\<lparr>extlist := (\<lambda>_. None)\<rparr>" demo_exts 0]
  obtain s' where "initExtLists demo_exts 0 ls (demo_fs\<lparr>extlist := (\<lambda>_. None)\<rparr>) = Inr s'"
    "\<forall>fid. case extlist demo_fs fid of
        None \<Rightarrow> extlist s' fid = None
      | Some e \<Rightarrow> extentryNum s' fid = extentryNum demo_fs fid \<and> (\<exists>e'. extlist s' fid = Some e' \<and>
          (\<forall>i. 0 \<le> i \<and> i < extentryNum demo_fs fid \<longrightarrow> e' i = (e i)\<lparr>accessed := -1\<rparr>))"
    by (auto simp del: split_paired_All split: if_splits)
  from this(1) this(2) [rule_format, of 7] ls show ?thesis by (auto simp: demo_fs_def)
qed

end
