(* ===== verification/Disk.thy ===== *)
theory Disk
  imports Scheduler
begin

text \<open>
  \<^verbatim>\<open>dserver/disk/Disk.cc\<close>: the disk of a data server. The service time of a request is read
  off two tables of sampled times, one for sequential accesses and one for accesses after a
  jump of the head, and interpolated between the samples, whose lengths and jumps are the powers
  of two.
\<close>

definition JUMPSIZECOUNT :: int where "JUMPSIZECOUNT = 22"
definition BLKSIZECOUNT :: int where "BLKSIZECOUNT = 9"
definition BASEBLKSIZE :: int where "BASEBLKSIZE = 4096"
definition MAX_BLK_BATCH :: int where "MAX_BLK_BATCH = 1024"
definition LAST_JUMP_THRESHOLD :: int where "LAST_JUMP_THRESHOLD = 180"
definition JUMP_THRESHOLD :: int where "JUMP_THRESHOLD = 16"

lemmas disk_h = JUMPSIZECOUNT_def BLKSIZECOUNT_def BASEBLKSIZE_def MAX_BLK_BATCH_def LAST_JUMP_THRESHOLD_def
  JUMP_THRESHOLD_def

record disk =
  diskSize :: int
  d_ra_size :: int
  return_zero :: int
  return_zero_period :: real
  d_queue :: "BlkRequest fifo"
  last_offset :: int
  last_jump :: int
  last_access_time :: real
  seq_read_sofar :: int
  jumptime :: "int \<Rightarrow> int \<Rightarrow> int \<Rightarrow> real"
  seqtime :: "int \<Rightarrow> int \<Rightarrow> real"

section \<open>The parameter file\<close>

text \<open>
  A line that is not a header is skipped. A header carries the operation, the sampled size and
  the numbers that \<^verbatim>\<open>fscanf\<close> can read after it.
\<close>

datatype parm_line = ParmHeader string int "real list" | ParmOther

type_synonym parms = "(int \<Rightarrow> int \<Rightarrow> int \<Rightarrow> real) \<times> (int \<Rightarrow> int \<Rightarrow> real)"

definition char_at :: "string \<Rightarrow> nat \<Rightarrow> char" where
  "char_at s i = (if i < length s then s ! i else CHR 0x00)"

text \<open>The loops that count how often a number can be halved.\<close>

function shift_count :: "int \<Rightarrow> int" where
  "shift_count n = (if n > 0 then shift_count (n div 2) + 1 else 0)"
  by auto
termination by (relation "measure nat") auto

definition read_parm :: "parm_line \<Rightarrow> parms \<Rightarrow> parms res" where
  "read_parm l t =
    (case l of
       ParmOther \<Rightarrow> Inr t
     | ParmHeader opr blksize vals \<Rightarrow>
         let blkindex = shift_count (blksize sdiv BASEBLKSIZE) - 1
         in if blksize smod BASEBLKSIZE \<noteq> 0 then Inl (Abort ''Disk - readParmFile'')
            else if blkindex \<ge> BLKSIZECOUNT \<or> blkindex = -1 then Inl (Abort ''Disk-readParmFile'')
            else if char_at opr 1 \<noteq> CHR ''r'' \<and> char_at opr 1 \<noteq> CHR ''w'' then Inl (Abort ''Disk-readParmFile'')
            else
              let readflag = (if char_at opr 1 = CHR ''r'' then 1 else 0); (jt, st) = t
              in if char_at opr 0 = CHR ''r'' then
                   Inr (jt(readflag := (jt readflag)(blkindex := (\<lambda>i.
                          if 0 \<le> i \<and> i < JUMPSIZECOUNT \<and> i < int (length vals) then vals ! nat i
                          else jt readflag blkindex i))), st)
                 else if char_at opr 0 = CHR ''s'' then
                   Inr (jt, st(readflag := (st readflag)(blkindex := (case vals of [] \<Rightarrow> st readflag blkindex | v # _ \<Rightarrow> v))))
                 else Inl (Abort ''Disk-readParmFile''))"

text \<open>
  The final check turns milliseconds into seconds, row by row. It returns -1 in two cases: after
  \<^verbatim>\<open>PrintError::print\<close>, which does not return, and for a sequential time of 0, which ends the
  check at once.
\<close>

fun check_parms :: "(int \<times> int) list \<Rightarrow> parms \<Rightarrow> (int \<times> parms) res" where
  "check_parms [] t = Inr (1, t)"
| "check_parms ((i, j) # rows) (jt, st) =
     (let jt = jt(i := (jt i)(j := (\<lambda>k. if 0 \<le> k \<and> k < JUMPSIZECOUNT then jt i j k / 1000 else jt i j k)));
          st = st(i := (st i)(j := st i j / 1000))
      in if \<exists>k\<in>set [0..JUMPSIZECOUNT - 1]. jt i j k = 0 then Inl (Abort ''Disk-readParmFile'')
         else if st i j = 0 then Inr (-1, (jt, st))
         else check_parms rows (jt, st))"

definition parm_rows :: "(int \<times> int) list" where
  "parm_rows = concat (map (\<lambda>i. map (\<lambda>j. (i, j)) [0..BLKSIZECOUNT - 1]) [0..1])"

definition readParmFile :: "parm_line list option \<Rightarrow> (int \<times> parms) res" where
  "readParmFile lines =
    (case lines of
       None \<Rightarrow> Inl (Abort ''Disk-readParmFile'')
     | Some ls \<Rightarrow> bindR (run_res read_parm ls (\<lambda>_ _ _. 0, \<lambda>_ _. 0)) (check_parms parm_rows))"

text \<open>Any value but 0 is a success for \<^verbatim>\<open>initialize\<close>.\<close>

definition Disk_initialize :: "parm_line list option \<Rightarrow> int \<Rightarrow> int \<Rightarrow> int \<Rightarrow> int \<Rightarrow> real \<Rightarrow> int \<Rightarrow> disk res" where
  "Disk_initialize lines disk_size deg ra retz period i =
    bindR (readParmFile lines) (\<lambda>(r, jt, st).
    if r = 0 then Inl (Abort ''Disk'')
    else bindR (createScheduler ''FIFO'' i deg) (\<lambda>q.
      Inr \<lparr> diskSize = disk_size, d_ra_size = ra, return_zero = retz, return_zero_period = period, d_queue = q,
            last_offset = 0, last_jump = 0, last_access_time = 0, seq_read_sofar = 0, jumptime = jt, seqtime = st \<rparr>))"

text \<open>\<^verbatim>\<open>jumpsizes\<close> and \<^verbatim>\<open>blksizes\<close> are filled by doubling.\<close>

fun sizes :: "nat \<Rightarrow> int" where
  "sizes 0 = 1"
| "sizes (Suc i) = sizes i * 2"

section \<open>The service time\<close>

definition jump_at :: "disk \<Rightarrow> int \<Rightarrow> int \<Rightarrow> int \<Rightarrow> real res" where
  "jump_at d r b j =
    (if 0 \<le> b \<and> b < BLKSIZECOUNT \<and> 0 \<le> j \<and> j < JUMPSIZECOUNT then Inr (jumptime d r b j) else Inl (OutOfBounds ''jumptime''))"

definition seq_at :: "disk \<Rightarrow> int \<Rightarrow> int \<Rightarrow> real res" where
  "seq_at d r b = (if 0 \<le> b \<and> b < BLKSIZECOUNT then Inr (seqtime d r b) else Inl (OutOfBounds ''seqtime''))"

definition size_at :: "int \<Rightarrow> int \<Rightarrow> int res" where
  "size_at n i = (if 0 \<le> i \<and> i < n then Inr (sizes (nat i)) else Inl (OutOfBounds ''sizes''))"

text \<open>The line through two samples, at \<open>x\<close>; the indices are \<open>i - 1\<close> and \<open>i\<close> in a table of \<open>n\<close> sizes.\<close>

definition line_at :: "int \<Rightarrow> int \<Rightarrow> int \<Rightarrow> real \<Rightarrow> real \<Rightarrow> real res" where
  "line_at n i x lo hi =
    bindR (size_at n (i - 1)) (\<lambda>s0. bindR (size_at n i) (\<lambda>s1.
    Inr ((hi - lo) * real_of_int (x - s0) / real_of_int (s1 - s0) + lo)))"

definition jump_span :: "disk \<Rightarrow> int \<Rightarrow> int \<Rightarrow> int \<Rightarrow> int \<Rightarrow> real res" where
  "jump_span d r b jumpi jump =
    (if jumpi = JUMPSIZECOUNT then jump_at d r b (jumpi - 1)
     else bindR (jump_at d r b jumpi) (\<lambda>hi. bindR (jump_at d r b (jumpi - 1)) (\<lambda>lo. line_at JUMPSIZECOUNT jumpi jump lo hi)))"

definition timespan :: "disk \<Rightarrow> int \<Rightarrow> int \<Rightarrow> int \<Rightarrow> real res" where
  "timespan d r len jump =
    (let jumpi = shift_count jump; blki = shift_count len
     in if jumpi = 0 then
          (if blki = BLKSIZECOUNT then seq_at d r (blki - 1)
           else bindR (seq_at d r blki) (\<lambda>hi. bindR (seq_at d r (blki - 1)) (\<lambda>lo. line_at BLKSIZECOUNT blki len lo hi)))
        else if blki = BLKSIZECOUNT then jump_span d r (blki - 1) jumpi jump
        else bindR (jump_span d r (blki - 1) jumpi jump) (\<lambda>t1. bindR (jump_span d r blki jumpi jump) (\<lambda>t2.
               line_at BLKSIZECOUNT blki len t1 t2)))"

section \<open>The operations\<close>

definition checkReadahead :: "BlkRequest \<Rightarrow> disk \<Rightarrow> bool \<times> disk" where
  "checkReadahead req d =
    (let jump = \<bar>getBlkStart req - last_offset d\<bar>; sofar = seq_read_sofar d; lastj = last_jump d;
         len = to_int32 (getBlkEnd req - getBlkStart req);
         ra = (lastj \<ge> LAST_JUMP_THRESHOLD \<and> jump \<le> JUMP_THRESHOLD \<and> jump \<noteq> 0) \<or>
              (lastj < 1024 \<and> jump > 786432 \<and> sofar < 96) \<or>
              (lastj = 0 \<and> jump > 0 \<and> (sofar = 96 \<or> (sofar > 96 \<and> jump > 786432))) \<or>
              (jump = 0 \<and> sofar = 96)
     in (ra, d\<lparr>seq_read_sofar := (if jump = 0 then to_int32 (sofar + len) else len), last_jump := jump\<rparr>))"

definition disk_serve :: "BlkRequest \<Rightarrow> disk \<Rightarrow> (real \<times> disk) res" where
  "disk_serve req d =
    (let len = to_int32 (getBlkEnd req - getBlkStart req)
     in if getBlkEnd req > diskSize d then Inl (Abort ''Disk - dispatchJobs'')
        else if len > MAX_BLK_BATCH \<or> len \<le> 0 \<or> getBlkStart req > MAX_DISK_OFFSET \<or> getBlkStart req < 0
        then Inl (Abort ''Disk'')
        else
          let jump = \<bar>last_offset d - getBlkStart req\<bar>;
              jump = (if jump > sizes (nat JUMPSIZECOUNT - 1) then sizes (nat JUMPSIZECOUNT - 1) else jump);
              (ra, d) = (if blk_read req \<and> len < d_ra_size d then checkReadahead req d else (False, d));
              len = (if ra then to_int32 (d_ra_size d) else len);
              d = d\<lparr>last_offset := getBlkEnd req\<rparr>
          in bindR (timespan d (if blk_read req then 1 else 0) len jump) (\<lambda>t.
             if t < 0 then Inl (Abort ''Disk - dispatchJobs'') else Inr (t, d)))"

datatype disk_out = DiskAt real BlkRequest | ToLfs BlkRequest

text \<open>
  The loop of \<^verbatim>\<open>dispatchJobs\<close> takes a request from the wait queue in every turn. The kind of
  the request is also changed in the queue, where the object is shared.
\<close>

fun disk_dispatch :: "nat \<Rightarrow> real \<Rightarrow> disk \<Rightarrow> (disk_out list \<times> disk) res" where
  "disk_dispatch 0 now d = Inl (Diverge ''Disk::dispatchJobs'')"
| "disk_dispatch (Suc n) now d =
     (case fifo_dispatchNext (d_queue d) of
        (None, q) \<Rightarrow> Inr ([], d)
      | (Some req, q) \<Rightarrow>
          let req = req\<lparr>getKind := BLK_RESP\<rparr>;
              d = d\<lparr>d_queue := q\<lparr>osQ := butlast (osQ q) @ [req]\<rparr>\<rparr>
          in bindR (disk_serve req d) (\<lambda>(t, d).
             bindR (disk_dispatch n now d) (\<lambda>(outs, d). Inr (DiskAt (now + t) req # outs, d))))"

definition dispatchJobs :: "real \<Rightarrow> disk \<Rightarrow> (disk_out list \<times> disk) res" where
  "dispatchJobs now d =
    (let d = (if return_zero d = 1 \<and> now - last_access_time d > return_zero_period d then d\<lparr>last_offset := 0\<rparr> else d)
     in disk_dispatch (length (waitQ (d_queue d)) + 1) now d)"

definition handleBlockReq :: "real \<Rightarrow> BlkRequest \<Rightarrow> disk \<Rightarrow> (disk_out list \<times> disk) res" where
  "handleBlockReq now datareq d = dispatchJobs now (d\<lparr>d_queue := fifo_pushWaitQ datareq (d_queue d)\<rparr>)"

definition handleBlockResp :: "real \<Rightarrow> BlkRequest \<Rightarrow> disk \<Rightarrow> (disk_out list \<times> disk) res" where
  "handleBlockResp now dataresp d =
    (case fifo_popOsQ_subid (getID dataresp) (getSubID dataresp) (d_queue d) of
       (None, q) \<Rightarrow> Inl (Abort ''Disk'')
     | (Some p, q) \<Rightarrow>
         bindR (dispatchJobs now (d\<lparr>d_queue := q, last_access_time := now\<rparr>)) (\<lambda>(outs, d).
         Inr (ToLfs dataresp # outs, d)))"

definition disk_handleMessage :: "real \<Rightarrow> BlkRequest \<Rightarrow> disk \<Rightarrow> (disk_out list \<times> disk) res" where
  "disk_handleMessage now m d =
    (case getKind m of
       BLK_REQ \<Rightarrow> handleBlockReq now m d
     | BLK_RESP \<Rightarrow> handleBlockResp now m d
     | _ \<Rightarrow> Inr ([], d))"

end
