(* ===== verification/DiskRun.thy ===== *)
theory DiskRun
  imports Disk
begin

text \<open>
  The service time of the disk as an interpolation of the sampled times, the requests that it
  accepts, and what an incomplete parameter file does.
\<close>

section \<open>Samples at the powers of two\<close>

declare shift_count.simps [simp del]

lemma shift_count_log:
  "2 ^ i \<le> n \<Longrightarrow> n < 2 ^ (i + 1) \<Longrightarrow> shift_count n = int i + 1"
proof (induction i arbitrary: n)
  case 0
  then have "n = 1" by simp
  then show ?case by (simp add: shift_count.simps)
next
  case (Suc i)
  then have "shift_count (n div 2) = int i + 1" by (intro Suc.IH) auto
  moreover have "0 < n" using Suc.prems(1) by (smt (verit) zero_less_power)
  ultimately show ?case by (subst shift_count.simps) simp
qed

lemma shift_count_0 [simp]: "shift_count 0 = 0"
  by (simp add: shift_count.simps)

lemma shift_count_nonneg: "0 \<le> shift_count n"
  by (induction n rule: shift_count.induct) (subst shift_count.simps, simp)

lemma shift_count_ge:
  "2 ^ i \<le> n \<Longrightarrow> int i + 1 \<le> shift_count n"
proof (induction i arbitrary: n)
  case 0
  then show ?case using shift_count_nonneg [of "n div 2"] by (subst shift_count.simps) simp
next
  case (Suc i)
  then have "int i + 1 \<le> shift_count (n div 2)" by (intro Suc.IH) auto
  moreover have "0 < n" using Suc.prems(1) by (smt (verit) zero_less_power)
  ultimately show ?case by (subst shift_count.simps) simp
qed

lemma sizes_power: "sizes i = 2 ^ i"
  by (induction i) auto

lemma between_samples:
  fixes lo hi w :: real
  assumes "0 \<le> w" "w \<le> 1"
  shows "min lo hi \<le> (hi - lo) * w + lo" "(hi - lo) * w + lo \<le> max lo hi"
proof -
  have e: "(hi - lo) * w + lo = (1 - w) * lo + w * hi" by (simp add: algebra_simps)
  have "(1 - w) * min lo hi + w * min lo hi \<le> (1 - w) * lo + w * hi"
    using assms by (intro add_mono mult_left_mono) auto
  then show "min lo hi \<le> (hi - lo) * w + lo" unfolding e by (simp add: algebra_simps)
  have "(1 - w) * lo + w * hi \<le> (1 - w) * max lo hi + w * max lo hi"
    using assms by (intro add_mono mult_left_mono) auto
  then show "(hi - lo) * w + lo \<le> max lo hi" unfolding e by (simp add: algebra_simps)
qed

lemma line_at_between:
  assumes "int i + 1 < n" "2 ^ i \<le> x" "x < 2 ^ (i + 1)"
  obtains v where "line_at n (int i + 1) x lo hi = Inr v" "min lo hi \<le> v" "v \<le> max lo hi" "x = 2 ^ i \<longrightarrow> v = lo"
proof -
  define w where "w = real_of_int (x - 2 ^ i) / real_of_int (2 ^ i)"
  have pos: "0 < real_of_int (2 ^ i)" by simp
  have "nat (int i + 1) = Suc i" by simp
  then have "line_at n (int i + 1) x lo hi = Inr ((hi - lo) * w + lo)"
    using assms(1) by (simp add: line_at_def size_at_def sizes_power w_def)
  moreover have "0 \<le> w" using assms(2) by (simp add: w_def)
  moreover have "real_of_int (x - 2 ^ i) \<le> real_of_int (2 ^ i)" using assms(3) by (simp only: of_int_le_iff) simp
  then have "w \<le> 1" using pos unfolding w_def by (simp only: divide_le_eq_1) simp
  moreover have "x = 2 ^ i \<longrightarrow> (hi - lo) * w + lo = lo" by (simp add: w_def)
  ultimately show thesis using that between_samples by blast
qed

text \<open>The samples around a length and a jump.\<close>

definition blk_cells :: "nat \<Rightarrow> int set" where
  "blk_cells i = {int i, min (int i + 1) (BLKSIZECOUNT - 1)}"

definition jump_cells :: "nat \<Rightarrow> int set" where
  "jump_cells j = {int j, min (int j + 1) (JUMPSIZECOUNT - 1)}"

definition samples :: "disk \<Rightarrow> int \<Rightarrow> nat \<Rightarrow> nat \<Rightarrow> bool \<Rightarrow> real set" where
  "samples d r i j seq = (if seq then seqtime d r ` blk_cells i
     else (\<lambda>(b, c). jumptime d r b c) ` (blk_cells i \<times> jump_cells j))"

lemma jump_span_between:
  assumes "0 \<le> b" "b < BLKSIZECOUNT" "2 ^ j \<le> jump" "jump < 2 ^ (j + 1)" "jump \<le> 2 ^ 21"
  obtains t where "jump_span d r b (int j + 1) jump = Inr t"
    "Min (jumptime d r b ` jump_cells j) \<le> t" "t \<le> Max (jumptime d r b ` jump_cells j)"
    "jump = 2 ^ j \<longrightarrow> t = jumptime d r b (int j)"
proof -
  have j: "j \<le> 21"
  proof (rule ccontr)
    assume "\<not> j \<le> 21"
    then have "(2::int) ^ 22 \<le> 2 ^ j" by (intro power_increasing) auto
    with assms show False by simp
  qed
  show thesis
  proof (cases "j = 21")
    case True
    with assms(1,2) show thesis
      by (intro that [of "jumptime d r b 21"]) (simp_all add: jump_span_def jump_at_def jump_cells_def disk_h)
  next
    case False
    with j have j1: "int j + 1 < JUMPSIZECOUNT" by (simp add: disk_h)
    obtain v where v: "line_at JUMPSIZECOUNT (int j + 1) jump (jumptime d r b (int j)) (jumptime d r b (int j + 1)) = Inr v"
      "min (jumptime d r b (int j)) (jumptime d r b (int j + 1)) \<le> v" "v \<le> max (jumptime d r b (int j)) (jumptime d r b (int j + 1))"
      "jump = 2 ^ j \<longrightarrow> v = jumptime d r b (int j)"
      by (rule line_at_between [OF j1 assms(3,4)])
    with assms(1,2) j1 show thesis
      by (intro that [of v]) (simp_all add: jump_span_def jump_at_def jump_cells_def disk_h)
  qed
qed

lemma samples_jump:
  assumes "b \<in> blk_cells i"
  shows "Min (samples d r i j False) \<le> Min (jumptime d r b ` jump_cells j)"
    "Max (jumptime d r b ` jump_cells j) \<le> Max (samples d r i j False)"
proof -
  have "jumptime d r b ` jump_cells j \<subseteq> samples d r i j False" "finite (samples d r i j False)"
    "jumptime d r b ` jump_cells j \<noteq> {}"
    using assms by (auto simp: samples_def blk_cells_def jump_cells_def)
  then show "Min (samples d r i j False) \<le> Min (jumptime d r b ` jump_cells j)"
    "Max (jumptime d r b ` jump_cells j) \<le> Max (samples d r i j False)"
    by (auto intro: Min_antimono Max_mono)
qed

lemma timespan_samples:
  assumes "2 ^ i \<le> len" "len < 2 ^ (i + 1)" "i \<le> 8"
    and "jump = 0 \<or> 2 ^ j \<le> jump \<and> jump < 2 ^ (j + 1)" "jump \<le> 2 ^ 21"
  obtains t where "timespan d r len jump = Inr t" "Min (samples d r i j (jump = 0)) \<le> t"
    "t \<le> Max (samples d r i j (jump = 0))"
    "len = 2 ^ i \<and> (jump = 0 \<or> jump = 2 ^ j) \<longrightarrow> t = (if jump = 0 then seqtime d r (int i) else jumptime d r (int i) (int j))"
proof -
  have blki: "shift_count len = int i + 1" by (rule shift_count_log [OF assms(1,2)])
  have i0: "0 \<le> int i" "int i < BLKSIZECOUNT" "int i \<in> blk_cells i" using assms(3) by (auto simp: disk_h blk_cells_def)
  consider (seq) "jump = 0" | (jmp) "jump \<noteq> 0" "2 ^ j \<le> jump" "jump < 2 ^ (j + 1)" using assms(4) by auto
  then show thesis
  proof cases
    case seq
    show thesis
    proof (cases "i = 8")
      case True
      with seq blki show thesis
        by (intro that [of "seqtime d r 8"]) (simp_all add: timespan_def seq_at_def samples_def blk_cells_def disk_h)
    next
      case False
      with assms(3) have i1: "int i + 1 < BLKSIZECOUNT" by (simp add: disk_h)
      obtain v where "line_at BLKSIZECOUNT (int i + 1) len (seqtime d r (int i)) (seqtime d r (int i + 1)) = Inr v"
        "min (seqtime d r (int i)) (seqtime d r (int i + 1)) \<le> v" "v \<le> max (seqtime d r (int i)) (seqtime d r (int i + 1))"
        "len = 2 ^ i \<longrightarrow> v = seqtime d r (int i)"
        by (rule line_at_between [OF i1 assms(1,2)])
      with seq blki i1 show thesis
        by (intro that [of v]) (simp_all add: timespan_def seq_at_def samples_def blk_cells_def disk_h Let_def)
    qed
  next
    case jmp
    have jumpi: "shift_count jump = int j + 1" by (rule shift_count_log [OF jmp(2,3)])
    obtain t1 where t1: "jump_span d r (int i) (int j + 1) jump = Inr t1"
      "Min (jumptime d r (int i) ` jump_cells j) \<le> t1" "t1 \<le> Max (jumptime d r (int i) ` jump_cells j)"
      "jump = 2 ^ j \<longrightarrow> t1 = jumptime d r (int i) (int j)"
      by (rule jump_span_between [OF i0(1,2) jmp(2,3) assms(5)])
    note s1 = samples_jump [OF i0(3), of d r j]
    show thesis
    proof (cases "i = 8")
      case True
      with jmp blki jumpi t1 s1 show thesis
        by (intro that [of t1]) (simp_all add: timespan_def disk_h)
    next
      case False
      with assms(3) have i1: "int i + 1 < BLKSIZECOUNT" "0 \<le> int i + 1" "int i + 1 \<in> blk_cells i"
        by (auto simp: disk_h blk_cells_def)
      obtain t2 where t2: "jump_span d r (int i + 1) (int j + 1) jump = Inr t2"
        "Min (jumptime d r (int i + 1) ` jump_cells j) \<le> t2" "t2 \<le> Max (jumptime d r (int i + 1) ` jump_cells j)"
        "jump = 2 ^ j \<longrightarrow> t2 = jumptime d r (int i + 1) (int j)"
        by (rule jump_span_between [OF i1(2,1) jmp(2,3) assms(5)])
      note s2 = samples_jump [OF i1(3), of d r j]
      obtain v where "line_at BLKSIZECOUNT (int i + 1) len t1 t2 = Inr v" "min t1 t2 \<le> v" "v \<le> max t1 t2"
        "len = 2 ^ i \<longrightarrow> v = t1"
        by (rule line_at_between [OF i1(1) assms(1,2)])
      with jmp blki jumpi t1 t2 s1 s2 i1 show thesis
        by (intro that [of v]) (auto simp: timespan_def disk_h Let_def)
    qed
  qed
qed

lemma timespan_too_long:
  assumes "512 \<le> len" "0 \<le> jump"
  shows "\<exists>w. timespan d r len jump = Inl (OutOfBounds w)"
proof -
  have blki: "10 \<le> shift_count len"
    using shift_count_ge [of 9 len] assms(1) by simp
  show ?thesis
    using blki by (simp add: timespan_def Let_def seq_at_def jump_span_def jump_at_def disk_h)
qed

text \<open>
  Claim C31. The service time of an access of fewer than 512 blocks lies between the sampled times
  around its length and its jump, and is the sample itself when both are powers of two: the
  interpolation never leaves the table. For 512 blocks and more the table is read out of bounds.
\<close>

theorem disk_service_time:
  assumes "2 ^ i \<le> len" "len < 2 ^ (i + 1)" "jump = 0 \<or> 2 ^ j \<le> jump \<and> jump < 2 ^ (j + 1)" "jump \<le> 2 ^ 21"
  shows "if len < 512 then
      (\<exists>t. timespan d r len jump = Inr t \<and> Min (samples d r i j (jump = 0)) \<le> t \<and> t \<le> Max (samples d r i j (jump = 0)) \<and>
        (len = 2 ^ i \<and> (jump = 0 \<or> jump = 2 ^ j) \<longrightarrow>
           t = (if jump = 0 then seqtime d r (int i) else jumptime d r (int i) (int j))))
    else (\<exists>w. timespan d r len jump = Inl (OutOfBounds w))"
proof (cases "len < 512")
  case True
  have "i \<le> 8"
  proof (rule ccontr)
    assume "\<not> i \<le> 8"
    then have "(2::int) ^ 9 \<le> 2 ^ i" by (intro power_increasing) auto
    with True assms(1) show False by simp
  qed
  obtain t where "timespan d r len jump = Inr t" "Min (samples d r i j (jump = 0)) \<le> t"
    "t \<le> Max (samples d r i j (jump = 0))"
    "len = 2 ^ i \<and> (jump = 0 \<or> jump = 2 ^ j) \<longrightarrow> t = (if jump = 0 then seqtime d r (int i) else jumptime d r (int i) (int j))"
    by (rule timespan_samples [OF assms(1,2) \<open>i \<le> 8\<close> assms(3,4)])
  with True show ?thesis by (simp only: if_True) blast
next
  case False
  have "0 \<le> jump" using assms(3) by (smt (verit) zero_less_power)
  with False timespan_too_long [of len jump d r] show ?thesis by simp
qed

section \<open>What the disk accepts\<close>

lemma two_power_interval:
  assumes "0 < (n::int)"
  obtains i where "2 ^ i \<le> n" "n < 2 ^ (i + 1)"
proof -
  have "1 \<le> nat n" using assms by simp
  then obtain i where "2 ^ i \<le> nat n" "nat n < 2 ^ (i + 1)" using ex_power_ivl1 [of 2 "nat n"] by auto
  then have "2 ^ i \<le> n" "n < 2 ^ (i + 1)" using assms by (simp_all add: le_nat_iff nat_less_iff)
  then show thesis by (rule that)
qed

lemma samples_nonneg:
  assumes "\<And>b c. 0 \<le> jumptime d r b c" "\<And>b. 0 \<le> seqtime d r b"
  shows "0 \<le> Min (samples d r i j s)"
proof -
  have "finite (samples d r i j s)" "samples d r i j s \<noteq> {}" "\<forall>x\<in>samples d r i j s. 0 \<le> x"
    using assms by (auto simp: samples_def blk_cells_def jump_cells_def)
  then show ?thesis by (simp add: Min_ge_iff)
qed

lemma timespan_ok:
  assumes "\<And>b c. 0 \<le> jumptime d r b c" "\<And>b. 0 \<le> seqtime d r b" "0 < len" "len < 512" "0 \<le> jump" "jump \<le> 2 ^ 21"
  shows "\<exists>t. timespan d r len jump = Inr t \<and> 0 \<le> t"
proof -
  obtain i where i: "2 ^ i \<le> len" "len < 2 ^ (i + 1)" by (rule two_power_interval [OF assms(3)])
  have "i \<le> 8"
  proof (rule ccontr)
    assume "\<not> i \<le> 8"
    then have "(2::int) ^ 9 \<le> 2 ^ i" by (intro power_increasing) auto
    with i assms(4) show False by simp
  qed
  have "jump = 0 \<or> 0 < jump" using assms(5) by linarith
  then obtain j where j: "jump = 0 \<or> 2 ^ j \<le> jump \<and> jump < 2 ^ (j + 1)"
    using two_power_interval by blast
  obtain t where "timespan d r len jump = Inr t" "Min (samples d r i j (jump = 0)) \<le> t"
    by (rule timespan_samples [OF i \<open>i \<le> 8\<close> j assms(6)])
  moreover have "0 \<le> Min (samples d r i j (jump = 0))" by (rule samples_nonneg) (rule assms)+
  ultimately show ?thesis by (blast intro: order_trans)
qed

text \<open>
  The disk announces batches of up to 1024 blocks, but its table ends at 256: with
  sampled times that are not negative, a request inside the disk is served when it has fewer
  than 512 blocks, and the head is left at its end; from 512 blocks on the run fails.
\<close>

theorem disk_serves_half_a_batch:
  assumes "\<And>b c. 0 \<le> jumptime d r b c" "\<And>b. 0 \<le> seqtime d r b" "r = (if blk_read req then 1 else 0)"
    and "0 \<le> getBlkStart req" "getBlkStart req \<le> MAX_DISK_OFFSET" "getBlkEnd req \<le> diskSize d"
    and "0 < getBlkEnd req - getBlkStart req" "getBlkEnd req - getBlkStart req \<le> MAX_BLK_BATCH"
    and "-2147483648 \<le> d_ra_size d" "d_ra_size d < 512"
  shows "if getBlkEnd req - getBlkStart req < 512
    then \<exists>t d'. disk_serve req d = Inr (t, d') \<and> 0 \<le> t \<and> last_offset d' = getBlkEnd req
    else \<exists>w. disk_serve req d = Inl (OutOfBounds w)"
proof -
  define len where "len = getBlkEnd req - getBlkStart req"
  define jump where "jump = (if \<bar>last_offset d - getBlkStart req\<bar> > sizes (nat JUMPSIZECOUNT - 1)
      then sizes (nat JUMPSIZECOUNT - 1) else \<bar>last_offset d - getBlkStart req\<bar>)"
  have jump: "0 \<le> jump" "jump \<le> 2 ^ 21" by (auto simp: jump_def sizes_power disk_h)
  have len: "to_int32 (getBlkEnd req - getBlkStart req) = len" "0 < len" "len \<le> 1024"
    using assms(7,8) by (simp_all add: len_def to_int32_def disk_h)
  obtain ra d1 where ra: "(if blk_read req \<and> len < d_ra_size d then checkReadahead req d else (False, d)) = (ra, d1)"
    by fastforce
  define len' where "len' = (if ra then to_int32 (d_ra_size d) else len)"
  have d1: "jumptime d1 = jumptime d" "seqtime d1 = seqtime d" "d_ra_size d1 = d_ra_size d" "ra \<longrightarrow> len < d_ra_size d"
    using ra by (auto simp: checkReadahead_def Let_def split: if_splits)
  have size: "to_int32 (d_ra_size d) = d_ra_size d" using assms(9,10) by (intro to_int32_id) auto
  have span: "timespan (d1\<lparr>last_offset := x\<rparr>) s l j = timespan d s l j" for x s l j
    using d1 by (simp add: timespan_def seq_at_def jump_span_def jump_at_def Let_def)
  have serve: "disk_serve req d = bindR (timespan d r len' jump) (\<lambda>t.
      if t < 0 then Inl (Abort ''Disk - dispatchJobs'') else Inr (t, d1\<lparr>last_offset := getBlkEnd req\<rparr>))"
    unfolding disk_serve_def len(1) Let_def jump_def [symmetric] ra
    using assms(3-8) len by (simp add: len'_def span d1(3) MAX_BLK_BATCH_def)
  show ?thesis
  proof (cases "len < 512")
    case True
    have "0 < len'" "len' < 512" using True len(2) d1(4) assms(10) size by (auto simp: len'_def)
    then obtain t where "timespan d r len' jump = Inr t" "0 \<le> t"
      using timespan_ok [OF assms(1,2) _ _ jump] by blast
    with serve True show ?thesis by (simp add: len_def)
  next
    case False
    with d1(4) assms(10) have "len' = len" by (auto simp: len'_def)
    with False jump(1) timespan_too_long [of len jump d r] serve show ?thesis by (auto simp: len_def)
  qed
qed

section \<open>The parameter file\<close>

definition checked_rows :: "(int \<Rightarrow> int \<Rightarrow> real) \<Rightarrow> (int \<times> int) list \<Rightarrow> (int \<times> int) list" where
  "checked_rows st rows = takeWhile (\<lambda>(i, j). st i j \<noteq> 0) rows @ take 1 (dropWhile (\<lambda>(i, j). st i j \<noteq> 0) rows)"

lemma checked_rows_Cons:
  "checked_rows st ((i, j) # rows) = (i, j) # (if st i j = 0 then [] else checked_rows st rows)"
  by (simp add: checked_rows_def)

lemma checked_rows_cong:
  "(\<And>i j. (i, j) \<in> set rows \<Longrightarrow> st i j = st' i j) \<Longrightarrow> checked_rows st rows = checked_rows st' rows"
proof (induction rows)
  case (Cons x rows)
  then show ?case by (cases x) (auto simp: checked_rows_Cons)
qed (simp add: checked_rows_def)

lemma checked_rows_subset: "set (checked_rows st rows) \<subseteq> set rows"
  unfolding checked_rows_def by (auto dest!: set_takeWhileD in_set_takeD set_dropWhileD)

lemma check_parms_scales:
  "distinct rows \<Longrightarrow> \<forall>(i, j)\<in>set rows. \<forall>k. 0 \<le> k \<and> k < JUMPSIZECOUNT \<longrightarrow> jt i j k \<noteq> 0 \<Longrightarrow>
    \<exists>r jt' st'. check_parms rows (jt, st) = Inr (r, jt', st') \<and> r \<noteq> 0 \<and>
      (\<forall>i j k. jt' i j k = (if (i, j) \<in> set (checked_rows st rows) \<and> 0 \<le> k \<and> k < JUMPSIZECOUNT then jt i j k / 1000 else jt i j k)) \<and>
      (\<forall>i j. st' i j = (if (i, j) \<in> set (checked_rows st rows) then st i j / 1000 else st i j))"
proof (induction rows arbitrary: jt st)
  case Nil
  then show ?case by (simp add: checked_rows_def)
next
  case (Cons x rows)
  obtain i j where x: "x = (i, j)" by (cases x)
  define jt1 where "jt1 = jt(i := (jt i)(j := (\<lambda>k. if 0 \<le> k \<and> k < JUMPSIZECOUNT then jt i j k / 1000 else jt i j k)))"
  define st1 where "st1 = st(i := (st i)(j := st i j / 1000))"
  have given: "\<not> (\<exists>k\<in>set [0..JUMPSIZECOUNT - 1]. jt1 i j k = 0)"
    using Cons.prems(2) x by (auto simp: jt1_def disk_h)
  have row: "jt1 a b = jt a b" "st1 a b = st a b" if "(a, b) \<noteq> (i, j)" for a b
    using that by (auto simp: jt1_def st1_def)
  have unseen: "(i, j) \<notin> set rows" using Cons.prems(1) x by simp
  have step: "check_parms (x # rows) (jt, st) =
      (if st i j = 0 then Inr (-1, (jt1, st1)) else check_parms rows (jt1, st1))"
    using given by (simp add: x Let_def jt1_def [symmetric] st1_def [symmetric] del: set_upto) (simp add: st1_def)
  show ?case
  proof (cases "st i j = 0")
    case True
    with step row show ?thesis
      by (auto simp: x checked_rows_Cons) (auto simp: jt1_def st1_def)
  next
    case False
    have "jt1 a b k \<noteq> 0" if "(a, b) \<in> set rows" "0 \<le> k \<and> k < JUMPSIZECOUNT" for a b k
    proof -
      have "(a, b) \<noteq> (i, j)" using that(1) unseen by blast
      moreover have "jt a b k \<noteq> 0" using Cons.prems(2) that by fastforce
      ultimately show ?thesis using row(1) by simp
    qed
    then have "\<forall>(a, b)\<in>set rows. \<forall>k. 0 \<le> k \<and> k < JUMPSIZECOUNT \<longrightarrow> jt1 a b k \<noteq> 0" by blast
    with Cons.IH [of jt1 st1] Cons.prems(1) obtain r jt' st' where IH: "check_parms rows (jt1, st1) = Inr (r, jt', st')" "r \<noteq> 0"
      "\<forall>i j k. jt' i j k = (if (i, j) \<in> set (checked_rows st1 rows) \<and> 0 \<le> k \<and> k < JUMPSIZECOUNT then jt1 i j k / 1000 else jt1 i j k)"
      "\<forall>i j. st' i j = (if (i, j) \<in> set (checked_rows st1 rows) then st1 i j / 1000 else st1 i j)" by auto
    have "checked_rows st1 rows = checked_rows st rows"
      using row(2) unseen by (intro checked_rows_cong) metis
    moreover have "(i, j) \<notin> set (checked_rows st rows)" using unseen checked_rows_subset by blast
    ultimately have "\<forall>a b k. jt' a b k = (if (a, b) \<in> set (checked_rows st (x # rows)) \<and> 0 \<le> k \<and> k < JUMPSIZECOUNT
        then jt a b k / 1000 else jt a b k)"
      and "\<forall>a b. st' a b = (if (a, b) \<in> set (checked_rows st (x # rows)) then st a b / 1000 else st a b)"
      using IH(3,4) row False by (auto simp: x checked_rows_Cons) (auto simp: jt1_def st1_def)
    with step False IH(1,2) show ?thesis by auto
  qed
qed

text \<open>
  The disk starts with any parameter file that has all times after a jump. When a
  sequential time is missing the check of the file stops at its row with the result -1, which
  \<^verbatim>\<open>initialize\<close> takes for a success: the times of the later rows stay in milliseconds and are then
  used as seconds.
\<close>

theorem disk_parameter_file:
  assumes "run_res read_parm ls (\<lambda>_ _ _. 0, \<lambda>_ _. 0) = Inr (jt, st)"
    and "\<forall>i j k. i \<in> {0, 1} \<and> 0 \<le> j \<and> j < BLKSIZECOUNT \<and> 0 \<le> k \<and> k < JUMPSIZECOUNT \<longrightarrow> jt i j k \<noteq> 0"
  shows "\<exists>d. Disk_initialize (Some ls) disk_size deg ra retz period did = Inr d \<and>
    (\<forall>i j k. 0 \<le> k \<and> k < JUMPSIZECOUNT \<longrightarrow>
       jumptime d i j k = (if (i, j) \<in> set (checked_rows st parm_rows) then jt i j k / 1000 else jt i j k))"
proof -
  have rows: "(i, j) \<in> set parm_rows \<longleftrightarrow> i \<in> {0, 1} \<and> 0 \<le> j \<and> j < BLKSIZECOUNT" for i j
    by (auto simp: parm_rows_def image_iff)
  have "distinct parm_rows" by (simp add: parm_rows_def disk_h upto.simps)
  from check_parms_scales [OF this, of jt st] assms(2) rows obtain r jt' st' where
    c: "check_parms parm_rows (jt, st) = Inr (r, jt', st')" "r \<noteq> 0"
      "\<forall>i j k. jt' i j k = (if (i, j) \<in> set (checked_rows st parm_rows) \<and> 0 \<le> k \<and> k < JUMPSIZECOUNT
        then jt i j k / 1000 else jt i j k)" by fastforce
  obtain q :: "BlkRequest fifo" where "createScheduler ''FIFO'' did deg = Inr q"
    by (simp add: createScheduler_def)
  with assms(1) c show ?thesis by (simp add: Disk_initialize_def readParmFile_def)
qed

section \<open>A concrete disk\<close>

definition demo_disk :: disk where
  "demo_disk = \<lparr> diskSize = 1000000, d_ra_size = 32, return_zero = 0, return_zero_period = 1, d_queue = FIFO_new 0 1,
     last_offset = 0, last_jump = 0, last_access_time = 0, seq_read_sofar = 0,
     jumptime = (\<lambda>r b j. real_of_int (b + j + 1)), seqtime = (\<lambda>r b. real_of_int (b + 1)) \<rparr>"

definition demo_zero_disk :: disk where
  "demo_zero_disk = demo_disk\<lparr>jumptime := (\<lambda>_ _ _. 0), seqtime := (\<lambda>_ _. 0)\<rparr>"

theorem disk_service_time_witness:
  "timespan demo_disk 1 4 64 = Inr 9"
  using disk_service_time [of 2 4 64 6 demo_disk 1] by (simp add: demo_disk_def)

definition demo_blk :: "int \<Rightarrow> int \<Rightarrow> BlkRequest" where
  "demo_blk a b = new_BlkRequest\<lparr>getKind := BLK_REQ, getBlkStart := a, getBlkEnd := b, blk_read := True\<rparr>"

theorem disk_serves_half_a_batch_witness:
  "\<exists>w. disk_serve (demo_blk 0 700) demo_zero_disk = Inl (OutOfBounds w)"
  using disk_serves_half_a_batch [of demo_zero_disk 1 "demo_blk 0 700"]
  by (simp add: demo_zero_disk_def demo_disk_def demo_blk_def new_BlkRequest_def general_h disk_h)

definition demo_header :: "string \<Rightarrow> nat \<Rightarrow> parm_line" where
  "demo_header opr j = ParmHeader opr (4096 * 2 ^ j) (replicate 22 5)"

definition demo_parms :: "parm_line list" where
  "demo_parms = map (demo_header ''rr'') [0..<9] @ map (demo_header ''rw'') [0..<9]"

lemma demo_header_read:
  assumes "j < 9" "opr = ''r'' @ [if f = 1 then CHR ''r'' else CHR ''w'']" "f = 0 \<or> f = 1"
  shows "read_parm (demo_header opr j) (jt, st) =
    Inr (jt(f := (jt f)(int j := (\<lambda>i. if 0 \<le> i \<and> i < 22 then 5 else jt f (int j) i))), st)"
proof -
  have "4096 * 2 ^ j sdiv BASEBLKSIZE = 2 ^ j" "4096 * 2 ^ j smod BASEBLKSIZE = 0"
    by (simp_all add: sdiv_nonneg smod_nonneg disk_h)
  moreover have "shift_count (2 ^ j) = int j + 1" by (rule shift_count_log) simp_all
  moreover have "(\<lambda>i. if 0 \<le> i \<and> i < 22 then replicate 22 (5::real) ! nat i else g i) =
      (\<lambda>i. if 0 \<le> i \<and> i < 22 then 5 else g i)" for g
    by (intro ext if_cong refl nth_replicate) auto
  ultimately show ?thesis using assms
    by (auto simp: read_parm_def demo_header_def char_at_def disk_h Let_def cong: if_cong)
qed

lemma demo_headers_read:
  assumes "opr = ''r'' @ [if f = 1 then CHR ''r'' else CHR ''w'']" "f = 0 \<or> f = 1"
  shows "\<forall>j\<in>set js. j < 9 \<Longrightarrow> \<exists>jt'. run_res read_parm (map (demo_header opr) js) (jt, st) = Inr (jt', st) \<and>
    (\<forall>i j k. 0 \<le> k \<and> k < 22 \<longrightarrow> jt' i j k = (if i = f \<and> j \<in> int ` set js then 5 else jt i j k))"
proof (induction js arbitrary: jt)
  case (Cons a js)
  let ?jt = "jt(f := (jt f)(int a := (\<lambda>i. if 0 \<le> i \<and> i < 22 then 5 else jt f (int a) i)))"
  from Cons obtain jt' where "run_res read_parm (map (demo_header opr) js) (?jt, st) = Inr (jt', st)"
    "\<forall>i j k. 0 \<le> k \<and> k < 22 \<longrightarrow> jt' i j k = (if i = f \<and> j \<in> int ` set js then 5 else ?jt i j k)" by force
  moreover have "read_parm (demo_header opr a) (jt, st) = Inr (?jt, st)"
    using Cons.prems assms by (intro demo_header_read) auto
  ultimately show ?case by (auto simp: fun_upd_def)
qed simp

theorem disk_parameter_file_witness:
  "\<exists>d. Disk_initialize (Some demo_parms) 1000 1 32 0 1 0 = Inr d \<and> jumptime d 0 0 3 = 5 / 1000 \<and> jumptime d 1 8 3 = 5"
proof -
  obtain jt1 where jt1: "run_res read_parm (map (demo_header ''rr'') [0..<9]) (\<lambda>_ _ _. 0, \<lambda>_ _. 0) = Inr (jt1, \<lambda>_ _. 0)"
    "\<forall>i j k. 0 \<le> k \<and> k < 22 \<longrightarrow> jt1 i j k = (if i = 1 \<and> j \<in> int ` set [0..<9] then 5 else 0)"
    using demo_headers_read [of "''rr''" 1 "[0..<9]" "\<lambda>_ _ _. 0" "\<lambda>_ _. 0"] by auto
  obtain jt where jt: "run_res read_parm (map (demo_header ''rw'') [0..<9]) (jt1, \<lambda>_ _. 0) = Inr (jt, \<lambda>_ _. 0)"
    "\<forall>i j k. 0 \<le> k \<and> k < 22 \<longrightarrow> jt i j k = (if i = 0 \<and> j \<in> int ` set [0..<9] then 5 else jt1 i j k)"
    using demo_headers_read [of "''rw''" 0 "[0..<9]" jt1 "\<lambda>_ _. 0"] by auto
  have run: "run_res read_parm demo_parms (\<lambda>_ _ _. 0, \<lambda>_ _. 0) = Inr (jt, \<lambda>_ _. 0)"
    using jt1(1) jt(1) by (simp add: demo_parms_def run_res_append del: upt_Suc)
  have img: "j \<in> int ` set [0..<9] \<longleftrightarrow> 0 \<le> j \<and> j < 9" for j
    by (auto simp: image_iff intro!: bexI [of _ "nat j"])
  have given: "\<forall>i j k. i \<in> {0, 1} \<and> 0 \<le> j \<and> j < BLKSIZECOUNT \<and> 0 \<le> k \<and> k < JUMPSIZECOUNT \<longrightarrow> jt i j k \<noteq> 0"
    using jt1(2) jt(2) img by (auto simp: disk_h simp del: set_upt)
  have rows: "checked_rows (\<lambda>_ _. 0) parm_rows = [(0, 0)]"
    by (simp add: checked_rows_def parm_rows_def disk_h upto.simps)
  have "jt 0 0 3 = 5" "jt 1 8 3 = 5" using jt1(2) jt(2) img by (auto simp del: set_upt)
  with disk_parameter_file [OF run given, of 1000 1 32 0 1 0] rows show ?thesis
    by (auto simp: disk_h)
qed

end
