(* ===== verification/Network.thy ===== *)
theory Network
  imports Packets
begin

text \<open>
  \<^verbatim>\<open>router/\<close>: the router between clients, proxies, data servers and the metadata server, and the
  queue that serialises the packets of one line.

  \<^verbatim>\<open>Queue\<close> keeps its packets in a \<^verbatim>\<open>cQueue\<close> of the simulation library, which is a parameter: \<open>ins\<close>
  is \<^verbatim>\<open>insert\<close>, \<open>pop\<close> is \<^verbatim>\<open>pop\<close> and \<open>emp\<close> is \<^verbatim>\<open>empty\<close>.
\<close>

section \<open>The routing table\<close>

record routing =
  numDS :: int
  numProxies :: int
  StoPRoutingTable :: "int \<Rightarrow> int"

datatype route_line = RouteComment | RouteLine int int

definition read_route :: "route_line \<Rightarrow> routing \<Rightarrow> routing res" where
  "read_route l r =
    (case l of
       RouteComment \<Rightarrow> Inr r
     | RouteLine server proxy \<Rightarrow>
         if server \<ge> numDS r then Inl (Abort ''Routing-readProxyRoutingFile'')
         else if proxy \<ge> numProxies r then Inl (Abort ''Routing-readProxyRoutingFile'')
         else if server < 0 \<or> server \<ge> MAX_DS then Inl (OutOfBounds ''StoPRoutingTable'')
         else Inr (r\<lparr>StoPRoutingTable := (StoPRoutingTable r)(server := proxy)\<rparr>))"

definition readProxyRoutingFile :: "route_line list option \<Rightarrow> routing \<Rightarrow> routing res" where
  "readProxyRoutingFile lines r =
    (case lines of None \<Rightarrow> Inl (Abort ''Routing-readProxyRoutingFile'') | Some ls \<Rightarrow> run_res read_route ls r)"

text \<open>\<open>mem\<close> is what the table holds before.\<close>

definition Routing_initialize :: "(int \<Rightarrow> int) \<Rightarrow> int \<Rightarrow> int \<Rightarrow> route_line list option \<Rightarrow> routing res" where
  "Routing_initialize mem nds nproxies lines =
    readProxyRoutingFile lines \<lparr> numDS = nds, numProxies = nproxies, StoPRoutingTable = mem \<rparr>"

datatype net_msg = NetG gPacket | NetQ qPacket | NetS sPacket

fun net_kind :: "net_msg \<Rightarrow> msg_kind" where
  "net_kind (NetG p) = getKind p"
| "net_kind (NetQ p) = getKind p"
| "net_kind (NetS p) = getKind p"

text \<open>A message sent through a gate; gates with one element have no index.\<close>

datatype route_out = Route string "int option" net_msg

fun strstr :: "string \<Rightarrow> string \<Rightarrow> bool" where
  "strstr sub [] = (sub = [])"
| "strstr sub (c # s) = (take (length sub) (c # s) = sub \<or> strstr sub s)"

definition proxy_of :: "routing \<Rightarrow> int \<Rightarrow> int res" where
  "proxy_of r ds = (if 0 \<le> ds \<and> ds < MAX_DS then Inr (StoPRoutingTable r ds) else Inl (OutOfBounds ''StoPRoutingTable''))"

definition handleSPacketPropagation :: "sPacket \<Rightarrow> routing \<Rightarrow> route_out list" where
  "handleSPacketPropagation spkt r =
    (if getDst spkt = -1
     then map (\<lambda>i. Route ''interschout'' (Some i) (NetS (spkt\<lparr>getDst := i\<rparr>))) (filter (\<lambda>i. getSrc spkt \<noteq> i) [0..numProxies r - 1])
     else [Route ''interschout'' (Some (getDst spkt)) (NetS spkt)])"

text \<open>\<open>arrival\<close> is the full name of the gate on which the message arrived.\<close>

definition routing_handleMessage :: "string \<Rightarrow> net_msg \<Rightarrow> routing \<Rightarrow> route_out list res" where
  "routing_handleMessage arrival m r =
    (case m of
       NetQ q \<Rightarrow>
         if getKind q = LAYOUT_REQ then Inr [Route ''msout'' None m]
         else if getKind q = LAYOUT_RESP then Inr [Route ''cout'' (Some (getClientID q)) m]
         else Inr []
     | NetG g \<Rightarrow>
         if getKind g \<in> {PFS_W_DATA, PFS_W_DATA_LAST, PFS_W_REQ, PFS_R_REQ} then
           (if strstr ''cin'' arrival then bindR (proxy_of r (getDsID g)) (\<lambda>p. Inr [Route ''schout'' (Some p) m])
            else if strstr ''schin'' arrival then Inr [Route ''dsout'' (Some (getDsID g)) m]
            else Inr [])
         else if getKind g \<in> {PFS_W_RESP, PFS_R_DATA, PFS_R_DATA_LAST, PFS_W_FIN} then
           (if strstr ''dsin'' arrival then bindR (proxy_of r (getDsID g)) (\<lambda>p. Inr [Route ''schout'' (Some p) m])
            else if strstr ''schin'' arrival then Inr [Route ''cout'' (Some (getClientID g)) m]
            else Inr [])
         else Inr []
     | NetS s \<Rightarrow> if getKind s = PROP_SCH then Inr (handleSPacketPropagation s r) else Inr [])"

section \<open>The queue of a line\<close>

record 'q nqueue =
  nq_queue :: 'q
  nq_busy :: bool

datatype 'm nq_msg = EndTx | FromLine 'm | FromRouting 'm

datatype 'm nq_out = NqLine 'm | NqOut 'm

definition startTransmitting :: "'m \<Rightarrow> 'q nqueue \<Rightarrow> 'm nq_out list \<times> 'q nqueue" where
  "startTransmitting m s = ([NqLine m], s\<lparr>nq_busy := True\<rparr>)"

definition queue_handleMessage :: "('m \<Rightarrow> 'q \<Rightarrow> 'q) \<Rightarrow> ('q \<Rightarrow> 'm \<times> 'q) \<Rightarrow> ('q \<Rightarrow> bool) \<Rightarrow>
    'm nq_msg \<Rightarrow> 'q nqueue \<Rightarrow> 'm nq_out list \<times> 'q nqueue" where
  "queue_handleMessage ins pop emp msg s =
    (case msg of
       EndTx \<Rightarrow>
         let s = s\<lparr>nq_busy := False\<rparr>
         in if emp (nq_queue s) then ([], s)
            else case pop (nq_queue s) of (m, q) \<Rightarrow> startTransmitting m (s\<lparr>nq_queue := q\<rparr>)
     | FromLine m \<Rightarrow> ([NqOut m], s)
     | FromRouting m \<Rightarrow> if nq_busy s then ([], s\<lparr>nq_queue := ins m (nq_queue s)\<rparr>) else startTransmitting m s)"

fun queue_run :: "('m \<Rightarrow> 'q \<Rightarrow> 'q) \<Rightarrow> ('q \<Rightarrow> 'm \<times> 'q) \<Rightarrow> ('q \<Rightarrow> bool) \<Rightarrow>
    'm nq_msg list \<Rightarrow> 'q nqueue \<Rightarrow> 'm nq_out list \<times> 'q nqueue" where
  "queue_run ins pop emp [] s = ([], s)"
| "queue_run ins pop emp (m # ms) s =
     (case queue_handleMessage ins pop emp m s of (o1, s) \<Rightarrow>
      case queue_run ins pop emp ms s of (o2, s) \<Rightarrow> (o1 @ o2, s))"

section \<open>What the router promises\<close>

definition is_request :: "msg_kind \<Rightarrow> bool" where
  "is_request k \<longleftrightarrow> k \<in> {PFS_W_DATA, PFS_W_DATA_LAST, PFS_W_REQ, PFS_R_REQ}"

definition is_response :: "msg_kind \<Rightarrow> bool" where
  "is_response k \<longleftrightarrow> k \<in> {PFS_W_RESP, PFS_R_DATA, PFS_R_DATA_LAST, PFS_W_FIN}"

lemma read_route_table:
  "read_route l r = Inr r' \<Longrightarrow>
    r' = (case l of RouteComment \<Rightarrow> r | RouteLine s p \<Rightarrow> r\<lparr>StoPRoutingTable := (StoPRoutingTable r)(s := p)\<rparr>) \<and>
    (\<forall>s p. l = RouteLine s p \<longrightarrow> 0 \<le> s \<and> s < numDS r \<and> p < numProxies r)"
  by (cases l) (auto simp: read_route_def split: if_splits)

lemma run_routes:
  "run_res read_route ls r = Inr r' \<Longrightarrow>
    numDS r' = numDS r \<and> numProxies r' = numProxies r \<and>
    (\<forall>s. (StoPRoutingTable r' s = StoPRoutingTable r s \<and> (\<forall>p. RouteLine s p \<notin> set ls)) \<or>
         RouteLine s (StoPRoutingTable r' s) \<in> set ls \<and> StoPRoutingTable r' s < numProxies r)"
proof (induction ls arbitrary: r)
  case (Cons l ls)
  then obtain r1 where r1: "read_route l r = Inr r1" "run_res read_route ls r1 = Inr r'" by auto
  note read_route_table [OF r1(1)]
  with Cons.IH [OF r1(2)] show ?case by (cases l) (auto split: if_splits)
qed simp

text \<open>
  Claim C33. The router sends a request that comes from a client to the proxy of its data server,
  a request that comes from a proxy to the data server, the response of the server to the proxy
  that the request went through, and the response of the proxy to the client. The proxy is one
  that the routing file names for the server, whenever the file names one at all.
\<close>

theorem responses_take_the_way_back:
  assumes "Routing_initialize mem nds nproxies (Some ls) = Inr r"
    and "is_request (getKind g)" "is_response (getKind h)" "getDsID h = getDsID g" "0 \<le> getDsID g" "getDsID g < MAX_DS"
    and "RouteLine (getDsID g) p0 \<in> set ls"
    and "strstr ''cin'' from_client" "strstr ''schin'' from_proxy" "\<not> strstr ''cin'' from_proxy" "\<not> strstr ''dsin'' from_proxy"
    and "strstr ''dsin'' from_server"
  shows "\<exists>p. RouteLine (getDsID g) p \<in> set ls \<and> p < nproxies \<and>
    routing_handleMessage from_client (NetG g) r = Inr [Route ''schout'' (Some p) (NetG g)] \<and>
    routing_handleMessage from_proxy (NetG g) r = Inr [Route ''dsout'' (Some (getDsID g)) (NetG g)] \<and>
    routing_handleMessage from_server (NetG h) r = Inr [Route ''schout'' (Some p) (NetG h)] \<and>
    routing_handleMessage from_proxy (NetG h) r = Inr [Route ''cout'' (Some (getClientID h)) (NetG h)]"
proof -
  from assms(1) have "run_res read_route ls \<lparr> numDS = nds, numProxies = nproxies, StoPRoutingTable = mem \<rparr> = Inr r"
    by (simp add: Routing_initialize_def readProxyRoutingFile_def)
  note run_routes [OF this]
  with assms(7) have "RouteLine (getDsID g) (StoPRoutingTable r (getDsID g)) \<in> set ls"
    "StoPRoutingTable r (getDsID g) < nproxies" by auto
  with assms(2-6,8-12) show ?thesis
    by (intro exI [of _ "StoPRoutingTable r (getDsID g)"])
      (auto simp: routing_handleMessage_def proxy_of_def is_request_def is_response_def)
qed

theorem responses_take_the_way_back_witness:
  "\<exists>r p. Routing_initialize (\<lambda>_. 0) 2 2 (Some [RouteComment, RouteLine 1 1]) = Inr r \<and>
     routing_handleMessage ''cin[0]'' (NetG (new_gPacket\<lparr>getKind := PFS_R_REQ, getDsID := 1\<rparr>)) r =
       Inr [Route ''schout'' (Some p) (NetG (new_gPacket\<lparr>getKind := PFS_R_REQ, getDsID := 1\<rparr>))]"
proof -
  obtain r where r: "Routing_initialize (\<lambda>_. 0) 2 2 (Some [RouteComment, RouteLine 1 1]) = Inr r"
    by (simp add: Routing_initialize_def readProxyRoutingFile_def read_route_def general_h)
  show ?thesis
    using responses_take_the_way_back [OF r, of "new_gPacket\<lparr>getKind := PFS_R_REQ, getDsID := 1\<rparr>"
        "new_gPacket\<lparr>getKind := PFS_R_DATA, getDsID := 1\<rparr>" 1 "''cin[0]''" "''schin[0]''" "''dsin[0]''"] r
    by (auto simp: is_request_def is_response_def new_gPacket_def general_h)
qed

text \<open>The messages for the line, the ones handed over to it, and the ones still queued.\<close>

fun nq_arrived :: "'m nq_msg list \<Rightarrow> 'm list" where
  "nq_arrived [] = []"
| "nq_arrived (FromRouting m # ms) = m # nq_arrived ms"
| "nq_arrived (_ # ms) = nq_arrived ms"

fun nq_sent :: "'m nq_out list \<Rightarrow> 'm list" where
  "nq_sent [] = []"
| "nq_sent (NqLine m # os) = m # nq_sent os"
| "nq_sent (NqOut m # os) = nq_sent os"

definition queue_laws :: "('m \<Rightarrow> 'q \<Rightarrow> 'q) \<Rightarrow> ('q \<Rightarrow> 'm \<times> 'q) \<Rightarrow> ('q \<Rightarrow> bool) \<Rightarrow> ('q \<Rightarrow> 'm list) \<Rightarrow> bool" where
  "queue_laws ins pop emp cont \<longleftrightarrow> (\<forall>m q. cont (ins m q) = cont q @ [m]) \<and> (\<forall>q. emp q \<longleftrightarrow> cont q = []) \<and>
     (\<forall>q. cont q \<noteq> [] \<longrightarrow> fst (pop q) = hd (cont q) \<and> cont (snd (pop q)) = tl (cont q))"

lemma nq_sent_append: "nq_sent (xs @ ys) = nq_sent xs @ nq_sent ys"
  by (induction xs rule: nq_sent.induct) auto

lemma queue_step_order:
  assumes "queue_laws ins pop emp cont" "queue_handleMessage ins pop emp m s = (outs, s')"
    and "cont (nq_queue s) \<noteq> [] \<longrightarrow> nq_busy s"
  shows "nq_sent outs @ cont (nq_queue s') = cont (nq_queue s) @ nq_arrived [m] \<and>
    (cont (nq_queue s') \<noteq> [] \<longrightarrow> nq_busy s')"
proof (cases m)
  case EndTx
  show ?thesis
  proof (cases "cont (nq_queue s)")
    case Nil
    moreover from Nil assms(1) have "emp (nq_queue s)" by (simp add: queue_laws_def)
    ultimately show ?thesis using assms(2) EndTx by (auto simp: queue_handleMessage_def)
  next
    case (Cons x xs)
    obtain y q where pop: "pop (nq_queue s) = (y, q)" by fastforce
    have "\<not> emp (nq_queue s)" "fst (pop (nq_queue s)) = x" "cont (snd (pop (nq_queue s))) = xs"
      using assms(1) Cons by (auto simp: queue_laws_def)
    with pop assms(2) EndTx Cons show ?thesis by (auto simp: queue_handleMessage_def startTransmitting_def)
  qed
next
  case (FromLine x)
  with assms(2,3) show ?thesis by (auto simp: queue_handleMessage_def)
next
  case (FromRouting x)
  have "cont (ins x q) = cont q @ [x]" for q using assms(1) by (simp add: queue_laws_def)
  with FromRouting assms(2,3) show ?thesis
    by (auto simp: queue_handleMessage_def startTransmitting_def split: if_splits)
qed

lemma nq_arrived_Cons: "nq_arrived (m # ms) = nq_arrived [m] @ nq_arrived ms"
  by (cases m) auto

text \<open>
  The queue of a line neither reorders nor loses packets: what was handed to the line,
  followed by what is queued, is what came from the router, in order; and packets wait only while
  a transmission is under way, so the line does not idle.
\<close>

theorem line_keeps_order:
  assumes "queue_laws ins pop emp cont" "cont q0 = []"
    and "queue_run ins pop emp ms \<lparr> nq_queue = q0, nq_busy = False \<rparr> = (outs, s)"
  shows "nq_sent outs @ cont (nq_queue s) = nq_arrived ms \<and> (cont (nq_queue s) \<noteq> [] \<longrightarrow> nq_busy s)"
proof -
  have run: "nq_sent outs @ cont (nq_queue s) = cont (nq_queue t) @ nq_arrived ms \<and>
      (cont (nq_queue s) \<noteq> [] \<longrightarrow> nq_busy s)"
    if "queue_run ins pop emp ms t = (outs, s)" "cont (nq_queue t) \<noteq> [] \<longrightarrow> nq_busy t" for t outs s
    using that
  proof (induction ms arbitrary: t outs)
    case (Cons m ms)
    obtain o1 t1 where 1: "queue_handleMessage ins pop emp m t = (o1, t1)" by fastforce
    obtain o2 where 2: "queue_run ins pop emp ms t1 = (o2, s)" "outs = o1 @ o2"
      using Cons.prems(1) 1 by (auto split: prod.splits)
    note step = queue_step_order [OF assms(1) 1 Cons.prems(2)]
    with Cons.IH [OF 2(1)] 2(2) show ?case by (auto simp: nq_sent_append nq_arrived_Cons [of m ms])
  qed simp
  from run [OF assms(3)] assms(2) show ?thesis by simp
qed

theorem line_keeps_order_witness:
  "\<exists>outs s. queue_run (\<lambda>m q. q @ [m]) (\<lambda>q. (hd q, tl q)) (\<lambda>q. q = []) [FromRouting 1, FromRouting 2, EndTx, FromRouting (3::int)]
      \<lparr> nq_queue = [], nq_busy = False \<rparr> = (outs, s) \<and> nq_sent outs @ nq_queue s = [1, 2, 3]"
proof -
  obtain outs s where run: "queue_run (\<lambda>m q. q @ [m]) (\<lambda>q. (hd q, tl q)) (\<lambda>q. q = []) [FromRouting 1, FromRouting 2, EndTx, FromRouting (3::int)]
      \<lparr> nq_queue = [], nq_busy = False \<rparr> = (outs, s)" by fastforce
  have "queue_laws (\<lambda>m q. q @ [m]) (\<lambda>q. (hd q, tl q)) (\<lambda>q. q = []) (\<lambda>q. q :: int list)"
    by (simp add: queue_laws_def)
  from line_keeps_order [OF this _ run] run show ?thesis by auto
qed

end
