(* ===== verification/Streamers.thy ===== *)
theory Streamers
  imports Layout
begin

text \<open>
  \<^verbatim>\<open>iostreamer/\<close>: the names of the input and output files, the reader of their lines, and the
  parser of the file that lists the layouts of the PFS files.

  A stream is the list of the lines that \<^verbatim>\<open>getline\<close> still delivers; \<open>None\<close> is the NULL that
  replaces a closed stream.
\<close>


section \<open>The names of the files\<close>

text \<open>The character that an \<^verbatim>\<open>int\<close> is converted to.\<close>

definition to_char :: "int \<Rightarrow> char" where
  "to_char x = char_of (x mod 256)"

definition put_char :: "string \<Rightarrow> int \<Rightarrow> int \<Rightarrow> string res" where
  "put_char s i c = (if 0 \<le> i \<and> i < int (length s) then Inr (s[nat i := to_char c]) else Inl (OutOfBounds ''string''))"

text \<open>
  The loop that checks the number of digits; the power grows tenfold in every turn, so the number
  of files bounds the turns.
\<close>

fun check_digits :: "nat \<Rightarrow> int \<Rightarrow> int \<Rightarrow> int \<Rightarrow> int \<Rightarrow> unit res" where
  "check_digits 0 num digits pow10 i = Inl (Diverge ''InputFiles::InputFiles'')"
| "check_digits (Suc n) num digits pow10 i =
     (if num \<ge> pow10 \<and> digits < i then Inl (Abort ''InputFiles::InputFiles'')
      else if num < pow10 then Inr ()
      else check_digits n num digits (pow10 * 10) (i + 1))"

definition file_name :: "int \<Rightarrow> string \<Rightarrow> string \<Rightarrow> int \<Rightarrow> string res" where
  "file_name digits prefix name i =
    (let start = int (length prefix) + digits - 1
     in bindR (if digits \<ge> 3 then put_char name (start - 2) (i sdiv 100 + 48) else Inr name) (\<lambda>name.
        bindR (if digits \<ge> 2 then put_char name (start - 1) (i smod 100 sdiv 10 + 48) else Inr name) (\<lambda>name.
        put_char name start (i smod 10 + 48))))"

text \<open>The names that the constructors of \<^verbatim>\<open>InputFiles\<close> and \<^verbatim>\<open>OutputFiles\<close> open.\<close>

fun file_names :: "int \<Rightarrow> string \<Rightarrow> string \<Rightarrow> int list \<Rightarrow> string list res" where
  "file_names digits prefix name [] = Inr []"
| "file_names digits prefix name (i # ids) =
     bindR (file_name digits prefix name i) (\<lambda>name.
     bindR (file_names digits prefix name ids) (\<lambda>names. Inr (name # names)))"

definition open_files :: "int \<Rightarrow> int \<Rightarrow> string \<Rightarrow> string \<Rightarrow> string list res" where
  "open_files num digits prefix postfix =
    (let name = prefix @ replicate (nat digits) CHR ''0'' @ postfix
     in if num = 1 then Inr [name]
        else bindR (check_digits (nat num + 1) num digits 10 1) (\<lambda>_.
             file_names digits prefix name [0..num - 1]))"

text \<open>\<^verbatim>\<open>open\<close> gives the lines of a file, or fails.\<close>

fun open_all :: "(string \<Rightarrow> string list option) \<Rightarrow> string list \<Rightarrow> string list option list res" where
  "open_all fs [] = Inr []"
| "open_all fs (n # ns) =
     (case fs n of
        None \<Rightarrow> Inl (Abort ''InputFiles::InputFiles'')
      | Some ls \<Rightarrow> bindR (open_all fs ns) (\<lambda>ss. Inr (Some ls # ss)))"

definition InputFiles_new :: "(string \<Rightarrow> string list option) \<Rightarrow> int \<Rightarrow> int \<Rightarrow> string \<Rightarrow> string \<Rightarrow> string list option list res" where
  "InputFiles_new fs num digits prefix postfix = bindR (open_files num digits prefix postfix) (open_all fs)"

text \<open>\<^verbatim>\<open>readLine\<close> skips empty lines and closes the stream at its end.\<close>

definition readLine :: "int \<Rightarrow> string list option list \<Rightarrow> (string option \<times> string list option list) res" where
  "readLine index streams =
    (if index \<ge> int (length streams) then Inl (Abort ''InputFiles::readLine'')
     else if index < 0 then Inl (OutOfBounds ''streams'')
     else case streams ! nat index of
       None \<Rightarrow> Inr (None, streams)
     | Some ls \<Rightarrow>
         (case dropWhile (\<lambda>l. l = []) ls of
            [] \<Rightarrow> Inr (None, streams[nat index := None])
          | l # ls \<Rightarrow> Inr (Some l, streams[nat index := Some ls])))"

text \<open>\<^verbatim>\<open>formEntityNamePrefix\<close>. The loop that writes the digits divides by ten in every turn.\<close>

fun write_digits :: "nat \<Rightarrow> string \<Rightarrow> int \<Rightarrow> int \<Rightarrow> string res" where
  "write_digits 0 s pos x = Inl (Diverge ''StreamersFactory::formEntityNamePrefix'')"
| "write_digits (Suc n) s pos x =
     bindR (put_char s pos (x smod 10 + 48)) (\<lambda>s.
     if x sdiv 10 = 0 then Inr s else write_digits n s (pos - 1) (x sdiv 10))"

definition formEntityNamePrefix :: "string \<Rightarrow> int \<Rightarrow> int \<Rightarrow> string \<Rightarrow> string res" where
  "formEntityNamePrefix prefix i digits postfix =
    (let s = prefix @ replicate (nat digits) CHR ''0''
     in if i > 10 ^ nat digits then Inl (Abort ''StreamersFactory::createTraceInputStreamer'')
        else bindR (write_digits (nat \<bar>i\<bar> + 1) s (int (length s) - 1) i) (\<lambda>s. Inr (s @ postfix)))"

section \<open>The layout file\<close>

datatype position = AtFileID | AtServerID | AtStripeSize

record pstate =
  p_val :: int
  p_sep :: bool
  p_pos :: position
  p_index :: int
  p_layout :: layout

definition new_pstate :: "layout \<Rightarrow> pstate" where
  "new_pstate lo = \<lparr> p_val = -1, p_sep = False, p_pos = AtFileID, p_index = 0, p_layout = lo \<rparr>"

text \<open>The value that a separator ends.\<close>

definition take_field :: "pstate \<Rightarrow> pstate res" where
  "take_field s =
    (if p_val s \<noteq> -1 \<and> p_sep s then
       (case p_pos s of
          AtFileID \<Rightarrow>
            if p_val s \<ge> MAX_FILE then Inl (Abort ''PFSFileInputStreamer::readPFSFiles'')
            else Inr (s\<lparr>p_layout := (p_layout s)\<lparr>lo_fileID := to_int32 (p_val s)\<rparr>, p_pos := AtServerID, p_val := -1\<rparr>)
        | AtServerID \<Rightarrow>
            bindR (setServerID (p_index s) (to_int32 (p_val s)) (p_layout s)) (\<lambda>lo.
            Inr (s\<lparr>p_layout := lo, p_pos := AtStripeSize, p_val := -1\<rparr>))
        | AtStripeSize \<Rightarrow>
            bindR (setServerStripeSize (p_index s) (p_val s) (p_layout s)) (\<lambda>lo.
            Inr (s\<lparr>p_layout := lo, p_pos := AtServerID, p_index := p_index s + 1, p_val := -1\<rparr>)))
     else Inr s)"

definition is_digit :: "char \<Rightarrow> bool" where
  "is_digit c \<longleftrightarrow> 48 \<le> (of_char c :: int) \<and> (of_char c :: int) \<le> 57"

text \<open>
  One character. A unit without a number before it ends in a \<^verbatim>\<open>continue\<close> that skips the
  increment of the position: the loop then looks at the same character for ever.
\<close>

definition parse_char :: "char \<Rightarrow> pstate \<Rightarrow> pstate res" where
  "parse_char c s =
    (let s = (if c \<in> {CHR 0x0A, CHR 0x00} then s\<lparr>p_sep := True\<rparr> else s);
         s = (if c \<in> {CHR '' '', CHR 0x09, CHR '','', CHR ''['', CHR '']''} then s\<lparr>p_sep := True\<rparr> else s);
         s = (if is_digit c
              then s\<lparr>p_val := (if p_val s = -1 then 0 else p_val s) * 10 + (of_char c - 48), p_sep := False\<rparr>
              else s)
     in if c \<in> {CHR ''k'', CHR ''K''} then
          (if p_val s = -1 then Inl (Diverge ''PFSFileInputStreamer::readPFSFiles'')
           else take_field (s\<lparr>p_sep := True, p_val := p_val s * 1024\<rparr>))
        else if c \<in> {CHR ''m'', CHR ''M''} then
          (if p_val s = -1 then Inl (Diverge ''PFSFileInputStreamer::readPFSFiles'')
           else take_field (s\<lparr>p_sep := True, p_val := p_val s * 1024 * 1024\<rparr>))
        else take_field s)"

text \<open>The loop ends after a newline or the terminating zero.\<close>

fun parse_chars :: "string \<Rightarrow> pstate \<Rightarrow> pstate res" where
  "parse_chars [] s = parse_char (CHR 0x00) s"
| "parse_chars (c # cs) s =
     bindR (parse_char c s) (\<lambda>s. if c = CHR 0x0A \<or> c = CHR 0x00 then Inr s else parse_chars cs s)"

definition parse_layout :: "(int \<Rightarrow> int) \<Rightarrow> (int \<Rightarrow> int) \<Rightarrow> string \<Rightarrow> layout res" where
  "parse_layout ml ms line =
    bindR (parse_chars line (new_pstate (Layout_new ml ms (-1)))) (\<lambda>s.
    Inr (calculateWindowSize (setServerNum (p_index s) (p_layout s))))"

definition read_pfs_line :: "(int \<Rightarrow> int) \<Rightarrow> (int \<Rightarrow> int) \<Rightarrow> string \<Rightarrow> pfsfiles \<Rightarrow> pfsfiles res" where
  "read_pfs_line ml ms line files =
    bindR (parse_layout ml ms line) (\<lambda>lo.
    bindR (pf_setLayout (Some lo) (PVFS2File_new (lo_fileID lo))) (\<lambda>f. addPFSFile (Some f) files))"

text \<open>\<^verbatim>\<open>readPFSFiles\<close> reads every stream to its end.\<close>

definition readPFSFiles :: "(int \<Rightarrow> int) \<Rightarrow> (int \<Rightarrow> int) \<Rightarrow> string list option list \<Rightarrow> pfsfiles res" where
  "readPFSFiles ml ms streams =
    run_res (\<lambda>st files. case st of None \<Rightarrow> Inr files | Some ls \<Rightarrow> run_res (read_pfs_line ml ms) (filter (\<lambda>l. l \<noteq> []) ls) files)
      streams (\<lambda>_. None)"

section \<open>The format of the layout file\<close>

text \<open>Numbers in decimal, and an entry for one server; \<open>unit\<close> is the letter after the size.\<close>

fun show_nat :: "nat \<Rightarrow> string" where
  "show_nat n = (if n < 10 then [char_of (48 + int n)] else show_nat (n div 10) @ [char_of (48 + int (n mod 10))])"

datatype size_unit = Bytes | Kilo | Mega

fun unit_factor :: "size_unit \<Rightarrow> int" where
  "unit_factor Bytes = 1" | "unit_factor Kilo = 1024" | "unit_factor Mega = 1024 * 1024"

fun unit_mark :: "size_unit \<Rightarrow> string" where
  "unit_mark Bytes = ''''" | "unit_mark Kilo = ''k''" | "unit_mark Mega = ''m''"

definition print_entry :: "nat \<times> nat \<times> size_unit \<Rightarrow> string" where
  "print_entry x = (case x of (server, n, u) \<Rightarrow> '' ['' @ show_nat server @ '' '' @ show_nat n @ unit_mark u @ '']'')"

definition print_layout :: "nat \<Rightarrow> (nat \<times> nat \<times> size_unit) list \<Rightarrow> string" where
  "print_layout fid es = show_nat fid @ concat (map print_entry es)"

declare show_nat.simps [simp del]

lemma char_digit:
  fixes n :: nat
  assumes "n < 10"
  shows "of_char (char_of (48 + int n) :: char) = 48 + int n" "is_digit (char_of (48 + int n))"
    "char_of (48 + int n) \<notin> {CHR 0x0A, CHR 0x00, CHR '' '', CHR 0x09, CHR '','', CHR ''['', CHR '']'', CHR ''k'', CHR ''K'', CHR ''m'', CHR ''M''}"
proof -
  show code: "of_char (char_of (48 + int n) :: char) = 48 + int n" using assms by (simp add: of_char_of)
  then show "is_digit (char_of (48 + int n))" using assms by (simp add: is_digit_def)
  have "(of_char c :: int) \<notin> {48..57}" if "c \<in> {CHR 0x0A, CHR 0x00, CHR '' '', CHR 0x09, CHR '','', CHR ''['', CHR '']'', CHR ''k'', CHR ''K'', CHR ''m'', CHR ''M''}" for c
    using that by auto
  with code assms show "char_of (48 + int n) \<notin> {CHR 0x0A, CHR 0x00, CHR '' '', CHR 0x09, CHR '','', CHR ''['', CHR '']'', CHR ''k'', CHR ''K'', CHR ''m'', CHR ''M''}"
    by fastforce
qed

lemma parse_char_digit:
  assumes "n < 10"
  shows "parse_char (char_of (48 + int n)) s =
    Inr (s\<lparr>p_val := (if p_val s = -1 then 0 else p_val s) * 10 + int n, p_sep := False\<rparr>)"
  using char_digit [OF assms] by (simp add: parse_char_def take_field_def Let_def)

lemma parse_number:
  "p_val s = -1 \<Longrightarrow> parse_chars (show_nat n @ rest) s = parse_chars rest (s\<lparr>p_val := int n, p_sep := False\<rparr>)"
proof (induction n arbitrary: rest rule: show_nat.induct)
  case (1 n)
  show ?case
  proof (cases "n < 10")
    case True
    then show ?thesis using 1(2) char_digit(3) [of n] parse_char_digit [of n]
      by (subst show_nat.simps) simp
  next
    case False
    then have "n mod 10 < 10" by simp
    note d = char_digit(3) [OF this] parse_char_digit [OF this]
    have "parse_chars (show_nat n @ rest) s = parse_chars (show_nat (n div 10) @ char_of (48 + int (n mod 10)) # rest) s"
      using False by (subst show_nat.simps) simp
    also have "\<dots> = parse_chars (char_of (48 + int (n mod 10)) # rest) (s\<lparr>p_val := int (n div 10), p_sep := False\<rparr>)"
      by (rule 1(1) [OF False 1(2)])
    also have "\<dots> = parse_chars rest (s\<lparr>p_val := int (n div 10) * 10 + int (n mod 10), p_sep := False\<rparr>)"
      using d by simp
    finally show ?thesis by (simp add: zdiv_int zmod_int)
  qed
qed

lemmas parse_steps = parse_char_def take_field_def Let_def is_digit_def

lemma parse_entry:
  assumes "int j < MAX_DS" "server < 2147483648"
  shows "parse_chars (print_entry (server, n, u) @ rest)
      \<lparr> p_val = -1, p_sep = b, p_pos = AtServerID, p_index = int j, p_layout = lo \<rparr> =
    parse_chars rest \<lparr> p_val = -1, p_sep = True, p_pos = AtServerID, p_index = int (Suc j),
      p_layout = lo\<lparr>serverList := (serverList lo)(int j := int server),
        serverStripeSizes := (serverStripeSizes lo)(int j := int n * unit_factor u)\<rparr> \<rparr>"
  using assms by (cases u) (simp_all add: print_entry_def parse_number parse_steps setServerID_def setServerStripeSize_def to_int32_id algebra_simps)

fun fill_layout :: "nat \<Rightarrow> (nat \<times> nat \<times> size_unit) list \<Rightarrow> layout \<Rightarrow> layout" where
  "fill_layout j [] lo = lo"
| "fill_layout j ((server, n, u) # es) lo =
     fill_layout (Suc j) es (lo\<lparr>serverList := (serverList lo)(int j := int server),
        serverStripeSizes := (serverStripeSizes lo)(int j := int n * unit_factor u)\<rparr>)"

lemma parse_entries:
  "int (j + length es) \<le> MAX_DS \<Longrightarrow> \<forall>(server, n, u)\<in>set es. server < 2147483648 \<Longrightarrow>
    \<exists>b'. parse_chars (concat (map print_entry es) @ rest)
      \<lparr> p_val = -1, p_sep = b, p_pos = AtServerID, p_index = int j, p_layout = lo \<rparr> =
    parse_chars rest \<lparr> p_val = -1, p_sep = b', p_pos = AtServerID, p_index = int (j + length es), p_layout = fill_layout j es lo \<rparr>"
proof (induction es arbitrary: j b lo)
  case (Cons e es)
  obtain server n u where e: "e = (server, n, u)" by (metis prod_cases3)
  have j: "int j < MAX_DS" "server < 2147483648" "int (Suc j + length es) \<le> MAX_DS"
    "\<forall>(server, n, u)\<in>set es. server < 2147483648" using Cons.prems e by auto
  from Cons.IH [OF j(3,4)] parse_entry [OF j(1,2), of n u "concat (map print_entry es) @ rest" b lo]
  show ?case by (simp add: e)
qed auto

lemma fill_layout_simps:
  "lo_fileID (fill_layout j es lo) = lo_fileID lo" "serverNum (fill_layout j es lo) = serverNum lo"
  by (induction es arbitrary: j lo) auto

lemma fill_layout_at:
  "serverList (fill_layout j es lo) i =
      (if int j \<le> i \<and> i < int (j + length es) then int (fst (es ! nat (i - int j))) else serverList lo i)"
  "serverStripeSizes (fill_layout j es lo) i =
      (if int j \<le> i \<and> i < int (j + length es)
       then (case es ! nat (i - int j) of (server, n, u) \<Rightarrow> int n * unit_factor u) else serverStripeSizes lo i)"
proof (induction es arbitrary: j lo)
  case (Cons e es)
  obtain server n u where e: "e = (server, n, u)" by (metis prod_cases3)
  have later: "nat (i - int j) = Suc k" "nat (i - int (Suc j)) = k" if "i = int (Suc j) + int k" for j k
    using that by auto
  have split: "i < int j \<or> i = int j \<or> (\<exists>k. i = int (Suc j) + int k)" for j
  proof -
    have "i - int (Suc j) < 0 \<or> (\<exists>k. i - int (Suc j) = int k)" using zero_le_imp_eq_int not_less by blast
    then show ?thesis by (auto simp: algebra_simps)
  qed
  { case (1 j lo) show ?case using Cons.IH(1) [of "Suc j"] split [of j] later by (auto simp: e) }
  { case (2 j lo) show ?case using Cons.IH(2) [of "Suc j"] split [of j] later by (auto simp: e) }
qed auto

definition entry_size :: "nat \<times> nat \<times> size_unit \<Rightarrow> int" where
  "entry_size x = (case x of (server, n, u) \<Rightarrow> int n * unit_factor u)"

lemma sum_entries:
  "(\<Sum>i\<in>{0..<int (length es)}. entry_size (es ! nat i)) = sum_list (map entry_size es)"
proof -
  have "(\<Sum>i\<in>{0..<int (length es)}. entry_size (es ! nat i)) = (\<Sum>i\<in>{0..<length es}. entry_size (es ! i))"
    by (rule sum.reindex_bij_witness [of _ int nat]) auto
  then show ?thesis by (simp add: sum_list_sum_nth)
qed

text \<open>The layout that a line describes.\<close>

definition layout_is :: "layout \<Rightarrow> nat \<Rightarrow> (nat \<times> nat \<times> size_unit) list \<Rightarrow> bool" where
  "layout_is lo fid es \<longleftrightarrow> lo_fileID lo = int fid \<and>
    serverNum lo = int (length es) \<and> windowSize lo = sum_list (map entry_size es) \<and>
    (\<forall>i<length es. serverList lo (int i) = int (fst (es ! i)) \<and> serverStripeSizes lo (int i) = entry_size (es ! i))"

definition line_ok :: "nat \<Rightarrow> (nat \<times> nat \<times> size_unit) list \<Rightarrow> bool" where
  "line_ok fid es \<longleftrightarrow> fid < 1024 \<and> int (length es) \<le> MAX_DS \<and> (\<forall>(server, n, u)\<in>set es. server < 2147483648)"

lemma parse_layout_line:
  assumes "line_ok fid es"
  shows "\<exists>lo. parse_layout ml ms (print_layout fid es) = Inr lo \<and> layout_is lo fid es"
proof -
  note assms = assms [unfolded line_ok_def, THEN conjunct1] assms [unfolded line_ok_def, THEN conjunct2, THEN conjunct1]
    assms [unfolded line_ok_def, THEN conjunct2, THEN conjunct2]
  define lo0 where "lo0 = (Layout_new ml ms (-1))\<lparr>lo_fileID := int fid\<rparr>"
  define lo where "lo = fill_layout 0 es lo0"
  have id32: "to_int32 (int fid) = int fid" using assms(1) by (intro to_int32_id) auto
  have parsed: "\<exists>b. parse_chars (print_layout fid es) (new_pstate (Layout_new ml ms (-1))) =
      Inr \<lparr> p_val = -1, p_sep = b, p_pos = AtServerID, p_index = int (length es), p_layout = lo \<rparr>"
  proof (cases es)
    case Nil
    with assms(1) id32 show ?thesis
      using parse_number [of "new_pstate (Layout_new ml ms (-1))" fid "[]"]
      by (intro exI [of _ True]) (simp add: print_layout_def new_pstate_def parse_steps MAX_FILE_def lo_def lo0_def)
  next
    case (Cons e es')
    obtain rest where rest: "concat (map print_entry es) = CHR '' '' # rest"
      using Cons by (cases e) (auto simp: print_entry_def)
    have start: "parse_chars (print_layout fid es) (new_pstate (Layout_new ml ms (-1))) =
        parse_chars (concat (map print_entry es))
          \<lparr> p_val = -1, p_sep = False, p_pos = AtServerID, p_index = 0, p_layout = lo0 \<rparr>"
      using assms(1) id32 parse_number [of "new_pstate (Layout_new ml ms (-1))" fid "CHR '' '' # rest"] rest
      by (simp add: print_layout_def new_pstate_def parse_steps MAX_FILE_def lo0_def)
    obtain b where "parse_chars (concat (map print_entry es) @ [])
          \<lparr> p_val = -1, p_sep = False, p_pos = AtServerID, p_index = int 0, p_layout = lo0 \<rparr> =
        parse_chars [] \<lparr> p_val = -1, p_sep = b, p_pos = AtServerID, p_index = int (0 + length es), p_layout = lo \<rparr>"
      using parse_entries [of 0 es "[]" False lo0] assms(2,3) unfolding lo_def by auto
    with start show ?thesis by (intro exI [of _ True]) (simp add: parse_steps)
  qed
  then have parse: "parse_layout ml ms (print_layout fid es) = Inr (calculateWindowSize (setServerNum (int (length es)) lo))"
    by (auto simp: parse_layout_def)
  define lo' where "lo' = calculateWindowSize (setServerNum (int (length es)) lo)"
  have ok: "lo' = lo\<lparr>serverNum := int (length es), windowSize := \<Sum>i\<in>{0..<int (length es)}. serverStripeSizes lo i\<rparr>"
    using assms(2) interv_sum_list_conv_sum_set_int [of "serverStripeSizes lo" 0 "int (length es) - 1"]
    by (simp add: lo'_def calculateWindowSize_def setServerNum_def fold_windowSize atLeastLessThanPlusOne_atLeastAtMost_int [symmetric])
  have "(\<Sum>i\<in>{0..<int (length es)}. serverStripeSizes lo i) = (\<Sum>i\<in>{0..<int (length es)}. entry_size (es ! nat i))"
    by (intro sum.cong) (auto simp: lo_def fill_layout_at entry_size_def)
  with ok have "windowSize lo' = sum_list (map entry_size es)" by (simp add: sum_entries)
  moreover have "lo_fileID lo' = int fid" "serverNum lo' = int (length es)"
    by (simp_all add: ok lo_def lo0_def fill_layout_simps)
  moreover have "\<forall>i<length es. serverList lo' (int i) = int (fst (es ! i)) \<and> serverStripeSizes lo' (int i) = entry_size (es ! i)"
    by (auto simp: ok lo_def fill_layout_at entry_size_def)
  ultimately show ?thesis using parse unfolding lo'_def [symmetric] layout_is_def by blast
qed

text \<open>
  Claim C30. The parser of the layout file is the inverse of its format: a line with a file
  identity and, for up to 32 servers, the server and its stripe size, in bytes, kilobytes or
  megabytes, is read as the layout it describes, with the window size the sum of the stripes.
\<close>

theorem layout_line_roundtrip:
  assumes "fid < 1024" "int (length es) \<le> MAX_DS" "\<forall>(server, n, u)\<in>set es. server < 2147483648"
  shows "\<exists>lo. parse_layout ml ms (print_layout fid es) = Inr lo \<and> lo_fileID lo = int fid \<and>
    serverNum lo = int (length es) \<and> windowSize lo = sum_list (map entry_size es) \<and>
    (\<forall>i<length es. serverList lo (int i) = int (fst (es ! i)) \<and> serverStripeSizes lo (int i) = entry_size (es ! i))"
  using parse_layout_line [of fid es ml ms] assms unfolding line_ok_def layout_is_def by blast

theorem layout_line_roundtrip_witness:
  "\<exists>lo. parse_layout (\<lambda>_. 0) (\<lambda>_. 0) (print_layout 3 [(7, 64, Kilo), (0, 1, Mega)]) = Inr lo \<and>
     lo_fileID lo = 3 \<and> windowSize lo = 1114112"
  using layout_line_roundtrip [of 3 "[(7, 64, Kilo), (0, 1, Mega)]" "\<lambda>_. 0" "\<lambda>_. 0"]
  by (auto simp: general_h entry_size_def)

section \<open>Names with a number\<close>

fun decimal :: "nat \<Rightarrow> int \<Rightarrow> string" where
  "decimal 0 x = []"
| "decimal (Suc d) x = decimal d (x div 10) @ [to_char (x mod 10 + 48)]"

lemma to_char_digits: "to_char 48 = CHR ''0''" "to_char 49 = CHR ''1''"
  by (simp_all add: to_char_def char_of_def)

lemma decimal_simps: "length (decimal d x) = d" "decimal d 0 = replicate d CHR ''0''"
  by (induction d arbitrary: x) (auto simp: replicate_append_same to_char_digits)

lemma put_char_at:
  "put_char (a @ c # t) (int (length a)) x = Inr (a @ to_char x # t)"
  by (simp add: put_char_def)

lemma put_last_zero:
  "put_char (a @ replicate (Suc d) CHR ''0'' @ t) (int (length a + Suc d) - 1) x =
    Inr (a @ replicate d CHR ''0'' @ to_char x # t)"
  using put_char_at [of "a @ replicate d CHR ''0''" "CHR ''0''" t x]
  by (simp add: replicate_app_Cons_same)

lemma write_digits_decimal:
  "0 \<le> x \<Longrightarrow> x < 10 ^ d \<Longrightarrow> 0 < d \<Longrightarrow> x < int n \<Longrightarrow>
    write_digits n (a @ replicate d CHR ''0'' @ t) (int (length a + d) - 1) x = Inr (a @ decimal d x @ t)"
proof (induction d arbitrary: n x t)
  case (Suc d)
  then obtain m where n: "n = Suc m" by (cases n) auto
  note put = put_last_zero [of a d t "x smod 10 + 48"]
  show ?case
  proof (cases "x div 10 = 0")
    case True
    then show ?thesis using put n Suc.prems(1) by (simp add: sdiv_nonneg smod_nonneg decimal_simps del: replicate.simps)
  next
    case False
    have less: "x div 10 < 10 ^ d" using Suc.prems(1,2) by simp
    then have "0 < d" using False Suc.prems(1) by (cases d) auto
    moreover have "x div 10 < int m" using Suc.prems(1,4) False n by linarith
    ultimately have "write_digits m (a @ replicate d CHR ''0'' @ to_char (x mod 10 + 48) # t) (int (length a + d) - 1) (x div 10) =
        Inr (a @ decimal d (x div 10) @ to_char (x mod 10 + 48) # t)"
      using Suc.prems(1) less by (intro Suc.IH) auto
    then show ?thesis using put n False Suc.prems(1) by (simp add: sdiv_nonneg smod_nonneg del: replicate.simps)
  qed
qed simp

lemma write_digits_power:
  "10 ^ d < int n \<Longrightarrow>
    write_digits n (a @ c # replicate d CHR ''0'' @ t) (int (length a + d)) (10 ^ d) = Inr (a @ CHR ''1'' # replicate d CHR ''0'' @ t)"
proof (induction d arbitrary: n t)
  case 0
  then obtain m where "n = Suc m" by (cases n) auto
  then show ?case using put_char_at [of a c t 49] by (simp add: to_char_digits sdiv_nonneg smod_nonneg)
next
  case (Suc d)
  then obtain m where n: "n = Suc m" by (cases n) auto
  have "(10::int) * 10 ^ d < int m + 1" using Suc.prems n by (simp only: power_Suc of_nat_Suc add.commute)
  moreover have "(0::int) < 10 ^ d" by simp
  ultimately have "(10::int) ^ d < int m" by linarith
  then have "write_digits m (a @ c # replicate d CHR ''0'' @ CHR ''0'' # t) (int (length a + d)) (10 ^ d) =
      Inr (a @ CHR ''1'' # replicate d CHR ''0'' @ CHR ''0'' # t)" by (rule Suc.IH)
  then show ?case using put_last_zero [of "a @ [c]" d t 48] n
    by (simp add: sdiv_nonneg smod_nonneg to_char_digits replicate_app_Cons_same del: replicate.simps) (simp add: replicate_app_Cons_same)
qed

text \<open>
  The name of a client or proxy is the prefix, its identity in as many decimal digits
  as the configuration gives, and the suffix. The check of the number of digits is one too
  generous: for the identity 10 to the power of the digits the leading one overwrites the last
  character of the prefix.
\<close>

theorem entity_prefix:
  assumes "0 \<le> i" "i \<le> 10 ^ d" "0 < d"
  shows "formEntityNamePrefix (prefix @ [c]) i (int d) postfix =
    Inr (if i < 10 ^ d then prefix @ [c] @ decimal d i @ postfix
         else prefix @ ''1'' @ replicate d CHR ''0'' @ postfix)"
proof (cases "i < 10 ^ d")
  case True
  then show ?thesis
    using write_digits_decimal [of i d "nat i + 1" "prefix @ [c]" "[]"] assms
    by (simp add: formEntityNamePrefix_def Let_def del: write_digits.simps)
next
  case False
  with assms have "i = 10 ^ d" by simp
  then show ?thesis
    using write_digits_power [of d "nat i + 1" prefix c "[]"]
    by (simp add: formEntityNamePrefix_def Let_def del: write_digits.simps)
qed

theorem entity_prefix_witness:
  "formEntityNamePrefix ''client'' 7 2 ''trace'' = Inr ''client07trace'' \<and>
   formEntityNamePrefix ''client'' 100 2 ''trace'' = Inr ''clien100trace''"
  using entity_prefix [of 7 2 "''clien''" "CHR ''t''" "''trace''"] entity_prefix [of 100 2 "''clien''" "CHR ''t''" "''trace''"]
  by (simp add: to_char_def char_of_def numeral_2_eq_2)

end
