(* ===== verification/Mserver.thy ===== *)
theory Mserver
  imports Network Streamers
begin

text \<open>
  \<^verbatim>\<open>mserver/\<close>: the metadata server. It reads the layouts of the files at the start and answers
  the queries of the clients.
\<close>

record mserver =
  ms_files :: pfsfiles
  metadataPacketProcessTime :: real
  dataPacketProcessTime :: real

datatype ms_out = MsAt real net_msg | MsSend net_msg

definition readPFSFileInformationFromFile :: "(int \<Rightarrow> int) \<Rightarrow> (int \<Rightarrow> int) \<Rightarrow> (string \<Rightarrow> string list option) \<Rightarrow>
    int \<Rightarrow> int \<Rightarrow> string \<Rightarrow> string \<Rightarrow> pfsfiles res" where
  "readPFSFileInformationFromFile ml ms fs num digits prefix postfix =
    bindR (InputFiles_new fs num digits prefix postfix) (readPFSFiles ml ms)"

definition MetadataServer_initialize :: "(int \<Rightarrow> int) \<Rightarrow> (int \<Rightarrow> int) \<Rightarrow> (string \<Rightarrow> string list option) \<Rightarrow>
    string \<Rightarrow> int \<Rightarrow> int \<Rightarrow> string \<Rightarrow> string \<Rightarrow> real \<Rightarrow> real \<Rightarrow> mserver res" where
  "MetadataServer_initialize ml ms fs signature num digits prefix postfix mtime dtime =
    (if signature = ''PVFS2'' then
       bindR (readPFSFileInformationFromFile ml ms fs num digits prefix postfix) (\<lambda>files.
       Inr \<lparr> ms_files = files, metadataPacketProcessTime = mtime, dataPacketProcessTime = dtime \<rparr>)
     else Inl (Abort ''MetadataServer::initialize''))"

text \<open>The strategy: the packets to send for a query, and for a data response (none).\<close>

definition strategy_metadata :: "qPacket \<Rightarrow> mserver \<Rightarrow> net_msg list res" where
  "strategy_metadata packet s =
    (case findPFSFile (q_fileId packet) (ms_files s) of
       None \<Rightarrow> Inl (Abort ''PVFS2MetadataServerStrategy::handleMetadataPacket'')
     | Some f \<Rightarrow>
         bindR (ReplyPFSFileMetadataPacket packet f) (\<lambda>packet.
         Inr [NetQ (packet\<lparr>getByteLength := METADATA_LENGTH, getKind := LAYOUT_RESP\<rparr>)]))"

definition strategy_dataReply :: "gPacket \<Rightarrow> net_msg list" where
  "strategy_dataReply packet = []"

text \<open>\<open>dt\<close> and \<open>mt\<close> are the rise times of the last data and metadata packets.\<close>

fun process_packets :: "mserver \<Rightarrow> real \<Rightarrow> real \<Rightarrow> net_msg list \<Rightarrow> ms_out list res" where
  "process_packets s dt mt [] = Inr []"
| "process_packets s dt mt (NetG g # ms) =
     (if getKind g \<in> {PFS_W_REQ, PFS_R_REQ, PFS_W_DATA, PFS_W_DATA_LAST} then
        let dt = dt + dataPacketProcessTime s; g = NetG (g\<lparr>getRisetime := dt\<rparr>)
        in bindR (process_packets s dt mt ms) (\<lambda>outs.
           Inr ((if dataPacketProcessTime s \<noteq> 0 then MsAt dt g else MsSend g) # outs))
      else Inl (Abort ''MetadataServer::processPacketList''))"
| "process_packets s dt mt (NetQ q # ms) =
     (if getKind q = LAYOUT_RESP then
        let mt = mt + metadataPacketProcessTime s; q = NetQ (q\<lparr>q_risetime := mt\<rparr>)
        in bindR (process_packets s dt mt ms) (\<lambda>outs.
           Inr ((if metadataPacketProcessTime s \<noteq> 0 then MsAt mt q else MsSend q) # outs))
      else Inl (Abort ''MetadataServer::processPacketList''))"
| "process_packets s dt mt (NetS p # ms) = Inl (Abort ''MetadataServer::processPacketList'')"

definition ms_processPacketList :: "real \<Rightarrow> net_msg list \<Rightarrow> mserver \<Rightarrow> ms_out list res" where
  "ms_processPacketList now ms s = process_packets s now now ms"

definition ms_handleMetadataPacket :: "real \<Rightarrow> qPacket \<Rightarrow> mserver \<Rightarrow> ms_out list res" where
  "ms_handleMetadataPacket now packet s = bindR (strategy_metadata packet s) (\<lambda>ms. ms_processPacketList now ms s)"

definition ms_handleDataPacketResponse :: "real \<Rightarrow> gPacket \<Rightarrow> mserver \<Rightarrow> ms_out list res" where
  "ms_handleDataPacketResponse now packet s = ms_processPacketList now (strategy_dataReply packet) s"

text \<open>The case of the data responses has no \<^verbatim>\<open>break\<close> and falls into the default.\<close>

definition ms_handleMessage :: "real \<Rightarrow> net_msg \<Rightarrow> mserver \<Rightarrow> ms_out list res" where
  "ms_handleMessage now m s =
    (case m of
       NetQ q \<Rightarrow> if getKind q = LAYOUT_REQ then ms_handleMetadataPacket now q s
                 else if getKind q = LAYOUT_RESP then Inr [MsSend m]
                 else Inl (Abort ''MetadataServer::handleMessage'')
     | NetG g \<Rightarrow> if getKind g \<in> {PFS_R_REQ, PFS_W_REQ, PFS_W_DATA, PFS_W_DATA_LAST} then Inr [MsSend m]
                 else if getKind g \<in> {PFS_W_RESP, PFS_R_DATA, PFS_R_DATA_LAST} then
                   bindR (ms_handleDataPacketResponse now g s) (\<lambda>outs. Inl (Abort ''MetadataServer::handleMessage''))
                 else Inl (Abort ''MetadataServer::handleMessage'')
     | NetS p \<Rightarrow> Inl (Abort ''MetadataServer::handleMessage''))"

section \<open>From the layout file to the reply\<close>

definition layout_lines :: "(nat \<times> (nat \<times> nat \<times> size_unit) list) list \<Rightarrow> string list" where
  "layout_lines entries = map (\<lambda>(fid, es). print_layout fid es) entries"

lemma print_layout_nonempty [simp]: "print_layout fid es \<noteq> []"
  by (simp add: print_layout_def) (subst show_nat.simps, simp)

lemma layout_lines_filter: "filter (\<lambda>l. l \<noteq> []) (layout_lines entries) = layout_lines entries"
  by (rule filter_True) (auto simp: layout_lines_def)

lemma read_layout_lines:
  "\<forall>(fid, es)\<in>set entries. line_ok fid es \<Longrightarrow> distinct (map fst entries) \<Longrightarrow> \<forall>fid\<in>fst ` set entries. dir (int fid) = None \<Longrightarrow>
    \<exists>dir'. run_res (read_pfs_line ml ms) (layout_lines entries) dir = Inr dir' \<and>
      (\<forall>(fid, es)\<in>set entries. \<exists>lo. dir' (int fid) = Some \<lparr> pf_ID = int fid, pf_layout = Some lo \<rparr> \<and> layout_is lo fid es) \<and>
      (\<forall>x. (\<forall>fid\<in>fst ` set entries. x \<noteq> int fid) \<longrightarrow> dir' x = dir x)"
proof (induction entries arbitrary: dir)
  case Nil
  then show ?case by (simp add: layout_lines_def)
next
  case (Cons e entries)
  obtain fid es where e: "e = (fid, es)" by (cases e)
  have ok: "line_ok fid es" "dir (int fid) = None" using Cons.prems e by auto
  obtain lo where lo: "parse_layout ml ms (print_layout fid es) = Inr lo" "layout_is lo fid es"
    using parse_layout_line [OF ok(1)] by blast
  define dir1 where "dir1 = dir(int fid \<mapsto> \<lparr> pf_ID = int fid, pf_layout = Some lo \<rparr>)"
  have step: "read_pfs_line ml ms (print_layout fid es) dir = Inr dir1"
    using lo ok(2) by (simp add: read_pfs_line_def pf_setLayout_def PVFS2File_new_def addPFSFile_def dir1_def layout_is_def)
  have "\<forall>f\<in>fst ` set entries. dir1 (int f) = None" using Cons.prems(2,3) e by (force simp: dir1_def)
  with Cons.IH [of dir1] Cons.prems(1,2) obtain dir' where dir':
    "run_res (read_pfs_line ml ms) (layout_lines entries) dir1 = Inr dir'"
    "\<forall>(fid, es)\<in>set entries. \<exists>lo. dir' (int fid) = Some \<lparr> pf_ID = int fid, pf_layout = Some lo \<rparr> \<and> layout_is lo fid es"
    "\<forall>x. (\<forall>fid\<in>fst ` set entries. x \<noteq> int fid) \<longrightarrow> dir' x = dir1 x" by auto
  have "\<forall>f\<in>fst ` set entries. int fid \<noteq> int f" using Cons.prems(2) e by auto
  then have "dir' (int fid) = dir1 (int fid)" using dir'(3) by blast
  with lo(2) have "\<exists>lo. dir' (int fid) = Some \<lparr> pf_ID = int fid, pf_layout = Some lo \<rparr> \<and> layout_is lo fid es"
    by (simp add: dir1_def)
  moreover have "\<forall>x. (\<forall>f\<in>fst ` set (e # entries). x \<noteq> int f) \<longrightarrow> dir' x = dir x"
    using dir'(3) by (simp add: e dir1_def)
  moreover have "run_res (read_pfs_line ml ms) (layout_lines (e # entries)) dir = Inr dir'"
    using step dir'(1) by (simp add: layout_lines_def e)
  ultimately show ?case using dir'(2) by (intro exI [of _ dir']) (auto simp: e)
qed

text \<open>
  Claim C29. The metadata server answers a query with the layout that its input file lists for the
  file: with the numbers and the stripe sizes of the servers in the order of the line, the
  identity of the query kept, after the processing time of metadata.
\<close>

theorem metadata_server_answers:
  assumes "fs (prefix @ postfix) = Some (layout_lines entries)"
    and "\<forall>(fid, es)\<in>set entries. line_ok fid es" "distinct (map fst entries)" "(fid, es) \<in> set entries"
    and "getKind q = LAYOUT_REQ" "q_fileId q = int fid"
  shows "\<exists>s q'. MetadataServer_initialize ml ms fs ''PVFS2'' 1 0 prefix postfix mtime dtime = Inr s \<and>
    ms_handleMessage now (NetQ q) s = Inr [if mtime \<noteq> 0 then MsAt (now + mtime) (NetQ q') else MsSend (NetQ q')] \<and>
    getKind q' = LAYOUT_RESP \<and> getID q' = getID q \<and> getClientID q' = getClientID q \<and> q_dsNum q' = int (length es) \<and>
    (\<forall>i<length es. q_dsList q' (int i) = int (fst (es ! i)) \<and> q_dsStripeSizes q' (int i) = entry_size (es ! i))"
proof -
  obtain dir where dir: "run_res (read_pfs_line ml ms) (layout_lines entries) (\<lambda>_. None) = Inr dir"
    "\<forall>(fid, es)\<in>set entries. \<exists>lo. dir (int fid) = Some \<lparr> pf_ID = int fid, pf_layout = Some lo \<rparr> \<and> layout_is lo fid es"
    using read_layout_lines [OF assms(2,3), of "\<lambda>_. None" ml ms] by auto
  from dir(2) assms(4) obtain lo where lo: "dir (int fid) = Some \<lparr> pf_ID = int fid, pf_layout = Some lo \<rparr>" "layout_is lo fid es"
    by fastforce
  have len: "0 \<le> int (length es)" "int (length es) \<le> MAX_DS" using assms(2,4) by (auto simp: line_ok_def)
  define s where "s = \<lparr> ms_files = dir, metadataPacketProcessTime = mtime, dataPacketProcessTime = dtime \<rparr>"
  have "MetadataServer_initialize ml ms fs ''PVFS2'' 1 0 prefix postfix mtime dtime = Inr s"
    using assms(1) dir(1) by (simp add: MetadataServer_initialize_def readPFSFileInformationFromFile_def InputFiles_new_def
        open_files_def readPFSFiles_def layout_lines_filter s_def)
  moreover define q' where "q' = q\<lparr>q_dsNum := int (length es),
      q_dsList := \<lambda>i. if 0 \<le> i \<and> i < int (length es) then serverList lo i else q_dsList q i,
      q_dsStripeSizes := \<lambda>i. if 0 \<le> i \<and> i < int (length es) then serverStripeSizes lo i else q_dsStripeSizes q i,
      getByteLength := METADATA_LENGTH, getKind := LAYOUT_RESP, q_risetime := now + mtime\<rparr>"
  have num: "serverNum lo = int (length es)" using lo(2) by (simp add: layout_is_def)
  have "ms_handleMessage now (NetQ q) s = Inr [if mtime \<noteq> 0 then MsAt (now + mtime) (NetQ q') else MsSend (NetQ q')]"
    using assms(5,6) lo(1) run_setqPacket [OF len, of lo "q\<lparr>q_dsNum := int (length es)\<rparr>"] num
    by (simp add: ms_handleMessage_def ms_handleMetadataPacket_def strategy_metadata_def findPFSFile_def s_def
        ReplyPFSFileMetadataPacket_def setqPacket_def ms_processPacketList_def Let_def q'_def cong: if_cong)
  ultimately show ?thesis using lo(2) by (intro exI [of _ s] exI [of _ q']) (auto simp: q'_def layout_is_def)
qed

theorem metadata_server_answers_witness:
  "\<exists>s q'. MetadataServer_initialize (\<lambda>_. 0) (\<lambda>_. 0) (\<lambda>n. if n = ''layout'' then Some (layout_lines [(4, [(2, 64, Kilo)])]) else None)
      ''PVFS2'' 1 0 ''lay'' ''out'' 1 1 = Inr s \<and>
    ms_handleMessage 5 (NetQ (new_qPacket\<lparr>getKind := LAYOUT_REQ, q_fileId := 4\<rparr>)) s = Inr [MsAt 6 (NetQ q')] \<and>
    q_dsStripeSizes q' 0 = 65536"
proof -
  have "line_ok 4 [(2, 64, Kilo)]" by (simp add: line_ok_def general_h)
  then show ?thesis
    using metadata_server_answers [of "\<lambda>n. if n = ''layout'' then Some (layout_lines [(4, [(2, 64, Kilo)])]) else None" "''lay''" "''out''"
        "[(4, [(2, 64, Kilo)])]" 4 "[(2, 64, Kilo)]" "new_qPacket\<lparr>getKind := LAYOUT_REQ, q_fileId := 4\<rparr>" "\<lambda>_. 0" "\<lambda>_. 0" 1 1 5]
    by (auto simp: entry_size_def new_qPacket_def)
qed

end
