(* ===== verification/ReadAhead.thy ===== *)
theory ReadAhead
  imports Packets
begin

text \<open>
  \<^verbatim>\<open>dserver/diskcache/DiskCache.h\<close>, \<^verbatim>\<open>DiskCache.cc\<close>: the page ranges (\<^verbatim>\<open>pr_t\<close>) and the read
  ahead state of a file (\<^verbatim>\<open>file_ra_state\<close>). A pointer to a page range is an address or
  \<^verbatim>\<open>NULL\<close>.
\<close>

type_synonym ptr = "nat option"

record pr_t =
  pr_fileid :: int
  pr_start :: int
  pr_end :: int
  pr_count :: int
  PG_dirty :: bool
  PG_writeback :: bool
  PG_locked :: bool
  PG_referenced :: bool
  pr_modified :: bool
  PG_lru :: bool
  pr_next :: ptr
  pr_prev :: ptr
  lru_next :: ptr
  lru_prev :: ptr
  writeout_list :: ptr
  readahead_list :: ptr

definition new_pr :: "int \<Rightarrow> int \<Rightarrow> int \<Rightarrow> bool \<Rightarrow> ptr \<Rightarrow> ptr \<Rightarrow> pr_t" where
  "new_pr fid st e dirty n p =
    \<lparr> pr_fileid = fid, pr_start = st, pr_end = e, pr_count = 1, PG_dirty = dirty, PG_writeback = False,
      PG_locked = dirty, PG_referenced = True, pr_modified = dirty, PG_lru = False, pr_next = n, pr_prev = p,
      lru_next = None, lru_prev = None, writeout_list = None, readahead_list = None \<rparr>"

definition copy_pr :: "pr_t \<Rightarrow> pr_t" where
  "copy_pr oldpr = oldpr\<lparr>readahead_list := None, writeout_list := None\<rparr>"

definition attrcomp :: "pr_t \<Rightarrow> pr_t \<Rightarrow> bool" where
  "attrcomp c1 c2 \<longleftrightarrow>
     pr_fileid c1 = pr_fileid c2 \<and> pr_count c1 = pr_count c2 \<and> PG_dirty c1 = PG_dirty c2 \<and>
     PG_writeback c1 = PG_writeback c2 \<and> PG_locked c1 = PG_locked c2 \<and> PG_referenced c1 = PG_referenced c2 \<and>
     pr_modified c1 = pr_modified c2 \<and> PG_lru c1 = PG_lru c2"

section \<open>Read ahead\<close>

record file_ra_state =
  ra_pages :: int
  RA_FLAG_MISS :: bool
  RA_FLAG_INCACHE :: bool
  cache_hit :: int
  prev_page :: int
  ra_start :: int
  ra_size :: int
  ahead_start :: int
  ahead_size :: int
  start_IO_ahead_window :: bool
  started_ra_range :: int

definition POSIX_FADV_SEQUENTIAL :: int where "POSIX_FADV_SEQUENTIAL = 64"

definition new_ra :: file_ra_state where
  "new_ra = \<lparr> ra_pages = POSIX_FADV_SEQUENTIAL, RA_FLAG_MISS = False, RA_FLAG_INCACHE = False, cache_hit = 0,
     prev_page = -1, ra_start = 0, ra_size = 0, ahead_start = 0, ahead_size = 0,
     start_IO_ahead_window = False, started_ra_range = 0 \<rparr>"

text \<open>
  The loop \<^verbatim>\<open>while(tmp >>= 1 != 0) size *= 2\<close>. \<^verbatim>\<open>!=\<close> binds stronger than \<^verbatim>\<open>>>=\<close>, but \<^verbatim>\<open>1 != 0\<close> is
  1. A negative number stays negative under the shift.
\<close>

function grow_window :: "int \<Rightarrow> int \<Rightarrow> int res" where
  "grow_window tmp size' =
    (if tmp < 0 then Inl (Diverge ''DiskCache::page_cache_readahead'')
     else if tmp div 2 = 0 then Inr size'
     else grow_window (tmp div 2) (size' * 2))"
  by pat_completeness auto
termination by (relation "measure (\<lambda>(tmp, _). nat tmp)") auto

declare grow_window.simps [simp del]

text \<open>A new ahead window that follows the current one.\<close>

definition new_ahead :: "file_ra_state \<Rightarrow> file_ra_state" where
  "new_ahead ra =
    ra\<lparr>ahead_start := ra_start ra + ra_size ra,
       ahead_size := (if RA_FLAG_MISS ra then (if ra_size ra - 2 > 4 then ra_size ra - 2 else 4)
                      else (if 2 * ra_size ra > MAX_RA then MAX_RA else 2 * ra_size ra))\<rparr>"

text \<open>The ahead window becomes the current one and is followed by a new one.\<close>

definition advance_window :: "file_ra_state \<Rightarrow> file_ra_state" where
  "advance_window ra = new_ahead (ra\<lparr>ra_start := ahead_start ra, ra_size := ahead_size ra\<rparr>)"

definition page_cache_readahead :: "int \<Rightarrow> int \<Rightarrow> file_ra_state \<Rightarrow> file_ra_state res" where
  "page_cache_readahead s len ra =
    (if ra_size ra = -1 \<or> RA_FLAG_INCACHE ra then Inr (ra\<lparr>started_ra_range := 0\<rparr>)
     else if s = 0 \<and> prev_page ra = -1 then
       bindR (grow_window (len - 1) 2) (\<lambda>size'.
       Inr (ra\<lparr>ra_size := (if size' > ra_pages ra then ra_pages ra else size'), prev_page := len - 1\<rparr>))
     else if s = prev_page ra \<and> len = 1 then Inr ra
     else bindR
       (if s = prev_page ra + 1 then
          if ra_size ra = -1 then
            bindR (grow_window (len - 1) 2) (\<lambda>size'.
            Inr (ra\<lparr>ra_start := s, ra_size := (if size' > ra_pages ra then ra_pages ra else size')\<rparr>))
          else
            let ra = (if ahead_size ra = 0 then new_ahead (ra\<lparr>start_IO_ahead_window := True\<rparr>) else ra);
                ra = (if s + len > ahead_start ra then advance_window (ra\<lparr>start_IO_ahead_window := True\<rparr>) else ra)
            in Inr ra
        else Inr (ra\<lparr>ra_start := s, ra_size := -1, ahead_start := 0, ahead_size := 0\<rparr>))
       (\<lambda>ra. Inr (ra\<lparr>prev_page := s + len - 1\<rparr>)))"

text \<open>The windows move on if the requested range ends behind the current one.\<close>

definition cover_range :: "pr_t \<Rightarrow> file_ra_state \<Rightarrow> file_ra_state" where
  "cover_range pr ra =
    (if ra_start ra + ra_size ra < pr_end pr \<and> \<not> start_IO_ahead_window ra
     then let ra = ra\<lparr>start_IO_ahead_window := True\<rparr>
          in advance_window (if ahead_size ra = 0 then new_ahead ra else ra)
     else ra)"

definition ra_limit :: "file_ra_state \<Rightarrow> int" where
  "ra_limit ra =
    (if start_IO_ahead_window ra then ahead_start ra + ahead_size ra else ra_start ra + ra_size ra)"

text \<open>
  The requested range, extended by the pages to read ahead, and the range of these pages, if any;
  the caller allocates it and stores its address in \<^verbatim>\<open>readahead_list\<close>, which the constructor has
  set to \<^verbatim>\<open>NULL\<close>.
\<close>

definition setReadahead :: "pr_t \<Rightarrow> file_ra_state \<Rightarrow> pr_t \<times> pr_t option \<times> file_ra_state" where
  "setReadahead pr ra =
    (if ra_size ra = -1 \<or> RA_FLAG_INCACHE ra then (pr, None, ra\<lparr>started_ra_range := 0\<rparr>)
     else
       let ra = cover_range pr ra;
           ra_end = ra_limit ra;
           ra = ra\<lparr>start_IO_ahead_window := False\<rparr>
       in if started_ra_range ra < ra_end \<and> pr_end pr < ra_end
          then (pr\<lparr>pr_end := ra_end\<rparr>, Some (new_pr (pr_fileid pr) (pr_end pr) ra_end (PG_dirty pr) None None),
                ra\<lparr>started_ra_range := ra_end\<rparr>)
          else (pr\<lparr>readahead_list := None\<rparr>, None, ra))"

definition update_flag_incache :: "int \<Rightarrow> int \<Rightarrow> bool \<Rightarrow> file_ra_state \<Rightarrow> file_ra_state" where
  "update_flag_incache s len hit ra =
    (if hit then
       let ra = ra\<lparr>cache_hit := cache_hit ra + len\<rparr>
       in if cache_hit ra \<ge> RA_FLAG_INCACHE_SEILING
          then ra\<lparr>RA_FLAG_INCACHE := True, ahead_start := 0, ahead_size := 0, cache_hit := 0\<rparr>
          else ra
     else ra\<lparr>cache_hit := 0, RA_FLAG_INCACHE := False\<rparr>)"


section \<open>Runs of the read ahead of a file\<close>

text \<open>
  What the cache does with the state: a read request goes through both functions
  (\<^verbatim>\<open>handlePageReq\<close>), an access to the cache or to the disk updates the flag (\<^verbatim>\<open>readCache\<close>).
\<close>

datatype ra_event = RaRead int int | RaAccess int int bool

definition ra_read :: "int \<Rightarrow> int \<Rightarrow> file_ra_state \<Rightarrow> (pr_t \<times> pr_t option \<times> file_ra_state) res" where
  "ra_read s len ra = bindR (page_cache_readahead s len ra) (\<lambda>ra. Inr (setReadahead (new_pr 0 s (s + len) False None None) ra))"

fun ra_step :: "ra_event \<Rightarrow> file_ra_state \<Rightarrow> file_ra_state res" where
  "ra_step (RaRead s len) ra = bindR (ra_read s len ra) (\<lambda>(_, _, ra). Inr ra)"
| "ra_step (RaAccess s len hit) ra = Inr (update_flag_incache s len hit ra)"

fun ra_event_ok :: "ra_event \<Rightarrow> bool" where
  "ra_event_ok (RaRead s len) \<longleftrightarrow> 0 \<le> s \<and> 0 < len"
| "ra_event_ok (RaAccess s len hit) \<longleftrightarrow> 0 < len"

text \<open>
  The windows: the ahead window follows the current one, both have at most \<open>MAX_RA\<close> pages, and the
  current one starts at or before the page after the last request.
\<close>

definition ra_ok :: "file_ra_state \<Rightarrow> bool" where
  "ra_ok ra \<longleftrightarrow>
     ra_pages ra = POSIX_FADV_SEQUENTIAL \<and> \<not> RA_FLAG_MISS ra \<and> \<not> start_IO_ahead_window ra \<and>
     0 \<le> ahead_size ra \<and> ahead_size ra \<le> MAX_RA \<and> -1 \<le> prev_page ra \<and>
     (ra_size ra = -1 \<and> ahead_size ra = 0 \<or>
      0 \<le> ra_size ra \<and> ra_size ra \<le> MAX_RA \<and> 0 \<le> ra_start ra \<and> ra_start ra \<le> prev_page ra + 1 \<and>
      (ahead_size ra \<noteq> 0 \<longrightarrow> ahead_start ra = ra_start ra + ra_size ra) \<and>
      (prev_page ra = -1 \<longleftrightarrow> ra_size ra = 0) \<and> (ra_size ra = 0 \<longrightarrow> ahead_size ra = 0))"

lemma grow_window_ok:
  "0 \<le> tmp \<Longrightarrow> \<exists>size'. grow_window tmp sz = Inr size' \<and> (0 < sz \<longrightarrow> sz \<le> size')"
proof (induction tmp sz rule: grow_window.induct)
  case (1 tmp sz)
  show ?case
  proof (cases "tmp div 2 = 0")
    case True then show ?thesis using "1.prems" by (subst grow_window.simps) simp
  next
    case False
    then show ?thesis using "1.IH" "1.prems"
      by (subst grow_window.simps) fastforce
  qed
qed

lemmas ra_defs = ra_ok_def new_ahead_def advance_window_def Let_def general_h POSIX_FADV_SEQUENTIAL_def

lemma page_cache_readahead_ok:
  assumes "ra_ok ra" "0 \<le> s" "0 < len" "ra_size ra \<noteq> -1" "\<not> RA_FLAG_INCACHE ra"
  shows "\<exists>ra'. page_cache_readahead s len ra = Inr ra' \<and> ra_ok (ra'\<lparr>start_IO_ahead_window := False\<rparr>) \<and>
    (ra_size ra' \<noteq> -1 \<longrightarrow> ra_start ra' \<le> s + len) \<and> (ra_size ra' = -1 \<longrightarrow> \<not> start_IO_ahead_window ra') \<and>
    (start_IO_ahead_window ra' \<longrightarrow> ahead_start ra' = ra_start ra' + ra_size ra') \<and> RA_FLAG_INCACHE ra' = RA_FLAG_INCACHE ra \<and>
    (ra_size ra' \<noteq> -1 \<longrightarrow> s + len \<le> prev_page ra' + 1)"
proof -
  obtain sz where sz: "grow_window (len - 1) 2 = Inr sz" "2 \<le> sz"
    using grow_window_ok [of "len - 1" 2] assms(3) by auto
  consider (first) "s = 0 \<and> prev_page ra = -1" | (same) "\<not> (s = 0 \<and> prev_page ra = -1)" "s = prev_page ra \<and> len = 1"
    | (seq) "\<not> (s = 0 \<and> prev_page ra = -1)" "\<not> (s = prev_page ra \<and> len = 1)" "s = prev_page ra + 1"
    | (random) "\<not> (s = 0 \<and> prev_page ra = -1)" "\<not> (s = prev_page ra \<and> len = 1)" "s \<noteq> prev_page ra + 1"
    by blast
  then show ?thesis
  proof cases
    case first
    then show ?thesis using assms sz by (auto simp: page_cache_readahead_def ra_defs)
  next
    case same
    then show ?thesis using assms by (auto simp: page_cache_readahead_def ra_defs)
  next
    case seq
    then have "prev_page ra \<noteq> -1" using assms(2) by auto
    then show ?thesis using seq assms by (auto simp: page_cache_readahead_def ra_defs)
  next
    case random
    then show ?thesis using assms by (auto simp: page_cache_readahead_def ra_defs)
  qed
qed

lemma advance_window_ok:
  assumes "ra_ok (ra\<lparr>start_IO_ahead_window := False\<rparr>)" "ra_size ra \<noteq> -1" "ra_start ra + ra_size ra \<le> prev_page ra + 1"
    "prev_page ra \<noteq> -1"
  shows "ra_ok (advance_window (if ahead_size ra = 0 then new_ahead ra else ra)\<lparr>start_IO_ahead_window := False\<rparr>) \<and>
    ra_start (advance_window (if ahead_size ra = 0 then new_ahead ra else ra)) = ra_start ra + ra_size ra \<and>
    (let ra' = advance_window (if ahead_size ra = 0 then new_ahead ra else ra) in ahead_start ra' = ra_start ra' + ra_size ra')"
  using assms by (auto simp: ra_defs)

definition ra_extension :: "pr_t \<Rightarrow> pr_t \<Rightarrow> pr_t option \<Rightarrow> bool" where
  "ra_extension pr pr' r \<longleftrightarrow>
     (case r of None \<Rightarrow> pr_end pr' = pr_end pr
      | Some c \<Rightarrow> pr_end pr < pr_end pr' \<and> pr_end pr' \<le> pr_end pr + 2 * MAX_RA \<and>
          pr_start c = pr_end pr \<and> pr_end c = pr_end pr')"


lemma setReadahead_ok:
  assumes "ra_ok (ra\<lparr>start_IO_ahead_window := False\<rparr>)" "ra_size ra \<noteq> -1 \<longrightarrow> ra_start ra \<le> pr_end pr" "pr_end pr \<le> prev_page ra + 1"
    and eq: "setReadahead pr ra = (pr', r, ra')" and "ra_size ra \<noteq> -1" "\<not> RA_FLAG_INCACHE ra"
    and io: "start_IO_ahead_window ra \<longrightarrow> ahead_start ra = ra_start ra + ra_size ra"
  shows "ra_ok ra' \<and> ra_extension pr pr' r"
proof -
  have False: "\<not> (ra_size ra = -1 \<or> RA_FLAG_INCACHE ra)" using assms(5,6) by simp
  define ra1 where "ra1 = cover_range pr ra"
  define ra_end where "ra_end = ra_limit ra1"
  have eq': "(pr', r, ra') =
     (if started_ra_range ra1 < ra_end \<and> pr_end pr < ra_end
      then (pr\<lparr>pr_end := ra_end\<rparr>, Some (new_pr (pr_fileid pr) (pr_end pr) ra_end (PG_dirty pr) None None),
            ra1\<lparr>start_IO_ahead_window := False, started_ra_range := ra_end\<rparr>)
      else (pr\<lparr>readahead_list := None\<rparr>, None, ra1\<lparr>start_IO_ahead_window := False\<rparr>))"
    using eq unfolding setReadahead_def if_not_P [OF False] ra1_def ra_end_def by (simp add: Let_def)
  have ok1: "ra_ok (ra1\<lparr>start_IO_ahead_window := False\<rparr>) \<and> ra_start ra1 \<le> pr_end pr \<and>
      (start_IO_ahead_window ra1 \<longrightarrow> ahead_start ra1 = ra_start ra1 + ra_size ra1)"
  proof (cases "ra_start ra + ra_size ra < pr_end pr \<and> \<not> start_IO_ahead_window ra")
    case True
    have prev: "prev_page ra \<noteq> -1" using True False assms(1,3) by (auto simp: ra_ok_def)
    have "ra_ok (ra\<lparr>start_IO_ahead_window := True, start_IO_ahead_window := False\<rparr>)" using assms(1) by simp
    from advance_window_ok [of "ra\<lparr>start_IO_ahead_window := True\<rparr>", simplified, OF _ _ _ prev] this False True assms(3)
    show ?thesis by (auto simp: ra1_def cover_range_def Let_def)
  next
    case n: False
    then have "ra1 = ra" by (simp add: ra1_def cover_range_def del: de_Morgan_conj)
    with assms(1,2) False io show ?thesis by simp
  qed
  have "ra_end \<le> pr_end pr + 2 * MAX_RA"
    using ok1 by (auto simp: ra_end_def ra_limit_def ra_defs)
  note bound = this
  show ?thesis
  proof (cases "started_ra_range ra1 < ra_end \<and> pr_end pr < ra_end")
    case True
    then show ?thesis using eq' ok1 bound by (simp add: ra_extension_def new_pr_def) (simp add: ra_ok_def)
  next
    case False
    have "(pr', r, ra') = (pr\<lparr>readahead_list := None\<rparr>, None, ra1\<lparr>start_IO_ahead_window := False\<rparr>)"
      using eq' unfolding if_not_P [OF False] .
    then show ?thesis using ok1 by (simp add: ra_extension_def)
  qed
qed


lemma ra_read_ok:
  assumes "ra_ok ra" "0 \<le> s" "0 < len"
  shows "\<exists>pr' r ra'. ra_read s len ra = Inr (pr', r, ra') \<and> ra_ok ra' \<and>
    ra_extension (new_pr 0 s (s + len) False None None) pr' r"
proof (cases "ra_size ra = -1 \<or> RA_FLAG_INCACHE ra")
  case True
  have "ra_ok (ra\<lparr>started_ra_range := 0\<rparr>)" using assms(1) by (simp add: ra_ok_def)
  then show ?thesis using True
    by (auto simp: ra_read_def page_cache_readahead_def setReadahead_def ra_extension_def)
next
  case False
  let ?pr = "new_pr 0 s (s + len) False None None"
  have pe: "pr_end ?pr = s + len" by (simp add: new_pr_def)
  obtain ra1 where ra1: "page_cache_readahead s len ra = Inr ra1" "ra_ok (ra1\<lparr>start_IO_ahead_window := False\<rparr>)"
      "ra_size ra1 \<noteq> -1 \<longrightarrow> ra_start ra1 \<le> s + len" "ra_size ra1 = -1 \<longrightarrow> \<not> start_IO_ahead_window ra1"
      "start_IO_ahead_window ra1 \<longrightarrow> ahead_start ra1 = ra_start ra1 + ra_size ra1" "\<not> RA_FLAG_INCACHE ra1"
      "ra_size ra1 \<noteq> -1 \<longrightarrow> s + len \<le> prev_page ra1 + 1"
    using page_cache_readahead_ok [OF assms] False by auto
  obtain pr' r ra2 where r: "setReadahead ?pr ra1 = (pr', r, ra2)" by (metis prod_cases3)
  have "ra_ok ra2 \<and> ra_extension ?pr pr' r"
  proof (cases "ra_size ra1 = -1")
    case True
    then have "ra2 = ra1\<lparr>started_ra_range := 0\<rparr>" "pr' = ?pr" "r = None" using r by (auto simp: setReadahead_def)
    moreover have "ra1\<lparr>start_IO_ahead_window := False\<rparr> = ra1" using ra1(4) True by simp
    ultimately show ?thesis using ra1(2) by (simp add: ra_extension_def ra_ok_def)
  next
    case n: False
    show ?thesis by (rule setReadahead_ok [OF ra1(2) _ _ r n ra1(6,5)]) (use ra1 n pe in auto)
  qed
  then show ?thesis using ra1(1) r by (simp add: ra_read_def)
qed

lemma update_flag_incache_ok: "ra_ok ra \<Longrightarrow> ra_ok (update_flag_incache s len hit ra)"
  by (auto simp: update_flag_incache_def ra_defs)

lemma ra_step_ok: "ra_ok ra \<Longrightarrow> ra_event_ok e \<Longrightarrow> \<exists>ra'. ra_step e ra = Inr ra' \<and> ra_ok ra'"
  using ra_read_ok by (cases e) (fastforce intro: update_flag_incache_ok)+

lemma ra_run_ok: "ra_ok ra \<Longrightarrow> list_all ra_event_ok es \<Longrightarrow> \<exists>ra'. run_res ra_step es ra = Inr ra' \<and> ra_ok ra'"
proof (induction es arbitrary: ra)
  case (Cons e es)
  from ra_step_ok [OF Cons.prems(1)] Cons.prems(2) obtain ra1 where "ra_step e ra = Inr ra1" "ra_ok ra1" by auto
  with Cons show ?case by auto
qed simp

lemma new_ra_ok: "ra_ok new_ra"
  by (simp add: new_ra_def ra_defs)

text \<open>
  Claim C38. The read ahead of a file is bounded. After any run of reads and accesses the windows
  are in their bounds and adjacent, the next read succeeds, and it is extended, if at all, by at
  most two windows of \<^verbatim>\<open>MAX_RA\<close> pages directly behind the requested ones, which are the range
  given to \<^verbatim>\<open>readahead_list\<close>.
\<close>

theorem readahead_bounded:
  assumes "list_all ra_event_ok es" "0 \<le> s" "0 < len"
  shows "\<exists>ra pr' r ra'. run_res ra_step es new_ra = Inr ra \<and> ra_ok ra \<and> ra_read s len ra = Inr (pr', r, ra') \<and>
    ra_extension (new_pr 0 s (s + len) False None None) pr' r"
  using ra_run_ok [OF new_ra_ok assms(1)] ra_read_ok [OF _ assms(2,3)] by blast

theorem readahead_bounded_witness:
  "\<exists>ra pr' r ra'. run_res ra_step [RaRead 0 4, RaAccess 0 4 False] new_ra = Inr ra \<and> ra_ok ra \<and>
    ra_read 4 4 ra = Inr (pr', r, ra') \<and> ra_extension (new_pr 0 4 (4 + 4) False None None) pr' r"
  by (rule readahead_bounded) simp_all

lemma ra_disabled_step: "ra_size ra = -1 \<Longrightarrow> ra_step e ra = Inr ra' \<Longrightarrow> ra_size ra' = -1"
  by (cases e) (auto simp: ra_read_def page_cache_readahead_def setReadahead_def update_flag_incache_def Let_def split: if_splits)

lemma ra_disabled_run: "ra_size ra = -1 \<Longrightarrow> run_res ra_step es ra = Inr ra' \<Longrightarrow> ra_size ra' = -1"
  by (rule run_res_invariant [where P = "\<lambda>ra. ra_size ra = -1"]) (auto intro: ra_disabled_step)

text \<open>
  Claim C39. One read at an unexpected place stops the read ahead of the file for ever. The size
  -1 is meant to disable it until the next sequential access (\<^verbatim>\<open>DiskCache.cc\<close> line 116), but
  line 90 takes it for a permanent disablement and returns first: whatever follows, no read is
  extended any more.
\<close>

theorem random_access_stops_readahead:
  assumes "\<not> RA_FLAG_INCACHE ra" "ra_size ra \<noteq> -1" "s \<noteq> 0 \<or> prev_page ra \<noteq> -1"
    and "s \<noteq> prev_page ra" "s \<noteq> prev_page ra + 1"
    and "run_res ra_step (RaRead s len # es) ra = Inr ra'"
  shows "\<exists>ra''. ra_read s' len' ra' = Inr (new_pr 0 s' (s' + len') False None None, None, ra'')"
proof -
  obtain ra1 where "ra_step (RaRead s len) ra = Inr ra1" "run_res ra_step es ra1 = Inr ra'" using assms(6) by auto
  moreover from this(1) have "ra_size ra1 = -1"
    using assms(1-5) by (auto simp: ra_read_def page_cache_readahead_def setReadahead_def split: if_splits)
  ultimately have "ra_size ra' = -1" by (blast intro: ra_disabled_run)
  then show ?thesis by (simp add: ra_read_def page_cache_readahead_def setReadahead_def)
qed

theorem random_access_stops_readahead_witness:
  "\<exists>ra''. ra_read 13 4 (new_ra\<lparr>prev_page := 12, ra_start := 9, ra_size := -1\<rparr>) =
     Inr (new_pr 0 13 (13 + 4) False None None, None, ra'')"
  by (rule random_access_stops_readahead [where s = 9 and len = 4 and es = "[]" and ra = "new_ra\<lparr>prev_page := 3\<rparr>"])
    (simp_all add: new_ra_def ra_read_def page_cache_readahead_def setReadahead_def)

end
