(* ===== verification/DiskCache.thy ===== *)
theory DiskCache
  imports ReadAhead
begin

text \<open>
  \<^verbatim>\<open>dserver/diskcache/DiskCache.cc\<close>: the page cache of a data server. The page ranges live in a
  heap, a map from addresses to their contents: a file has a doubly linked list of its cached
  ranges in the order of their pages, and all cached ranges are in one doubly linked list in the
  order of their last use. An access through \<^verbatim>\<open>NULL\<close> or through the address of a deleted range is
  a fault.
\<close>

definition DEFAULT_PAGE_FREE_BATCH :: int where "DEFAULT_PAGE_FREE_BATCH = 32"
definition BG_WRITEOUT_ID :: int where "BG_WRITEOUT_ID = -1"
definition RA_SUBID :: int where "RA_SUBID = 100000"

lemmas cache_h = DEFAULT_PAGE_FREE_BATCH_def BG_WRITEOUT_ID_def RA_SUBID_def

record file_t =
  f_id :: int
  o_sync :: bool
  o_direct :: bool
  f_ra :: file_ra_state
  pr_head :: ptr
  pr_last :: ptr

datatype dc_out = DcToLfs PageRequest | DcToVfs PageRequest | DcCacheAt real | DcExpireAt real

text \<open>
  A request of the queue is known by the number of its arrival, which stands for the address of
  its message; \<^verbatim>\<open>bg_writeout\<close> has the number 0. \<open>bg_writeout\<close> is the message of the background
  write out, unless it is disabled, \<open>bg_scheduled\<close> and \<open>ca_scheduled\<close> tell whether the two timers
  are scheduled, and \<open>dc_outs\<close> collects what the running handler sends.
\<close>

record dcache =
  total_usable_pages :: int
  free_pages :: int
  dirty_pages :: int
  dirty_threshold :: int
  dirty_background_threshold :: int
  dirty_expire_secs :: real
  bg_writeout_active :: bool
  disable_ra :: bool
  writeout_batch :: int
  diskread_batch :: int
  trimCacheCounter :: int
  trimCacheInt :: int
  lru_list :: ptr
  lru_list_end :: ptr
  cacheAccess :: PageRequest
  ca_scheduled :: bool
  bg_writeout :: "PageRequest option"
  bg_scheduled :: bool
  reqQ :: "(nat \<times> PageRequest) list"
  prs :: "nat \<Rightarrow> nat option"
  files :: "int \<Rightarrow> file_t option"
  fileIDs :: "int list"
  cache_r_speed :: real
  cache_w_speed :: real
  heap :: "nat \<Rightarrow> pr_t option"
  heap_next :: nat
  req_next :: nat
  dc_outs :: "dc_out list"

section \<open>The heap of page ranges\<close>

definition deref :: "ptr \<Rightarrow> dcache \<Rightarrow> pr_t res" where
  "deref p s =
    (case p of None \<Rightarrow> Inl (NullDeref ''DiskCache'')
     | Some a \<Rightarrow> (case heap s a of None \<Rightarrow> Inl (UseAfterFree ''DiskCache'') | Some c \<Rightarrow> Inr c))"

definition store :: "ptr \<Rightarrow> (pr_t \<Rightarrow> pr_t) \<Rightarrow> dcache \<Rightarrow> dcache res" where
  "store p f s = bindR (deref p s) (\<lambda>c. Inr (s\<lparr>heap := (heap s)(the p \<mapsto> f c)\<rparr>))"

text \<open>The same for a pointer that the code tests for \<^verbatim>\<open>NULL\<close> first.\<close>

definition store_if :: "ptr \<Rightarrow> (pr_t \<Rightarrow> pr_t) \<Rightarrow> dcache \<Rightarrow> dcache res" where
  "store_if p f s = (if p = None then Inr s else store p f s)"

definition alloc :: "pr_t \<Rightarrow> dcache \<Rightarrow> ptr \<times> dcache" where
  "alloc c s = (Some (heap_next s), s\<lparr>heap := (heap s)(heap_next s \<mapsto> c), heap_next := Suc (heap_next s)\<rparr>)"

definition free_pr :: "ptr \<Rightarrow> dcache \<Rightarrow> dcache res" where
  "free_pr p s = (case p of None \<Rightarrow> Inr s | Some a \<Rightarrow> bindR (deref p s) (\<lambda>c. Inr (s\<lparr>heap := (heap s)(a := None)\<rparr>)))"

text \<open>The \<^verbatim>\<open>file_t\<close> of a file; \<^verbatim>\<open>files->find(fid)->second\<close> without a test for \<^verbatim>\<open>end()\<close>.\<close>

definition file_of :: "int \<Rightarrow> dcache \<Rightarrow> file_t res" where
  "file_of fid s = (case files s fid of None \<Rightarrow> Inl (NullDeref ''DiskCache'') | Some f \<Rightarrow> Inr f)"

definition upd_file :: "int \<Rightarrow> (file_t \<Rightarrow> file_t) \<Rightarrow> dcache \<Rightarrow> dcache" where
  "upd_file fid f s = s\<lparr>files := (files s)(fid := map_option f (files s fid))\<rparr>"

section \<open>The LRU list\<close>

definition lru_push :: "ptr \<Rightarrow> dcache \<Rightarrow> dcache res" where
  "lru_push new_p s =
    (if new_p = None then Inl (Abort ''DiskCache'')
     else bindR (store new_p (\<lambda>c. c\<lparr>lru_prev := None, lru_next := lru_list s\<rparr>) s) (\<lambda>s.
          bindR (if lru_list s \<noteq> None then store (lru_list s) (\<lambda>c. c\<lparr>lru_prev := new_p\<rparr>) s
                 else Inr (s\<lparr>lru_list_end := new_p\<rparr>)) (\<lambda>s.
          Inr (s\<lparr>lru_list := new_p\<rparr>))))"

definition lru_insert :: "ptr \<Rightarrow> ptr \<Rightarrow> dcache \<Rightarrow> dcache res" where
  "lru_insert pr1 pr2 s =
    bindR (deref pr2 s) (\<lambda>c2.
    bindR (store pr1 (\<lambda>c. c\<lparr>lru_prev := lru_prev c2\<rparr>) s) (\<lambda>s.
    bindR (store pr2 (\<lambda>c. c\<lparr>lru_prev := pr1\<rparr>) s) (\<lambda>s.
    bindR (store pr1 (\<lambda>c. c\<lparr>lru_next := pr2\<rparr>) s) (\<lambda>s.
    bindR (deref pr1 s) (\<lambda>c1.
      if lru_prev c1 \<noteq> None then store (lru_prev c1) (\<lambda>c. c\<lparr>lru_next := pr1\<rparr>) s
      else Inr (s\<lparr>lru_list := pr1\<rparr>))))))"

definition lru_substitute :: "ptr \<Rightarrow> ptr \<Rightarrow> dcache \<Rightarrow> dcache res" where
  "lru_substitute pr1 pr2 s =
    bindR (deref pr2 s) (\<lambda>c2.
    bindR (store pr1 (\<lambda>c. c\<lparr>lru_next := lru_next c2, lru_prev := lru_prev c2\<rparr>) s) (\<lambda>s.
    bindR (if lru_next c2 = None then Inr (s\<lparr>lru_list_end := pr1\<rparr>)
           else store (lru_next c2) (\<lambda>c. c\<lparr>lru_prev := pr1\<rparr>) s) (\<lambda>s.
    bindR (deref pr1 s) (\<lambda>c1.
      if lru_prev c1 = None then Inr (s\<lparr>lru_list := pr1\<rparr>)
      else store (lru_prev c1) (\<lambda>c. c\<lparr>lru_next := pr1\<rparr>) s))))"

text \<open>
  The loops over a list run with fuel; a list has at most as many elements as addresses were ever
  allocated, so \<^verbatim>\<open>heap_next\<close> turns and one for its end are enough.
\<close>

fun lru_find :: "nat \<Rightarrow> pr_t \<Rightarrow> ptr \<Rightarrow> dcache \<Rightarrow> ptr res" where
  "lru_find 0 d p s = Inl (Diverge ''DiskCache::lru_delete'')"
| "lru_find (Suc n) d p s =
     (if p = None then Inr None
      else bindR (deref p s) (\<lambda>c.
        if pr_start c = pr_start d \<and> pr_end c = pr_end d \<and> pr_fileid c = pr_fileid d then Inr p
        else lru_find n d (lru_prev c) s))"

definition lru_unlink :: "ptr \<Rightarrow> dcache \<Rightarrow> dcache res" where
  "lru_unlink p s =
    bindR (deref p s) (\<lambda>c.
    bindR (if lru_prev c \<noteq> None then store (lru_prev c) (\<lambda>d. d\<lparr>lru_next := lru_next c\<rparr>) s
           else Inr (s\<lparr>lru_list := lru_next c\<rparr>)) (\<lambda>s.
    bindR (deref p s) (\<lambda>c.
      if lru_next c \<noteq> None then store (lru_next c) (\<lambda>d. d\<lparr>lru_prev := lru_prev c\<rparr>) s
      else Inr (s\<lparr>lru_list_end := lru_prev c\<rparr>))))"

definition lru_delete :: "ptr \<Rightarrow> dcache \<Rightarrow> dcache res" where
  "lru_delete del_p s =
    (if del_p = None then Inl (Abort ''DiskCache'')
     else bindR (deref del_p s) (\<lambda>d.
          bindR (lru_find (Suc (heap_next s)) d (lru_list_end s) s) (\<lambda>p.
            if p = None then Inl (Abort ''DiskCache'') else lru_unlink p s)))"

section \<open>The page table of a file\<close>

fun pagetable_find :: "nat \<Rightarrow> pr_t \<Rightarrow> ptr \<Rightarrow> dcache \<Rightarrow> ptr res" where
  "pagetable_find 0 d p s = Inl (Diverge ''DiskCache::pagetable_delete'')"
| "pagetable_find (Suc n) d p s =
     (if p = None then Inr None
      else bindR (deref p s) (\<lambda>c.
        if pr_start c = pr_start d \<and> pr_end c = pr_end d then Inr p
        else pagetable_find n d (pr_next c) s))"

definition pagetable_unlink :: "int \<Rightarrow> ptr \<Rightarrow> dcache \<Rightarrow> dcache res" where
  "pagetable_unlink fid p s =
    bindR (deref p s) (\<lambda>c.
    bindR (if pr_prev c \<noteq> None then store (pr_prev c) (\<lambda>d. d\<lparr>pr_next := pr_next c\<rparr>) s
           else Inr (upd_file fid (\<lambda>f. f\<lparr>pr_head := pr_next c\<rparr>) s)) (\<lambda>s.
    bindR (deref p s) (\<lambda>c.
      store_if (pr_next c) (\<lambda>d. d\<lparr>pr_prev := pr_prev c\<rparr>) s)))"

definition pagetable_delete :: "ptr \<Rightarrow> dcache \<Rightarrow> dcache res" where
  "pagetable_delete pr s =
    (if pr = None then Inl (Abort ''DiskCache'')
     else bindR (deref pr s) (\<lambda>d.
          bindR (file_of (pr_fileid d) s) (\<lambda>f.
          bindR (pagetable_find (Suc (heap_next s)) d (pr_head f) s) (\<lambda>p.
            if p = None then Inl (Abort ''DiskCache'') else pagetable_unlink (pr_fileid d) p s))))"

text \<open>The loop of \<^verbatim>\<open>lru_free_pages\<close>, from the least recently used range; it returns the pages still to free.\<close>

fun free_loop :: "nat \<Rightarrow> ptr \<Rightarrow> int \<Rightarrow> dcache \<Rightarrow> (int \<times> dcache) res" where
  "free_loop 0 pr n s = Inl (Diverge ''DiskCache::lru_free_pages'')"
| "free_loop (Suc k) pr n s =
     (if pr = None \<or> n = 0 then Inr (n, s)
      else bindR (deref pr s) (\<lambda>c.
        if \<not> (PG_dirty c \<or> PG_locked c \<or> pr_count c \<noteq> 0) then
          if pr_end c - pr_start c \<le> n then
            bindR (pagetable_delete pr s) (\<lambda>s.
            bindR (lru_delete pr s) (\<lambda>s.
            bindR (free_pr pr s) (\<lambda>s.
            free_loop k (lru_prev c) (n - (pr_end c - pr_start c)) s)))
          else bindR (store pr (\<lambda>c. c\<lparr>pr_start := pr_start c + n\<rparr>) s) (\<lambda>s. free_loop k (lru_prev c) 0 s)
        else free_loop k (lru_prev c) n s))"

definition lru_free_pages :: "int \<Rightarrow> dcache \<Rightarrow> (bool \<times> dcache) res" where
  "lru_free_pages n s =
    bindR (free_loop (Suc (heap_next s)) (lru_list_end s) n s) (\<lambda>(n', s).
    Inr (n' = 0, s\<lparr>free_pages := free_pages s + (n - n')\<rparr>))"


section \<open>Walking the cache\<close>

text \<open>
  The pages of the interval that are not cached. \<open>count_loop\<close> carries the interval left and the
  pages missed so far, which are an \<^verbatim>\<open>int\<close>.
\<close>

fun count_loop :: "nat \<Rightarrow> ptr \<Rightarrow> int \<Rightarrow> int \<Rightarrow> int \<Rightarrow> dcache \<Rightarrow> int res" where
  "count_loop 0 p st en miss s = Inl (Diverge ''DiskCache::walkCache_countMissing'')"
| "count_loop (Suc n) p st en miss s =
     (if p = None then Inr (to_int32 (miss + (en - st)))
      else bindR (deref p s) (\<lambda>c.
        if st < pr_start c \<and> en \<le> pr_start c then Inr (to_int32 (miss + (en - st)))
        else
          let miss = (if st < pr_start c then to_int32 (miss + (pr_start c - st)) else miss);
              st = (if st < pr_start c then pr_start c else st)
          in if st < pr_end c \<and> en < pr_end c then Inr miss
             else let st = (if st < pr_end c then pr_end c else st)
                  in if st = en then Inr miss else count_loop n (pr_next c) st en miss s))"

definition walkCache_countMissing :: "int \<Rightarrow> int \<Rightarrow> int \<Rightarrow> dcache \<Rightarrow> int res" where
  "walkCache_countMissing fid st en s =
    bindR (file_of fid s) (\<lambda>f. count_loop (Suc (heap_next s)) (pr_head f) st en 0 s)"

text \<open>
  \<open>preop\<close> tells whether the access is about to start or has ended, \<open>disk\<close> whether it is an access
  to the disk or to the cache. \<open>walk_miss\<close> adds the part of \<open>addp\<close> before \<open>cachedp\<close> to the cache. It
  returns what is left of \<open>addp\<close>, if anything is, and the new range.
\<close>

definition walk_miss :: "int \<Rightarrow> bool \<Rightarrow> bool \<Rightarrow> bool \<Rightarrow> pr_t \<Rightarrow> ptr \<Rightarrow> ptr \<Rightarrow> dcache \<Rightarrow> (pr_t option \<times> ptr \<times> dcache) res" where
  "walk_miss fid preop disk r addp precachedp cachedp s =
    (if \<not> preop \<or> preop \<and> disk \<and> \<not> r \<or> preop \<and> \<not> disk \<and> r then Inl (Abort ''DiskCache'')
     else
      let (tmp, s) = alloc ((copy_pr addp)\<lparr>PG_locked := True, PG_dirty := PG_dirty addp \<or> \<not> r\<rparr>) s
      in bindR (if cachedp \<noteq> None
                then bindR (store tmp (\<lambda>c. c\<lparr>pr_next := cachedp\<rparr>) s) (store cachedp (\<lambda>c. c\<lparr>pr_prev := tmp\<rparr>))
                else Inr s) (\<lambda>s.
      bindR (if precachedp \<noteq> None
             then bindR (store tmp (\<lambda>c. c\<lparr>pr_prev := precachedp\<rparr>) s) (store precachedp (\<lambda>c. c\<lparr>pr_next := tmp\<rparr>))
             else Inr (upd_file fid (\<lambda>f. f\<lparr>pr_head := tmp\<rparr>) s)) (\<lambda>s.
      bindR (if cachedp = None then Inr (None, s)
             else bindR (deref cachedp s) (\<lambda>c.
               if pr_end addp \<le> pr_start c then Inr (None, s)
               else bindR (store tmp (\<lambda>t. t\<lparr>pr_end := pr_start c\<rparr>) s) (\<lambda>s.
                    Inr (Some (addp\<lparr>pr_start := pr_start c\<rparr>), s)))) (\<lambda>(addp', s).
      bindR (deref tmp s) (\<lambda>t.
      bindR (if free_pages s < pr_end t - pr_start t
             then lru_free_pages (if pr_end t - pr_start t > DEFAULT_PAGE_FREE_BATCH
                                  then to_int32 (pr_end t - pr_start t) else DEFAULT_PAGE_FREE_BATCH) s
             else Inr (True, s)) (\<lambda>(_, s).
      bindR (deref tmp s) (\<lambda>t.
      bindR (lru_push tmp (s\<lparr>free_pages := free_pages s - (pr_end t - pr_start t),
                             dirty_pages := dirty_pages s + (if r then 0 else pr_end t - pr_start t)\<rparr>)) (\<lambda>s.
      Inr (addp', tmp, upd_file fid (\<lambda>f. f\<lparr>pr_last := precachedp\<rparr>) s)))))))))"

text \<open>The attributes of the range that replaces the touched part of the cached one.\<close>

definition hit_pr :: "bool \<Rightarrow> bool \<Rightarrow> bool \<Rightarrow> pr_t \<Rightarrow> pr_t \<Rightarrow> pr_t res" where
  "hit_pr preop disk r addp cached =
    (let t = copy_pr addp;
         t = (if \<not> disk \<and> \<not> r then t\<lparr>PG_dirty := True, PG_locked := preop\<rparr> else t)
     in if disk \<and> \<not> r \<and> \<not> PG_dirty t then Inl (Abort ''DiskCache'')
        else
          let t = (if disk \<and> \<not> r then
                     if preop then t\<lparr>PG_writeback := True\<rparr>
                     else t\<lparr>PG_writeback := False, PG_dirty := False, PG_locked := False\<rparr>
                   else t);
              t = (if \<not> preop \<and> disk \<and> r then t\<lparr>PG_locked := False\<rparr> else t);
              t = (if \<not> preop then t\<lparr>pr_count := pr_count t - 1\<rparr> else t);
              t = (if \<not> (disk \<and> \<not> r \<and> \<not> preop)
                   then t\<lparr>PG_dirty := PG_dirty t \<or> PG_dirty cached, pr_modified := pr_modified t \<or> pr_modified cached\<rparr>
                   else t)
          in Inr t)"

text \<open>
  \<open>walk_hit\<close> replaces the part of the cached range that \<open>addp\<close> touches by the new range \<open>tmp\<close>: the
  case of a touched part at the start of the cached range and of one further inside. They return
  what is left of \<open>addp\<close>, \<open>precachedp\<close> and \<open>cachedp\<close>. \<open>w\<close> tells whether the use counts for the LRU
  order.
\<close>

definition walk_hit_start :: "int \<Rightarrow> bool \<Rightarrow> pr_t \<Rightarrow> ptr \<Rightarrow> ptr \<Rightarrow> ptr \<Rightarrow> dcache \<Rightarrow> (pr_t option \<times> ptr \<times> ptr \<times> dcache) res" where
  "walk_hit_start fid w addp tmp precachedp cachedp s =
    bindR (if precachedp \<noteq> None
           then bindR (store tmp (\<lambda>c. c\<lparr>pr_prev := precachedp\<rparr>) s) (store precachedp (\<lambda>c. c\<lparr>pr_next := tmp\<rparr>))
           else Inr (upd_file fid (\<lambda>f. f\<lparr>pr_head := tmp\<rparr>) s)) (\<lambda>s.
    bindR (deref cachedp s) (\<lambda>c.
      if pr_end addp < pr_end c then
        bindR (store cachedp (\<lambda>c. c\<lparr>pr_start := pr_end addp\<rparr>) s) (\<lambda>s.
        bindR (store tmp (\<lambda>c. c\<lparr>pr_next := cachedp\<rparr>) s) (\<lambda>s.
        bindR (store cachedp (\<lambda>c. c\<lparr>pr_prev := tmp\<rparr>) s) (\<lambda>s.
        bindR (if w then lru_push tmp s else lru_insert tmp cachedp s) (\<lambda>s.
        Inr (None, precachedp, cachedp, s)))))
      else
        bindR (store tmp (\<lambda>t. t\<lparr>pr_end := pr_end c, pr_next := pr_next c\<rparr>) s) (\<lambda>s.
        bindR (store_if (pr_next c) (\<lambda>c. c\<lparr>pr_prev := tmp\<rparr>) s) (\<lambda>s.
        bindR (if w then bindR (lru_delete cachedp s) (lru_push tmp) else lru_substitute tmp cachedp s) (\<lambda>s.
        bindR (free_pr cachedp s) (\<lambda>s.
        Inr (Some (addp\<lparr>pr_start := pr_end c\<rparr>), precachedp, tmp, s)))))))"

definition walk_hit_inside :: "bool \<Rightarrow> pr_t \<Rightarrow> ptr \<Rightarrow> ptr \<Rightarrow> ptr \<Rightarrow> dcache \<Rightarrow> (pr_t option \<times> ptr \<times> ptr \<times> dcache) res" where
  "walk_hit_inside w addp tmp precachedp cachedp s =
    bindR (deref cachedp s) (\<lambda>c.
    bindR (deref tmp s) (\<lambda>t.
      if pr_end addp < pr_end c then
        let (tmp2, s) = alloc (copy_pr c) s
        in bindR (store cachedp (\<lambda>c. c\<lparr>pr_end := pr_start t\<rparr>) s) (\<lambda>s.
           bindR (store tmp2 (\<lambda>c. c\<lparr>pr_start := pr_end t\<rparr>) s) (\<lambda>s.
           bindR (store tmp2 (\<lambda>d. d\<lparr>pr_prev := tmp, pr_next := pr_next c\<rparr>) s) (\<lambda>s.
           bindR (store tmp (\<lambda>c. c\<lparr>pr_prev := cachedp, pr_next := tmp2\<rparr>) s) (\<lambda>s.
           bindR (store cachedp (\<lambda>c. c\<lparr>pr_next := tmp\<rparr>) s) (\<lambda>s.
           bindR (store_if (pr_next c) (\<lambda>c. c\<lparr>pr_prev := tmp2\<rparr>) s) (\<lambda>s.
           bindR (if w then bindR (lru_insert tmp2 cachedp s) (lru_push tmp)
                  else bindR (lru_insert tmp cachedp s) (lru_insert tmp2 tmp)) (\<lambda>s.
           Inr (None, precachedp, cachedp, s))))))))
      else
        bindR (store tmp (\<lambda>t. t\<lparr>pr_end := pr_end c\<rparr>) s) (\<lambda>s.
        bindR (store cachedp (\<lambda>c. c\<lparr>pr_end := pr_start t\<rparr>) s) (\<lambda>s.
        bindR (store tmp (\<lambda>t. t\<lparr>pr_prev := cachedp, pr_next := pr_next c\<rparr>) s) (\<lambda>s.
        bindR (store cachedp (\<lambda>c. c\<lparr>pr_next := tmp\<rparr>) s) (\<lambda>s.
        bindR (store_if (pr_next c) (\<lambda>c. c\<lparr>pr_prev := tmp\<rparr>) s) (\<lambda>s.
        bindR (if w then lru_push tmp s else lru_insert tmp cachedp s) (\<lambda>s.
        Inr (Some (addp\<lparr>pr_start := pr_end c\<rparr>), cachedp, tmp, s)))))))))"

definition walk_hit :: "int \<Rightarrow> bool \<Rightarrow> bool \<Rightarrow> bool \<Rightarrow> pr_t \<Rightarrow> ptr \<Rightarrow> ptr \<Rightarrow> dcache \<Rightarrow> (pr_t option \<times> ptr \<times> ptr \<times> dcache) res" where
  "walk_hit fid preop disk r addp precachedp cachedp s =
    (if preop \<and> disk \<and> r then Inl (Abort ''DiskCache'')
     else bindR (deref cachedp s) (\<lambda>c.
      bindR (hit_pr preop disk r addp c) (\<lambda>t.
      let (tmp, s) = alloc t s; w = (preop \<and> \<not> r \<and> \<not> disk)
      in bindR (if pr_start addp = pr_start c then walk_hit_start fid w addp tmp precachedp cachedp s
                else walk_hit_inside w addp tmp precachedp cachedp s) (\<lambda>(addp', precachedp, cachedp, s).
         bindR (deref tmp s) (\<lambda>t.
         let s = (if preop \<and> disk \<and> \<not> r then s\<lparr>dirty_pages := dirty_pages s - (pr_end t - pr_start t)\<rparr> else s)
         in Inr (addp', precachedp, cachedp, upd_file fid (\<lambda>f. f\<lparr>pr_last := precachedp\<rparr>) s))))))"

text \<open>The loop of \<^verbatim>\<open>walkCache_update\<close>; every turn goes one cached range further.\<close>

fun walk_loop :: "nat \<Rightarrow> int \<Rightarrow> bool \<Rightarrow> bool \<Rightarrow> bool \<Rightarrow> pr_t \<Rightarrow> ptr \<Rightarrow> ptr \<Rightarrow> dcache \<Rightarrow> dcache res" where
  "walk_loop 0 fid preop disk r addp precachedp cachedp s = Inl (Diverge ''DiskCache::walkCache_update'')"
| "walk_loop (Suc n) fid preop disk r addp precachedp cachedp s =
     bindR (if cachedp = None then Inr True
            else bindR (deref cachedp s) (\<lambda>c. Inr (pr_start addp < pr_start c))) (\<lambda>missing.
     bindR (if missing
            then bindR (walk_miss fid preop disk r addp precachedp cachedp s) (\<lambda>(addp', tmp, s). Inr (addp', tmp, s))
            else Inr (Some addp, precachedp, s)) (\<lambda>(addp', precachedp, s).
     (case addp' of
        None \<Rightarrow> Inr s
      | Some addp \<Rightarrow>
          bindR (deref cachedp s) (\<lambda>c.
          bindR (if pr_start addp < pr_end c then walk_hit fid preop disk r addp precachedp cachedp s
                 else Inr (Some addp, precachedp, cachedp, s)) (\<lambda>(addp', precachedp, cachedp, s).
          (case addp' of
             None \<Rightarrow> Inr s
           | Some addp \<Rightarrow>
               if pr_start addp = pr_end addp then Inr s
               else if preop \<and> \<not> disk \<and> r then Inr s
               else bindR (deref cachedp s) (\<lambda>c. walk_loop n fid preop disk r addp cachedp (pr_next c) s)))))))"

text \<open>
  \<^verbatim>\<open>trimCache\<close> joins adjacent ranges of a file that are adjacent in the LRU list too.
\<close>

fun trim_loop :: "nat \<Rightarrow> ptr \<Rightarrow> dcache \<Rightarrow> dcache res" where
  "trim_loop 0 p s = Inl (Diverge ''DiskCache::trimCache'')"
| "trim_loop (Suc n) p s =
     (if p = None then Inr s
      else bindR (deref p s) (\<lambda>c.
        if pr_next c = None then Inr s
        else bindR (deref (pr_next c) s) (\<lambda>d.
          if attrcomp c d \<and> pr_end c = pr_start d \<and> lru_prev c = pr_next c then
            bindR (store p (\<lambda>c. c\<lparr>pr_end := pr_end d, pr_next := pr_next d\<rparr>) s) (\<lambda>s.
            bindR (store_if (pr_next d) (\<lambda>c. c\<lparr>pr_prev := p\<rparr>) s) (\<lambda>s.
            bindR (store p (\<lambda>c. c\<lparr>lru_prev := lru_prev d\<rparr>) s) (\<lambda>s.
            bindR (if lru_prev d \<noteq> None then store (lru_prev d) (\<lambda>c. c\<lparr>lru_next := p\<rparr>) s
                   else Inr (s\<lparr>lru_list := p\<rparr>)) (\<lambda>s.
            bindR (free_pr (pr_next c) s) (trim_loop n p)))))
          else trim_loop n (pr_next c) s)))"

definition trimCache :: "int \<Rightarrow> dcache \<Rightarrow> dcache res" where
  "trimCache fid s =
    bindR (file_of fid s) (\<lambda>f.
    trim_loop (Suc (heap_next s)) (pr_head f) (upd_file fid (\<lambda>f. f\<lparr>pr_last := None\<rparr>) s))"

definition trimAllCache :: "dcache \<Rightarrow> dcache res" where
  "trimAllCache s =
    run_res (\<lambda>fid s. if files s fid = None then Inl (Abort ''DiskCache'') else trimCache fid s) (fileIDs s) s"

definition walkCache_update :: "int \<Rightarrow> pr_t \<Rightarrow> bool \<Rightarrow> bool \<Rightarrow> dcache \<Rightarrow> dcache res" where
  "walkCache_update fid addp preop disk s =
    (case files s fid of
       None \<Rightarrow> Inl (Abort ''DiskCache'')
     | Some f \<Rightarrow>
        bindR (if pr_last f = None then Inr (pr_head f)
               else bindR (deref (pr_last f) s) (\<lambda>c.
                    Inr (if pr_start c < pr_start addp then pr_last f else pr_head f))) (\<lambda>cachedp.
        bindR (walk_loop (Suc (heap_next s)) fid preop disk (\<not> PG_dirty addp)
                 (addp\<lparr>pr_count := 1, pr_prev := None, pr_next := None\<rparr>) None cachedp s) (\<lambda>s.
        let s = s\<lparr>trimCacheCounter := trimCacheCounter s + 1\<rparr>
        in if trimCacheCounter s \<ge> trimCacheInt s then trimAllCache (s\<lparr>trimCacheCounter := 0\<rparr>) else Inr s)))"


section \<open>Accesses to the disk and to the cache\<close>

definition getAccessSize :: "int \<Rightarrow> int \<Rightarrow> bool \<Rightarrow> bool \<Rightarrow> dcache \<Rightarrow> int" where
  "getAccessSize st en r incache s =
    (if \<not> incache \<and> r \<and> en - st > diskread_batch s then diskread_batch s
     else if \<not> incache \<and> \<not> r \<and> en - st > writeout_batch s then writeout_batch s
     else to_int32 (en - st))"

definition preOpOnCache :: "int \<Rightarrow> int \<Rightarrow> int \<Rightarrow> bool \<Rightarrow> bool \<Rightarrow> dcache \<Rightarrow> dcache res" where
  "preOpOnCache fid st en r disk s = walkCache_update fid (new_pr fid st en (\<not> r) None None) True disk s"

definition emit :: "dc_out \<Rightarrow> dcache \<Rightarrow> dcache" where
  "emit out s = s\<lparr>dc_outs := dc_outs s @ [out]\<rparr>"

definition scheduleDiskAccess :: "int \<Rightarrow> int \<Rightarrow> int \<Rightarrow> int \<Rightarrow> int \<Rightarrow> bool \<Rightarrow> dcache \<Rightarrow> dcache res" where
  "scheduleDiskAccess i subid fid st en r s =
    (if en - st \<le> 0 then Inl (Abort ''DiskCache'')
     else preOpOnCache fid st en r True
       (emit (DcToLfs (new_PageRequest\<lparr>getID := i, getSubID := subid, getKind := BLK_REQ, pg_fileId := fid,
                getPageStart := st, getPageEnd := en, pg_read := r\<rparr>)) s))"

definition scheduleCacheAccess :: "real \<Rightarrow> int \<Rightarrow> int \<Rightarrow> int \<Rightarrow> int \<Rightarrow> int \<Rightarrow> bool \<Rightarrow> dcache \<Rightarrow> dcache res" where
  "scheduleCacheAccess now i subid fid st en r s =
    (if en \<le> st then Inl (Abort ''DiskCache'')
     else if ca_scheduled s then Inl (Abort ''DiskCache'')
     else
       let s = s\<lparr>cacheAccess := (cacheAccess s)\<lparr>getID := i, getSubID := subid, pg_fileId := fid,
                   getPageStart := st, getPageEnd := en, pg_read := r\<rparr>, ca_scheduled := True\<rparr>;
           speed = (if r then cache_r_speed s else cache_w_speed s)
       in preOpOnCache fid st en r False (emit (DcCacheAt (now + real_of_int (en - st) * speed)) s))"

text \<open>
  \<^verbatim>\<open>setWriteout\<close> copies up to \<^verbatim>\<open>n\<close> dirty pages that nobody uses into a new list of ranges, file
  after file, starting at the file \<^verbatim>\<open>fid\<close>. \<open>writeout_file\<close> goes through the ranges of a file; the
  list made so far starts at \<open>first\<close> and ends at \<open>wop\<close>, and the flag tells whether the \<^verbatim>\<open>n\<close> pages
  are found.
\<close>

definition writable :: "pr_t \<Rightarrow> bool" where
  "writable c \<longleftrightarrow> PG_dirty c \<and> \<not> PG_writeback c \<and> \<not> PG_locked c \<and> pr_count c = 0"

fun writeout_file :: "nat \<Rightarrow> ptr \<Rightarrow> int \<Rightarrow> ptr \<Rightarrow> ptr \<Rightarrow> dcache \<Rightarrow> (bool \<times> int \<times> ptr \<times> ptr \<times> dcache) res" where
  "writeout_file 0 p n first wop s = Inl (Diverge ''DiskCache::setWriteout'')"
| "writeout_file (Suc k) p n first wop s =
     (if p = None then Inr (False, n, first, wop, s)
      else bindR (deref p s) (\<lambda>c.
        if writable c then
          let (tmp, s) = alloc ((copy_pr c)\<lparr>pr_prev := None, pr_next := None\<rparr>) s
          in bindR (if wop = None then Inr s
                    else bindR (store wop (\<lambda>d. d\<lparr>pr_next := tmp\<rparr>) s) (store tmp (\<lambda>d. d\<lparr>pr_prev := wop\<rparr>))) (\<lambda>s.
             let first = (if wop = None then tmp else first)
             in if pr_end c - pr_start c \<ge> n
                then bindR (store tmp (\<lambda>d. d\<lparr>pr_end := pr_start c + n\<rparr>) s) (\<lambda>s. Inr (True, n, first, tmp, s))
                else writeout_file k (pr_next c) (to_int32 (n - (pr_end c - pr_start c))) first tmp s)
        else writeout_file k (pr_next c) n first wop s))"

text \<open>
  The loop over the files. It starts again at the first file after the last one and ends when it
  meets \<^verbatim>\<open>fid\<close> a second time; \<open>fresh\<close> is \<^verbatim>\<open>firsttime\<close>. Two rounds are enough for a file that is
  known; for another one the loop does not end.
\<close>

fun writeout_files :: "nat \<Rightarrow> nat \<Rightarrow> bool \<Rightarrow> int \<Rightarrow> int \<Rightarrow> ptr \<Rightarrow> ptr \<Rightarrow> dcache \<Rightarrow> (ptr \<times> dcache) res" where
  "writeout_files 0 i fresh fid n first wop s = Inl (Diverge ''DiskCache::setWriteout'')"
| "writeout_files (Suc k) i fresh fid n first wop s =
     (let i = (if i = length (fileIDs s) then 0 else i)
      in if i \<ge> length (fileIDs s) then Inl (OutOfBounds ''DiskCache::fileIDs'')
         else if \<not> fresh \<and> fileIDs s ! i = fid then Inr (first, s)
         else if fileIDs s ! i = fid \<or> \<not> fresh then
           (case files s (fileIDs s ! i) of
              None \<Rightarrow> Inl (Abort ''DiskCache'')
            | Some f \<Rightarrow>
                bindR (writeout_file (Suc (heap_next s)) (pr_head f) n first wop s) (\<lambda>(full, n, first, wop, s).
                if full then Inr (first, s) else writeout_files k (Suc i) False fid n first wop s))
         else writeout_files k (Suc i) fresh fid n first wop s)"

definition setWriteout :: "int \<Rightarrow> int \<Rightarrow> dcache \<Rightarrow> (ptr \<times> dcache) res" where
  "setWriteout fid n s = writeout_files (2 * length (fileIDs s) + 1) 0 True fid n None None s"

text \<open>
  The entries of the queue that stand for the request with the number \<open>a\<close>, and the changes of its
  message.
\<close>

definition upd_req :: "nat \<Rightarrow> (PageRequest \<Rightarrow> PageRequest) \<Rightarrow> dcache \<Rightarrow> dcache" where
  "upd_req a f s = s\<lparr>reqQ := map (\<lambda>(b, r). if b = a then (b, f r) else (b, r)) (reqQ s)\<rparr>"

definition remove_req :: "nat \<Rightarrow> dcache \<Rightarrow> dcache" where
  "remove_req a s = s\<lparr>reqQ := filter (\<lambda>(b, r). b \<noteq> a) (reqQ s)\<rparr>"

definition writeCache :: "real \<Rightarrow> nat \<Rightarrow> PageRequest \<Rightarrow> dcache \<Rightarrow> dcache res" where
  "writeCache now a req s =
    (case prs s a of
       None \<Rightarrow> Inl (Abort ''DiskCache'')
     | Some rp \<Rightarrow>
        bindR (deref (Some rp) s) (\<lambda>rpr.
        if writeout_list rpr \<noteq> None then
          bindR (deref (writeout_list rpr) s) (\<lambda>w.
          scheduleDiskAccess (getID req) (getSubID req) (pr_fileid w) (pr_start w) (pr_end w) False s)
        else
          let s = (if bg_writeout s \<noteq> None \<and> \<not> bg_writeout_active s \<and> \<not> bg_scheduled s
                   then emit (DcExpireAt (now + dirty_expire_secs s)) (s\<lparr>bg_scheduled := True\<rparr>) else s);
              st = pr_start rpr;
              en = st + getAccessSize st (pr_end rpr) False True s
          in bindR (walkCache_countMissing (pg_fileId req) st en s) (\<lambda>dirty_increase.
             if dirty_pages s + dirty_increase \<ge> dirty_threshold s then
               bindR (setWriteout (pg_fileId req) (writeout_batch s) s) (\<lambda>(wl, s).
               bindR (store (Some rp) (\<lambda>c. c\<lparr>writeout_list := wl\<rparr>) s) (\<lambda>s.
               if wl = None then Inl (Abort ''DiskCache'')
               else bindR (deref wl s) (\<lambda>w.
                 scheduleDiskAccess (getID req) (getSubID req) (pr_fileid w) (pr_start w) (pr_end w) False s)))
             else scheduleCacheAccess now (getID req) (getSubID req) (pg_fileId req) st en False s)))"


text \<open>The pages from \<open>st\<close> to \<open>en\<close>, at most a batch, are read from the disk.\<close>

definition read_disk :: "PageRequest \<Rightarrow> int \<Rightarrow> int \<Rightarrow> dcache \<Rightarrow> dcache res" where
  "read_disk req st en s =
    (let en = st + getAccessSize st en True False s
     in bindR (scheduleDiskAccess (getID req) (getSubID req) (pg_fileId req) st en True s) (\<lambda>s.
        Inr (if disable_ra s then s
             else upd_file (pg_fileId req) (\<lambda>f. f\<lparr>f_ra := update_flag_incache st (en - st) False (f_ra f)\<rparr>) s)))"

text \<open>The pages from \<open>st\<close> to \<open>en\<close> are read from the cache.\<close>

definition read_cached :: "real \<Rightarrow> PageRequest \<Rightarrow> int \<Rightarrow> int \<Rightarrow> dcache \<Rightarrow> dcache res" where
  "read_cached now req st en s =
    bindR (scheduleCacheAccess now (getID req) (getSubID req) (pg_fileId req) st en True s) (\<lambda>s.
    Inr (if disable_ra s then s
         else upd_file (pg_fileId req) (\<lambda>f. f\<lparr>f_ra := update_flag_incache st (en - st) True (f_ra f)\<rparr>) s))"

text \<open>The end of a request that has nothing left to read.\<close>

definition read_finish :: "nat \<Rightarrow> PageRequest \<Rightarrow> nat \<Rightarrow> dcache \<Rightarrow> dcache res" where
  "read_finish a req rp s =
    bindR (deref (Some rp) s) (\<lambda>rpr.
    bindR (if readahead_list rpr \<noteq> None
           then bindR (free_pr (readahead_list rpr) s) (store (Some rp) (\<lambda>c. c\<lparr>readahead_list := None\<rparr>))
           else Inr s) (\<lambda>s.
    let s = remove_req a s;
        s = (if getSubID req \<noteq> RA_SUBID then emit (DcToVfs (req\<lparr>getKind := PAGE_RESP\<rparr>)) s else s)
    in bindR (free_pr (Some rp) s) (\<lambda>s. Inr (s\<lparr>prs := (prs s)(a := None)\<rparr>))))"

text \<open>
  The loop of \<^verbatim>\<open>readCache\<close> over the cached ranges and what follows it; the result tells whether the
  request is finished. A turn goes to the next range or shortens the request, after which the same
  range lies before it: two turns for each range are enough.
\<close>

fun read_loop :: "nat \<Rightarrow> real \<Rightarrow> nat \<Rightarrow> PageRequest \<Rightarrow> nat \<Rightarrow> ptr \<Rightarrow> dcache \<Rightarrow> (bool \<times> dcache) res" where
  "read_loop 0 now a req rp cpr s = Inl (Diverge ''DiskCache::readCache'')"
| "read_loop (Suc n) now a req rp cpr s =
     bindR (deref (Some rp) s) (\<lambda>rpr.
     let st = pr_start rpr; en = pr_end rpr
     in if cpr = None then bindR (read_disk req st en s) (\<lambda>s. Inr (False, s))
        else if st = en then bindR (read_finish a req rp s) (\<lambda>s. Inr (True, s))
        else bindR (deref cpr s) (\<lambda>c.
          if \<not> (pr_start c \<ge> en \<or> pr_end c \<le> st) then
            if PG_locked c then Inr (False, upd_req a (\<lambda>r. r\<lparr>getPending := False\<rparr>) s)
            else if st < pr_start c then
              bindR (read_disk req st (if en < pr_start c then en else pr_start c) s) (\<lambda>s. Inr (False, s))
            else
              let en' = (if pr_end c < en then pr_end c else en);
                  en' = st + getAccessSize st en' True True s
              in bindR (if readahead_list rpr = None then Inr True
                        else bindR (deref (readahead_list rpr) s) (\<lambda>ra. Inr (pr_start ra > st))) (\<lambda>undone.
                 if undone then bindR (read_cached now req st en' s) (\<lambda>s. Inr (False, s))
                 else bindR (store (Some rp) (\<lambda>c. c\<lparr>pr_start := en'\<rparr>) s) (read_loop n now a req rp cpr))
          else if pr_end c \<le> st then read_loop n now a req rp (pr_next c) s
          else bindR (read_disk req st en s) (\<lambda>s. Inr (False, s))))"

definition readCache :: "real \<Rightarrow> nat \<Rightarrow> PageRequest \<Rightarrow> dcache \<Rightarrow> (bool \<times> dcache) res" where
  "readCache now a req s =
    (case prs s a of
       None \<Rightarrow> Inl (Abort ''DiskCache'')
     | Some rp \<Rightarrow>
       (case files s (pg_fileId req) of
          None \<Rightarrow> Inl (Abort ''DiskCache'')
        | Some f \<Rightarrow> read_loop (2 * heap_next s + 2) now a req rp (pr_head f) s))"

text \<open>
  The loop of \<^verbatim>\<open>accessCache\<close>, at the position \<open>i\<close> of the queue. When a request is finished the loop
  starts again at \<^verbatim>\<open>begin()\<close>, which the \<^verbatim>\<open>for\<close> increments at once; if the queue is empty this is an
  increment of \<^verbatim>\<open>end()\<close>. A finished request leaves the queue, so the square of its length bounds
  the turns.
\<close>

fun access_loop :: "nat \<Rightarrow> real \<Rightarrow> nat \<Rightarrow> dcache \<Rightarrow> dcache res" where
  "access_loop 0 now i s = Inl (Diverge ''DiskCache::accessCache'')"
| "access_loop (Suc k) now i s =
     (if i \<ge> length (reqQ s) then Inr s
      else if ca_scheduled s then Inr s
      else
        let (a, req) = reqQ s ! i
        in if getPending req then access_loop k now (Suc i) s
           else
             let s = upd_req a (\<lambda>r. r\<lparr>getPending := True\<rparr>) s; req = req\<lparr>getPending := True\<rparr>
             in if pg_read req
                then bindR (readCache now a req s) (\<lambda>(fin, s).
                     if fin then (if reqQ s = [] then Inl (OutOfBounds ''DiskCache::accessCache'') else access_loop k now 1 s)
                     else access_loop k now (Suc i) s)
                else bindR (writeCache now a req s) (access_loop k now (Suc i)))"

definition accessCache :: "real \<Rightarrow> dcache \<Rightarrow> dcache res" where
  "accessCache now s =
    (if ca_scheduled s then Inr s else access_loop ((length (reqQ s) + 1) * (length (reqQ s) + 1)) now 0 s)"

section \<open>The handlers\<close>

definition dc_handlePageReq :: "real \<Rightarrow> PageRequest \<Rightarrow> dcache \<Rightarrow> dcache res" where
  "dc_handlePageReq now req s =
    (if getID req = BG_WRITEOUT_ID then Inl (Abort ''DiskCache'')
     else if getPageEnd req - getPageStart req \<le> 0 then Inl (Abort ''DiskCache'')
     else
      let fid = pg_fileId req; a = req_next s
      in bindR (if files s fid \<noteq> None then Inr s
                else if int (length (fileIDs s)) \<ge> MAX_FILE then Inl (OutOfBounds ''DiskCache::fileIDs'')
                else Inr (s\<lparr>files := (files s)(fid \<mapsto> \<lparr> f_id = fid, o_sync = getSYNC req, o_direct = getDIRECT req,
                                                      f_ra = new_ra, pr_head = None, pr_last = None \<rparr>),
                            fileIDs := fileIDs s @ [fid]\<rparr>)) (\<lambda>s.
         bindR (file_of fid s) (\<lambda>f.
         let s = s\<lparr>reqQ := reqQ s @ [(a, req\<lparr>getPending := False\<rparr>)], req_next := Suc a\<rparr>;
             pr = new_pr fid (getPageStart req) (getPageEnd req) (\<not> pg_read req) None None
         in bindR (if pg_read req \<and> \<not> disable_ra s
                   then bindR (page_cache_readahead (getPageStart req) (to_int32 (getPageEnd req - getPageStart req)) (f_ra f)) (\<lambda>ra.
                        Inr (setReadahead pr ra))
                   else Inr (pr, None, f_ra f)) (\<lambda>(pr, rl, ra).
            let s = upd_file fid (\<lambda>f. f\<lparr>f_ra := ra\<rparr>) s;
                (rlp, s) = (case rl of None \<Rightarrow> (readahead_list pr, s) | Some c \<Rightarrow> alloc c s);
                (rp, s) = alloc (pr\<lparr>readahead_list := rlp\<rparr>) s
            in accessCache now (s\<lparr>prs := (prs s)(a := rp)\<rparr>)))))"

text \<open>The first request of the queue with the given identities.\<close>

definition find_req :: "int \<Rightarrow> int \<Rightarrow> dcache \<Rightarrow> (nat \<times> PageRequest) option" where
  "find_req i subid s = find (\<lambda>(a, r). getID r = i \<and> getSubID r = subid) (reqQ s)"

text \<open>
  An access to the cache has ended: its message is \<^verbatim>\<open>cacheAccess\<close>. Lines 434 and 435 set the ends of
  the range and of the request to the end of the access, so the test of line 437 is always true.
\<close>

definition dc_handleCacheAccessResp :: "real \<Rightarrow> dcache \<Rightarrow> dcache res" where
  "dc_handleCacheAccessResp now s =
    (let resp = cacheAccess s
     in (case find_req (getID resp) (getSubID resp) s of
           None \<Rightarrow> Inl (Abort ''DiskCache'')
         | Some (a, orig) \<Rightarrow>
            (case prs s a of
               None \<Rightarrow> Inl (Abort ''DiskCache'')
             | Some rp \<Rightarrow>
                let orig = orig\<lparr>getPending := False, getPageEnd := getPageEnd resp\<rparr>
                in bindR (store (Some rp) (\<lambda>c. c\<lparr>pr_end := getPageEnd resp\<rparr>) s) (\<lambda>s.
                   bindR (deref (Some rp) s) (\<lambda>c.
                   bindR (if readahead_list c \<noteq> None
                          then store (Some rp) (\<lambda>c. c\<lparr>pr_start := getPageEnd resp\<rparr>)
                            (s\<lparr>reqQ := reqQ s @ [(req_next s, orig\<lparr>getSubID := RA_SUBID, getPageEnd := getPageStart orig\<rparr>)],
                               prs := (prs s)(req_next s := Some rp), req_next := Suc (req_next s)\<rparr>)
                          else free_pr (Some rp) s) (\<lambda>s.
                   let s = remove_req a s;
                       s = emit (DcToVfs (orig\<lparr>getKind := PAGE_RESP\<rparr>)) (s\<lparr>prs := (prs s)(a := None)\<rparr>)
                   in bindR (walkCache_update (pg_fileId resp)
                        (new_pr (pg_fileId resp) (getPageStart resp) (getPageEnd resp) (\<not> pg_read resp) None None) False False s)
                        (accessCache now)))))))"

definition setBGWriteoutPR :: "nat \<Rightarrow> dcache \<Rightarrow> dcache res" where
  "setBGWriteoutPR rp s =
    bindR (setWriteout 0 (writeout_batch s) s) (\<lambda>(wl, s).
    bindR (store (Some rp) (\<lambda>c. c\<lparr>writeout_list := wl\<rparr>) s) (\<lambda>s.
    if wl \<noteq> None then Inr s
    else if prs s 0 = None then Inl (Abort ''DiskCache'')
    else bindR (free_pr (Some rp) s) (\<lambda>s.
         Inr (remove_req 0 (s\<lparr>bg_writeout_active := False, prs := (prs s)(0 := None)\<rparr>)))))"

text \<open>The part of \<^verbatim>\<open>handleDiskAccessResp\<close> for a range that was written out.\<close>

definition writeout_done :: "PageRequest \<Rightarrow> nat \<Rightarrow> dcache \<Rightarrow> dcache res" where
  "writeout_done resp rp s =
    bindR (deref (Some rp) s) (\<lambda>c.
    if writeout_list c = None then Inr s
    else bindR (deref (writeout_list c) s) (\<lambda>w.
      if getPageStart resp \<noteq> pr_start w \<or> getPageEnd resp > pr_end w then Inl (Abort ''DiskCache'')
      else bindR (if getPageEnd resp = pr_end w
                  then bindR (free_pr (writeout_list c) s) (store (Some rp) (\<lambda>c. c\<lparr>writeout_list := pr_next w\<rparr>))
                  else store (writeout_list c) (\<lambda>w. w\<lparr>pr_end := getPageEnd resp\<rparr>) s) (\<lambda>s.
           bindR (deref (Some rp) s) (\<lambda>c.
           if getID resp = BG_WRITEOUT_ID \<and> writeout_list c = None then setBGWriteoutPR rp s else Inr s))))"

text \<open>The part for a range that was read ahead.\<close>

definition readahead_done :: "PageRequest \<Rightarrow> nat \<Rightarrow> PageRequest \<Rightarrow> nat \<Rightarrow> dcache \<Rightarrow> dcache res" where
  "readahead_done resp a orig rp s =
    bindR (deref (Some rp) s) (\<lambda>c.
    if readahead_list c = None then Inr s
    else bindR (deref (readahead_list c) s) (\<lambda>ra.
      if getPageEnd resp \<le> pr_start ra then Inr s
      else if getPageEnd resp \<noteq> pr_end c then Inl (Abort ''DiskCache'')
      else bindR (store (Some rp) (\<lambda>c. c\<lparr>pr_end := pr_start ra\<rparr>) s) (\<lambda>s.
           bindR (free_pr (readahead_list c) s) (\<lambda>s.
           bindR (store (Some rp) (\<lambda>c. c\<lparr>readahead_list := None\<rparr>) s) (\<lambda>s.
           if getSubID orig = RA_SUBID
           then bindR (free_pr (Some rp) s) (\<lambda>s. Inr (remove_req a (s\<lparr>prs := (prs s)(a := None)\<rparr>)))
           else Inr s)))))"

text \<open>
  If no request has the identities of the response, \<^verbatim>\<open>origreq\<close> is not initialised; the search in
  \<^verbatim>\<open>prs\<close> is then taken to fail.
\<close>

definition dc_handleDiskAccessResp :: "real \<Rightarrow> PageRequest \<Rightarrow> dcache \<Rightarrow> dcache res" where
  "dc_handleDiskAccessResp now resp s =
    (case find_req (getID resp) (getSubID resp) s of
       None \<Rightarrow> Inl (Abort ''DiskCache'')
     | Some (a, orig) \<Rightarrow>
        let s = upd_req a (\<lambda>r. r\<lparr>getPending := False\<rparr>) s
        in (case prs s a of
              None \<Rightarrow> Inl (Abort ''DiskCache'')
            | Some rp \<Rightarrow>
                bindR (writeout_done resp rp s) (\<lambda>s.
                bindR (readahead_done resp a orig rp s) (\<lambda>s.
                bindR (walkCache_update (pg_fileId resp)
                  (new_pr (pg_fileId resp) (getPageStart resp) (getPageEnd resp) (\<not> pg_read resp) None None) False True s)
                  (accessCache now)))))"

definition handleDirtyPageExpiration :: "dcache \<Rightarrow> dcache res" where
  "handleDirtyPageExpiration s =
    (case bg_writeout s of
       None \<Rightarrow> Inl (NullDeref ''DiskCache'')
     | Some msg \<Rightarrow>
        let msg = msg\<lparr>getID := BG_WRITEOUT_ID, pg_read := False, getPending := False\<rparr>;
            s = s\<lparr>reqQ := reqQ s @ [(0, msg)]\<rparr>;
            (rp, s) = alloc (new_pr 0 0 0 True None None) s
        in bindR (setWriteout 0 (writeout_batch s) s) (\<lambda>(wl, s).
           bindR (store rp (\<lambda>c. c\<lparr>writeout_list := wl\<rparr>) s) (\<lambda>s.
           if wl = None then Inl (Abort ''DiskCache'')
           else bindR (deref wl s) (\<lambda>w.
             bindR (scheduleDiskAccess (getID msg) 0 (pr_fileid w) (pr_start w) (pr_end w) False
                (s\<lparr>prs := (prs s)(0 := rp), bg_writeout_active := True\<rparr>)) (\<lambda>s.
             Inr (upd_req 0 (\<lambda>r. r\<lparr>getPending := True\<rparr>) s))))))"

text \<open>The two timers are no longer scheduled when their message arrives.\<close>

datatype dc_msg = CachePage PageRequest | CacheTimer | ExpireTimer | CacheBlk PageRequest

definition dc_handleMessage :: "real \<Rightarrow> dc_msg \<Rightarrow> dcache \<Rightarrow> dcache res" where
  "dc_handleMessage now m s =
    (case m of
       CachePage req \<Rightarrow> dc_handlePageReq now req (s\<lparr>dc_outs := []\<rparr>)
     | CacheTimer \<Rightarrow> dc_handleCacheAccessResp now (s\<lparr>dc_outs := [], ca_scheduled := False\<rparr>)
     | ExpireTimer \<Rightarrow> handleDirtyPageExpiration (s\<lparr>dc_outs := [], bg_scheduled := False\<rparr>)
     | CacheBlk resp \<Rightarrow> dc_handleDiskAccessResp now resp (s\<lparr>dc_outs := []\<rparr>))"

text \<open>The parameters of the module; \<open>junk\<close> is \<^verbatim>\<open>lru_list_end\<close>, which is not initialised.\<close>

definition DiskCache_initialize ::
    "int \<Rightarrow> int \<Rightarrow> real \<Rightarrow> real \<Rightarrow> real \<Rightarrow> real \<Rightarrow> real \<Rightarrow> int \<Rightarrow> int \<Rightarrow> bool \<Rightarrow> ptr \<Rightarrow> dcache" where
  "DiskCache_initialize pages usable rspeed wspeed ratio bgratio centisecs wbatch rbatch nora junk =
    \<lparr> total_usable_pages = usable, free_pages = usable, dirty_pages = 0,
      dirty_threshold = trunc_double (ratio * real_of_int usable),
      dirty_background_threshold = trunc_double (bgratio * real_of_int pages),
      dirty_expire_secs = centisecs / 100, bg_writeout_active = False, disable_ra = nora,
      writeout_batch = wbatch, diskread_batch = rbatch, trimCacheCounter = 0, trimCacheInt = 500,
      lru_list = None, lru_list_end = junk,
      cacheAccess = new_PageRequest\<lparr>getKind := CACHE_ACCESS\<rparr>, ca_scheduled = False,
      bg_writeout = (if centisecs / 100 \<ge> 0 then Some (new_PageRequest\<lparr>getKind := DIRTY_PAGE_EXPIRE\<rparr>) else None),
      bg_scheduled = False, reqQ = [], prs = (\<lambda>_. None), files = (\<lambda>_. None), fileIDs = [],
      cache_r_speed = rspeed, cache_w_speed = wspeed, heap = (\<lambda>_. None), heap_next = 0, req_next = 1, dc_outs = [] \<rparr>"

section \<open>The check of the lists\<close>

fun check_table :: "nat \<Rightarrow> ptr \<Rightarrow> dcache \<Rightarrow> int res" where
  "check_table 0 p s = Inl (Diverge ''DiskCache::checkListHealth'')"
| "check_table (Suc n) p s =
     (if p = None then Inr 0
      else bindR (deref p s) (\<lambda>c.
        bindR (if pr_prev c = None then Inr True else bindR (deref (pr_prev c) s) (\<lambda>d. Inr (pr_next d = p))) (\<lambda>ok1.
        bindR (if pr_next c = None then Inr True else bindR (deref (pr_next c) s) (\<lambda>d. Inr (pr_prev d = p))) (\<lambda>ok2.
        if ok1 \<and> ok2 then bindR (check_table n (pr_next c) s) (\<lambda>k. Inr (k + 1))
        else Inl (Abort ''DiskCache'')))))"

fun check_lru :: "nat \<Rightarrow> ptr \<Rightarrow> dcache \<Rightarrow> int res" where
  "check_lru 0 p s = Inl (Diverge ''DiskCache::checkListHealth'')"
| "check_lru (Suc n) p s =
     (if p = None then Inr 0
      else bindR (deref p s) (\<lambda>c.
        bindR (if lru_next c = None then Inr True else bindR (deref (lru_next c) s) (\<lambda>d. Inr (lru_prev d = p))) (\<lambda>ok.
        if ok then bindR (check_lru n (lru_next c) s) (\<lambda>k. Inr (k + 1)) else Inl (Abort ''DiskCache''))))"

fun check_tables :: "int list \<Rightarrow> dcache \<Rightarrow> int res" where
  "check_tables [] s = Inr 0"
| "check_tables (fid # fids) s =
     bindR (file_of fid s) (\<lambda>f.
     bindR (check_table (Suc (heap_next s)) (pr_head f) s) (\<lambda>k.
     bindR (check_tables fids s) (\<lambda>m. Inr (k + m))))"

definition checkListHealth :: "dcache \<Rightarrow> bool res" where
  "checkListHealth s =
    bindR (check_tables (fileIDs s) s) (\<lambda>ranges.
    bindR (check_lru (Suc (heap_next s)) (lru_list s) s) (\<lambda>k.
    if ranges - k \<noteq> 0 then Inl (Abort ''DiskCache'') else Inr True))"

end
