(* ===== verification/CacheLists.thy ===== *)
theory CacheLists
  imports DiskCache
begin

text \<open>
  The doubly linked lists of the disk cache: a predicate that relates a list in the heap with the
  list of its addresses, and the operations on the LRU list as operations on that list.
\<close>

section \<open>Doubly linked lists in a heap\<close>

fun hd_ptr :: "nat list \<Rightarrow> ptr \<Rightarrow> ptr" where
  "hd_ptr [] q = q"
| "hd_ptr (a # as) q = Some a"

fun last_ptr :: "ptr \<Rightarrow> nat list \<Rightarrow> ptr" where
  "last_ptr p [] = p"
| "last_ptr p (a # as) = last_ptr (Some a) as"

lemma hd_ptr_append [simp]: "hd_ptr (xs @ ys) q = hd_ptr xs (hd_ptr ys q)"
  by (cases xs) auto

lemma last_ptr_append [simp]: "last_ptr p (xs @ ys) = last_ptr (last_ptr p xs) ys"
  by (induction xs arbitrary: p) auto

lemma last_ptr_some: "xs \<noteq> [] \<Longrightarrow> last_ptr p xs = Some (last xs)"
  by (induction xs arbitrary: p) auto

lemma hd_ptr_some: "xs \<noteq> [] \<Longrightarrow> hd_ptr xs q = Some (hd xs)"
  by (cases xs) auto

lemma hd_ptr_None [simp]: "hd_ptr xs None = None \<longleftrightarrow> xs = []"
  by (cases xs) auto

lemma last_ptr_None [simp]: "last_ptr None xs = None \<longleftrightarrow> xs = []"
  by (cases xs rule: rev_cases) auto

text \<open>The segment of a list with the addresses \<open>as\<close>, before it \<open>p\<close> and behind it \<open>q\<close>.\<close>

fun dseg :: "(pr_t \<Rightarrow> ptr) \<Rightarrow> (pr_t \<Rightarrow> ptr) \<Rightarrow> (nat \<Rightarrow> pr_t option) \<Rightarrow> ptr \<Rightarrow> nat list \<Rightarrow> ptr \<Rightarrow> bool" where
  "dseg nx pv h p [] q \<longleftrightarrow> True"
| "dseg nx pv h p (a # as) q \<longleftrightarrow>
     (\<exists>c. h a = Some c \<and> pv c = p \<and> nx c = hd_ptr as q \<and> dseg nx pv h (Some a) as q)"

lemma dseg_append [simp]:
  "dseg nx pv h p (xs @ ys) q \<longleftrightarrow> dseg nx pv h p xs (hd_ptr ys q) \<and> dseg nx pv h (last_ptr p xs) ys q"
  by (induction xs arbitrary: p) auto

lemma dseg_dom: "dseg nx pv h p as q \<Longrightarrow> a \<in> set as \<Longrightarrow> \<exists>c. h a = Some c"
  by (induction as arbitrary: p) auto

text \<open>Only the two link fields of the listed cells matter.\<close>

lemma dseg_cong:
  assumes "\<And>a. a \<in> set as \<Longrightarrow> map_option nx (h' a) = map_option nx (h a) \<and> map_option pv (h' a) = map_option pv (h a)"
  shows "dseg nx pv h' p as q = dseg nx pv h p as q"
  using assms
proof (induction as arbitrary: p)
  case (Cons a as)
  have "map_option nx (h' a) = map_option nx (h a)" "map_option pv (h' a) = map_option pv (h a)"
    using Cons.prems [of a] by simp_all
  then have "(\<exists>c. h' a = Some c \<and> pv c = p \<and> nx c = hd_ptr as q) = (\<exists>c. h a = Some c \<and> pv c = p \<and> nx c = hd_ptr as q)"
    by (cases "h a"; cases "h' a") simp_all
  with Cons.IH [of "Some a"] Cons.prems show ?case by auto
qed simp

lemma dseg_upd_other [simp]: "a \<notin> set as \<Longrightarrow> dseg nx pv (h(a := x)) p as q = dseg nx pv h p as q"
  by (rule dseg_cong) auto

text \<open>
  The interface of a pair of link fields. The two lists of the cache are its instances.
\<close>

locale dlinks =
  fixes nx pv :: "pr_t \<Rightarrow> ptr" and set_nx set_pv :: "ptr \<Rightarrow> pr_t \<Rightarrow> pr_t"
  assumes nx_set_nx: "nx (set_nx p c) = p" and pv_set_nx: "pv (set_nx p c) = pv c"
    and nx_set_pv: "nx (set_pv p c) = nx c" and pv_set_pv: "pv (set_pv p c) = p"
begin

lemmas link_simps [simp] = nx_set_nx pv_set_nx nx_set_pv pv_set_pv

abbreviation seg :: "(nat \<Rightarrow> pr_t option) \<Rightarrow> ptr \<Rightarrow> nat list \<Rightarrow> ptr \<Rightarrow> bool" where
  "seg \<equiv> dseg nx pv"

definition upd :: "ptr \<Rightarrow> (pr_t \<Rightarrow> pr_t) \<Rightarrow> (nat \<Rightarrow> pr_t option) \<Rightarrow> nat \<Rightarrow> pr_t option" where
  "upd p f h = (case p of None \<Rightarrow> h | Some a \<Rightarrow> h(a := map_option f (h a)))"

lemma upd_simps [simp]: "upd None f h = h" "upd (Some a) f h = h(a := map_option f (h a))"
  by (simp_all add: upd_def)

text \<open>The links of the last cell of a segment and of its first cell can be turned elsewhere.\<close>

lemma seg_set_last:
  "seg h p as q \<Longrightarrow> distinct as \<Longrightarrow> as \<noteq> [] \<Longrightarrow> seg (upd (last_ptr p as) (set_nx q') h) p as q'"
proof (induction as arbitrary: p)
  case (Cons a as)
  show ?case
  proof (cases "as = []")
    case True
    then show ?thesis using Cons.prems by auto
  next
    case False
    obtain c where c: "h a = Some c" "pv c = p" "nx c = hd_ptr as q" "seg h (Some a) as q" using Cons.prems by auto
    have "last_ptr (Some a) as \<noteq> Some a" using False Cons.prems(2) by (simp add: last_ptr_some) (metis last_in_set)
    moreover have "seg (upd (last_ptr (Some a) as) (set_nx q') h) (Some a) as q'"
      using Cons.IH [OF c(4)] Cons.prems(2) False by simp
    ultimately show ?thesis using c False
      by (auto simp: upd_def hd_ptr_some split: option.splits)
  qed
qed simp

lemma seg_set_first:
  "seg h p as q \<Longrightarrow> distinct as \<Longrightarrow> as \<noteq> [] \<Longrightarrow> seg (upd (hd_ptr as q) (set_pv p') h) p' as q"
  by (cases as) auto

text \<open>Two segments joined by setting the links at the seam.\<close>

lemma seg_join:
  assumes "seg h p xs q0" "seg h p0 ys q" "distinct (xs @ ys)"
    and "xs \<noteq> [] \<or> ys \<noteq> []"
  shows "seg (upd (if xs = [] then None else last_ptr p xs) (set_nx (hd_ptr ys q))
           (upd (if ys = [] then None else hd_ptr ys q) (set_pv (last_ptr p xs)) h)) p (xs @ ys) q"
proof -
  let ?h1 = "upd (if ys = [] then None else hd_ptr ys q) (set_pv (last_ptr p xs)) h"
  have y1: "seg ?h1 (last_ptr p xs) ys q"
    using seg_set_first [OF assms(2)] assms(3) by (cases "ys = []") auto
  have x1: "seg ?h1 p xs q0"
    using assms(1,3) by (cases ys) auto
  let ?h2 = "upd (if xs = [] then None else last_ptr p xs) (set_nx (hd_ptr ys q)) ?h1"
  have "seg ?h2 p xs (hd_ptr ys q)"
    using seg_set_last [OF x1] assms(3) by (cases "xs = []") auto
  moreover have "seg ?h2 (last_ptr p xs) ys q"
  proof (cases "xs = []")
    case False
    then have "last xs \<notin> set ys" using assms(3) by (meson distinct_append last_in_set disjoint_iff)
    with y1 False show ?thesis by (simp add: last_ptr_some del: dseg.simps)
  qed (use y1 in simp)
  ultimately show ?thesis by simp
qed

text \<open>A part of a list is replaced by another one whose inner links are already set.\<close>

lemma seg_replace:
  assumes "seg h p (xs @ us @ ys) q" "distinct (xs @ ys)" "\<And>a. a \<in> set xs \<union> set ys \<Longrightarrow> g a = h a"
    and "vs \<noteq> []" "set vs \<inter> (set xs \<union> set ys) = {}" "seg g (last_ptr p xs) vs (hd_ptr ys q)"
  shows "seg (upd (if xs = [] then None else last_ptr p xs) (set_nx (hd_ptr vs q))
           (upd (if ys = [] then None else hd_ptr ys q) (set_pv (last_ptr p vs)) g)) p (xs @ vs @ ys) q"
proof -
  let ?y = "if ys = [] then None else hd_ptr ys q" and ?x = "if xs = [] then None else last_ptr p xs"
  let ?g1 = "upd ?y (set_pv (last_ptr p vs)) g"
  let ?g2 = "upd ?x (set_nx (hd_ptr vs q)) ?g1"
  have gx: "seg g p xs (hd_ptr (us @ ys) q)" and gy: "seg g (last_ptr p (xs @ us)) ys q"
    using assms(1,3) dseg_cong [of xs nx g h pv p] dseg_cong [of ys nx g h pv "last_ptr p (xs @ us)"] by auto
  have x_out: "?x = None \<or> (\<exists>a. ?x = Some a \<and> a \<in> set xs)" by (simp add: last_ptr_some)
  have y_out: "?y = None \<or> (\<exists>a. ?y = Some a \<and> a \<in> set ys)" by (cases ys) auto
  have out: "seg (upd z f h') p' as q'  = seg h' p' as q'"
    if "z = None \<or> (\<exists>a. z = Some a \<and> a \<notin> set as)" for z f h' p' as q'
    using that by auto
  have y1: "seg ?g1 (last_ptr p vs) ys q" using seg_set_first [OF gy] assms(2) by (cases "ys = []") auto
  have "seg ?g1 p xs (hd_ptr (us @ ys) q)"
    by (subst out) (use y_out assms(2) gx in auto)
  then have "seg ?g2 p xs (hd_ptr vs q)" using seg_set_last assms(2) by (cases "xs = []") auto
  moreover have "seg ?g2 (last_ptr p vs) ys q" by (subst out) (use x_out y1 assms(2) in auto)
  moreover have "seg ?g2 (last_ptr p xs) vs (hd_ptr ys q)"
    by (subst out, use x_out assms(5) in blast, subst out) (use y_out assms(5,6) in auto)
  moreover have "hd_ptr vs q = hd_ptr (vs @ ys) q" "last_ptr (last_ptr p xs) vs = last_ptr p vs"
    using assms(4) by (cases vs; simp)+
  ultimately show ?thesis by simp
qed

end

interpretation lru: dlinks lru_next lru_prev "\<lambda>p c. c\<lparr>lru_next := p\<rparr>" "\<lambda>p c. c\<lparr>lru_prev := p\<rparr>"
  by unfold_locales simp_all

interpretation tab: dlinks pr_next pr_prev "\<lambda>p c. c\<lparr>pr_next := p\<rparr>" "\<lambda>p c. c\<lparr>pr_prev := p\<rparr>"
  by unfold_locales simp_all


section \<open>Operations on the heap\<close>

lemma deref_Some [simp]: "heap s a = Some c \<Longrightarrow> deref (Some a) s = Inr c"
  by (simp add: deref_def)

lemma store_Some [simp]: "heap s a = Some c \<Longrightarrow> store (Some a) f s = Inr (s\<lparr>heap := (heap s)(a \<mapsto> f c)\<rparr>)"
  by (simp add: store_def)

lemma store_if_simps [simp]: "store_if None f s = Inr s" "store_if (Some a) f s = store (Some a) f s"
  by (simp_all add: store_if_def)

lemma free_pr_Some [simp]: "heap s a = Some c \<Longrightarrow> free_pr (Some a) s = Inr (s\<lparr>heap := (heap s)(a := None)\<rparr>)"
  by (simp add: free_pr_def)

section \<open>The LRU list\<close>

definition lru_ok :: "dcache \<Rightarrow> nat list \<Rightarrow> bool" where
  "lru_ok s as \<longleftrightarrow> distinct as \<and> dseg lru_next lru_prev (heap s) None as None \<and>
     lru_list s = hd_ptr as None \<and> (as \<noteq> [] \<longrightarrow> lru_list_end s = Some (last as))"

text \<open>The state is changed in the links of the LRU list only.\<close>

definition no_lru :: "pr_t \<Rightarrow> pr_t" where
  "no_lru c = c\<lparr>lru_next := None, lru_prev := None\<rparr>"

definition rest_of :: "dcache \<Rightarrow> dcache" where
  "rest_of s = s\<lparr>heap := (\<lambda>_. None), lru_list := None, lru_list_end := None\<rparr>"

definition lru_only :: "dcache \<Rightarrow> dcache \<Rightarrow> bool" where
  "lru_only s s' \<longleftrightarrow> (\<forall>a. map_option no_lru (heap s' a) = map_option no_lru (heap s a)) \<and> rest_of s' = rest_of s"

lemma rest_of_upd [simp]:
  "rest_of (s\<lparr>heap := h\<rparr>) = rest_of s" "rest_of (s\<lparr>lru_list := p\<rparr>) = rest_of s" "rest_of (s\<lparr>lru_list_end := p\<rparr>) = rest_of s"
  by (simp_all add: rest_of_def)

lemma no_lru_upd [simp]: "no_lru (c\<lparr>lru_next := p\<rparr>) = no_lru c" "no_lru (c\<lparr>lru_prev := p\<rparr>) = no_lru c"
  by (simp_all add: no_lru_def)

lemma no_lru_fields:
  "no_lru c = no_lru d \<Longrightarrow> pr_next c = pr_next d \<and> pr_prev c = pr_prev d \<and> pr_start c = pr_start d \<and> pr_end c = pr_end d \<and>
     pr_fileid c = pr_fileid d \<and> pr_count c = pr_count d \<and> PG_dirty c = PG_dirty d \<and> PG_locked c = PG_locked d \<and>
     PG_writeback c = PG_writeback d"
  by (auto simp: no_lru_def dest!: arg_cong [where f = "\<lambda>c. (pr_next c, pr_prev c, pr_start c, pr_end c, pr_fileid c,
     pr_count c, PG_dirty c, PG_locked c, PG_writeback c)"])

lemma lru_only_trans [trans]: "lru_only s s' \<Longrightarrow> lru_only s' s'' \<Longrightarrow> lru_only s s''"
  by (simp add: lru_only_def)

lemma lru_pushed:
  assumes "lru_ok s as" "a \<notin> set as" "heap s a = Some c"
  shows "\<exists>s'. lru_push (Some a) s = Inr s' \<and> lru_ok s' (a # as) \<and> lru_only s s'"
proof (cases as)
  case Nil
  then show ?thesis using assms by (auto simp: lru_push_def lru_ok_def lru_only_def)
next
  case (Cons b bs)
  then obtain cb where "heap s b = Some cb" using assms(1) by (auto simp: lru_ok_def)
  with Cons show ?thesis using assms by (auto simp: lru_push_def lru_ok_def lru_only_def)
qed

lemma lru_inserted:
  assumes "lru_ok s (xs @ b # ys)" "a \<notin> set (xs @ b # ys)" "heap s a = Some c"
  shows "\<exists>s'. lru_insert (Some a) (Some b) s = Inr s' \<and> lru_ok s' (xs @ a # b # ys) \<and> lru_only s s'"
proof -
  obtain cb where cb: "heap s b = Some cb" "lru_prev cb = last_ptr None xs" "lru_next cb = hd_ptr ys None"
    using assms(1) by (auto simp: lru_ok_def)
  have d: "distinct (xs @ b # ys)" "a \<noteq> b" and seg: "dseg lru_next lru_prev (heap s) None xs (Some b)"
    "dseg lru_next lru_prev (heap s) (Some b) ys None"
    using assms(1,2) by (auto simp: lru_ok_def)
  show ?thesis
  proof (cases xs rule: rev_cases)
    case Nil
    let ?s = "s\<lparr>heap := (heap s)(b \<mapsto> cb\<lparr>lru_prev := Some a\<rparr>, a \<mapsto> c\<lparr>lru_prev := None, lru_next := Some b\<rparr>), lru_list := Some a\<rparr>"
    have "lru_insert (Some a) (Some b) s = Inr ?s" using Nil assms(3) cb d(2) by (simp add: lru_insert_def)
    moreover have "lru_ok ?s (xs @ a # b # ys)" using Nil assms(1,2) cb d seg(2) by (simp add: lru_ok_def)
    moreover have "lru_only s ?s" using assms(3) cb(1) by (simp add: lru_only_def)
    ultimately show ?thesis by blast
  next
    case (snoc us e)
    then obtain ce where ce: "heap s e = Some ce" using seg by auto
    have e: "e \<noteq> a" "e \<noteq> b" "e \<notin> set us" "e \<notin> set ys" "lru_prev ce = last_ptr None us" "dseg lru_next lru_prev (heap s) None us (Some e)"
      using snoc assms(2) d seg ce by auto
    let ?h = "(heap s)(b \<mapsto> cb\<lparr>lru_prev := Some a\<rparr>, a \<mapsto> c\<lparr>lru_prev := Some e, lru_next := Some b\<rparr>, e \<mapsto> ce\<lparr>lru_next := Some a\<rparr>)"
    have "lru_insert (Some a) (Some b) s = Inr (s\<lparr>heap := ?h\<rparr>)"
      using snoc assms(3) cb d(2) ce e(1,2) by (simp add: lru_insert_def)
    moreover have "lru_ok (s\<lparr>heap := ?h\<rparr>) (xs @ a # b # ys)"
      using snoc assms(1,2) cb d seg(2) e by (simp add: lru_ok_def)
    moreover have "lru_only s (s\<lparr>heap := ?h\<rparr>)" using assms(3) cb(1) ce by (simp add: lru_only_def)
    ultimately show ?thesis by blast
  qed
qed

lemma lru_substituted:
  assumes "lru_ok s (xs @ b # ys)" "a \<notin> set (xs @ b # ys)" "heap s a = Some c"
  shows "\<exists>s'. lru_substitute (Some a) (Some b) s = Inr s' \<and> lru_ok s' (xs @ a # ys) \<and> lru_only s s'"
proof -
  obtain cb where cb: "heap s b = Some cb" "lru_prev cb = last_ptr None xs" "lru_next cb = hd_ptr ys None"
    using assms(1) by (auto simp: lru_ok_def)
  have d: "distinct (xs @ b # ys)" "a \<noteq> b" and seg: "dseg lru_next lru_prev (heap s) None xs (Some b)"
    "dseg lru_next lru_prev (heap s) (Some b) ys None"
    using assms(1,2) by (auto simp: lru_ok_def)
  show ?thesis
  proof (cases xs rule: rev_cases)
    case Nil
    show ?thesis
    proof (cases ys)
      case Nil': Nil
      let ?s = "s\<lparr>heap := (heap s)(a \<mapsto> c\<lparr>lru_next := None, lru_prev := None\<rparr>), lru_list_end := Some a, lru_list := Some a\<rparr>"
      have "lru_substitute (Some a) (Some b) s = Inr ?s" using Nil Nil' assms(3) cb d(2) by (simp add: lru_substitute_def)
      moreover have "lru_ok ?s (xs @ a # ys)" using Nil Nil' by (simp add: lru_ok_def)
      moreover have "lru_only s ?s" using assms(3) by (simp add: lru_only_def)
      ultimately show ?thesis by blast
    next
      case (Cons f fs)
      then obtain cf where cf: "heap s f = Some cf" "f \<noteq> a" "f \<noteq> b" "f \<notin> set fs" "lru_next cf = hd_ptr fs None" "dseg lru_next lru_prev (heap s) (Some f) fs None"
        using seg(2) assms(2) d Nil by auto
      let ?s = "s\<lparr>heap := (heap s)(a \<mapsto> c\<lparr>lru_next := Some f, lru_prev := None\<rparr>, f \<mapsto> cf\<lparr>lru_prev := Some a\<rparr>), lru_list := Some a\<rparr>"
      have "lru_substitute (Some a) (Some b) s = Inr ?s" using Nil Cons assms(3) cb d(2) cf(1-3) by (simp add: lru_substitute_def)
      moreover have "lru_ok ?s (xs @ a # ys)" using Nil Cons assms(1,2) cb d cf by (simp add: lru_ok_def)
      moreover have "lru_only s ?s" using assms(3) cf(1,2) by (simp add: lru_only_def)
      ultimately show ?thesis by blast
    qed
  next
    case (snoc us e)
    then obtain ce where ce: "heap s e = Some ce" using seg by auto
    have e: "e \<noteq> a" "e \<noteq> b" "e \<notin> set us" "e \<notin> set ys" "lru_prev ce = last_ptr None us" "dseg lru_next lru_prev (heap s) None us (Some e)"
      using snoc assms(2) d seg ce by auto
    show ?thesis
    proof (cases ys)
      case Nil
      let ?s = "s\<lparr>heap := (heap s)(a \<mapsto> c\<lparr>lru_next := None, lru_prev := Some e\<rparr>, e \<mapsto> ce\<lparr>lru_next := Some a\<rparr>), lru_list_end := Some a\<rparr>"
      have "lru_substitute (Some a) (Some b) s = Inr ?s"
        using snoc Nil assms(3) cb d(2) ce e(1,2) by (simp add: lru_substitute_def)
      moreover have "lru_ok ?s (xs @ a # ys)" using snoc Nil assms(1,2) cb d seg(2) e by (simp add: lru_ok_def)
      moreover have "lru_only s ?s" using assms(3) cb(1) ce by (simp add: lru_only_def)
      ultimately show ?thesis by blast
    next
      case (Cons f fs)
      then obtain cf where cf: "heap s f = Some cf" "f \<noteq> a" "f \<noteq> b" "f \<noteq> e" "f \<notin> set us" "f \<notin> set fs" "lru_next cf = hd_ptr fs None" "dseg lru_next lru_prev (heap s) (Some f) fs None"
        using seg(2) assms(2) d snoc by auto
      let ?s = "s\<lparr>heap := (heap s)(a \<mapsto> c\<lparr>lru_next := Some f, lru_prev := Some e\<rparr>, f \<mapsto> cf\<lparr>lru_prev := Some a\<rparr>, e \<mapsto> ce\<lparr>lru_next := Some a\<rparr>)\<rparr>"
      have "lru_substitute (Some a) (Some b) s = Inr ?s"
        using snoc Cons assms(3) cb d(2) ce cf(1-4) e(1,2) by (simp add: lru_substitute_def)
      moreover have "lru_ok ?s (xs @ a # ys)" using snoc Cons assms(1,2) cb d cf e by (simp add: lru_ok_def)
      moreover have "lru_only s ?s" using assms(3) cb(1) cf(1) ce by (simp add: lru_only_def)
      ultimately show ?thesis by blast
    qed
  qed
qed

lemma lru_unlinked:
  assumes "lru_ok s (xs @ a # ys)"
  shows "\<exists>s'. lru_unlink (Some a) s = Inr s' \<and> lru_ok s' (xs @ ys) \<and> lru_only s s'"
proof -
  obtain ca where ca: "heap s a = Some ca" "lru_prev ca = last_ptr None xs" "lru_next ca = hd_ptr ys None"
    using assms(1) by (auto simp: lru_ok_def)
  have d: "distinct (xs @ a # ys)" and seg: "dseg lru_next lru_prev (heap s) None xs (Some a)"
    "dseg lru_next lru_prev (heap s) (Some a) ys None"
    using assms(1) by (auto simp: lru_ok_def)
  show ?thesis
  proof (cases xs rule: rev_cases)
    case Nil
    then show ?thesis using assms ca d seg
      by (cases ys) (auto simp: lru_unlink_def lru_ok_def lru_only_def)
  next
    case (snoc us e)
    then obtain ce where ce: "heap s e = Some ce" using seg by auto
    have e: "e \<noteq> a" "e \<notin> set us" "e \<notin> set ys" using snoc d by auto
    show ?thesis using snoc assms ca d seg ce e
      by (cases ys) (auto simp: lru_unlink_def lru_ok_def lru_only_def)
  qed
qed

end
