(* ===== verification/CacheTable.thy ===== *)
theory CacheTable
  imports CacheLists
begin

text \<open>
  The page table of a file: what its list of ranges stands for, a map from pages to their
  attributes, the invariant of the cache, and the functions that only read the table.
\<close>

section \<open>The pages of a list of ranges\<close>

text \<open>The ranges are not empty and follow each other.\<close>

fun in_order :: "int \<Rightarrow> pr_t list \<Rightarrow> bool" where
  "in_order lo [] \<longleftrightarrow> True"
| "in_order lo (c # cs) \<longleftrightarrow> lo \<le> pr_start c \<and> pr_start c < pr_end c \<and> in_order (pr_end c) cs"

fun pages_in :: "pr_t list \<Rightarrow> int set" where
  "pages_in [] = {}"
| "pages_in (c # cs) = {pr_start c..<pr_end c} \<union> pages_in cs"

text \<open>The attributes of a page are those of its range without its place and links.\<close>

definition attrs :: "pr_t \<Rightarrow> pr_t" where
  "attrs c = c\<lparr>pr_start := 0, pr_end := 0, pr_next := None, pr_prev := None, lru_next := None, lru_prev := None,
     writeout_list := None, readahead_list := None\<rparr>"

fun page_at :: "pr_t list \<Rightarrow> int \<Rightarrow> pr_t option" where
  "page_at [] pg = None"
| "page_at (c # cs) pg = (if pr_start c \<le> pg \<and> pg < pr_end c then Some (attrs c) else page_at cs pg)"

lemma in_order_mono: "in_order lo cs \<Longrightarrow> lo' \<le> lo \<Longrightarrow> in_order lo' cs"
  by (cases cs) auto

lemma in_order_append:
  "in_order lo (xs @ ys) \<longleftrightarrow> in_order lo xs \<and> in_order (if xs = [] then lo else pr_end (last xs)) ys"
  by (induction xs arbitrary: lo) auto

lemma in_order_pages: "in_order lo cs \<Longrightarrow> pg \<in> pages_in cs \<Longrightarrow> lo \<le> pg"
  by (induction cs arbitrary: lo) force+

lemma pages_in_append [simp]: "pages_in (xs @ ys) = pages_in xs \<union> pages_in ys"
  by (induction xs) auto

lemma finite_pages_in [simp]: "finite (pages_in cs)"
  by (induction cs) auto

lemma page_at_append: "page_at (xs @ ys) pg = (case page_at xs pg of None \<Rightarrow> page_at ys pg | Some c \<Rightarrow> Some c)"
  by (induction xs) auto

lemma page_at_None: "page_at cs pg = None \<longleftrightarrow> pg \<notin> pages_in cs"
  by (induction cs) auto

text \<open>The number of pages is the sum of the lengths.\<close>

fun total_size :: "pr_t list \<Rightarrow> int" where
  "total_size [] = 0"
| "total_size (c # cs) = pr_end c - pr_start c + total_size cs"

lemma total_size_append [simp]: "total_size (xs @ ys) = total_size xs + total_size ys"
  by (induction xs) auto

lemma total_size_pages: "in_order lo cs \<Longrightarrow> total_size cs = int (card (pages_in cs))"
proof (induction cs arbitrary: lo)
  case (Cons c cs)
  then have "{pr_start c..<pr_end c} \<inter> pages_in cs = {}" using in_order_pages by fastforce
  moreover have "total_size cs = int (card (pages_in cs))" using Cons by (auto intro: Cons.IH)
  ultimately show ?case using Cons.prems by (simp add: card_Un_disjoint)
qed simp

section \<open>The tables in the heap\<close>

definition cells :: "(nat \<Rightarrow> pr_t option) \<Rightarrow> nat list \<Rightarrow> pr_t list" where
  "cells h as = map (\<lambda>a. the (h a)) as"

lemma cells_simps [simp]: "cells h [] = []" "cells h (a # as) = the (h a) # cells h as"
  "cells h (as @ bs) = cells h as @ cells h bs"
  by (simp_all add: cells_def)

lemma cells_upd_other [simp]: "a \<notin> set as \<Longrightarrow> cells (h(a := x)) as = cells h as"
  by (auto simp: cells_def)

lemma cells_Nil [simp]: "cells h as = [] \<longleftrightarrow> as = []"
  by (simp add: cells_def)

definition table :: "(nat \<Rightarrow> pr_t option) \<Rightarrow> int \<Rightarrow> nat list \<Rightarrow> bool" where
  "table h fid as \<longleftrightarrow> dseg pr_next pr_prev h None as None \<and> distinct as \<and>
     (\<forall>a\<in>set as. pr_fileid (the (h a)) = fid) \<and> (\<exists>lo. in_order lo (cells h as))"

definition heap_ok :: "dcache \<Rightarrow> bool" where
  "heap_ok s \<longleftrightarrow> (\<forall>a c. heap s a = Some c \<longrightarrow> a < heap_next s)"

text \<open>
  The invariant of the cache. \<open>T\<close> lists the ranges of each file, \<open>L\<close> the ranges in LRU order: the
  tables are well linked and ordered, the LRU list holds the ranges of all tables, and the free
  pages are those that the ranges leave.
\<close>

definition cache_ok :: "dcache \<Rightarrow> (int \<Rightarrow> nat list) \<Rightarrow> nat list \<Rightarrow> bool" where
  "cache_ok s T L \<longleftrightarrow> heap_ok s \<and> lru_ok s L \<and> set L = (\<Union>fid. set (T fid)) \<and>
     (\<forall>fid. table (heap s) fid (T fid)) \<and>
     (\<forall>fid. (case files s fid of None \<Rightarrow> T fid = []
        | Some f \<Rightarrow> pr_head f = hd_ptr (T fid) None \<and> (\<forall>a. pr_last f = Some a \<longrightarrow> a \<in> set (T fid)))) \<and>
     free_pages s = total_usable_pages s - total_size (cells (heap s) L)"

definition pages :: "dcache \<Rightarrow> (int \<Rightarrow> nat list) \<Rightarrow> int \<Rightarrow> int set" where
  "pages s T fid = pages_in (cells (heap s) (T fid))"

definition page :: "dcache \<Rightarrow> (int \<Rightarrow> nat list) \<Rightarrow> int \<Rightarrow> int \<Rightarrow> pr_t option" where
  "page s T fid pg = page_at (cells (heap s) (T fid)) pg"

lemma page_None: "page s T fid pg = None \<longleftrightarrow> pg \<notin> pages s T fid"
  by (simp add: page_def pages_def page_at_None)

lemma list_length_bound: "heap_ok s \<Longrightarrow> dseg nx pv (heap s) p as q \<Longrightarrow> distinct as \<Longrightarrow> length as \<le> heap_next s"
proof -
  assume h: "heap_ok s" "dseg nx pv (heap s) p as q" "distinct as"
  then have "set as \<subseteq> {..<heap_next s}" using dseg_dom by (fastforce simp: heap_ok_def)
  then show ?thesis using h(3) by (metis card_lessThan card_mono distinct_card finite_lessThan)
qed

lemma table_length: "cache_ok s T L \<Longrightarrow> length (T fid) \<le> heap_next s"
  using list_length_bound [of s pr_next pr_prev None "T fid" None] by (simp add: cache_ok_def table_def)

section \<open>Counting the missing pages\<close>

lemma to_int32_add: "to_int32 (to_int32 a + b) = to_int32 (a + b)"
proof -
  have "(((a + 2147483648) mod 4294967296 - 2147483648) + b + 2147483648) mod 4294967296 =
      (((a + 2147483648) mod 4294967296) + b) mod (4294967296::int)" by (simp add: algebra_simps)
  also have "\<dots> = ((a + 2147483648) + b) mod 4294967296" by (rule mod_add_left_eq)
  finally show ?thesis by (simp add: to_int32_def algebra_simps)
qed

lemma to_int32_0: "to_int32 0 = 0"
  by (simp add: to_int32_def)

lemma count_missing_step:
  assumes "in_order lo (c # cs)" "lo \<le> st" "st < en" "\<not> en \<le> pr_start c"
  shows "int (card ({st..<en} - pages_in (c # cs))) =
    (if st < pr_start c then pr_start c - st else 0) + int (card ({max st (pr_end c)..<en} - pages_in cs))"
proof -
  let ?s1 = "max st (pr_start c)"
  have cs: "pg \<in> pages_in cs \<Longrightarrow> pr_end c \<le> pg" for pg using assms(1) in_order_pages by auto
  have split: "{st..<en} - pages_in (c # cs) = {st..<?s1} \<union> ({max st (pr_end c)..<en} - pages_in cs)"
    using assms cs by (auto simp: max_def)  (use cs in fastforce)+
  have "{st..<?s1} \<inter> ({max st (pr_end c)..<en} - pages_in cs) = {}" using assms(1) by (auto simp: max_def)
  then show ?thesis unfolding split by (simp add: card_Un_disjoint max_def)
qed

lemma count_loop_missing:
  "dseg pr_next pr_prev (heap s) p as None \<Longrightarrow> in_order lo (cells (heap s) as) \<Longrightarrow> lo \<le> st \<Longrightarrow> st < en \<Longrightarrow> length as < n \<Longrightarrow>
   count_loop n (hd_ptr as None) st en (to_int32 m) s = Inr (to_int32 (m + int (card ({st..<en} - pages_in (cells (heap s) as)))))"
proof (induction as arbitrary: n p lo st m)
  case Nil
  then obtain k where "n = Suc k" by (cases n) auto
  with Nil show ?case by (simp add: to_int32_add)
next
  case (Cons a as)
  then obtain k where n: "n = Suc k" by (cases n) auto
  obtain c where c: "heap s a = Some c" "pr_next c = hd_ptr as None" "dseg pr_next pr_prev (heap s) (Some a) as None"
    using Cons.prems(1) by auto
  have ord: "in_order lo (c # cells (heap s) as)" using Cons.prems(2) c(1) by simp
  show ?case
  proof (cases "en \<le> pr_start c")
    case True
    have "pages_in (c # cells (heap s) as) \<inter> {st..<en} = {}"
      using True ord in_order_pages [of "pr_start c" "c # cells (heap s) as"] by fastforce
    then have "{st..<en} - pages_in (c # cells (heap s) as) = {st..<en}" by blast
    then show ?thesis using True Cons.prems(4) n c(1) by (simp add: to_int32_add)
  next
    case False
    let ?d = "if st < pr_start c then pr_start c - st else 0"
    have m: "(if st < pr_start c then to_int32 (to_int32 m + (pr_start c - st)) else to_int32 m) = to_int32 (m + ?d)"
      by (simp add: to_int32_add)
    note step = count_missing_step [OF ord Cons.prems(3,4) False]
    let ?s1 = "if st < pr_start c then pr_start c else st"
    show ?thesis
    proof (cases "en \<le> pr_end c")
      case True
      then have "{max st (pr_end c)..<en} = {}" by auto
      then show ?thesis using step n c(1) False True m Cons.prems(4) by (auto simp: Let_def)
    next
      case gt: False
      have "max st (pr_end c) \<noteq> en" using gt Cons.prems(4) by auto
      have s2: "(if ?s1 < pr_end c then pr_end c else ?s1) = max st (pr_end c)"
        using ord by auto
      have "count_loop k (hd_ptr as None) (max st (pr_end c)) en (to_int32 (m + ?d)) s =
          Inr (to_int32 (m + ?d + int (card ({max st (pr_end c)..<en} - pages_in (cells (heap s) as)))))"
        by (rule Cons.IH [OF c(3), where lo = "pr_end c"]) (use ord gt Cons.prems n in auto)
      moreover have "count_loop n (hd_ptr (a # as) None) st en (to_int32 m) s =
          count_loop k (hd_ptr as None) (max st (pr_end c)) en (to_int32 (m + ?d)) s"
        using n c False gt Cons.prems(4) m s2 \<open>max st (pr_end c) \<noteq> en\<close> by (simp add: Let_def)
      ultimately show ?thesis using step c(1) by (simp add: algebra_simps)
    qed
  qed
qed

text \<open>
  Claim C11. The walk counts exactly the pages of the interval that are not cached, whatever the
  ranges of the file; the number is an \<^verbatim>\<open>int\<close>.
\<close>

theorem countMissing_counts:
  assumes "cache_ok s T L" "files s fid \<noteq> None" "st < en"
  shows "walkCache_countMissing fid st en s = Inr (to_int32 (int (card ({st..<en} - pages s T fid))))"
proof -
  obtain f where f: "files s fid = Some f" "pr_head f = hd_ptr (T fid) None"
    using assms(1,2) by (fastforce simp: cache_ok_def split: option.splits)
  have "table (heap s) fid (T fid)" using assms(1) by (simp add: cache_ok_def)
  then obtain lo where t: "dseg pr_next pr_prev (heap s) None (T fid) None" "in_order lo (cells (heap s) (T fid))"
    by (auto simp: table_def)
  have "in_order (min lo st) (cells (heap s) (T fid))" using t(2) by (rule in_order_mono) simp
  from count_loop_missing [OF t(1) this _ assms(3), of "Suc (heap_next s)" 0] table_length [OF assms(1)]
  show ?thesis by (simp add: walkCache_countMissing_def file_of_def f pages_def to_int32_0 le_imp_less_Suc del: count_loop.simps)
qed

text \<open>A cache of 64 pages with the pages 2 to 5 of the file 0.\<close>

definition one_range_cache :: dcache where
  "one_range_cache = (DiskCache_initialize 64 64 0 0 0 0 (-1) 8 8 True None)
     \<lparr>free_pages := 60, lru_list := Some 0, lru_list_end := Some 0, heap := (\<lambda>_. None)(0 \<mapsto> new_pr 0 2 6 False None None), heap_next := 1,
      fileIDs := [0], files := (\<lambda>_. None)(0 \<mapsto> \<lparr> f_id = 0, o_sync = False, o_direct = False, f_ra = new_ra,
        pr_head = Some 0, pr_last = None \<rparr>)\<rparr>"

lemma one_range_ok: "cache_ok one_range_cache ((\<lambda>_. [])(0 := [0])) [0]"
  by (auto simp: one_range_cache_def DiskCache_initialize_def cache_ok_def heap_ok_def lru_ok_def table_def new_pr_def split: if_splits)

theorem countMissing_counts_witness: "walkCache_countMissing 0 0 8 one_range_cache = Inr 4"
proof -
  have "pages one_range_cache ((\<lambda>_. [])(0 := [0])) 0 = {2..<6}" by (simp add: pages_def one_range_cache_def new_pr_def)
  moreover have "{0..<8} - {2..<6} = {0, 1, 6, 7::int}" by auto
  ultimately show ?thesis
    using countMissing_counts [OF one_range_ok, of 0 0 8] by (simp add: one_range_cache_def to_int32_def)
qed

end
