(* ===== verification/CacheWalk.thy ===== *)
theory CacheWalk
  imports CacheTable
begin

text \<open>
  \<^verbatim>\<open>walkCache_update\<close> keeps the invariant of the cache and updates the attributes of exactly the
  pages of its interval.
\<close>

section \<open>The data of a range\<close>

definition core :: "pr_t \<Rightarrow> pr_t" where
  "core c = c\<lparr>lru_next := None, lru_prev := None, pr_next := None, pr_prev := None\<rparr>"

lemma core_upd [simp]:
  "core (c\<lparr>pr_next := p\<rparr>) = core c" "core (c\<lparr>pr_prev := p\<rparr>) = core c"
  "core (c\<lparr>lru_next := p\<rparr>) = core c" "core (c\<lparr>lru_prev := p\<rparr>) = core c"
  "core (c\<lparr>pr_start := i\<rparr>) = (core c)\<lparr>pr_start := i\<rparr>" "core (c\<lparr>pr_end := i\<rparr>) = (core c)\<lparr>pr_end := i\<rparr>"
  by (simp_all add: core_def)

lemma core_sel [simp]:
  "pr_start (core c) = pr_start c" "pr_end (core c) = pr_end c" "attrs (core c) = attrs c" "pr_fileid (core c) = pr_fileid c"
  by (simp_all add: core_def attrs_def)

lemma no_lru_core: "no_lru c = no_lru d \<Longrightarrow> core c = core d"
  by (drule arg_cong [where f = "\<lambda>c. c\<lparr>pr_next := None, pr_prev := None\<rparr>"]) (simp add: no_lru_def core_def)

lemma in_order_core [simp]: "in_order lo (map core cs) = in_order lo cs"
  by (induction cs arbitrary: lo) auto

lemma page_at_core [simp]: "page_at (map core cs) pg = page_at cs pg"
  by (induction cs) auto

lemma pages_in_core [simp]: "pages_in (map core cs) = pages_in cs"
  by (induction cs) auto

lemma total_size_core [simp]: "total_size (map core cs) = total_size cs"
  by (induction cs) auto

lemma cells_core_cong:
  "(\<And>a. a \<in> set as \<Longrightarrow> map_option core (h' a) = map_option core (h a)) \<Longrightarrow> map core (cells h' as) = map core (cells h as)"
proof (induction as)
  case (Cons a as)
  have "map_option core (h' a) = map_option core (h a)" using Cons.prems [of a] by simp
  then have "core (the (h' a)) = core (the (h a))" by (cases "h a"; cases "h' a") auto
  with Cons show ?case by simp
qed simp

lemma tab_upd_core [simp]:
  "map_option core (tab.upd p (\<lambda>c. c\<lparr>pr_next := q\<rparr>) h a) = map_option core (h a)"
  "map_option core (tab.upd p (\<lambda>c. c\<lparr>pr_prev := q\<rparr>) h a) = map_option core (h a)"
  by (cases p; auto simp: option.map_comp o_def)+

lemma tab_upd_None [simp]: "tab.upd p f h a = None \<longleftrightarrow> h a = None"
  by (cases p) auto

lemma tab_upd_other: "p \<noteq> Some a \<Longrightarrow> tab.upd p f h a = h a"
  by (cases p) auto

lemma tab_upd_agree: "h a = h' a \<Longrightarrow> tab.upd p f h a = tab.upd p f h' a"
  by (cases p) auto

section \<open>A step of the tables\<close>

text \<open>
  From the heap \<open>h\<close> with the table \<open>as\<close> of a file to \<open>h'\<close> with the table \<open>as'\<close>, whose data is \<open>D\<close>;
  addresses from \<open>n\<close> on are new. The links of the LRU list do not count.
\<close>

definition heap_step :: "int \<Rightarrow> nat \<Rightarrow> (nat \<Rightarrow> pr_t option) \<Rightarrow> nat list \<Rightarrow> (nat \<Rightarrow> pr_t option) \<Rightarrow> nat list \<Rightarrow> pr_t list \<Rightarrow> bool" where
  "heap_step fid n h as h' as' D \<longleftrightarrow>
     dseg pr_next pr_prev h' None as' None \<and> distinct as' \<and> (\<forall>a\<in>set as'. pr_fileid (the (h' a)) = fid) \<and>
     (\<forall>a. a \<notin> set as \<longrightarrow> a < n \<longrightarrow> map_option no_lru (h' a) = map_option no_lru (h a)) \<and>
     (\<forall>a\<in>set as'. a \<in> set as \<or> n \<le> a) \<and> map core (cells h' as') = D"

lemma heap_step_lru:
  assumes "heap_step fid n h as h' as' D" "\<And>a. map_option no_lru (h'' a) = map_option no_lru (h' a)"
  shows "heap_step fid n h as h'' as' D"
proof -
  have eq: "(h' a = None \<and> h'' a = None) \<or> (\<exists>c d. h' a = Some c \<and> h'' a = Some d \<and> no_lru d = no_lru c)" for a
    using assms(2) [of a] by (cases "h' a"; cases "h'' a") auto
  have "map_option pr_next (h'' a) = map_option pr_next (h' a)" "map_option pr_prev (h'' a) = map_option pr_prev (h' a)"
    "map_option core (h'' a) = map_option core (h' a)" for a
    using eq [of a] by (auto dest: no_lru_fields no_lru_core)
  moreover have "pr_fileid (the (h'' a)) = pr_fileid (the (h' a))" for a using eq [of a] by (auto dest: no_lru_fields)
  ultimately show ?thesis
    using assms(1) dseg_cong [of as' pr_next h'' h' pr_prev] cells_core_cong [of as' h'' h']
    by (simp add: heap_step_def assms(2))
qed

text \<open>The fields that the walk leaves alone.\<close>

definition other_fields :: "dcache \<Rightarrow> dcache" where
  "other_fields s = s\<lparr>heap := (\<lambda>_. None), lru_list := None, lru_list_end := None, heap_next := 0, free_pages := 0,
     dirty_pages := 0, files := (\<lambda>_. None)\<rparr>"

lemma other_fields_upd [simp]:
  "other_fields (s\<lparr>heap := h\<rparr>) = other_fields s" "other_fields (s\<lparr>heap_next := n\<rparr>) = other_fields s"
  "other_fields (s\<lparr>free_pages := i\<rparr>) = other_fields s" "other_fields (s\<lparr>dirty_pages := i\<rparr>) = other_fields s"
  "other_fields (upd_file fid f s) = other_fields s"
  by (simp_all add: other_fields_def upd_file_def)

lemma other_fields_lru: "rest_of s' = rest_of s \<Longrightarrow> other_fields s' = other_fields s"
  by (drule arg_cong [where f = "\<lambda>s. s\<lparr>heap_next := 0, free_pages := 0, dirty_pages := 0, files := (\<lambda>_. None)\<rparr>"]) (simp add: other_fields_def rest_of_def)

lemma rest_fields:
  "rest_of s' = rest_of s \<Longrightarrow> files s' = files s \<and> free_pages s' = free_pages s \<and> dirty_pages s' = dirty_pages s \<and>
     heap_next s' = heap_next s \<and> total_usable_pages s' = total_usable_pages s"
  by (drule arg_cong [where f = "\<lambda>s. (files s, free_pages s, dirty_pages s, heap_next s, total_usable_pages s)"]) (simp add: rest_of_def)

lemma other_fields_sel:
  "other_fields s' = other_fields s \<Longrightarrow> total_usable_pages s' = total_usable_pages s \<and> trimCacheCounter s' = trimCacheCounter s \<and>
     trimCacheInt s' = trimCacheInt s"
  by (drule arg_cong [where f = "\<lambda>s. (total_usable_pages s, trimCacheCounter s, trimCacheInt s)"]) (simp add: other_fields_def)

lemma total_size_sum: "distinct as \<Longrightarrow> total_size (cells h as) = (\<Sum>a\<in>set as. pr_end (the (h a)) - pr_start (the (h a)))"
  by (induction as) auto

text \<open>A step keeps the invariant if the new table is in order and the free pages are accounted for.\<close>

lemma cache_ok_step:
  assumes ok: "cache_ok s T L" and step: "heap_step fid (heap_next s) (heap s) (T fid) (heap s') as' D"
    and files: "files s' = (files s)(fid \<mapsto> f)" "files s fid \<noteq> None" "pr_head f = hd_ptr as' None"
      "\<forall>a. pr_last f = Some a \<longrightarrow> a \<in> set as'"
    and lru: "lru_ok s' L'" "set L' = set L - set (T fid) \<union> set as'" and h: "heap_ok s'"
    and D: "in_order lo D" and free: "free_pages s' + total_size D = free_pages s + total_size (cells (heap s) (T fid))"
    and usable: "total_usable_pages s' = total_usable_pages s"
  shows "cache_ok s' (T(fid := as')) L' \<and>
    (\<forall>g pg. page s' (T(fid := as')) g pg = (if g = fid then page_at D pg else page s T g pg))"
proof -
  note inv = ok [unfolded cache_ok_def]
  have tabs: "table (heap s) g (T g)" for g using inv by blast
  have step': "dseg pr_next pr_prev (heap s') None as' None" "distinct as'" "\<And>a. a \<in> set as' \<Longrightarrow> pr_fileid (the (heap s' a)) = fid"
    "\<And>a. a \<notin> set (T fid) \<Longrightarrow> a < heap_next s \<Longrightarrow> map_option no_lru (heap s' a) = map_option no_lru (heap s a)"
    "\<And>a. a \<in> set as' \<Longrightarrow> a \<in> set (T fid) \<or> heap_next s \<le> a" "map core (cells (heap s') as') = D"
    using step by (auto simp: heap_step_def)
  have old: "a < heap_next s" if "a \<in> set (T g)" for a g
  proof -
    have "dseg pr_next pr_prev (heap s) None (T g) None" using tabs [of g] by (simp add: table_def)
    from dseg_dom [OF this that] obtain c where "heap s a = Some c" by blast
    then show ?thesis using inv by (simp add: heap_ok_def)
  qed
  have apart: "a \<notin> set (T fid)" if "a \<in> set (T g)" "g \<noteq> fid" for a g
    using tabs [of g] tabs [of fid] that by (auto simp: table_def)
  have same: "map_option no_lru (heap s' a) = map_option no_lru (heap s a)" if "a \<in> set (T g)" "g \<noteq> fid" for a g
    using step'(4) apart old that by blast
  have same_core: "core (the (heap s' a)) = core (the (heap s a)) \<and> map_option pr_next (heap s' a) = map_option pr_next (heap s a) \<and>
      map_option pr_prev (heap s' a) = map_option pr_prev (heap s a)" if "a \<in> set (T g)" "g \<noteq> fid" for a g
    using same [OF that] by (cases "heap s a"; cases "heap s' a") (auto dest: no_lru_core no_lru_fields)
  have cells_g: "map core (cells (heap s') (T g)) = map core (cells (heap s) (T g))" if "g \<noteq> fid" for g
    using same_core [OF _ that] by (simp add: cells_def)
  have table_g: "table (heap s') g (T g)" if "g \<noteq> fid" for g
  proof -
    have "in_order l (cells (heap s') (T g)) = in_order l (cells (heap s) (T g))" for l
      using cells_g [OF that] by (metis in_order_core)
    moreover have "pr_fileid (the (heap s' a)) = pr_fileid (the (heap s a))" if "a \<in> set (T g)" for a
      using same_core [OF that \<open>g \<noteq> fid\<close>] by (metis core_sel(4))
    ultimately show ?thesis
      using tabs [of g] dseg_cong [of "T g" pr_next "heap s'" "heap s" pr_prev] same_core [OF _ that] by (simp add: table_def)
  qed
  have "table (heap s') fid as'" using step'(1-3,6) D by (auto simp: table_def)
  with table_g have t: "\<forall>g. table (heap s') g ((T(fid := as')) g)" by simp
  have L: "distinct L" "set L = (\<Union>g. set (T g))" "distinct L'" using inv lru by (auto simp: lru_ok_def)
  have setL': "set L' = (\<Union>g. set ((T(fid := as')) g))"
    unfolding lru(2) L(2) using apart by (auto split: if_splits)
  have rest: "a \<in> set L - set (T fid) \<Longrightarrow> core (the (heap s' a)) = core (the (heap s a))" for a
    using L(2) same_core by auto
  have disj: "(set L - set (T fid)) \<inter> set as' = {}" using step'(5) L(2) old by fastforce
  let ?size = "\<lambda>h a. pr_end (the (h a)) - pr_start (the (h a)) :: int"
  have sub: "set (T fid) \<subseteq> set L" using L(2) by auto
  have "total_size (cells (heap s') L') = (\<Sum>a\<in>set L - set (T fid). ?size (heap s') a) + (\<Sum>a\<in>set as'. ?size (heap s') a)"
    using disj L(3) by (simp add: total_size_sum lru(2) sum.union_disjoint)
  also have "(\<Sum>a\<in>set L - set (T fid). ?size (heap s') a) = (\<Sum>a\<in>set L - set (T fid). ?size (heap s) a)"
    by (intro sum.cong refl) (metis rest core_sel(1,2))
  also have "(\<Sum>a\<in>set as'. ?size (heap s') a) = total_size D"
    using total_size_sum [OF step'(2), of "heap s'"] step'(6) by (metis total_size_core)
  also have "(\<Sum>a\<in>set L - set (T fid). ?size (heap s) a) = total_size (cells (heap s) L) - total_size (cells (heap s) (T fid))"
    using sub L(1) tabs [of fid] by (simp add: total_size_sum table_def sum_diff)
  finally have size: "total_size (cells (heap s') L') = total_size (cells (heap s) L) - total_size (cells (heap s) (T fid)) + total_size D" .
  have "case files s' g of None \<Rightarrow> (T(fid := as')) g = []
      | Some f \<Rightarrow> pr_head f = hd_ptr ((T(fid := as')) g) None \<and> (\<forall>a. pr_last f = Some a \<longrightarrow> a \<in> set ((T(fid := as')) g))" for g
  proof (cases "g = fid")
    case True
    then show ?thesis using files by simp
  next
    case False
    moreover have "case files s g of None \<Rightarrow> T g = []
      | Some f \<Rightarrow> pr_head f = hd_ptr (T g) None \<and> (\<forall>a. pr_last f = Some a \<longrightarrow> a \<in> set (T g))" using inv by blast
    ultimately show ?thesis by (cases "files s g") (simp_all add: files(1))
  qed
  then have ok': "cache_ok s' (T(fid := as')) L'"
    using h lru(1) setL' t size free usable inv unfolding cache_ok_def by simp
  moreover have "page s' (T(fid := as')) g pg = (if g = fid then page_at D pg else page s T g pg)" for g pg
  proof (cases "g = fid")
    case True
    then show ?thesis using step'(6) by (auto simp: page_def)
  next
    case False
    then show ?thesis using arg_cong [OF cells_g [OF False], of "\<lambda>cs. page_at cs pg"] by (simp add: page_def)
  qed
  ultimately show ?thesis by blast
qed


section \<open>Pages that are not cached\<close>

lemma tab_ends [simp]:
  "(if xs = [] then None else last_ptr None xs) = last_ptr None xs" "(if ys = [] then None else hd_ptr ys None) = hd_ptr ys None"
  by (cases xs; simp) (cases ys; simp)

definition fresh_pr :: "bool \<Rightarrow> pr_t \<Rightarrow> pr_t" where
  "fresh_pr r addp = (copy_pr addp)\<lparr>PG_locked := True, PG_dirty := PG_dirty addp \<or> \<not> r\<rparr>"

lemma fresh_pr_sel [simp]:
  "pr_next (fresh_pr r addp) = pr_next addp" "pr_prev (fresh_pr r addp) = pr_prev addp" "pr_start (fresh_pr r addp) = pr_start addp"
  "pr_end (fresh_pr r addp) = pr_end addp" "pr_fileid (fresh_pr r addp) = pr_fileid addp"
  by (simp_all add: fresh_pr_def copy_pr_def)

lemma upd_same [simp]:
  "pr_next t = p \<Longrightarrow> t\<lparr>pr_next := p\<rparr> = t" "pr_prev t = p \<Longrightarrow> t\<lparr>pr_prev := p\<rparr> = t" "pr_end t = i \<Longrightarrow> t\<lparr>pr_end := i\<rparr> = t"
  by (cases t; simp)+

text \<open>The state after a range with the address \<open>tmp\<close> has been put between \<open>xs\<close> and \<open>ys\<close>.\<close>

definition linked_heap :: "(nat \<Rightarrow> pr_t option) \<Rightarrow> nat list \<Rightarrow> nat \<Rightarrow> pr_t \<Rightarrow> int \<Rightarrow> nat list \<Rightarrow> nat \<Rightarrow> pr_t option" where
  "linked_heap h xs tmp t e ys =
     tab.upd (last_ptr None xs) (\<lambda>c. c\<lparr>pr_next := Some tmp\<rparr>)
       (tab.upd (hd_ptr ys None) (\<lambda>c. c\<lparr>pr_prev := Some tmp\<rparr>)
         (h(tmp \<mapsto> t\<lparr>pr_next := hd_ptr ys None, pr_prev := last_ptr None xs, pr_end := e\<rparr>)))"

definition head_if :: "bool \<Rightarrow> int \<Rightarrow> nat \<Rightarrow> dcache \<Rightarrow> dcache" where
  "head_if b fid tmp s = (if b then upd_file fid (\<lambda>f. f\<lparr>pr_head := Some tmp\<rparr>) s else s)"

lemma upd_file_sel [simp]:
  "heap (upd_file fid f s) = heap s" "heap_next (upd_file fid f s) = heap_next s" "free_pages (upd_file fid f s) = free_pages s"
  "dirty_pages (upd_file fid f s) = dirty_pages s" "lru_list (upd_file fid f s) = lru_list s"
  "lru_list_end (upd_file fid f s) = lru_list_end s" "total_usable_pages (upd_file fid f s) = total_usable_pages s"
  by (simp_all add: upd_file_def)

lemma head_if_sel [simp]:
  "heap (head_if b fid tmp s) = heap s" "heap_next (head_if b fid tmp s) = heap_next s"
  "free_pages (head_if b fid tmp s) = free_pages s" "dirty_pages (head_if b fid tmp s) = dirty_pages s"
  "lru_list (head_if b fid tmp s) = lru_list s" "lru_list_end (head_if b fid tmp s) = lru_list_end s"
  "total_usable_pages (head_if b fid tmp s) = total_usable_pages s" "other_fields (head_if b fid tmp s) = other_fields s"
  by (simp_all add: head_if_def)

lemma upd_file_heap [simp]: "upd_file fid f (s\<lparr>heap := h\<rparr>) = (upd_file fid f s)\<lparr>heap := h\<rparr>"
  "upd_file fid f (s\<lparr>heap_next := n\<rparr>) = (upd_file fid f s)\<lparr>heap_next := n\<rparr>"
  by (simp_all add: upd_file_def)

lemma heap_before_next [simp]: "s\<lparr>heap_next := n, heap := h\<rparr> = s\<lparr>heap := h, heap_next := n\<rparr>"
  by simp

lemma walk_miss_run:
  assumes mode: "preop" "disk = r" and tmp: "tmp = heap_next s" "tmp \<notin> set (xs @ ys)"
    and dom: "\<forall>a\<in>set (xs @ ys). heap s a \<noteq> None" and d: "distinct (xs @ ys)"
    and addp: "pr_next addp = None" "pr_prev addp = None"
    and e: "e = (if ys = [] \<or> pr_end addp \<le> pr_start (the (heap s (hd ys))) then pr_end addp else pr_start (the (heap s (hd ys))))"
    and free: "e - pr_start addp \<le> free_pages s"
  shows "walk_miss fid preop disk r addp (last_ptr None xs) (hd_ptr ys None) s =
    bindR (lru_push (Some tmp) ((head_if (xs = []) fid tmp s)
       \<lparr>heap := linked_heap (heap s) xs tmp (fresh_pr r addp) e ys, heap_next := Suc tmp,
        free_pages := free_pages s - (e - pr_start addp), dirty_pages := dirty_pages s + (if r then 0 else e - pr_start addp)\<rparr>))
     (\<lambda>s'. Inr (if ys = [] \<or> pr_end addp \<le> pr_start (the (heap s (hd ys))) then None
                 else Some (addp\<lparr>pr_start := e\<rparr>), Some tmp, upd_file fid (\<lambda>f. f\<lparr>pr_last := last_ptr None xs\<rparr>) s'))"
proof (cases ys)
  case Nil
  show ?thesis
  proof (cases xs rule: rev_cases)
    case Nil': Nil
    show ?thesis using assms Nil Nil'
      unfolding walk_miss_def fresh_pr_def [symmetric] by (simp add: alloc_def linked_heap_def head_if_def)
  next
    case (snoc us a)
    then obtain ca where "heap s a = Some ca" using dom by auto
    then show ?thesis using assms Nil snoc
      unfolding walk_miss_def fresh_pr_def [symmetric] by (simp add: alloc_def linked_heap_def head_if_def)
  qed
next
  case (Cons b bs)
  then obtain cb where cb: "heap s b = Some cb" using dom by auto
  have e': "e = (if pr_end addp \<le> pr_start cb then pr_end addp else pr_start cb)" using e Cons cb by simp
  show ?thesis
  proof (cases xs rule: rev_cases)
    case Nil': Nil
    note twist = fun_upd_twist [of "heap_next s" b]
    show ?thesis
    proof (cases "pr_end addp \<le> pr_start cb")
      case True
      then show ?thesis using mode tmp d addp free e' Cons Nil' cb
        unfolding walk_miss_def fresh_pr_def [symmetric] by (simp add: alloc_def linked_heap_def head_if_def twist)
    next
      case False
      then show ?thesis using mode tmp d addp free e' Cons Nil' cb
        unfolding walk_miss_def fresh_pr_def [symmetric] by (simp add: alloc_def linked_heap_def head_if_def twist)
    qed
  next
    case (snoc us a)
    then obtain ca where ca: "heap s a = Some ca" using dom by auto
    note twist = fun_upd_twist [of "heap_next s" b] fun_upd_twist [of "heap_next s" a]
    show ?thesis
    proof (cases "pr_end addp \<le> pr_start cb")
      case True
      then show ?thesis using mode tmp d addp free e' Cons snoc cb ca
        unfolding walk_miss_def fresh_pr_def [symmetric] by (simp add: alloc_def linked_heap_def head_if_def twist)
    next
      case False
      then show ?thesis using mode tmp d addp free e' Cons snoc cb ca
        unfolding walk_miss_def fresh_pr_def [symmetric] by (simp add: alloc_def linked_heap_def head_if_def twist)
    qed
  qed
qed


lemma cells_cong: "(\<And>a. a \<in> set as \<Longrightarrow> h' a = h a) \<Longrightarrow> cells h' as = cells h as"
  by (simp add: cells_def)

text \<open>The part of a heap that the LRU list uses.\<close>

definition same_lru :: "nat list \<Rightarrow> (nat \<Rightarrow> pr_t option) \<Rightarrow> (nat \<Rightarrow> pr_t option) \<Rightarrow> bool" where
  "same_lru L h h' \<longleftrightarrow> (\<forall>a\<in>set L. map_option (\<lambda>c. (lru_next c, lru_prev c)) (h' a) = map_option (\<lambda>c. (lru_next c, lru_prev c)) (h a))"

lemma same_lru_ok:
  assumes "lru_ok s L" "same_lru L (heap s) (heap s')" "lru_list s' = lru_list s" "lru_list_end s' = lru_list_end s"
  shows "lru_ok s' L"
proof -
  have "map_option lru_next (heap s' a) = map_option lru_next (heap s a) \<and> map_option lru_prev (heap s' a) = map_option lru_prev (heap s a)"
    if "a \<in> set L" for a
    using assms(2) that unfolding same_lru_def by (cases "heap s a"; cases "heap s' a") force+
  then have "dseg lru_next lru_prev (heap s') None L None = dseg lru_next lru_prev (heap s) None L None" by (rule dseg_cong)
  then show ?thesis using assms by (simp add: lru_ok_def)
qed

lemma tab_upd_lru [simp]:
  "map_option (\<lambda>c. (lru_next c, lru_prev c)) (tab.upd p (\<lambda>c. c\<lparr>pr_next := q\<rparr>) h a) = map_option (\<lambda>c. (lru_next c, lru_prev c)) (h a)"
  "map_option (\<lambda>c. (lru_next c, lru_prev c)) (tab.upd p (\<lambda>c. c\<lparr>pr_prev := q\<rparr>) h a) = map_option (\<lambda>c. (lru_next c, lru_prev c)) (h a)"
  by (cases p; auto simp: option.map_comp o_def)+

lemma page_at_beyond: "\<forall>c\<in>set cs. pr_end c \<le> pg \<Longrightarrow> page_at cs pg = None"
  by (induction cs) auto

text \<open>What every step of the walk needs of the cache.\<close>

lemma cache_table:
  assumes "cache_ok s T L"
  shows "dseg pr_next pr_prev (heap s) None (T fid) None" "distinct (T fid)" "\<forall>a\<in>set (T fid). pr_fileid (the (heap s a)) = fid"
    "\<exists>lo. in_order lo (cells (heap s) (T fid))" "\<forall>a\<in>set (T fid). heap s a \<noteq> None" "\<forall>a\<in>set (T fid). a < heap_next s"
proof -
  have t: "table (heap s) fid (T fid)" "heap_ok s" using assms by (simp_all add: cache_ok_def)
  then show "dseg pr_next pr_prev (heap s) None (T fid) None" "distinct (T fid)" "\<forall>a\<in>set (T fid). pr_fileid (the (heap s a)) = fid"
    "\<exists>lo. in_order lo (cells (heap s) (T fid))" by (auto simp: table_def)
  then show dom: "\<forall>a\<in>set (T fid). heap s a \<noteq> None" using dseg_dom by fastforce
  then show "\<forall>a\<in>set (T fid). a < heap_next s" using t(2) by (auto simp: heap_ok_def)
qed

lemma cache_lru:
  assumes "cache_ok s T L"
  shows "lru_ok s L" "set (T fid) \<subseteq> set L" "heap_next s \<notin> set L" "\<forall>a\<in>set L. heap s a \<noteq> None"
proof -
  have L: "set L = (\<Union>g. set (T g))" "lru_ok s L" using assms by (simp_all add: cache_ok_def)
  then show "lru_ok s L" "set (T fid) \<subseteq> set L" by auto
  have "\<forall>a\<in>set (T g). heap s a \<noteq> None \<and> a < heap_next s" for g using cache_table [OF assms] by blast
  then show "heap_next s \<notin> set L" "\<forall>a\<in>set L. heap s a \<noteq> None" unfolding L(1) by auto
qed

lemma linked_heap_step:
  assumes "dseg pr_next pr_prev h None (xs @ us @ ys) None" "distinct (xs @ ys)" "\<forall>a\<in>set (xs @ ys). pr_fileid (the (h a)) = fid \<and> h a \<noteq> None"
    and tmp: "tmp \<notin> set (xs @ ys)" "n \<le> tmp" "pr_fileid t = fid"
  shows "heap_step fid n h (xs @ us @ ys) (linked_heap h xs tmp t e ys) (xs @ tmp # ys)
    (map core (cells h xs) @ core (t\<lparr>pr_end := e\<rparr>) # map core (cells h ys))"
proof -
  let ?g = "h(tmp \<mapsto> t\<lparr>pr_next := hd_ptr ys None, pr_prev := last_ptr None xs, pr_end := e\<rparr>)"
  let ?h = "linked_heap h xs tmp t e ys"
  have g_same: "?g a = h a" if "a \<in> set xs \<union> set ys" for a using that tmp(1) by auto
  have mid: "dseg pr_next pr_prev ?g (last_ptr None xs) [tmp] (hd_ptr ys None)" by simp
  have seg: "dseg pr_next pr_prev ?h None (xs @ [tmp] @ ys) None"
    using tab.seg_replace [of h None xs us ys None ?g "[tmp]", OF _ assms(2) g_same _ _ mid] assms(1) tmp(1)
    unfolding linked_heap_def by (simp del: dseg_append dseg.simps)
  have out: "last_ptr None xs \<noteq> Some tmp" "hd_ptr ys None \<noteq> Some tmp"
    using tmp(1) by (cases xs rule: rev_cases; cases ys; auto)+
  have core_h: "map_option core (?h a) = map_option core (?g a)" for a by (simp add: linked_heap_def)
  have fid: "pr_fileid (the (?h a)) = fid" if "a \<in> set (xs @ tmp # ys)" for a
  proof -
    have "?h a \<noteq> None" using that assms(3) by (auto simp: linked_heap_def)
    then obtain c where c: "?h a = Some c" by auto
    with core_h [of a] obtain d where "?g a = Some d" "core c = core d" by (cases "?g a") auto
    moreover from this(1) have "pr_fileid d = fid" using that assms(3) [rule_format, of a] tmp(3) by (auto split: if_splits)
    ultimately show ?thesis using c by (metis core_sel(4) option.sel)
  qed
  have far: "?h a = h a" if "a \<notin> set (xs @ ys)" "a < n" for a
  proof -
    have "last_ptr None xs \<noteq> Some a" "hd_ptr ys None \<noteq> Some a" using that(1) by (cases xs rule: rev_cases; cases ys; auto)+
    then show ?thesis using that(2) tmp(2) by (simp add: linked_heap_def tab_upd_other)
  qed
  have "map core (cells ?h (xs @ tmp # ys)) = map core (cells ?g (xs @ tmp # ys))"
    by (rule cells_core_cong) (simp add: core_h)
  also have "\<dots> = map core (cells h xs) @ core (t\<lparr>pr_end := e\<rparr>) # map core (cells h ys)"
    using tmp(1) by simp
  finally show ?thesis using seg assms(2) tmp fid far by (auto simp: heap_step_def)
qed

lemma linked_heap_lru: "tmp \<notin> set L \<Longrightarrow> same_lru L h (linked_heap h xs tmp t e ys)"
  by (auto simp: same_lru_def linked_heap_def)

lemma linked_heap_tmp:
  assumes "tmp \<notin> set (xs @ ys)"
  shows "linked_heap h xs tmp t e ys tmp = Some (t\<lparr>pr_next := hd_ptr ys None, pr_prev := last_ptr None xs, pr_end := e\<rparr>)"
proof -
  have "last_ptr None xs \<noteq> Some tmp" "hd_ptr ys None \<noteq> Some tmp"
    using assms by (cases xs rule: rev_cases; cases ys; auto)+
  then show ?thesis by (simp add: linked_heap_def tab_upd_other)
qed

lemma linked_heap_dom: "linked_heap h xs tmp t e ys a \<noteq> None \<longleftrightarrow> a = tmp \<or> h a \<noteq> None"
  by (simp add: linked_heap_def)


text \<open>
  The pages of \<open>fid\<close> from \<open>lo\<close> to \<open>hi\<close> get the attributes \<open>new\<close>, which may depend on those they had;
  the other pages and the rest of the state are the same.
\<close>

definition updates :: "int \<Rightarrow> int \<Rightarrow> int \<Rightarrow> (pr_t option \<Rightarrow> pr_t) \<Rightarrow> dcache \<Rightarrow> (int \<Rightarrow> nat list) \<Rightarrow> dcache \<Rightarrow> (int \<Rightarrow> nat list) \<Rightarrow> bool" where
  "updates fid lo hi new s T s' T' \<longleftrightarrow>
     (\<forall>g pg. page s' T' g pg = (if g = fid \<and> lo \<le> pg \<and> pg < hi then Some (new (page s T g pg)) else page s T g pg)) \<and>
     other_fields s' = other_fields s \<and> (\<forall>g. (files s' g = None) = (files s g = None))"

lemma updates_trans:
  "updates fid lo mid new s T s1 T1 \<Longrightarrow> updates fid mid hi new s1 T1 s' T' \<Longrightarrow> lo \<le> mid \<Longrightarrow> mid \<le> hi \<Longrightarrow>
   updates fid lo hi new s T s' T'"
  by (auto simp: updates_def)

lemma upd_file_files [simp]: "files (upd_file fid f s) = (files s)(fid := map_option f (files s fid))"
  by (simp add: upd_file_def)

lemma head_if_files: "files s fid = Some f \<Longrightarrow>
  files (head_if b fid tmp s) = (files s)(fid \<mapsto> (if b then f\<lparr>pr_head := Some tmp\<rparr> else f))"
  by (auto simp: head_if_def)

definition addp_ok :: "int \<Rightarrow> bool \<Rightarrow> pr_t \<Rightarrow> bool" where
  "addp_ok fid r addp \<longleftrightarrow> pr_fileid addp = fid \<and> pr_next addp = None \<and> pr_prev addp = None \<and> PG_dirty addp = (\<not> r) \<and>
     pr_start addp < pr_end addp"

lemma attrs_upd [simp]: "attrs (c\<lparr>pr_start := i\<rparr>) = attrs c" "attrs (c\<lparr>pr_end := i\<rparr>) = attrs c"
  by (simp_all add: attrs_def)

lemma cache_file:
  assumes "cache_ok s T L" "files s fid = Some f"
  shows "pr_head f = hd_ptr (T fid) None" "pr_last f = Some a \<Longrightarrow> a \<in> set (T fid)"
proof -
  have "case files s fid of None \<Rightarrow> T fid = []
      | Some f \<Rightarrow> pr_head f = hd_ptr (T fid) None \<and> (\<forall>a. pr_last f = Some a \<longrightarrow> a \<in> set (T fid))"
    using assms(1) by (simp add: cache_ok_def)
  then show "pr_head f = hd_ptr (T fid) None" "pr_last f = Some a \<Longrightarrow> a \<in> set (T fid)" using assms(2) by simp_all
qed

lemma in_order_insert:
  assumes "in_order lo (cs @ ds)" "\<forall>c\<in>set cs. pr_end c \<le> pr_start t" "pr_start t < pr_end t" "ds = [] \<or> pr_end t \<le> pr_start (hd ds)"
  shows "in_order (min lo (pr_start t)) (cs @ t # ds)"
proof -
  let ?lo = "min lo (pr_start t)"
  have cs: "in_order ?lo cs" and ds: "\<exists>l. in_order l ds" using assms(1) by (auto simp: in_order_append intro: in_order_mono)
  have "in_order (pr_end t) ds" using ds assms(4) by (cases ds) auto
  moreover have "(if cs = [] then ?lo else pr_end (last cs)) \<le> pr_start t" using assms(2) by auto
  ultimately show ?thesis using cs assms(3) by (simp add: in_order_append)
qed

lemma walk_miss_ok:
  assumes ok: "cache_ok s T L" and T: "T fid = xs @ ys" and f: "files s fid \<noteq> None" and mode: "preop" "disk = r"
    and addp: "addp_ok fid r addp" and xs: "\<forall>c\<in>set (cells (heap s) xs). pr_end c \<le> pr_start addp"
    and ys: "ys = [] \<or> pr_start addp < pr_start (the (heap s (hd ys)))"
    and clip: "clip = (ys \<noteq> [] \<and> pr_start (the (heap s (hd ys))) < pr_end addp)"
    and e: "e = (if clip then pr_start (the (heap s (hd ys))) else pr_end addp)"
    and free: "e - pr_start addp \<le> free_pages s" and tmp: "tmp = heap_next s" and T': "T' = T(fid := xs @ tmp # ys)"
  shows "\<exists>s' L'. walk_miss fid preop disk r addp (last_ptr None xs) (hd_ptr ys None) s =
      Inr (if clip then Some (addp\<lparr>pr_start := e\<rparr>) else None, Some tmp, s') \<and>
    cache_ok s' T' L' \<and> updates fid (pr_start addp) e (\<lambda>_. attrs (fresh_pr r addp)) s T s' T' \<and>
    map core (cells (heap s') (xs @ tmp # ys)) =
      map core (cells (heap s) xs) @ core ((fresh_pr r addp)\<lparr>pr_end := e\<rparr>) # map core (cells (heap s) ys) \<and>
    free_pages s' = free_pages s - (e - pr_start addp) \<and> dirty_pages s' = dirty_pages s + (if r then 0 else e - pr_start addp) \<and>
    heap_next s' = Suc (heap_next s)"
proof -
  note t = cache_table [OF ok, of fid, unfolded T] and l = cache_lru [OF ok]
  have tmp_new: "tmp \<notin> set (xs @ ys)" using t(6) tmp by blast
  have fid: "\<forall>a\<in>set (xs @ ys). pr_fileid (the (heap s a)) = fid \<and> heap s a \<noteq> None" using t(3,5) by blast
  obtain ff where ff: "files s fid = Some ff" using f by auto
  have e_gt: "pr_start addp < e" using e ys addp by (auto simp: addp_ok_def clip)
  define s1 where "s1 = (head_if (xs = []) fid tmp s)
     \<lparr>heap := linked_heap (heap s) xs tmp (fresh_pr r addp) e ys, heap_next := Suc tmp,
      free_pages := free_pages s - (e - pr_start addp), dirty_pages := dirty_pages s + (if r then 0 else e - pr_start addp)\<rparr>"
  have run: "walk_miss fid preop disk r addp (last_ptr None xs) (hd_ptr ys None) s =
      bindR (lru_push (Some tmp) s1) (\<lambda>s'. Inr (if clip then Some (addp\<lparr>pr_start := e\<rparr>) else None, Some tmp,
         upd_file fid (\<lambda>f. f\<lparr>pr_last := last_ptr None xs\<rparr>) s'))"
    unfolding s1_def
    by (subst walk_miss_run [OF mode tmp tmp_new t(5,2) _ _ _ free]) (use addp e clip in \<open>auto simp: addp_ok_def\<close>)
  have s1_lru: "lru_ok s1 L"
    by (rule same_lru_ok [OF l(1)]) (use l(3) tmp in \<open>simp_all add: s1_def linked_heap_lru\<close>)
  have "heap s1 tmp = Some ((fresh_pr r addp)\<lparr>pr_next := hd_ptr ys None, pr_prev := last_ptr None xs, pr_end := e\<rparr>)"
    using linked_heap_tmp [OF tmp_new] by (simp add: s1_def)
  from lru_pushed [OF s1_lru _ this] l(3) tmp obtain s2 where
    s2: "lru_push (Some tmp) s1 = Inr s2" "lru_ok s2 (tmp # L)" "lru_only s1 s2" by auto
  define s' where "s' = upd_file fid (\<lambda>f. f\<lparr>pr_last := last_ptr None xs\<rparr>) s2"
  have rest: "files s2 = files s1" "free_pages s2 = free_pages s1" "dirty_pages s2 = dirty_pages s1" "heap_next s2 = heap_next s1"
    "total_usable_pages s2 = total_usable_pages s1" "other_fields s2 = other_fields s1"
    using s2(3) rest_fields [of s2 s1] other_fields_lru [of s2 s1] by (simp_all add: lru_only_def)
  define D where "D = map core (cells (heap s) xs) @ core ((fresh_pr r addp)\<lparr>pr_end := e\<rparr>) # map core (cells (heap s) ys)"
  have "heap_step fid (heap_next s) (heap s) (T fid) (heap s1) (xs @ tmp # ys) D"
    unfolding T D_def s1_def using linked_heap_step [where us = "[]", OF _ t(2) fid tmp_new _ _] t(1) tmp addp by (simp add: addp_ok_def)
  from heap_step_lru [OF this, of "heap s2"] s2(3)
  have step: "heap_step fid (heap_next s) (heap s) (T fid) (heap s') (xs @ tmp # ys) D"
    by (simp add: s'_def lru_only_def)
  have files': "files s' = (files s)(fid \<mapsto> (if xs = [] then ff\<lparr>pr_head := Some tmp\<rparr> else ff)\<lparr>pr_last := last_ptr None xs\<rparr>)"
    by (simp add: s'_def rest s1_def head_if_files [OF ff])
  have h: "heap_ok s'"
  proof -
    have "a < Suc tmp" if "heap s2 a = Some c" for a c
    proof -
      have "heap s1 a \<noteq> None" using s2(3) that unfolding lru_only_def by (metis option.map_disc_iff option.distinct(1))
      then have "a = tmp \<or> heap s a \<noteq> None" using linked_heap_dom by (simp add: s1_def)
      then show ?thesis using ok tmp by (auto simp: cache_ok_def heap_ok_def less_Suc_eq)
    qed
    moreover have "heap_next s' = Suc tmp" by (simp add: s'_def rest) (simp add: s1_def)
    moreover have "heap s' = heap s2" by (simp add: s'_def)
    ultimately show ?thesis unfolding heap_ok_def by metis
  qed
  obtain lo where "in_order lo (cells (heap s) (xs @ ys))" using t(4) by blast
  then have "in_order lo (map core (cells (heap s) xs) @ map core (cells (heap s) ys))"
    by (simp only: cells_simps map_append [symmetric] in_order_core)
  then have "in_order (min lo (pr_start addp)) D"
    unfolding D_def using in_order_insert [of lo "map core (cells (heap s) xs)" "map core (cells (heap s) ys)" "core ((fresh_pr r addp)\<lparr>pr_end := e\<rparr>)"]
      xs e_gt e clip by (cases ys) auto
  note ord = this
  have head: "pr_head ff = hd_ptr (xs @ ys) None" using cache_file(1) [OF ok ff] T by simp
  have "cache_ok s' T' (tmp # L) \<and> (\<forall>g pg. page s' T' g pg = (if g = fid then page_at D pg else page s T g pg))"
    unfolding T'
  proof (rule cache_ok_step [OF ok step files' f _ _ _ _ h ord])
    show "lru_ok s' (tmp # L)" using s2(2) by (simp add: s'_def lru_ok_def)
    show "set (tmp # L) = set L - set (T fid) \<union> set (xs @ tmp # ys)" using l(2) [of fid] T by auto
    show "free_pages s' + total_size D = free_pages s + total_size (cells (heap s) (T fid))"
      by (simp add: s'_def rest s1_def D_def T)
    show "total_usable_pages s' = total_usable_pages s" by (simp add: s'_def rest) (simp add: s1_def)
    show "pr_head ((if xs = [] then ff\<lparr>pr_head := Some tmp\<rparr> else ff)\<lparr>pr_last := last_ptr None xs\<rparr>) = hd_ptr (xs @ tmp # ys) None"
      using head by (cases xs) auto
    show "\<forall>a. pr_last ((if xs = [] then ff\<lparr>pr_head := Some tmp\<rparr> else ff)\<lparr>pr_last := last_ptr None xs\<rparr>) = Some a \<longrightarrow> a \<in> set (xs @ tmp # ys)"
      by (cases xs rule: rev_cases) auto
  qed
  moreover have "page_at D pg = (if pr_start addp \<le> pg \<and> pg < e then Some (attrs (fresh_pr r addp)) else page s T fid pg)" for pg
  proof -
    have "pr_start addp \<le> pg \<Longrightarrow> page_at (cells (heap s) xs) pg = None" using xs by (intro page_at_beyond) auto
    then show ?thesis by (auto simp: D_def page_def T page_at_append split: option.splits)
  qed
  ultimately have fin: "cache_ok s' T' (tmp # L)" "updates fid (pr_start addp) e (\<lambda>_. attrs (fresh_pr r addp)) s T s' T'"
    by (auto simp: updates_def files' ff) (simp_all add: s'_def rest, simp_all add: s1_def)
  have "map core (cells (heap s') (xs @ tmp # ys)) = D" using step by (simp add: heap_step_def)
  moreover have "walk_miss fid preop disk r addp (last_ptr None xs) (hd_ptr ys None) s =
      Inr (if clip then Some (addp\<lparr>pr_start := e\<rparr>) else None, Some tmp, s')"
    by (simp add: run s2(1) s'_def)
  moreover have "free_pages s' = free_pages s - (e - pr_start addp) \<and> dirty_pages s' = dirty_pages s + (if r then 0 else e - pr_start addp) \<and>
      heap_next s' = Suc (heap_next s)"
    by (simp add: s'_def rest) (simp add: s1_def tmp)
  ultimately show ?thesis using fin unfolding D_def by blast
qed

end
