(* ===== verification/CacheHits.thy ===== *)
theory CacheHits
  imports CacheWalk
begin

text \<open>
  The walk over the cached pages: a range that is touched is replaced or split, and the map from
  pages to attributes changes in the touched pages only.
\<close>

section \<open>The attributes of a touched page\<close>

definition hit_attrs :: "bool \<Rightarrow> bool \<Rightarrow> bool \<Rightarrow> pr_t \<Rightarrow> pr_t \<Rightarrow> pr_t" where
  "hit_attrs preop disk r addp c = (case hit_pr preop disk r addp c of Inr t \<Rightarrow> attrs t | Inl e \<Rightarrow> attrs addp)"

definition new_attrs :: "bool \<Rightarrow> bool \<Rightarrow> bool \<Rightarrow> pr_t \<Rightarrow> pr_t option \<Rightarrow> pr_t" where
  "new_attrs preop disk r addp old =
     (case old of None \<Rightarrow> attrs (fresh_pr r addp) | Some c \<Rightarrow> hit_attrs preop disk r addp c)"

lemma hit_pr_ok:
  assumes "PG_dirty addp = (\<not> r)"
  shows "\<exists>t. hit_pr preop disk r addp c = Inr t \<and> attrs t = hit_attrs preop disk r addp c \<and> pr_start t = pr_start addp \<and>
    pr_end t = pr_end addp \<and> pr_next t = pr_next addp \<and> pr_prev t = pr_prev addp \<and> pr_fileid t = pr_fileid addp"
  using assms by (simp add: hit_attrs_def hit_pr_def copy_pr_def Let_def)

lemma hit_attrs_attrs [simp]: "hit_attrs preop disk r addp (attrs c) = hit_attrs preop disk r addp c"
  by (simp add: hit_attrs_def hit_pr_def attrs_def Let_def)

lemma new_attrs_start [simp]: "new_attrs preop disk r (addp\<lparr>pr_start := i\<rparr>) = new_attrs preop disk r addp"
  by (rule ext) (simp add: new_attrs_def hit_attrs_def hit_pr_def attrs_def fresh_pr_def copy_pr_def Let_def split: option.splits)

section \<open>The heap after a touched range was replaced or split\<close>

lemma hit_start_part_run:
  assumes tmp: "tmp \<notin> set (xs @ b # ys)" and t: "heap s tmp = Some t" "pr_next t = None" "pr_prev t = None" "pr_end t = pr_end addp"
    and dom: "\<forall>a\<in>set xs. heap s a \<noteq> None" and d: "distinct (xs @ b # ys)" and c: "heap s b = Some c" and part: "pr_end addp < pr_end c"
  shows "walk_hit_start fid w addp (Some tmp) (last_ptr None xs) (Some b) s =
    (let s1 = (head_if (xs = []) fid tmp s)\<lparr>heap := linked_heap ((heap s)(b \<mapsto> c\<lparr>pr_start := pr_end addp\<rparr>)) xs tmp t (pr_end addp) (b # ys)\<rparr>
     in bindR (if w then lru_push (Some tmp) s1 else lru_insert (Some tmp) (Some b) s1) (\<lambda>s. Inr (None, last_ptr None xs, Some b, s)))"
proof (cases xs rule: rev_cases)
  case Nil
  have "linked_heap ((heap s)(b \<mapsto> c\<lparr>pr_start := pr_end addp\<rparr>)) xs tmp t (pr_end addp) (b # ys) =
      (heap s)(tmp \<mapsto> t\<lparr>pr_next := Some b\<rparr>, b \<mapsto> c\<lparr>pr_start := pr_end addp, pr_prev := Some tmp\<rparr>)"
    using assms Nil by (auto simp: linked_heap_def fun_eq_iff)
  then show ?thesis using assms Nil by (simp add: walk_hit_start_def head_if_def)
next
  case (snoc us a)
  then obtain ca where ca: "heap s a = Some ca" using dom by auto
  have "linked_heap ((heap s)(b \<mapsto> c\<lparr>pr_start := pr_end addp\<rparr>)) xs tmp t (pr_end addp) (b # ys) =
      (heap s)(a \<mapsto> ca\<lparr>pr_next := Some tmp\<rparr>, tmp \<mapsto> t\<lparr>pr_prev := Some a, pr_next := Some b\<rparr>,
        b \<mapsto> c\<lparr>pr_start := pr_end addp, pr_prev := Some tmp\<rparr>)"
    using assms snoc ca by (auto simp: linked_heap_def fun_eq_iff)
  then show ?thesis using assms snoc ca by (simp add: walk_hit_start_def head_if_def)
qed

lemma hit_start_full_run:
  assumes tmp: "tmp \<notin> set (xs @ b # ys)" and t: "heap s tmp = Some t" "pr_next t = None" "pr_prev t = None"
    and dom: "\<forall>a\<in>set (xs @ ys). heap s a \<noteq> None" and d: "distinct (xs @ b # ys)" and c: "heap s b = Some c" "pr_next c = hd_ptr ys None"
    and part: "\<not> pr_end addp < pr_end c"
  shows "walk_hit_start fid w addp (Some tmp) (last_ptr None xs) (Some b) s =
    (let s1 = (head_if (xs = []) fid tmp s)\<lparr>heap := linked_heap (heap s) xs tmp t (pr_end c) ys\<rparr>
     in bindR (if w then bindR (lru_delete (Some b) s1) (lru_push (Some tmp)) else lru_substitute (Some tmp) (Some b) s1) (\<lambda>s.
        bindR (free_pr (Some b) s) (\<lambda>s. Inr (Some (addp\<lparr>pr_start := pr_end c\<rparr>), last_ptr None xs, Some tmp, s))))"
proof (cases xs rule: rev_cases)
  case Nil
  show ?thesis
  proof (cases ys)
    case Nil': Nil
    have "linked_heap (heap s) xs tmp t (pr_end c) ys = (heap s)(tmp \<mapsto> t\<lparr>pr_end := pr_end c\<rparr>)"
      using assms Nil Nil' by (auto simp: linked_heap_def fun_eq_iff)
    then show ?thesis using assms Nil Nil' by (simp add: walk_hit_start_def head_if_def)
  next
    case (Cons e es)
    then obtain ce where ce: "heap s e = Some ce" using dom by auto
    have "linked_heap (heap s) xs tmp t (pr_end c) ys =
        (heap s)(tmp \<mapsto> t\<lparr>pr_end := pr_end c, pr_next := Some e\<rparr>, e \<mapsto> ce\<lparr>pr_prev := Some tmp\<rparr>)"
      using assms Nil Cons ce by (auto simp: linked_heap_def fun_eq_iff)
    then show ?thesis using assms Nil Cons ce by (simp add: walk_hit_start_def head_if_def)
  qed
next
  case (snoc us a)
  then obtain ca where ca: "heap s a = Some ca" using dom by auto
  show ?thesis
  proof (cases ys)
    case Nil: Nil
    have "linked_heap (heap s) xs tmp t (pr_end c) ys =
        (heap s)(a \<mapsto> ca\<lparr>pr_next := Some tmp\<rparr>, tmp \<mapsto> t\<lparr>pr_prev := Some a, pr_end := pr_end c\<rparr>)"
      using assms snoc Nil ca by (auto simp: linked_heap_def fun_eq_iff)
    then show ?thesis using assms snoc Nil ca by (simp add: walk_hit_start_def head_if_def)
  next
    case (Cons e es)
    then obtain ce where ce: "heap s e = Some ce" using dom by auto
    have "linked_heap (heap s) xs tmp t (pr_end c) ys =
        (heap s)(a \<mapsto> ca\<lparr>pr_next := Some tmp\<rparr>, tmp \<mapsto> t\<lparr>pr_prev := Some a, pr_end := pr_end c, pr_next := Some e\<rparr>,
          e \<mapsto> ce\<lparr>pr_prev := Some tmp\<rparr>)"
      using assms snoc Cons ca ce by (auto simp: linked_heap_def fun_eq_iff)
    then show ?thesis using assms snoc Cons ca ce by (simp add: walk_hit_start_def head_if_def)
  qed
qed


lemma hit_inside_rest_run:
  assumes tmp: "tmp \<notin> set (xs @ b # ys)" and t: "heap s tmp = Some t"
    and dom: "\<forall>a\<in>set ys. heap s a \<noteq> None" and d: "distinct (xs @ b # ys)" and c: "heap s b = Some c" "pr_next c = hd_ptr ys None"
    and part: "\<not> pr_end addp < pr_end c"
  shows "walk_hit_inside w addp (Some tmp) pre (Some b) s =
    (let s1 = s\<lparr>heap := linked_heap ((heap s)(b \<mapsto> c\<lparr>pr_end := pr_start t\<rparr>)) (xs @ [b]) tmp t (pr_end c) ys\<rparr>
     in bindR (if w then lru_push (Some tmp) s1 else lru_insert (Some tmp) (Some b) s1) (\<lambda>s.
        Inr (Some (addp\<lparr>pr_start := pr_end c\<rparr>), Some b, Some tmp, s)))"
proof (cases ys)
  case Nil
  have "linked_heap ((heap s)(b \<mapsto> c\<lparr>pr_end := pr_start t\<rparr>)) (xs @ [b]) tmp t (pr_end c) ys =
      (heap s)(tmp \<mapsto> t\<lparr>pr_end := pr_end c, pr_prev := Some b, pr_next := None\<rparr>, b \<mapsto> c\<lparr>pr_end := pr_start t, pr_next := Some tmp\<rparr>)"
    using assms Nil by (auto simp: linked_heap_def fun_eq_iff)
  then show ?thesis using assms Nil by (simp add: walk_hit_inside_def)
next
  case (Cons e es)
  then obtain ce where ce: "heap s e = Some ce" using dom by auto
  have "linked_heap ((heap s)(b \<mapsto> c\<lparr>pr_end := pr_start t\<rparr>)) (xs @ [b]) tmp t (pr_end c) ys =
      (heap s)(tmp \<mapsto> t\<lparr>pr_end := pr_end c, pr_prev := Some b, pr_next := Some e\<rparr>, b \<mapsto> c\<lparr>pr_end := pr_start t, pr_next := Some tmp\<rparr>,
        e \<mapsto> ce\<lparr>pr_prev := Some tmp\<rparr>)"
    using assms Cons ce by (auto simp: linked_heap_def fun_eq_iff)
  then show ?thesis using assms Cons ce by (simp add: walk_hit_inside_def)
qed

text \<open>The heap after a range was split in three.\<close>

definition split_heap :: "(nat \<Rightarrow> pr_t option) \<Rightarrow> nat list \<Rightarrow> nat \<Rightarrow> pr_t \<Rightarrow> nat \<Rightarrow> pr_t \<Rightarrow> nat \<Rightarrow> nat list \<Rightarrow> nat \<Rightarrow> pr_t option" where
  "split_heap h xs b c tmp t tmp2 ys =
     linked_heap (linked_heap (h(b \<mapsto> c\<lparr>pr_end := pr_start t\<rparr>)) (xs @ [b]) tmp2 ((copy_pr c)\<lparr>pr_start := pr_end t\<rparr>) (pr_end c) ys)
       (xs @ [b]) tmp t (pr_end t) (tmp2 # ys)"

lemma hit_inside_part_run:
  assumes tmp: "tmp \<notin> set (xs @ b # ys)" "tmp2 \<notin> set (xs @ b # ys)" "tmp \<noteq> tmp2" "heap_next s = tmp2"
    and t: "heap s tmp = Some t" "pr_end t = pr_end addp"
    and dom: "\<forall>a\<in>set ys. heap s a \<noteq> None" and d: "distinct (xs @ b # ys)" and c: "heap s b = Some c" "pr_next c = hd_ptr ys None"
    and part: "pr_end addp < pr_end c"
  shows "walk_hit_inside w addp (Some tmp) pre (Some b) s =
    (let s1 = s\<lparr>heap := split_heap (heap s) xs b c tmp t tmp2 ys, heap_next := Suc tmp2\<rparr>
     in bindR (if w then bindR (lru_insert (Some tmp2) (Some b) s1) (lru_push (Some tmp))
               else bindR (lru_insert (Some tmp) (Some b) s1) (lru_insert (Some tmp2) (Some tmp))) (\<lambda>s.
        Inr (None, pre, Some b, s)))"
proof (cases ys)
  case Nil
  have h: "split_heap (heap s) xs b c tmp t tmp2 ys = (heap s)(
      tmp2 \<mapsto> (copy_pr c)\<lparr>pr_start := pr_end t, pr_prev := Some tmp, pr_next := None\<rparr>,
      tmp \<mapsto> t\<lparr>pr_prev := Some b, pr_next := Some tmp2\<rparr>, b \<mapsto> c\<lparr>pr_end := pr_start t, pr_next := Some tmp\<rparr>)"
    using assms Nil by (auto simp: split_heap_def linked_heap_def fun_eq_iff copy_pr_def)
  show ?thesis using assms Nil h by (simp add: walk_hit_inside_def alloc_def)
next
  case (Cons e es)
  then obtain ce where ce: "heap s e = Some ce" using dom by auto
  have h: "split_heap (heap s) xs b c tmp t tmp2 ys = (heap s)(
      tmp2 \<mapsto> (copy_pr c)\<lparr>pr_start := pr_end t, pr_prev := Some tmp, pr_next := Some e\<rparr>,
      tmp \<mapsto> t\<lparr>pr_prev := Some b, pr_next := Some tmp2\<rparr>, b \<mapsto> c\<lparr>pr_end := pr_start t, pr_next := Some tmp\<rparr>,
      e \<mapsto> ce\<lparr>pr_prev := Some tmp2\<rparr>)"
    using assms Cons ce by (auto simp: split_heap_def linked_heap_def fun_eq_iff copy_pr_def)
  show ?thesis using assms Cons ce h by (simp add: walk_hit_inside_def alloc_def)
qed


section \<open>The LRU list after a touch\<close>

lemma lru_find_back:
  assumes "heap s b = Some c" "pr_start c = pr_start d" "pr_end c = pr_end d" "pr_fileid c = pr_fileid d"
  shows "dseg lru_next lru_prev (heap s) p (us @ b # vs) q \<Longrightarrow>
    \<forall>a\<in>set vs. pr_fileid (the (heap s a)) \<noteq> pr_fileid d \<or> pr_start (the (heap s a)) \<noteq> pr_start d \<Longrightarrow>
    length vs < n \<Longrightarrow> lru_find n d (Some (last (us @ b # vs))) s = Inr (Some b)"
proof (induction vs arbitrary: n q rule: rev_induct)
  case Nil
  then obtain k where "n = Suc k" by (cases n) auto
  then show ?case using assms by simp
next
  case (snoc e es)
  obtain k where n: "n = Suc k" using snoc.prems(3) by (cases n) auto
  obtain ce where ce: "heap s e = Some ce" "lru_prev ce = last_ptr p (us @ b # es)" "dseg lru_next lru_prev (heap s) p (us @ b # es) (Some e)"
    using snoc.prems(1) by auto
  have "lru_prev ce = Some (last (us @ b # es))" using ce(2) by (simp add: last_ptr_some del: last_ptr_append)
  moreover have "lru_find k d (Some (last (us @ b # es))) s = Inr (Some b)"
    by (rule snoc.IH [OF ce(3)]) (use snoc.prems n in auto)
  ultimately show ?case using n ce(1) snoc.prems(2) by auto
qed

lemma lru_deleted:
  assumes ok: "lru_ok s (us @ b # vs)" and c: "heap s b = Some c"
    and uniq: "\<forall>a\<in>set vs. pr_fileid (the (heap s a)) \<noteq> pr_fileid c \<or> pr_start (the (heap s a)) \<noteq> pr_start c"
    and n: "length vs \<le> heap_next s"
  shows "\<exists>s'. lru_delete (Some b) s = Inr s' \<and> lru_ok s' (us @ vs) \<and> lru_only s s'"
proof -
  have "lru_find (Suc (heap_next s)) c (lru_list_end s) s = Inr (Some b)"
    using lru_find_back [OF c refl refl refl _ uniq, of None us None] ok n by (simp add: lru_ok_def del: lru_find.simps)
  moreover obtain s' where "lru_unlink (Some b) s = Inr s'" "lru_ok s' (us @ vs)" "lru_only s s'" using lru_unlinked [OF ok] by auto
  ultimately have "lru_delete (Some b) s = Inr s' \<and> lru_ok s' (us @ vs) \<and> lru_only s s'"
    using c by (simp add: lru_delete_def del: lru_find.simps)
  then show ?thesis by blast
qed

lemma lru_only_heap: "lru_only s s' \<Longrightarrow> heap s' a = None \<longleftrightarrow> heap s a = None"
  unfolding lru_only_def by (metis option.map_disc_iff)

lemma lru_only_next: "lru_only s s' \<Longrightarrow> heap_next s' = heap_next s"
  using rest_fields [of s' s] by (simp add: lru_only_def)

text \<open>One new range before the touched one or at the front.\<close>

lemma lru_touch_one:
  assumes "lru_ok s L" "b \<in> set L" "tmp \<notin> set L" "heap s tmp = Some t"
  shows "\<exists>s' L'. (if w then lru_push (Some tmp) s else lru_insert (Some tmp) (Some b) s) = Inr s' \<and> lru_ok s' L' \<and>
    set L' = insert tmp (set L) \<and> lru_only s s'"
proof -
  obtain us vs where L: "L = us @ b # vs" using assms(2) by (auto simp: in_set_conv_decomp)
  show ?thesis
  proof (cases w)
    case True
    then show ?thesis using lru_pushed [OF assms(1,3,4)] by fastforce
  next
    case False
    then show ?thesis using lru_inserted [of s us b vs tmp t] assms L by fastforce
  qed
qed

text \<open>The new range in place of the touched one or at the front.\<close>

lemma lru_touch_replace:
  assumes ok: "lru_ok s L" and b: "b \<in> set L" "heap s b = Some c" and tmp: "tmp \<notin> set L" "heap s tmp = Some t"
    and uniq: "\<forall>a\<in>set L. a \<noteq> b \<longrightarrow> pr_fileid (the (heap s a)) \<noteq> pr_fileid c \<or> pr_start (the (heap s a)) \<noteq> pr_start c"
    and n: "length L \<le> heap_next s"
  shows "\<exists>s' L'. (if w then bindR (lru_delete (Some b) s) (lru_push (Some tmp)) else lru_substitute (Some tmp) (Some b) s) = Inr s' \<and>
    lru_ok s' L' \<and> set L' = insert tmp (set L - {b}) \<and> lru_only s s'"
proof -
  obtain us vs where L: "L = us @ b # vs" using b(1) by (auto simp: in_set_conv_decomp)
  have d: "b \<notin> set us" "b \<notin> set vs" using ok L by (auto simp: lru_ok_def)
  show ?thesis
  proof (cases w)
    case True
    obtain s1 where s1: "lru_delete (Some b) s = Inr s1" "lru_ok s1 (us @ vs)" "lru_only s s1"
    proof -
      have "\<forall>a\<in>set vs. pr_fileid (the (heap s a)) \<noteq> pr_fileid c \<or> pr_start (the (heap s a)) \<noteq> pr_start c"
        using uniq L d by auto
      from lru_deleted [OF _ b(2) this] ok n L that show ?thesis by auto
    qed
    obtain t1 where "heap s1 tmp = Some t1" using lru_only_heap [OF s1(3), of tmp] tmp(2) by auto
    from lru_pushed [OF s1(2) _ this] tmp(1) L obtain s2 where
      s2: "lru_push (Some tmp) s1 = Inr s2" "lru_ok s2 (tmp # us @ vs)" "lru_only s1 s2" by auto
    have "set (tmp # us @ vs) = insert tmp (set L - {b})" using L d by auto
    then show ?thesis using True s1 s2 lru_only_trans [OF s1(3) s2(3)] by (intro exI [of _ s2] exI [of _ "tmp # us @ vs"]) simp
  next
    case False
    obtain s1 where "lru_substitute (Some tmp) (Some b) s = Inr s1" "lru_ok s1 (us @ tmp # vs)" "lru_only s s1"
      using lru_substituted [of s us b vs tmp t] ok tmp L by auto
    moreover have "set (us @ tmp # vs) = insert tmp (set L - {b})" using L d by auto
    ultimately show ?thesis using False by (intro exI [of _ s1] exI [of _ "us @ tmp # vs"]) simp
  qed
qed

text \<open>Two new ranges, one of them at the front if the use counts.\<close>

lemma lru_touch_two:
  assumes ok: "lru_ok s L" and b: "b \<in> set L" and tmp: "tmp \<notin> set L" "heap s tmp = Some t"
    and tmp2: "tmp2 \<notin> set L" "heap s tmp2 = Some t2" "tmp \<noteq> tmp2"
  shows "\<exists>s' L'. (if w then bindR (lru_insert (Some tmp2) (Some b) s) (lru_push (Some tmp))
                  else bindR (lru_insert (Some tmp) (Some b) s) (lru_insert (Some tmp2) (Some tmp))) = Inr s' \<and>
    lru_ok s' L' \<and> set L' = insert tmp (insert tmp2 (set L)) \<and> lru_only s s'"
proof (cases w)
  case True
  obtain s1 L1 where s1: "lru_insert (Some tmp2) (Some b) s = Inr s1" "lru_ok s1 L1" "set L1 = insert tmp2 (set L)" "lru_only s s1"
    using lru_touch_one [OF ok b tmp2(1,2), of False] by auto
  obtain t1 where "heap s1 tmp = Some t1" using lru_only_heap [OF s1(4), of tmp] tmp(2) by auto
  from lru_pushed [OF s1(2) _ this] tmp(1) s1(3) tmp2(3) obtain s2 where
    s2: "lru_push (Some tmp) s1 = Inr s2" "lru_ok s2 (tmp # L1)" "lru_only s1 s2" by auto
  then show ?thesis using True s1 lru_only_trans [OF s1(4) s2(3)] by (intro exI [of _ s2] exI [of _ "tmp # L1"]) simp
next
  case False
  obtain s1 L1 where s1: "lru_insert (Some tmp) (Some b) s = Inr s1" "lru_ok s1 L1" "set L1 = insert tmp (set L)" "lru_only s s1"
    using lru_touch_one [OF ok b tmp, of False] by auto
  obtain t1 where "heap s1 tmp2 = Some t1" using lru_only_heap [OF s1(4), of tmp2] tmp2(2) by auto
  from lru_touch_one [OF s1(2) _ _ this, of tmp False] tmp2 s1(3) obtain s2 L2 where
    "lru_insert (Some tmp2) (Some tmp) s1 = Inr s2" "lru_ok s2 L2" "set L2 = insert tmp2 (set L1)" "lru_only s1 s2" by auto
  then show ?thesis using False s1 lru_only_trans [OF s1(4)] by (intro exI [of _ s2] exI [of _ L2]) auto
qed


section \<open>A touched range\<close>

lemma in_order_starts:
  "in_order lo (cells h as) \<Longrightarrow> a \<in> set as \<Longrightarrow> lo \<le> pr_start (the (h a))"
  by (induction as arbitrary: lo) fastforce+

lemma in_order_unique:
  "in_order lo (cells h as) \<Longrightarrow> a \<in> set as \<Longrightarrow> b \<in> set as \<Longrightarrow> pr_start (the (h a)) = pr_start (the (h b)) \<Longrightarrow> a = b"
proof (induction as arbitrary: lo)
  case (Cons e as)
  have "x \<in> set as \<Longrightarrow> pr_start (the (h e)) < pr_start (the (h x))" for x
    using Cons.prems(1) in_order_starts [of "pr_end (the (h e))" h as x] by simp
  with Cons show ?case by fastforce
qed simp

lemma cache_unique:
  assumes "cache_ok s T L" "a \<in> set L" "b \<in> set L" "pr_fileid (the (heap s a)) = pr_fileid (the (heap s b))"
    "pr_start (the (heap s a)) = pr_start (the (heap s b))"
  shows "a = b"
proof -
  obtain g g' where g: "a \<in> set (T g)" "b \<in> set (T g')" using assms(1-3) by (auto simp: cache_ok_def)
  then have "g = g'" using assms(4) cache_table(3) [OF assms(1)] by metis
  moreover obtain lo where "in_order lo (cells (heap s) (T g))" using cache_table(4) [OF assms(1)] by blast
  ultimately show ?thesis using in_order_unique g assms(5) by blast
qed

lemma cache_length: "cache_ok s T L \<Longrightarrow> length L \<le> heap_next s"
  using list_length_bound [of s lru_next lru_prev None L None] by (simp add: cache_ok_def lru_ok_def)

text \<open>
  What remains after the links were set (\<open>s1\<close>) and the LRU list updated (\<open>s2\<close>): the range that was
  replaced is deleted, the dirty pages and \<^verbatim>\<open>pr_last\<close> are set.
\<close>

lemma hit_finish:
  assumes ok: "cache_ok s T L" and ff: "files s fid \<noteq> None"
    and step: "heap_step fid (heap_next s) (heap s) (T fid) (heap s1) as' D"
    and s1: "files s1 = (files s)(fid \<mapsto> ff1)" "pr_head ff1 = hd_ptr as' None" "free_pages s1 = free_pages s"
      "total_usable_pages s1 = total_usable_pages s" "other_fields s1 = other_fields s" "\<forall>a. heap s1 a \<noteq> None \<longrightarrow> a < heap_next s1"
    and lru: "lru_only s1 s2" "lru_ok s2 L'" "set L' = set L - set (T fid) \<union> set as'"
    and D: "in_order lo D" "total_size D = total_size (cells (heap s) (T fid))"
    and last: "\<forall>a. q = Some a \<longrightarrow> a \<in> set as'"
    and hx: "hx = heap s2 \<or> (\<exists>b. hx = (heap s2)(b := None) \<and> b \<in> set (T fid) \<and> b \<notin> set as')"
    and s': "s' = upd_file fid (\<lambda>f. f\<lparr>pr_last := q\<rparr>) (s2\<lparr>heap := hx, dirty_pages := dd\<rparr>)"
  shows "cache_ok s' (T(fid := as')) L' \<and>
    (\<forall>g pg. page s' (T(fid := as')) g pg = (if g = fid then page_at D pg else page s T g pg)) \<and>
    map core (cells (heap s') as') = D \<and> other_fields s' = other_fields s \<and> (\<forall>g. (files s' g = None) = (files s g = None)) \<and>
    free_pages s' = free_pages s \<and> dirty_pages s' = dd \<and> heap_next s' = heap_next s1"
proof -
  have rest: "files s2 = files s1" "free_pages s2 = free_pages s1" "heap_next s2 = heap_next s1"
    "total_usable_pages s2 = total_usable_pages s1" "other_fields s2 = other_fields s1"
    using lru(1) rest_fields [of s2 s1] other_fields_lru [of s2 s1] by (simp_all add: lru_only_def)
  have step2: "heap_step fid (heap_next s) (heap s) (T fid) (heap s2) as' D"
    by (rule heap_step_lru [OF step]) (use lru(1) in \<open>simp add: lru_only_def\<close>)
  have same: "hx a = heap s2 a" if "a \<in> set as' \<or> a \<notin> set (T fid)" for a using hx that by auto
  have "heap_step fid (heap_next s) (heap s) (T fid) hx as' D"
  proof -
    have "dseg pr_next pr_prev hx None as' None = dseg pr_next pr_prev (heap s2) None as' None" by (rule dseg_cong) (simp add: same)
    moreover have "cells hx as' = cells (heap s2) as'" by (rule cells_cong) (simp add: same)
    ultimately show ?thesis using step2 same by (simp add: heap_step_def)
  qed
  then have step': "heap_step fid (heap_next s) (heap s) (T fid) (heap s') as' D" by (simp add: s')
  have files': "files s' = (files s)(fid \<mapsto> ff1\<lparr>pr_last := q\<rparr>)" by (simp add: s' rest s1(1))
  have L': "set L' \<subseteq> set as' \<union> (set L - set (T fid))" using lru(3) by auto
  have "lru_ok s' L'"
  proof (rule same_lru_ok [OF lru(2)])
    show "same_lru L' (heap s2) (heap s')" using same L' by (auto simp: same_lru_def s')
  qed (simp_all add: s')
  moreover have h: "heap_ok s'"
  proof -
    have "a < heap_next s1" if "hx a = Some c" for a c
    proof -
      have "heap s2 a \<noteq> None" using that hx by (auto split: if_splits)
      then show ?thesis using s1(6) lru_only_heap [OF lru(1), of a] by simp
    qed
    then show ?thesis by (simp add: heap_ok_def s' rest)
  qed
  moreover have "free_pages s' + total_size D = free_pages s + total_size (cells (heap s) (T fid))"
    using D(2) by (simp add: s' rest s1(3))
  moreover have "total_usable_pages s' = total_usable_pages s" by (simp add: s' rest s1(4))
  ultimately have "cache_ok s' (T(fid := as')) L' \<and>
      (\<forall>g pg. page s' (T(fid := as')) g pg = (if g = fid then page_at D pg else page s T g pg))"
    by (intro cache_ok_step [OF ok step' files' ff _ _ _ lru(3) h D(1)]) (use last s1(2) in auto)
  moreover have "map core (cells (heap s') as') = D" using step' by (simp add: heap_step_def)
  moreover have "other_fields s' = other_fields s" by (simp add: s' rest s1(5))
  moreover have "(files s' g = None) = (files s g = None)" for g using ff by (auto simp: files')
  moreover have "free_pages s' = free_pages s" "dirty_pages s' = dd" "heap_next s' = heap_next s1" by (simp_all add: s' rest s1(3))
  ultimately show ?thesis by blast
qed


text \<open>A range is replaced by ranges that cover the same pages.\<close>

fun tiles :: "int \<Rightarrow> pr_t list \<Rightarrow> int \<Rightarrow> bool" where
  "tiles a [] b \<longleftrightarrow> a = b"
| "tiles a (u # us) b \<longleftrightarrow> pr_start u = a \<and> a < pr_end u \<and> tiles (pr_end u) us b"

lemma tiles_le: "tiles a us b \<Longrightarrow> a \<le> b"
  by (induction us arbitrary: a) force+

lemma tiles_order: "tiles a us b \<Longrightarrow> us \<noteq> [] \<Longrightarrow> in_order a us \<and> pr_end (last us) = b \<and> total_size us = b - a"
proof (induction us arbitrary: a)
  case (Cons u us)
  show ?case
  proof (cases "us = []")
    case False
    with Cons.IH [of "pr_end u"] Cons.prems have "in_order (pr_end u) us \<and> pr_end (last us) = b \<and> total_size us = b - pr_end u" by simp
    with Cons.prems False show ?thesis by simp
  qed (use Cons.prems in simp)
qed simp

lemma tiles_pages: "tiles a us b \<Longrightarrow> page_at us pg = None \<longleftrightarrow> \<not> (a \<le> pg \<and> pg < b)"
proof (induction us arbitrary: a)
  case (Cons u us)
  then have "pr_end u \<le> b" using tiles_le by auto
  with Cons.IH [of "pr_end u"] Cons.prems show ?case by auto
qed simp

lemma tile_replace:
  assumes "in_order lo (cs @ c # ds)" "tiles (pr_start c) us (pr_end c)"
  shows "in_order lo (cs @ us @ ds)" "total_size (cs @ us @ ds) = total_size (cs @ c # ds)"
    "page_at (cs @ us @ ds) pg = (if pr_start c \<le> pg \<and> pg < pr_end c then page_at us pg else page_at (cs @ c # ds) pg)"
proof -
  have c: "pr_start c < pr_end c" "in_order (pr_end c) ds" "in_order lo cs" "(if cs = [] then lo else pr_end (last cs)) \<le> pr_start c"
    using assms(1) by (auto simp: in_order_append)
  then have us: "us \<noteq> []" using assms(2) by auto
  note t = tiles_order [OF assms(2) us]
  have "in_order (pr_start c) (us @ ds)" using t c(2) us by (simp add: in_order_append)
  then show "in_order lo (cs @ us @ ds)" using c(3,4) by (auto simp: in_order_append [of _ cs] intro: in_order_mono)
  show "total_size (cs @ us @ ds) = total_size (cs @ c # ds)" using t by simp
  have before: "page_at cs pg = None" if "pr_start c \<le> pg"
  proof (rule page_at_beyond, rule ballI)
    fix e assume "e \<in> set cs"
    then obtain as bs where "cs = as @ e # bs" by (auto simp: in_set_conv_decomp)
    then have "in_order (pr_end e) (bs @ c # ds)" using assms(1) by (simp add: in_order_append)
    then have "pr_end e \<le> pr_start c" by (induction bs arbitrary: e) (simp, fastforce dest: in_order_mono)
    then show "pr_end e \<le> pg" using that by simp
  qed
  show "page_at (cs @ us @ ds) pg = (if pr_start c \<le> pg \<and> pg < pr_end c then page_at us pg else page_at (cs @ c # ds) pg)"
    using before tiles_pages [OF assms(2), of pg] by (auto simp: page_at_append split: option.splits)
qed

lemma heap_step_from:
  "heap_step fid n h as h' as' D \<Longrightarrow> (\<And>a. a \<notin> set as \<Longrightarrow> h0 a = h a) \<Longrightarrow> heap_step fid n h0 as h' as' D"
  by (simp add: heap_step_def)

lemma linked_heap_overwrite: "tmp \<notin> set [b] \<Longrightarrow> linked_heap ((h(tmp \<mapsto> t'))(b := x)) xs tmp t e ys = linked_heap (h(b := x)) xs tmp t e ys"
  by (simp add: linked_heap_def fun_upd_twist [of tmp b])

lemma linked_heap_overwrite' [simp]: "linked_heap (h(tmp \<mapsto> t')) xs tmp t e ys = linked_heap h xs tmp t e ys"
  by (simp add: linked_heap_def)

lemma heap_same [simp]: "s\<lparr>heap := heap s\<rparr> = s" "s\<lparr>heap := heap s, dirty_pages := d\<rparr> = s\<lparr>dirty_pages := d\<rparr>"
  by simp_all

lemma walk_hit_run:
  assumes "\<not> (preop \<and> disk \<and> r)" "heap s b = Some c" "hit_pr preop disk r addp c = Inr t" "tmp = heap_next s"
    and inner: "(if pr_start addp = pr_start c
       then walk_hit_start fid (preop \<and> \<not> r \<and> \<not> disk) addp (Some tmp) pre (Some b) (s\<lparr>heap := (heap s)(tmp \<mapsto> t), heap_next := Suc tmp\<rparr>)
       else walk_hit_inside (preop \<and> \<not> r \<and> \<not> disk) addp (Some tmp) pre (Some b) (s\<lparr>heap := (heap s)(tmp \<mapsto> t), heap_next := Suc tmp\<rparr>)) =
       Inr (addp', pre', cp', s2\<lparr>heap := hx\<rparr>)"
    and tt: "hx tmp = Some tt"
  shows "walk_hit fid preop disk r addp pre (Some b) s =
    Inr (addp', pre', cp', upd_file fid (\<lambda>f. f\<lparr>pr_last := pre'\<rparr>)
      (s2\<lparr>heap := hx, dirty_pages := dirty_pages s2 - (if preop \<and> disk \<and> \<not> r then pr_end tt - pr_start tt else 0)\<rparr>))"
  using assms by (auto simp: walk_hit_def alloc_def Let_def)


text \<open>What the four ways to replace a touched range have in common.\<close>

lemma hit_case:
  assumes ok: "cache_ok s T L" and T: "T fid = xs @ b # ys" and f: "files s fid \<noteq> None" and mode: "\<not> (preop \<and> disk \<and> r)"
    and addp: "addp_ok fid r addp" and c: "heap s b = Some c" and t: "hit_pr preop disk r addp c = Inr t" and tmp: "tmp = heap_next s"
    and range: "pr_start c \<le> pr_start addp" "hi \<le> pr_end c"
    and step: "heap_step fid (heap_next s) (heap s) (T fid) (heap s1) as' (map core (cells (heap s) xs) @ us @ map core (cells (heap s) ys))"
    and us: "tiles (pr_start c) us (pr_end c)"
      "\<And>pg. pr_start c \<le> pg \<Longrightarrow> pg < pr_end c \<Longrightarrow> page_at us pg = Some (if pr_start addp \<le> pg \<and> pg < hi then attrs t else attrs c)"
    and s1: "files s1 = (files s)(fid \<mapsto> ff1)" "pr_head ff1 = hd_ptr as' None" "free_pages s1 = free_pages s"
      "dirty_pages s1 = dirty_pages s" "total_usable_pages s1 = total_usable_pages s" "other_fields s1 = other_fields s"
      "\<forall>a. heap s1 a \<noteq> None \<longrightarrow> a < heap_next s1"
    and lru: "lru_only s1 s2" "lru_ok s2 L'" "set L' = set L - set (T fid) \<union> set as'"
    and last: "\<forall>a. pre' = Some a \<longrightarrow> a \<in> set as'"
    and hx: "hx = heap s2 \<or> (\<exists>b. hx = (heap s2)(b := None) \<and> b \<in> set (T fid) \<and> b \<notin> set as')"
    and tt: "heap s1 tmp = Some tt" "pr_start tt = pr_start addp" "pr_end tt = hi" "tmp \<in> set as'"
    and inner: "(if pr_start addp = pr_start c
       then walk_hit_start fid (preop \<and> \<not> r \<and> \<not> disk) addp (Some tmp) pre (Some b) (s\<lparr>heap := (heap s)(tmp \<mapsto> t), heap_next := Suc tmp\<rparr>)
       else walk_hit_inside (preop \<and> \<not> r \<and> \<not> disk) addp (Some tmp) pre (Some b) (s\<lparr>heap := (heap s)(tmp \<mapsto> t), heap_next := Suc tmp\<rparr>)) =
       Inr (addp', pre', cp', s2\<lparr>heap := hx\<rparr>)"
  shows "\<exists>s' L'. walk_hit fid preop disk r addp pre (Some b) s = Inr (addp', pre', cp', s') \<and> cache_ok s' (T(fid := as')) L' \<and>
    updates fid (pr_start addp) hi (new_attrs preop disk r addp) s T s' (T(fid := as')) \<and>
    map core (cells (heap s') as') = map core (cells (heap s) xs) @ us @ map core (cells (heap s) ys) \<and>
    free_pages s' = free_pages s \<and> dirty_pages s' = dirty_pages s - (if preop \<and> disk \<and> \<not> r then hi - pr_start addp else 0) \<and>
    heap_next s' = heap_next s1"
proof -
  let ?D = "map core (cells (heap s) xs) @ us @ map core (cells (heap s) ys)"
  let ?C = "map core (cells (heap s) xs) @ core c # map core (cells (heap s) ys)"
  have old: "map core (cells (heap s) (T fid)) = ?C" by (simp add: T c)
  obtain lo where "in_order lo (map core (cells (heap s) (T fid)))" using cache_table(4) [OF ok, of fid] by auto
  then have ord: "in_order lo ?C" unfolding old .
  have us': "tiles (pr_start (core c)) us (pr_end (core c))" using us(1) by simp
  note rep = tile_replace [OF ord us']
  have size: "total_size ?D = total_size (cells (heap s) (T fid))" using rep(2) old by (metis total_size_core)
  have pages: "page s T fid pg = page_at ?C pg" for pg by (metis old page_at_core page_def)
  obtain tx where tx: "heap s2 tmp = Some tx" "no_lru tx = no_lru tt"
    using lru(1) tt(1) unfolding lru_only_def by (metis map_option_eq_Some)
  have tx_hx: "hx tmp = Some tx" using hx tx(1) tt(4) by auto
  have tx_range: "pr_start tx = pr_start addp" "pr_end tx = hi" using no_lru_fields [OF tx(2)] tt by auto
  have rest: "dirty_pages s2 = dirty_pages s" using lru(1) rest_fields [of s2 s1] s1(4) by (simp add: lru_only_def)
  define s' where "s' = upd_file fid (\<lambda>f. f\<lparr>pr_last := pre'\<rparr>)
      (s2\<lparr>heap := hx, dirty_pages := dirty_pages s2 - (if preop \<and> disk \<and> \<not> r then pr_end tx - pr_start tx else 0)\<rparr>)"
  note fin = hit_finish [OF ok f step s1(1-3,5-7) lru rep(1) size last hx s'_def]
  have "updates fid (pr_start addp) hi (new_attrs preop disk r addp) s T s' (T(fid := as'))"
  proof -
    have C: "page_at ?C pg = Some (attrs c)" if "pr_start c \<le> pg" "pg < pr_end c" for pg
      using rep(3) [of pg] that tiles_pages [OF us', of pg]
    proof -
      have "tiles (pr_start (core c)) [core c] (pr_end (core c))" using us' tiles_le [OF us'] ord by (auto simp: in_order_append)
      from tile_replace(3) [OF ord this, of pg] that show ?thesis by simp
    qed
    have "new_attrs preop disk r addp (Some (attrs c)) = attrs t"
      using hit_pr_ok [of addp r preop disk c] t addp by (auto simp: new_attrs_def addp_ok_def)
    then have "page_at ?D pg = (if pr_start addp \<le> pg \<and> pg < hi then Some (new_attrs preop disk r addp (page s T fid pg)) else page s T fid pg)" for pg
      using rep(3) [of pg] us(2) [of pg] C [of pg] range by (auto simp: pages)
    then show ?thesis using fin by (simp add: updates_def)
  qed
  moreover have "walk_hit fid preop disk r addp pre (Some b) s = Inr (addp', pre', cp', s')"
    using walk_hit_run [OF mode c t tmp inner tx_hx] by (simp add: s'_def)
  ultimately show ?thesis using fin tx_range rest by (intro exI [of _ s'] exI [of _ L']) simp
qed


lemma dseg_data:
  assumes "h b = Some c" "pr_next c' = pr_next c" "pr_prev c' = pr_prev c"
  shows "dseg pr_next pr_prev (h(b \<mapsto> c')) p as q = dseg pr_next pr_prev h p as q"
  by (rule dseg_cong) (use assms in auto)

lemma same_lru_trans: "same_lru L h h' \<Longrightarrow> same_lru L h' h'' \<Longrightarrow> same_lru L h h''"
  by (simp add: same_lru_def)

lemma same_lru_data:
  "h b = Some c \<Longrightarrow> lru_next c' = lru_next c \<Longrightarrow> lru_prev c' = lru_prev c \<Longrightarrow> same_lru L h (h(b \<mapsto> c'))"
  by (simp add: same_lru_def)

text \<open>The facts about the touched range and the new one that all four cases use.\<close>

lemma hit_facts:
  assumes ok: "cache_ok s T L" and T: "T fid = xs @ b # ys" and tmp: "tmp = heap_next s" and c: "heap s b = Some c"
  shows "tmp \<notin> set (xs @ b # ys)" "distinct (xs @ b # ys)" "\<forall>a\<in>set (xs @ ys). heap s a \<noteq> None"
    "dseg pr_next pr_prev (heap s) None (xs @ b # ys) None" "pr_next c = hd_ptr ys None"
    "\<forall>a\<in>set (xs @ b # ys). pr_fileid (the (heap s a)) = fid \<and> heap s a \<noteq> None"
    "b \<in> set L" "tmp \<notin> set L" "lru_ok s L" "\<forall>a. heap s a \<noteq> None \<longrightarrow> a < tmp" "pr_start c < pr_end c" "set (T fid) \<subseteq> set L"
proof -
  note t = cache_table [OF ok, of fid, unfolded T] and l = cache_lru [OF ok]
  show "tmp \<notin> set (xs @ b # ys)" using t(6) tmp by blast
  show "distinct (xs @ b # ys)" by (rule t(2))
  show "\<forall>a\<in>set (xs @ ys). heap s a \<noteq> None" using t(5) by simp
  show "dseg pr_next pr_prev (heap s) None (xs @ b # ys) None" by (rule t(1))
  then show "pr_next c = hd_ptr ys None" using c by auto
  show "\<forall>a\<in>set (xs @ b # ys). pr_fileid (the (heap s a)) = fid \<and> heap s a \<noteq> None" using t(3,5) by blast
  show "b \<in> set L" using l(2) [of fid] T by auto
  show "tmp \<notin> set L" using l(3) tmp by simp
  show "lru_ok s L" by (rule l(1))
  show "\<forall>a. heap s a \<noteq> None \<longrightarrow> a < tmp" using ok tmp by (auto simp: cache_ok_def heap_ok_def)
  show "pr_start c < pr_end c" using t(4) c by (auto simp: in_order_append)
  show "set (T fid) \<subseteq> set L" by (rule l(2))
qed

definition hit_result :: "int \<Rightarrow> bool \<Rightarrow> bool \<Rightarrow> bool \<Rightarrow> pr_t \<Rightarrow> ptr \<Rightarrow> nat \<Rightarrow> pr_t \<Rightarrow> nat list \<Rightarrow> dcache \<Rightarrow> (int \<Rightarrow> nat list) \<Rightarrow> bool" where
  "hit_result fid preop disk r addp pre b c ys s T \<longleftrightarrow>
    (\<exists>s' L' as' pre' b' part hi. part = (pr_end addp < pr_end c) \<and> hi = (if part then pr_end addp else pr_end c) \<and>
       walk_hit fid preop disk r addp pre (Some b) s =
         Inr (if part then None else Some (addp\<lparr>pr_start := hi\<rparr>), pre', Some b', s') \<and> cache_ok s' (T(fid := as')) L' \<and>
       updates fid (pr_start addp) hi (new_attrs preop disk r addp) s T s' (T(fid := as')) \<and>
       free_pages s' = free_pages s \<and> dirty_pages s' = dirty_pages s - (if preop \<and> disk \<and> \<not> r then hi - pr_start addp else 0) \<and>
       heap_next s \<le> heap_next s' \<and>
       (\<not> part \<longrightarrow> (\<exists>zs. as' = zs @ b' # ys \<and> map core (cells (heap s') ys) = map core (cells (heap s) ys) \<and>
          (\<forall>e\<in>set (cells (heap s') (zs @ [b'])). pr_end e \<le> hi))))"

lemma hit_resultI:
  assumes "\<exists>s' L'. walk_hit fid preop disk r addp pre (Some b) s = Inr (addp', pre', Some b', s') \<and> cache_ok s' (T(fid := as')) L' \<and>
    updates fid (pr_start addp) hi (new_attrs preop disk r addp) s T s' (T(fid := as')) \<and> map core (cells (heap s') as') = D \<and>
    free_pages s' = free_pages s \<and> dirty_pages s' = dirty_pages s - (if preop \<and> disk \<and> \<not> r then hi - pr_start addp else 0) \<and>
    heap_next s' = n"
    and part: "part = (pr_end addp < pr_end c)" "hi = (if part then pr_end addp else pr_end c)"
      "addp' = (if part then None else Some (addp\<lparr>pr_start := hi\<rparr>))" "heap_next s \<le> n"
    and rest: "\<not> part \<longrightarrow> as' = zs @ b' # ys \<and> D = ds @ map core (cells (heap s) ys) \<and> length ds = Suc (length zs) \<and> (\<forall>e\<in>set ds. pr_end e \<le> hi)"
  shows "hit_result fid preop disk r addp pre b c ys s T"
proof -
  obtain s' L' where R: "walk_hit fid preop disk r addp pre (Some b) s = Inr (addp', pre', Some b', s')" "cache_ok s' (T(fid := as')) L'"
    "updates fid (pr_start addp) hi (new_attrs preop disk r addp) s T s' (T(fid := as'))" "map core (cells (heap s') as') = D"
    "free_pages s' = free_pages s" "dirty_pages s' = dirty_pages s - (if preop \<and> disk \<and> \<not> r then hi - pr_start addp else 0)"
    "heap_next s' = n" using assms(1) by blast
  have "\<exists>zs. as' = zs @ b' # ys \<and> map core (cells (heap s') ys) = map core (cells (heap s) ys) \<and>
      (\<forall>e\<in>set (cells (heap s') (zs @ [b'])). pr_end e \<le> hi)" if "\<not> part"
  proof -
    have as': "as' = (zs @ [b']) @ ys" and D: "D = ds @ map core (cells (heap s) ys)" "length ds = length (zs @ [b'])"
      and ds: "\<forall>e\<in>set ds. pr_end e \<le> hi" using rest that by auto
    have "map core (cells (heap s') (zs @ [b'])) @ map core (cells (heap s') ys) = ds @ map core (cells (heap s) ys)"
      using R(4) unfolding as' D(1) by simp
    moreover have "length (map core (cells (heap s') (zs @ [b']))) = length ds" using D(2) by (simp add: cells_def)
    ultimately have e: "map core (cells (heap s') (zs @ [b'])) = ds" "map core (cells (heap s') ys) = map core (cells (heap s) ys)"
      by (meson append_eq_append_conv)+
    have "pr_end e \<le> hi" if "e \<in> set (cells (heap s') (zs @ [b']))" for e
      using ds that unfolding e(1) [symmetric] by fastforce
    then show ?thesis using e(2) as' by auto
  qed
  with R part show ?thesis unfolding hit_result_def
    by (intro exI [of _ s'] exI [of _ L'] exI [of _ as'] exI [of _ pre'] exI [of _ b'] exI [of _ part] exI [of _ hi]) simp
qed

lemma hit_start_part:
  assumes ok: "cache_ok s T L" and T: "T fid = xs @ b # ys" and f: "files s fid \<noteq> None" and mode: "\<not> (preop \<and> disk \<and> r)"
    and addp: "addp_ok fid r addp" and c: "heap s b = Some c"
    and place: "pr_start addp = pr_start c" "pr_end addp < pr_end c" and pre: "pre = last_ptr None xs"
  shows "hit_result fid preop disk r addp pre b c ys s T"
proof -
  define tmp where "tmp = heap_next s"
  note F = hit_facts [OF ok T tmp_def c]
  obtain ff where ff: "files s fid = Some ff" using f by auto
  obtain t where t: "hit_pr preop disk r addp c = Inr t" "pr_start t = pr_start addp" "pr_end t = pr_end addp" "pr_next t = None"
    "pr_prev t = None" "pr_fileid t = fid" using hit_pr_ok [of addp r preop disk c] addp by (auto simp: addp_ok_def)
  let ?c' = "c\<lparr>pr_start := pr_end addp\<rparr>"
  let ?h = "linked_heap ((heap s)(b \<mapsto> ?c')) xs tmp t (pr_end addp) (b # ys)"
  define s0 where "s0 = s\<lparr>heap := (heap s)(tmp \<mapsto> t), heap_next := Suc tmp\<rparr>"
  define s1 where "s1 = (head_if (xs = []) fid tmp s0)\<lparr>heap := ?h\<rparr>"
  let ?w = "preop \<and> \<not> r \<and> \<not> disk"
  have tb: "tmp \<noteq> b" using F(1) by auto
  have h1: "linked_heap ((heap s0)(b \<mapsto> ?c')) xs tmp t (pr_end addp) (b # ys) = ?h"
    using linked_heap_overwrite [of tmp b] tb by (simp add: s0_def)
  have run: "walk_hit_start fid ?w addp (Some tmp) pre (Some b) s0 =
      bindR (if ?w then lru_push (Some tmp) s1 else lru_insert (Some tmp) (Some b) s1) (\<lambda>s. Inr (None, pre, Some b, s))"
    unfolding pre using hit_start_part_run [OF F(1), of s0 t addp c fid ?w, unfolded Let_def h1, folded s1_def]
      F(2,3) t c place(2) tb by (simp add: s0_def)
  have s0_rest: "lru_list s0 = lru_list s" "lru_list_end s0 = lru_list_end s" by (simp_all add: s0_def)
  have lru1: "lru_ok s1 L"
  proof (rule same_lru_ok [OF F(9)])
    have "same_lru L (heap s) ((heap s)(b \<mapsto> ?c'))" by (rule same_lru_data [of "heap s" b c, OF c]) simp_all
    then show "same_lru L (heap s) (heap s1)" using linked_heap_lru [OF F(8)] by (simp add: s1_def) (rule same_lru_trans)
  qed (simp_all add: s1_def s0_rest)
  have tt: "heap s1 tmp = Some (t\<lparr>pr_next := Some b, pr_prev := last_ptr None xs, pr_end := pr_end addp\<rparr>)"
    using linked_heap_tmp [of tmp xs "b # ys"] F(1) by (simp add: s1_def)
  obtain s2 L' where s2: "(if ?w then lru_push (Some tmp) s1 else lru_insert (Some tmp) (Some b) s1) = Inr s2" "lru_ok s2 L'"
      "set L' = insert tmp (set L)" "lru_only s1 s2"
    using lru_touch_one [OF lru1 F(7,8) tt, of ?w] by blast
  let ?D = "map core (cells (heap s) xs) @ [core (t\<lparr>pr_end := pr_end addp\<rparr>), core ?c'] @ map core (cells (heap s) ys)"
  have "heap_step fid (heap_next s) ((heap s)(b \<mapsto> ?c')) (T fid) (heap s1) (xs @ tmp # b # ys) ?D"
    using linked_heap_step [of "(heap s)(b \<mapsto> ?c')" xs "[]" "b # ys" fid tmp "heap_next s" t "pr_end addp"] F(1,2,4,6) t(6) c
    by (simp add: s1_def T tmp_def dseg_data)
  then have step: "heap_step fid (heap_next s) (heap s) (T fid) (heap s1) (xs @ tmp # b # ys) ?D"
    by (rule heap_step_from) (simp add: T)
  have "\<exists>s' L'. walk_hit fid preop disk r addp pre (Some b) s = Inr (None, pre, Some b, s') \<and> cache_ok s' (T(fid := xs @ tmp # b # ys)) L' \<and>
    updates fid (pr_start addp) (pr_end addp) (new_attrs preop disk r addp) s T s' (T(fid := xs @ tmp # b # ys)) \<and>
    map core (cells (heap s') (xs @ tmp # b # ys)) = ?D \<and>
    free_pages s' = free_pages s \<and> dirty_pages s' = dirty_pages s - (if preop \<and> disk \<and> \<not> r then pr_end addp - pr_start addp else 0) \<and>
    heap_next s' = heap_next s1"
  proof (rule hit_case [OF ok T f mode addp c t(1) tmp_def _ _ step _ _ _ _ _ _ _ _ _ s2(4,2) _ _ _ tt])
    show "files s1 = (files s)(fid \<mapsto> (if xs = [] then ff\<lparr>pr_head := Some tmp\<rparr> else ff))"
      using head_if_files [of s0 fid ff] ff by (simp add: s1_def s0_def)
    show "pr_head (if xs = [] then ff\<lparr>pr_head := Some tmp\<rparr> else ff) = hd_ptr (xs @ tmp # b # ys) None"
      using cache_file(1) [OF ok ff] T by (cases xs) auto
    show "\<forall>a. heap s1 a \<noteq> None \<longrightarrow> a < heap_next s1"
      using F(10) linked_heap_dom c by (auto simp: s1_def s0_def less_Suc_eq)
    show "set L' = set L - set (T fid) \<union> set (xs @ tmp # b # ys)" using s2(3) F(12) T by auto
    show "(if pr_start addp = pr_start c then walk_hit_start fid ?w addp (Some tmp) pre (Some b) (s\<lparr>heap := (heap s)(tmp \<mapsto> t), heap_next := Suc tmp\<rparr>)
      else walk_hit_inside ?w addp (Some tmp) pre (Some b) (s\<lparr>heap := (heap s)(tmp \<mapsto> t), heap_next := Suc tmp\<rparr>)) =
      Inr (None, pre, Some b, s2\<lparr>heap := heap s2\<rparr>)"
      using run s2(1) place(1) by (simp add: s0_def)
    show "\<forall>a. pre = Some a \<longrightarrow> a \<in> set (xs @ tmp # b # ys)" unfolding pre by (cases xs rule: rev_cases) auto
  qed (use addp place t in \<open>auto simp: s1_def s0_def addp_ok_def\<close>)
  then show ?thesis by (rule hit_resultI [where part = True]) (use place(2) in \<open>simp_all add: s1_def s0_def tmp_def\<close>)
qed


lemma hit_before:
  assumes "cache_ok s T L" "T fid = xs @ b # ys" "heap s b = Some c"
  shows "\<forall>e\<in>set (map core (cells (heap s) xs)). pr_end e \<le> pr_start c"
proof -
  obtain lo where lo: "in_order lo (cells (heap s) xs @ c # cells (heap s) ys)"
    using cache_table(4) [OF assms(1), of fid] assms(2,3) by auto
  have "pr_end e \<le> pr_start c" if "in_order lo (cs @ c # ds)" "e \<in> set cs" for cs ds lo e
    using that
  proof (induction cs arbitrary: lo)
    case (Cons x cs)
    show ?case
    proof (cases "e = x")
      case True
      then have "in_order (pr_end x) (cs @ c # ds)" using Cons.prems by simp
      then show ?thesis unfolding True by (induction cs arbitrary: x) force+
    next
      case False
      then show ?thesis using Cons.IH [of "pr_end x"] Cons.prems by simp
    qed
  qed simp
  with lo show ?thesis by fastforce
qed

lemma hit_start_full:
  assumes ok: "cache_ok s T L" and T: "T fid = xs @ b # ys" and f: "files s fid \<noteq> None" and mode: "\<not> (preop \<and> disk \<and> r)"
    and addp: "addp_ok fid r addp" and c: "heap s b = Some c"
    and place: "pr_start addp = pr_start c" "\<not> pr_end addp < pr_end c" and pre: "pre = last_ptr None xs"
  shows "hit_result fid preop disk r addp pre b c ys s T"
proof -
  define tmp where "tmp = heap_next s"
  note F = hit_facts [OF ok T tmp_def c]
  obtain ff where ff: "files s fid = Some ff" using f by auto
  obtain t where t: "hit_pr preop disk r addp c = Inr t" "pr_start t = pr_start addp" "pr_end t = pr_end addp" "pr_next t = None"
    "pr_prev t = None" "pr_fileid t = fid" using hit_pr_ok [of addp r preop disk c] addp by (auto simp: addp_ok_def)
  let ?h = "linked_heap (heap s) xs tmp t (pr_end c) ys"
  define s0 where "s0 = s\<lparr>heap := (heap s)(tmp \<mapsto> t), heap_next := Suc tmp\<rparr>"
  define s1 where "s1 = (head_if (xs = []) fid tmp s0)\<lparr>heap := ?h\<rparr>"
  let ?w = "preop \<and> \<not> r \<and> \<not> disk"
  have tb: "tmp \<noteq> b" "tmp \<notin> set (xs @ ys)" and b_out: "b \<notin> set (xs @ ys)" using F(1,2) by auto
  have h1: "linked_heap (heap s0) xs tmp t (pr_end c) ys = ?h" by (simp add: s0_def)
  have run: "walk_hit_start fid ?w addp (Some tmp) pre (Some b) s0 =
      bindR (if ?w then bindR (lru_delete (Some b) s1) (lru_push (Some tmp)) else lru_substitute (Some tmp) (Some b) s1) (\<lambda>s.
        bindR (free_pr (Some b) s) (\<lambda>s. Inr (Some (addp\<lparr>pr_start := pr_end c\<rparr>), pre, Some tmp, s)))"
    unfolding pre using hit_start_full_run [OF F(1), of s0 t c addp fid ?w, unfolded Let_def h1, folded s1_def]
      F(2,3,5) t c place(2) tb by (simp add: s0_def)
  have lru1: "lru_ok s1 L"
    by (rule same_lru_ok [OF F(9)]) (simp_all add: s1_def s0_def linked_heap_lru [OF F(8)])
  have tt: "heap s1 tmp = Some (t\<lparr>pr_next := hd_ptr ys None, pr_prev := last_ptr None xs, pr_end := pr_end c\<rparr>)"
    using linked_heap_tmp [OF tb(2)] by (simp add: s1_def)
  have "last_ptr None xs \<noteq> Some b" "hd_ptr ys None \<noteq> Some b" using b_out by (cases xs rule: rev_cases; cases ys; auto)+
  then have b1: "heap s1 b = Some c" using c tb by (simp add: s1_def linked_heap_def tab_upd_other)
  have cores: "map_option core (heap s1 a) = map_option core (heap s a)" if "a \<in> set L" for a
    using that F(8) by (auto simp: s1_def linked_heap_def)
  have uniq: "\<forall>a\<in>set L. a \<noteq> b \<longrightarrow> pr_fileid (the (heap s1 a)) \<noteq> pr_fileid c \<or> pr_start (the (heap s1 a)) \<noteq> pr_start c"
  proof (intro ballI impI)
    fix a assume a: "a \<in> set L" "a \<noteq> b"
    obtain ca where ca: "heap s a = Some ca" using cache_lru(4) [OF ok] a(1) by auto
    then obtain da where "heap s1 a = Some da" "core da = core ca" using cores [OF a(1)] by auto
    then show "pr_fileid (the (heap s1 a)) \<noteq> pr_fileid c \<or> pr_start (the (heap s1 a)) \<noteq> pr_start c"
      using cache_unique [OF ok a(1) F(7)] a(2) ca c by (metis core_sel(1,4) option.sel)
  qed
  have "length L \<le> heap_next s1" using cache_length [OF ok] by (simp add: s1_def s0_def tmp_def)
  from lru_touch_replace [OF lru1 F(7) b1 F(8) tt uniq this, of ?w] obtain s2 L' where
    s2: "(if ?w then bindR (lru_delete (Some b) s1) (lru_push (Some tmp)) else lru_substitute (Some tmp) (Some b) s1) = Inr s2"
      "lru_ok s2 L'" "set L' = insert tmp (set L - {b})" "lru_only s1 s2" by blast
  obtain cb where cb: "heap s2 b = Some cb" using lru_only_heap [OF s2(4), of b] b1 by auto
  let ?D = "map core (cells (heap s) xs) @ [core (t\<lparr>pr_end := pr_end c\<rparr>)] @ map core (cells (heap s) ys)"
  have step: "heap_step fid (heap_next s) (heap s) (T fid) (heap s1) (xs @ tmp # ys) ?D"
    using linked_heap_step [of "heap s" xs "[b]" ys fid tmp "heap_next s" t "pr_end c"] F(2,4,6) tb t(6)
    by (simp add: s1_def T tmp_def)
  have "\<exists>s' L'. walk_hit fid preop disk r addp pre (Some b) s = Inr (Some (addp\<lparr>pr_start := pr_end c\<rparr>), pre, Some tmp, s') \<and>
    cache_ok s' (T(fid := xs @ tmp # ys)) L' \<and>
    updates fid (pr_start addp) (pr_end c) (new_attrs preop disk r addp) s T s' (T(fid := xs @ tmp # ys)) \<and>
    map core (cells (heap s') (xs @ tmp # ys)) = ?D \<and>
    free_pages s' = free_pages s \<and> dirty_pages s' = dirty_pages s - (if preop \<and> disk \<and> \<not> r then pr_end c - pr_start addp else 0) \<and>
    heap_next s' = heap_next s1"
  proof (rule hit_case [OF ok T f mode addp c t(1) tmp_def _ _ step _ _ _ _ _ _ _ _ _ s2(4,2) _ _ _ tt, where hx = "(heap s2)(b := None)"])
    show "files s1 = (files s)(fid \<mapsto> (if xs = [] then ff\<lparr>pr_head := Some tmp\<rparr> else ff))"
      using head_if_files [of s0 fid ff] ff by (simp add: s1_def s0_def)
    show "pr_head (if xs = [] then ff\<lparr>pr_head := Some tmp\<rparr> else ff) = hd_ptr (xs @ tmp # ys) None"
      using cache_file(1) [OF ok ff] T by (cases xs) auto
    show "\<forall>a. heap s1 a \<noteq> None \<longrightarrow> a < heap_next s1"
      using F(10) linked_heap_dom by (auto simp: s1_def s0_def less_Suc_eq)
    show "set L' = set L - set (T fid) \<union> set (xs @ tmp # ys)" using s2(3) F(12) T b_out by auto
    show "(if pr_start addp = pr_start c then walk_hit_start fid ?w addp (Some tmp) pre (Some b) (s\<lparr>heap := (heap s)(tmp \<mapsto> t), heap_next := Suc tmp\<rparr>)
      else walk_hit_inside ?w addp (Some tmp) pre (Some b) (s\<lparr>heap := (heap s)(tmp \<mapsto> t), heap_next := Suc tmp\<rparr>)) =
      Inr (Some (addp\<lparr>pr_start := pr_end c\<rparr>), pre, Some tmp, s2\<lparr>heap := (heap s2)(b := None)\<rparr>)"
      using run s2(1) place(1) cb by (simp add: s0_def)
    show "\<forall>a. pre = Some a \<longrightarrow> a \<in> set (xs @ tmp # ys)" unfolding pre by (cases xs rule: rev_cases) auto
    show "(heap s2)(b := None) = heap s2 \<or> (\<exists>b'. (heap s2)(b := None) = (heap s2)(b' := None) \<and> b' \<in> set (T fid) \<and> b' \<notin> set (xs @ tmp # ys))"
      using T b_out tb by auto
  qed (use addp place t F(11) in \<open>auto simp: s1_def s0_def addp_ok_def\<close>)
  then show ?thesis
    by (rule hit_resultI [where part = False and zs = xs and ds = "map core (cells (heap s) xs) @ [core (t\<lparr>pr_end := pr_end c\<rparr>)]"])
      (use place(2) hit_before [OF ok T c] F(11) in \<open>auto simp: s1_def s0_def tmp_def cells_def\<close>)
qed


lemma hit_inside_rest:
  assumes ok: "cache_ok s T L" and T: "T fid = xs @ b # ys" and f: "files s fid \<noteq> None" and mode: "\<not> (preop \<and> disk \<and> r)"
    and addp: "addp_ok fid r addp" and c: "heap s b = Some c"
    and place: "pr_start c < pr_start addp" "pr_start addp < pr_end c" "\<not> pr_end addp < pr_end c"
  shows "hit_result fid preop disk r addp pre b c ys s T"
proof -
  define tmp where "tmp = heap_next s"
  note F = hit_facts [OF ok T tmp_def c]
  obtain ff where ff: "files s fid = Some ff" using f by auto
  obtain t where t: "hit_pr preop disk r addp c = Inr t" "pr_start t = pr_start addp" "pr_end t = pr_end addp" "pr_next t = None"
    "pr_prev t = None" "pr_fileid t = fid" using hit_pr_ok [of addp r preop disk c] addp by (auto simp: addp_ok_def)
  let ?c' = "c\<lparr>pr_end := pr_start t\<rparr>"
  let ?h = "linked_heap ((heap s)(b \<mapsto> ?c')) (xs @ [b]) tmp t (pr_end c) ys"
  define s0 where "s0 = s\<lparr>heap := (heap s)(tmp \<mapsto> t), heap_next := Suc tmp\<rparr>"
  define s1 where "s1 = s0\<lparr>heap := ?h\<rparr>"
  let ?w = "preop \<and> \<not> r \<and> \<not> disk"
  have tb: "tmp \<noteq> b" using F(1) by auto
  have h1: "linked_heap ((heap s0)(b \<mapsto> ?c')) (xs @ [b]) tmp t (pr_end c) ys = ?h"
    using linked_heap_overwrite [of tmp b] tb by (simp add: s0_def)
  have run: "walk_hit_inside ?w addp (Some tmp) pre (Some b) s0 =
      bindR (if ?w then lru_push (Some tmp) s1 else lru_insert (Some tmp) (Some b) s1) (\<lambda>s.
        Inr (Some (addp\<lparr>pr_start := pr_end c\<rparr>), Some b, Some tmp, s))"
    using hit_inside_rest_run [OF F(1), of s0 t c addp ?w pre, unfolded Let_def h1, folded s1_def]
      F(2,3,5) t c place(3) tb by (simp add: s0_def)
  have lru1: "lru_ok s1 L"
  proof (rule same_lru_ok [OF F(9)])
    have "same_lru L (heap s) ((heap s)(b \<mapsto> ?c'))" by (rule same_lru_data [of "heap s" b c, OF c]) simp_all
    then show "same_lru L (heap s) (heap s1)" using linked_heap_lru [OF F(8)] by (simp add: s1_def) (rule same_lru_trans)
  qed (simp_all add: s1_def s0_def)
  have tt: "heap s1 tmp = Some (t\<lparr>pr_next := hd_ptr ys None, pr_prev := Some b, pr_end := pr_end c\<rparr>)"
    using linked_heap_tmp [of tmp "xs @ [b]" ys] F(1) by (simp add: s1_def)
  obtain s2 L' where s2: "(if ?w then lru_push (Some tmp) s1 else lru_insert (Some tmp) (Some b) s1) = Inr s2" "lru_ok s2 L'"
      "set L' = insert tmp (set L)" "lru_only s1 s2"
    using lru_touch_one [OF lru1 F(7,8) tt, of ?w] by blast
  let ?D = "map core (cells (heap s) xs) @ [core ?c', core (t\<lparr>pr_end := pr_end c\<rparr>)] @ map core (cells (heap s) ys)"
  have "heap_step fid (heap_next s) ((heap s)(b \<mapsto> ?c')) (T fid) (heap s1) (xs @ b # tmp # ys) ?D"
    using linked_heap_step [of "(heap s)(b \<mapsto> ?c')" "xs @ [b]" "[]" ys fid tmp "heap_next s" t "pr_end c"] F(1,2,4,6) t(6) c
    by (simp add: s1_def T tmp_def dseg_data)
  then have step: "heap_step fid (heap_next s) (heap s) (T fid) (heap s1) (xs @ b # tmp # ys) ?D"
    by (rule heap_step_from) (simp add: T)
  have "\<exists>s' L'. walk_hit fid preop disk r addp pre (Some b) s = Inr (Some (addp\<lparr>pr_start := pr_end c\<rparr>), Some b, Some tmp, s') \<and>
    cache_ok s' (T(fid := xs @ b # tmp # ys)) L' \<and>
    updates fid (pr_start addp) (pr_end c) (new_attrs preop disk r addp) s T s' (T(fid := xs @ b # tmp # ys)) \<and>
    map core (cells (heap s') (xs @ b # tmp # ys)) = ?D \<and>
    free_pages s' = free_pages s \<and> dirty_pages s' = dirty_pages s - (if preop \<and> disk \<and> \<not> r then pr_end c - pr_start addp else 0) \<and>
    heap_next s' = heap_next s1"
  proof (rule hit_case [OF ok T f mode addp c t(1) tmp_def _ _ step _ _ _ _ _ _ _ _ _ s2(4,2) _ _ _ tt])
    show "files s1 = (files s)(fid \<mapsto> ff)" using ff by (auto simp: s1_def s0_def)
    show "pr_head ff = hd_ptr (xs @ b # tmp # ys) None" using cache_file(1) [OF ok ff] T by (cases xs) auto
    show "\<forall>a. heap s1 a \<noteq> None \<longrightarrow> a < heap_next s1"
      using F(10) linked_heap_dom c by (auto simp: s1_def s0_def less_Suc_eq)
    show "set L' = set L - set (T fid) \<union> set (xs @ b # tmp # ys)" using s2(3) F(12) T by auto
    show "(if pr_start addp = pr_start c then walk_hit_start fid ?w addp (Some tmp) pre (Some b) (s\<lparr>heap := (heap s)(tmp \<mapsto> t), heap_next := Suc tmp\<rparr>)
      else walk_hit_inside ?w addp (Some tmp) pre (Some b) (s\<lparr>heap := (heap s)(tmp \<mapsto> t), heap_next := Suc tmp\<rparr>)) =
      Inr (Some (addp\<lparr>pr_start := pr_end c\<rparr>), Some b, Some tmp, s2\<lparr>heap := heap s2\<rparr>)"
      using run s2(1) place(1) by (simp add: s0_def)
  qed (use addp place t in \<open>auto simp: s1_def s0_def addp_ok_def\<close>)
  then show ?thesis
    by (rule hit_resultI [where part = False and zs = "xs @ [b]" and ds = "map core (cells (heap s) xs) @ [core ?c', core (t\<lparr>pr_end := pr_end c\<rparr>)]"])
      (use place t(2) hit_before [OF ok T c] in \<open>auto simp: s1_def s0_def tmp_def cells_def\<close>)
qed

lemma heap_step_trans:
  assumes "heap_step fid n h as h2 as2 D2" "heap_step fid n h2 as2 h' as' D"
  shows "heap_step fid n h as h' as' D"
proof -
  have 1: "\<forall>a. a \<notin> set as \<longrightarrow> a < n \<longrightarrow> map_option no_lru (h2 a) = map_option no_lru (h a)" "\<forall>a\<in>set as2. a \<in> set as \<or> n \<le> a"
    using assms(1) by (auto simp: heap_step_def)
  then have "\<forall>a. a \<notin> set as \<longrightarrow> a < n \<longrightarrow> a \<notin> set as2" by auto
  with 1 assms(2) show ?thesis by (auto simp: heap_step_def)
qed

lemma attrs_copy [simp]: "attrs (copy_pr c) = attrs c"
  by (simp add: attrs_def copy_pr_def)

lemma hit_inside_part:
  assumes ok: "cache_ok s T L" and T: "T fid = xs @ b # ys" and f: "files s fid \<noteq> None" and mode: "\<not> (preop \<and> disk \<and> r)"
    and addp: "addp_ok fid r addp" and c: "heap s b = Some c"
    and place: "pr_start c < pr_start addp" "pr_end addp < pr_end c" and pre: "pre = None \<or> pre = last_ptr None xs"
  shows "hit_result fid preop disk r addp pre b c ys s T"
proof -
  define tmp where "tmp = heap_next s"
  define tmp2 where "tmp2 = Suc tmp"
  note F = hit_facts [OF ok T tmp_def c]
  obtain ff where ff: "files s fid = Some ff" using f by auto
  obtain t where t: "hit_pr preop disk r addp c = Inr t" "pr_start t = pr_start addp" "pr_end t = pr_end addp" "pr_next t = None"
    "pr_prev t = None" "pr_fileid t = fid" using hit_pr_ok [of addp r preop disk c] addp by (auto simp: addp_ok_def)
  let ?c' = "c\<lparr>pr_end := pr_start t\<rparr>" and ?c2 = "(copy_pr c)\<lparr>pr_start := pr_end t\<rparr>"
  let ?g = "(heap s)(b \<mapsto> ?c')"
  let ?h2 = "linked_heap ?g (xs @ [b]) tmp2 ?c2 (pr_end c) ys"
  let ?h = "linked_heap ?h2 (xs @ [b]) tmp t (pr_end t) (tmp2 # ys)"
  define s0 where "s0 = s\<lparr>heap := (heap s)(tmp \<mapsto> t), heap_next := Suc tmp\<rparr>"
  define s1 where "s1 = s0\<lparr>heap := ?h, heap_next := Suc tmp2\<rparr>"
  let ?w = "preop \<and> \<not> r \<and> \<not> disk"
  have tb: "tmp \<noteq> b" "tmp2 \<noteq> b" "tmp \<noteq> tmp2" "tmp2 \<notin> set (xs @ b # ys)" "tmp2 \<notin> set L" "heap s tmp2 = None"
  proof -
    show none: "heap s tmp2 = None"
    proof (rule ccontr)
      assume "heap s tmp2 \<noteq> None"
      then have "tmp2 < tmp" using F(10) by blast
      then show False by (simp add: tmp2_def)
    qed
    show "tmp \<noteq> b" "tmp \<noteq> tmp2" using F(1) by (auto simp: tmp2_def)
    show out: "tmp2 \<notin> set (xs @ b # ys)" using none F(6) by blast
    then show "tmp2 \<noteq> b" by auto
    show "tmp2 \<notin> set L" using none cache_lru(4) [OF ok] by auto
  qed
  have h1: "split_heap (heap s0) xs b c tmp t tmp2 ys = ?h"
  proof -
    note agree = tab_upd_agree [of "(heap s)(tmp \<mapsto> t, b \<mapsto> ?c', tmp2 \<mapsto> y)" _ "(heap s)(b \<mapsto> ?c', tmp2 \<mapsto> y)" for y]
    show ?thesis using tb by (auto simp: split_heap_def s0_def linked_heap_def fun_eq_iff agree)
  qed
  have run: "walk_hit_inside ?w addp (Some tmp) pre (Some b) s0 =
      bindR (if ?w then bindR (lru_insert (Some tmp2) (Some b) s1) (lru_push (Some tmp))
             else bindR (lru_insert (Some tmp) (Some b) s1) (lru_insert (Some tmp2) (Some tmp))) (\<lambda>s. Inr (None, pre, Some b, s))"
    using hit_inside_part_run [OF F(1) tb(4,3), of s0 t addp c ?w pre, unfolded Let_def h1, folded s1_def]
      F(2,3,5) t c place(2) tb by (simp add: s0_def tmp2_def)
  have lru1: "lru_ok s1 L"
  proof (rule same_lru_ok [OF F(9)])
    have "same_lru L (heap s) ?g" by (rule same_lru_data [of "heap s" b c, OF c]) simp_all
    then have "same_lru L (heap s) ?h2" by (rule same_lru_trans) (rule linked_heap_lru [OF tb(5)])
    then have "same_lru L (heap s) ?h" by (rule same_lru_trans) (rule linked_heap_lru [OF F(8)])
    then show "same_lru L (heap s) (heap s1)" by (simp add: s1_def)
  qed (simp_all add: s1_def s0_def)
  have tt: "heap s1 tmp = Some (t\<lparr>pr_next := Some tmp2, pr_prev := Some b, pr_end := pr_end t\<rparr>)"
    using linked_heap_tmp [of tmp "xs @ [b]" "tmp2 # ys"] F(1) tb(3) by (simp add: s1_def)
  have "?h tmp2 \<noteq> None" by (simp only: linked_heap_dom) simp
  then have "heap s1 tmp2 \<noteq> None" by (simp add: s1_def)
  then obtain t2 where tt2: "heap s1 tmp2 = Some t2" by auto
  obtain s2 L' where s2: "(if ?w then bindR (lru_insert (Some tmp2) (Some b) s1) (lru_push (Some tmp))
             else bindR (lru_insert (Some tmp) (Some b) s1) (lru_insert (Some tmp2) (Some tmp))) = Inr s2" "lru_ok s2 L'"
      "set L' = insert tmp (insert tmp2 (set L))" "lru_only s1 s2"
    using lru_touch_two [OF lru1 F(7,8) tt tb(5) tt2 tb(3), of ?w] by blast
  let ?us = "[core ?c', core t, core (?c2\<lparr>pr_end := pr_end c\<rparr>)]"
  let ?D = "map core (cells (heap s) xs) @ ?us @ map core (cells (heap s) ys)"
  have c2: "pr_fileid ?c2 = fid" using F(6) c by (simp add: copy_pr_def)
  let ?D2 = "map core (cells (heap s) xs) @ [core ?c', core (?c2\<lparr>pr_end := pr_end c\<rparr>)] @ map core (cells (heap s) ys)"
  have step2: "heap_step fid tmp ?g (xs @ b # ys) ?h2 (xs @ b # tmp2 # ys) ?D2"
    using linked_heap_step [of ?g "xs @ [b]" "[]" ys fid tmp2 tmp ?c2 "pr_end c"] F(1,2,4,6) c2 c tb
    by (simp add: tmp2_def dseg_data)
  have cells2: "map core (cells ?h2 (xs @ b # tmp2 # ys)) = ?D2" using step2 by (simp add: heap_step_def)
  have D2: "map core (cells ?h2 (xs @ [b])) @ core t # map core (cells ?h2 (tmp2 # ys)) = ?D"
  proof -
    have "map core (cells ?h2 (xs @ [b])) @ map core (cells ?h2 (tmp2 # ys)) =
        (map core (cells (heap s) xs) @ [core ?c']) @ (core (?c2\<lparr>pr_end := pr_end c\<rparr>) # map core (cells (heap s) ys))"
      using cells2 by simp
    moreover have "length (map core (cells ?h2 (xs @ [b]))) = length (map core (cells (heap s) xs) @ [core ?c'])" by (simp add: cells_def)
    ultimately have "map core (cells ?h2 (xs @ [b])) = map core (cells (heap s) xs) @ [core ?c']"
      "map core (cells ?h2 (tmp2 # ys)) = core (?c2\<lparr>pr_end := pr_end c\<rparr>) # map core (cells (heap s) ys)"
      by (meson append_eq_append_conv)+
    then show ?thesis by simp
  qed
  have s1h: "heap s1 = ?h" by (simp add: s1_def)
  have D2t: "map core (cells ?h2 (xs @ [b])) @ core (t\<lparr>pr_end := pr_end t\<rparr>) # map core (cells ?h2 (tmp2 # ys)) = ?D"
    using D2 by simp
  have "heap_step fid tmp ?h2 ((xs @ [b]) @ [] @ (tmp2 # ys)) (heap s1) ((xs @ [b]) @ tmp # (tmp2 # ys)) ?D"
    unfolding s1h D2t [symmetric]
  proof (rule linked_heap_step)
    show "dseg pr_next pr_prev ?h2 None ((xs @ [b]) @ [] @ tmp2 # ys) None" "distinct ((xs @ [b]) @ tmp2 # ys)"
      using step2 by (simp_all add: heap_step_def)
    have "?h2 a \<noteq> None" if "a \<in> set (xs @ b # tmp2 # ys)" for a
      using that F(6) by (auto simp: linked_heap_dom simp del: not_None_eq)
    then show "\<forall>a\<in>set ((xs @ [b]) @ tmp2 # ys). pr_fileid (the (?h2 a)) = fid \<and> ?h2 a \<noteq> None"
      using step2 unfolding heap_step_def by auto
  qed (use F(1) tb t(6) in auto)
  then have "heap_step fid tmp ?h2 (xs @ b # tmp2 # ys) (heap s1) (xs @ b # tmp # tmp2 # ys) ?D" by simp
  from heap_step_trans [OF step2 this]
  have step: "heap_step fid (heap_next s) (heap s) (T fid) (heap s1) (xs @ b # tmp # tmp2 # ys) ?D"
    unfolding T tmp_def [symmetric] by (rule heap_step_from) simp
  have "\<exists>s' L'. walk_hit fid preop disk r addp pre (Some b) s = Inr (None, pre, Some b, s') \<and>
    cache_ok s' (T(fid := xs @ b # tmp # tmp2 # ys)) L' \<and>
    updates fid (pr_start addp) (pr_end addp) (new_attrs preop disk r addp) s T s' (T(fid := xs @ b # tmp # tmp2 # ys)) \<and>
    map core (cells (heap s') (xs @ b # tmp # tmp2 # ys)) = ?D \<and>
    free_pages s' = free_pages s \<and> dirty_pages s' = dirty_pages s - (if preop \<and> disk \<and> \<not> r then pr_end addp - pr_start addp else 0) \<and>
    heap_next s' = heap_next s1"
  proof (rule hit_case [OF ok T f mode addp c t(1) tmp_def _ _ step _ _ _ _ _ _ _ _ _ s2(4,2) _ _ _ tt])
    show "files s1 = (files s)(fid \<mapsto> ff)" using ff by (auto simp: s1_def s0_def)
    show "pr_head ff = hd_ptr (xs @ b # tmp # tmp2 # ys) None" using cache_file(1) [OF ok ff] T by (cases xs) auto
    show "\<forall>a. heap s1 a \<noteq> None \<longrightarrow> a < heap_next s1"
      using F(10) linked_heap_dom c by (auto simp: s1_def s0_def less_Suc_eq tmp2_def)
    show "set L' = set L - set (T fid) \<union> set (xs @ b # tmp # tmp2 # ys)" using s2(3) F(12) T by auto
    show "(if pr_start addp = pr_start c then walk_hit_start fid ?w addp (Some tmp) pre (Some b) (s\<lparr>heap := (heap s)(tmp \<mapsto> t), heap_next := Suc tmp\<rparr>)
      else walk_hit_inside ?w addp (Some tmp) pre (Some b) (s\<lparr>heap := (heap s)(tmp \<mapsto> t), heap_next := Suc tmp\<rparr>)) =
      Inr (None, pre, Some b, s2\<lparr>heap := heap s2\<rparr>)"
      using run s2(1) place(1) by (simp add: s0_def)
    show "\<forall>a. pre = Some a \<longrightarrow> a \<in> set (xs @ b # tmp # tmp2 # ys)" using pre by (cases xs rule: rev_cases) auto
  qed (use addp place t in \<open>auto simp: s1_def s0_def addp_ok_def\<close>)
  then show ?thesis by (rule hit_resultI [where part = True]) (use place(2) in \<open>simp_all add: s1_def s0_def tmp_def tmp2_def\<close>)
qed

text \<open>A touched range, wherever the accessed pages begin in it.\<close>

lemma walk_hit_ok:
  assumes ok: "cache_ok s T L" and T: "T fid = xs @ b # ys" and f: "files s fid \<noteq> None" and mode: "\<not> (preop \<and> disk \<and> r)"
    and addp: "addp_ok fid r addp" and c: "heap s b = Some c"
    and place: "pr_start c \<le> pr_start addp" "pr_start addp < pr_end c"
    and pre: "pre = last_ptr None xs \<or> pre = None \<and> pr_start c < pr_start addp"
  shows "hit_result fid preop disk r addp pre b c ys s T"
proof (cases "pr_start addp = pr_start c")
  case True
  then have "pre = last_ptr None xs" using pre by simp
  then show ?thesis using hit_start_part [OF ok T f mode addp c True] hit_start_full [OF ok T f mode addp c True] by blast
next
  case False
  then have "pr_start c < pr_start addp" using place(1) by simp
  from hit_inside_part [OF ok T f mode addp c this] hit_inside_rest [OF ok T f mode addp c this place(2)] pre
  show ?thesis by blast
qed

end
