(* ===== verification/CacheTrim.thy ===== *)
theory CacheTrim
  imports CacheWalk
begin

text \<open>
  The merge of adjacent ranges (\<^verbatim>\<open>trimCache\<close>): two ranges with the same attributes that are
  neighbours in the file and in the LRU list become one, which no page notices.
\<close>

section \<open>One merge\<close>

lemma attrcomp_attrs: "attrcomp c d \<Longrightarrow> attrs d = attrs c"
  by (simp add: attrcomp_def attrs_def)

text \<open>The heap after the range \<open>b\<close> was joined to \<open>a\<close> before it.\<close>

definition merged_heap :: "(nat \<Rightarrow> pr_t option) \<Rightarrow> nat \<Rightarrow> pr_t \<Rightarrow> nat \<Rightarrow> pr_t \<Rightarrow> nat list \<Rightarrow> nat list \<Rightarrow> nat \<Rightarrow> pr_t option" where
  "merged_heap h a c b d ys us =
     (lru.upd (last_ptr None us) (\<lambda>c. c\<lparr>lru_next := Some a\<rparr>)
       (tab.upd (hd_ptr ys None) (\<lambda>c. c\<lparr>pr_prev := Some a\<rparr>)
         (h(a \<mapsto> c\<lparr>pr_end := pr_end d, pr_next := hd_ptr ys None, lru_prev := last_ptr None us\<rparr>))))(b := None)"

lemma trim_merge_run:
  assumes a: "heap s a = Some c" "pr_next c = Some b" and b: "heap s b = Some d" "pr_next d = hd_ptr ys None"
    and merge: "attrcomp c d" "pr_end c = pr_start d" "lru_prev c = Some b" and lru: "lru_prev d = last_ptr None us"
    and dom: "\<forall>x\<in>set ys \<union> set us. heap s x \<noteq> None" and out: "a \<notin> set ys" "b \<notin> set ys" "a \<notin> set us" "b \<notin> set us" "a \<noteq> b"
  shows "trim_loop (Suc n) (Some a) s = trim_loop n (Some a)
    ((if us = [] then s\<lparr>lru_list := Some a\<rparr> else s)\<lparr>heap := merged_heap (heap s) a c b d ys us\<rparr>)"
proof (cases ys)
  case Nil
  show ?thesis
  proof (cases us rule: rev_cases)
    case Nil': Nil
    then show ?thesis using assms Nil by (simp add: merged_heap_def)
  next
    case (snoc ws l)
    then obtain cl where "heap s l = Some cl" using dom by auto
    then show ?thesis using assms Nil snoc by (simp add: merged_heap_def fun_upd_twist [of a l])
  qed
next
  case (Cons e es)
  then obtain ce where ce: "heap s e = Some ce" using dom by auto
  have e: "e \<noteq> a" "e \<noteq> b" using Cons out by auto
  show ?thesis
  proof (cases us rule: rev_cases)
    case Nil': Nil
    then show ?thesis using assms Cons ce e by (simp add: merged_heap_def fun_upd_twist [of a e])
  next
    case (snoc ws l)
    then obtain cl where cl: "heap s l = Some cl" using dom by auto
    have l: "l \<noteq> a" "l \<noteq> b" using snoc out by auto
    show ?thesis
    proof (cases "l = e")
      case True
      then show ?thesis using assms Cons ce e snoc by (simp add: merged_heap_def fun_upd_twist [of a e])
    next
      case False
      have "merged_heap (heap s) a c b d ys us = ((heap s)(
          e \<mapsto> ce\<lparr>pr_prev := Some a\<rparr>, a \<mapsto> c\<lparr>pr_end := pr_end d, pr_next := Some e, lru_prev := Some l\<rparr>,
          l \<mapsto> cl\<lparr>lru_next := Some a\<rparr>))(b := None)"
        using Cons ce e snoc cl l False by (auto simp: merged_heap_def fun_eq_iff)
      then show ?thesis using assms Cons ce e snoc cl l False by (simp add: fun_upd_twist [of a e])
    qed
  qed
qed

lemma upd_keeps:
  "(\<And>c. F (f c) = F c) \<Longrightarrow> map_option F (tab.upd p f h x) = map_option F (h x)"
  "(\<And>c. F (f c) = F c) \<Longrightarrow> map_option F (lru.upd p f h x) = map_option F (h x)"
  by (cases p; cases "h x"; auto)+

lemma lru_upd_other: "p \<noteq> Some a \<Longrightarrow> lru.upd p f h a = h a"
  by (cases p) auto

lemma merged_fields:
  assumes x: "x \<noteq> a" "x \<noteq> b"
  shows "map_option core (merged_heap h a c b d ys us x) = map_option core (h x)"
    "map_option pr_next (merged_heap h a c b d ys us x) = map_option pr_next (h x)"
    "map_option lru_prev (merged_heap h a c b d ys us x) = map_option lru_prev (h x)"
    "hd_ptr ys None \<noteq> Some x \<Longrightarrow> map_option no_lru (merged_heap h a c b d ys us x) = map_option no_lru (h x)"
    "hd_ptr ys None \<noteq> Some x \<Longrightarrow> map_option pr_prev (merged_heap h a c b d ys us x) = map_option pr_prev (h x)"
    "last_ptr None us \<noteq> Some x \<Longrightarrow> map_option lru_next (merged_heap h a c b d ys us x) = map_option lru_next (h x)"
  using x by (simp_all add: merged_heap_def upd_keeps tab_upd_other lru_upd_other)

lemma merged_at:
  assumes "a \<noteq> b" "a \<notin> set ys" "a \<notin> set us"
  shows "merged_heap h a c b d ys us a = Some (c\<lparr>pr_end := pr_end d, pr_next := hd_ptr ys None, lru_prev := last_ptr None us\<rparr>)"
    "merged_heap h a c b d ys us b = None"
proof -
  have "hd_ptr ys None \<noteq> Some a" "last_ptr None us \<noteq> Some a" using assms by (cases ys; cases us rule: rev_cases; auto)+
  then show "merged_heap h a c b d ys us a = Some (c\<lparr>pr_end := pr_end d, pr_next := hd_ptr ys None, lru_prev := last_ptr None us\<rparr>)"
    using assms(1) by (cases "hd_ptr ys None"; cases "last_ptr None us"; simp add: merged_heap_def)
  show "merged_heap h a c b d ys us b = None" by (simp add: merged_heap_def)
qed

lemma merged_table:
  assumes "dseg pr_next pr_prev h None (xs @ a # b # ys) None" "distinct (xs @ a # b # ys)" "h a = Some c" and us: "a \<notin> set us"
  shows "dseg pr_next pr_prev (merged_heap h a c b d ys us) None (xs @ a # ys) None"
proof -
  let ?h = "merged_heap h a c b d ys us"
  have d: "a \<noteq> b" "a \<notin> set ys" using assms(2) by auto
  have xs: "dseg pr_next pr_prev ?h None xs (Some a) = dseg pr_next pr_prev h None xs (Some a)"
  proof (rule dseg_cong)
    fix x assume x: "x \<in> set xs"
    then have "x \<noteq> a" "x \<noteq> b" "hd_ptr ys None \<noteq> Some x" using assms(2) by (cases ys; auto)+
    then show "map_option pr_next (?h x) = map_option pr_next (h x) \<and> map_option pr_prev (?h x) = map_option pr_prev (h x)"
      by (simp add: merged_fields)
  qed
  have ys: "dseg pr_next pr_prev ?h (Some a) ys None"
  proof (cases ys)
    case (Cons e es)
    have es: "dseg pr_next pr_prev ?h (Some e) es None = dseg pr_next pr_prev h (Some e) es None"
    proof (rule dseg_cong)
      fix x assume "x \<in> set es"
      then have "x \<noteq> a" "x \<noteq> b" "hd_ptr ys None \<noteq> Some x" using assms(2) Cons by auto
      then show "map_option pr_next (?h x) = map_option pr_next (h x) \<and> map_option pr_prev (?h x) = map_option pr_prev (h x)"
        by (simp add: merged_fields)
    qed
    obtain ce where ce: "h e = Some ce" "pr_next ce = hd_ptr es None" "dseg pr_next pr_prev h (Some e) es None"
      using assms(1) Cons by auto
    have e: "e \<noteq> a" "e \<noteq> b" using Cons assms(2) by auto
    have "\<exists>z. ?h e = Some z \<and> pr_prev z = Some a \<and> pr_next z = hd_ptr es None"
      using e ce Cons by (cases "last_ptr None us") (auto simp: merged_heap_def)
    then show ?thesis using Cons es ce(3) by auto
  qed simp
  have "pr_prev c = last_ptr None xs" using assms(1,3) by auto
  then show ?thesis using xs ys assms(1) merged_at(1) [OF d us, of h c d] by simp
qed

lemma merged_lru:
  assumes "dseg lru_next lru_prev h None (us @ b # a # vs) None" "distinct (us @ b # a # vs)" "h a = Some c" and ys: "a \<notin> set ys"
  shows "dseg lru_next lru_prev (merged_heap h a c b d ys us) None (us @ a # vs) None"
proof -
  let ?h = "merged_heap h a c b d ys us"
  have d: "a \<noteq> b" "a \<notin> set us" using assms(2) by auto
  have lp: "map_option lru_prev (?h x) = map_option lru_prev (h x)" if "x \<noteq> a" "x \<noteq> b" for x using merged_fields(3) [OF that] .
  have vs: "dseg lru_next lru_prev ?h (Some a) vs None = dseg lru_next lru_prev h (Some a) vs None"
  proof (rule dseg_cong)
    fix x assume x: "x \<in> set vs"
    then have "x \<noteq> a" "x \<noteq> b" "last_ptr None us \<noteq> Some x" using assms(2) by (cases us rule: rev_cases; auto)+
    then show "map_option lru_next (?h x) = map_option lru_next (h x) \<and> map_option lru_prev (?h x) = map_option lru_prev (h x)"
      by (simp add: merged_fields)
  qed
  have us: "dseg lru_next lru_prev ?h None us (Some a)"
  proof (cases us rule: rev_cases)
    case (snoc ws l)
    have ws: "dseg lru_next lru_prev ?h None ws (Some l) = dseg lru_next lru_prev h None ws (Some l)"
    proof (rule dseg_cong)
      fix x assume "x \<in> set ws"
      then have "x \<noteq> a" "x \<noteq> b" "last_ptr None us \<noteq> Some x" using assms(2) snoc by auto
      then show "map_option lru_next (?h x) = map_option lru_next (h x) \<and> map_option lru_prev (?h x) = map_option lru_prev (h x)"
        by (simp add: merged_fields)
    qed
    obtain cl where cl: "h l = Some cl" "lru_prev cl = last_ptr None ws" "dseg lru_next lru_prev h None ws (Some l)"
      using assms(1) snoc by auto
    have l: "l \<noteq> a" "l \<noteq> b" using snoc assms(2) by auto
    have "\<exists>z. ?h l = Some z \<and> lru_prev z = last_ptr None ws \<and> lru_next z = Some a"
      using l cl snoc by (cases "hd_ptr ys None") (auto simp: merged_heap_def)
    then show ?thesis using snoc ws cl(3) by auto
  qed simp
  have "lru_next c = hd_ptr vs None" using assms(1,3) by auto
  then show ?thesis using us vs assms(1) merged_at(1) [OF d(1) ys d(2), of h c d] by auto
qed

section \<open>A merge keeps the cache\<close>

definition same_pages :: "dcache \<Rightarrow> (int \<Rightarrow> nat list) \<Rightarrow> dcache \<Rightarrow> (int \<Rightarrow> nat list) \<Rightarrow> bool" where
  "same_pages s T s' T' \<longleftrightarrow> (\<forall>g pg. page s' T' g pg = page s T g pg) \<and> other_fields s' = other_fields s \<and>
     free_pages s' = free_pages s \<and> dirty_pages s' = dirty_pages s \<and> (\<forall>g. (files s' g = None) = (files s g = None))"

lemma same_pages_trans: "same_pages s T s1 T1 \<Longrightarrow> same_pages s1 T1 s' T' \<Longrightarrow> same_pages s T s' T'"
  by (simp add: same_pages_def)

lemma merge_order:
  assumes "in_order lo (A @ c # d # B)" "pr_end c = pr_start d" "attrs d = attrs c"
  shows "in_order lo (A @ c\<lparr>pr_end := pr_end d\<rparr> # B)"
    "total_size (A @ c\<lparr>pr_end := pr_end d\<rparr> # B) = total_size (A @ c # d # B)"
    "page_at (A @ c\<lparr>pr_end := pr_end d\<rparr> # B) pg = page_at (A @ c # d # B) pg"
  using assms by (auto simp: in_order_append page_at_append split: option.splits)


lemma cells_map_core: "(\<And>x. x \<in> set as \<Longrightarrow> map_option core (h' x) = map_option core (h x)) \<Longrightarrow>
  map core (cells h' as) = map core (cells h as)"
  by (rule cells_core_cong) simp

lemma merged_step:
  assumes "dseg pr_next pr_prev h None (xs @ a # b # ys) None" "distinct (xs @ a # b # ys)" "h a = Some c" "a \<notin> set us"
    and fid: "\<forall>x\<in>set (xs @ a # b # ys). pr_fileid (the (h x)) = fid \<and> h x \<noteq> None"
  shows "heap_step fid n h (xs @ a # b # ys) (merged_heap h a c b d ys us) (xs @ a # ys)
    (map core (cells h xs) @ core (c\<lparr>pr_end := pr_end d\<rparr>) # map core (cells h ys))"
proof -
  let ?h = "merged_heap h a c b d ys us"
  have d: "a \<noteq> b" "a \<notin> set ys" using assms(2) by auto
  note at = merged_at [OF d assms(4), of h c d]
  have same: "map_option core (?h x) = map_option core (h x)" if "x \<in> set xs \<union> set ys" for x
    using that assms(2) by (intro merged_fields(1)) auto
  have "map core (cells ?h xs) = map core (cells h xs)" "map core (cells ?h ys) = map core (cells h ys)"
    by (rule cells_map_core, simp add: same)+
  then have "map core (cells ?h (xs @ a # ys)) = map core (cells h xs) @ core (c\<lparr>pr_end := pr_end d\<rparr>) # map core (cells h ys)"
    by (simp add: at)
  moreover have "pr_fileid (the (?h x)) = fid" if x: "x \<in> set (xs @ a # ys)" for x
  proof (cases "x = a")
    case True
    then show ?thesis using at(1) fid assms(3) by auto
  next
    case False
    then have x': "x \<in> set xs \<union> set ys" using x by auto
    then obtain cx where cx: "h x = Some cx" "pr_fileid cx = fid" using fid by fastforce
    with same [OF x'] obtain dx where "?h x = Some dx" "core dx = core cx" by auto
    then show ?thesis using cx(2) by (metis core_sel(4) option.sel)
  qed
  moreover have "map_option no_lru (?h x) = map_option no_lru (h x)" if "x \<notin> set (xs @ a # b # ys)" for x
  proof (rule merged_fields(4))
    show "hd_ptr ys None \<noteq> Some x" using that by (cases ys) auto
  qed (use that in auto)
  ultimately show ?thesis using merged_table [OF assms(1-4), of d] assms(2) by (auto simp: heap_step_def)
qed

lemma trim_merge_ok:
  assumes ok: "cache_ok s T L" and T: "T fid = xs @ a # b # ys" and f: "files s fid = Some f" "pr_last f = None"
    and a: "heap s a = Some c" and b: "heap s b = Some d"
    and merge: "attrcomp c d" "pr_end c = pr_start d" "lru_prev c = Some b"
  shows "\<exists>s' L'. (\<forall>n. trim_loop (Suc n) (Some a) s = trim_loop n (Some a) s') \<and> cache_ok s' (T(fid := xs @ a # ys)) L' \<and>
    same_pages s T s' (T(fid := xs @ a # ys)) \<and> files s' = files s"
proof -
  note t = cache_table [OF ok, of fid, unfolded T] and l = cache_lru [OF ok]
  have tseg: "dseg pr_next pr_prev (heap s) None (xs @ a # b # ys) None" by (rule t(1))
  have next_: "pr_next c = Some b" "pr_next d = hd_ptr ys None" using tseg a b by auto
  have dist: "distinct (xs @ a # b # ys)" "a \<noteq> b" "a \<notin> set ys" "b \<notin> set ys" using t(2) by auto
  have "a \<in> set L" using l(2) [of fid] T by auto
  then obtain us' vs where L': "L = us' @ a # vs" by (auto simp: in_set_conv_decomp)
  have lseg: "dseg lru_next lru_prev (heap s) None L None" "distinct L" "lru_list s = hd_ptr L None" "lru_list_end s = Some (last L)"
    using l(1) L' by (auto simp: lru_ok_def)
  have "last_ptr None us' = Some b" using lseg(1) L' a merge(3) by auto
  then obtain us where "us' = us @ [b]" by (cases us' rule: rev_cases) auto
  then have L: "L = us @ b # a # vs" using L' by simp
  have ldist: "a \<notin> set us" "b \<notin> set us" using lseg(2) L by auto
  have prev: "lru_prev d = last_ptr None us" using lseg(1) L b by auto
  let ?h = "merged_heap (heap s) a c b d ys us"
  define s' where "s' = (if us = [] then s\<lparr>lru_list := Some a\<rparr> else s)\<lparr>heap := ?h\<rparr>"
  have rest: "heap s' = ?h" "files s' = files s" "free_pages s' = free_pages s" "dirty_pages s' = dirty_pages s" "heap_next s' = heap_next s"
    "total_usable_pages s' = total_usable_pages s" "other_fields s' = other_fields s" "lru_list_end s' = lru_list_end s"
    "lru_list s' = (if us = [] then Some a else lru_list s)"
    by (simp_all add: s'_def other_fields_def)
  have dom: "\<forall>x\<in>set ys \<union> set us. heap s x \<noteq> None" using t(5) l(4) L by auto
  have run: "trim_loop (Suc n) (Some a) s = trim_loop n (Some a) s'" for n
    unfolding s'_def by (rule trim_merge_run [OF a next_(1) b next_(2) merge prev dom dist(3,4) ldist dist(2)])
  have fid: "\<forall>x\<in>set (xs @ a # b # ys). pr_fileid (the (heap s x)) = fid \<and> heap s x \<noteq> None" using t(3,5) by blast
  let ?D = "map core (cells (heap s) xs) @ core (c\<lparr>pr_end := pr_end d\<rparr>) # map core (cells (heap s) ys)"
  have step: "heap_step fid (heap_next s) (heap s) (T fid) (heap s') (xs @ a # ys) ?D"
    unfolding T rest(1) by (rule merged_step [OF tseg dist(1) a ldist(1) fid])
  obtain lo where "in_order lo (cells (heap s) (xs @ a # b # ys))" using t(4) by blast
  then have ord: "in_order lo (cells (heap s) xs @ c # d # cells (heap s) ys)" using a b by simp
  note m = merge_order [OF ord merge(2) attrcomp_attrs [OF merge(1)]]
  have D: "?D = map core (cells (heap s) xs @ c\<lparr>pr_end := pr_end d\<rparr> # cells (heap s) ys)" by simp
  have old: "cells (heap s) (T fid) = cells (heap s) xs @ c # d # cells (heap s) ys" using T a b by simp
  have "cache_ok s' (T(fid := xs @ a # ys)) (us @ a # vs) \<and>
    (\<forall>g pg. page s' (T(fid := xs @ a # ys)) g pg = (if g = fid then page_at ?D pg else page s T g pg))"
  proof (rule cache_ok_step [OF ok step])
    show "files s' = (files s)(fid \<mapsto> f)" "files s fid \<noteq> None" using rest(2) f(1) by auto
    show "pr_head f = hd_ptr (xs @ a # ys) None" using cache_file(1) [OF ok f(1)] T by simp
    show "\<forall>z. pr_last f = Some z \<longrightarrow> z \<in> set (xs @ a # ys)" using f(2) by simp
    have "dseg lru_next lru_prev ?h None (us @ a # vs) None"
      by (rule merged_lru) (use lseg L a dist in auto)
    then show "lru_ok s' (us @ a # vs)"
      using lseg L rest(1,8,9) by (cases us) (auto simp: lru_ok_def)
    show "set (us @ a # vs) = set L - set (T fid) \<union> set (xs @ a # ys)"
      using l(2) [of fid] T L lseg(2) dist by auto
    have "x < heap_next s" if "?h x \<noteq> None" for x
    proof -
      have "x = a \<or> heap s x \<noteq> None"
      proof (cases "x = a \<or> x = b")
        case True
        then show ?thesis using b by auto
      next
        case False
        then show ?thesis using that merged_fields(1) [of x a b "heap s" c d ys us] by (metis option.map_disc_iff)
      qed
      then show ?thesis using ok a by (auto simp: cache_ok_def heap_ok_def)
    qed
    then show "heap_ok s'" unfolding heap_ok_def rest(1,5) by auto
    show "in_order lo ?D" unfolding D using m(1) by (simp only: in_order_core)
    show "free_pages s' + total_size ?D = free_pages s + total_size (cells (heap s) (T fid))"
      unfolding D old rest(3) total_size_core using m(2) by simp
    show "total_usable_pages s' = total_usable_pages s" by (rule rest(6))
  qed
  moreover have "page_at ?D pg = page s T fid pg" for pg
    unfolding D page_def old page_at_core by (rule m(3))
  ultimately have "cache_ok s' (T(fid := xs @ a # ys)) (us @ a # vs)" "same_pages s T s' (T(fid := xs @ a # ys))"
    using rest by (auto simp: same_pages_def)
  then show ?thesis using run rest(2) by blast
qed

section \<open>The loop and all files\<close>

lemma trim_loop_ok:
  "cache_ok s T L \<Longrightarrow> T fid = xs @ ys \<Longrightarrow> files s fid = Some f \<Longrightarrow> pr_last f = None \<Longrightarrow> length ys < n \<Longrightarrow>
   \<exists>s' T' L'. trim_loop n (hd_ptr ys None) s = Inr s' \<and> cache_ok s' T' L' \<and> same_pages s T s' T'"
proof (induction n arbitrary: s T L xs ys)
  case (Suc n)
  have same: "same_pages s T s T" by (simp add: same_pages_def)
  show ?case
  proof (cases ys)
    case Nil
    then show ?thesis using Suc.prems(1) same by auto
  next
    case (Cons a as)
    then have T: "T fid = xs @ a # as" using Suc.prems(2) by simp
    note t = cache_table [OF Suc.prems(1), of fid, unfolded T]
    obtain c where c: "heap s a = Some c" "pr_next c = hd_ptr as None" using t(1) by auto
    show ?thesis
    proof (cases as)
      case Nil
      then show ?thesis using Suc.prems(1) same c Cons by auto
    next
      case (Cons b bs)
      then obtain d where d: "heap s b = Some d" using t(5) by auto
      show ?thesis
      proof (cases "attrcomp c d \<and> pr_end c = pr_start d \<and> lru_prev c = Some b")
        case True
        then obtain s1 L1 where 1: "trim_loop (Suc n) (Some a) s = trim_loop n (Some a) s1"
          "cache_ok s1 (T(fid := xs @ a # bs)) L1" "same_pages s T s1 (T(fid := xs @ a # bs))" "files s1 = files s"
          using trim_merge_ok [OF Suc.prems(1) _ Suc.prems(3,4) c(1) d, of xs bs] T Cons by auto
        have "\<exists>s' T' L'. trim_loop n (hd_ptr (a # bs) None) s1 = Inr s' \<and> cache_ok s' T' L' \<and> same_pages s1 (T(fid := xs @ a # bs)) s' T'"
          by (rule Suc.IH [OF 1(2), of xs]) (use 1(4) Suc.prems(3-5) \<open>ys = a # as\<close> Cons in auto)
        then obtain s' T' L' where "trim_loop n (Some a) s1 = Inr s'" "cache_ok s' T' L'" "same_pages s1 (T(fid := xs @ a # bs)) s' T'"
          by auto
        then show ?thesis using 1 same_pages_trans [OF 1(3)] \<open>ys = a # as\<close> by (metis hd_ptr.simps(2))
      next
        case False
        have run: "trim_loop (Suc n) (Some a) s = trim_loop n (hd_ptr as None) s" using c d Cons False by auto
        have "\<exists>s' T' L'. trim_loop n (hd_ptr as None) s = Inr s' \<and> cache_ok s' T' L' \<and> same_pages s T s' T'"
          by (rule Suc.IH [OF Suc.prems(1), of "xs @ [a]"]) (use Suc.prems \<open>ys = a # as\<close> in auto)
        then show ?thesis using run \<open>ys = a # as\<close> by simp
      qed
    qed
  qed
qed simp

lemma cache_ok_last: "cache_ok s T L \<Longrightarrow> cache_ok (upd_file fid (\<lambda>f. f\<lparr>pr_last := None\<rparr>) s) T L"
  unfolding cache_ok_def heap_ok_def lru_ok_def by (auto simp: upd_file_def split: option.splits) (metis not_None_eq)

lemma trimCache_ok:
  assumes "cache_ok s T L" "files s fid \<noteq> None"
  shows "\<exists>s' T' L'. trimCache fid s = Inr s' \<and> cache_ok s' T' L' \<and> same_pages s T s' T'"
proof -
  obtain f where f: "files s fid = Some f" using assms(2) by auto
  let ?s = "upd_file fid (\<lambda>f. f\<lparr>pr_last := None\<rparr>) s"
  have ok: "cache_ok ?s T L" by (rule cache_ok_last [OF assms(1)])
  have same: "same_pages s T ?s T" using f by (auto simp: same_pages_def page_def)
  have "length (T fid) < Suc (heap_next s)" using table_length [OF assms(1), of fid] by simp
  then obtain s' T' L' where "trim_loop (Suc (heap_next s)) (hd_ptr (T fid) None) ?s = Inr s'" "cache_ok s' T' L'" "same_pages ?s T s' T'"
    using trim_loop_ok [OF ok, of fid "[]" "T fid" "f\<lparr>pr_last := None\<rparr>" "Suc (heap_next s)"] f by auto
  then show ?thesis
    using f cache_file(1) [OF assms(1) f] same_pages_trans [OF same] by (auto simp: trimCache_def file_of_def simp del: trim_loop.simps)
qed

lemma trimAllCache_ok:
  assumes "cache_ok s T L" "\<forall>fid\<in>set (fileIDs s). files s fid \<noteq> None"
  shows "\<exists>s' T' L'. trimAllCache s = Inr s' \<and> cache_ok s' T' L' \<and> same_pages s T s' T'"
proof -
  let ?step = "\<lambda>fid s. if files s fid = None then Inl (Abort ''DiskCache'') else trimCache fid s"
  have "cache_ok s T L \<Longrightarrow> \<forall>fid\<in>set fids. files s fid \<noteq> None \<Longrightarrow>
      \<exists>s' T' L'. run_res ?step fids s = Inr s' \<and> cache_ok s' T' L' \<and> same_pages s T s' T'" for fids s T L
  proof (induction fids arbitrary: s T L)
    case Nil
    then show ?case by (auto simp: same_pages_def)
  next
    case (Cons fid fids)
    then obtain s1 T1 L1 where 1: "trimCache fid s = Inr s1" "cache_ok s1 T1 L1" "same_pages s T s1 T1"
      using trimCache_ok [OF Cons.prems(1), of fid] by auto
    have "\<forall>fid\<in>set fids. files s1 fid \<noteq> None" using Cons.prems(2) 1(3) by (simp add: same_pages_def)
    from Cons.IH [OF 1(2) this] obtain s' T' L' where
      "run_res ?step fids s1 = Inr s'" "cache_ok s' T' L'" "same_pages s1 T1 s' T'" by blast
    then show ?case using 1 Cons.prems(2) same_pages_trans [OF 1(3)] by auto
  qed
  from this [OF assms] show ?thesis by (simp add: trimAllCache_def)
qed

end
