(* ===== verification/CacheUpdate.thy ===== *)
theory CacheUpdate
  imports CacheHits CacheTrim
begin

text \<open>
  The whole walk of \<^verbatim>\<open>walkCache_update\<close>: when there is room for the missing pages, every access that
  the cache admits keeps the invariant and changes exactly the accessed pages.
\<close>

section \<open>What a walk promises\<close>

definition missing :: "dcache \<Rightarrow> (int \<Rightarrow> nat list) \<Rightarrow> int \<Rightarrow> int \<Rightarrow> int \<Rightarrow> int" where
  "missing s T fid lo hi = int (card ({lo..<hi} - pages s T fid))"

text \<open>The pages may be accessed: missing ones are added only by \<open>preop\<close> accesses that bring data, cached ones are not read from the disk.\<close>

definition may_walk :: "bool \<Rightarrow> bool \<Rightarrow> bool \<Rightarrow> dcache \<Rightarrow> (int \<Rightarrow> nat list) \<Rightarrow> int \<Rightarrow> int \<Rightarrow> int \<Rightarrow> bool" where
  "may_walk preop disk r s T fid lo hi \<longleftrightarrow> \<not> (preop \<and> \<not> disk \<and> r) \<and>
     (\<not> {lo..<hi} \<subseteq> pages s T fid \<longrightarrow> preop \<and> disk = r) \<and> ({lo..<hi} \<inter> pages s T fid \<noteq> {} \<longrightarrow> \<not> (preop \<and> disk \<and> r))"

text \<open>The books of the walk from \<open>lo\<close> to \<open>hi\<close>.\<close>

definition walked :: "int \<Rightarrow> bool \<Rightarrow> bool \<Rightarrow> bool \<Rightarrow> pr_t \<Rightarrow> int \<Rightarrow> dcache \<Rightarrow> (int \<Rightarrow> nat list) \<Rightarrow> dcache \<Rightarrow> (int \<Rightarrow> nat list) \<Rightarrow> bool" where
  "walked fid preop disk r addp hi s T s' T' \<longleftrightarrow>
     updates fid (pr_start addp) hi (new_attrs preop disk r addp) s T s' T' \<and>
     free_pages s' = free_pages s - missing s T fid (pr_start addp) hi \<and>
     dirty_pages s' = dirty_pages s + (if r then 0 else missing s T fid (pr_start addp) hi)
       - (if preop \<and> disk \<and> \<not> r then hi - pr_start addp else 0)"

definition walk_result :: "int \<Rightarrow> bool \<Rightarrow> bool \<Rightarrow> bool \<Rightarrow> pr_t \<Rightarrow> dcache \<Rightarrow> (int \<Rightarrow> nat list) \<Rightarrow> dcache res \<Rightarrow> bool" where
  "walk_result fid preop disk r addp s T res \<longleftrightarrow>
     (\<exists>s' T' L'. res = Inr s' \<and> cache_ok s' T' L' \<and> walked fid preop disk r addp (pr_end addp) s T s' T')"

lemma updates_pages:
  assumes "updates fid lo hi new s T s' T'"
  shows "pages s' T' fid = pages s T fid \<union> {lo..<hi}"
proof -
  have "pg \<in> pages s' T' fid \<longleftrightarrow> pg \<in> pages s T fid \<or> pg \<in> {lo..<hi}" for pg
  proof -
    have "page s' T' fid pg = (if lo \<le> pg \<and> pg < hi then Some (new (page s T fid pg)) else page s T fid pg)"
      using assms by (simp add: updates_def)
    then show ?thesis using page_None [of s' T' fid pg] page_None [of s T fid pg] by (auto split: if_splits)
  qed
  then show ?thesis by blast
qed

lemma updates_files: "updates fid lo hi new s T s' T' \<Longrightarrow> files s' g = None \<longleftrightarrow> files s g = None"
  by (simp add: updates_def)

lemma missing_split:
  assumes "updates fid lo mid new s T s1 T1" "lo \<le> mid" "mid \<le> hi"
  shows "missing s T fid lo hi = missing s T fid lo mid + missing s1 T1 fid mid hi"
proof -
  let ?P = "pages s T fid"
  have "{lo..<hi} - ?P = ({lo..<mid} - ?P) \<union> ({mid..<hi} - ?P)" "({lo..<mid} - ?P) \<inter> ({mid..<hi} - ?P) = {}"
    using assms(2,3) by auto
  moreover have "{mid..<hi} - pages s1 T1 fid = {mid..<hi} - ?P" using updates_pages [OF assms(1)] by auto
  ultimately show ?thesis by (simp add: missing_def card_Un_disjoint)
qed

lemma may_walk_rest:
  assumes "may_walk preop disk r s T fid lo hi" "updates fid lo mid new s T s1 T1" "lo \<le> mid"
  shows "may_walk preop disk r s1 T1 fid mid hi"
proof -
  have "{mid..<hi} - pages s1 T1 fid = {mid..<hi} - pages s T fid" "{mid..<hi} \<inter> pages s1 T1 fid = {mid..<hi} \<inter> pages s T fid"
    using updates_pages [OF assms(2)] by auto
  then have "{mid..<hi} - pages s1 T1 fid \<subseteq> {lo..<hi} - pages s T fid" "{mid..<hi} \<inter> pages s1 T1 fid \<subseteq> {lo..<hi} \<inter> pages s T fid"
    using assms(3) by auto
  then show ?thesis using assms(1) unfolding may_walk_def by blast
qed

lemma walked_trans:
  assumes "walked fid preop disk r addp mid s T s1 T1" "walked fid preop disk r (addp\<lparr>pr_start := mid\<rparr>) hi s1 T1 s' T'"
    and "pr_start addp \<le> mid" "mid \<le> hi"
  shows "walked fid preop disk r addp hi s T s' T'"
proof -
  let ?new = "new_attrs preop disk r addp"
  have u: "updates fid (pr_start addp) mid ?new s T s1 T1" "updates fid mid hi ?new s1 T1 s' T'"
    using assms(1,2) by (simp_all add: walked_def)
  note m = missing_split [OF u(1) assms(3,4)]
  have "updates fid (pr_start addp) hi ?new s T s' T'" by (rule updates_trans [OF u assms(3,4)])
  moreover have "free_pages s' = free_pages s - missing s T fid (pr_start addp) hi"
    using assms(1,2) unfolding m by (simp add: walked_def)
  moreover have "dirty_pages s' = dirty_pages s + (if r then 0 else missing s T fid (pr_start addp) hi)
      - (if preop \<and> disk \<and> \<not> r then hi - pr_start addp else 0)"
    using assms(1,2) unfolding m walked_def by (cases r) auto
  ultimately show ?thesis by (simp add: walked_def)
qed

lemma walk_resultI:
  "walked fid preop disk r addp mid s T s1 T1 \<Longrightarrow> walk_result fid preop disk r (addp\<lparr>pr_start := mid\<rparr>) s1 T1 res \<Longrightarrow>
   pr_start addp \<le> mid \<Longrightarrow> mid \<le> pr_end addp \<Longrightarrow> walk_result fid preop disk r addp s T res"
  by (auto simp: walk_result_def intro: walked_trans)

section \<open>A touched range and a gap\<close>

lemma hit_walked:
  assumes "cache_ok s T L" "T fid = xs @ b # ys" "heap s b = Some c" "pr_start c \<le> pr_start addp" "hi \<le> pr_end c"
    and "updates fid (pr_start addp) hi (new_attrs preop disk r addp) s T s' T'" "free_pages s' = free_pages s"
      "dirty_pages s' = dirty_pages s - (if preop \<and> disk \<and> \<not> r then hi - pr_start addp else 0)"
  shows "walked fid preop disk r addp hi s T s' T'"
proof -
  have "{pr_start addp..<hi} \<subseteq> pages s T fid" using assms(2-5) by (auto simp: pages_def)
  then have "{pr_start addp..<hi} - pages s T fid = {}" by blast
  then have "missing s T fid (pr_start addp) hi = 0" by (simp only: missing_def) simp
  then show ?thesis using assms by (simp add: walked_def)
qed

lemma gap_empty:
  assumes ok: "cache_ok s T L" and T: "T fid = xs @ ys" and xs: "\<forall>c\<in>set (cells (heap s) xs). pr_end c \<le> lo"
    and ys: "ys \<noteq> [] \<longrightarrow> e \<le> pr_start (the (heap s (hd ys)))"
  shows "{lo..<e} \<inter> pages s T fid = {}"
proof -
  obtain l where "in_order l (cells (heap s) (xs @ ys))" using cache_table(4) [OF ok, of fid] T by auto
  then have "\<exists>l. in_order l (cells (heap s) ys)" by (auto simp: in_order_append)
  then have "in_order e (cells (heap s) ys)" using ys by (cases ys) auto
  then have "pg \<notin> pages_in (cells (heap s) ys)" if "pg < e" for pg using in_order_pages that by fastforce
  moreover have "pg \<notin> pages_in (cells (heap s) xs)" if "lo \<le> pg" for pg
    using page_at_beyond [of "cells (heap s) xs" pg] page_at_None [of "cells (heap s) xs" pg] xs that by fastforce
  ultimately show ?thesis by (auto simp: pages_def T)
qed

lemma gap_walked:
  assumes "{pr_start addp..<hi} \<inter> pages s T fid = {}" "pr_start addp \<le> hi" "preop" "disk = r"
    and "updates fid (pr_start addp) hi (\<lambda>_. attrs (fresh_pr r addp)) s T s' T'"
      "free_pages s' = free_pages s - (hi - pr_start addp)"
      "dirty_pages s' = dirty_pages s + (if r then 0 else hi - pr_start addp)"
  shows "walked fid preop disk r addp hi s T s' T'"
proof -
  have "{pr_start addp..<hi} - pages s T fid = {pr_start addp..<hi}" using assms(1) by blast
  then have m: "missing s T fid (pr_start addp) hi = hi - pr_start addp" using assms(2) by (simp add: missing_def)
  have "page s T fid pg = None" if "pr_start addp \<le> pg" "pg < hi" for pg using assms(1) page_None [of s T fid pg] that by auto
  then have "updates fid (pr_start addp) hi (new_attrs preop disk r addp) s T s' T'"
    using assms(5) by (auto simp: updates_def new_attrs_def)
  then show ?thesis using assms m by (auto simp: walked_def)
qed


section \<open>A turn of the loop\<close>

text \<open>The second half of a turn, from the range at hand.\<close>

definition walk_turn :: "nat \<Rightarrow> int \<Rightarrow> bool \<Rightarrow> bool \<Rightarrow> bool \<Rightarrow> pr_t \<Rightarrow> ptr \<Rightarrow> ptr \<Rightarrow> dcache \<Rightarrow> dcache res" where
  "walk_turn n fid preop disk r addp precachedp cachedp s =
     bindR (deref cachedp s) (\<lambda>c.
     bindR (if pr_start addp < pr_end c then walk_hit fid preop disk r addp precachedp cachedp s
            else Inr (Some addp, precachedp, cachedp, s)) (\<lambda>(addp', precachedp, cachedp, s).
     (case addp' of
        None \<Rightarrow> Inr s
      | Some addp \<Rightarrow>
          if pr_start addp = pr_end addp then Inr s
          else if preop \<and> \<not> disk \<and> r then Inr s
          else bindR (deref cachedp s) (\<lambda>c. walk_loop n fid preop disk r addp cachedp (pr_next c) s))))"

lemma walk_loop_hit:
  "heap s b = Some c \<Longrightarrow> \<not> pr_start addp < pr_start c \<Longrightarrow>
   walk_loop (Suc n) fid preop disk r addp pre (Some b) s = walk_turn n fid preop disk r addp pre (Some b) s"
  by (simp add: walk_turn_def)

lemma walk_loop_gap:
  "cp = None \<or> (\<exists>c. heap s (the cp) = Some c \<and> pr_start addp < pr_start c) \<Longrightarrow>
   walk_loop (Suc n) fid preop disk r addp pre cp s =
     bindR (walk_miss fid preop disk r addp pre cp s) (\<lambda>(addp', pre, s).
       case addp' of None \<Rightarrow> Inr s | Some addp \<Rightarrow> walk_turn n fid preop disk r addp pre cp s)"
  by (cases cp; cases "walk_miss fid preop disk r addp pre cp s") (auto simp: walk_turn_def split: option.splits)

lemma addp_ok_start: "addp_ok fid r addp \<Longrightarrow> mid < pr_end addp \<Longrightarrow> addp_ok fid r (addp\<lparr>pr_start := mid\<rparr>)"
  by (simp add: addp_ok_def)

lemma table_next:
  assumes "cache_ok s T L" "T fid = xs @ b # ys"
  shows "\<exists>c. heap s b = Some c \<and> pr_next c = hd_ptr ys None \<and> pr_start c < pr_end c"
proof -
  obtain c where c: "heap s b = Some c" using cache_table(5) [OF assms(1), of fid] assms(2) by auto
  show ?thesis using hit_facts(5,11) [OF assms refl c] c by blast
qed

lemma cells_suffix_ends:
  assumes "map core (cells h' ys) = map core (cells h ys)"
  shows "ys \<noteq> [] \<Longrightarrow> pr_start (the (h' (hd ys))) = pr_start (the (h (hd ys)))"
    "ys \<noteq> [] \<Longrightarrow> pr_end (the (h' (hd ys))) = pr_end (the (h (hd ys)))"
  using assms by (cases ys; auto dest: arg_cong [where f = pr_start] arg_cong [where f = pr_end])+

lemma may_walk_turns: "may_walk preop disk r s T fid lo hi \<Longrightarrow> \<not> (preop \<and> \<not> disk \<and> r)"
  unfolding may_walk_def by blast

lemma turn_ok:
  assumes ok: "cache_ok s T L" and T: "T fid = xs @ b # ys" and f: "files s fid \<noteq> None" and addp: "addp_ok fid r addp"
    and c: "heap s b = Some c" and xs: "\<forall>e\<in>set (cells (heap s) xs). pr_end e \<le> pr_start addp"
    and place: "pr_start c \<le> pr_start addp"
    and pre: "pre = last_ptr None xs \<or> pre = None \<and> pr_start c < pr_start addp"
    and may: "may_walk preop disk r s T fid (pr_start addp) (pr_end addp)"
    and IH: "\<And>zs b' s1 T1 L1 mid. cache_ok s1 T1 L1 \<Longrightarrow> T1 fid = (zs @ [b']) @ ys \<Longrightarrow>
      \<forall>e\<in>set (cells (heap s1) (zs @ [b'])). pr_end e \<le> mid \<Longrightarrow> pr_start addp \<le> mid \<Longrightarrow> mid < pr_end addp \<Longrightarrow>
      walked fid preop disk r addp mid s T s1 T1 \<Longrightarrow>
      walk_result fid preop disk r (addp\<lparr>pr_start := mid\<rparr>) s1 T1
        (walk_loop n fid preop disk r (addp\<lparr>pr_start := mid\<rparr>) (Some b') (hd_ptr ys None) s1)"
  shows "walk_result fid preop disk r addp s T (walk_turn n fid preop disk r addp pre (Some b) s)"
proof (cases "pr_start addp < pr_end c")
  case False
  note no = may_walk_turns [OF may]
  have nx: "pr_next c = hd_ptr ys None" using table_next [OF ok T] c by auto
  have same: "walked fid preop disk r addp (pr_start addp) s T s T" by (auto simp: walked_def updates_def missing_def)
  have lt: "pr_start addp < pr_end addp" using addp by (simp add: addp_ok_def)
  have "walk_turn n fid preop disk r addp pre (Some b) s =
      walk_loop n fid preop disk r addp (Some b) (hd_ptr ys None) s"
    using False c lt nx by (simp add: walk_turn_def no)
  moreover have "walk_result fid preop disk r (addp\<lparr>pr_start := pr_start addp\<rparr>) s T
      (walk_loop n fid preop disk r (addp\<lparr>pr_start := pr_start addp\<rparr>) (Some b) (hd_ptr ys None) s)"
    by (rule IH [OF ok _ _ order.refl lt same, of xs]) (use T c xs False in auto)
  ultimately show ?thesis by simp
next
  case True
  note no = may_walk_turns [OF may]
  have mode: "\<not> (preop \<and> disk \<and> r)"
  proof -
    have "pr_start addp \<in> {pr_start addp..<pr_end addp} \<inter> pages s T fid"
      using addp c True place T by (auto simp: addp_ok_def pages_def)
    then show ?thesis using may unfolding may_walk_def by blast
  qed
  have hit: "hit_result fid preop disk r addp pre b c ys s T"
    by (rule walk_hit_ok [OF ok T f mode addp c place True pre])
  obtain s1 L1 as1 pre1 b1 part hi where R: "part = (pr_end addp < pr_end c)" "hi = (if part then pr_end addp else pr_end c)"
    "walk_hit fid preop disk r addp pre (Some b) s = Inr (if part then None else Some (addp\<lparr>pr_start := hi\<rparr>), pre1, Some b1, s1)"
    "cache_ok s1 (T(fid := as1)) L1" "updates fid (pr_start addp) hi (new_attrs preop disk r addp) s T s1 (T(fid := as1))"
    "free_pages s1 = free_pages s" "dirty_pages s1 = dirty_pages s - (if preop \<and> disk \<and> \<not> r then hi - pr_start addp else 0)"
    "\<not> part \<longrightarrow> (\<exists>zs. as1 = zs @ b1 # ys \<and> map core (cells (heap s1) ys) = map core (cells (heap s) ys) \<and>
          (\<forall>e\<in>set (cells (heap s1) (zs @ [b1])). pr_end e \<le> hi))"
    using hit unfolding hit_result_def by blast
  have W: "walked fid preop disk r addp hi s T s1 (T(fid := as1))"
    by (rule hit_walked [OF ok T c place _ R(5-7)]) (use R(1,2) in auto)
  show ?thesis
  proof (cases "hi = pr_end addp")
    case end_: True
    then have "walk_turn n fid preop disk r addp pre (Some b) s = Inr s1"
      using R(3) c True by (simp add: walk_turn_def)
    then show ?thesis using R(4) W end_ by (auto simp: walk_result_def)
  next
    case False
    then have part: "\<not> part" "hi = pr_end c" "hi < pr_end addp" using R(1,2) by (auto split: if_splits)
    then obtain zs where zs: "as1 = zs @ b1 # ys" "\<forall>e\<in>set (cells (heap s1) (zs @ [b1])). pr_end e \<le> hi" using R(8) by auto
    obtain c1 where c1: "heap s1 b1 = Some c1" "pr_next c1 = hd_ptr ys None"
      using table_next [OF R(4), of fid zs b1 ys] zs(1) by auto
    have "walk_turn n fid preop disk r addp pre (Some b) s =
        walk_loop n fid preop disk r (addp\<lparr>pr_start := hi\<rparr>) (Some b1) (hd_ptr ys None) s1"
      using R(3) c True part c1 by (simp add: walk_turn_def no)
    moreover have "walk_result fid preop disk r (addp\<lparr>pr_start := hi\<rparr>) s1 (T(fid := as1))
        (walk_loop n fid preop disk r (addp\<lparr>pr_start := hi\<rparr>) (Some b1) (hd_ptr ys None) s1)"
      by (rule IH [OF R(4) _ zs(2) _ part(3) W]) (use zs(1) True part in auto)
    ultimately show ?thesis using walk_resultI [OF W] True part by simp
  qed
qed

section \<open>The loop\<close>

lemma gap_may:
  assumes "may_walk preop disk r s T fid lo hi" "{lo..<e} \<inter> pages s T fid = {}" "lo < e" "e \<le> hi"
  shows "preop" "disk = r"
proof -
  have "lo \<in> {lo..<hi}" "lo \<notin> pages s T fid" using assms(2-4) by auto
  then have "preop \<and> disk = r" using assms(1) unfolding may_walk_def by blast
  then show "preop" "disk = r" by simp_all
qed

lemma missing_le:
  "e \<le> hi \<Longrightarrow> missing s T fid lo e \<le> missing s T fid lo hi"
  unfolding missing_def by (intro of_nat_mono card_mono) auto

lemma walk_loop_ok:
  "cache_ok s T L \<Longrightarrow> T fid = xs @ ys \<Longrightarrow> files s fid \<noteq> None \<Longrightarrow> addp_ok fid r addp \<Longrightarrow>
   \<forall>e\<in>set (cells (heap s) xs). pr_end e \<le> pr_start addp \<Longrightarrow>
   pre = last_ptr None xs \<or> pre = None \<and> ys \<noteq> [] \<and> pr_start (the (heap s (hd ys))) < pr_start addp \<Longrightarrow>
   may_walk preop disk r s T fid (pr_start addp) (pr_end addp) \<Longrightarrow>
   missing s T fid (pr_start addp) (pr_end addp) \<le> free_pages s \<Longrightarrow> length ys < n \<Longrightarrow>
   walk_result fid preop disk r addp s T (walk_loop n fid preop disk r addp pre (hd_ptr ys None) s)"
proof (induction ys arbitrary: s T L xs addp pre n)
  case Nil
  then obtain k where n: "n = Suc k" by (cases n) auto
  have pre: "pre = last_ptr None xs" using Nil.prems(6) by auto
  have lt: "pr_start addp < pr_end addp" using Nil.prems(4) by (simp add: addp_ok_def)
  have gap: "{pr_start addp..<pr_end addp} \<inter> pages s T fid = {}"
    by (rule gap_empty [OF Nil.prems(1,2,5)]) simp
  note mode = gap_may [OF Nil.prems(7) gap lt order.refl]
  have "{pr_start addp..<pr_end addp} - pages s T fid = {pr_start addp..<pr_end addp}" using gap by blast
  then have free: "pr_end addp - pr_start addp \<le> free_pages s" using Nil.prems(8) lt by (simp add: missing_def)
  obtain s' T' L' where R: "walk_miss fid preop disk r addp (last_ptr None xs) (hd_ptr [] None) s = Inr (None, Some (heap_next s), s')"
    "cache_ok s' T' L'" "updates fid (pr_start addp) (pr_end addp) (\<lambda>_. attrs (fresh_pr r addp)) s T s' T'"
    "free_pages s' = free_pages s - (pr_end addp - pr_start addp)"
    "dirty_pages s' = dirty_pages s + (if r then 0 else pr_end addp - pr_start addp)"
    using walk_miss_ok [OF Nil.prems(1-3) mode Nil.prems(4,5) _ refl refl _ refl refl] free by auto
  have "walked fid preop disk r addp (pr_end addp) s T s' T'"
    by (rule gap_walked [OF gap _ mode R(3-5)]) (use lt in simp)
  moreover have "walk_loop n fid preop disk r addp pre (hd_ptr [] None) s = Inr s'"
    unfolding n pre by (subst walk_loop_gap) (use R(1) in simp_all)
  ultimately show ?case using R(2) by (auto simp: walk_result_def)
next
  case (Cons b ys)
  then obtain k where n: "n = Suc k" "length ys < k" by (cases n) auto
  have lt: "pr_start addp < pr_end addp" using Cons.prems(4) by (simp add: addp_ok_def)
  obtain c where c: "heap s b = Some c" "pr_next c = hd_ptr ys None" "pr_start c < pr_end c"
    using table_next [OF Cons.prems(1,2)] by blast
  have loop: "walk_result fid preop disk r (addp\<lparr>pr_start := mid\<rparr>) s1 T1
        (walk_loop k fid preop disk r (addp\<lparr>pr_start := mid\<rparr>) (Some b') (hd_ptr ys None) s1)"
    if "cache_ok s1 T1 L1" "T1 fid = (zs @ [b']) @ ys" "\<forall>e\<in>set (cells (heap s1) (zs @ [b'])). pr_end e \<le> mid"
      "pr_start addp \<le> mid" "mid < pr_end addp" "walked fid preop disk r addp mid s T s1 T1" for s1 T1 L1 zs b' mid
  proof -
    have u: "updates fid (pr_start addp) mid (new_attrs preop disk r addp) s T s1 T1" using that(6) by (simp add: walked_def)
    have "missing s1 T1 fid mid (pr_end addp) \<le> free_pages s1"
      using missing_split [OF u that(4), of "pr_end addp"] that(5,6) Cons.prems(8) by (simp add: walked_def)
    then show ?thesis
      using Cons.IH [OF that(1,2) _ addp_ok_start [OF Cons.prems(4) that(5)], of "Some b'" k] updates_files [OF u, of fid]
        may_walk_rest [OF Cons.prems(7) u that(4)] Cons.prems(3) that(3) n(2) by simp
  qed
  show ?case
  proof (cases "pr_start addp < pr_start c")
    case False
    have "walk_result fid preop disk r addp s T (walk_turn k fid preop disk r addp pre (Some b) s)"
      by (rule turn_ok [OF Cons.prems(1-4) c(1) Cons.prems(5) _ _ Cons.prems(7) loop]) (use False Cons.prems(6) c(1) in auto)
    then show ?thesis unfolding n(1) using walk_loop_hit [OF c(1) False] by simp
  next
    case True
    then have pre: "pre = last_ptr None xs" using Cons.prems(6) c(1) by auto
    define clip where "clip = (pr_start c < pr_end addp)"
    define e where "e = (if clip then pr_start c else pr_end addp)"
    have e: "pr_start addp < e" "e \<le> pr_end addp" "e \<le> pr_start c" using True lt by (auto simp: e_def clip_def)
    have gap: "{pr_start addp..<e} \<inter> pages s T fid = {}"
      by (rule gap_empty [OF Cons.prems(1,2,5)]) (use e(3) c(1) in simp)
    note mode = gap_may [OF Cons.prems(7) gap e(1,2)]
    have "{pr_start addp..<e} - pages s T fid = {pr_start addp..<e}" using gap by blast
    then have "missing s T fid (pr_start addp) e = e - pr_start addp" using e(1) by (simp add: missing_def)
    then have free: "e - pr_start addp \<le> free_pages s"
      using Cons.prems(8) missing_le [OF e(2), of s T fid "pr_start addp"] by simp
    have next_: "b # ys = [] \<or> pr_start addp < pr_start (the (heap s (hd (b # ys))))"
      "clip = (b # ys \<noteq> [] \<and> pr_start (the (heap s (hd (b # ys)))) < pr_end addp)"
      "e = (if clip then pr_start (the (heap s (hd (b # ys)))) else pr_end addp)"
      using True c(1) by (simp_all add: clip_def e_def)
    let ?tmp = "heap_next s" and ?T' = "T(fid := xs @ heap_next s # b # ys)"
    obtain s' L' where R: "walk_miss fid preop disk r addp (last_ptr None xs) (hd_ptr (b # ys) None) s =
        Inr (if clip then Some (addp\<lparr>pr_start := e\<rparr>) else None, Some ?tmp, s')"
      "cache_ok s' ?T' L'" "updates fid (pr_start addp) e (\<lambda>_. attrs (fresh_pr r addp)) s T s' ?T'"
      "map core (cells (heap s') (xs @ ?tmp # b # ys)) =
        map core (cells (heap s) xs) @ core ((fresh_pr r addp)\<lparr>pr_end := e\<rparr>) # map core (cells (heap s) (b # ys))"
      "free_pages s' = free_pages s - (e - pr_start addp)"
      "dirty_pages s' = dirty_pages s + (if r then 0 else e - pr_start addp)"
      using walk_miss_ok [OF Cons.prems(1-3) mode Cons.prems(4,5) next_ free refl refl] by blast
    have W: "walked fid preop disk r addp e s T s' ?T'"
      by (rule gap_walked [OF gap _ mode R(3,5,6)]) (use e in simp)
    have run: "walk_loop n fid preop disk r addp pre (hd_ptr (b # ys) None) s =
        (if clip then walk_turn k fid preop disk r (addp\<lparr>pr_start := e\<rparr>) (Some ?tmp) (Some b) s' else Inr s')"
      unfolding n(1) pre by (subst walk_loop_gap) (use R(1) True c(1) in simp_all)
    show ?thesis
    proof (cases clip)
      case False
      then show ?thesis using run R(2) W by (auto simp: walk_result_def e_def)
    next
      case clip: True
      then have ec: "e = pr_start c" "e < pr_end addp" by (auto simp: e_def clip_def)
      have len: "length (map core (cells (heap s') (xs @ [?tmp]))) = length (map core (cells (heap s) xs) @ [core ((fresh_pr r addp)\<lparr>pr_end := e\<rparr>)])"
        by (simp add: cells_def)
      have "map core (cells (heap s') (xs @ [?tmp])) @ map core (cells (heap s') (b # ys)) =
          (map core (cells (heap s) xs) @ [core ((fresh_pr r addp)\<lparr>pr_end := e\<rparr>)]) @ map core (cells (heap s) (b # ys))"
        using R(4) by simp
      then have D: "map core (cells (heap s') (xs @ [?tmp])) = map core (cells (heap s) xs) @ [core ((fresh_pr r addp)\<lparr>pr_end := e\<rparr>)]"
        "map core (cells (heap s') (b # ys)) = map core (cells (heap s) (b # ys))"
        using append_eq_append_conv [OF disjI1 [OF len]] by blast+
      have ends: "\<forall>x\<in>set (cells (heap s') (xs @ [?tmp])). pr_end x \<le> e"
      proof
        fix x assume "x \<in> set (cells (heap s') (xs @ [?tmp]))"
        then have "core x \<in> set (map core (cells (heap s) xs) @ [core ((fresh_pr r addp)\<lparr>pr_end := e\<rparr>)])"
          unfolding D(1) [symmetric] by auto
        then consider "core x = core ((fresh_pr r addp)\<lparr>pr_end := e\<rparr>)" | y where "y \<in> set (cells (heap s) xs)" "core x = core y" by auto
        then have "pr_end (core x) \<le> e"
        proof cases
          case 2
          then have "pr_end y \<le> pr_start addp" using Cons.prems(5) by blast
          then show ?thesis using 2(2) e(1) by simp
        qed simp
        then show "pr_end x \<le> e" by simp
      qed
      obtain c' where c': "heap s' b = Some c'" using table_next [OF R(2), of fid "xs @ [?tmp]" b ys] by auto
      have "pr_start c' = pr_start c" using arg_cong [OF D(2), of "\<lambda>l. pr_start (hd l)"] c(1) c' by simp
      then have start: "pr_start c' = e" using ec by simp
      let ?a = "addp\<lparr>pr_start := e\<rparr>"
      have u: "updates fid (pr_start addp) e (new_attrs preop disk r addp) s T s' ?T'" using W by (simp add: walked_def)
      have "walk_result fid preop disk r ?a s' ?T' (walk_turn k fid preop disk r ?a (Some ?tmp) (Some b) s')"
      proof (rule turn_ok [OF R(2), where xs = "xs @ [?tmp]" and ys = ys and c = c'])
        fix zs b' s1 T1 L1 mid
        assume l: "cache_ok s1 T1 L1" "T1 fid = (zs @ [b']) @ ys" "\<forall>e\<in>set (cells (heap s1) (zs @ [b'])). pr_end e \<le> mid"
          "pr_start ?a \<le> mid" "mid < pr_end ?a" "walked fid preop disk r ?a mid s' ?T' s1 T1"
        have "walked fid preop disk r addp mid s T s1 T1" by (rule walked_trans [OF W l(6)]) (use e l(4) in auto)
        from loop [OF l(1-3) _ _ this] l(4,5) e(1)
        show "walk_result fid preop disk r (?a\<lparr>pr_start := mid\<rparr>) s1 T1
            (walk_loop k fid preop disk r (?a\<lparr>pr_start := mid\<rparr>) (Some b') (hd_ptr ys None) s1)" by simp
      next
        show "files s' fid \<noteq> None" using updates_files [OF u, of fid] Cons.prems(3) by simp
        show "addp_ok fid r ?a" by (rule addp_ok_start [OF Cons.prems(4) ec(2)])
        show "may_walk preop disk r s' ?T' fid (pr_start ?a) (pr_end ?a)"
          using may_walk_rest [OF Cons.prems(7) u] e(1) by simp
      qed (use c' start ends in auto)
      then show ?thesis using run clip walk_resultI [OF W] e by simp
    qed
  qed
qed

section \<open>The whole walk\<close>

lemma cache_ok_counter [simp]: "cache_ok (s\<lparr>trimCacheCounter := i\<rparr>) T L = cache_ok s T L"
  by (simp add: cache_ok_def heap_ok_def lru_ok_def)

lemma page_counter [simp]: "page (s\<lparr>trimCacheCounter := i\<rparr>) T g pg = page s T g pg"
  by (simp add: page_def)

text \<open>The request of a walk, as \<^verbatim>\<open>walkCache_update\<close> sets it up.\<close>

definition walk_pr :: "int \<Rightarrow> int \<Rightarrow> int \<Rightarrow> bool \<Rightarrow> pr_t" where
  "walk_pr fid st en r = (new_pr fid st en (\<not> r) None None)\<lparr>pr_count := 1, pr_prev := None, pr_next := None\<rparr>"

lemma walk_pr_sel [simp]: "pr_start (walk_pr fid st en r) = st" "pr_end (walk_pr fid st en r) = en"
  by (simp_all add: walk_pr_def new_pr_def)

lemma walk_pr_ok: "st < en \<Longrightarrow> addp_ok fid r (walk_pr fid st en r)"
  by (simp add: addp_ok_def walk_pr_def new_pr_def)

text \<open>The walk starts at the last range it stopped at, when that is before the pages, or at the first.\<close>

lemma walk_start:
  assumes "cache_ok s T L" "files s fid = Some f"
  shows "\<exists>xs ys. T fid = xs @ ys \<and> (\<forall>e\<in>set (cells (heap s) xs). pr_end e \<le> st) \<and>
    (xs = [] \<or> ys \<noteq> [] \<and> pr_start (the (heap s (hd ys))) < st) \<and>
    (if pr_last f = None then Inr (pr_head f)
     else bindR (deref (pr_last f) s) (\<lambda>c. Inr (if pr_start c < st then pr_last f else pr_head f))) = Inr (hd_ptr ys None)"
proof (cases "\<exists>a c. pr_last f = Some a \<and> heap s a = Some c \<and> pr_start c < st")
  case True
  then obtain a c where a: "pr_last f = Some a" "heap s a = Some c" "pr_start c < st" by blast
  then obtain xs ys where T: "T fid = xs @ a # ys" using cache_file(2) [OF assms] by (meson split_list)
  have "\<forall>e\<in>set (cells (heap s) xs). pr_end e \<le> st"
    using hit_before [OF assms(1) T a(2)] a(3) by fastforce
  then show ?thesis using a T by (intro exI [of _ xs] exI [of _ "a # ys"]) simp
next
  case False
  have head: "pr_head f = hd_ptr (T fid) None" by (rule cache_file(1) [OF assms])
  have "(if pr_last f = None then Inr (pr_head f)
     else bindR (deref (pr_last f) s) (\<lambda>c. Inr (if pr_start c < st then pr_last f else pr_head f))) = Inr (pr_head f)"
  proof (cases "pr_last f")
    case (Some a)
    then have "a \<in> set (T fid)" using cache_file(2) [OF assms] by simp
    then obtain c where "heap s a = Some c" using cache_table(5) [OF assms(1), of fid] by auto
    then show ?thesis using False Some by auto
  qed simp
  then show ?thesis using head by (intro exI [of _ "[]"] exI [of _ "T fid"]) simp
qed

lemma walk_end:
  assumes ok: "cache_ok s T L" and f: "files s fid \<noteq> None" and order: "st < en"
    and may: "may_walk preop disk r s T fid st en" and room: "missing s T fid st en \<le> free_pages s"
  shows "\<exists>s' T' L'. walkCache_update fid (new_pr fid st en (\<not> r) None None) preop disk s =
      (let s = s'\<lparr>trimCacheCounter := trimCacheCounter s' + 1\<rparr>
       in if trimCacheCounter s \<ge> trimCacheInt s then trimAllCache (s\<lparr>trimCacheCounter := 0\<rparr>) else Inr s) \<and>
    cache_ok s' T' L' \<and> walked fid preop disk r (walk_pr fid st en r) en s T s' T'"
proof -
  obtain ff where ff: "files s fid = Some ff" using f by auto
  let ?a = "new_pr fid st en (\<not> r) None None"
  have a: "pr_start ?a = st" "PG_dirty ?a = (\<not> r)" by (simp_all add: new_pr_def)
  obtain xs ys where S: "T fid = xs @ ys" "\<forall>e\<in>set (cells (heap s) xs). pr_end e \<le> st"
    "xs = [] \<or> ys \<noteq> [] \<and> pr_start (the (heap s (hd ys))) < st"
    "(if pr_last ff = None then Inr (pr_head ff)
     else bindR (deref (pr_last ff) s) (\<lambda>c. Inr (if pr_start c < st then pr_last ff else pr_head ff))) = Inr (hd_ptr ys None)"
    using walk_start [OF ok ff] by blast
  have "length ys < Suc (heap_next s)" using table_length [OF ok, of fid] S(1) by simp
  then have "walk_result fid preop disk r (walk_pr fid st en r) s T
      (walk_loop (Suc (heap_next s)) fid preop disk r (walk_pr fid st en r) None (hd_ptr ys None) s)"
    by (intro walk_loop_ok [OF ok S(1) f walk_pr_ok [OF order]]) (use S may room in auto)
  then obtain s' T' L' where R: "walk_loop (Suc (heap_next s)) fid preop disk r (walk_pr fid st en r) None (hd_ptr ys None) s = Inr s'"
    "cache_ok s' T' L'" "walked fid preop disk r (walk_pr fid st en r) en s T s' T'"
    by (auto simp: walk_result_def)
  have "walkCache_update fid ?a preop disk s =
      (let s = s'\<lparr>trimCacheCounter := trimCacheCounter s' + 1\<rparr>
       in if trimCacheCounter s \<ge> trimCacheInt s then trimAllCache (s\<lparr>trimCacheCounter := 0\<rparr>) else Inr s)"
    unfolding walkCache_update_def ff a option.case S(4) bindR.simps walk_pr_def [symmetric] not_not R(1) by (rule refl)
  with R(2,3) show ?thesis by blast
qed


text \<open>The walk as the code has it, with the merge of all ranges every \<^verbatim>\<open>trimCacheInt\<close> walks.\<close>

definition known_files :: "dcache \<Rightarrow> bool" where
  "known_files s \<longleftrightarrow> (\<forall>fid\<in>set (fileIDs s). files s fid \<noteq> None)"

lemma other_fields_ids: "other_fields s' = other_fields s \<Longrightarrow> fileIDs s' = fileIDs s"
  by (drule arg_cong [where f = fileIDs]) (simp add: other_fields_def)

lemma walkCache_update_ok:
  assumes ok: "cache_ok s T L" and f: "files s fid \<noteq> None" and ids: "known_files s" and order: "st < en"
    and may: "may_walk preop disk r s T fid st en" and room: "missing s T fid st en \<le> free_pages s"
  shows "\<exists>s' T' L'. walkCache_update fid (new_pr fid st en (\<not> r) None None) preop disk s = Inr s' \<and> cache_ok s' T' L' \<and>
    (\<forall>g pg. page s' T' g pg = (if g = fid \<and> st \<le> pg \<and> pg < en
       then Some (new_attrs preop disk r (walk_pr fid st en r) (page s T g pg)) else page s T g pg)) \<and>
    free_pages s' = free_pages s - missing s T fid st en \<and>
    dirty_pages s' = dirty_pages s + (if r then 0 else missing s T fid st en) - (if preop \<and> disk \<and> \<not> r then en - st else 0) \<and>
    fileIDs s' = fileIDs s \<and> (\<forall>g. (files s' g = None) = (files s g = None))"
proof -
  obtain s1 T1 L1 where 1: "walkCache_update fid (new_pr fid st en (\<not> r) None None) preop disk s =
      (let s = s1\<lparr>trimCacheCounter := trimCacheCounter s1 + 1\<rparr>
       in if trimCacheCounter s \<ge> trimCacheInt s then trimAllCache (s\<lparr>trimCacheCounter := 0\<rparr>) else Inr s)"
    "cache_ok s1 T1 L1" "walked fid preop disk r (walk_pr fid st en r) en s T s1 T1"
    using walk_end [OF ok f order may room] by blast
  have u: "updates fid st en (new_attrs preop disk r (walk_pr fid st en r)) s T s1 T1"
    using 1(3) by (simp add: walked_def)
  have "other_fields s1 = other_fields s" using u unfolding updates_def by blast
  note keep = other_fields_ids [OF this] updates_files [OF u]
  define s2 where "s2 = s1\<lparr>trimCacheCounter := trimCacheCounter s1 + 1\<rparr>"
  have "\<exists>s' T' L'. (if trimCacheCounter s2 \<ge> trimCacheInt s2 then trimAllCache (s2\<lparr>trimCacheCounter := 0\<rparr>) else Inr s2) = Inr s' \<and>
      cache_ok s' T' L' \<and> (\<forall>g pg. page s' T' g pg = page s1 T1 g pg) \<and> free_pages s' = free_pages s1 \<and>
      dirty_pages s' = dirty_pages s1 \<and> fileIDs s' = fileIDs s1 \<and> (\<forall>g. (files s' g = None) = (files s1 g = None))"
  proof (cases "trimCacheCounter s2 \<ge> trimCacheInt s2")
    case True
    let ?s = "s2\<lparr>trimCacheCounter := 0\<rparr>"
    have "cache_ok ?s T1 L1" "\<forall>fid\<in>set (fileIDs ?s). files ?s fid \<noteq> None"
      using 1(2) ids keep by (simp_all add: s2_def known_files_def)
    from trimAllCache_ok [OF this] obtain s' T' L' where
      "trimAllCache ?s = Inr s'" "cache_ok s' T' L'" "same_pages ?s T1 s' T'" by blast
    then show ?thesis using True other_fields_ids [of s' ?s]
      by (intro exI [of _ s'] exI [of _ T'] exI [of _ L']) (auto simp: same_pages_def s2_def)
  next
    case False
    then show ?thesis using 1(2) by (intro exI [of _ s2] exI [of _ T1] exI [of _ L1]) (simp add: s2_def)
  qed
  then obtain s' T' L' where R: "(if trimCacheCounter s2 \<ge> trimCacheInt s2 then trimAllCache (s2\<lparr>trimCacheCounter := 0\<rparr>) else Inr s2) = Inr s'"
    "cache_ok s' T' L'" "\<forall>g pg. page s' T' g pg = page s1 T1 g pg" "free_pages s' = free_pages s1"
    "dirty_pages s' = dirty_pages s1" "fileIDs s' = fileIDs s1" "\<forall>g. (files s' g = None) = (files s1 g = None)" by blast
  have "walkCache_update fid (new_pr fid st en (\<not> r) None None) preop disk s = Inr s'"
    unfolding 1(1) Let_def s2_def [symmetric] by (rule R(1))
  moreover have "page s' T' g pg = (if g = fid \<and> st \<le> pg \<and> pg < en
       then Some (new_attrs preop disk r (walk_pr fid st en r) (page s T g pg)) else page s T g pg)" for g pg
    using R(3) u by (simp add: updates_def)
  moreover have "free_pages s' = free_pages s - missing s T fid st en"
    "dirty_pages s' = dirty_pages s + (if r then 0 else missing s T fid st en) - (if preop \<and> disk \<and> \<not> r then en - st else 0)"
    using R(4,5) 1(3) by (simp_all add: walked_def)
  ultimately show ?thesis using R(2,6,7) keep by (intro exI [of _ s'] exI [of _ T'] exI [of _ L'] conjI allI) simp_all
qed

end
