(* ===== verification/CacheSpec.thy ===== *)
theory CacheSpec
  imports CacheUpdate
begin

text \<open>
  What the page cache promises: it is a map from the pages of the files to their attributes. The
  walks of the cache follow the steps of that map, its lists stay healthy, and the map shows what
  concurrent uses of a page lose.
\<close>

section \<open>The check of the lists\<close>

lemma seg_neighbours:
  assumes "dseg nx pv h p (xs @ a # ys) None" "h a = Some c"
  shows "pv c = (if xs = [] then p else Some (last xs))" "nx c = hd_ptr ys None"
    "xs \<noteq> [] \<Longrightarrow> \<exists>d. h (last xs) = Some d \<and> nx d = Some a" "ys \<noteq> [] \<Longrightarrow> \<exists>d. h (hd ys) = Some d \<and> pv d = Some a"
proof -
  show "pv c = (if xs = [] then p else Some (last xs))" "nx c = hd_ptr ys None"
    using assms by (auto simp: last_ptr_some)
  show "xs \<noteq> [] \<Longrightarrow> \<exists>d. h (last xs) = Some d \<and> nx d = Some a"
    using assms(1) by (cases xs rule: rev_cases) auto
  show "ys \<noteq> [] \<Longrightarrow> \<exists>d. h (hd ys) = Some d \<and> pv d = Some a"
    using assms(1) by (cases ys) auto
qed

lemma check_table_seg:
  "dseg pr_next pr_prev (heap s) None (xs @ as) None \<Longrightarrow> length as < n \<Longrightarrow>
   check_table n (hd_ptr as None) s = Inr (int (length as))"
proof (induction as arbitrary: xs n)
  case Nil
  then obtain k where "n = Suc k" by (cases n) auto
  then show ?case by simp
next
  case (Cons a as)
  then obtain k where n: "n = Suc k" "length as < k" by (cases n) auto
  obtain c where c: "heap s a = Some c" using Cons.prems(1) by auto
  note nb = seg_neighbours [OF Cons.prems(1) c]
  have "check_table k (hd_ptr as None) s = Inr (int (length as))"
    by (rule Cons.IH [of "xs @ [a]"]) (use Cons.prems(1) n(2) in simp_all)
  moreover have "(if pr_prev c = None then Inr True else bindR (deref (pr_prev c) s) (\<lambda>d. Inr (pr_next d = Some a))) = Inr True"
    using nb(1,3) by (auto split: if_splits)
  moreover have "(if pr_next c = None then Inr True else bindR (deref (pr_next c) s) (\<lambda>d. Inr (pr_prev d = Some a))) = Inr True"
    using nb(2,4) by (cases as) auto
  ultimately show ?case using c n(1) nb(2) by simp
qed

lemma check_lru_seg:
  "dseg lru_next lru_prev (heap s) None (xs @ as) None \<Longrightarrow> length as < n \<Longrightarrow>
   check_lru n (hd_ptr as None) s = Inr (int (length as))"
proof (induction as arbitrary: xs n)
  case Nil
  then obtain k where "n = Suc k" by (cases n) auto
  then show ?case by simp
next
  case (Cons a as)
  then obtain k where n: "n = Suc k" "length as < k" by (cases n) auto
  obtain c where c: "heap s a = Some c" using Cons.prems(1) by auto
  note nb = seg_neighbours [OF Cons.prems(1) c]
  have "check_lru k (hd_ptr as None) s = Inr (int (length as))"
    by (rule Cons.IH [of "xs @ [a]"]) (use Cons.prems(1) n(2) in simp_all)
  moreover have "(if lru_next c = None then Inr True else bindR (deref (lru_next c) s) (\<lambda>d. Inr (lru_prev d = Some a))) = Inr True"
    using nb(2,4) by (cases as) auto
  ultimately show ?case using c n(1) nb(2) by simp
qed

text \<open>The list of the identities names every known file once.\<close>

definition ids_ok :: "dcache \<Rightarrow> bool" where
  "ids_ok s \<longleftrightarrow> distinct (fileIDs s) \<and> (\<forall>fid. files s fid \<noteq> None \<longleftrightarrow> fid \<in> set (fileIDs s))"

lemma check_tables_ok:
  assumes "cache_ok s T L"
  shows "\<forall>fid\<in>set fids. files s fid \<noteq> None \<Longrightarrow> check_tables fids s = Inr (\<Sum>fid\<leftarrow>fids. int (length (T fid)))"
proof (induction fids)
  case (Cons fid fids)
  then obtain f where f: "files s fid = Some f" by auto
  have "check_table (Suc (heap_next s)) (pr_head f) s = Inr (int (length (T fid)))"
    unfolding cache_file(1) [OF assms f] using cache_table(1) [OF assms, of fid] table_length [OF assms, of fid]
    by (intro check_table_seg [of s "[]"]) simp_all
  then show ?case using Cons f by (simp add: file_of_def del: check_table.simps)
qed simp

lemma lru_length:
  assumes ok: "cache_ok s T L" and ids: "ids_ok s"
  shows "int (length L) = (\<Sum>fid\<leftarrow>fileIDs s. int (length (T fid)))"
proof -
  have T: "T fid = []" if "fid \<notin> set (fileIDs s)" for fid
  proof -
    have "files s fid = None" using ids that by (auto simp: ids_ok_def)
    moreover have "case files s fid of None \<Rightarrow> T fid = []
      | Some f \<Rightarrow> pr_head f = hd_ptr (T fid) None \<and> (\<forall>a. pr_last f = Some a \<longrightarrow> a \<in> set (T fid))"
      using ok by (simp add: cache_ok_def)
    ultimately show ?thesis by simp
  qed
  have L: "set L = (\<Union>fid\<in>set (fileIDs s). set (T fid))"
  proof -
    have "set L = (\<Union>fid. set (T fid))" using ok by (simp add: cache_ok_def)
    also have "\<dots> = (\<Union>fid\<in>set (fileIDs s). set (T fid))" using T by fastforce
    finally show ?thesis .
  qed
  have "set (T g) \<inter> set (T g') = {}" if "g \<noteq> g'" for g g'
    using cache_table(3) [OF ok, of g] cache_table(3) [OF ok, of g'] that by auto
  then have "card (set L) = (\<Sum>fid\<in>set (fileIDs s). card (set (T fid)))"
    unfolding L by (intro card_UN_disjoint) auto
  also have "\<dots> = (\<Sum>fid\<in>set (fileIDs s). length (T fid))"
    using cache_table(2) [OF ok] by (simp add: distinct_card)
  also have "\<dots> = (\<Sum>fid\<leftarrow>fileIDs s. length (T fid))"
    using ids by (simp add: ids_ok_def sum_list_distinct_conv_sum_set)
  finally have "length L = (\<Sum>fid\<leftarrow>fileIDs s. length (T fid))"
    using cache_lru(1) [OF ok] by (simp add: lru_ok_def distinct_card)
  moreover have "int (\<Sum>fid\<leftarrow>fids. length (T fid)) = (\<Sum>fid\<leftarrow>fids. int (length (T fid)))" for fids by (induction fids) auto
  ultimately show ?thesis by simp
qed

lemma health_ok:
  assumes ok: "cache_ok s T L" and ids: "ids_ok s"
  shows "checkListHealth s = Inr True"
proof -
  have "check_tables (fileIDs s) s = Inr (\<Sum>fid\<leftarrow>fileIDs s. int (length (T fid)))"
    by (rule check_tables_ok [OF ok]) (use ids in \<open>simp add: ids_ok_def\<close>)
  moreover have "check_lru (Suc (heap_next s)) (lru_list s) s = Inr (int (length L))"
  proof -
    have l: "lru_list s = hd_ptr L None" "dseg lru_next lru_prev (heap s) None L None"
      using cache_lru(1) [OF ok] by (simp_all add: lru_ok_def)
    have "length L \<le> heap_next s" using list_length_bound [of s lru_next lru_prev None L None] ok l(2)
      by (simp add: cache_ok_def lru_ok_def)
    then show ?thesis unfolding l(1) using l(2) by (intro check_lru_seg [of s "[]"]) simp_all
  qed
  ultimately show ?thesis using lru_length [OF ok ids] by (simp add: checkListHealth_def del: check_lru.simps)
qed


section \<open>The cache as a map of pages\<close>

datatype walk = Walk (w_file: int) (w_start: int) (w_end: int) (w_preop: bool) (w_disk: bool) (w_read: bool)

text \<open>A walk as the handlers start it: with the range that \<^verbatim>\<open>preOpOnCache\<close> or a response sets up.\<close>

definition do_walk :: "walk \<Rightarrow> dcache \<Rightarrow> dcache res" where
  "do_walk w s = walkCache_update (w_file w) (new_pr (w_file w) (w_start w) (w_end w) (\<not> w_read w) None None) (w_preop w) (w_disk w) s"

text \<open>The attributes of a page after a walk: \<open>old\<close> are those it had.\<close>

definition page_after :: "walk \<Rightarrow> pr_t option \<Rightarrow> pr_t" where
  "page_after w old =
     (let wr = \<not> w_read w; pre = w_preop w; disk = w_disk w
      in \<lparr> pr_fileid = w_file w, pr_start = 0, pr_end = 0, pr_count = (if pre \<or> old = None then 1 else 0),
           PG_dirty = ((wr \<or> (\<exists>c. old = Some c \<and> PG_dirty c)) \<and> \<not> (old \<noteq> None \<and> disk \<and> wr \<and> \<not> pre)),
           PG_writeback = (old \<noteq> None \<and> pre \<and> disk \<and> wr), PG_locked = (old = None \<or> pre \<and> wr), PG_referenced = True,
           pr_modified = (wr \<or> (\<exists>c. old = Some c \<and> pr_modified c)), PG_lru = False, pr_next = None, pr_prev = None,
           lru_next = None, lru_prev = None, writeout_list = None, readahead_list = None \<rparr>)"

lemma new_attrs_page_after:
  "new_attrs (w_preop w) (w_disk w) (w_read w) (walk_pr (w_file w) st en (w_read w)) old = page_after w old"
  by (cases old; cases "w_preop w"; cases "w_disk w"; cases "w_read w")
    (simp_all add: new_attrs_def hit_attrs_def hit_pr_def attrs_def fresh_pr_def copy_pr_def walk_pr_def new_pr_def page_after_def Let_def)

text \<open>
  The specification: the map of the pages, the free pages and the dirty pages. A walk is admitted
  if the file is known, the missing pages have room and come with data, cached pages are not read
  from the disk, and it is not the start of a read from the cache.
\<close>

record page_spec =
  sp_page :: "int \<Rightarrow> int \<Rightarrow> pr_t option"
  sp_free :: int
  sp_dirty :: int

definition spec_missing :: "walk \<Rightarrow> page_spec \<Rightarrow> int list" where
  "spec_missing w sp = filter (\<lambda>pg. sp_page sp (w_file w) pg = None) [w_start w..w_end w - 1]"

definition spec_admits :: "int list \<Rightarrow> walk \<Rightarrow> page_spec \<Rightarrow> bool" where
  "spec_admits ids w sp \<longleftrightarrow> w_file w \<in> set ids \<and> w_start w < w_end w \<and> \<not> (w_preop w \<and> \<not> w_disk w \<and> w_read w) \<and>
     (spec_missing w sp \<noteq> [] \<longrightarrow> w_preop w \<and> w_disk w = w_read w) \<and>
     (length (spec_missing w sp) < length [w_start w..w_end w - 1] \<longrightarrow> \<not> (w_preop w \<and> w_disk w \<and> w_read w)) \<and>
     int (length (spec_missing w sp)) \<le> sp_free sp"

definition spec_walk :: "walk \<Rightarrow> page_spec \<Rightarrow> page_spec" where
  "spec_walk w sp =
     \<lparr> sp_page = (\<lambda>g pg. if g = w_file w \<and> w_start w \<le> pg \<and> pg < w_end w then Some (page_after w (sp_page sp g pg)) else sp_page sp g pg),
       sp_free = sp_free sp - int (length (spec_missing w sp)),
       sp_dirty = sp_dirty sp + (if w_read w then 0 else int (length (spec_missing w sp)))
         - (if w_preop w \<and> w_disk w \<and> \<not> w_read w then w_end w - w_start w else 0) \<rparr>"

fun spec_run :: "int list \<Rightarrow> walk list \<Rightarrow> page_spec \<Rightarrow> page_spec option" where
  "spec_run ids [] sp = Some sp"
| "spec_run ids (w # ws) sp = (if spec_admits ids w sp then spec_run ids ws (spec_walk w sp) else None)"

text \<open>The state \<open>s\<close> of the cache implements the state \<open>sp\<close> of the specification.\<close>

definition shows_pages :: "dcache \<Rightarrow> page_spec \<Rightarrow> bool" where
  "shows_pages s sp \<longleftrightarrow> ids_ok s \<and> free_pages s = sp_free sp \<and> dirty_pages s = sp_dirty sp \<and>
     (\<exists>T L. cache_ok s T L \<and> (\<forall>g pg. page s T g pg = sp_page sp g pg))"

lemma spec_missing_set:
  assumes "\<forall>g pg. page s T g pg = sp_page sp g pg"
  shows "{w_start w..<w_end w} - pages s T (w_file w) = set (spec_missing w sp)"
    "int (length (spec_missing w sp)) = missing s T (w_file w) (w_start w) (w_end w)"
proof -
  show set_eq: "{w_start w..<w_end w} - pages s T (w_file w) = set (spec_missing w sp)"
  proof -
    have "pg \<in> pages s T (w_file w) \<longleftrightarrow> sp_page sp (w_file w) pg \<noteq> None" for pg
      using assms page_None [of s T "w_file w" pg] by auto
    then show ?thesis by (auto simp: spec_missing_def)
  qed
  have "distinct (spec_missing w sp)" by (simp add: spec_missing_def)
  then show "int (length (spec_missing w sp)) = missing s T (w_file w) (w_start w) (w_end w)"
    unfolding missing_def set_eq by (simp add: distinct_card)
qed

lemma spec_admits_may:
  assumes sp: "\<forall>g pg. page s T g pg = sp_page sp g pg" and adm: "spec_admits ids w sp"
  shows "may_walk (w_preop w) (w_disk w) (w_read w) s T (w_file w) (w_start w) (w_end w)"
proof -
  let ?I = "{w_start w..<w_end w}" and ?P = "pages s T (w_file w)"
  note m = spec_missing_set [OF sp, of w]
  have "\<not> ?I \<subseteq> ?P \<Longrightarrow> spec_missing w sp \<noteq> []" using m(1) by auto
  moreover have "length (spec_missing w sp) < length [w_start w..w_end w - 1]" if touched: "?I \<inter> ?P \<noteq> {}"
  proof -
    obtain pg where "pg \<in> ?I \<inter> ?P" using touched by (meson ex_in_conv)
    then have "pg \<in> ?I" "pg \<in> ?P" by auto
    then have "sp_page sp (w_file w) pg \<noteq> None" "pg \<in> set [w_start w..w_end w - 1]"
      using sp page_None [of s T "w_file w" pg] by auto
    then show ?thesis unfolding spec_missing_def by (intro length_filter_less)
  qed
  ultimately show ?thesis using adm unfolding may_walk_def spec_admits_def by blast
qed

lemma walk_implements:
  assumes "shows_pages s sp" "spec_admits (fileIDs s) w sp"
  shows "\<exists>s'. do_walk w s = Inr s' \<and> shows_pages s' (spec_walk w sp) \<and> fileIDs s' = fileIDs s"
proof -
  obtain T L where ok: "cache_ok s T L" and sp: "\<forall>g pg. page s T g pg = sp_page sp g pg"
    using assms(1) by (auto simp: shows_pages_def)
  note m = spec_missing_set [OF sp, of w]
  have ids: "ids_ok s" "free_pages s = sp_free sp" "dirty_pages s = sp_dirty sp" using assms(1) by (simp_all add: shows_pages_def)
  have adm: "w_file w \<in> set (fileIDs s)" "w_start w < w_end w" "int (length (spec_missing w sp)) \<le> sp_free sp"
    using assms(2) unfolding spec_admits_def by blast+
  have f: "files s (w_file w) \<noteq> None" "known_files s" using ids(1) adm(1) by (auto simp: ids_ok_def known_files_def)
  have room: "missing s T (w_file w) (w_start w) (w_end w) \<le> free_pages s" using adm(3) ids(2) m(2) by simp
  obtain s' T' L' where R: "do_walk w s = Inr s'" "cache_ok s' T' L'"
    "\<forall>g pg. page s' T' g pg = (if g = w_file w \<and> w_start w \<le> pg \<and> pg < w_end w
       then Some (page_after w (page s T g pg)) else page s T g pg)"
    "free_pages s' = free_pages s - missing s T (w_file w) (w_start w) (w_end w)"
    "dirty_pages s' = dirty_pages s + (if w_read w then 0 else missing s T (w_file w) (w_start w) (w_end w))
       - (if w_preop w \<and> w_disk w \<and> \<not> w_read w then w_end w - w_start w else 0)"
    "fileIDs s' = fileIDs s" "\<forall>g. (files s' g = None) = (files s g = None)"
    using walkCache_update_ok [OF ok f adm(2) spec_admits_may [OF sp assms(2)] room]
    unfolding do_walk_def [symmetric] new_attrs_page_after by blast
  have "\<forall>g pg. page s' T' g pg = sp_page (spec_walk w sp) g pg" using R(3) sp by (simp add: spec_walk_def)
  moreover have "free_pages s' = sp_free (spec_walk w sp)" "dirty_pages s' = sp_dirty (spec_walk w sp)"
    using R(4,5) ids m(2) by (simp_all add: spec_walk_def)
  moreover have "ids_ok s'" using ids(1) R(6,7) by (simp add: ids_ok_def)
  ultimately show ?thesis using R(1,2,6) unfolding shows_pages_def by blast
qed

lemma run_implements:
  "shows_pages s sp \<Longrightarrow> spec_run (fileIDs s) ws sp = Some sp' \<Longrightarrow>
   \<exists>s'. run_res do_walk ws s = Inr s' \<and> shows_pages s' sp' \<and> fileIDs s' = fileIDs s"
proof (induction ws arbitrary: s sp)
  case (Cons w ws)
  then have adm: "spec_admits (fileIDs s) w sp" and rest: "spec_run (fileIDs s) ws (spec_walk w sp) = Some sp'"
    by (simp_all split: if_splits)
  obtain s1 where 1: "do_walk w s = Inr s1" "shows_pages s1 (spec_walk w sp)" "fileIDs s1 = fileIDs s"
    using walk_implements [OF Cons.prems(1) adm] by blast
  with Cons.IH [OF 1(2)] rest show ?case by simp
qed simp


section \<open>The properties\<close>

text \<open>A cache of \<open>n\<close> pages that knows the file 0.\<close>

definition fresh_cache :: "int \<Rightarrow> dcache" where
  "fresh_cache n = (DiskCache_initialize n n 0 0 0 0 (-1) 8 8 True None)
     \<lparr>fileIDs := [0], files := (\<lambda>_. None)(0 \<mapsto> \<lparr> f_id = 0, o_sync = False, o_direct = False, f_ra = new_ra,
        pr_head = None, pr_last = None \<rparr>)\<rparr>"

definition fresh_pages :: "int \<Rightarrow> page_spec" where
  "fresh_pages n = \<lparr> sp_page = (\<lambda>_ _. None), sp_free = n, sp_dirty = 0 \<rparr>"

lemma fresh_shows: "shows_pages (fresh_cache n) (fresh_pages n)"
proof -
  have "cache_ok (fresh_cache n) (\<lambda>_. []) []"
    by (auto simp: fresh_cache_def DiskCache_initialize_def cache_ok_def heap_ok_def lru_ok_def table_def)
  then show ?thesis
    by (auto simp: shows_pages_def fresh_pages_def page_def ids_ok_def fresh_cache_def DiskCache_initialize_def intro!: exI [of _ "\<lambda>_. []"])
qed

lemma fresh_ids: "fileIDs (fresh_cache n) = [0]"
  by (simp add: fresh_cache_def)

text \<open>A read of eight pages from the disk, and a write of eight pages to the cache that overlaps with it.\<close>

definition demo_walks :: "walk list" where
  "demo_walks = [Walk 0 0 8 True True True, Walk 0 0 8 False True True, Walk 0 4 12 True False False, Walk 0 4 12 False False False]"

lemma demo_run: "\<exists>sp. spec_run [0] demo_walks (fresh_pages 32) = Some sp"
  by (simp add: demo_walks_def spec_admits_def spec_walk_def spec_missing_def fresh_pages_def upto_rec1)

text \<open>
  Claim C5. The lists in the heap implement a map from pages to attributes: over any sequence of
  walks that the specification admits, \<^verbatim>\<open>walkCache_update\<close> ends without a fault and the map, the
  free pages and the dirty pages are those that the specification computes, whatever ranges were
  split, replaced, moved in the LRU list or merged on the way.
\<close>

theorem cache_implements_page_map:
  assumes "shows_pages s sp" "spec_run (fileIDs s) ws sp = Some sp'"
  shows "\<exists>s'. run_res do_walk ws s = Inr s' \<and> shows_pages s' sp'"
  using run_implements [OF assms] by blast

theorem cache_implements_page_map_witness:
  "\<exists>sp' s'. spec_run [0] demo_walks (fresh_pages 32) = Some sp' \<and> run_res do_walk demo_walks (fresh_cache 32) = Inr s' \<and> shows_pages s' sp'"
  using demo_run cache_implements_page_map [OF fresh_shows, of 32 demo_walks] by (auto simp: fresh_ids)

text \<open>
  Claim C6. The tables of the files and the LRU list stay well formed: after any admitted sequence
  of walks every link back is the inverse of its link forward, and the tables have together as many
  ranges as the LRU list, so that \<^verbatim>\<open>checkListHealth\<close> finds nothing.
\<close>

theorem cache_lists_stay_healthy:
  assumes "shows_pages s sp" "spec_run (fileIDs s) ws sp = Some sp'" "run_res do_walk ws s = Inr s'"
  shows "checkListHealth s' = Inr True"
proof -
  have "shows_pages s' sp'" using run_implements [OF assms(1,2)] assms(3) by auto
  then show ?thesis using health_ok by (auto simp: shows_pages_def)
qed

theorem cache_lists_stay_healthy_witness:
  "\<exists>s'. run_res do_walk demo_walks (fresh_cache 32) = Inr s' \<and> checkListHealth s' = Inr True"
proof -
  obtain sp where sp: "spec_run [0] demo_walks (fresh_pages 32) = Some sp" using demo_run by blast
  then obtain s' where "run_res do_walk demo_walks (fresh_cache 32) = Inr s'"
    using run_implements [OF fresh_shows, of 32 demo_walks sp] by (auto simp: fresh_ids)
  then show ?thesis using cache_lists_stay_healthy [OF fresh_shows, of 32 demo_walks sp] sp by (auto simp: fresh_ids)
qed

text \<open>
  Claim C12. The merge of ranges goes unnoticed: \<^verbatim>\<open>trimAllCache\<close> ends without a fault on every well
  formed cache, and every page has the attributes it had.
\<close>

theorem trim_keeps_pages:
  assumes "shows_pages s sp"
  shows "\<exists>s'. trimAllCache s = Inr s' \<and> shows_pages s' sp"
proof -
  obtain T L where ok: "cache_ok s T L" and sp: "\<forall>g pg. page s T g pg = sp_page sp g pg"
    using assms by (auto simp: shows_pages_def)
  have ids: "ids_ok s" "\<forall>fid\<in>set (fileIDs s). files s fid \<noteq> None" using assms by (simp_all add: shows_pages_def ids_ok_def)
  obtain s' T' L' where R: "trimAllCache s = Inr s'" "cache_ok s' T' L'" "same_pages s T s' T'"
    using trimAllCache_ok [OF ok ids(2)] by blast
  have "ids_ok s'" using ids(1) R(3) other_fields_ids [of s' s] by (simp add: ids_ok_def same_pages_def)
  then show ?thesis using R sp assms unfolding shows_pages_def same_pages_def by auto
qed

theorem trim_keeps_pages_witness:
  "\<exists>s sp s'. run_res do_walk demo_walks (fresh_cache 32) = Inr s \<and> trimAllCache s = Inr s' \<and> shows_pages s' sp"
proof -
  obtain sp where "spec_run [0] demo_walks (fresh_pages 32) = Some sp" using demo_run by blast
  then obtain s where "run_res do_walk demo_walks (fresh_cache 32) = Inr s" "shows_pages s sp"
    using run_implements [OF fresh_shows, of 32 demo_walks sp] by (auto simp: fresh_ids)
  then show ?thesis using trim_keeps_pages [of s sp] by blast
qed

text \<open>
  Claim C13. The count of the users of a page does not count: a read of the cache that ends while
  its pages are being written to the disk leaves them unused and not under write back. They are
  still dirty, so \<^verbatim>\<open>setWriteout\<close> takes them for a second write out.
\<close>

theorem read_releases_pages_of_others:
  assumes s: "shows_pages s sp" and f: "fid \<in> set (fileIDs s)" and order: "st < en" and room: "0 \<le> free_pages s"
    and busy: "\<forall>pg\<in>{st..<en}. \<exists>c. sp_page sp fid pg = Some c \<and> PG_dirty c \<and> PG_writeback c"
  shows "\<exists>s' sp'. do_walk (Walk fid st en False False True) s = Inr s' \<and> shows_pages s' sp' \<and>
    (\<forall>pg\<in>{st..<en}. \<exists>c. sp_page sp' fid pg = Some c \<and> writable c)"
proof -
  let ?w = "Walk fid st en False False True"
  have none: "spec_missing ?w sp = []"
    using busy by (force simp: spec_missing_def filter_empty_conv)
  have "spec_admits (fileIDs s) ?w sp"
    using s f order room by (simp add: spec_admits_def none shows_pages_def)
  then obtain s' where "do_walk ?w s = Inr s'" "shows_pages s' (spec_walk ?w sp)" using walk_implements [OF s] by blast
  moreover have "\<forall>pg\<in>{st..<en}. \<exists>c. sp_page (spec_walk ?w sp) fid pg = Some c \<and> writable c"
    using busy by (fastforce simp: spec_walk_def page_after_def writable_def)
  ultimately show ?thesis by blast
qed

text \<open>Eight pages are written to the cache and their write out has begun.\<close>

definition writeout_walks :: "walk list" where
  "writeout_walks = [Walk 0 0 8 True False False, Walk 0 0 8 False False False, Walk 0 0 8 True True False]"

lemma writeout_run:
  "\<exists>sp. spec_run [0] writeout_walks (fresh_pages 32) = Some sp \<and> sp_free sp = 24 \<and>
     (\<forall>pg\<in>{0..<8}. \<exists>c. sp_page sp 0 pg = Some c \<and> PG_dirty c \<and> PG_writeback c)"
  by (simp add: writeout_walks_def spec_admits_def spec_walk_def spec_missing_def fresh_pages_def upto_rec1 page_after_def)

theorem read_releases_pages_of_others_witness:
  "\<exists>s s' sp'. run_res do_walk writeout_walks (fresh_cache 32) = Inr s \<and> do_walk (Walk 0 0 8 False False True) s = Inr s' \<and>
    shows_pages s' sp' \<and> (\<forall>pg\<in>{0..<8}. \<exists>c. sp_page sp' 0 pg = Some c \<and> writable c)"
proof -
  obtain sp where sp: "spec_run [0] writeout_walks (fresh_pages 32) = Some sp" "sp_free sp = 24"
    "\<forall>pg\<in>{0..<8}. \<exists>c. sp_page sp 0 pg = Some c \<and> PG_dirty c \<and> PG_writeback c" using writeout_run by blast
  then obtain s where s: "run_res do_walk writeout_walks (fresh_cache 32) = Inr s" "shows_pages s sp" "fileIDs s = [0]"
    using run_implements [OF fresh_shows, of 32 writeout_walks sp] by (auto simp: fresh_ids)
  have "free_pages s = 24" "0 \<in> set (fileIDs s)" using s(2,3) sp(2) by (simp_all add: shows_pages_def)
  then show ?thesis using read_releases_pages_of_others [OF s(2), of 0 0 8] s(1) sp(3) by auto
qed

text \<open>
  The states of a read that goes on behind the end of a full cache: one range \<open>c\<close> at the address
  \<open>a\<close> holds all pages, and \<^verbatim>\<open>pr_last\<close> is \<open>l\<close>.
\<close>

definition filled_cache :: "int \<Rightarrow> nat \<Rightarrow> pr_t \<Rightarrow> ptr \<Rightarrow> int \<Rightarrow> dcache" where
  "filled_cache n a c l free = (fresh_cache n)
     \<lparr>free_pages := free, trimCacheCounter := int a + 1, lru_list := Some a, lru_list_end := Some a,
      files := (\<lambda>_. None)(0 \<mapsto> \<lparr> f_id = 0, o_sync = False, o_direct = False, f_ra = new_ra, pr_head = Some a, pr_last = l \<rparr>),
      heap := (\<lambda>_. None)(a \<mapsto> c), heap_next := Suc a\<rparr>"

definition read_range :: "int \<Rightarrow> int \<Rightarrow> bool \<Rightarrow> pr_t" where
  "read_range st en busy = (new_pr 0 st en False None None)\<lparr>pr_count := (if busy then 1 else 0), PG_locked := busy\<rparr>"

lemmas walk_defs = do_walk_def walkCache_update_def filled_cache_def fresh_cache_def DiskCache_initialize_def new_pr_def
  read_range_def Let_def walk_miss_def walk_hit_def walk_hit_start_def hit_pr_def copy_pr_def alloc_def upd_file_def
  lru_push_def lru_substitute_def numeral_2_eq_2

lemmas reclaim_defs = file_of_def lru_free_pages_def cache_h pagetable_delete_def pagetable_unlink_def lru_delete_def lru_unlink_def

lemma read_begins: "0 < n \<Longrightarrow> do_walk (Walk 0 0 n True True True) (fresh_cache n) = Inr (filled_cache n 0 (read_range 0 n True) None 0)"
  by (simp add: walk_defs)

lemma read_ends: "0 < n \<Longrightarrow> do_walk (Walk 0 0 n False True True) (filled_cache n 0 (read_range 0 n True) None 0) =
    Inr (filled_cache n 1 (read_range 0 n False) None 0)"
  by (simp add: walk_defs)

lemma read_reclaims:
  assumes "0 < n" "n \<le> 32" "n \<le> m" "m < k" "k - m \<le> n"
  shows "do_walk (Walk 0 m k True True True) (filled_cache n 1 (read_range 0 n False) None 0) =
    Inr (filled_cache n 2 (read_range m k True) (Some 1) (n - (k - m)))"
  using assms by (simp add: walk_defs reclaim_defs)

text \<open>
  Claim C14. Reclaiming pages can leave a dangling pointer: when the room for new pages of a file is
  made by deleting the range before them, \<^verbatim>\<open>pr_last\<close> of the file is then set to the deleted range,
  and the next access to the file reads it. A read that goes on behind the end of a full cache ends so.
\<close>

theorem reclaim_leaves_dangling_pointer:
  assumes "0 < n" "n \<le> 32" "n \<le> m" "m < k" "k - m \<le> n"
  shows "run_res do_walk [Walk 0 0 n True True True, Walk 0 0 n False True True, Walk 0 m k True True True, Walk 0 m k False True True]
     (fresh_cache n) = Inl (UseAfterFree ''DiskCache'')"
proof -
  have "do_walk (Walk 0 m k False True True) (filled_cache n 2 (read_range m k True) (Some 1) (n - (k - m))) = Inl (UseAfterFree ''DiskCache'')"
    by (simp add: do_walk_def walkCache_update_def filled_cache_def deref_def)
  then show ?thesis using assms read_reclaims [OF assms] by (simp add: read_begins read_ends)
qed

theorem reclaim_leaves_dangling_pointer_witness:
  "run_res do_walk [Walk 0 0 32 True True True, Walk 0 0 32 False True True, Walk 0 32 40 True True True, Walk 0 32 40 False True True]
     (fresh_cache 32) = Inl (UseAfterFree ''DiskCache'')"
  by (rule reclaim_leaves_dangling_pointer) simp_all

end
