(* ===== verification/Spec2Isabelle.thy ===== *)
theory Spec2Isabelle
  imports SfqFair Dsfq Ssfq Dta Avatar I2l Sfqrc Scheduler Proxy ClientRun Application DsdRun Vfs LfsRun DiskRun Mserver CacheSpec
begin

text \<open>
  PFSsim: a simulator of a parallel file system with scheduling proxies, on OMNeT++.

  \<^bold>\<open>The program.\<close> Applications on the clients replay traces. A trace is cut into packets, which a
  router hands to a proxy; the proxy queues them in one of eleven schedulers and dispatches them
  to a data server, whose daemon passes them through a file system of pages, a page cache, a local
  file system and a disk. A metadata server answers the queries for the layouts of the files. The
  modules exchange packets (\<^verbatim>\<open>packet/Packets.msg\<close>); each handles one message at a time, so a module
  is a state and a function from a message and the state to the new state and what is sent, and a
  run of a module is a list of messages.

  \<^bold>\<open>Conventions.\<close> A result is \<open>Inr x\<close>, or \<open>Inl f\<close> when the C++ run stops with the fault \<open>f\<close>:
  \<^verbatim>\<open>PrintError::print\<close> and its \<^verbatim>\<open>throw\<close>, an access outside an array, through NULL or to a deleted
  object, a division by zero, a loop that does not end. \<^verbatim>\<open>int\<close> and \<^verbatim>\<open>long\<close> are \<open>int\<close>, with the
  conversion to 32 bits written \<open>to_int32\<close>; \<^verbatim>\<open>double\<close> is \<open>real\<close> (\<open>Avatar\<close> has infinities and the
  not-a-number of a division by zero as a type \<open>dbl\<close>); \<^verbatim>\<open>/\<close> and \<^verbatim>\<open>%\<close> truncate. A class with a
  base class is a record extension. Packets are values; where a store through a shared pointer
  matters it is an operation of its own (\<open>fifo_mutate_job\<close>, \<open>sched_touch\<close>), requests whose address
  is a key carry a number, and the page ranges of the disk cache live in an explicit heap.
  \<^verbatim>\<open>simTime()\<close> is an argument \<open>now\<close>. Memory that the code reads before it is initialised is an
  argument (\<open>mem\<close>, \<open>heap\<close>, \<open>junk\<close>). Lines of text that the code scans with \<^verbatim>\<open>sscanf\<close> are the lists
  of the fields read. The classes of OMNeT++ that the code relies on are arguments with the laws
  they are used under (\<open>queue_laws\<close> for \<^verbatim>\<open>cQueue\<close>).

  \<^bold>\<open>Theories and sources\<close> (under \<^verbatim>\<open>src/omnetpp\<close>).
  \<^item> \<open>Prelude\<close>, \<open>Packets\<close>: \<^verbatim>\<open>General.h\<close>, \<^verbatim>\<open>util\<close>, \<^verbatim>\<open>packet\<close>; faults, results, integers, searches in lists,
    the round-robin loop.
  \<^item> \<open>IQueue\<close>: \<^verbatim>\<open>scheduler/IQueue\<close>, with its contract as the locale \<open>scheduler\<close> (no request is lost or
    duplicated) and \<open>bounded_scheduler\<close> (and at most \<^verbatim>\<open>degree\<close> are outstanding); every scheduler below
    interprets one of them.
  \<^item> \<open>Fifo\<close>, \<open>Edf\<close>, \<open>Sfq\<close>, \<open>SfqFair\<close>, \<open>Ssfq\<close>, \<open>Dsfq\<close>, \<open>Dta\<close>, \<open>I2l\<close>, \<open>Avatar\<close>, \<open>Sfqrc\<close>: the classes of the same
    names under \<^verbatim>\<open>scheduler\<close>, one definition for each method.
  \<^item> \<open>Scheduler\<close>: \<^verbatim>\<open>scheduler/SchedulerFactory.cc\<close>; the sum of all schedulers with the dynamic
    dispatch of the virtual functions.
  \<^item> \<open>Proxy\<close>: \<^verbatim>\<open>proxy/Proxy.cc\<close>; \<open>Network\<close>: \<^verbatim>\<open>router\<close>.
  \<^item> \<open>Layout\<close>, \<open>Trace\<close>, \<open>Striping\<close>, \<open>TraceRun\<close>: \<^verbatim>\<open>layout\<close>, \<^verbatim>\<open>pfsfile\<close>, \<^verbatim>\<open>trace\<close>; \<open>Striping\<close> is the specification
    of where the bytes of a file lie.
  \<^item> \<open>Client\<close>, \<open>ClientRun\<close>: \<^verbatim>\<open>client/pfsclient\<close>; \<open>Application\<close>: \<^verbatim>\<open>client/application\<close>.
  \<^item> \<open>Streamers\<close>: \<^verbatim>\<open>iostreamer\<close>; \<open>Mserver\<close>: \<^verbatim>\<open>mserver\<close>.
  \<^item> \<open>Dsd\<close>, \<open>DsdRun\<close>: \<^verbatim>\<open>dserver/dsd\<close>; \<open>Vfs\<close>: \<^verbatim>\<open>dserver/vfs\<close>; \<open>Lfs\<close>, \<open>LfsRun\<close>: \<^verbatim>\<open>dserver/lfs\<close>; \<open>Disk\<close>,
    \<open>DiskRun\<close>: \<^verbatim>\<open>dserver/disk\<close>.
  \<^item> \<open>ReadAhead\<close>, \<open>DiskCache\<close>: \<^verbatim>\<open>dserver/diskcache\<close>, with the linked lists in a heap of addresses.
    \<open>CacheLists\<close> (lists in the heap), \<open>CacheTable\<close> (tables of ranges and the pages they hold), \<open>CacheWalk\<close>,
    \<open>CacheHits\<close> (the walk over the ranges), \<open>CacheTrim\<close> (the merge of neighbours), \<open>CacheUpdate\<close> (the whole
    walk) and \<open>CacheSpec\<close> (the specification as a map of pages) are proofs about it.

  \<^bold>\<open>What is proved.\<close> For every scheduler: conservation of requests over any run, the choice it makes
  (deadlines, start tags, guarantees, thresholds), its accounts. For the proxy: its books agree with
  the scheduler it owns, its loops end and leave no request that the scheduler would let go (what a
  NULL of each scheduler means is in \<open>Scheduler\<close>). For client and trace: the
  packets ask for exactly the bytes of the access, where the striping puts them, and the accounts
  of the client agree. For the servers: reads and writes are cut exactly, the local file system
  implements a map from logical to physical blocks, tables and layout files survive a round trip,
  service times are bounded by the samples. The page cache implements a map of pages, its lists
  stay healthy and the walks end without a fault as long as there is room for the pages. The error theorems show what the code does in cases
  it does not mean to.

  \<^bold>\<open>Fuel.\<close> A loop that is not structural is a \<open>function\<close> with a measure, or runs with fuel and is
  the fault \<open>Diverge\<close> without. The fuel is an expression in the state that is shown, in the theorem
  on the operation, to be enough: the number of waiting requests (proxy, schedulers, \<open>Vfs\<close>), of
  windows and servers (\<open>Trace\<close>), of extents (\<open>Lfs\<close>), of addresses ever allocated (\<open>DiskCache\<close>: a list
  has no address twice). A theorem that a loop diverges holds for every fuel.

  \<^bold>\<open>Not modelled.\<close> \<^verbatim>\<open>disksim\<close> is a separate, vendored C program with patches, which the simulator
  does not link. \<^verbatim>\<open>SFQRC_old\<close> is dead code. The output streamers print statistics with \<^verbatim>\<open>snprintf\<close>;
  destructors, debug output and \<^verbatim>\<open>finish\<close> functions only free and print. The \<^verbatim>\<open>ned\<close> and \<^verbatim>\<open>ini\<close> files
  configure the modules: their parameters are the arguments of the \<^verbatim>\<open>initialize\<close> functions.
\<close>

end
